(* ===== verification/Prelude.thy ===== *)
theory Prelude
  imports Main "HOL-Library.Word" "HOL-Library.Signed_Division"
begin

text \<open>
  Shared ground of the development: the machine types of the C code, byte memories
  (functions from an offset to a byte) with their little-endian field accessors, the
  conversions between C text (HOL strings, without the terminating NUL) and bytes, and
  the interface of a bitmap of used units that the page allocator (\<open>alloc.c\<close>) and the
  block allocator (\<open>fs.c\<close>) both implement.
\<close>

unbundle bit_operations_syntax

section \<open>Machine types\<close>

type_synonym u8 = "8 word"
type_synonym u16 = "16 word"
type_synonym u32 = "32 word"
type_synonym u64 = "64 word"

text \<open>A block of memory, addressed by the offset from its first byte.\<close>

type_synonym mem8 = "nat \<Rightarrow> u8"

named_theorems mem_simps \<open>reading back what was written to a byte memory\<close>
named_theorems bitmap_simps \<open>used bits of a bitmap after setting and clearing\<close>

section \<open>Little-endian fields of a byte memory\<close>

definition le16 :: "mem8 \<Rightarrow> nat \<Rightarrow> u16" where
  "le16 m i = ucast (m i) OR push_bit 8 (ucast (m (i + 1)))"

definition le32 :: "mem8 \<Rightarrow> nat \<Rightarrow> u32" where
  "le32 m i = ucast (m i) OR push_bit 8 (ucast (m (i + 1))) OR
     push_bit 16 (ucast (m (i + 2))) OR push_bit 24 (ucast (m (i + 3)))"

definition put16 :: "mem8 \<Rightarrow> nat \<Rightarrow> u16 \<Rightarrow> mem8" where
  "put16 m i v = m(i := ucast v, i + 1 := ucast (drop_bit 8 v))"

definition put32 :: "mem8 \<Rightarrow> nat \<Rightarrow> u32 \<Rightarrow> mem8" where
  "put32 m i v = m(i := ucast v, i + 1 := ucast (drop_bit 8 v),
     i + 2 := ucast (drop_bit 16 v), i + 3 := ucast (drop_bit 24 v))"

lemma le32_put32_same [simp, mem_simps]: "le32 (put32 m i v) i = v"
proof (rule bit_word_eqI)
  fix n :: nat assume "n < LENGTH(32)"
  then consider "n < 8" | "8 \<le> n" "n < 16" | "16 \<le> n" "n < 24" | "24 \<le> n" "n < 32"
    by force
  then show "bit (le32 (put32 m i v) i) n = bit v n"
    by cases (auto simp: le32_def put32_def bit_or_iff bit_push_bit_iff bit_ucast_iff
       bit_drop_bit_eq not_le)
qed

lemma le16_put16_same [simp, mem_simps]: "le16 (put16 m i v) i = v"
  by (rule bit_word_eqI)
    (auto simp: le16_def put16_def bit_or_iff bit_push_bit_iff bit_ucast_iff bit_drop_bit_eq
       not_le less_Suc_eq_le)

lemma put32_other [simp, mem_simps]: "j < i \<or> i + 4 \<le> j \<Longrightarrow> put32 m i v j = m j"
  by (auto simp: put32_def)

lemma put16_other [simp, mem_simps]: "j < i \<or> i + 2 \<le> j \<Longrightarrow> put16 m i v j = m j"
  by (auto simp: put16_def)

lemma le32_cong: "(\<And>k. k < 4 \<Longrightarrow> m (i + k) = m' (i + k)) \<Longrightarrow> le32 m i = le32 m' i"
proof -
  assume e: "\<And>k. k < 4 \<Longrightarrow> m (i + k) = m' (i + k)"
  have "m i = m' i" "m (i + 1) = m' (i + 1)" "m (i + 2) = m' (i + 2)" "m (i + 3) = m' (i + 3)"
    using e [of 0] e [of 1] e [of 2] e [of 3] by simp_all
  then show ?thesis by (simp only: le32_def)
qed

lemma le16_cong: "(\<And>k. k < 2 \<Longrightarrow> m (i + k) = m' (i + k)) \<Longrightarrow> le16 m i = le16 m' i"
proof -
  assume e: "\<And>k. k < 2 \<Longrightarrow> m (i + k) = m' (i + k)"
  have "m i = m' i" "m (i + 1) = m' (i + 1)"
    using e [of 0] e [of 1] by simp_all
  then show ?thesis by (simp only: le16_def)
qed

lemma le32_put32_other [simp, mem_simps]:
  "j + 4 \<le> i \<or> i + 4 \<le> j \<Longrightarrow> le32 (put32 m i v) j = le32 m j"
  by (rule le32_cong) auto

lemma le32_put16_other [simp, mem_simps]:
  "j + 4 \<le> i \<or> i + 2 \<le> j \<Longrightarrow> le32 (put16 m i v) j = le32 m j"
  by (rule le32_cong) auto

lemma le16_put32_other [simp, mem_simps]:
  "j + 2 \<le> i \<or> i + 4 \<le> j \<Longrightarrow> le16 (put32 m i v) j = le16 m j"
  by (rule le16_cong) auto

lemma le16_put16_other [simp, mem_simps]:
  "j + 2 \<le> i \<or> i + 2 \<le> j \<Longrightarrow> le16 (put16 m i v) j = le16 m j"
  by (rule le16_cong) auto

lemma unat_of_nat_u32 [simp]: "n < 4294967296 \<Longrightarrow> unat (of_nat n :: u32) = n"
  by (simp add: unsigned_of_nat take_bit_nat_eq_self)

text \<open>Rounding an address down to a page: \<open>w & ~(PAGE_SIZE - 1)\<close>.\<close>

lemma unat_page_down: "unat ((w::u32) AND NOT 4095) = unat w div 4096 * 4096"
proof -
  have "w AND NOT (mask 12) = push_bit 12 (drop_bit 12 w)"
    by (rule bit_word_eqI)
      (auto simp: bit_and_iff bit_not_iff bit_mask_iff bit_push_bit_iff bit_drop_bit_eq not_less)
  then have "w AND NOT 4095 = push_bit 12 (drop_bit 12 w)"
    by (simp add: mask_eq_exp_minus_1)
  moreover have "unat w < 4294967296" using unsigned_less [of w] by simp
  then have "unat w div 4096 * 4096 < 4294967296" by simp
  ultimately show ?thesis
    by (simp add: push_bit_eq_mult drop_bit_eq_div unat_word_ariths unat_div_distrib)
qed

lemma unat_page_down' [simp]: "unat ((w::u32) AND - 4096) = unat w div 4096 * 4096"
  using unat_page_down [of w] by simp

lemma unat_page_offset: "unat ((w::u32) AND 4095) = unat w mod 4096"
proof -
  have "(4095::u32) = mask 12" by (simp add: mask_eq_exp_minus_1)
  then show ?thesis
    by (simp only: take_bit_eq_mask [symmetric] unsigned_take_bit_eq) (simp add: take_bit_eq_mod)
qed

section \<open>Byte blocks: memset, memcpy and slices\<close>

definition mem_copy :: "mem8 \<Rightarrow> nat \<Rightarrow> u8 list \<Rightarrow> mem8" where
  "mem_copy m i xs = (\<lambda>j. if i \<le> j \<and> j < i + length xs then xs ! (j - i) else m j)"

definition mem_fill :: "mem8 \<Rightarrow> nat \<Rightarrow> nat \<Rightarrow> u8 \<Rightarrow> mem8" where
  "mem_fill m i n v = (\<lambda>j. if i \<le> j \<and> j < i + n then v else m j)"

definition bytes_at :: "mem8 \<Rightarrow> nat \<Rightarrow> nat \<Rightarrow> u8 list" where
  "bytes_at m i n = map m [i ..< i + n]"

lemma length_bytes_at [simp]: "length (bytes_at m i n) = n"
  by (simp add: bytes_at_def)

lemma nth_bytes_at [simp]: "k < n \<Longrightarrow> bytes_at m i n ! k = m (i + k)"
  by (simp add: bytes_at_def)

lemma bytes_at_0 [simp]: "bytes_at m i 0 = []"
  by (simp add: bytes_at_def)

lemma bytes_at_mem_copy [simp, mem_simps]: "n \<le> length xs \<Longrightarrow> bytes_at (mem_copy m i xs) i n = take n xs"
  by (rule nth_equalityI) (auto simp: mem_copy_def)

lemma mem_copy_other [simp, mem_simps]: "j < i \<or> i + length xs \<le> j \<Longrightarrow> mem_copy m i xs j = m j"
  by (auto simp: mem_copy_def)

lemma mem_fill_other [simp, mem_simps]: "j < i \<or> i + n \<le> j \<Longrightarrow> mem_fill m i n v j = m j"
  by (auto simp: mem_fill_def)

lemma bytes_at_cong: "(\<And>k. k < n \<Longrightarrow> m (i + k) = m' (i + k)) \<Longrightarrow> bytes_at m i n = bytes_at m' i n"
  by (rule nth_equalityI) auto

lemma le32_mem_copy_other [simp, mem_simps]:
  "j + 4 \<le> i \<or> i + length xs \<le> j \<Longrightarrow> le32 (mem_copy m i xs) j = le32 m j"
  by (rule le32_cong) auto

lemma bytes_at_put32_other [simp, mem_simps]:
  "j + n \<le> i \<or> i + 4 \<le> j \<Longrightarrow> bytes_at (put32 m i v) j n = bytes_at m j n"
  by (rule bytes_at_cong) auto

section \<open>Text and bytes\<close>

text \<open>
  \<open>char\<close> is unsigned in the RISC-V ABI the code is compiled for. A C string is the HOL
  string of its characters before the terminating NUL.
\<close>

definition c2b :: "char \<Rightarrow> u8" where "c2b c = of_char c"
definition b2c :: "u8 \<Rightarrow> char" where "b2c b = char_of (unat b)"

abbreviation NUL :: char where "NUL \<equiv> CHR 0x00"

definition cstr :: "string \<Rightarrow> bool" where "cstr s \<longleftrightarrow> NUL \<notin> set s"

lemma c2b_conv: "c2b c = of_nat (of_char c :: nat)"
  by (simp add: c2b_def of_nat_of_char)

lemma unat_c2b: "unat (c2b c) = of_char c"
  by (simp add: c2b_conv unsigned_of_nat take_bit_nat_eq_self)

lemma b2c_c2b [simp]: "b2c (c2b c) = c"
  by (simp add: b2c_def unat_c2b)

lemma c2b_b2c [simp]: "c2b (b2c b) = b"
proof -
  have "unat b < 256" using unsigned_less [of b] by simp
  then show ?thesis by (simp add: b2c_def c2b_conv)
qed

lemma c2b_inject [simp]: "c2b c = c2b d \<longleftrightarrow> c = d"
  by (metis b2c_c2b)

lemma b2c_inject [simp]: "b2c a = b2c b \<longleftrightarrow> a = b"
  by (metis c2b_b2c)

lemma b2c_zero [simp]: "b2c 0 = NUL"
  by (simp add: b2c_def char_of_def)

lemma c2b_eq_0_iff [simp]: "c2b c = 0 \<longleftrightarrow> c = NUL"
  by (metis b2c_c2b b2c_zero c2b_b2c)

lemma b2c_eq_NUL_iff [simp]: "b2c b = NUL \<longleftrightarrow> b = 0"
  by (metis b2c_zero b2c_inject)

lemma cstr_simps [simp]: "cstr []" "cstr (c # s) \<longleftrightarrow> c \<noteq> NUL \<and> cstr s"
    "cstr (s @ t) \<longleftrightarrow> cstr s \<and> cstr t"
  by (auto simp: cstr_def)

lemma cstr_take: "cstr s \<Longrightarrow> cstr (take n s)"
  by (auto simp: cstr_def dest: in_set_takeD)

lemma cstr_drop: "cstr s \<Longrightarrow> cstr (drop n s)"
  by (auto simp: cstr_def dest: in_set_dropD)

text \<open>The character at an index of a C string, its terminating NUL included.\<close>

definition char_at :: "string \<Rightarrow> nat \<Rightarrow> char" where
  "char_at s i = (if i < length s then s ! i else NUL)"

lemma char_at_simps [simp]: "char_at [] i = NUL" "char_at (c # s) 0 = c" "char_at (c # s) (Suc i) = char_at s i"
  by (auto simp: char_at_def)

section \<open>Finite maps\<close>

lemma ex_map_upd_new:
  "L k = None \<Longrightarrow> (\<exists>j m. (L(k \<mapsto> n)) j = Some m \<and> P j m) \<longleftrightarrow> P k n \<or> (\<exists>j m. L j = Some m \<and> P j m)"
  by (metis fun_upd_apply option.distinct(1) option.inject)

lemma map_del_Some_iff: "(A(p := None)) q = Some b \<longleftrightarrow> q \<noteq> p \<and> A q = Some b"
  by auto

lemma map_upd_Some_iff: "(A(p \<mapsto> x)) q = Some b \<longleftrightarrow> q = p \<and> b = x \<or> q \<noteq> p \<and> A q = Some b"
  by auto

section \<open>Bitmaps of used units\<close>

text \<open>
  The two allocators of the kernel keep a bitmap with one bit per unit (page or block).
  The interface they give their search and marking loops: reading a bit after setting or
  clearing one.
\<close>

locale used_map =
  fixes used :: "'s \<Rightarrow> nat \<Rightarrow> bool"
    and set_used :: "'s \<Rightarrow> nat \<Rightarrow> 's"
    and clear_used :: "'s \<Rightarrow> nat \<Rightarrow> 's"
    and valid :: "nat \<Rightarrow> bool"
  assumes used_set: "valid p \<Longrightarrow> valid q \<Longrightarrow> used (set_used s p) q \<longleftrightarrow> q = p \<or> used s q"
    and used_clear: "valid p \<Longrightarrow> valid q \<Longrightarrow> used (clear_used s p) q \<longleftrightarrow> q \<noteq> p \<and> used s q"
begin

lemma used_fold_set:
  "(\<forall>p \<in> set ps. valid p) \<Longrightarrow> valid q \<Longrightarrow>
    used (foldl set_used s ps) q \<longleftrightarrow> q \<in> set ps \<or> used s q"
  by (induction ps arbitrary: s) (auto simp: used_set)

lemma used_fold_clear:
  "(\<forall>p \<in> set ps. valid p) \<Longrightarrow> valid q \<Longrightarrow>
    used (foldl clear_used s ps) q \<longleftrightarrow> q \<notin> set ps \<and> used s q"
  by (induction ps arbitrary: s) (auto simp: used_clear)

lemma used_clear_after_set:
  "(\<forall>p \<in> set ps. valid p) \<Longrightarrow> valid q \<Longrightarrow> (\<And>p. p \<in> set ps \<Longrightarrow> \<not> used s p) \<Longrightarrow>
    used (foldl clear_used (foldl set_used s ps) ps) q \<longleftrightarrow> used s q"
  by (auto simp: used_fold_clear used_fold_set)

end

section \<open>The contract of a memory allocator\<close>

text \<open>
  What a client of \<open>malloc\<close> and \<open>free\<close> relies on. \<open>inv h A\<close> says that \<open>h\<close> is a good heap whose
  live blocks are \<open>A\<close>: a map from user addresses to the number of bytes the client may use.
\<close>

locale block_allocator =
  fixes alloc :: "'h \<Rightarrow> u32 \<Rightarrow> u32 \<times> 'h"
    and release :: "'h \<Rightarrow> u32 \<Rightarrow> 'h"
    and inv :: "'h \<Rightarrow> (u32 \<rightharpoonup> nat) \<Rightarrow> bool"
  assumes alloc_null: "inv h A \<Longrightarrow> alloc h sz = (0, h') \<Longrightarrow> inv h' A"
    and alloc_block: "inv h A \<Longrightarrow> alloc h sz = (p, h') \<Longrightarrow> p \<noteq> 0 \<Longrightarrow>
      A p = None \<and> (\<exists>n \<ge> unat sz. inv h' (A(p \<mapsto> n)))"
    and release_live: "inv h A \<Longrightarrow> A p \<noteq> None \<Longrightarrow> inv (release h p) (A(p := None))"
    and release_null: "inv h A \<Longrightarrow> inv (release h 0) A"
    and blocks_disjoint: "inv h A \<Longrightarrow> A p = Some n \<Longrightarrow> A q = Some m \<Longrightarrow> p \<noteq> q \<Longrightarrow>
      {unat p ..< unat p + n} \<inter> {unat q ..< unat q + m} = {}"
begin

text \<open>Exchanging a block for a larger one, as every growing buffer of the kernel does.\<close>

lemma exchange:
  assumes "inv h A" "A p = Some m" "alloc h sz = (q, h')" "q \<noteq> 0"
  shows "\<exists>n \<ge> unat sz. inv (release h' p) (A(q \<mapsto> n, p := None)) \<and> q \<noteq> p"
proof -
  obtain n where n: "n \<ge> unat sz" "inv h' (A(q \<mapsto> n))" "A q = None"
    using alloc_block [OF assms(1,3,4)] by blast
  have "q \<noteq> p" using n(3) assms(2) by auto
  then have "(A(q \<mapsto> n)) p \<noteq> None" using assms(2) by simp
  from release_live [OF n(2) this] n(1) \<open>q \<noteq> p\<close> show ?thesis by blast
qed

lemma exchange_null:
  assumes "inv h A" "alloc h sz = (q, h')" "q \<noteq> 0"
  shows "\<exists>n \<ge> unat sz. inv (release h' 0) (A(q \<mapsto> n)) \<and> A q = None"
  using alloc_block [OF assms] release_null by blast

text \<open>A scratch block taken and given back leaves the live blocks as they were.\<close>

lemma alloc_release:
  assumes "inv h A" "alloc h sz = (p, h')" "p \<noteq> 0"
  shows "inv (release h' p) A"
proof -
  obtain n where n: "inv h' (A(p \<mapsto> n))" "A p = None"
    using alloc_block [OF assms] by blast
  from release_live [OF n(1), of p] have "inv (release h' p) ((A(p \<mapsto> n))(p := None))" by simp
  moreover have "(A(p \<mapsto> n))(p := None) = A" using n(2) by (simp add: fun_upd_idem)
  ultimately show ?thesis by simp
qed

end

text \<open>The bit operations both allocators use on a byte of their bitmap.\<close>

definition byte_mask :: "nat \<Rightarrow> u8" where
  "byte_mask i = push_bit (i mod 8) 1"

lemma bit_byte_mask: "bit (byte_mask i) k \<longleftrightarrow> k = i mod 8"
  by (auto simp: byte_mask_def push_bit_eq_mult bit_exp_iff possible_bit_word)

lemma and_mask_nonzero: "(b AND byte_mask i) \<noteq> 0 \<longleftrightarrow> bit b (i mod 8)"
proof -
  have "b AND byte_mask i = (if bit b (i mod 8) then byte_mask i else 0)"
    by (rule bit_word_eqI) (auto simp: bit_and_iff bit_byte_mask)
  moreover have "byte_mask i \<noteq> 0"
    using bit_byte_mask [of i "i mod 8"] by auto
  ultimately show ?thesis by auto
qed

lemma bit_or_mask: "bit (b OR byte_mask i) k \<longleftrightarrow> bit b k \<or> k = i mod 8"
  by (auto simp: bit_or_iff bit_byte_mask)

lemma bit_andnot_mask: "k < 8 \<Longrightarrow> bit (b AND NOT (byte_mask i)) k \<longleftrightarrow> bit b k \<and> k \<noteq> i mod 8"
  by (auto simp: bit_and_iff bit_not_iff bit_byte_mask dest: bit_imp_le_length)

lemma div_mod_8_eq: "(p::nat) div 8 = q div 8 \<Longrightarrow> p mod 8 = q mod 8 \<Longrightarrow> p = q"
  by (metis div_mult_mod_eq)

section \<open>Queues that drop their oldest element\<close>

text \<open>
  The input queues of the kernel are rings with a head and a tail index. A push into a full
  ring moves the head on, so that the newest elements are kept.
\<close>

definition newest :: "nat \<Rightarrow> 'a list \<Rightarrow> 'a list" where
  "newest n xs = drop (length xs - n) xs"

lemma newest_all [simp]: "length xs \<le> n \<Longrightarrow> newest n xs = xs"
  by (simp add: newest_def)

lemma length_newest [simp]: "length (newest n xs) = min n (length xs)"
  by (simp add: newest_def)

lemma newest_newest_snoc: "newest n (newest n xs @ [x]) = newest n (xs @ [x])"
proof (cases "length xs \<le> n")
  case False
  then obtain k where k: "length xs = n + k" by (metis le_Suc_ex nat_le_linear)
  show ?thesis by (cases n) (simp_all add: newest_def k)
qed simp

locale drop_oldest_queue =
  fixes push :: "'s \<Rightarrow> 'a \<Rightarrow> 's"
    and pop :: "'s \<Rightarrow> ('a \<times> 's) option"
    and queue :: "'s \<Rightarrow> 'a list"
    and wf :: "'s \<Rightarrow> bool"
    and cap :: nat
  assumes push_queue: "wf s \<Longrightarrow> wf (push s x) \<and> queue (push s x) = newest cap (queue s @ [x])"
    and pop_None: "wf s \<Longrightarrow> pop s = None \<longleftrightarrow> queue s = []"
    and pop_Some: "wf s \<Longrightarrow> pop s = Some (x, s') \<Longrightarrow> wf s' \<and> queue s = x # queue s'"
    and queue_cap: "wf s \<Longrightarrow> length (queue s) \<le> cap"
begin

lemma push_all: "wf s \<Longrightarrow> wf (foldl push s xs) \<and> queue (foldl push s xs) = newest cap (queue s @ xs)"
proof (induction xs rule: rev_induct)
  case Nil
  then show ?case using queue_cap by simp
next
  case (snoc x xs)
  then show ?case
    using push_queue [of "foldl push s xs" x] newest_newest_snoc [of cap "queue s @ xs" x] by simp
qed

text \<open>Popping until the queue is empty.\<close>

fun pops :: "nat \<Rightarrow> 's \<Rightarrow> 'a list" where
  "pops 0 s = []"
| "pops (Suc n) s = (case pop s of None \<Rightarrow> [] | Some (x, s') \<Rightarrow> x # pops n s')"

lemma pops_queue: "wf s \<Longrightarrow> length (queue s) \<le> n \<Longrightarrow> pops n s = queue s"
proof (induction n arbitrary: s)
  case (Suc n)
  show ?case
  proof (cases "pop s")
    case None
    then show ?thesis using pop_None [OF Suc.prems(1)] by simp
  next
    case (Some a)
    obtain x s' where a: "a = (x, s')" by fastforce
    show ?thesis using pop_Some [OF Suc.prems(1), of x s'] Some Suc a by simp
  qed
qed simp

lemma pops_push_all:
  "wf s \<Longrightarrow> queue s = [] \<Longrightarrow> pops cap (foldl push s xs) = newest cap xs"
  using push_all [of s xs] pops_queue [of "foldl push s xs" cap] queue_cap [of "foldl push s xs"] by simp

end

text \<open>The ring that both input queues use, for any number of slots.\<close>

record ring =
  ring_head :: nat
  ring_tail :: nat
  ring_slots :: "nat \<Rightarrow> char"

definition ring_push :: "nat \<Rightarrow> ring \<Rightarrow> char \<Rightarrow> ring" where
  "ring_push N r c =
     (let nxt = (ring_tail r + 1) mod N in
      r\<lparr>ring_head := (if nxt = ring_head r then (ring_head r + 1) mod N else ring_head r),
        ring_slots := (ring_slots r)(ring_tail r := c), ring_tail := nxt\<rparr>)"

definition ring_pop :: "nat \<Rightarrow> ring \<Rightarrow> (char \<times> ring) option" where
  "ring_pop N r =
     (if ring_head r = ring_tail r then None
      else Some (ring_slots r (ring_head r), r\<lparr>ring_head := (ring_head r + 1) mod N\<rparr>))"

definition ring_wf :: "nat \<Rightarrow> ring \<Rightarrow> bool" where
  "ring_wf N r \<longleftrightarrow> ring_head r < N \<and> ring_tail r < N"

definition ring_len :: "nat \<Rightarrow> ring \<Rightarrow> nat" where
  "ring_len N r = (if ring_head r \<le> ring_tail r then ring_tail r - ring_head r
                   else N - ring_head r + ring_tail r)"

definition ring_queue :: "nat \<Rightarrow> ring \<Rightarrow> string" where
  "ring_queue N r = map (\<lambda>i. ring_slots r ((ring_head r + i) mod N)) [0 ..< ring_len N r]"

lemma mod_wrap: "a < N \<Longrightarrow> b \<le> N \<Longrightarrow> (a + b) mod N = (if a + b < N then a + b else a + b - N)"
  for a b N :: nat
  by (simp add: mod_if)

lemma Suc_mod_wrap: "a < N \<Longrightarrow> Suc a mod N = (if Suc a = N then 0 else Suc a)"
  by (simp add: mod_Suc)

lemma ring_pop_queue:
  assumes "ring_wf N r" "1 < N"
  shows "case ring_pop N r of
      None \<Rightarrow> ring_queue N r = []
    | Some (c, r') \<Rightarrow> ring_wf N r' \<and> ring_queue N r = c # ring_queue N r'"
proof (cases "ring_head r = ring_tail r")
  case True
  then show ?thesis by (simp add: ring_pop_def ring_queue_def ring_len_def)
next
  case False
  define r' where "r' = r\<lparr>ring_head := (ring_head r + 1) mod N\<rparr>"
  have b: "ring_head r < N" "ring_tail r < N" using assms by (auto simp: ring_wf_def)
  have len: "ring_len N r = Suc (ring_len N r')"
    using b False by (auto simp: ring_len_def r'_def Suc_mod_wrap split: if_splits)
  have "(ring_head r' + i) mod N = (ring_head r + Suc i) mod N" for i
    by (simp add: r'_def mod_Suc_eq mod_add_left_eq)
  then have "ring_queue N r = ring_slots r (ring_head r) # ring_queue N r'"
    using b by (simp add: ring_queue_def len upt_conv_Cons r'_def del: upt_Suc flip: map_Suc_upt)
  moreover have "ring_wf N r'" using b by (simp add: ring_wf_def r'_def)
  ultimately show ?thesis using False by (simp add: ring_pop_def r'_def)
qed

lemma ring_push_queue:
  assumes "ring_wf N r" "1 < N"
  shows "ring_wf N (ring_push N r c) \<and>
    ring_queue N (ring_push N r c) = newest (N - 1) (ring_queue N r @ [c])"
proof -
  have b: "ring_head r < N" "ring_tail r < N" using assms by (auto simp: ring_wf_def)
  define r1 where "r1 = r\<lparr>ring_slots := (ring_slots r)(ring_tail r := c)\<rparr>"
  have idx: "(ring_head r + i) mod N \<noteq> ring_tail r" if "i < ring_len N r" for i
    using that b by (auto simp: ring_len_def mod_wrap split: if_splits)
  have last_idx: "(ring_head r + ring_len N r) mod N = ring_tail r"
    using b by (auto simp: ring_len_def)
  have q1: "map (\<lambda>i. ring_slots r1 ((ring_head r + i) mod N)) [0 ..< Suc (ring_len N r)]
      = ring_queue N r @ [c]"
    using idx last_idx by (auto simp: r1_def ring_queue_def)
  have wf: "ring_wf N (ring_push N r c)"
    using b assms(2) by (auto simp: ring_wf_def ring_push_def Let_def)
  show ?thesis
  proof (cases "(ring_tail r + 1) mod N = ring_head r")
    case False
    then have "ring_len N (ring_push N r c) = Suc (ring_len N r)" "ring_len N r < N - 1"
      using b by (auto simp: ring_len_def ring_push_def Let_def Suc_mod_wrap split: if_splits)
    then have "ring_queue N (ring_push N r c) = ring_queue N r @ [c]"
      using q1 False by (simp add: ring_queue_def ring_push_def r1_def Let_def)
    moreover have "length (ring_queue N r) < N - 1"
      using \<open>ring_len N r < N - 1\<close> by (simp add: ring_queue_def)
    ultimately show ?thesis using wf by simp
  next
    case True
    then have len: "ring_len N (ring_push N r c) = N - 1" "ring_len N r = N - 1"
      using b assms(2) by (auto simp: ring_len_def ring_push_def Let_def Suc_mod_wrap split: if_splits)
    have "(ring_head (ring_push N r c) + i) mod N = (ring_head r + Suc i) mod N" for i
      using True by (simp add: ring_push_def Let_def mod_Suc_eq mod_add_left_eq)
    then have "ring_queue N (ring_push N r c) =
        map (\<lambda>i. ring_slots r1 ((ring_head r + Suc i) mod N)) [0 ..< N - 1]"
      using len by (simp add: ring_queue_def ring_push_def Let_def r1_def)
    also have "\<dots> = drop 1 (map (\<lambda>i. ring_slots r1 ((ring_head r + i) mod N)) [0 ..< Suc (N - 1)])"
      by (simp add: upt_conv_Cons drop_map del: upt_Suc flip: map_Suc_upt)
    also have "\<dots> = newest (N - 1) (ring_queue N r @ [c])"
      using q1 len assms(2) by (simp add: newest_def ring_queue_def)
    finally show ?thesis using wf by simp
  qed
qed

lemma ring_queue_cap: "ring_wf N r \<Longrightarrow> 1 < N \<Longrightarrow> length (ring_queue N r) \<le> N - 1"
  by (auto simp: ring_queue_def ring_len_def ring_wf_def)

end
