(* ===== verification/Alloc.thy ===== *)
theory Alloc
  imports Prelude
begin

text \<open>
  The kernel page allocator, \<open>vibeos/alloc.c\<close> (FPGA_MINIMAL build): a bitmap with one bit
  per 4096-byte page, first-fit search, and a 16-byte header in front of every block so
  that \<open>free\<close> finds its length. The memory outside the bitmap is a map from word addresses
  to words, read and written where the code reads and writes the header fields. Page
  numbers are naturals: a 32-bit heap has at most \<open>2 ^ 20\<close> pages, so the page sums of the
  loops cannot wrap; every size, address and header field is a 32-bit word.
\<close>

section \<open>State\<close>

record heap =
  HEAP_START :: u32
  HEAP_SIZE :: u32
  alloc_start :: u32
  alloc_end :: u32
  heap_total_pages :: u32
  alloc_pages :: u32
  bitmap_bytes :: u32
  bitmap :: mem8
  mem :: "u32 \<Rightarrow> u32"
  malloc_calls :: u32
  free_calls :: u32
  mstatus :: u32

abbreviation PAGE_SIZE :: u32 where "PAGE_SIZE \<equiv> 4096"
abbreviation PAGE_MASK :: u32 where "PAGE_MASK \<equiv> 4095"
abbreviation ALLOC_HEADER_SIZE :: u32 where "ALLOC_HEADER_SIZE \<equiv> 16"
abbreviation ALLOC_MAGIC :: u32 where "ALLOC_MAGIC \<equiv> 0x4d415030"
abbreviation FPGA_USB_DMA_CPU_BASE :: u32 where "FPGA_USB_DMA_CPU_BASE \<equiv> 0x851da000"
abbreviation FPGA_USB_DMA_CPU_SIZE :: u32 where "FPGA_USB_DMA_CPU_SIZE \<equiv> 0x00010000"
abbreviation FPGA_MINIMAL_HEAP_SIZE :: u32 where "FPGA_MINIMAL_HEAP_SIZE \<equiv> 32 * 1024 * 1024"
abbreviation MSTATUS_MIE :: u32 where "MSTATUS_MIE \<equiv> 8"

section \<open>Pages and the bitmap\<close>

definition align_page :: "u32 \<Rightarrow> u32" where
  "align_page address = (address + PAGE_MASK) AND NOT PAGE_MASK"

definition page_index_from_addr :: "heap \<Rightarrow> u32 \<Rightarrow> nat" where
  "page_index_from_addr h address = unat (drop_bit 12 (address - HEAP_START h))"

definition page_bit_mask :: "nat \<Rightarrow> u8" where
  "page_bit_mask page_index = push_bit (page_index AND 7) 1"

definition page_is_used :: "heap \<Rightarrow> nat \<Rightarrow> bool" where
  "page_is_used h page_index \<longleftrightarrow>
     bitmap h (drop_bit 3 page_index) AND page_bit_mask page_index \<noteq> 0"

definition page_set_used :: "heap \<Rightarrow> nat \<Rightarrow> heap" where
  "page_set_used h page_index = h\<lparr>bitmap := (bitmap h)
     (drop_bit 3 page_index := bitmap h (drop_bit 3 page_index) OR page_bit_mask page_index)\<rparr>"

definition page_clear_used :: "heap \<Rightarrow> nat \<Rightarrow> heap" where
  "page_clear_used h page_index = h\<lparr>bitmap := (bitmap h)
     (drop_bit 3 page_index :=
        bitmap h (drop_bit 3 page_index) AND NOT (page_bit_mask page_index))\<rparr>"

definition pages_for_size :: "u32 \<Rightarrow> u32" where
  "pages_for_size sz = drop_bit 12 (sz + PAGE_SIZE - 1)"

definition irq_save :: "heap \<Rightarrow> u32 \<times> heap" where
  "irq_save h = (mstatus h, h\<lparr>mstatus := mstatus h AND NOT MSTATUS_MIE\<rparr>)"

definition irq_restore :: "heap \<Rightarrow> u32 \<Rightarrow> heap" where
  "irq_restore h state = h\<lparr>mstatus := state\<rparr>"

text \<open>The marking loops \<open>for (j = 0; j < n; j++)\<close> over consecutive pages.\<close>

definition set_pages :: "heap \<Rightarrow> nat \<Rightarrow> nat \<Rightarrow> heap" where
  "set_pages h page n = foldl page_set_used h [page ..< page + n]"

definition clear_pages :: "heap \<Rightarrow> nat \<Rightarrow> nat \<Rightarrow> heap" where
  "clear_pages h page n = foldl page_clear_used h [page ..< page + n]"

definition reserve_page_range :: "heap \<Rightarrow> u32 \<Rightarrow> u32 \<Rightarrow> heap" where
  "reserve_page_range h start end' =
     (if end' \<le> start \<or> alloc_end h \<le> HEAP_START h then h
      else let s = start AND NOT PAGE_MASK; e = align_page end' in
        if e \<le> HEAP_START h \<or> s \<ge> alloc_end h then h
        else let s = (if s < HEAP_START h then HEAP_START h else s);
                 e = (if e > alloc_end h then alloc_end h else e);
                 first = unat (drop_bit 12 (s - HEAP_START h));
                 last = unat (drop_bit 12 (e - HEAP_START h))
             in set_pages h first (last - first))"

section \<open>Initialisation\<close>

text \<open>
  \<open>page_init\<close> computes the layout; a heap too small for its own bitmap stops the machine
  (the \<open>wfi\<close> loop), which is \<open>None\<close>.
\<close>

definition page_init :: "heap \<Rightarrow> heap option" where
  "page_init h =
     (let heap_start = HEAP_START h;
          heap_size = (if HEAP_SIZE h > FPGA_MINIMAL_HEAP_SIZE then FPGA_MINIMAL_HEAP_SIZE
                       else HEAP_SIZE h);
          total_pages = heap_size div PAGE_SIZE;
          bytes = (total_pages + 7) div 8;
          a_start = (heap_start + bytes + PAGE_MASK) AND NOT PAGE_MASK;
          a_end = heap_start + total_pages * PAGE_SIZE;
          a_pages = (a_end - a_start) div PAGE_SIZE
      in if a_start \<ge> a_end \<or> a_pages = 0 then None
         else
           let h = h\<lparr>heap_total_pages := total_pages, bitmap_bytes := bytes,
                     alloc_start := a_start, alloc_end := a_end, alloc_pages := a_pages,
                     bitmap := mem_fill (bitmap h) 0 (unat bytes) 0xff\<rparr>;
               first = unat ((a_start - heap_start) div PAGE_SIZE);
               h = clear_pages h first (unat total_pages - first)
           in Some (reserve_page_range h FPGA_USB_DMA_CPU_BASE
                      (FPGA_USB_DMA_CPU_BASE + FPGA_USB_DMA_CPU_SIZE)))"

section \<open>malloc and free\<close>

text \<open>The inner loop: the first offset whose page is used, if any.\<close>

function first_used :: "heap \<Rightarrow> nat \<Rightarrow> nat \<Rightarrow> nat \<Rightarrow> nat option" where
  "first_used h page npages j =
     (if j < npages then
        if page_is_used h (page + j) then Some j else first_used h page npages (Suc j)
      else None)"
  by pat_completeness auto
termination by (relation "measure (\<lambda>(h, page, n, j). n - j)") auto

declare first_used.simps [simp del]

text \<open>
  The outer loop: the first page that starts a run of \<open>npages\<close> free pages; after a used
  page at offset \<open>j\<close> the search goes on behind it (\<open>page += j\<close>, then \<open>page++\<close>).
\<close>

function find_run :: "heap \<Rightarrow> nat \<Rightarrow> nat \<Rightarrow> nat \<Rightarrow> nat option" where
  "find_run h page npages last_page =
     (if page + npages \<le> last_page then
        case first_used h page npages 0 of
          None \<Rightarrow> Some page
        | Some j \<Rightarrow> find_run h (page + j + 1) npages last_page
      else None)"
  by pat_completeness auto
termination by (relation "measure (\<lambda>(h, page, n, last). Suc last - page)") auto

declare find_run.simps [simp del]

definition first_page :: "heap \<Rightarrow> nat" where
  "first_page h = unat ((alloc_start h - HEAP_START h) div PAGE_SIZE)"

definition last_page :: "heap \<Rightarrow> nat" where
  "last_page h = first_page h + unat (alloc_pages h)"

definition page_addr :: "heap \<Rightarrow> nat \<Rightarrow> u32" where
  "page_addr h page = HEAP_START h + of_nat page * PAGE_SIZE"

definition write_header :: "heap \<Rightarrow> u32 \<Rightarrow> u32 \<Rightarrow> u32 \<Rightarrow> u32 \<Rightarrow> u32 \<Rightarrow> heap" where
  "write_header h hdr magic npages req_size reserved = h\<lparr>mem := (mem h)
     (hdr := magic, hdr + 4 := npages, hdr + 8 := req_size, hdr + 12 := reserved)\<rparr>"

abbreviation hdr_magic :: "heap \<Rightarrow> u32 \<Rightarrow> u32" where "hdr_magic h hdr \<equiv> mem h hdr"
abbreviation hdr_npages :: "heap \<Rightarrow> u32 \<Rightarrow> u32" where "hdr_npages h hdr \<equiv> mem h (hdr + 4)"
abbreviation hdr_req_size :: "heap \<Rightarrow> u32 \<Rightarrow> u32" where "hdr_req_size h hdr \<equiv> mem h (hdr + 8)"

text \<open>\<open>malloc\<close> returns the user address, 0 (\<open>NULL\<close>) when there is no room.\<close>

definition malloc :: "heap \<Rightarrow> u32 \<Rightarrow> u32 \<times> heap" where
  "malloc h0 sz0 =
     (let h = h0\<lparr>malloc_calls := malloc_calls h0 + 1\<rparr>;
          sz = (if sz0 = 0 then 1 else sz0)
      in if sz > 0xffffffff - ALLOC_HEADER_SIZE then (0, h)
         else let npages = pages_for_size (sz + ALLOC_HEADER_SIZE) in
           if npages = 0 \<or> npages > alloc_pages h then (0, h)
           else let (irq_state, h) = irq_save h in
             case find_run h (first_page h) (unat npages) (last_page h) of
               Some page \<Rightarrow>
                 let h = set_pages h page (unat npages);
                     hdr = page_addr h page;
                     h = write_header h hdr ALLOC_MAGIC npages sz 0;
                     h = irq_restore h irq_state
                 in (hdr + ALLOC_HEADER_SIZE, h)
             | None \<Rightarrow> (0, irq_restore h irq_state))"

definition free :: "heap \<Rightarrow> u32 \<Rightarrow> heap" where
  "free h0 p =
     (let h = h0\<lparr>free_calls := free_calls h0 + 1\<rparr> in
      if p = 0 then h
      else if p < HEAP_START h + ALLOC_HEADER_SIZE \<or> p \<ge> alloc_end h then h
      else let hdr = p - ALLOC_HEADER_SIZE in
        if hdr_magic h hdr \<noteq> ALLOC_MAGIC then h
        else if hdr < alloc_start h \<or> hdr \<ge> alloc_end h then h
        else if (hdr - alloc_start h) AND PAGE_MASK \<noteq> 0 then h
        else let start_page = page_index_from_addr h hdr in
          if start_page < first_page h \<or> start_page \<ge> last_page h then h
          else if of_nat start_page + hdr_npages h hdr > of_nat (last_page h) \<or>
                  hdr_npages h hdr = 0 then h
          else let (irq_state, h) = irq_save h;
                   h = clear_pages h start_page (unat (hdr_npages h hdr));
                   h = write_header h hdr 0 0 0 0
               in irq_restore h irq_state)"

section \<open>Accounting\<close>

definition count_used :: "heap \<Rightarrow> nat \<Rightarrow> nat \<Rightarrow> nat" where
  "count_used h first n = length (filter (\<lambda>i. page_is_used h (first + i)) [0 ..< n])"

text \<open>The five out-parameters: all, used and free pages, and the two call counters.\<close>

definition mem_usage_info :: "heap \<Rightarrow> u32 \<times> u32 \<times> u32 \<times> u32 \<times> u32" where
  "mem_usage_info h =
     (let all_pages = alloc_pages h;
          used = of_nat (count_used h (first_page h) (unat all_pages))
      in (all_pages, used, all_pages - used, malloc_calls h, free_calls h))"

definition kernel_heap_range_info :: "heap \<Rightarrow> u32 \<times> u32" where
  "kernel_heap_range_info h = (alloc_start h, alloc_end h)"

section \<open>realloc and calloc (user_utils.c)\<close>

text \<open>
  \<open>calloc\<close> multiplies in 32 bits; \<open>realloc\<close> reads the header in front of the block and
  takes 1024 as the old size when it is not a header. Only the addresses and the
  allocator state are modelled, not the copied bytes.
\<close>

definition calloc :: "heap \<Rightarrow> u32 \<Rightarrow> u32 \<Rightarrow> u32 \<times> heap" where
  "calloc h nmemb sz = malloc h (nmemb * sz)"

definition realloc :: "heap \<Rightarrow> u32 \<Rightarrow> u32 \<Rightarrow> u32 \<times> heap" where
  "realloc h ptr sz =
     (if ptr = 0 then malloc h sz
      else let hd' = ptr - 16;
               old_size = (if hdr_magic h hd' = ALLOC_MAGIC then hdr_req_size h hd' else 1024)
           in if sz \<le> old_size then (ptr, h)
              else let (new_ptr, h) = malloc h sz in
                if new_ptr \<noteq> 0 then (new_ptr, free h ptr) else (0, h))"

section \<open>The bitmap is a map of used pages\<close>

lemma nat_and_7: "(n::nat) AND 7 = n mod 8"
  using and_exp_eq_0_iff_not_bit take_bit_eq_mask [of 3 n]
  by (simp add: mask_eq_exp_minus_1 take_bit_eq_mod)

lemma page_bit_mask_eq: "page_bit_mask p = byte_mask p"
  by (simp add: page_bit_mask_def byte_mask_def nat_and_7)

lemma page_is_used_bit: "page_is_used h p \<longleftrightarrow> bit (bitmap h (p div 8)) (p mod 8)"
  by (simp add: page_is_used_def page_bit_mask_eq and_mask_nonzero drop_bit_eq_div)

lemma page_is_used_set:
  "page_is_used (page_set_used h p) q \<longleftrightarrow> q = p \<or> page_is_used h q"
  by (auto simp: page_is_used_bit page_set_used_def page_bit_mask_eq bit_or_mask drop_bit_eq_div
      dest: div_mod_8_eq)

lemma page_is_used_clear:
  "page_is_used (page_clear_used h p) q \<longleftrightarrow> q \<noteq> p \<and> page_is_used h q"
  by (auto simp: page_is_used_bit page_clear_used_def page_bit_mask_eq bit_andnot_mask
      drop_bit_eq_div dest: div_mod_8_eq)

interpretation page_map: used_map page_is_used page_set_used page_clear_used "\<lambda>_. True"
  by unfold_locales (auto simp: page_is_used_set page_is_used_clear)

lemma page_is_used_set_pages [bitmap_simps]:
  "page_is_used (set_pages h page n) q \<longleftrightarrow> page \<le> q \<and> q < page + n \<or> page_is_used h q"
  by (auto simp: set_pages_def page_map.used_fold_set)

lemma page_is_used_clear_pages [bitmap_simps]:
  "page_is_used (clear_pages h page n) q \<longleftrightarrow> \<not> (page \<le> q \<and> q < page + n) \<and> page_is_used h q"
  by (auto simp: clear_pages_def page_map.used_fold_clear)

lemma page_is_used_cong: "bitmap h = bitmap h' \<Longrightarrow> page_is_used h p = page_is_used h' p"
  by (simp add: page_is_used_def)

lemma page_is_used_updates [simp]:
  "page_is_used (h\<lparr>mem := m\<rparr>) p = page_is_used h p"
  "page_is_used (h\<lparr>mstatus := a\<rparr>) p = page_is_used h p"
  "page_is_used (h\<lparr>malloc_calls := c\<rparr>) p = page_is_used h p"
  "page_is_used (h\<lparr>free_calls := c\<rparr>) p = page_is_used h p"
  by (simp_all add: page_is_used_def)

text \<open>Marking pages touches the bitmap only.\<close>

lemma foldl_bitmap_frame:
  assumes "\<And>s p. \<exists>b. f s p = s\<lparr>bitmap := b\<rparr>"
  shows "\<exists>b. foldl f h ps = h\<lparr>bitmap := b\<rparr>"
proof (induction ps arbitrary: h)
  case Nil
  then show ?case by (auto intro: exI [of _ "bitmap h"])
next
  case (Cons p ps)
  obtain b where "f h p = h\<lparr>bitmap := b\<rparr>" using assms by blast
  moreover obtain b' where "foldl f (h\<lparr>bitmap := b\<rparr>) ps = h\<lparr>bitmap := b, bitmap := b'\<rparr>"
    using Cons by blast
  ultimately show ?case by auto
qed

lemma set_pages_frame: "\<exists>b. set_pages h page n = h\<lparr>bitmap := b\<rparr>"
  unfolding set_pages_def by (rule foldl_bitmap_frame) (auto simp: page_set_used_def)

lemma clear_pages_frame: "\<exists>b. clear_pages h page n = h\<lparr>bitmap := b\<rparr>"
  unfolding clear_pages_def by (rule foldl_bitmap_frame) (auto simp: page_clear_used_def)

lemma set_pages_fields [simp]:
  "HEAP_START (set_pages h page n) = HEAP_START h" "alloc_start (set_pages h page n) = alloc_start h"
  "alloc_end (set_pages h page n) = alloc_end h" "alloc_pages (set_pages h page n) = alloc_pages h"
  "mem (set_pages h page n) = mem h" "mstatus (set_pages h page n) = mstatus h"
  "malloc_calls (set_pages h page n) = malloc_calls h" "free_calls (set_pages h page n) = free_calls h"
  using set_pages_frame [of h page n] by auto

lemma clear_pages_fields [simp]:
  "HEAP_START (clear_pages h page n) = HEAP_START h"
  "alloc_start (clear_pages h page n) = alloc_start h"
  "alloc_end (clear_pages h page n) = alloc_end h" "alloc_pages (clear_pages h page n) = alloc_pages h"
  "mem (clear_pages h page n) = mem h" "mstatus (clear_pages h page n) = mstatus h"
  "malloc_calls (clear_pages h page n) = malloc_calls h"
  "free_calls (clear_pages h page n) = free_calls h"
  using clear_pages_frame [of h page n] by auto

section \<open>The search loops\<close>

lemma first_used_None_iff:
  "first_used h page n j = None \<longleftrightarrow> (\<forall>i. j \<le> i \<and> i < n \<longrightarrow> \<not> page_is_used h (page + i))"
proof (induction h page n j rule: first_used.induct)
  case (1 h page n j)
  show ?case
  proof (cases "j < n \<and> \<not> page_is_used h (page + j)")
    case True
    then have "first_used h page n j = first_used h page n (Suc j)"
      by (simp add: first_used.simps [of h page n j])
    moreover have "(\<forall>i. j \<le> i \<and> i < n \<longrightarrow> \<not> page_is_used h (page + i)) \<longleftrightarrow>
        (\<forall>i. Suc j \<le> i \<and> i < n \<longrightarrow> \<not> page_is_used h (page + i))"
      using True by (metis Suc_leD le_antisym not_less_eq_eq)
    ultimately show ?thesis using "1.IH" True by simp
  next
    case False
    then show ?thesis by (auto simp: first_used.simps [of h page n j])
  qed
qed

lemma first_used_Some:
  "first_used h page n j = Some i \<Longrightarrow> j \<le> i \<and> i < n \<and> page_is_used h (page + i)"
proof (induction h page n j rule: first_used.induct)
  case (1 h page n j)
  then show ?case
    by (cases "j < n \<and> \<not> page_is_used h (page + j)")
      (auto simp: first_used.simps [of h page n j] split: if_splits)
qed

lemma find_run_Some:
  "find_run h page n bound = Some k \<Longrightarrow>
    page \<le> k \<and> k + n \<le> bound \<and> (\<forall>p. k \<le> p \<and> p < k + n \<longrightarrow> \<not> page_is_used h p)"
proof (induction h page n bound rule: find_run.induct)
  case (1 h page n bound)
  show ?case
  proof (cases "page + n \<le> bound")
    case False
    with "1.prems" show ?thesis by (simp add: find_run.simps [of h page n bound])
  next
    case True
    show ?thesis
    proof (cases "first_used h page n 0")
      case None
      then have "\<forall>i < n. \<not> page_is_used h (page + i)"
        by (simp add: first_used_None_iff)
      moreover have "k = page"
        using None True "1.prems" by (simp add: find_run.simps [of h page n bound])
      ultimately show ?thesis using True
        by (metis le_add_diff_inverse le_refl less_diff_conv2 add.commute)
    next
      case (Some j)
      with True "1.prems" have "find_run h (page + j + 1) n bound = Some k"
        by (simp add: find_run.simps [of h page n bound])
      with "1.IH" True Some show ?thesis by force
    qed
  qed
qed

text \<open>The search is complete and first-fit: no run of free pages starts before its result.\<close>

lemma find_run_first:
  assumes "page \<le> k" "k + n \<le> bound" "\<forall>p. k \<le> p \<and> p < k + n \<longrightarrow> \<not> page_is_used h p"
  shows "\<exists>k'. find_run h page n bound = Some k' \<and> k' \<le> k"
  using assms
proof (induction h page n bound rule: find_run.induct)
  case (1 h page n bound)
  have le: "page + n \<le> bound" using "1.prems" by simp
  show ?case
  proof (cases "first_used h page n 0")
    case None
    with le "1.prems"(1) show ?thesis by (simp add: find_run.simps [of h page n bound])
  next
    case (Some j)
    then have j: "j < n" "page_is_used h (page + j)" by (auto dest: first_used_Some)
    have "page + j < k"
    proof (rule ccontr)
      assume "\<not> page + j < k"
      with j(1) "1.prems" have "\<not> page_is_used h (page + j)" by auto
      with j(2) show False by simp
    qed
    then have "page + j + 1 \<le> k" by simp
    with "1.IH" [OF le Some] "1.prems" obtain k'
      where "find_run h (page + j + 1) n bound = Some k'" "k' \<le> k" by blast
    with le Some show ?thesis by (simp add: find_run.simps [of h page n bound])
  qed
qed

section \<open>The heap layout\<close>

text \<open>
  The layout \<open>page_init\<close> leaves: the heap starts on a page boundary, the bitmap takes the
  pages below \<open>first_page\<close>, and pages \<open>first_page ..< last_page\<close> are the allocation area.
\<close>

definition layout_ok :: "heap \<Rightarrow> bool" where
  "layout_ok h \<longleftrightarrow>
     unat (HEAP_START h) mod 4096 = 0 \<and>
     unat (alloc_start h) = unat (HEAP_START h) + first_page h * 4096 \<and>
     unat (alloc_end h) = unat (HEAP_START h) + last_page h * 4096 \<and>
     0 < first_page h \<and> 0 < unat (alloc_pages h) \<and> last_page h \<le> 8192"

lemma first_last_fields [simp]:
  "first_page (set_pages h page n) = first_page h" "last_page (set_pages h page n) = last_page h"
  "first_page (clear_pages h page n) = first_page h" "last_page (clear_pages h page n) = last_page h"
  by (simp_all add: first_page_def last_page_def)

lemma page_addr_fields [simp]:
  "page_addr (set_pages h page n) k = page_addr h k"
  "page_addr (clear_pages h page n) k = page_addr h k"
  by (simp_all add: page_addr_def)

lemma layout_ok_cong:
  "HEAP_START h = HEAP_START h' \<Longrightarrow> alloc_start h = alloc_start h' \<Longrightarrow> alloc_end h = alloc_end h' \<Longrightarrow>
    alloc_pages h = alloc_pages h' \<Longrightarrow> layout_ok h = layout_ok h'"
  by (simp add: layout_ok_def first_page_def last_page_def)

lemma unat_page_addr:
  assumes "layout_ok h" "k \<le> last_page h"
  shows "unat (page_addr h k) = unat (HEAP_START h) + k * 4096"
proof -
  have e: "unat (alloc_end h) = unat (HEAP_START h) + last_page h * 4096" and "last_page h \<le> 8192"
    using assms(1) by (simp_all add: layout_ok_def)
  have "unat (alloc_end h) < 4294967296"
    using unsigned_less [of "alloc_end h"] by simp
  moreover have "k * 4096 \<le> last_page h * 4096" using assms(2) by simp
  ultimately have "unat (HEAP_START h) + k * 4096 < 4294967296" using e by linarith
  then show ?thesis
    using \<open>last_page h \<le> 8192\<close> assms(2)
    by (simp add: page_addr_def unat_word_ariths unsigned_of_nat take_bit_nat_eq_self)
qed

lemma page_addr_eq_iff:
  assumes "layout_ok h" "k \<le> last_page h" "k' \<le> last_page h"
  shows "page_addr h k = page_addr h k' \<longleftrightarrow> k = k'"
proof
  assume "page_addr h k = page_addr h k'"
  then have "unat (page_addr h k) = unat (page_addr h k')" by (rule arg_cong)
  then have "k * 4096 = k' * 4096"
    using unat_page_addr [OF assms(1,2)] unat_page_addr [OF assms(1,3)] by linarith
  then show "k = k'" by simp
qed simp

text \<open>The four header words of different pages do not overlap.\<close>

lemma unat_page_addr_plus:
  assumes "layout_ok h" "k < last_page h" "d < 4096"
  shows "unat (page_addr h k + of_nat d) = unat (HEAP_START h) + k * 4096 + d"
proof -
  have "unat (alloc_end h) < 4294967296" using unsigned_less [of "alloc_end h"] by simp
  moreover have "unat (alloc_end h) = unat (HEAP_START h) + last_page h * 4096"
    using assms(1) by (simp add: layout_ok_def)
  moreover have "Suc k * 4096 \<le> last_page h * 4096" using assms(2) by (intro mult_right_mono) auto
  ultimately have lt: "unat (HEAP_START h) + k * 4096 + d < 4294967296" using assms(3) by simp
  have "unat (page_addr h k) = unat (HEAP_START h) + k * 4096"
    using assms by (simp add: unat_page_addr)
  then show ?thesis
    using lt assms(3) by (simp add: unat_word_ariths unsigned_of_nat take_bit_nat_eq_self)
qed

lemma header_words_distinct:
  assumes "layout_ok h" "k < last_page h" "k' < last_page h" "k \<noteq> k'" "d < 16" "d' < 16"
  shows "page_addr h k + of_nat d \<noteq> page_addr h k' + of_nat d'"
proof
  assume e: "page_addr h k + of_nat d = page_addr h k' + of_nat d'"
  have "unat (page_addr h k + of_nat d) = unat (HEAP_START h) + k * 4096 + d"
    using assms by (intro unat_page_addr_plus) auto
  moreover have "unat (page_addr h k' + of_nat d') = unat (HEAP_START h) + k' * 4096 + d'"
    using assms by (intro unat_page_addr_plus) auto
  ultimately have "k * 4096 + d = k' * 4096 + d'" unfolding e by linarith
  then have "(k * 4096 + d) div 4096 = (k' * 4096 + d') div 4096" by (rule arg_cong)
  moreover have "(k * 4096 + d) div 4096 = k" "(k' * 4096 + d') div 4096 = k'"
    using assms(5,6) by simp_all
  ultimately show False using assms(4) by linarith
qed

lemma write_header_fields [simp]:
  "HEAP_START (write_header h a b c d e) = HEAP_START h"
  "alloc_start (write_header h a b c d e) = alloc_start h"
  "alloc_end (write_header h a b c d e) = alloc_end h"
  "alloc_pages (write_header h a b c d e) = alloc_pages h"
  "page_is_used (write_header h a b c d e) p = page_is_used h p"
  by (simp_all add: write_header_def)

lemma write_header_other:
  assumes "layout_ok h" "k < last_page h" "k' < last_page h" "k \<noteq> k'"
  shows "mem (write_header h (page_addr h k) a b c d) (page_addr h k') = mem h (page_addr h k')"
    and "mem (write_header h (page_addr h k) a b c d) (page_addr h k' + 4) = mem h (page_addr h k' + 4)"
proof -
  have ne: "page_addr h k' + of_nat i \<noteq> page_addr h k + of_nat j" if "i < 16" "j < 16" for i j
    using header_words_distinct [OF assms(1,3,2)] assms(4) that by metis
  show "mem (write_header h (page_addr h k) a b c d) (page_addr h k') = mem h (page_addr h k')"
    using ne [of 0 0] ne [of 0 4] ne [of 0 8] ne [of 0 12] by (simp add: write_header_def)
  show "mem (write_header h (page_addr h k) a b c d) (page_addr h k' + 4) = mem h (page_addr h k' + 4)"
    using ne [of 4 0] ne [of 4 4] ne [of 4 8] ne [of 4 12] by (simp add: write_header_def)
qed

lemma write_header_same:
  "mem (write_header h hdr a b c d) hdr = a" "mem (write_header h hdr a b c d) (hdr + 4) = b"
  "mem (write_header h hdr a b c d) (hdr + 8) = c"
  by (simp_all add: write_header_def)

section \<open>The heap invariant\<close>

text \<open>
  \<open>L\<close> maps the first page of every live block to its length and \<open>R\<close> is the set of reserved
  pages: live blocks lie in the allocation area, have an intact header, do not overlap each
  other or \<open>R\<close>, and the used pages of the area are exactly theirs and the reserved ones.
\<close>

definition block_pages :: "nat \<Rightarrow> nat \<Rightarrow> nat set" where
  "block_pages k n = {k ..< k + n}"

definition heap_inv :: "heap \<Rightarrow> nat set \<Rightarrow> (nat \<rightharpoonup> nat) \<Rightarrow> bool" where
  "heap_inv h R L \<longleftrightarrow> layout_ok h \<and>
     (\<forall>k n. L k = Some n \<longrightarrow> first_page h \<le> k \<and> 0 < n \<and> k + n \<le> last_page h \<and>
        hdr_magic h (page_addr h k) = ALLOC_MAGIC \<and> unat (hdr_npages h (page_addr h k)) = n \<and>
        block_pages k n \<inter> R = {}) \<and>
     (\<forall>k n k' n'. L k = Some n \<longrightarrow> L k' = Some n' \<longrightarrow> k \<noteq> k' \<longrightarrow>
        block_pages k n \<inter> block_pages k' n' = {}) \<and>
     (\<forall>p. first_page h \<le> p \<and> p < last_page h \<longrightarrow>
        (page_is_used h p \<longleftrightarrow> p \<in> R \<or> (\<exists>k n. L k = Some n \<and> p \<in> block_pages k n)))"

lemma heap_inv_cong:
  assumes "HEAP_START h = HEAP_START h'" "alloc_start h = alloc_start h'"
    "alloc_end h = alloc_end h'" "alloc_pages h = alloc_pages h'"
    "mem h = mem h'" "bitmap h = bitmap h'"
  shows "heap_inv h R L = heap_inv h' R L"
proof -
  have "page_is_used h = page_is_used h'" "page_addr h = page_addr h'"
    "first_page h = first_page h'" "last_page h = last_page h'"
    using assms by (simp_all add: fun_eq_iff page_is_used_def page_addr_def first_page_def last_page_def)
  with assms show ?thesis by (simp add: heap_inv_def cong: layout_ok_cong)
qed

lemma heap_inv_fields [simp]:
  "heap_inv (h\<lparr>malloc_calls := c\<rparr>) R L = heap_inv h R L"
  "heap_inv (h\<lparr>free_calls := c\<rparr>) R L = heap_inv h R L"
  "heap_inv (h\<lparr>mstatus := m\<rparr>) R L = heap_inv h R L"
  by (rule heap_inv_cong; simp)+

text \<open>The effect of taking a free run \<open>[k, k + n)\<close>: what \<open>malloc\<close> does to the state.\<close>

definition take_block :: "heap \<Rightarrow> nat \<Rightarrow> u32 \<Rightarrow> u32 \<Rightarrow> heap" where
  "take_block h k npages sz =
     write_header (set_pages h k (unat npages)) (page_addr h k) ALLOC_MAGIC npages sz 0"

lemma heap_inv_take_block:
  assumes inv: "heap_inv h R L" and k: "first_page h \<le> k" "k + unat npages \<le> last_page h"
    and n: "npages \<noteq> 0" and unused: "\<forall>p. k \<le> p \<and> p < k + unat npages \<longrightarrow> \<not> page_is_used h p"
  shows "heap_inv (take_block h k npages sz) R (L(k \<mapsto> unat npages))"
proof -
  let ?h = "take_block h k npages sz" and ?n = "unat npages"
  have lay: "layout_ok h" using inv by (simp add: heap_inv_def)
  have n0: "0 < ?n" using n by (simp add: unat_gt_0)
  have sel: "HEAP_START ?h = HEAP_START h" "alloc_start ?h = alloc_start h"
    "alloc_end ?h = alloc_end h" "alloc_pages ?h = alloc_pages h"
    by (simp_all add: take_block_def)
  have same: "layout_ok ?h = layout_ok h" "first_page ?h = first_page h" "last_page ?h = last_page h"
    "page_addr ?h = page_addr h"
    using sel by (simp_all add: fun_eq_iff page_addr_def first_page_def last_page_def layout_ok_def)
  have used: "page_is_used ?h p \<longleftrightarrow> p \<in> block_pages k ?n \<or> page_is_used h p" for p
    by (auto simp: take_block_def bitmap_simps block_pages_def)
  have live: "page_is_used h p" if "L j = Some m" "p \<in> block_pages j m" for j m p
    using inv that unfolding heap_inv_def block_pages_def by (metis atLeastLessThan_iff le_trans less_le_trans)
  have resv: "page_is_used h p" if "p \<in> R" "first_page h \<le> p" "p < last_page h" for p
    using inv that unfolding heap_inv_def by blast
  have disjL: "block_pages k ?n \<inter> block_pages j m = {}" if "L j = Some m" for j m
    using unused live [OF that] by (fastforce simp: block_pages_def)
  have disjR: "block_pages k ?n \<inter> R = {}"
    using unused resv k by (fastforce simp: block_pages_def)
  have kept: "mem ?h (page_addr h j) = mem h (page_addr h j)"
    "mem ?h (page_addr h j + 4) = mem h (page_addr h j + 4)" if "L j = Some m" "j \<noteq> k" for j m
  proof -
    have "0 < m" "j + m \<le> last_page h" using inv that(1) by (simp_all add: heap_inv_def)
    with k n0 have "j < last_page h" "k < last_page h" by simp_all
    then show "mem ?h (page_addr h j) = mem h (page_addr h j)"
      "mem ?h (page_addr h j + 4) = mem h (page_addr h j + 4)"
      using write_header_other [of "set_pages h k ?n" k j] lay that(2)
      by (simp_all add: take_block_def layout_ok_cong [of "set_pages h k ?n" h])
  qed
  have hdr: "mem ?h (page_addr h k) = ALLOC_MAGIC" "mem ?h (page_addr h k + 4) = npages"
    by (simp_all add: take_block_def write_header_same)
  show ?thesis
    unfolding heap_inv_def same
  proof (intro conjI allI impI)
    show "layout_ok h" by (rule lay)
  next
    fix j m assume j: "(L(k \<mapsto> ?n)) j = Some m"
    show "first_page h \<le> j" "0 < m" "j + m \<le> last_page h"
      "hdr_magic ?h (page_addr h j) = ALLOC_MAGIC" "unat (hdr_npages ?h (page_addr h j)) = m"
      "block_pages j m \<inter> R = {}"
      using inv j k n0 hdr kept disjR by (auto simp: heap_inv_def split: if_splits)
  next
    fix j m j' m'
    assume "(L(k \<mapsto> ?n)) j = Some m" "(L(k \<mapsto> ?n)) j' = Some m'" "j \<noteq> j'"
    then show "block_pages j m \<inter> block_pages j' m' = {}"
      using inv disjL by (auto simp: heap_inv_def split: if_splits; blast)
  next
    fix p assume p: "first_page h \<le> p \<and> p < last_page h"
    then have old: "page_is_used h p \<longleftrightarrow> p \<in> R \<or> (\<exists>j m. L j = Some m \<and> p \<in> block_pages j m)"
      using inv by (simp add: heap_inv_def)
    have "L k = None"
    proof (rule ccontr)
      assume "L k \<noteq> None"
      then obtain m where "L k = Some m" by auto
      moreover from this have "0 < m" using inv by (simp add: heap_inv_def)
      ultimately have "page_is_used h k" by (intro live) (auto simp: block_pages_def)
      with unused n0 show False by auto
    qed
    then have "(\<exists>j m. (L(k \<mapsto> ?n)) j = Some m \<and> p \<in> block_pages j m) \<longleftrightarrow>
        p \<in> block_pages k ?n \<or> (\<exists>j m. L j = Some m \<and> p \<in> block_pages j m)"
      by (metis fun_upd_apply option.distinct(1) option.inject)
    then show "page_is_used ?h p \<longleftrightarrow>
        p \<in> R \<or> (\<exists>j m. (L(k \<mapsto> ?n)) j = Some m \<and> p \<in> block_pages j m)"
      unfolding used old by blast
  qed
qed

section \<open>What malloc does\<close>

definition req_size :: "u32 \<Rightarrow> u32" where
  "req_size sz = (if sz = 0 then 1 else sz)"

definition req_pages :: "u32 \<Rightarrow> u32" where
  "req_pages sz = pages_for_size (req_size sz + ALLOC_HEADER_SIZE)"

definition malloc_place :: "heap \<Rightarrow> u32 \<Rightarrow> nat option" where
  "malloc_place h sz =
     (if req_size sz > 0xffffffff - ALLOC_HEADER_SIZE \<or> req_pages sz = 0 \<or>
         req_pages sz > alloc_pages h then None
      else find_run h (first_page h) (unat (req_pages sz)) (last_page h))"

lemma first_used_cong: "page_is_used h = page_is_used h' \<Longrightarrow> first_used h page n j = first_used h' page n j"
  by (induction h page n j rule: first_used.induct)
    (subst (1 2) first_used.simps, simp)

lemma find_run_cong: "page_is_used h = page_is_used h' \<Longrightarrow> find_run h page n bound = find_run h' page n bound"
proof (induction h page n bound rule: find_run.induct)
  case (1 h page n bound)
  note fu = first_used_cong [OF "1.prems", of page n 0]
  show ?case
    using "1.IH" [OF _ _ "1.prems"]
    by (subst (1 2) find_run.simps) (auto simp: fu split: option.split)
qed

lemma page_set_used_commute:
  "page_set_used (h\<lparr>malloc_calls := c, mstatus := m\<rparr>) p =
     (page_set_used h p)\<lparr>malloc_calls := c, mstatus := m\<rparr>"
  by (cases h) (simp add: page_set_used_def)

lemma set_pages_commute:
  "set_pages (h\<lparr>malloc_calls := c, mstatus := m\<rparr>) k n = (set_pages h k n)\<lparr>malloc_calls := c, mstatus := m\<rparr>"
proof -
  have "foldl page_set_used (h\<lparr>malloc_calls := c, mstatus := m\<rparr>) ps =
      (foldl page_set_used h ps)\<lparr>malloc_calls := c, mstatus := m\<rparr>" for ps
    by (induction ps arbitrary: h) (simp_all only: foldl_Nil foldl_Cons page_set_used_commute)
  then show ?thesis by (simp add: set_pages_def)
qed

lemma heap_restore_mstatus:
  "mstatus h' = x \<Longrightarrow> h'\<lparr>malloc_calls := c, mstatus := m, mem := f, mstatus := x\<rparr> =
     h'\<lparr>mem := f, malloc_calls := c\<rparr>"
  by (cases h') simp

lemma malloc_eq:
  "malloc h sz = (case malloc_place h sz of
     None \<Rightarrow> (0, h\<lparr>malloc_calls := malloc_calls h + 1\<rparr>)
   | Some k \<Rightarrow> (page_addr h k + 16,
       (take_block h k (req_pages sz) (req_size sz))\<lparr>malloc_calls := malloc_calls h + 1\<rparr>))"
proof -
  have fr: "find_run (h\<lparr>malloc_calls := c, mstatus := m\<rparr>) a n b = find_run h a n b" for a n b c m
    by (rule find_run_cong) (simp add: fun_eq_iff)
  have fl: "first_page (h\<lparr>malloc_calls := c, mstatus := m\<rparr>) = first_page h"
    "last_page (h\<lparr>malloc_calls := c, mstatus := m\<rparr>) = last_page h" for c m
    by (simp_all add: first_page_def last_page_def)
  show ?thesis
    unfolding malloc_def malloc_place_def Let_def irq_save_def irq_restore_def
      req_pages_def [symmetric] req_size_def [symmetric]
    by (auto simp: fr fl set_pages_commute take_block_def write_header_def page_addr_def
        heap_restore_mstatus split: option.split)
qed

lemma unat_req_pages:
  assumes "req_size sz \<le> 0xffffffff - ALLOC_HEADER_SIZE" "req_pages sz \<noteq> 0"
  shows "unat (req_pages sz) = (unat (req_size sz) + 16 + 4095) div 4096"
proof -
  let ?s = "req_size sz"
  have "unat ?s \<le> 0xffffffef" using assms(1) by (simp add: word_le_nat_alt)
  then have s16: "unat (?s + 16) = unat ?s + 16" by (simp add: unat_word_ariths)
  have rp: "req_pages sz = drop_bit 12 (?s + 16 + 4095)"
    by (simp add: req_pages_def pages_for_size_def algebra_simps)
  have sum: "unat (?s + 16 + 4095) = (unat ?s + 16 + 4095) mod 4294967296"
    using s16 by (simp add: unat_word_ariths)
  show ?thesis
  proof (cases "unat ?s + 16 + 4095 < 4294967296")
    case True
    then show ?thesis using sum by (simp add: rp drop_bit_eq_div unat_div_distrib)
  next
    case False
    with \<open>unat ?s \<le> 0xffffffef\<close> sum have "unat (?s + 16 + 4095) < 4096"
      by (simp add: le_mod_geq)
    then have "unat (req_pages sz) = 0" by (simp add: rp drop_bit_eq_div unat_div_distrib)
    with assms(2) show ?thesis by (simp add: unat_eq_0)
  qed
qed

lemma malloc_place_Some:
  assumes "malloc_place h sz = Some k"
  shows "req_pages sz \<noteq> 0" "first_page h \<le> k" "k + unat (req_pages sz) \<le> last_page h"
    "\<forall>p. k \<le> p \<and> p < k + unat (req_pages sz) \<longrightarrow> \<not> page_is_used h p"
    "unat (req_pages sz) = (unat (req_size sz) + 16 + 4095) div 4096"
  using assms find_run_Some [of h "first_page h" "unat (req_pages sz)" "last_page h" k]
    unat_req_pages [of sz]
  by (auto simp: malloc_place_def not_less split: if_splits)

section \<open>What free does\<close>

definition give_block :: "heap \<Rightarrow> nat \<Rightarrow> nat \<Rightarrow> heap" where
  "give_block h k n = write_header (clear_pages h k n) (page_addr h k) 0 0 0 0"

lemma page_clear_used_commute:
  "page_clear_used (h\<lparr>free_calls := c, mstatus := m\<rparr>) p =
     (page_clear_used h p)\<lparr>free_calls := c, mstatus := m\<rparr>"
  by (cases h) (simp add: page_clear_used_def)

lemma clear_pages_commute:
  "clear_pages (h\<lparr>free_calls := c, mstatus := m\<rparr>) k n = (clear_pages h k n)\<lparr>free_calls := c, mstatus := m\<rparr>"
proof -
  have "foldl page_clear_used (h\<lparr>free_calls := c, mstatus := m\<rparr>) ps =
      (foldl page_clear_used h ps)\<lparr>free_calls := c, mstatus := m\<rparr>" for ps
    by (induction ps arbitrary: h) (simp_all only: foldl_Nil foldl_Cons page_clear_used_commute)
  then show ?thesis by (simp add: clear_pages_def)
qed

lemma heap_restore_mstatus_free:
  "mstatus h' = x \<Longrightarrow> h'\<lparr>free_calls := c, mstatus := m, mem := f, mstatus := x\<rparr> =
     h'\<lparr>mem := f, free_calls := c\<rparr>"
  by (cases h') simp

lemma heap_invD:
  assumes "heap_inv h R L"
  shows "layout_ok h"
    and "L k = Some n \<Longrightarrow> first_page h \<le> k" "L k = Some n \<Longrightarrow> 0 < n"
    and "L k = Some n \<Longrightarrow> k + n \<le> last_page h" "L k = Some n \<Longrightarrow> k < last_page h"
    and "L k = Some n \<Longrightarrow> hdr_magic h (page_addr h k) = ALLOC_MAGIC"
    and "L k = Some n \<Longrightarrow> unat (hdr_npages h (page_addr h k)) = n"
    and "L k = Some n \<Longrightarrow> block_pages k n \<inter> R = {}"
    and "L k = Some n \<Longrightarrow> L k' = Some n' \<Longrightarrow> k \<noteq> k' \<Longrightarrow> block_pages k n \<inter> block_pages k' n' = {}"
    and "first_page h \<le> p \<Longrightarrow> p < last_page h \<Longrightarrow>
      page_is_used h p \<longleftrightarrow> p \<in> R \<or> (\<exists>k n. L k = Some n \<and> p \<in> block_pages k n)"
proof -
  note d = assms [unfolded heap_inv_def]
  show "layout_ok h"
    and "L k = Some n \<Longrightarrow> first_page h \<le> k" and l: "L k = Some n \<Longrightarrow> 0 < n"
    and b: "L k = Some n \<Longrightarrow> k + n \<le> last_page h"
    and "L k = Some n \<Longrightarrow> hdr_magic h (page_addr h k) = ALLOC_MAGIC"
    and "L k = Some n \<Longrightarrow> unat (hdr_npages h (page_addr h k)) = n"
    and "L k = Some n \<Longrightarrow> block_pages k n \<inter> R = {}"
    and "L k = Some n \<Longrightarrow> L k' = Some n' \<Longrightarrow> k \<noteq> k' \<Longrightarrow> block_pages k n \<inter> block_pages k' n' = {}"
    and "first_page h \<le> p \<Longrightarrow> p < last_page h \<Longrightarrow>
      page_is_used h p \<longleftrightarrow> p \<in> R \<or> (\<exists>k n. L k = Some n \<and> p \<in> block_pages k n)"
    using d by blast+
  show "L k = Some n \<Longrightarrow> k < last_page h" using l b by fastforce
qed

text \<open>The address checks of \<open>free\<close> accept the user address of a live block.\<close>

lemma free_address_checks:
  assumes lay: "layout_ok h" and k: "first_page h \<le> k" "k < last_page h"
  defines "hdr \<equiv> page_addr h k"
  shows "hdr + 16 \<noteq> 0" "\<not> hdr + 16 < HEAP_START h + 16" "\<not> alloc_end h \<le> hdr + 16"
    "\<not> hdr < alloc_start h" "\<not> alloc_end h \<le> hdr" "(hdr - alloc_start h) AND PAGE_MASK = 0"
    "page_index_from_addr h hdr = k"
proof -
  have u: "unat hdr = unat (HEAP_START h) + k * 4096"
    using lay k by (simp add: hdr_def unat_page_addr)
  have u16: "unat (hdr + 16) = unat (HEAP_START h) + k * 4096 + 16"
    using unat_page_addr_plus [OF lay k(2), of 16] by (simp add: hdr_def)
  have e: "unat (alloc_end h) = unat (HEAP_START h) + last_page h * 4096"
    and s: "unat (alloc_start h) = unat (HEAP_START h) + first_page h * 4096"
    using lay by (simp_all add: layout_ok_def)
  have b: "Suc k * 4096 \<le> last_page h * 4096" using k(2) by (intro mult_right_mono) auto
  have f: "first_page h * 4096 \<le> k * 4096" using k(1) by simp
  have lt: "unat (alloc_end h) < 4294967296" using unsigned_less [of "alloc_end h"] by simp
  have h16: "unat (HEAP_START h + 16) = unat (HEAP_START h) + 16"
    using b e lt by (simp add: unat_word_ariths)
  show "hdr + 16 \<noteq> 0" using u16 by auto
  show "\<not> hdr + 16 < HEAP_START h + 16" using u16 h16 by (simp add: word_less_nat_alt)
  show "\<not> alloc_end h \<le> hdr + 16" using u16 e b by (simp add: word_le_nat_alt)
  show "\<not> hdr < alloc_start h" using u s f by (simp add: word_less_nat_alt)
  show "\<not> alloc_end h \<le> hdr" using u e b by (simp add: word_le_nat_alt)
  have d: "unat (hdr - alloc_start h) = (k - first_page h) * 4096"
    using u s f by (subst unat_sub) (simp_all add: word_le_nat_alt algebra_simps)
  have "unat ((hdr - alloc_start h) AND PAGE_MASK) = unat (hdr - alloc_start h) mod 4096"
    by (rule unat_page_offset)
  then show "(hdr - alloc_start h) AND PAGE_MASK = 0" using d by (simp add: unat_eq_0)
  have "unat (hdr - HEAP_START h) = k * 4096"
    using u by (subst unat_sub) (simp_all add: word_le_nat_alt)
  then show "page_index_from_addr h hdr = k"
    by (simp add: page_index_from_addr_def drop_bit_eq_div unat_div_distrib)
qed

lemma free_live:
  assumes inv: "heap_inv h R L" and k: "L k = Some n"
  shows "free h (page_addr h k + 16) = (give_block h k n)\<lparr>free_calls := free_calls h + 1\<rparr>"
proof -
  note hk = heap_invD [OF inv]
  let ?h = "h\<lparr>free_calls := free_calls h + 1\<rparr>" and ?hdr = "page_addr h k"
  have fl: "first_page (h\<lparr>free_calls := c\<rparr>) = first_page h" "last_page (h\<lparr>free_calls := c\<rparr>) = last_page h"
    "page_index_from_addr (h\<lparr>free_calls := c\<rparr>) a = page_index_from_addr h a" for a c
    by (simp_all add: first_page_def last_page_def page_index_from_addr_def)
  have np: "unat (hdr_npages h ?hdr) = n" using hk k by simp
  have "last_page h \<le> 8192" using hk(1) by (simp add: layout_ok_def)
  have le: "k + n \<le> last_page h" "0 < n" using hk k by auto
  have sum: "unat (of_nat k + hdr_npages h ?hdr) = k + n"
    using np le \<open>last_page h \<le> 8192\<close> by (simp add: unat_word_ariths)
  have c1: "\<not> of_nat (last_page h) < of_nat k + hdr_npages h ?hdr"
    using sum le \<open>last_page h \<le> 8192\<close> by (simp add: word_less_nat_alt)
  have c2: "hdr_npages h ?hdr \<noteq> 0" using np le(2) by auto
  note chk = free_address_checks [OF hk(1) hk(2) [OF k] hk(5) [OF k]]
  have kk: "\<not> k < first_page h" "\<not> last_page h \<le> k" using hk(2,5) [OF k] by simp_all
  have hdr16: "?hdr + 16 - 16 = ?hdr" by simp
  show ?thesis
    unfolding free_def Let_def irq_save_def irq_restore_def hdr16
    using chk c1 c2 kk hk(6) [OF k]
    by (simp add: fl np clear_pages_commute give_block_def write_header_def heap_restore_mstatus_free)
qed

lemma heap_inv_give_block:
  assumes inv: "heap_inv h R L" and k: "L k = Some n"
  shows "heap_inv (give_block h k n) R (L(k := None))"
proof -
  note hk = heap_invD [OF inv]
  let ?h = "give_block h k n"
  have sel: "HEAP_START ?h = HEAP_START h" "alloc_start ?h = alloc_start h"
    "alloc_end ?h = alloc_end h" "alloc_pages ?h = alloc_pages h"
    by (simp_all add: give_block_def)
  have same: "layout_ok ?h = layout_ok h" "first_page ?h = first_page h" "last_page ?h = last_page h"
    "page_addr ?h = page_addr h"
    using sel by (simp_all add: fun_eq_iff page_addr_def first_page_def last_page_def layout_ok_def)
  have used: "page_is_used ?h p \<longleftrightarrow> p \<notin> block_pages k n \<and> page_is_used h p" for p
    by (auto simp: give_block_def bitmap_simps block_pages_def)
  have kept: "mem ?h (page_addr h j) = mem h (page_addr h j)"
    "mem ?h (page_addr h j + 4) = mem h (page_addr h j + 4)" if "L j = Some m" "j \<noteq> k" for j m
    using write_header_other [of "clear_pages h k n" k j] hk(1) hk(5) [OF k] hk(5) [OF that(1)] that(2)
    by (simp_all add: give_block_def layout_ok_cong [of "clear_pages h k n" h])
  show ?thesis
    unfolding heap_inv_def same
  proof (intro conjI allI impI)
    show "layout_ok h" by (rule hk(1))
  next
    fix j m assume "(L(k := None)) j = Some m"
    then have j: "L j = Some m" "j \<noteq> k" by (auto split: if_splits)
    show "first_page h \<le> j" "0 < m" "j + m \<le> last_page h" "block_pages j m \<inter> R = {}"
      using hk j by simp_all
    show "hdr_magic ?h (page_addr h j) = ALLOC_MAGIC" "unat (hdr_npages ?h (page_addr h j)) = m"
      using hk(6,7) [OF j(1)] kept [OF j] by simp_all
  next
    fix j m j' m'
    assume "(L(k := None)) j = Some m" "(L(k := None)) j' = Some m'" "j \<noteq> j'"
    then show "block_pages j m \<inter> block_pages j' m' = {}"
      using hk(9) by (simp split: if_splits)
  next
    fix p assume p: "first_page h \<le> p \<and> p < last_page h"
    then have old: "page_is_used h p \<longleftrightarrow> p \<in> R \<or> (\<exists>j m. L j = Some m \<and> p \<in> block_pages j m)"
      using hk(10) by simp
    have "p \<notin> block_pages k n" if "(L(k := None)) j = Some m" "p \<in> block_pages j m" for j m
      using hk(9) [of j m k n] that k by (auto split: if_splits)
    moreover have "p \<notin> block_pages k n" if "p \<in> R" using hk(8) [OF k] that by auto
    ultimately show "page_is_used ?h p \<longleftrightarrow>
        p \<in> R \<or> (\<exists>j m. (L(k := None)) j = Some m \<and> p \<in> block_pages j m)"
      unfolding used old using k by (metis fun_upd_apply option.inject option.distinct(1))
  qed
qed

lemma free_dead_header:
  "p \<noteq> 0 \<Longrightarrow> hdr_magic h (p - 16) \<noteq> ALLOC_MAGIC \<Longrightarrow> free h p = h\<lparr>free_calls := free_calls h + 1\<rparr>"
  by (simp add: free_def Let_def)

lemma mstatus_malloc: "mstatus (snd (malloc h sz)) = mstatus h"
  by (auto simp: malloc_eq take_block_def write_header_def split: option.split)

section \<open>Initialisation establishes the invariant\<close>

lemma reserve_frame: "\<exists>b. reserve_page_range h s e = h\<lparr>bitmap := b\<rparr>"
proof -
  have "\<exists>b. h = h\<lparr>bitmap := b\<rparr>" by (rule exI [of _ "bitmap h"]) simp
  then show ?thesis using set_pages_frame [of h] by (auto simp: reserve_page_range_def Let_def)
qed

lemma reserve_frame_fields [simp]:
  "HEAP_START (reserve_page_range h s e) = HEAP_START h"
  "alloc_start (reserve_page_range h s e) = alloc_start h"
  "alloc_end (reserve_page_range h s e) = alloc_end h"
  "alloc_pages (reserve_page_range h s e) = alloc_pages h"
  using reserve_frame [of h s e] by auto

text \<open>The pages of the FPGA's USB DMA window that fall into the heap.\<close>

definition usb_dma_pages :: "heap \<Rightarrow> nat set" where
  "usb_dma_pages h = {p. first_page h \<le> p \<and> p < last_page h \<and>
     unat (HEAP_START h) + p * 4096 < unat (FPGA_USB_DMA_CPU_BASE + FPGA_USB_DMA_CPU_SIZE) \<and>
     unat FPGA_USB_DMA_CPU_BASE < unat (HEAP_START h) + (p + 1) * 4096}"

lemma reserve_dma_used:
  assumes q: "unat (HEAP_START h) = 4096 * q" and e: "unat (alloc_end h) = 4096 * (q + T)" and T: "0 < T"
  shows "page_is_used (reserve_page_range h FPGA_USB_DMA_CPU_BASE
           (FPGA_USB_DMA_CPU_BASE + FPGA_USB_DMA_CPU_SIZE)) p \<longleftrightarrow>
         (p < T \<and> 545242 \<le> q + p \<and> q + p < 545258) \<or> page_is_used h p"
proof -
  let ?S = "FPGA_USB_DMA_CPU_BASE" and ?E = "FPGA_USB_DMA_CPU_BASE + FPGA_USB_DMA_CPU_SIZE"
  have al: "?S AND NOT PAGE_MASK = ?S" "align_page ?E = ?E"
    by (simp_all add: align_page_def)
  have cmp: "?E \<le> HEAP_START h \<longleftrightarrow> 545258 \<le> q" "?S \<ge> alloc_end h \<longleftrightarrow> q + T \<le> 545242"
    "?S < HEAP_START h \<longleftrightarrow> 545242 < q" "?E > alloc_end h \<longleftrightarrow> q + T < 545258"
    "\<not> alloc_end h \<le> HEAP_START h" "\<not> ?E \<le> ?S"
    using q e T by (auto simp: word_le_nat_alt word_less_nat_alt)
  have sub: "unat (drop_bit 12 (w - HEAP_START h)) = m - q" if "unat w = 4096 * m" "q \<le> m" for w m
  proof -
    have "unat (w - HEAP_START h) = 4096 * (m - q)"
      using that q by (subst unat_sub) (simp_all add: word_le_nat_alt algebra_simps)
    then show ?thesis by (simp add: drop_bit_eq_div unat_div_distrib)
  qed
  show ?thesis
  proof (cases "545258 \<le> q \<or> q + T \<le> 545242")
    case True
    then show ?thesis using al cmp by (auto simp: reserve_page_range_def Let_def)
  next
    case False
    define s where "s = (if ?S < HEAP_START h then HEAP_START h else ?S)"
    define e' where "e' = (if ?E > alloc_end h then alloc_end h else ?E)"
    have f: "unat (drop_bit 12 (s - HEAP_START h)) = max 545242 q - q"
      using cmp q by (intro sub) (auto simp: s_def)
    have l: "unat (drop_bit 12 (e' - HEAP_START h)) = min 545258 (q + T) - q"
      using cmp e False by (intro sub) (auto simp: e'_def)
    have r: "reserve_page_range h ?S ?E = set_pages h (max 545242 q - q)
        ((min 545258 (q + T) - q) - (max 545242 q - q))"
      unfolding f [symmetric] l [symmetric]
      using cmp(5,6) cmp(1,2) False al
      by (simp add: reserve_page_range_def Let_def s_def e'_def)
    show ?thesis unfolding r page_is_used_set_pages using False by auto
  qed
qed

lemma page_init_inv:
  assumes i: "page_init h = Some h'" and al: "unat (HEAP_START h) mod 4096 = 0"
    and room: "unat (HEAP_START h) + 33554432 < 4294967296"
  shows "heap_inv h' (usb_dma_pages h') Map.empty" and "first_page h' = 1"
    and "last_page h' = min (unat (HEAP_SIZE h)) 33554432 div 4096"
proof -
  define sz where "sz = (if HEAP_SIZE h > FPGA_MINIMAL_HEAP_SIZE then FPGA_MINIMAL_HEAP_SIZE else HEAP_SIZE h)"
  define tp where "tp = sz div PAGE_SIZE"
  define bytes where "bytes = (tp + 7) div 8"
  define as where "as = (HEAP_START h + bytes + PAGE_MASK) AND NOT PAGE_MASK"
  define ae where "ae = HEAP_START h + tp * PAGE_SIZE"
  define pages where "pages = (ae - as) div PAGE_SIZE"
  let ?hs = "unat (HEAP_START h)"
  have "unat sz = min (unat (HEAP_SIZE h)) 33554432"
    by (auto simp: sz_def word_less_nat_alt)
  then have tp: "unat tp = min (unat (HEAP_SIZE h)) 33554432 div 4096"
    by (simp add: tp_def unat_div_distrib)
  then have tp8: "unat tp \<le> 8192" by simp
  then have bytes: "unat bytes = (unat tp + 7) div 8"
    by (simp add: bytes_def unat_div_distrib unat_word_ariths)
  have ok: "as < ae" "pages \<noteq> 0"
    using i by (auto simp: page_init_def Let_def sz_def tp_def bytes_def as_def ae_def pages_def
        not_le split: if_splits)
  obtain q where q: "?hs = 4096 * q" using al by (auto simp: mod_eq_0_iff_dvd elim: dvdE)
  have ae: "unat ae = ?hs + unat tp * 4096"
    using tp8 room by (simp add: ae_def unat_word_ariths)
  have b1: "unat bytes \<le> 1024" using bytes tp8 by simp
  have as0: "unat as = (?hs + unat bytes + 4095) div 4096 * 4096"
    using b1 room by (simp add: as_def unat_page_down unat_word_ariths)
  have tp0: "0 < unat tp"
  proof (rule ccontr)
    assume "\<not> 0 < unat tp"
    then have "unat ae = ?hs" "?hs \<le> unat as" using ae as0 q by auto
    with ok(1) show False by (simp add: word_less_nat_alt)
  qed
  then have b0: "0 < unat bytes" using bytes by simp
  have as: "unat as = ?hs + 4096"
  proof -
    have "(?hs + unat bytes + 4095) div 4096 = q + 1"
      using q b0 b1 by (intro div_nat_eqI) auto
    then show ?thesis using as0 q by simp
  qed
  have pg: "unat pages = unat tp - 1"
  proof -
    have "unat (ae - as) = unat tp * 4096 - 4096"
      using ae as ok(1) by (subst unat_sub) (auto simp: word_le_nat_alt word_less_nat_alt)
    then show ?thesis by (simp add: pages_def unat_div_distrib diff_mult_distrib [symmetric])
  qed
  define h1 where "h1 = h\<lparr>heap_total_pages := tp, bitmap_bytes := bytes, alloc_start := as,
    alloc_end := ae, alloc_pages := pages, bitmap := mem_fill (bitmap h) 0 (unat bytes) 0xff\<rparr>"
  define first where "first = unat ((as - HEAP_START h) div PAGE_SIZE)"
  define h2 where "h2 = clear_pages h1 first (unat tp - first)"
  have init: "page_init h = (if as \<ge> ae \<or> pages = 0 then None
      else Some (reserve_page_range h2 FPGA_USB_DMA_CPU_BASE
        (FPGA_USB_DMA_CPU_BASE + FPGA_USB_DMA_CPU_SIZE)))"
    unfolding page_init_def Let_def sz_def [symmetric] tp_def [symmetric]
      bytes_def [symmetric] as_def [symmetric] ae_def [symmetric] pages_def [symmetric]
      h1_def [symmetric] first_def [symmetric] h2_def [symmetric]
    by (rule refl)
  have "\<not> (as \<ge> ae \<or> pages = 0)" using ok by (simp add: not_le)
  then have h'_eq: "h' = reserve_page_range h2 FPGA_USB_DMA_CPU_BASE
      (FPGA_USB_DMA_CPU_BASE + FPGA_USB_DMA_CPU_SIZE)"
    using i unfolding init by (simp only: if_False option.inject)
  have h2: "HEAP_START h2 = HEAP_START h" "alloc_start h2 = as" "alloc_end h2 = ae" "alloc_pages h2 = pages"
    by (simp_all add: h2_def h1_def)
  have h': "HEAP_START h' = HEAP_START h" "alloc_start h' = as" "alloc_end h' = ae" "alloc_pages h' = pages"
    using h2 reserve_frame_fields unfolding h'_eq by simp_all
  have f1: "first_page h' = 1"
    using as by (simp add: first_page_def h' unat_div_distrib unat_sub word_le_nat_alt)
  have l1: "last_page h' = unat tp"
    using pg tp0 by (simp add: last_page_def f1 h')
  have "0 < unat pages" using ok(2) by (simp add: unat_gt_0)
  then have lay: "layout_ok h'"
    using al as ae tp8 by (simp add: layout_ok_def f1 l1 h')
  show "first_page h' = 1" by (rule f1)
  show "last_page h' = min (unat (HEAP_SIZE h)) 33554432 div 4096" using l1 tp by simp
  have "first = 1" using f1 by (simp add: first_def first_page_def h')
  have clear: "\<not> page_is_used h2 p" if "1 \<le> p" "p < unat tp" for p
    using that \<open>first = 1\<close> by (auto simp: h2_def bitmap_simps)
  have "unat ae = 4096 * (q + unat tp)" using ae q by simp
  then have used: "page_is_used h' p \<longleftrightarrow> p \<in> usb_dma_pages h'" if "1 \<le> p" "p < unat tp" for p
  proof -
    have "page_is_used h' p \<longleftrightarrow> p < unat tp \<and> 545242 \<le> q + p \<and> q + p < 545258"
      unfolding h'_eq
      using reserve_dma_used [of h2 q "unat tp" p] clear [OF that] q tp0 h2 \<open>unat ae = 4096 * (q + unat tp)\<close>
      by (simp only: simp_thms)
    moreover have "p \<in> usb_dma_pages h' \<longleftrightarrow> p < unat tp \<and> 545242 \<le> q + p \<and> q + p < 545258"
      using that q by (simp add: usb_dma_pages_def f1 l1 h') arith
    ultimately show ?thesis by simp
  qed
  show "heap_inv h' (usb_dma_pages h') Map.empty"
    using lay used by (auto simp: heap_inv_def f1 l1)
qed

lemma page_init_start:
  assumes "page_init h = Some h'"
  shows "HEAP_START h' = HEAP_START h"
  using assms by (auto simp: page_init_def Let_def split: if_splits)

section \<open>malloc and free keep the invariant\<close>

lemma malloc_NoneD:
  assumes "heap_inv h R L" "malloc_place h sz = None"
  shows "malloc h sz = (0, h\<lparr>malloc_calls := malloc_calls h + 1\<rparr>)"
    "heap_inv (snd (malloc h sz)) R L"
  using assms by (simp_all add: malloc_eq)

lemma malloc_SomeD:
  assumes inv: "heap_inv h R L" and k: "malloc_place h sz = Some k"
  shows "fst (malloc h sz) = page_addr h k + 16" "fst (malloc h sz) \<noteq> 0"
    "heap_inv (snd (malloc h sz)) R (L(k \<mapsto> unat (req_pages sz)))" "L k = None"
    "page_addr (snd (malloc h sz)) k = page_addr h k"
proof -
  note pl = malloc_place_Some [OF k] and hk = heap_invD [OF inv]
  have n0: "0 < unat (req_pages sz)" using pl(1) by (simp add: unat_gt_0)
  have kl: "k < last_page h" using pl(3) n0 by simp
  show eq: "fst (malloc h sz) = page_addr h k + 16" by (simp add: malloc_eq k)
  show "fst (malloc h sz) \<noteq> 0"
    unfolding eq by (rule free_address_checks(1) [OF hk(1) pl(2) kl])
  show "heap_inv (snd (malloc h sz)) R (L(k \<mapsto> unat (req_pages sz)))"
    using heap_inv_take_block [OF inv pl(2,3,1,4)] by (simp add: malloc_eq k)
  show "L k = None"
  proof (rule ccontr)
    assume "L k \<noteq> None"
    then obtain m where m: "L k = Some m" by auto
    then have "page_is_used h k" using hk(3,10) pl(2) kl by (force simp: block_pages_def)
    with pl(4) n0 show False by auto
  qed
  show "page_addr (snd (malloc h sz)) k = page_addr h k"
    by (simp add: malloc_eq k page_addr_def take_block_def)
qed

lemma free_keeps_inv:
  assumes "heap_inv h R L" "L k = Some n"
  shows "heap_inv (free h (page_addr h k + 16)) R (L(k := None))"
  using heap_inv_give_block [OF assms] by (simp add: free_live [OF assms])

section \<open>The allocator contract holds\<close>

text \<open>User addresses and usable bytes of the live blocks.\<close>

definition live_blocks :: "heap \<Rightarrow> (nat \<rightharpoonup> nat) \<Rightarrow> (u32 \<rightharpoonup> nat) \<Rightarrow> bool" where
  "live_blocks h L A \<longleftrightarrow> (\<forall>p b. A p = Some b \<longleftrightarrow>
     (\<exists>k n. L k = Some n \<and> p = page_addr h k + 16 \<and> b = n * 4096 - 16))"

definition alloc_inv :: "heap \<Rightarrow> (u32 \<rightharpoonup> nat) \<Rightarrow> bool" where
  "alloc_inv h A \<longleftrightarrow> (\<exists>R L. heap_inv h R L \<and> live_blocks h L A)"

lemma live_blocks_cong: "HEAP_START h = HEAP_START h' \<Longrightarrow> live_blocks h L A = live_blocks h' L A"
  by (simp add: live_blocks_def page_addr_def)

lemma user_addr_eq_iff:
  assumes "heap_inv h R L" "k \<le> last_page h" "k' \<le> last_page h"
  shows "page_addr h k + 16 = page_addr h k' + 16 \<longleftrightarrow> k = k'"
  using page_addr_eq_iff [OF heap_invD(1) [OF assms(1)] assms(2,3)] by simp

lemma HEAP_START_malloc [simp]: "HEAP_START (snd (malloc h sz)) = HEAP_START h"
  by (simp add: malloc_eq take_block_def split: option.split)

lemma alloc_inv_malloc_null:
  assumes "alloc_inv h A" "malloc h sz = (0, h')"
  shows "alloc_inv h' A"
proof -
  obtain R L where i: "heap_inv h R L" "live_blocks h L A" using assms(1) by (auto simp: alloc_inv_def)
  have "malloc_place h sz = None"
    by (metis malloc_SomeD(2) i(1) assms(2) fst_conv option.exhaust)
  from malloc_NoneD(2) [OF i(1) this] have "heap_inv h' R L" using assms(2) by simp
  moreover have "HEAP_START h' = HEAP_START h" using HEAP_START_malloc [of h sz] assms(2) by simp
  ultimately show ?thesis using i(2) by (auto simp: alloc_inv_def cong: live_blocks_cong)
qed

lemma alloc_inv_malloc_block:
  assumes "alloc_inv h A" "malloc h sz = (p, h')" "p \<noteq> 0"
  shows "A p = None \<and> (\<exists>n \<ge> unat sz. alloc_inv h' (A(p \<mapsto> n)))"
proof -
  obtain R L where i: "heap_inv h R L" "live_blocks h L A" using assms(1) by (auto simp: alloc_inv_def)
  obtain k where k: "malloc_place h sz = Some k"
    using malloc_NoneD(1) [OF i(1)] assms(2,3) by (cases "malloc_place h sz") auto
  let ?n = "unat (req_pages sz)"
  note m = malloc_SomeD [OF i(1) k] and pl = malloc_place_Some [OF k]
  have p: "p = page_addr h k + 16" using m(1) assms(2) by simp
  have n0: "0 < ?n" using pl(1) by (simp add: unat_gt_0)
  have other: "page_addr h j + 16 \<noteq> p" if "L j = Some b" for j b
  proof -
    have "j < last_page h" "k < last_page h" using heap_invD(5) [OF i(1) that] pl(3) n0 by auto
    moreover have "j \<noteq> k" using that m(4) by auto
    ultimately show ?thesis using user_addr_eq_iff [OF i(1), of j k] p by simp
  qed
  have "A p = None"
  proof (rule ccontr)
    assume "A p \<noteq> None"
    then obtain j b where "L j = Some b" "p = page_addr h j + 16"
      using i(2) by (auto simp: live_blocks_def)
    with other show False by blast
  qed
  moreover have "alloc_inv h' (A(p \<mapsto> ?n * 4096 - 16))"
  proof -
    have hs: "HEAP_START h' = HEAP_START h" using HEAP_START_malloc [of h sz] assms(2) by simp
    have "live_blocks h (L(k \<mapsto> ?n)) (A(p \<mapsto> ?n * 4096 - 16))"
      unfolding live_blocks_def ex_map_upd_new [where L = L and k = k, OF m(4)] map_upd_Some_iff
      using i(2) other p unfolding live_blocks_def by metis
    then have "live_blocks h' (L(k \<mapsto> ?n)) (A(p \<mapsto> ?n * 4096 - 16))"
      using hs by (simp cong: live_blocks_cong)
    moreover have "heap_inv h' R (L(k \<mapsto> ?n))" using m(3) assms(2) by simp
    ultimately show ?thesis by (auto simp: alloc_inv_def)
  qed
  moreover have "unat sz \<le> ?n * 4096 - 16"
  proof -
    have "unat (req_size sz) + 16 \<le> ?n * 4096" unfolding pl(5) by linarith
    then show ?thesis by (auto simp: req_size_def split: if_splits)
  qed
  ultimately show ?thesis by blast
qed

lemma alloc_inv_free:
  assumes "alloc_inv h A" "A p \<noteq> None"
  shows "alloc_inv (free h p) (A(p := None))"
proof -
  obtain R L where i: "heap_inv h R L" "live_blocks h L A" using assms(1) by (auto simp: alloc_inv_def)
  obtain k n where k: "L k = Some n" "p = page_addr h k + 16"
    using i(2) assms(2) by (auto simp: live_blocks_def)
  have hs: "HEAP_START (free h p) = HEAP_START h"
    unfolding k(2) by (simp add: free_live [OF i(1) k(1)] give_block_def)
  have other: "page_addr h j + 16 \<noteq> p" if "L j = Some b" "j \<noteq> k" for j b
    using user_addr_eq_iff [OF i(1), of j k] heap_invD(5) [OF i(1) that(1)]
      heap_invD(5) [OF i(1) k(1)] that(2) k(2) by simp
  have "live_blocks h (L(k := None)) (A(p := None))"
    using i(2) k other unfolding live_blocks_def map_del_Some_iff by metis
  then have "live_blocks (free h p) (L(k := None)) (A(p := None))"
    using hs by (simp cong: live_blocks_cong)
  moreover have "heap_inv (free h p) R (L(k := None))"
    using free_keeps_inv [OF i(1) k(1)] k(2) by simp
  ultimately show ?thesis by (auto simp: alloc_inv_def)
qed

lemma alloc_inv_free_null:
  assumes "alloc_inv h A"
  shows "alloc_inv (free h 0) A"
proof -
  obtain R L where "heap_inv h R L" "live_blocks h L A" using assms by (auto simp: alloc_inv_def)
  moreover have "free h 0 = h\<lparr>free_calls := free_calls h + 1\<rparr>" by (simp add: free_def)
  ultimately show ?thesis by (auto simp: alloc_inv_def cong: live_blocks_cong)
qed

lemma alloc_inv_disjoint:
  assumes "alloc_inv h A" "A p = Some n" "A q = Some m" "p \<noteq> q"
  shows "{unat p ..< unat p + n} \<inter> {unat q ..< unat q + m} = {}"
proof -
  obtain R L where i: "heap_inv h R L" "live_blocks h L A" using assms(1) by (auto simp: alloc_inv_def)
  note hk = heap_invD [OF i(1)]
  obtain k a where k: "L k = Some a" "p = page_addr h k + 16" "n = a * 4096 - 16"
    using i(2) assms(2) by (auto simp: live_blocks_def)
  obtain j b where j: "L j = Some b" "q = page_addr h j + 16" "m = b * 4096 - 16"
    using i(2) assms(3) by (auto simp: live_blocks_def)
  have "k \<noteq> j" using assms(4) k(2) j(2) by auto
  then have d: "block_pages k a \<inter> block_pages j b = {}" using hk(9) k(1) j(1) by blast
  have u: "unat p = unat (HEAP_START h) + k * 4096 + 16" "unat q = unat (HEAP_START h) + j * 4096 + 16"
    using unat_page_addr_plus [OF hk(1) hk(5), of _ _ 16] k j by simp_all
  have pos: "0 < a" "0 < b" using hk(3) k(1) j(1) by blast+
  have "k + a \<le> j \<or> j + b \<le> k"
  proof (rule ccontr)
    assume "\<not> (k + a \<le> j \<or> j + b \<le> k)"
    then have "max k j \<in> block_pages k a \<inter> block_pages j b" using pos by (auto simp: block_pages_def)
    with d show False by blast
  qed
  then have "k * 4096 + a * 4096 \<le> j * 4096 \<or> j * 4096 + b * 4096 \<le> k * 4096"
    by (metis add_mult_distrib mult_le_mono1)
  then show ?thesis using u k(3) j(3) pos by auto
qed

interpretation kmalloc: block_allocator malloc free alloc_inv
  by unfold_locales
    (erule (1) alloc_inv_malloc_null, erule (2) alloc_inv_malloc_block, erule (1) alloc_inv_free,
     erule alloc_inv_free_null, erule (3) alloc_inv_disjoint)

section \<open>Properties\<close>

text \<open>A heap of 16 pages above the kernel image, for the witnesses.\<close>

definition demo_heap :: heap where
  "demo_heap = \<lparr>HEAP_START = 0x80400000, HEAP_SIZE = 0x10000, alloc_start = 0, alloc_end = 0,
     heap_total_pages = 0, alloc_pages = 0, bitmap_bytes = 0, bitmap = (\<lambda>_. 0), mem = (\<lambda>_. 0),
     malloc_calls = 0, free_calls = 0, mstatus = 8\<rparr>"

lemma demo_heap_init: "\<exists>h. page_init demo_heap = Some h"
  by (simp add: page_init_def demo_heap_def Let_def)

lemma demo_heap_inv:
  "\<exists>h. heap_inv h (usb_dma_pages h) Map.empty \<and> first_page h = 1 \<and> last_page h = 16 \<and>
     usb_dma_pages h = {}"
proof -
  obtain h where h: "page_init demo_heap = Some h" using demo_heap_init by blast
  have al: "unat (HEAP_START demo_heap) mod 4096 = 0"
    "unat (HEAP_START demo_heap) + 33554432 < 4294967296"
    by (simp_all add: demo_heap_def)
  note i = page_init_inv [OF h al]
  have "last_page h = 16" using i(3) by (simp add: demo_heap_def)
  have "HEAP_START h = HEAP_START demo_heap" by (rule page_init_start [OF h])
  then have "usb_dma_pages h = {}"
    using \<open>last_page h = 16\<close> by (auto simp: usb_dma_pages_def demo_heap_def)
  with i \<open>last_page h = 16\<close> show ?thesis by blast
qed

text \<open>
  C34: \<open>malloc\<close> keeps the heap invariant. When it returns \<open>NULL\<close> the live blocks are the
  same; otherwise it returns the address behind the header of a block that was not live,
  is disjoint from every live block and from the reserved pages, and is large enough for
  the header and the requested bytes (one byte when the request is 0). The interrupt
  enable state is restored on every path.
\<close>

theorem malloc_correct:
  assumes "heap_inv h R L" and "malloc h sz = (p, h')"
  shows "mstatus h' = mstatus h \<and>
    (if p = 0 then heap_inv h' R L
     else \<exists>k n. p = page_addr h k + 16 \<and> L k = None \<and> heap_inv h' R (L(k \<mapsto> n)) \<and>
       block_pages k n \<inter> R = {} \<and>
       (\<forall>j m. L j = Some m \<longrightarrow> block_pages j m \<inter> block_pages k n = {}) \<and>
       (if sz = 0 then 1 else unat sz) + 16 \<le> n * 4096)"
proof (cases "malloc_place h sz")
  case None
  with malloc_NoneD [OF assms(1) None] assms(2) mstatus_malloc [of h sz] show ?thesis by simp
next
  case (Some k)
  let ?n = "unat (req_pages sz)"
  note m = malloc_SomeD [OF assms(1) Some]
  have inv: "heap_inv h' R (L(k \<mapsto> ?n))" using m(3) assms(2) by simp
  have "block_pages j i \<inter> block_pages k ?n = {}" if "L j = Some i" for j i
    using heap_invD(9) [OF inv, of j i k ?n] that m(4) by (cases "j = k") auto
  moreover have "block_pages k ?n \<inter> R = {}" using heap_invD(8) [OF inv, of k ?n] by simp
  moreover have "(if sz = 0 then 1 else unat sz) + 16 \<le> ?n * 4096"
    unfolding malloc_place_Some(5) [OF Some] req_size_def by (cases "sz = 0") simp_all
  ultimately have "\<exists>k n. p = page_addr h k + 16 \<and> L k = None \<and> heap_inv h' R (L(k \<mapsto> n)) \<and>
       block_pages k n \<inter> R = {} \<and>
       (\<forall>j m. L j = Some m \<longrightarrow> block_pages j m \<inter> block_pages k n = {}) \<and>
       (if sz = 0 then 1 else unat sz) + 16 \<le> n * 4096"
    using m(1,4) inv assms(2) by (intro exI [of _ k] exI [of _ ?n] conjI) auto
  moreover have "p \<noteq> 0" "mstatus h' = mstatus h"
    using m(2) assms(2) mstatus_malloc [of h sz] by simp_all
  ultimately show ?thesis by simp
qed

theorem malloc_correct_witness:
  "\<exists>h R p h'. heap_inv h R Map.empty \<and> malloc h 100 = (p, h') \<and> mstatus h' = mstatus h"
proof -
  obtain h where h: "heap_inv h (usb_dma_pages h) Map.empty" using demo_heap_inv by blast
  obtain p h' where m: "malloc h 100 = (p, h')" by (cases "malloc h 100")
  from malloc_correct [OF h m] h m show ?thesis by blast
qed

text \<open>The run of \<open>n\<close> free pages from \<open>k\<close> on, and the pages a request needs.\<close>

definition free_run :: "heap \<Rightarrow> nat \<Rightarrow> nat \<Rightarrow> bool" where
  "free_run h n k \<longleftrightarrow> first_page h \<le> k \<and> k + n \<le> last_page h \<and>
     (\<forall>p. k \<le> p \<and> p < k + n \<longrightarrow> \<not> page_is_used h p)"

definition pages_needed :: "u32 \<Rightarrow> nat" where
  "pages_needed sz = ((if sz = 0 then 1 else unat sz) + 16 + 4095) div 4096"

lemma malloc_fits:
  assumes "heap_inv h R L"
  shows "(fst (malloc h sz) = 0 \<longleftrightarrow> (\<nexists>k. free_run h (pages_needed sz) k)) \<and>
    (fst (malloc h sz) \<noteq> 0 \<longrightarrow>
      (\<exists>k. fst (malloc h sz) = page_addr h k + 16 \<and> free_run h (pages_needed sz) k \<and>
        (\<forall>k' < k. \<not> free_run h (pages_needed sz) k')))"
proof -
  define n where "n = pages_needed sz"
  define fits where "fits = free_run h n"
  note fits_def' = this
  note fits_def = fits_def' [unfolded fun_eq_iff free_run_def, rule_format]
  have lay: "layout_ok h" by (rule heap_invD(1) [OF assms(1)])
  have n: "n = (unat (req_size sz) + 16 + 4095) div 4096"
    by (cases "sz = 0") (simp_all add: n_def pages_needed_def req_size_def)
  have lp: "last_page h = first_page h + unat (alloc_pages h)" by (simp add: last_page_def)
  have "(fst (malloc h sz) = 0 \<longleftrightarrow> (\<nexists>k. fits k)) \<and>
    (fst (malloc h sz) \<noteq> 0 \<longrightarrow>
      (\<exists>k. fst (malloc h sz) = page_addr h k + 16 \<and> fits k \<and> (\<forall>k' < k. \<not> fits k')))"
  proof (cases "malloc_place h sz")
    case (Some k)
    note pl = malloc_place_Some [OF Some]
    have fk: "fits k" using pl n by (simp add: fits_def)
    have fr: "find_run h (first_page h) n (last_page h) = Some k"
      using Some pl(5) n by (simp add: malloc_place_def split: if_splits)
    have "\<not> fits k'" if "k' < k" for k'
    proof
      assume "fits k'"
      then obtain k'' where "find_run h (first_page h) n (last_page h) = Some k''" "k'' \<le> k'"
        unfolding fits_def using find_run_first by blast
      with fr that show False by simp
    qed
    with fk malloc_SomeD(1,2) [OF assms(1) Some] show ?thesis by auto
  next
    case None
    have "\<not> fits k" for k
    proof
      assume f: "fits k"
      then have le: "n \<le> unat (alloc_pages h)" using lp by (simp add: fits_def)
      have "unat (alloc_pages h) \<le> 8192" using lay lp by (simp add: layout_ok_def)
      with le n have small: "unat (req_size sz) + 16 + 4095 < 8193 * 4096" by linarith
      then have s1: "\<not> req_size sz > 0xffffffff - ALLOC_HEADER_SIZE"
        by (simp add: word_less_nat_alt)
      have rp: "unat (req_pages sz) = n"
        using small n by (simp add: req_pages_def pages_for_size_def drop_bit_eq_div
            unat_div_distrib unat_word_ariths)
      moreover have "0 < n" unfolding n by (simp add: div_greater_zero_iff)
      ultimately have "req_pages sz \<noteq> 0" "\<not> req_pages sz > alloc_pages h"
        using le by (auto simp: word_less_nat_alt)
      with None s1 rp have "find_run h (first_page h) n (last_page h) = None"
        by (simp add: malloc_place_def)
      with f find_run_first [of "first_page h" k n "last_page h" h] show False
        by (auto simp: fits_def)
    qed
    then show ?thesis using malloc_NoneD [OF assms(1) None] by simp
  qed
  then show ?thesis unfolding fits_def' n_def .
qed

text \<open>
  \<open>malloc\<close> is first-fit and complete. It fails exactly when no run of
  \<open>ceil((size + 16) / 4096)\<close> free pages exists in the allocation area (a size near \<open>2 ^ 32\<close>
  included), and otherwise takes the lowest such run.
\<close>

theorem malloc_first_fit:
  assumes "heap_inv h R L"
  shows "(fst (malloc h sz) = 0 \<longleftrightarrow> (\<nexists>k. free_run h (pages_needed sz) k)) \<and>
    (fst (malloc h sz) \<noteq> 0 \<longrightarrow>
      (\<exists>k. fst (malloc h sz) = page_addr h k + 16 \<and> free_run h (pages_needed sz) k \<and>
        (\<forall>k' < k. \<not> free_run h (pages_needed sz) k')))"
  by (rule malloc_fits [OF assms])

theorem malloc_first_fit_witness:
  "\<exists>h R. heap_inv h R Map.empty \<and> fst (malloc h 5000) = page_addr h 1 + 16"
proof -
  obtain h where h: "heap_inv h (usb_dma_pages h) Map.empty" "first_page h = 1"
    "last_page h = 16" "usb_dma_pages h = {}" using demo_heap_inv by blast
  have two: "pages_needed 5000 = 2" by (simp add: pages_needed_def)
  have f: "free_run h 2 1"
    using heap_invD(10) [OF h(1)] h by (auto simp: free_run_def)
  from malloc_first_fit [OF h(1), of 5000] obtain k
    where k: "fst (malloc h 5000) = page_addr h k + 16" "free_run h 2 k" "\<forall>k' < k. \<not> free_run h 2 k'"
    using f unfolding two by blast
  have "\<not> 1 < k" "1 \<le> k" using k(2,3) f h(2) by (auto simp: free_run_def)
  then have "k = 1" by simp
  with k(1) h(1) show ?thesis by blast
qed

lemma free_after_malloc:
  assumes "heap_inv h R L" and "malloc h sz = (p, h')" and "p \<noteq> 0"
  shows "heap_inv (free h' p) R L \<and> page_is_used (free h' p) = page_is_used h \<and>
    free (free h' p) p = (free h' p)\<lparr>free_calls := free_calls (free h' p) + 1\<rparr>"
    and "first_page (free h' p) = first_page h" "last_page (free h' p) = last_page h"
proof -
  obtain k where k: "malloc_place h sz = Some k"
    using malloc_NoneD(1) [OF assms(1)] assms(2,3) by (cases "malloc_place h sz") auto
  let ?n = "unat (req_pages sz)"
  note m = malloc_SomeD [OF assms(1) k] and pl = malloc_place_Some [OF k]
  have inv': "heap_inv h' R (L(k \<mapsto> ?n))" and pa: "page_addr h' k = page_addr h k"
    and p: "p = page_addr h' k + 16"
    using m assms(2) by simp_all
  have fr: "free h' p = (give_block h' k ?n)\<lparr>free_calls := free_calls h' + 1\<rparr>"
    unfolding p by (rule free_live [OF inv']) simp
  have "(L(k \<mapsto> ?n))(k := None) = L" using m(4) by auto
  then have "heap_inv (free h' p) R L"
    using heap_inv_give_block [OF inv', of k ?n] by (simp add: fr)
  moreover have "page_is_used (free h' p) q = page_is_used h q" for q
  proof -
    have "page_is_used h' q \<longleftrightarrow> k \<le> q \<and> q < k + ?n \<or> page_is_used h q"
      using assms(2) by (auto simp: malloc_eq k take_block_def page_is_used_set_pages)
    moreover have "\<not> (k \<le> q \<and> q < k + ?n \<and> page_is_used h q)" using pl(4) by blast
    ultimately show ?thesis by (auto simp: fr give_block_def bitmap_simps)
  qed
  moreover have "hdr_magic (free h' p) (p - 16) \<noteq> ALLOC_MAGIC"
    unfolding fr by (simp add: p give_block_def write_header_same)
  then have "free (free h' p) p = (free h' p)\<lparr>free_calls := free_calls (free h' p) + 1\<rparr>"
    by (rule free_dead_header [OF assms(3)])
  ultimately show "heap_inv (free h' p) R L \<and> page_is_used (free h' p) = page_is_used h \<and>
    free (free h' p) p = (free h' p)\<lparr>free_calls := free_calls (free h' p) + 1\<rparr>" by blast
  have "first_page h' = first_page h" "last_page h' = last_page h"
    using assms(2) by (auto simp: malloc_eq k take_block_def write_header_def first_page_def last_page_def)
  then show "first_page (free h' p) = first_page h" "last_page (free h' p) = last_page h"
    by (simp_all add: fr give_block_def write_header_def first_page_def last_page_def)
qed

text \<open>
  C38: \<open>free\<close> undoes \<open>malloc\<close>: after a successful \<open>malloc\<close>, freeing the returned address
  restores the used bit of every page and the invariant with the old live blocks, and a
  second \<open>free\<close> of the same address changes nothing but the call counter.
\<close>

theorem free_undoes_malloc:
  assumes "heap_inv h R L" and "malloc h sz = (p, h')" and "p \<noteq> 0"
  shows "heap_inv (free h' p) R L \<and> page_is_used (free h' p) = page_is_used h \<and>
    free (free h' p) p = (free h' p)\<lparr>free_calls := free_calls (free h' p) + 1\<rparr>"
  by (rule free_after_malloc(1) [OF assms])

theorem free_undoes_malloc_witness:
  "\<exists>h R p h'. heap_inv h R Map.empty \<and> malloc h 5000 = (p, h') \<and> p \<noteq> 0 \<and>
     heap_inv (free h' p) R Map.empty"
proof -
  obtain h where h: "heap_inv h (usb_dma_pages h) Map.empty" "first_page h = 1"
    "last_page h = 16" "usb_dma_pages h = {}" using demo_heap_inv by blast
  have "find_run h (first_page h) (unat (req_pages 5000)) (last_page h) \<noteq> None"
    using find_run_first [of 1 1 2 16 h] heap_invD(10) [OF h(1)] h(2-4)
    by (auto simp: req_pages_def pages_for_size_def req_size_def drop_bit_eq_div)
  moreover have "alloc_pages h = 15"
    using h(2,3) by (simp add: last_page_def word_unat_eq_iff)
  ultimately obtain k where k: "malloc_place h 5000 = Some k"
    by (auto simp: malloc_place_def req_size_def req_pages_def pages_for_size_def drop_bit_eq_div)
  obtain p h' where m: "malloc h 5000 = (p, h')" by (cases "malloc h 5000")
  have "p \<noteq> 0" using malloc_SomeD(2) [OF h(1) k] m by simp
  from free_undoes_malloc [OF h(1) m this] h(1) m this show ?thesis by blast
qed

text \<open>
  \<open>page_init\<close> on a page-aligned heap leaves the allocator invariant with no live block:
  the first page holds the bitmap, the others up to the 32 MB cap are free, and the pages
  of the USB DMA window that fall into the heap are the only reserved ones.
\<close>

theorem page_init_correct:
  assumes "page_init h = Some h'" and "unat (HEAP_START h) mod 4096 = 0"
    and "unat (HEAP_START h) + 33554432 < 4294967296"
  shows "heap_inv h' (usb_dma_pages h') Map.empty \<and> first_page h' = 1 \<and>
    last_page h' = min (unat (HEAP_SIZE h)) 33554432 div 4096"
  using page_init_inv [OF assms] by blast

theorem page_init_correct_witness:
  "\<exists>h'. page_init demo_heap = Some h' \<and> heap_inv h' (usb_dma_pages h') Map.empty \<and> last_page h' = 16"
proof -
  obtain h where h: "page_init demo_heap = Some h" using demo_heap_init by blast
  have al: "unat (HEAP_START demo_heap) mod 4096 = 0"
    "unat (HEAP_START demo_heap) + 33554432 < 4294967296"
    by (simp_all add: demo_heap_def)
  from page_init_correct [OF h al] h show ?thesis by (auto simp: demo_heap_def)
qed

end
