(* ===== verification/Tasks.thy ===== *)
theory Tasks
  imports Prelude "HOL-Library.Signed_Division"
begin

text \<open>
  The cooperative task scheduler, \<open>vibeos/task.c\<close>: run queues per priority level, the
  selection of the next task with a quota per level, and the switches between the kernel
  context and a task. C arrays are functions of an \<open>int\<close> index; a \<open>panic\<close> is \<open>None\<close>; a call
  of \<open>sys_switch\<close> (assembly) is recorded in the \<open>switches\<close> of the state.
\<close>

section \<open>State\<close>

record task_level =
  tasks :: "int \<Rightarrow> int"
  running :: int
  now :: int

record task_meta =
  flags :: int
  level :: int
  priority :: int

record ctx =
  ra :: u32
  sp :: u32
  sregs :: "nat \<Rightarrow> u32"

datatype place = Os | Task int

record sched =
  ctx_os :: ctx
  ctx_tasks :: "int \<Rightarrow> ctx"
  ctx_now :: place
  task_levels :: "int \<Rightarrow> task_level"
  task_metas :: "int \<Rightarrow> task_meta"
  current_task_id :: int
  current_level :: int
  current_level_quota :: int
  taskTop :: int
  switches :: "(place \<times> place) list"

abbreviation (input) MAX_TASKS :: int where "MAX_TASKS \<equiv> 16"
abbreviation (input) MAX_TASKLEVELS :: int where "MAX_TASKLEVELS \<equiv> 4"
abbreviation (input) TASK_UNUSED :: int where "TASK_UNUSED \<equiv> 0"
abbreviation (input) TASK_SLEEPING :: int where "TASK_SLEEPING \<equiv> 1"
abbreviation (input) TASK_RUNNING :: int where "TASK_RUNNING \<equiv> 2"
abbreviation (input) LEVEL0_QUOTA :: int where "LEVEL0_QUOTA \<equiv> 3"

definition zero_ctx :: ctx where "zero_ctx = \<lparr>ra = 0, sp = 0, sregs = (\<lambda>_. 0)\<rparr>"
definition zero_level :: task_level where "zero_level = \<lparr>tasks = (\<lambda>_. 0), running = 0, now = 0\<rparr>"
definition zero_meta :: task_meta where "zero_meta = \<lparr>flags = 0, level = 0, priority = 0\<rparr>"

definition upd_level :: "sched \<Rightarrow> int \<Rightarrow> (task_level \<Rightarrow> task_level) \<Rightarrow> sched" where
  "upd_level s l f = s\<lparr>task_levels := (task_levels s)(l := f (task_levels s l))\<rparr>"

definition upd_meta :: "sched \<Rightarrow> int \<Rightarrow> (task_meta \<Rightarrow> task_meta) \<Rightarrow> sched" where
  "upd_meta s t f = s\<lparr>task_metas := (task_metas s)(t := f (task_metas s t))\<rparr>"

section \<open>Operations\<close>

definition task_init :: "sched \<Rightarrow> sched" where
  "task_init s = s\<lparr>ctx_os := zero_ctx, ctx_tasks := (\<lambda>_. zero_ctx),
     task_levels := (\<lambda>_. zero_level), task_metas := (\<lambda>_. zero_meta),
     ctx_now := Os, current_task_id := -1, current_level := 0,
     current_level_quota := LEVEL0_QUOTA, taskTop := 0\<rparr>"

definition task_add :: "sched \<Rightarrow> int \<Rightarrow> sched option" where
  "task_add s task_id =
     (let l = level (task_metas s task_id);
          (s, l) = (if l < 0 \<or> l \<ge> MAX_TASKLEVELS
                    then (upd_meta s task_id (\<lambda>m. m\<lparr>level := 0\<rparr>), 0) else (s, l));
          tl = task_levels s l;
          s = (if running tl < 0 \<or> running tl > MAX_TASKS
               then upd_level s l (\<lambda>tl. tl\<lparr>running := 0, now := 0\<rparr>) else s);
          tl = task_levels s l
      in if running tl \<ge> MAX_TASKS then None
         else let s = upd_level s l (\<lambda>tl. tl\<lparr>tasks := (tasks tl)(running tl := task_id),
                                            running := running tl + 1\<rparr>)
              in Some (upd_meta s task_id (\<lambda>m. m\<lparr>flags := TASK_RUNNING\<rparr>)))"

text \<open>The search loop of \<open>task_remove\<close>: the index of the task, the queue length if absent.\<close>

function find_task :: "(int \<Rightarrow> int) \<Rightarrow> int \<Rightarrow> int \<Rightarrow> int \<Rightarrow> int" where
  "find_task ts n task_id i =
     (if i < n then if ts i = task_id then i else find_task ts n task_id (i + 1) else i)"
  by pat_completeness auto
termination by (relation "measure (\<lambda>(ts, n, t, i). nat (n - i))") auto

text \<open>The loop that moves the later tasks down, replacing ids out of range by 0.\<close>

function shift_tasks :: "int \<Rightarrow> (int \<Rightarrow> int) \<Rightarrow> int \<Rightarrow> int \<Rightarrow> (int \<Rightarrow> int)" where
  "shift_tasks n_tasks ts n i =
     (if i < n then
        let nxt = ts (i + 1); nxt = (if nxt < 0 \<or> nxt \<ge> n_tasks then 0 else nxt)
        in shift_tasks n_tasks (ts(i := nxt)) n (i + 1)
      else ts)"
  by pat_completeness auto
termination by (relation "measure (\<lambda>(m, ts, n, i). nat (n - i))") auto

declare find_task.simps [simp del] shift_tasks.simps [simp del]

definition task_remove :: "sched \<Rightarrow> int \<Rightarrow> sched" where
  "task_remove s task_id =
     (let l = level (task_metas s task_id) in
      if l < 0 \<or> l \<ge> MAX_TASKLEVELS
      then upd_meta s task_id (\<lambda>m. m\<lparr>level := 0, flags := TASK_SLEEPING\<rparr>)
      else let tl = task_levels s l in
        if running tl < 0 \<or> running tl > MAX_TASKS
        then upd_meta (upd_level s l (\<lambda>tl. tl\<lparr>running := 0, now := 0\<rparr>))
               task_id (\<lambda>m. m\<lparr>flags := TASK_SLEEPING\<rparr>)
        else let i = find_task (tasks tl) (running tl) task_id 0 in
          if i = running tl then s
          else let r = running tl - 1;
                   nw = (if i < now tl then now tl - 1 else now tl);
                   nw = (if nw \<ge> r then 0 else nw);
                   s = upd_level s l (\<lambda>tl. tl\<lparr>running := r, now := nw,
                         tasks := shift_tasks (taskTop s) (tasks tl) r i\<rparr>)
               in upd_meta s task_id (\<lambda>m. m\<lparr>flags := TASK_SLEEPING\<rparr>))"

text \<open>The first level with a runnable task: the loops \<open>for (i = 0; i < MAX_TASKLEVELS; i++)\<close>.\<close>

definition first_level :: "sched \<Rightarrow> int list \<Rightarrow> int option" where
  "first_level s ls = find (\<lambda>l. running (task_levels s l) > 0) ls"

definition task_switchsub :: "sched \<Rightarrow> sched" where
  "task_switchsub s =
     (case first_level s [0, 1, 2, 3] of
        Some i \<Rightarrow> s\<lparr>current_level := i, current_level_quota := (if i = 0 then LEVEL0_QUOTA else 1)\<rparr>
      | None \<Rightarrow> s\<lparr>current_level := 0, current_level_quota := LEVEL0_QUOTA\<rparr>)"

definition task_run :: "sched \<Rightarrow> int \<Rightarrow> int \<Rightarrow> int \<Rightarrow> sched option" where
  "task_run s task_id lvl prio =
     (if task_id < 0 \<or> task_id \<ge> taskTop s then Some s
      else let lvl = (if lvl < 0 then level (task_metas s task_id) else lvl);
               lvl = (if lvl \<ge> MAX_TASKLEVELS then MAX_TASKLEVELS - 1 else lvl);
               prio = (if prio \<le> 0 then 1 else prio);
               s = (if flags (task_metas s task_id) = TASK_RUNNING \<and>
                       level (task_metas s task_id) \<noteq> lvl
                    then task_remove s task_id else s);
               s = upd_meta s task_id (\<lambda>m. m\<lparr>level := lvl, priority := prio\<rparr>)
           in map_option task_switchsub
                (if flags (task_metas s task_id) \<noteq> TASK_RUNNING then task_add s task_id else Some s))"

text \<open>
  The register context of a new task: entry point in \<open>ra\<close>, a 16-byte aligned stack top in
  \<open>sp\<close>. \<open>stack_top i\<close> is the address of \<open>task_stack[i][STACK_SIZE]\<close>.
\<close>

definition fresh_ctx :: "u32 \<Rightarrow> u32 \<Rightarrow> ctx" where
  "fresh_ctx entry stack_end = zero_ctx\<lparr>ra := entry, sp := stack_end AND NOT 0xF\<rparr>"

definition task_create :: "(int \<Rightarrow> u32) \<Rightarrow> sched \<Rightarrow> u32 \<Rightarrow> int \<Rightarrow> int \<Rightarrow> (int \<times> sched) option" where
  "task_create stack_top s task lvl prio =
     (if taskTop s \<ge> MAX_TASKS then None
      else let i = taskTop s;
               s = s\<lparr>taskTop := i + 1, ctx_tasks := (ctx_tasks s)(i := fresh_ctx task (stack_top i))\<rparr>;
               s = upd_meta s i (\<lambda>m. m\<lparr>flags := TASK_SLEEPING, level := 0, priority := 1\<rparr>)
           in map_option (\<lambda>s. (i, s)) (task_run s i lvl prio))"

definition task_reset :: "(int \<Rightarrow> u32) \<Rightarrow> sched \<Rightarrow> int \<Rightarrow> u32 \<Rightarrow> int \<Rightarrow> int \<Rightarrow> sched option" where
  "task_reset stack_top s task_id task lvl prio =
     (if task_id < 0 \<or> task_id \<ge> taskTop s then Some s
      else let s = (if flags (task_metas s task_id) = TASK_RUNNING then task_remove s task_id else s);
               s = s\<lparr>ctx_tasks := (ctx_tasks s)(task_id := fresh_ctx task (stack_top task_id))\<rparr>;
               s = upd_meta s task_id (\<lambda>m. m\<lparr>flags := TASK_SLEEPING, level := 0, priority := 1\<rparr>)
           in task_run s task_id lvl prio)"

text \<open>Switching back to the kernel, and to a task.\<close>

definition task_os :: "sched \<Rightarrow> sched" where
  "task_os s =
     (if current_task_id s < 0 \<or> current_task_id s \<ge> taskTop s then s
      else s\<lparr>current_task_id := -1, ctx_now := Os,
             switches := switches s @ [(Task (current_task_id s), Os)]\<rparr>)"

definition task_go :: "sched \<Rightarrow> int \<Rightarrow> sched" where
  "task_go s i =
     (if i < 0 \<or> i \<ge> taskTop s then s
      else if flags (task_metas s i) \<noteq> TASK_RUNNING then s
      else if ra (ctx_tasks s i) = 0 \<or> sp (ctx_tasks s i) = 0 then task_remove s i
      else s\<lparr>current_task_id := i, ctx_now := Task i, switches := switches s @ [(Os, Task i)]\<rparr>)"

definition task_sleep :: "sched \<Rightarrow> int \<Rightarrow> sched" where
  "task_sleep s task_id =
     (if task_id < 0 \<or> task_id \<ge> taskTop s then s
      else if flags (task_metas s task_id) \<noteq> TASK_RUNNING then s
      else let self = (task_id = current_task_id s);
               s = task_switchsub (task_remove s task_id)
           in if self then task_os s else s)"

definition task_wake :: "sched \<Rightarrow> int \<Rightarrow> sched option" where
  "task_wake s task_id =
     (if task_id < 0 \<or> task_id \<ge> taskTop s then Some s
      else if flags (task_metas s task_id) = TASK_RUNNING then Some s
      else map_option task_switchsub (task_add s task_id))"

definition task_current :: "sched \<Rightarrow> int" where
  "task_current s = current_task_id s"

definition task_sleep_current :: "sched \<Rightarrow> sched" where
  "task_sleep_current s = (if current_task_id s \<ge> 0 then task_sleep s (current_task_id s) else s)"

text \<open>
  \<open>task_next\<close> first chooses a level: the current one while its quota lasts, else the next
  level in cyclic order that has a runnable task.
\<close>

definition next_levels :: "int \<Rightarrow> int list" where
  "next_levels c = map (\<lambda>step. (c + step) smod MAX_TASKLEVELS) [1, 2, 3, 4]"

definition choose_level :: "sched \<Rightarrow> int \<times> sched" where
  "choose_level s =
     (let c = current_level s in
      if c \<ge> 0 \<and> c < MAX_TASKLEVELS \<and> running (task_levels s c) > 0 \<and> current_level_quota s > 0
      then (c, s\<lparr>current_level_quota := current_level_quota s - 1\<rparr>)
      else
        let set_level = (\<lambda>l. s\<lparr>current_level := l,
              current_level_quota := (if l = 0 then LEVEL0_QUOTA - 1 else 0)\<rparr>) in
        case first_level s (next_levels c) of
          Some l \<Rightarrow> (l, set_level l)
        | None \<Rightarrow> (case first_level s [0, 1, 2, 3] of
              Some l \<Rightarrow> (l, set_level l)
            | None \<Rightarrow> (-1, s)))"

text \<open>Then it takes the task under the level's cursor and moves the cursor on.\<close>

definition task_next :: "sched \<Rightarrow> int \<times> sched" where
  "task_next s =
     (let (l, s) = choose_level s in
      if l < 0 then (-1, s)
      else let tl = task_levels s l in
        if running tl \<le> 0 then (-1, s)
        else let nw = (if now tl \<ge> running tl then 0 else now tl);
                 task_id = tasks tl nw;
                 nw' = (if nw + 1 \<ge> running tl then 0 else nw + 1);
                 s = upd_level s l (\<lambda>tl. tl\<lparr>now := nw'\<rparr>)
             in if task_id < 0 \<or> task_id \<ge> taskTop s then (-1, s)
                else if flags (task_metas s task_id) \<noteq> TASK_RUNNING then (-1, s)
                else if ra (ctx_tasks s task_id) = 0 \<or> sp (ctx_tasks s task_id) = 0
                     then (-1, task_remove s task_id)
                else (task_id, s))"

section \<open>The run queue of a level\<close>

definition runq :: "sched \<Rightarrow> int \<Rightarrow> int list" where
  "runq s l = map (tasks (task_levels s l)) [0 .. running (task_levels s l) - 1]"

abbreviation runnable_at :: "sched \<Rightarrow> int \<Rightarrow> int set" where
  "runnable_at s l \<equiv> {t. 0 \<le> t \<and> t < taskTop s \<and> flags (task_metas s t) = TASK_RUNNING \<and>
                         level (task_metas s t) = l}"

definition level_ok :: "task_level \<Rightarrow> bool" where
  "level_ok q \<longleftrightarrow> 0 \<le> running q \<and> running q \<le> MAX_TASKS \<and> 0 \<le> now q \<and>
     (now q < running q \<or> now q = 0)"

definition sched_wf :: "sched \<Rightarrow> bool" where
  "sched_wf s \<longleftrightarrow>
     0 \<le> taskTop s \<and> taskTop s \<le> MAX_TASKS \<and>
     (\<forall>l\<in>{0..3}. level_ok (task_levels s l) \<and> distinct (runq s l) \<and>
                  set (runq s l) = runnable_at s l) \<and>
     (\<forall>t. 0 \<le> t \<and> t < taskTop s \<longrightarrow> 0 \<le> level (task_metas s t) \<and> level (task_metas s t) < MAX_TASKLEVELS) \<and>
     (\<forall>t \<ge> taskTop s. flags (task_metas s t) \<noteq> TASK_RUNNING) \<and>
     0 \<le> current_level s \<and> current_level s < MAX_TASKLEVELS \<and>
     0 \<le> current_level_quota s \<and>
     current_level_quota s \<le> (if current_level s = 0 then LEVEL0_QUOTA else 1) \<and>
     -1 \<le> current_task_id s \<and> current_task_id s < taskTop s"

lemma length_runq: "0 \<le> running (task_levels s l) \<Longrightarrow> int (length (runq s l)) = running (task_levels s l)"
  by (simp add: runq_def)

lemma find_task_props:
  assumes "i \<le> n"
  shows "i \<le> find_task ts n t i \<and> find_task ts n t i \<le> n \<and>
    (\<forall>j. i \<le> j \<and> j < find_task ts n t i \<longrightarrow> ts j \<noteq> t) \<and>
    (find_task ts n t i < n \<longrightarrow> ts (find_task ts n t i) = t)"
  using assms
proof (induction ts n t i rule: find_task.induct)
  case (1 ts n t i)
  show ?case
  proof (cases "i < n \<and> ts i \<noteq> t")
    case True
    then have e: "find_task ts n t i = find_task ts n t (i + 1)"
      by (subst find_task.simps) simp
    have "i + 1 \<le> n" using True by simp
    show ?thesis unfolding e using 1(1) [OF _ _ \<open>i + 1 \<le> n\<close>] True
      by (metis add1_zle_eq order_le_less order_less_le_trans zless_add1_eq)
  next
    case False
    then have "find_task ts n t i = i" by (subst find_task.simps) auto
    then show ?thesis using False 1(2) by auto
  qed
qed

lemma shift_tasks_eq:
  assumes "\<And>j. i < j \<Longrightarrow> j \<le> n \<Longrightarrow> 0 \<le> ts j \<and> ts j < m"
  shows "shift_tasks m ts n i = (\<lambda>j. if i \<le> j \<and> j < n then ts (j + 1) else ts j)"
  using assms
proof (induction m ts n i rule: shift_tasks.induct)
  case (1 m ts n i)
  show ?case
  proof (cases "i < n")
    case True
    then have nxt: "0 \<le> ts (i + 1) \<and> ts (i + 1) < m" using 1(2) [of "i + 1"] by simp
    have "shift_tasks m ts n i = shift_tasks m (ts(i := ts (i + 1))) n (i + 1)"
      using True nxt by (subst shift_tasks.simps) (auto simp: Let_def)
    also have "\<dots> = (\<lambda>j. if i + 1 \<le> j \<and> j < n then (ts(i := ts (i + 1))) (j + 1)
                         else (ts(i := ts (i + 1))) j)"
      using 1(1) [OF True refl refl] nxt 1(2) by (simp add: Let_def not_le not_less fun_upd_def)
    also have "\<dots> = (\<lambda>j. if i \<le> j \<and> j < n then ts (j + 1) else ts j)"
      using True by (auto simp: fun_eq_iff)
    finally show ?thesis .
  next
    case False
    then show ?thesis by (subst shift_tasks.simps) (auto simp: fun_eq_iff)
  qed
qed

text \<open>Dropping position \<open>i\<close> of an array prefix is \<open>remove1\<close> on the list it holds.\<close>

lemma upto_split_at: "0 \<le> i \<Longrightarrow> i < (n::int) \<Longrightarrow> [0 .. n - 1] = [0 .. i - 1] @ i # [i + 1 .. n - 1]"
  using upto_split3 [of 0 i "n - 1"] by simp

lemma map_shift_upto: "map (\<lambda>j. f (j + 1)) [i .. n - 1] = map f [i + 1 .. n]" for i n :: int
  by (rule nth_equalityI) (simp_all add: nth_upto algebra_simps)

lemma remove1_map_upto:
  fixes i n :: int
  assumes "0 \<le> i" "i < n" "f i = x" "\<And>j. 0 \<le> j \<Longrightarrow> j < i \<Longrightarrow> f j \<noteq> x"
  shows "remove1 x (map f [0 .. n - 1]) =
    map (\<lambda>j. if i \<le> j \<and> j < n - 1 then f (j + 1) else f j) [0 .. n - 1 - 1]"
proof -
  have "[0 .. n - 1 - 1] = [0 .. i - 1] @ [i .. n - 1 - 1]"
    using assms upto_split1 [of 0 i "n - 1 - 1"] by (cases "i = n - 1") auto
  moreover have "map (\<lambda>j. if i \<le> j \<and> j < n - 1 then f (j + 1) else f j) [i .. n - 1 - 1]
      = map f [i + 1 .. n - 1]"
    by (subst map_shift_upto [symmetric]) simp
  moreover have "x \<notin> set (map f [0 .. i - 1])" using assms(4) by force
  ultimately show ?thesis
    using upto_split_at [OF assms(1,2)] assms(3) by (simp add: remove1_append)
qed

lemma upd_level_simps [simp]:
  "task_levels (upd_level s l f) = (task_levels s)(l := f (task_levels s l))"
  "task_metas (upd_level s l f) = task_metas s"
  "taskTop (upd_level s l f) = taskTop s"
  "current_level (upd_level s l f) = current_level s"
  "current_level_quota (upd_level s l f) = current_level_quota s"
  "current_task_id (upd_level s l f) = current_task_id s"
  "ctx_tasks (upd_level s l f) = ctx_tasks s"
  by (simp_all add: upd_level_def)

lemma upd_meta_simps [simp]:
  "task_levels (upd_meta s l g) = task_levels s"
  "task_metas (upd_meta s l g) = (task_metas s)(l := g (task_metas s l))"
  "taskTop (upd_meta s l g) = taskTop s"
  "current_level (upd_meta s l g) = current_level s"
  "current_level_quota (upd_meta s l g) = current_level_quota s"
  "current_task_id (upd_meta s l g) = current_task_id s"
  "ctx_tasks (upd_meta s l g) = ctx_tasks s"
  by (simp_all add: upd_meta_def)

lemma runq_cong: "task_levels s l = task_levels s' l \<Longrightarrow> runq s l = runq s' l"
  by (simp add: runq_def)

section \<open>Every operation keeps the queues well formed\<close>

lemma sched_wfD:
  assumes "sched_wf s"
  shows "0 \<le> taskTop s" "taskTop s \<le> 16"
    "0 \<le> l \<Longrightarrow> l < 4 \<Longrightarrow> level_ok (task_levels s l)"
    "0 \<le> l \<Longrightarrow> l < 4 \<Longrightarrow> distinct (runq s l)"
    "0 \<le> l \<Longrightarrow> l < 4 \<Longrightarrow> set (runq s l) = runnable_at s l"
    "0 \<le> t \<Longrightarrow> t < taskTop s \<Longrightarrow> 0 \<le> level (task_metas s t)"
    "0 \<le> t \<Longrightarrow> t < taskTop s \<Longrightarrow> level (task_metas s t) < 4"
    "0 \<le> current_level s" "current_level s < 4"
    "0 \<le> current_level_quota s"
    "current_level_quota s \<le> (if current_level s = 0 then 3 else 1)"
    "taskTop s \<le> t \<Longrightarrow> flags (task_metas s t) \<noteq> 2"
  using assms unfolding sched_wf_def by auto

lemma wf_queue_room:
  assumes "sched_wf s" "0 \<le> l" "l < 4" "0 \<le> t" "t < taskTop s" "t \<notin> set (runq s l)"
  shows "running (task_levels s l) < 16"
proof -
  note wf = sched_wfD [OF assms(1)]
  have "set (t # runq s l) \<subseteq> {0 ..< 16}"
  proof
    fix x assume "x \<in> set (t # runq s l)"
    then have "x = t \<or> x \<in> runnable_at s l" using wf(5) [OF assms(2,3)] by simp
    then show "x \<in> {0 ..< 16}" using wf(2) assms(4,5) by auto
  qed
  then have "card (set (t # runq s l)) \<le> card {0 ..< 16::int}" by (intro card_mono) simp_all
  moreover have "card (set (t # runq s l)) = Suc (length (runq s l))"
    using wf(4) [OF assms(2,3)] assms(6) by (simp add: distinct_card)
  ultimately have "length (runq s l) < 16" by simp
  moreover have "int (length (runq s l)) = running (task_levels s l)"
    using wf(3) [OF assms(2,3)] by (intro length_runq) (simp add: level_ok_def)
  ultimately show ?thesis by linarith
qed

lemma runq_snoc:
  assumes "0 \<le> running q"
  shows "map ((tasks q)(running q := t)) [0 .. running q] = map (tasks q) [0 .. running q - 1] @ [t]"
  using assms by (simp add: upto_rec2)

lemma task_add_eq:
  assumes "sched_wf s" "0 \<le> t" "t < taskTop s" "flags (task_metas s t) \<noteq> 2"
  defines "l \<equiv> level (task_metas s t)"
  shows "task_add s t = Some (upd_meta
    (upd_level s l (\<lambda>q. q\<lparr>tasks := (tasks q)(running q := t), running := running q + 1\<rparr>))
    t (\<lambda>m. m\<lparr>flags := TASK_RUNNING\<rparr>))"
proof -
  note wf = sched_wfD [OF assms(1)]
  have l: "0 \<le> l" "l < 4" using wf(6,7) [OF assms(2,3)] by (simp_all add: l_def)
  have nin: "t \<notin> set (runq s l)" using wf(5) [OF l] assms(4) by simp
  have room: "running (task_levels s l) < 16" by (rule wf_queue_room [OF assms(1) l assms(2,3) nin])
  have ok: "0 \<le> running (task_levels s l)" using wf(3) [OF l] by (simp add: level_ok_def)
  have c: "(l < 0 \<or> l \<ge> 4) = False"
    "(running (task_levels s l) < 0 \<or> running (task_levels s l) > 16) = False"
    "(running (task_levels s l) \<ge> 16) = False"
    using l room ok by auto
  show ?thesis
    by (simp only: task_add_def Let_def l_def [symmetric] c if_False prod.case)
qed

lemma task_add_wf:
  assumes "sched_wf s" "0 \<le> t" "t < taskTop s" "flags (task_metas s t) \<noteq> 2"
  shows "\<exists>s'. task_add s t = Some s' \<and> sched_wf s' \<and> flags (task_metas s' t) = 2 \<and>
    task_metas s' = (task_metas s)(t := (task_metas s t)\<lparr>flags := 2\<rparr>) \<and>
    taskTop s' = taskTop s \<and> current_task_id s' = current_task_id s \<and> ctx_tasks s' = ctx_tasks s \<and>
    (\<forall>k. runq s' k = (if k = level (task_metas s t) then runq s k @ [t] else runq s k))"
proof -
  define l where "l = level (task_metas s t)"
  define s' where "s' = upd_meta
    (upd_level s l (\<lambda>q. q\<lparr>tasks := (tasks q)(running q := t), running := running q + 1\<rparr>))
    t (\<lambda>m. m\<lparr>flags := TASK_RUNNING\<rparr>)"
  note wf = sched_wfD [OF assms(1)]
  have l: "0 \<le> l" "l < 4" using wf(6,7) [OF assms(2,3)] by (simp_all add: l_def)
  have nin: "t \<notin> set (runq s l)" using wf(5) [OF l] assms(4) by simp
  have room: "running (task_levels s l) < 16" using wf_queue_room [OF assms(1) l assms(2,3) nin] .
  have q: "runq s' k = (if k = l then runq s k @ [t] else runq s k)" for k
    using wf(3) [OF l] by (simp add: s'_def runq_def level_ok_def runq_snoc)
  have lv: "level_ok (task_levels s' k)" if "0 \<le> k" "k < 4" for k
    using wf(3) [OF that] room by (auto simp: s'_def level_ok_def)
  have r: "runnable_at s' k = (if k = l then insert t (runnable_at s k) else runnable_at s k)" for k
    using assms(2-4) by (auto simp: s'_def l_def)
  have "sched_wf s'"
    unfolding sched_wf_def
  proof (intro conjI ballI)
    fix k :: int assume "k \<in> {0..3}"
    then have k: "0 \<le> k" "k < 4" by auto
    show "level_ok (task_levels s' k)" by (rule lv [OF k])
    show "distinct (runq s' k)" using wf(4) [OF k] nin by (auto simp: q)
    show "set (runq s' k) = runnable_at s' k" using wf(5) [OF k] by (cases "k = l") (simp_all only: r q, simp_all)
  qed (use assms in \<open>auto simp: s'_def sched_wf_def\<close>)
  then show ?thesis
    using task_add_eq [OF assms] q by (simp add: s'_def l_def)
qed

lemma task_remove_wf:
  assumes "sched_wf s" "0 \<le> t" "t < taskTop s" "flags (task_metas s t) = 2"
  shows "sched_wf (task_remove s t) \<and>
    task_metas (task_remove s t) = (task_metas s)(t := (task_metas s t)\<lparr>flags := TASK_SLEEPING\<rparr>) \<and>
    taskTop (task_remove s t) = taskTop s \<and> current_task_id (task_remove s t) = current_task_id s \<and>
    ctx_tasks (task_remove s t) = ctx_tasks s \<and>
    (\<forall>k. runq (task_remove s t) k =
      (if k = level (task_metas s t) then remove1 t (runq s k) else runq s k))"
proof -
  define l where "l = level (task_metas s t)"
  define q where "q = task_levels s l"
  define i where "i = find_task (tasks q) (running q) t 0"
  define nw where "nw = (if i < now q then now q - 1 else now q)"
  note wf = sched_wfD [OF assms(1)]
  have l: "0 \<le> l" "l < 4" using wf(6,7) [OF assms(2,3)] by (simp_all add: l_def)
  have ok: "level_ok q" using wf(3) [OF l] by (simp add: q_def)
  have "t \<in> set (runq s l)" using wf(5) [OF l] assms(2-4) by (simp add: l_def)
  then obtain j where j: "0 \<le> j" "j < running q" "tasks q j = t"
    by (auto simp: runq_def q_def)
  have i: "0 \<le> i" "i \<le> running q" "\<forall>j. 0 \<le> j \<and> j < i \<longrightarrow> tasks q j \<noteq> t"
    "i < running q \<longrightarrow> tasks q i = t"
    using find_task_props [of 0 "running q" "tasks q" t] ok by (auto simp: i_def level_ok_def)
  then have i': "i < running q" using j by (metis linorder_less_linear order_le_less)
  have ids: "0 \<le> tasks q j \<and> tasks q j < taskTop s" if "i < j" "j \<le> running q - 1" for j
  proof -
    have "tasks q j \<in> set (runq s l)" using that i by (simp add: runq_def q_def)
    then show ?thesis using wf(5) [OF l] by simp
  qed
  let ?sh = "\<lambda>j. if i \<le> j \<and> j < running q - 1 then tasks q (j + 1) else tasks q j"
  define s' where "s' = upd_meta (upd_level s l (\<lambda>q. q\<lparr>running := running q - 1,
      now := (if nw \<ge> running q - 1 then 0 else nw), tasks := ?sh\<rparr>))
    t (\<lambda>m. m\<lparr>flags := TASK_SLEEPING\<rparr>)"
  have eq: "task_remove s t = s'"
    using l ok i' shift_tasks_eq [OF ids]
    by (simp add: task_remove_def s'_def Let_def level_ok_def upd_level_def nw_def
        flip: l_def q_def i_def)
  have rq: "runq s' k = (if k = l then remove1 t (runq s k) else runq s k)" for k
  proof (cases "k = l")
    case True
    have "remove1 t (map (tasks q) [0 .. running q - 1]) = map ?sh [0 .. running q - 1 - 1]"
      by (rule remove1_map_upto) (use i i' in auto)
    then show ?thesis using True by (simp add: s'_def runq_def q_def)
  qed (simp add: s'_def runq_def)
  have r: "runnable_at s' k = (if k = l then runnable_at s k - {t} else runnable_at s k)" for k
    by (auto simp: s'_def l_def)
  have lv: "level_ok (task_levels s' k)" if "0 \<le> k" "k < 4" for k
    using wf(3) [OF that] ok i i' by (auto simp: s'_def level_ok_def nw_def q_def)
  have "sched_wf s'"
    unfolding sched_wf_def
  proof (intro conjI ballI)
    fix k :: int assume "k \<in> {0..3}"
    then have k: "0 \<le> k" "k < 4" by auto
    show "level_ok (task_levels s' k)" by (rule lv [OF k])
    show "distinct (runq s' k)" using wf(4) [OF k] by (auto simp: rq)
    show "set (runq s' k) = runnable_at s' k"
      using wf(4,5) [OF k] by (cases "k = l") (simp_all only: r rq, simp_all)
  qed (use assms in \<open>auto simp: s'_def sched_wf_def\<close>)
  then show ?thesis using eq rq by (simp add: s'_def l_def)
qed

lemma sched_wf_cong:
  assumes "sched_wf s" "task_levels s' = task_levels s" "task_metas s' = task_metas s"
    "taskTop s' = taskTop s" "0 \<le> current_level s'" "current_level s' < 4"
    "0 \<le> current_level_quota s'"
    "current_level_quota s' \<le> (if current_level s' = 0 then 3 else 1)"
    "-1 \<le> current_task_id s'" "current_task_id s' < taskTop s"
  shows "sched_wf s'"
  using assms unfolding sched_wf_def runq_def by simp

lemma upd_meta_wf:
  assumes wf: "sched_wf s" and "0 \<le> t" "t < taskTop s"
    and "0 \<le> level (f (task_metas s t))" "level (f (task_metas s t)) < 4"
    and c: "flags (f (task_metas s t)) \<noteq> 2 \<and> flags (task_metas s t) \<noteq> 2 \<or>
      flags (f (task_metas s t)) = flags (task_metas s t) \<and>
      level (f (task_metas s t)) = level (task_metas s t)"
  shows "sched_wf (upd_meta s t f)"
proof -
  have "runnable_at (upd_meta s t f) k = runnable_at s k" for k using c by auto
  then have "set (runq (upd_meta s t f) k) = runnable_at (upd_meta s t f) k" if "k \<in> {0..3}" for k
    using sched_wfD(5) [OF wf, of k] that by (simp add: runq_def)
  moreover have "runq (upd_meta s t f) k = runq s k" for k by (simp add: runq_def)
  ultimately show ?thesis
    using assms unfolding sched_wf_def by (simp only: upd_meta_simps) auto
qed

lemma first_level_SomeD: "first_level s ls = Some l \<Longrightarrow> l \<in> set ls \<and> running (task_levels s l) > 0"
  unfolding first_level_def by (metis find_Some_iff nth_mem)

lemma first_level_None: "first_level s ls = None \<longleftrightarrow> (\<forall>l\<in>set ls. running (task_levels s l) \<le> 0)"
  by (auto simp: first_level_def find_None_iff not_less)

lemma task_switchsub_wf:
  assumes "sched_wf s"
  shows "sched_wf (task_switchsub s)"
proof -
  have "-1 \<le> current_task_id s" "current_task_id s < taskTop s"
    using assms by (simp_all add: sched_wf_def)
  then show ?thesis
    by (auto intro!: sched_wf_cong [OF assms] simp: task_switchsub_def split: option.split
      dest!: first_level_SomeD)
qed

lemma task_switchsub_same [simp]:
  "task_levels (task_switchsub s) = task_levels s" "task_metas (task_switchsub s) = task_metas s"
  "taskTop (task_switchsub s) = taskTop s" "ctx_tasks (task_switchsub s) = ctx_tasks s"
  "current_task_id (task_switchsub s) = current_task_id s"
  by (auto simp: task_switchsub_def split: option.split)

lemma task_run_wf:
  assumes wf: "sched_wf s" and t: "0 \<le> t" "t < taskTop s"
  shows "\<exists>s'. task_run s t lvl prio = Some s' \<and> sched_wf s' \<and> taskTop s' = taskTop s \<and>
    ctx_tasks s' = ctx_tasks s \<and> current_task_id s' = current_task_id s \<and>
    task_metas s' = (task_metas s)(t := \<lparr>flags = 2,
      level = (if lvl < 0 then level (task_metas s t) else min lvl 3), priority = max prio 1\<rparr>)"
proof -
  define L where "L = (if lvl < 0 then level (task_metas s t) else min lvl 3)"
  define P where "P = max prio 1"
  define s1 where "s1 = (if flags (task_metas s t) = 2 \<and> level (task_metas s t) \<noteq> L
    then task_remove s t else s)"
  define s2 where "s2 = upd_meta s1 t (\<lambda>m. m\<lparr>level := L, priority := P\<rparr>)"
  have L: "0 \<le> L" "L < 4" using sched_wfD(6,7) [OF wf t] by (auto simp: L_def)
  have s1: "sched_wf s1" "taskTop s1 = taskTop s" "ctx_tasks s1 = ctx_tasks s"
    "current_task_id s1 = current_task_id s"
    "\<exists>f. task_metas s1 = (task_metas s)(t := (task_metas s t)\<lparr>flags := f\<rparr>) \<and>
       (f = 2 \<longrightarrow> flags (task_metas s t) = 2 \<and> level (task_metas s t) = L)"
    using task_remove_wf [OF wf t] wf
    by (auto simp: s1_def intro: exI [of _ "1::int"] exI [of _ "flags (task_metas s t)"])
  then obtain f where f: "task_metas s1 = (task_metas s)(t := (task_metas s t)\<lparr>flags := f\<rparr>)"
    "f = 2 \<longrightarrow> flags (task_metas s t) = 2 \<and> level (task_metas s t) = L" by blast
  have s2: "sched_wf s2" unfolding s2_def
    by (rule upd_meta_wf) (use s1 t L f in auto)
  have m2: "task_metas s2 = (task_metas s)(t := \<lparr>flags = f, level = L, priority = P\<rparr>)"
    by (simp add: s2_def f fun_eq_iff)
  have "\<exists>s3. (if flags (task_metas s2 t) \<noteq> 2 then task_add s2 t else Some s2) = Some s3 \<and>
     sched_wf s3 \<and> taskTop s3 = taskTop s \<and> ctx_tasks s3 = ctx_tasks s \<and>
     current_task_id s3 = current_task_id s \<and>
     task_metas s3 = (task_metas s)(t := \<lparr>flags = 2, level = L, priority = P\<rparr>)"
  proof (cases "f = 2")
    case True
    then show ?thesis using s2 m2 s1 by (simp add: s2_def)
  next
    case False
    then have nr: "flags (task_metas s2 t) \<noteq> 2" by (simp add: m2)
    have top: "taskTop s2 = taskTop s" "ctx_tasks s2 = ctx_tasks s"
      "current_task_id s2 = current_task_id s" using s1 by (simp_all add: s2_def)
    show ?thesis
      using task_add_wf [OF s2 t(1) _ nr] t nr unfolding top by (auto simp: m2)
  qed
  then obtain s3 where s3: "(if flags (task_metas s2 t) \<noteq> 2 then task_add s2 t else Some s2) = Some s3"
     "sched_wf s3" "taskTop s3 = taskTop s" "ctx_tasks s3 = ctx_tasks s"
     "current_task_id s3 = current_task_id s"
     "task_metas s3 = (task_metas s)(t := \<lparr>flags = 2, level = L, priority = P\<rparr>)" by blast
  have cL: "(if (if lvl < 0 then level (task_metas s t) else lvl) \<ge> 4 then 4 - 1
      else if lvl < 0 then level (task_metas s t) else lvl) = L"
    using sched_wfD(6,7) [OF wf t] by (auto simp: L_def)
  have cP: "(if prio \<le> 0 then 1 else prio) = P" by (auto simp: P_def)
  have ct: "(t < 0 \<or> t \<ge> taskTop s) = False" using t by auto
  have "task_run s t lvl prio = Some (task_switchsub s3)"
    by (simp only: task_run_def Let_def ct if_False cL cP s1_def [symmetric] s2_def [symmetric]
        s3(1) option.map)
  then show ?thesis using s3 task_switchsub_wf [OF s3(2)] by (simp add: L_def P_def)
qed

lemma sched_wf_current: "sched_wf s \<Longrightarrow> -1 \<le> current_task_id s \<and> current_task_id s < taskTop s"
  by (simp add: sched_wf_def)

lemma sched_wf_ctx [simp]: "sched_wf (s\<lparr>ctx_tasks := c\<rparr>) = sched_wf s"
  by (simp add: sched_wf_def runq_def)

lemma task_create_wf:
  assumes wf: "sched_wf s" and room: "taskTop s < 16"
  shows "\<exists>s'. task_create st s f lvl prio = Some (taskTop s, s') \<and> sched_wf s' \<and>
    taskTop s' = taskTop s + 1 \<and> ctx_tasks s' = (ctx_tasks s)(taskTop s := fresh_ctx f (st (taskTop s))) \<and>
    task_metas s' = (task_metas s)(taskTop s := \<lparr>flags = 2,
      level = (if lvl < 0 then 0 else min lvl 3), priority = max prio 1\<rparr>)"
proof -
  let ?i = "taskTop s"
  define s1 where "s1 = upd_meta (s\<lparr>taskTop := ?i + 1,
      ctx_tasks := (ctx_tasks s)(?i := fresh_ctx f (st ?i))\<rparr>) ?i
    (\<lambda>m. m\<lparr>flags := TASK_SLEEPING, level := 0, priority := 1\<rparr>)"
  have "flags (task_metas s ?i) \<noteq> 2" using sched_wfD(12) [OF wf] by simp
  then have r: "runnable_at s1 k = runnable_at s k" for k by (auto simp: s1_def)
  have q: "runq s1 k = runq s k" for k by (simp add: s1_def runq_def)
  have "sched_wf s1"
    using wf room unfolding sched_wf_def by (simp only: r q) (auto simp: s1_def)
  moreover have "0 \<le> ?i" using sched_wfD(1) [OF wf] .
  ultimately obtain s' where s': "task_run s1 ?i lvl prio = Some s'" "sched_wf s'"
    "taskTop s' = ?i + 1" "ctx_tasks s' = ctx_tasks s1"
    "task_metas s' = (task_metas s1)(?i := \<lparr>flags = 2,
      level = (if lvl < 0 then level (task_metas s1 ?i) else min lvl 3), priority = max prio 1\<rparr>)"
    using task_run_wf [of s1 ?i lvl prio] by (auto simp: s1_def)
  have "task_create st s f lvl prio = Some (?i, s')"
    using room by (simp add: task_create_def Let_def s'(1) flip: s1_def)
  then show ?thesis using s' by (simp add: s1_def fun_upd_upd)
qed

lemma task_reset_wf:
  assumes wf: "sched_wf s"
  shows "\<exists>s'. task_reset st s t f lvl prio = Some s' \<and> sched_wf s' \<and> taskTop s' = taskTop s"
proof (cases "0 \<le> t \<and> t < taskTop s")
  case True
  define s1 where "s1 = (if flags (task_metas s t) = 2 then task_remove s t else s)"
  define s2 where "s2 = upd_meta (s1\<lparr>ctx_tasks := (ctx_tasks s1)(t := fresh_ctx f (st t))\<rparr>) t
    (\<lambda>m. m\<lparr>flags := TASK_SLEEPING, level := 0, priority := 1\<rparr>)"
  have s1: "sched_wf s1" "taskTop s1 = taskTop s" "flags (task_metas s1 t) \<noteq> 2"
    using task_remove_wf [OF wf, of t] True wf by (auto simp: s1_def)
  have "sched_wf s2" unfolding s2_def by (rule upd_meta_wf) (use s1 True in auto)
  then obtain s' where "task_run s2 t lvl prio = Some s'" "sched_wf s'" "taskTop s' = taskTop s"
    using task_run_wf [of s2 t] True s1 by (auto simp: s2_def)
  moreover have "task_reset st s t f lvl prio = task_run s2 t lvl prio"
    using True by (simp add: task_reset_def Let_def flip: s1_def s2_def)
  ultimately show ?thesis by simp
qed (use wf in \<open>auto simp: task_reset_def\<close>)

lemma task_os_wf: "sched_wf s \<Longrightarrow> sched_wf (task_os s)"
  using sched_wf_current [of s] sched_wfD(1,8-11) [of s]
  by (auto intro!: sched_wf_cong [of s] simp: task_os_def)

lemma task_go_wf: "sched_wf s \<Longrightarrow> sched_wf (task_go s i)"
  using sched_wf_current [of s] sched_wfD(1,8-11) [of s] task_remove_wf [of s i]
  by (auto intro!: sched_wf_cong [of s] simp: task_go_def)

lemma task_sleep_wf: "sched_wf s \<Longrightarrow> sched_wf (task_sleep s t)"
  using task_remove_wf [of s t]
  by (auto simp: task_sleep_def Let_def intro!: task_switchsub_wf task_os_wf)

lemma task_wake_wf: "sched_wf s \<Longrightarrow> \<exists>s'. task_wake s t = Some s' \<and> sched_wf s'"
  using task_add_wf [of s t] by (fastforce simp: task_wake_def intro: task_switchsub_wf)

lemma next_levels_range: "0 \<le> c \<Longrightarrow> \<forall>l\<in>set (next_levels c). 0 \<le> l \<and> l < 4"
  by (simp add: next_levels_def signed_modulo_int_def)

text \<open>The outcomes of \<open>choose_level\<close>, one per branch of the code.\<close>

lemma choose_level_split:
  assumes c: "0 \<le> current_level s" "current_level s < 4"
  obtains (quota) "running (task_levels s (current_level s)) > 0" "current_level_quota s > 0"
      "choose_level s = (current_level s, s\<lparr>current_level_quota := current_level_quota s - 1\<rparr>)"
    | (cyclic) l where "\<not> (running (task_levels s (current_level s)) > 0 \<and> current_level_quota s > 0)"
      "first_level s (next_levels (current_level s)) = Some l"
      "choose_level s = (l, s\<lparr>current_level := l, current_level_quota := (if l = 0 then 2 else 0)\<rparr>)"
    | (scan) l where "first_level s (next_levels (current_level s)) = None"
      "first_level s [0, 1, 2, 3] = Some l"
      "choose_level s = (l, s\<lparr>current_level := l, current_level_quota := (if l = 0 then 2 else 0)\<rparr>)"
    | (none) "first_level s [0, 1, 2, 3] = None" "choose_level s = (-1, s)"
proof (cases "running (task_levels s (current_level s)) > 0 \<and> current_level_quota s > 0")
  case True
  then show ?thesis using quota c by (simp add: choose_level_def)
next
  case False
  note nq = this
  show ?thesis
  proof (cases "first_level s (next_levels (current_level s))")
    case None
    show ?thesis
    proof (cases "first_level s [0, 1, 2, 3]")
      case e: None
      show ?thesis by (rule none [OF e]) (use None e nq in \<open>auto simp: choose_level_def Let_def\<close>)
    next
      case e: (Some l)
      show ?thesis by (rule scan [OF None e]) (use None e nq in \<open>auto simp: choose_level_def Let_def\<close>)
    qed
  next
    case e: (Some l)
    show ?thesis by (rule cyclic [OF nq e]) (use e nq in \<open>auto simp: choose_level_def Let_def\<close>)
  qed
qed

lemma choose_level_cases:
  assumes wf: "sched_wf s" and e: "choose_level s = (l, s')"
  shows "sched_wf s' \<and> task_levels s' = task_levels s \<and> task_metas s' = task_metas s \<and>
    taskTop s' = taskTop s \<and> ctx_tasks s' = ctx_tasks s \<and> current_task_id s' = current_task_id s \<and>
    (l = -1 \<and> (\<forall>k\<in>{0..3}. running (task_levels s k) \<le> 0) \<or>
     0 \<le> l \<and> l < 4 \<and> running (task_levels s l) > 0 \<and> current_level s' = l)"
proof -
  note c = sched_wfD(8-11) [OF wf]
  note tid = sched_wf_current [OF wf]
  show ?thesis
  proof (cases rule: choose_level_split [OF c(1,2), case_names quota cyclic scan none])
    case quota
    then show ?thesis using c tid e by (auto intro!: sched_wf_cong [OF wf] split: if_splits)
  next
    case (cyclic k)
    have "0 \<le> k \<and> k < 4 \<and> running (task_levels s k) > 0"
      using first_level_SomeD [OF cyclic(2)] next_levels_range [OF c(1)] by blast
    then show ?thesis using cyclic(3) tid e by (auto intro!: sched_wf_cong [OF wf])
  next
    case (scan k)
    have "0 \<le> k \<and> k < 4 \<and> running (task_levels s k) > 0"
      using first_level_SomeD [OF scan(2)] by auto
    then show ?thesis using scan(3) tid e by (auto intro!: sched_wf_cong [OF wf])
  next
    case none
    have "{0..3} = {0,1,2,3::int}" by auto
    then have "\<forall>k\<in>{0..3}. running (task_levels s k) \<le> 0"
      using none(1) first_level_None [of s "[0,1,2,3]"] by simp
    then show ?thesis using none(2) e wf by auto
  qed
qed

definition advance :: "sched \<Rightarrow> int \<Rightarrow> sched" where
  "advance s l = upd_level s l (\<lambda>q. q\<lparr>now := (if now q + 1 \<ge> running q then 0 else now q + 1)\<rparr>)"

lemma advance_simps [simp]:
  "task_metas (advance s l) = task_metas s" "taskTop (advance s l) = taskTop s"
  "ctx_tasks (advance s l) = ctx_tasks s" "current_level (advance s l) = current_level s"
  "current_level_quota (advance s l) = current_level_quota s"
  "current_task_id (advance s l) = current_task_id s"
  "running (task_levels (advance s l) k) = running (task_levels s k)"
  "tasks (task_levels (advance s l) k) = tasks (task_levels s k)"
  by (simp_all add: advance_def)

lemma runq_upd_now: "(\<And>q. tasks (f q) = tasks q \<and> running (f q) = running q) \<Longrightarrow>
    runq (upd_level s l f) k = runq s k"
  by (simp add: runq_def)

lemma advance_wf:
  assumes wf: "sched_wf s" and l: "0 \<le> l" "l < 4" "running (task_levels s l) > 0"
  shows "sched_wf (advance s l)"
proof -
  have q: "runq (advance s l) k = runq s k" for k
    by (simp add: advance_def runq_def)
  have r: "runnable_at (advance s l) k = runnable_at s k" for k by (simp add: advance_def)
  have "level_ok (task_levels (advance s l) k)" if "k \<in> {0..3}" for k
    using sched_wfD(3) [OF wf, of k] that l by (auto simp: advance_def level_ok_def)
  then show ?thesis
    using wf unfolding sched_wf_def by (simp only: q r) (auto simp: advance_def)
qed

lemma cursor_task:
  assumes wf: "sched_wf s" and l: "0 \<le> l" "l < 4" "running (task_levels s l) > 0"
  defines "t \<equiv> tasks (task_levels s l) (now (task_levels s l))"
  shows "t \<in> runnable_at s l"
proof -
  have ok: "0 \<le> now (task_levels s l) \<and> now (task_levels s l) < running (task_levels s l)"
    using sched_wfD(3) [OF wf l(1,2)] l(3) by (auto simp: level_ok_def)
  then have "t \<in> set (runq s l)" by (auto simp: t_def runq_def)
  then show ?thesis using sched_wfD(5) [OF wf l(1,2)] by simp
qed

lemma task_next_eq:
  assumes wf: "sched_wf s" and e: "choose_level s = (l, s1)" and l: "0 \<le> l"
  defines "t \<equiv> tasks (task_levels s l) (now (task_levels s l))"
  shows "task_next s = (if ra (ctx_tasks s t) = 0 \<or> sp (ctx_tasks s t) = 0
    then (-1, task_remove (advance s1 l) t) else (t, advance s1 l))"
proof -
  note ch = choose_level_cases [OF wf e]
  have l': "l < 4" "running (task_levels s l) > 0" using ch l by auto
  have ok: "0 \<le> now (task_levels s l)" "now (task_levels s l) < running (task_levels s l)"
    using sched_wfD(3) [OF wf l l'(1)] l'(2) by (auto simp: level_ok_def)
  have t: "0 \<le> t" "t < taskTop s" "flags (task_metas s t) = 2"
    using cursor_task [OF wf l l'] by (simp_all add: t_def)
  have "upd_level s1 l (\<lambda>q. q\<lparr>now := (if now (task_levels s l) + 1 \<ge> running (task_levels s l) then 0
      else now (task_levels s l) + 1)\<rparr>) = advance s1 l"
    using ch by (simp add: advance_def upd_level_def)
  then show ?thesis
    using e l l' ok t ch by (auto simp: task_next_def Let_def simp flip: t_def)
qed

lemma task_next_idle:
  assumes "choose_level s = (l, s1)" "l < 0"
  shows "task_next s = (-1, s1)"
  using assms by (simp add: task_next_def)

lemma task_next_wf: "sched_wf s \<Longrightarrow> sched_wf (snd (task_next s))"
proof -
  assume wf: "sched_wf s"
  obtain l s1 where e: "choose_level s = (l, s1)" by fastforce
  note ch = choose_level_cases [OF wf e]
  show ?thesis
  proof (cases "0 \<le> l")
    case True
    then have l: "l < 4" "running (task_levels s1 l) > 0" using ch by auto
    have "sched_wf (advance s1 l)" using advance_wf True l ch by blast
    moreover have "tasks (task_levels s l) (now (task_levels s l)) \<in> runnable_at s l"
      using cursor_task [OF wf True l(1)] ch True by auto
    ultimately show ?thesis
      using task_remove_wf [of "advance s1 l"] ch
      by (simp add: task_next_eq [OF wf e True] advance_def)
  next
    case False
    then show ?thesis using task_next_idle [OF e] ch by simp
  qed
qed

section \<open>The kernel loop\<close>

text \<open>
  One iteration of the loop of \<open>os_main\<close> with a task that runs and gives the processor back
  with \<open>task_os\<close>.
\<close>

definition os_round :: "sched \<Rightarrow> int \<times> sched" where
  "os_round s =
     (let (t, s) = task_next s in if t < 0 then (t, s) else (t, task_os (task_go s t)))"

definition ctx_ok :: "sched \<Rightarrow> bool" where
  "ctx_ok s \<longleftrightarrow> (\<forall>t. 0 \<le> t \<and> t < taskTop s \<longrightarrow> ra (ctx_tasks s t) \<noteq> 0 \<and> sp (ctx_tasks s t) \<noteq> 0)"

lemma os_round_eq:
  assumes wf: "sched_wf s" and ok: "ctx_ok s" and e: "choose_level s = (l, s1)" and l: "0 \<le> l"
  defines "t \<equiv> tasks (task_levels s l) (now (task_levels s l))"
  shows "\<exists>s'. os_round s = (t, s') \<and> sched_wf s' \<and> ctx_ok s' \<and>
    task_levels s' = task_levels (advance s1 l) \<and> task_metas s' = task_metas s \<and>
    taskTop s' = taskTop s \<and> ctx_tasks s' = ctx_tasks s \<and> current_level s' = current_level s1 \<and>
    current_level_quota s' = current_level_quota s1"
proof -
  note ch = choose_level_cases [OF wf e]
  have l': "l < 4" "running (task_levels s l) > 0" using ch l by auto
  have t: "0 \<le> t" "t < taskTop s" "flags (task_metas s t) = 2"
    using cursor_task [OF wf l l'] by (simp_all add: t_def)
  have c: "ra (ctx_tasks s t) \<noteq> 0" "sp (ctx_tasks s t) \<noteq> 0" using ok t by (auto simp: ctx_ok_def)
  define s' where "s' = task_os (task_go (advance s1 l) t)"
  have n: "task_next s = (t, advance s1 l)" using task_next_eq [OF wf e l] c by (simp add: t_def)
  have "sched_wf s'"
    using task_next_wf [OF wf] n by (simp add: s'_def task_os_wf task_go_wf)
  moreover have "s' = (advance s1 l)\<lparr>current_task_id := -1, ctx_now := Os,
       switches := switches (advance s1 l) @ [(Os, Task t), (Task t, Os)]\<rparr>"
    using t c ch by (simp add: s'_def task_os_def task_go_def)
  ultimately show ?thesis
    using n t ok ch by (simp add: os_round_def ctx_ok_def flip: s'_def)
qed

text \<open>How long a level has to wait until it is chosen: a measure of the remaining lap.\<close>

definition lap :: "int \<Rightarrow> int" where "lap k = (if k = 0 then 3 else 1)"

definition level_wait :: "int \<Rightarrow> int \<Rightarrow> int \<Rightarrow> int" where
  "level_wait c q l = (if c = l \<and> q > 0 then 0
     else q + sum_list (map lap (takeWhile (\<lambda>k. k \<noteq> l) (next_levels c))))"

lemma int_level_cases: "0 \<le> (l::int) \<Longrightarrow> l < 4 \<Longrightarrow> l = 0 \<or> l = 1 \<or> l = 2 \<or> l = 3"
  by arith

lemma next_levels_simps [simp]:
  "next_levels 0 = [1, 2, 3, 0]" "next_levels 1 = [2, 3, 0, 1]"
  "next_levels 2 = [3, 0, 1, 2]" "next_levels 3 = [0, 1, 2, 3]"
  by (simp_all add: next_levels_def signed_modulo_int_def)

lemma level_wait_bounds:
  assumes "0 \<le> c" "c < 4" "0 \<le> l" "l < 4" "0 \<le> q" "q \<le> (if c = 0 then 3 else 1)"
  shows "0 \<le> level_wait c q l \<and> level_wait c q l \<le> 5"
  using int_level_cases [OF assms(1,2)] int_level_cases [OF assms(3,4)] assms(5,6)
  by (auto simp: level_wait_def lap_def)

lemma level_wait_cyclic:
  assumes "0 \<le> c" "c < 4" "0 \<le> l" "l < 4" "0 \<le> q" "P l" "\<not> (P c \<and> q > 0)"
    "find P (next_levels c) = Some n" "n \<noteq> l"
  shows "level_wait n (if n = 0 then 2 else 0) l < level_wait c q l"
  using int_level_cases [OF assms(1,2)] int_level_cases [OF assms(3,4)] assms(5-)
  by (elim disjE) (auto simp: level_wait_def lap_def split: if_splits)

lemma choose_level_wait:
  assumes wf: "sched_wf s" and e: "choose_level s = (n, s1)"
    and l: "0 \<le> l" "l < 4" "running (task_levels s l) > 0" and n: "n \<noteq> l"
  shows "level_wait (current_level s1) (current_level_quota s1) l <
    level_wait (current_level s) (current_level_quota s) l"
proof -
  note c = sched_wfD(8-11) [OF wf]
  show ?thesis
  proof (cases rule: choose_level_split [OF c(1,2), case_names quota cyclic scan none])
    case quota
    then show ?thesis using e n by (auto simp: level_wait_def)
  next
    case (cyclic k)
    have "level_wait k (if k = 0 then 2 else 0) l < level_wait (current_level s) (current_level_quota s) l"
      by (rule level_wait_cyclic [where P = "\<lambda>l. running (task_levels s l) > 0"])
        (use c l e n cyclic in \<open>auto simp: first_level_def\<close>)
    then show ?thesis using cyclic(3) e by auto
  next
    case (scan k)
    have "l \<in> set (next_levels (current_level s))"
      using int_level_cases [OF c(1,2)] int_level_cases [OF l(1,2)] by auto
    then show ?thesis using scan(1) l(3) by (auto simp: first_level_None)
  next
    case none
    then show ?thesis using l int_level_cases [OF l(1,2)] by (auto simp: first_level_None)
  qed
qed

text \<open>The state after \<open>n\<close> rounds, and the distance of a task from the cursor of its level.\<close>

definition after_rounds :: "nat \<Rightarrow> sched \<Rightarrow> sched" where
  "after_rounds n s = ((\<lambda>s. snd (os_round s)) ^^ n) s"

lemma after_rounds_0 [simp]: "after_rounds 0 s = s"
  by (simp add: after_rounds_def)

lemma after_rounds_Suc: "after_rounds (Suc n) s = after_rounds n (snd (os_round s))"
  by (simp add: after_rounds_def funpow_swap1 del: funpow.simps(2)) (simp only: funpow_Suc_right o_apply)

definition turn_in :: "sched \<Rightarrow> int \<Rightarrow> int \<Rightarrow> int" where
  "turn_in s l i = 6 * ((i - now (task_levels s l)) mod running (task_levels s l)) +
     level_wait (current_level s) (current_level_quota s) l"

lemma cursor_distance:
  fixes i w r :: int
  assumes "0 \<le> i" "i < r" "0 \<le> w" "w < r" "i \<noteq> w"
  shows "(i - (if w + 1 \<ge> r then 0 else w + 1)) mod r = (i - w) mod r - 1"
proof -
  have e: "(i - (if w + 1 \<ge> r then 0 else w + 1)) mod r = (i - w - 1) mod r"
  proof (cases "w + 1 \<ge> r")
    case True
    then have "w = r - 1" using assms by simp
    then have "i - w - 1 = i - r" by simp
    moreover have "(i - r) mod r = i mod r" by simp
    ultimately show ?thesis using True by (simp only: if_True) simp
  qed (simp add: algebra_simps)
  have "(i - w) mod r \<noteq> 0"
  proof (cases "w < i")
    case True
    then have "(i - w) mod r = i - w" using assms by (intro mod_pos_pos_trivial) auto
    then show ?thesis using True by simp
  next
    case False
    then have "(i - w + r) mod r = i - w + r" using assms by (intro mod_pos_pos_trivial) auto
    then show ?thesis using assms by simp
  qed
  moreover have "(i - w) mod r < r" "0 \<le> (i - w) mod r" using assms by simp_all
  ultimately have "((i - w) mod r - 1) mod r = (i - w) mod r - 1" by (intro mod_pos_pos_trivial) auto
  then show ?thesis using e by (simp add: mod_diff_left_eq)
qed

lemma round_gets_closer:
  assumes wf: "sched_wf s" and ok: "ctx_ok s"
    and l: "0 \<le> l" "l < 4" and i: "0 \<le> i" "i < running (task_levels s l)"
    and t: "tasks (task_levels s l) i = t" and miss: "fst (os_round s) \<noteq> t"
  defines "s' \<equiv> snd (os_round s)"
  shows "sched_wf s' \<and> ctx_ok s' \<and> i < running (task_levels s' l) \<and>
    tasks (task_levels s' l) i = t \<and> 0 \<le> turn_in s' l i \<and> turn_in s' l i < turn_in s l i"
proof -
  obtain n s1 where e: "choose_level s = (n, s1)" by fastforce
  note ch = choose_level_cases [OF wf e]
  have run: "running (task_levels s l) > 0" using i by simp
  have n: "0 \<le> n" "n < 4" "running (task_levels s n) > 0" using ch run l by force+
  from os_round_eq [OF wf ok e n(1)] obtain
    r: "os_round s = (tasks (task_levels s n) (now (task_levels s n)), s')"
      "sched_wf s'" "ctx_ok s'" "task_levels s' = task_levels (advance s1 n)"
      "current_level s' = current_level s1" "current_level_quota s' = current_level_quota s1"
    by (auto simp: s'_def)
  have ok_l: "0 \<le> now (task_levels s l)" "now (task_levels s l) < running (task_levels s l)"
    using sched_wfD(3) [OF wf l] run by (auto simp: level_ok_def)
  note c' = sched_wfD(8-11) [OF r(2)]
  have wb': "0 \<le> level_wait (current_level s') (current_level_quota s') l"
    "level_wait (current_level s') (current_level_quota s') l \<le> 5"
    using level_wait_bounds [OF c'(1,2) l c'(3,4)] by auto
  have wb: "0 \<le> level_wait (current_level s) (current_level_quota s) l"
    using level_wait_bounds [OF sched_wfD(8,9) [OF wf] l sched_wfD(10,11) [OF wf]] by auto
  have same: "running (task_levels s' l) = running (task_levels s l)"
    "tasks (task_levels s' l) = tasks (task_levels s l)"
    using r(4) ch by simp_all
  have "turn_in s' l i < turn_in s l i"
  proof (cases "n = l")
    case True
    have "i \<noteq> now (task_levels s l)" using miss r(1) t True by auto
    from cursor_distance [OF i ok_l this]
    have "(i - now (task_levels s' l)) mod running (task_levels s' l) =
      (i - now (task_levels s l)) mod running (task_levels s l) - 1"
      using True r(4) ch by (auto simp: advance_def split: if_splits)
    then show ?thesis using wb' wb by (simp add: turn_in_def)
  next
    case False
    have "now (task_levels s' l) = now (task_levels s l)"
      using False r(4) ch by (simp add: advance_def)
    then show ?thesis using choose_level_wait [OF wf e l run False] r(5,6) same
      by (simp add: turn_in_def)
  qed
  moreover have "0 \<le> turn_in s' l i" using wb' run same by (simp add: turn_in_def)
  ultimately show ?thesis using r same i t by simp
qed

lemma runs_within:
  assumes "sched_wf s" "ctx_ok s" "0 \<le> l" "l < 4" "0 \<le> i" "i < running (task_levels s l)"
    "tasks (task_levels s l) i = t" "turn_in s l i \<le> int k"
  shows "\<exists>n\<le>k. fst (os_round (after_rounds n s)) = t"
  using assms
proof (induction k arbitrary: s)
  case 0
  then show ?case using round_gets_closer [of s l i t] by force
next
  case (Suc k)
  show ?case
  proof (cases "fst (os_round s) = t")
    case True
    then have "fst (os_round (after_rounds 0 s)) = t" by simp
    then show ?thesis by blast
  next
    case False
    note g = round_gets_closer [OF Suc.prems(1-7) False]
    have "\<exists>n\<le>k. fst (os_round (after_rounds n (snd (os_round s)))) = t"
      using g Suc.prems(3-5,8) by (intro Suc.IH) auto
    then show ?thesis by (metis Suc_le_mono after_rounds_Suc)
  qed
qed

section \<open>Reachable states\<close>

text \<open>
  Everything the rest of the kernel can do with the scheduler. \<open>regs\<close> is the effect of the
  assembly of \<open>sys_switch\<close> on the saved registers: any values.
\<close>

inductive sched_reach :: "(int \<Rightarrow> u32) \<Rightarrow> sched \<Rightarrow> bool" for st where
  init: "sched_reach st (task_init s)"
| create: "sched_reach st s \<Longrightarrow> task_create st s f lvl prio = Some (i, s') \<Longrightarrow> sched_reach st s'"
| reset: "sched_reach st s \<Longrightarrow> task_reset st s t f lvl prio = Some s' \<Longrightarrow> sched_reach st s'"
| run: "sched_reach st s \<Longrightarrow> task_run s t lvl prio = Some s' \<Longrightarrow> sched_reach st s'"
| sleep: "sched_reach st s \<Longrightarrow> sched_reach st (task_sleep s t)"
| sleep_current: "sched_reach st s \<Longrightarrow> sched_reach st (task_sleep_current s)"
| wake: "sched_reach st s \<Longrightarrow> task_wake s t = Some s' \<Longrightarrow> sched_reach st s'"
| next_task: "sched_reach st s \<Longrightarrow> task_next s = (t, s') \<Longrightarrow> sched_reach st s'"
| go: "sched_reach st s \<Longrightarrow> sched_reach st (task_go s t)"
| os: "sched_reach st s \<Longrightarrow> sched_reach st (task_os s)"
| regs: "sched_reach st s \<Longrightarrow> sched_reach st (s\<lparr>ctx_tasks := c\<rparr>)"

lemma task_init_wf: "sched_wf (task_init s)"
  by (simp add: task_init_def sched_wf_def runq_def level_ok_def zero_level_def zero_meta_def)

lemma task_run_out: "\<not> (0 \<le> t \<and> t < taskTop s) \<Longrightarrow> task_run s t lvl prio = Some s"
  by (auto simp: task_run_def)

lemma task_run_some: "sched_wf s \<Longrightarrow> \<exists>s'. task_run s t lvl prio = Some s' \<and> sched_wf s'"
  using task_run_wf [of s t lvl prio] task_run_out [of t s lvl prio] by blast

lemma reach_wf: "sched_reach st s \<Longrightarrow> sched_wf s"
proof (induction rule: sched_reach.induct)
  case (init s)
  show ?case by (rule task_init_wf)
next
  case (create s f lvl prio i s')
  then have "taskTop s < 16" by (auto simp: task_create_def split: if_splits)
  then show ?case using task_create_wf [of s st f lvl prio] create by auto
next
  case (reset s t f lvl prio s')
  then show ?case using task_reset_wf [of s st t f lvl prio] by auto
next
  case (run s t lvl prio s')
  then show ?case using task_run_some [of s t lvl prio] by auto
next
  case (sleep_current s)
  then show ?case by (simp add: task_sleep_current_def task_sleep_wf)
next
  case (wake s t s')
  then show ?case using task_wake_wf [of s t] by auto
next
  case (next_task s t s')
  then show ?case using task_next_wf [of s] by auto
qed (simp_all add: task_sleep_wf task_go_wf task_os_wf)

definition demo_sched :: sched where
  "demo_sched = task_init \<lparr>ctx_os = zero_ctx, ctx_tasks = (\<lambda>_. zero_ctx), ctx_now = Os,
     task_levels = (\<lambda>_. zero_level), task_metas = (\<lambda>_. zero_meta), current_task_id = 0,
     current_level = 0, current_level_quota = 0, taskTop = 0, switches = []\<rparr>"

lemma demo_sched_wf: "sched_wf demo_sched"
  by (simp add: demo_sched_def task_init_wf)

text \<open>A concrete state: tasks 0 and 1 runnable on level 0, task 2 runnable on level 2.\<close>

definition three_tasks :: sched where
  "three_tasks = \<lparr>ctx_os = zero_ctx, ctx_tasks = (\<lambda>_. \<lparr>ra = 1, sp = 16, sregs = (\<lambda>_. 0)\<rparr>),
     ctx_now = Os,
     task_levels = (\<lambda>l. if l = 0 then \<lparr>tasks = (\<lambda>i. i), running = 2, now = 1\<rparr>
       else if l = 2 then \<lparr>tasks = (\<lambda>i. 2), running = 1, now = 0\<rparr> else zero_level),
     task_metas = (\<lambda>t. if t = 0 \<or> t = 1 then \<lparr>flags = 2, level = 0, priority = 1\<rparr>
       else if t = 2 then \<lparr>flags = 2, level = 2, priority = 1\<rparr> else zero_meta),
     current_task_id = -1, current_level = 0, current_level_quota = 3, taskTop = 3, switches = []\<rparr>"

lemma three_tasks_wf: "sched_wf three_tasks"
proof -
  have l: "{0..3} = {0,1,2,3::int}" by auto
  show ?thesis
    by (simp add: sched_wf_def l three_tasks_def runq_def level_ok_def zero_level_def zero_meta_def)
      auto
qed

lemma three_tasks_ctx: "ctx_ok three_tasks"
  by (simp add: ctx_ok_def three_tasks_def)

text \<open>C10: 
  In every state the kernel can reach through the scheduler's entry points, each level's
  queue holds exactly the runnable tasks of that level, without repetition, its cursor and
  lengths are in range, the current task exists; and no entry point hits the panic of a full
  run queue, only \<open>task_create\<close> with all 16 slots taken panics.
\<close>

theorem scheduler_invariant:
  assumes "sched_reach st s"
  shows "sched_wf s \<and>
    (\<forall>t lvl prio. task_run s t lvl prio \<noteq> None) \<and> (\<forall>t. task_wake s t \<noteq> None) \<and>
    (\<forall>t f lvl prio. task_reset st s t f lvl prio \<noteq> None) \<and>
    (\<forall>f lvl prio. task_create st s f lvl prio = None \<longleftrightarrow> taskTop s = MAX_TASKS)"
proof -
  have wf: "sched_wf s" using reach_wf [OF assms] .
  have "task_create st s f lvl prio = None \<longleftrightarrow> taskTop s = 16" for f lvl prio
  proof (cases "taskTop s < 16")
    case True
    then show ?thesis using task_create_wf [OF wf True, of st f lvl prio] by auto
  next
    case False
    then show ?thesis using sched_wfD(2) [OF wf] by (simp add: task_create_def)
  qed
  moreover have "task_run s t lvl prio \<noteq> None" for t lvl prio
    using task_run_some [OF wf, of t lvl prio] by auto
  moreover have "task_wake s t \<noteq> None" for t using task_wake_wf [OF wf, of t] by auto
  moreover have "task_reset st s t f lvl prio \<noteq> None" for t f lvl prio
    using task_reset_wf [OF wf, of st t f lvl prio] by auto
  ultimately show ?thesis using wf by auto
qed

theorem scheduler_invariant_witness: "sched_wf demo_sched \<and>
    (\<forall>t lvl prio. task_run demo_sched t lvl prio \<noteq> None)"
  using scheduler_invariant [OF sched_reach.init [of "\<lambda>_. 0x81000000"]]
  unfolding demo_sched_def by blast

text \<open>
  With valid saved contexts, \<open>task_next\<close> returns -1 exactly if no task is runnable;
  otherwise it returns a runnable task, of the level that is then current, the one under
  that level's cursor, and the queues are unchanged.
\<close>

theorem task_next_correct:
  assumes "sched_wf s" "ctx_ok s"
  shows "case task_next s of (t, s') \<Rightarrow>
    (t = -1 \<longleftrightarrow> (\<forall>k. flags (task_metas s k) \<noteq> TASK_RUNNING \<or> k < 0)) \<and>
    (t \<noteq> -1 \<longrightarrow> t \<in> runnable_at s (current_level s') \<and>
       t = runq s (current_level s') ! nat (now (task_levels s (current_level s')))) \<and>
    (\<forall>k. runq s' k = runq s k) \<and> task_metas s' = task_metas s"
proof -
  note wf = sched_wfD [OF assms(1)]
  obtain l s1 where e: "choose_level s = (l, s1)" by fastforce
  note ch = choose_level_cases [OF assms(1) e]
  show ?thesis
  proof (cases "0 \<le> l")
    case True
    define t where "t = tasks (task_levels s l) (now (task_levels s l))"
    have l: "l < 4" "running (task_levels s l) > 0" "current_level s1 = l" using ch True by auto
    have t: "t \<in> runnable_at s l" using cursor_task [OF assms(1) True l(1,2)] by (simp add: t_def)
    have ok: "0 \<le> now (task_levels s l)" "now (task_levels s l) < running (task_levels s l)"
      using wf(3) [OF True l(1)] l(2) by (auto simp: level_ok_def)
    have "task_next s = (t, advance s1 l)"
      using task_next_eq [OF assms(1) e True] t assms(2) by (auto simp: ctx_ok_def t_def)
    moreover have "t = runq s l ! nat (now (task_levels s l))"
      using ok by (simp add: t_def runq_def nth_upto)
    ultimately show ?thesis using t l ch by (auto simp: runq_def)
  next
    case False
    then have idle: "\<forall>k\<in>{0..3}. running (task_levels s k) \<le> 0" using ch by auto
    have "flags (task_metas s k) \<noteq> 2 \<or> k < 0" for k
    proof (cases "0 \<le> k \<and> k < taskTop s")
      case True
      define l' where "l' = level (task_metas s k)"
      have l': "0 \<le> l'" "l' < 4" using wf(6,7) True by (auto simp: l'_def)
      then have "running (task_levels s l') \<le> 0" using idle by auto
      then have "runq s l' = []" by (simp add: runq_def)
      then show ?thesis using wf(5) [OF l'] True by (auto simp: l'_def)
    next
      case False
      then show ?thesis using wf(12) [of k] by auto
    qed
    then show ?thesis using task_next_idle [OF e] False ch by (auto simp: runq_def)
  qed
qed

theorem task_next_correct_witness: "case task_next three_tasks of (t, s') \<Rightarrow>
    (t \<noteq> -1 \<longrightarrow> t \<in> runnable_at three_tasks (current_level s'))"
  using task_next_correct [OF three_tasks_wf three_tasks_ctx] by auto



text \<open>
  Sleep takes exactly the given runnable task out of the queue of its level and keeps the
  order of the others; waking it puts it at the end of the same queue. The switch back to the
  kernel happens exactly if the task put itself to sleep.
\<close>

theorem sleep_wake_queues:
  assumes "sched_wf s" "0 \<le> t" "flags (task_metas s t) = TASK_RUNNING"
  defines "l \<equiv> level (task_metas s t)"
  shows "(\<forall>k. runq (task_sleep s t) k = (if k = l then remove1 t (runq s k) else runq s k)) \<and>
    current_task_id (task_sleep s t) =
      (if t = current_task_id s then -1 else current_task_id s) \<and>
    (\<exists>s'. task_wake (task_sleep s t) t = Some s' \<and> task_metas s' = task_metas s \<and>
      (\<forall>k. runq s' k = (if k = l then remove1 t (runq s k) @ [t] else runq s k)))"
proof -
  have t: "t < taskTop s" using sched_wfD(12) [OF assms(1), of t] assms(3) by force
  note rm = task_remove_wf [OF assms(1,2) t assms(3)]
  define s1 where "s1 = task_sleep s t"
  have wf1: "sched_wf s1" unfolding s1_def by (rule task_sleep_wf [OF assms(1)])
  have s1: "task_levels s1 = task_levels (task_remove s t)"
    "task_metas s1 = (task_metas s)(t := (task_metas s t)\<lparr>flags := TASK_SLEEPING\<rparr>)"
    "taskTop s1 = taskTop s"
    "current_task_id s1 = (if t = current_task_id s then -1 else current_task_id s)"
    using rm assms(2,3) t
    by (auto simp: s1_def task_sleep_def Let_def task_os_def)
  have q1: "runq s1 k = (if k = l then remove1 t (runq s k) else runq s k)" for k
    using rm s1(1) by (simp add: runq_def l_def)
  have nr: "flags (task_metas s1 t) \<noteq> 2" using s1(2) by simp
  have "t < taskTop s1" using t s1(3) by simp
  from task_add_wf [OF wf1 assms(2) this nr] obtain s2 where s2: "task_add s1 t = Some s2"
    "task_metas s2 = (task_metas s1)(t := (task_metas s1 t)\<lparr>flags := 2\<rparr>)"
    "\<forall>k. runq s2 k = (if k = level (task_metas s1 t) then runq s1 k @ [t] else runq s1 k)" by blast
  have "task_wake s1 t = Some (task_switchsub s2)"
    using s2(1) nr assms(2) t s1(3) by (simp add: task_wake_def)
  moreover have "task_metas (task_switchsub s2) = task_metas s"
    using s2(2) s1(2) assms(3) by (simp add: fun_eq_iff)
  moreover have "runq (task_switchsub s2) k = (if k = l then remove1 t (runq s k) @ [t] else runq s k)" for k
    using s2(3) q1 s1(2) by (simp add: runq_def l_def)
  ultimately show ?thesis using q1 s1(4) by (simp add: s1_def)
qed

theorem sleep_wake_queues_witness: "runq (task_sleep three_tasks 0) 0 = [1]"
proof -
  have "runq three_tasks 0 = [0, 1]" by (simp add: runq_def three_tasks_def upto.simps)
  then show ?thesis
    using sleep_wake_queues [OF three_tasks_wf, of 0] by (simp add: three_tasks_def)
qed

end
