(* ===== verification/CString.thy ===== *)
theory CString
  imports Prelude
begin

text \<open>
  The C library of the kernel: \<open>vibeos/string.c\<close> (memory blocks) and the string functions of
  \<open>vibeos/user_utils.c\<close>. A pointer into a string is an index into it, a \<open>NULL\<close> result is
  \<open>None\<close>. The destinations are as large as what is written to them; functions that write to a
  buffer of a fixed capacity get it as an argument where they are used.
\<close>

section \<open>Memory blocks (string.c)\<close>

fun memset_loop :: "mem8 \<Rightarrow> nat \<Rightarrow> u8 \<Rightarrow> nat \<Rightarrow> nat \<Rightarrow> mem8" where
  "memset_loop m d c i 0 = m"
| "memset_loop m d c i (Suc n) = memset_loop (m(d + i := c)) d c (i + 1) n"

definition memset :: "mem8 \<Rightarrow> nat \<Rightarrow> u8 \<Rightarrow> nat \<Rightarrow> mem8" where
  "memset m d c n = memset_loop m d c 0 n"

text \<open>The two loops of \<open>memmove\<close>: from the end down, and from the start up.\<close>

fun move_backward :: "mem8 \<Rightarrow> nat \<Rightarrow> nat \<Rightarrow> nat \<Rightarrow> mem8" where
  "move_backward m d s 0 = m"
| "move_backward m d s (Suc n) = move_backward (m(d + n := m (s + n))) d s n"

fun move_forward :: "mem8 \<Rightarrow> nat \<Rightarrow> nat \<Rightarrow> nat \<Rightarrow> mem8" where
  "move_forward m d s 0 = m"
| "move_forward m d s (Suc n) = move_forward (m(d := m s)) (d + 1) (s + 1) n"

definition memmove :: "mem8 \<Rightarrow> nat \<Rightarrow> nat \<Rightarrow> nat \<Rightarrow> mem8" where
  "memmove m d s n = (if s < d \<and> s + n > d then move_backward m d s n else move_forward m d s n)"

definition memcpy :: "mem8 \<Rightarrow> nat \<Rightarrow> nat \<Rightarrow> nat \<Rightarrow> mem8" where
  "memcpy m d s n = memmove m d s n"

lemma memset_loop_eq: "memset_loop m d c i n = (\<lambda>j. if d + i \<le> j \<and> j < d + i + n then c else m j)"
  by (induction n arbitrary: m i) (auto simp: fun_eq_iff)

lemma memset_eq [simp]: "memset m d c n = mem_fill m d n c"
  by (simp add: memset_def memset_loop_eq mem_fill_def)

lemma move_backward_eq:
  "s \<le> d \<Longrightarrow> move_backward m d s n = (\<lambda>j. if d \<le> j \<and> j < d + n then m (s + (j - d)) else m j)"
proof (induction n arbitrary: m)
  case (Suc n)
  then show ?case by (auto simp: fun_eq_iff less_Suc_eq)
qed (auto simp: fun_eq_iff)

lemma move_forward_eq:
  "d \<le> s \<or> s + n \<le> d \<Longrightarrow>
   move_forward m d s n = (\<lambda>j. if d \<le> j \<and> j < d + n then m (s + (j - d)) else m j)"
proof (induction n arbitrary: m d s)
  case (Suc n)
  have "move_forward (m(d := m s)) (d + 1) (s + 1) n =
    (\<lambda>j. if d + 1 \<le> j \<and> j < d + 1 + n then (m(d := m s)) (s + 1 + (j - (d + 1))) else (m(d := m s)) j)"
    by (rule Suc.IH) (use Suc.prems in auto)
  then show ?case using Suc.prems
    apply (simp only: move_forward.simps)
    apply (rule ext)
    subgoal for j by (cases "j = d") (auto intro!: arg_cong [where f = m])
    done
qed (auto simp: fun_eq_iff)

lemma memmove_eq: "memmove m d s n = mem_copy m d (bytes_at m s n)"
proof (cases "s < d \<and> s + n > d")
  case True
  then show ?thesis
    by (auto simp: memmove_def move_backward_eq mem_copy_def fun_eq_iff)
next
  case False
  then have "d \<le> s \<or> s + n \<le> d" by auto
  then show ?thesis using False
    by (auto simp: memmove_def move_forward_eq mem_copy_def fun_eq_iff)
qed

text \<open>
  \<open>memmove\<close> (and \<open>memcpy\<close>, which calls it) copies as if through a temporary buffer, also
  when source and destination overlap: the destination holds the bytes the source had before,
  and every other byte is unchanged.
\<close>

theorem memmove_overlap_safe:
  "bytes_at (memcpy m d s n) d n = bytes_at m s n \<and>
   (\<forall>j. \<not> (d \<le> j \<and> j < d + n) \<longrightarrow> memcpy m d s n j = m j) \<and>
   memmove m d s n = memcpy m d s n"
  unfolding memcpy_def by (auto simp: memmove_eq intro: nth_equalityI)

theorem memmove_overlap_safe_witness:
  "bytes_at (memcpy (\<lambda>i. of_nat i) 2 0 4) 2 4 = [0, 1, 2, 3]"
  using memmove_overlap_safe [of "\<lambda>i. of_nat i" 2 0 4] by (simp add: bytes_at_def upt_rec)

text \<open>The last occurrence of a character, the terminating NUL included.\<close>

fun strrchr_from :: "string \<Rightarrow> char \<Rightarrow> nat \<Rightarrow> nat option \<Rightarrow> nat option" where
  "strrchr_from [] c i lst = (if c = NUL then Some i else lst)"
| "strrchr_from (x # s) c i lst = strrchr_from s c (i + 1) (if x = c then Some i else lst)"

definition strrchr :: "string \<Rightarrow> char \<Rightarrow> nat option" where
  "strrchr s c = strrchr_from s c 0 None"

section \<open>Strings (user_utils.c)\<close>

definition lib_strcpy :: "string \<Rightarrow> string" where "lib_strcpy src = src"
definition lib_strcat :: "string \<Rightarrow> string \<Rightarrow> string" where "lib_strcat dst src = dst @ src"

definition printable :: "char \<Rightarrow> bool" where
  "printable c \<longleftrightarrow> 32 \<le> (of_char c :: nat) \<and> (of_char c :: nat) \<le> 126"

definition lib_strncat :: "string \<Rightarrow> string \<Rightarrow> nat \<Rightarrow> string" where
  "lib_strncat dst src n = dst @ takeWhile printable (take n src)"

fun digits_rev :: "nat \<Rightarrow> string" where
  "digits_rev n = (if n = 0 then [] else char_of (n mod 10 + 48) # digits_rev (n div 10))"

declare digits_rev.simps [simp del]

definition lib_itoa :: "u32 \<Rightarrow> string" where
  "lib_itoa n = (if n = 0 then ''0'' else rev (digits_rev (unat n)))"

fun strcmp :: "string \<Rightarrow> string \<Rightarrow> int" where
  "strcmp (c # s) (d # t) = (if c = d then strcmp s t else of_char c - of_char d)"
| "strcmp [] [] = 0"
| "strcmp (c # s) [] = of_char c"
| "strcmp [] (d # t) = - of_char d"

definition strlen :: "string \<Rightarrow> nat" where "strlen s = length s"

fun strchr :: "string \<Rightarrow> char \<Rightarrow> nat option" where
  "strchr [] c = (if c = NUL then Some 0 else None)"
| "strchr (x # s) c = (if x = c then Some 0 else map_option Suc (strchr s c))"

fun memchr :: "u8 list \<Rightarrow> u8 \<Rightarrow> nat option" where
  "memchr [] c = None"
| "memchr (x # s) c = (if x = c then Some 0 else map_option Suc (memchr s c))"

fun memcmp :: "u8 list \<Rightarrow> u8 list \<Rightarrow> nat \<Rightarrow> int" where
  "memcmp (a # as) (b # bs) (Suc n) = (if a \<noteq> b then uint a - uint b else memcmp as bs n)"
| "memcmp as bs n = 0"

definition strncpy :: "string \<Rightarrow> nat \<Rightarrow> char list" where
  "strncpy src n = take n src @ replicate (n - length src) NUL"

fun strncmp :: "string \<Rightarrow> string \<Rightarrow> nat \<Rightarrow> int" where
  "strncmp s t 0 = 0"
| "strncmp s t (Suc n) =
     (let c = char_at s 0; d = char_at t 0 in
      if c \<noteq> d \<or> c = NUL then of_char c - of_char d else strncmp (drop 1 s) (drop 1 t) n)"

definition is_digit :: "char \<Rightarrow> bool" where
  "is_digit c \<longleftrightarrow> 48 \<le> (of_char c :: nat) \<and> (of_char c :: nat) \<le> 57"

definition is_blank :: "char \<Rightarrow> bool" where
  "is_blank c \<longleftrightarrow> c = CHR '' '' \<or> c = CHR 0x09"

fun atoi_digits :: "string \<Rightarrow> u32 \<Rightarrow> u32" where
  "atoi_digits [] v = v"
| "atoi_digits (c # s) v = (if is_digit c then atoi_digits s (v * 10 + (of_char c - 48)) else v)"

text \<open>The value is an \<open>int\<close> of 32 bits that wraps around.\<close>

definition atoi :: "string \<Rightarrow> u32" where
  "atoi s = (let s = dropWhile is_blank s in
     if s \<noteq> [] \<and> hd s = CHR ''-'' then - atoi_digits (drop 1 s) 0
     else if s \<noteq> [] \<and> hd s = CHR ''+'' then atoi_digits (drop 1 s) 0
     else atoi_digits s 0)"

fun str_match :: "string \<Rightarrow> string \<Rightarrow> bool" where
  "str_match h [] = True"
| "str_match [] (n # ns) = False"
| "str_match (h # hs) (n # ns) = (h = n \<and> str_match hs ns)"

fun strstr :: "string \<Rightarrow> string \<Rightarrow> nat option" where
  "strstr [] needle = (if needle = [] then Some 0 else None)"
| "strstr (h # hs) needle =
     (if needle = [] then Some 0 else if str_match (h # hs) needle then Some 0
      else map_option Suc (strstr hs needle))"

definition tolower :: "int \<Rightarrow> int" where
  "tolower c = (if c \<ge> 65 \<and> c \<le> 90 then c + (97 - 65) else c)"

fun strncasecmp :: "string \<Rightarrow> string \<Rightarrow> nat \<Rightarrow> int" where
  "strncasecmp s t 0 = 0"
| "strncasecmp s t (Suc n) =
     (let c = tolower (of_char (char_at s 0)); d = tolower (of_char (char_at t 0)) in
      if c \<noteq> d \<or> c = 0 then c - d else strncasecmp (drop 1 s) (drop 1 t) n)"

definition abs_int :: "int \<Rightarrow> int" where "abs_int n = (if n < 0 then - n else n)"

section \<open>What the string functions compute\<close>

lemma of_char_nonzero [simp]: "(of_char c = (0::int)) = (c = NUL)"
proof -
  have "(of_char NUL :: int) = 0" by (simp add: of_char_def)
  then show ?thesis by (metis of_char_eq_iff)
qed

lemma strcmp_0 [simp]: "cstr s \<Longrightarrow> cstr t \<Longrightarrow> strcmp s t = 0 \<longleftrightarrow> s = t"
  by (induction s t rule: strcmp.induct) auto

lemma str_match_prefix: "str_match h n \<longleftrightarrow> take (length n) h = n"
  by (induction h n rule: str_match.induct) auto

lemma strchr_Some: "c \<noteq> NUL \<Longrightarrow> strchr s c = Some i \<longleftrightarrow> i < length s \<and> s ! i = c \<and> c \<notin> set (take i s)"
proof (induction s arbitrary: i)
  case (Cons x s)
  then show ?case by (cases i) auto
qed simp

lemma strchr_None: "c \<noteq> NUL \<Longrightarrow> strchr s c = None \<longleftrightarrow> c \<notin> set s"
  by (induction s) auto

lemma strncmp_0:
  "cstr s \<Longrightarrow> cstr t \<Longrightarrow> strncmp s t n = 0 \<longleftrightarrow> take n s = take n t"
proof (induction s t n rule: strncmp.induct)
  case (2 s t n)
  then show ?case
    by (cases s; cases t) (auto simp: Let_def cstr_def)
qed simp

lemma strncmp_prefix: "cstr s \<Longrightarrow> cstr t \<Longrightarrow> n = length t \<Longrightarrow> strncmp s t n = 0 \<longleftrightarrow> take n s = t"
  by (simp add: strncmp_0)

lemma strstr_None: "strstr h n = None \<longleftrightarrow> (\<forall>i \<le> length h. take (length n) (drop i h) \<noteq> n)"
proof (induction h)
  case Nil
  then show ?case by auto
next
  case (Cons x h)
  have "(\<forall>i \<le> length (x # h). take (length n) (drop i (x # h)) \<noteq> n) \<longleftrightarrow>
    take (length n) (x # h) \<noteq> n \<and> (\<forall>i \<le> length h. take (length n) (drop i h) \<noteq> n)"
    by (auto simp: All_less_Suc2 simp flip: less_Suc_eq_le)
  moreover have "n = [] \<Longrightarrow> take (length n) (x # h) = n" by simp
  ultimately show ?case using Cons by (simp add: str_match_prefix del: take_Cons_numeral)
qed

lemma strstr_Some: "strstr h n = Some i \<Longrightarrow>
    i \<le> length h \<and> take (length n) (drop i h) = n \<and> (\<forall>j < i. take (length n) (drop j h) \<noteq> n)"
proof (induction h arbitrary: i)
  case Nil
  then show ?case by (auto split: if_splits)
next
  case (Cons x h)
  show ?case
  proof (cases "n = [] \<or> str_match (x # h) n")
    case True
    then show ?thesis using Cons.prems by (auto simp: str_match_prefix split: if_splits)
  next
    case False
    then obtain k where k: "strstr h n = Some k" "i = Suc k" using Cons.prems by auto
    have "take (length n) (drop j (x # h)) \<noteq> n" if "j < i" for j
      using that k(2) Cons.IH [OF k(1)] False by (cases j) (auto simp: str_match_prefix)
    then show ?thesis using Cons.IH [OF k(1)] k(2) by auto
  qed
qed

text \<open>\<open>strstr\<close> finds the first occurrence: it returns \<open>NULL\<close> exactly if the needle occurs
  nowhere in the haystack, and otherwise the smallest position at which it does.
\<close>

theorem strstr_first_occurrence:
  "case strstr h n of
     None \<Rightarrow> \<forall>i. take (length n) (drop i h) \<noteq> n
   | Some i \<Rightarrow> take (length n) (drop i h) = n \<and> (\<forall>j < i. take (length n) (drop j h) \<noteq> n)"
proof (cases "strstr h n")
  case None
  have "take (length n) (drop i h) \<noteq> n" for i
  proof (cases "i \<le> length h")
    case False
    moreover have "n \<noteq> []" using None strstr_None [of h n] by auto
    ultimately show ?thesis by auto
  qed (use None strstr_None [of h n] in auto)
  then show ?thesis using None by simp
next
  case (Some i)
  then show ?thesis using strstr_Some [OF Some] by simp
qed

theorem strstr_first_occurrence_witness: "strstr ''m=ismap&m=x'' ''m=x'' = Some 8"
  using strstr_first_occurrence [of "''m=ismap&m=x''" "''m=x''"] by simp

lemma digit_char:
  assumes "d < 10"
  shows "is_digit (char_of (d + 48 :: nat))" "of_char (char_of (d + 48 :: nat)) = (of_nat d + 48 :: u32)"
    "(of_char (char_of (d + 48 :: nat)) :: nat) = d + 48"
proof -
  show n: "(of_char (char_of (d + 48 :: nat)) :: nat) = d + 48" using assms by simp
  then show "is_digit (char_of (d + 48 :: nat))" using assms by (simp add: is_digit_def)
  have "(of_char (char_of (d + 48 :: nat)) :: u32) = of_nat (of_char (char_of (d + 48 :: nat)) :: nat)"
    by (simp only: of_nat_of_char)
  then show "of_char (char_of (d + 48 :: nat)) = (of_nat d + 48 :: u32)" by (simp only: n) simp
qed

lemma atoi_digits_append:
  "\<forall>c \<in> set s. is_digit c \<Longrightarrow> atoi_digits (s @ t) v = atoi_digits t (atoi_digits s v)"
  by (induction s arbitrary: v) auto

lemma digits_rev_digits: "c \<in> set (digits_rev n) \<Longrightarrow> is_digit c"
proof (induction n rule: digits_rev.induct)
  case (1 n)
  then show ?case by (subst (asm) (2) digits_rev.simps) (auto simp: digit_char(1) split: if_splits)
qed

lemma atoi_digits_rev: "atoi_digits (rev (digits_rev n)) 0 = of_nat n"
proof (induction n rule: digits_rev.induct)
  case (1 n)
  show ?case
  proof (cases "n = 0")
    case True
    then show ?thesis by (subst digits_rev.simps) simp
  next
    case False
    have "atoi_digits (rev (digits_rev n)) 0 = of_nat (n div 10) * 10 + of_nat (n mod 10)"
      using 1 False digit_char [of "n mod 10"] digits_rev_digits
      by (subst digits_rev.simps) (simp add: atoi_digits_append)
    also have "\<dots> = of_nat (n div 10 * 10 + n mod 10)"
      by (simp only: of_nat_add of_nat_mult of_nat_numeral)
    also have "\<dots> = of_nat n" by (simp only: div_mult_mod_eq)
    finally show ?thesis .
  qed
qed

lemma lib_itoa_digits: "lib_itoa n \<noteq> [] \<and> (\<forall>c \<in> set (lib_itoa n). is_digit c)"
proof (cases "n = 0")
  case True
  then show ?thesis by (simp add: lib_itoa_def is_digit_def)
next
  case False
  then have "digits_rev (unat n) \<noteq> []" by (subst digits_rev.simps) (simp add: unat_eq_0)
  then show ?thesis using False digits_rev_digits by (auto simp: lib_itoa_def)
qed

lemma digit_not: "is_digit c \<Longrightarrow> \<not> is_blank c \<and> c \<noteq> CHR ''-'' \<and> c \<noteq> CHR ''+'' \<and> c \<noteq> NUL"
  by (auto simp: is_digit_def is_blank_def)

text \<open>
  Reading back a printed number: \<open>atoi\<close> undoes \<open>lib_itoa\<close> for every 32-bit value, also
  when what follows is not a digit, and with a minus sign gives the negated value.
\<close>

theorem atoi_itoa:
  assumes "rest = [] \<or> \<not> is_digit (hd rest)"
  shows "atoi (lib_itoa n @ rest) = n \<and> atoi (CHR ''-'' # lib_itoa n @ rest) = - n"
proof -
  have r: "atoi_digits rest v = v" for v using assms by (cases rest) auto
  have d: "\<forall>c \<in> set (lib_itoa n). is_digit c" "lib_itoa n \<noteq> []" using lib_itoa_digits by blast+
  then have h: "is_digit (hd (lib_itoa n))" by auto
  have v: "atoi_digits (lib_itoa n) 0 = n"
  proof (cases "n = 0")
    case False
    then show ?thesis by (simp add: lib_itoa_def atoi_digits_rev)
  qed (simp add: lib_itoa_def is_digit_def)
  have "dropWhile is_blank (lib_itoa n @ rest) = lib_itoa n @ rest"
    using d(2) digit_not [OF h] by (cases "lib_itoa n") auto
  then have "atoi (lib_itoa n @ rest) = n"
    using d digit_not [OF h] v r by (simp add: atoi_def Let_def atoi_digits_append)
  moreover have "atoi (CHR ''-'' # lib_itoa n @ rest) = - n"
    using d v r by (simp add: atoi_def Let_def atoi_digits_append is_blank_def)
  ultimately show ?thesis by simp
qed

theorem atoi_itoa_witness: "atoi (lib_itoa 8080 @ ''/x'') = 8080"
  using atoi_itoa [of "''/x''" 8080] by (simp add: is_digit_def)

end
