(* ===== verification/Lib.thy ===== *)
theory Lib
  imports CString
begin

text \<open>
  \<open>vibeos/lib.c\<close>: the UART input ring, the 64-bit division routines of the compiler runtime
  and the formatter behind \<open>snprintf\<close>. UART registers are parameters of the functions that
  read them: the sequence of values the device delivers.
\<close>

section \<open>The UART input ring\<close>

definition uart_input_push :: "ring \<Rightarrow> char \<Rightarrow> ring" where
  "uart_input_push r c =
     (let nxt = (ring_tail r + 1) mod 1024;
          r = (if nxt = ring_head r then r\<lparr>ring_head := (ring_head r + 1) mod 1024\<rparr> else r)
      in r\<lparr>ring_slots := (ring_slots r)(ring_tail r := c), ring_tail := nxt\<rparr>)"

definition uart_input_pop :: "ring \<Rightarrow> int \<times> ring" where
  "uart_input_pop r =
     (if ring_head r = ring_tail r then (-1, r)
      else (of_char (ring_slots r (ring_head r)), r\<lparr>ring_head := (ring_head r + 1) mod 1024\<rparr>))"

text \<open>
  \<open>lib_getc\<close> reads one character from the device: \<open>rx\<close> holds the characters that are ready;
  the receiver register is read again for the result, so the character is the one read last.
\<close>

definition lib_getc :: "string \<Rightarrow> int \<times> string" where
  "lib_getc rx = (case rx of [] \<Rightarrow> (-1, []) | c # rx' \<Rightarrow>
     (if c = CHR 0x0D then 10 else of_char c, rx'))"

fun lib_isr :: "string \<Rightarrow> ring \<Rightarrow> ring" where
  "lib_isr [] r = r"
| "lib_isr (c # rx) r = lib_isr rx (uart_input_push r (if c = CHR 0x0D then CHR 0x0A else c))"

text \<open>
  \<open>lib_gets\<close> polls until a line end (or a NUL, \<open>EOF\<close>) arrives. \<open>polls\<close> are the results of the
  successive calls of \<open>lib_getc\<close>; \<open>None\<close> means that the loop still waits.
\<close>

fun lib_gets :: "int list \<Rightarrow> string option" where
  "lib_gets [] = None"
| "lib_gets (ch # polls) =
     (if ch = 10 \<or> ch = 0 then Some []
      else if ch = -1 then lib_gets polls
      else map_option (\<lambda>s. char_of (nat ch) # s) (lib_gets polls))"

definition uart_pop_opt :: "ring \<Rightarrow> (char \<times> ring) option" where
  "uart_pop_opt r = (let (v, r') = uart_input_pop r in
     if v = -1 then None else Some (char_of (nat v), r'))"

lemma uart_push_ring: "uart_input_push r c = ring_push 1024 r c"
  by (cases r) (simp add: uart_input_push_def ring_push_def Let_def)

lemma of_char_int_nonneg: "0 \<le> (of_char c :: int)"
  by (metis of_nat_0_le_iff of_nat_of_char)

lemma char_of_nat_of_char: "char_of (nat (of_char c)) = c"
  by (metis char_of_char nat_int of_nat_of_char)

lemma uart_pop_ring: "uart_pop_opt r = ring_pop 1024 r"
  using of_char_int_nonneg [of "ring_slots r (ring_head r)"]
  by (auto simp: uart_pop_opt_def uart_input_pop_def ring_pop_def char_of_nat_of_char)

interpretation uart: drop_oldest_queue uart_input_push uart_pop_opt "ring_queue 1024" "ring_wf 1024" 1023
proof (unfold_locales, goal_cases)
  case (1 s x)
  then show ?case using ring_push_queue [of 1024 s x] by (simp add: uart_push_ring)
next
  case (2 s)
  then show ?case using ring_pop_queue [of 1024 s]
    by (auto simp: uart_pop_ring split: option.splits)
next
  case (3 s x s')
  then show ?case using ring_pop_queue [of 1024 s] by (simp add: uart_pop_ring)
next
  case (4 s)
  then show ?case using ring_queue_cap [of 1024 s] by simp
qed

definition cook :: "char \<Rightarrow> char" where
  "cook c = (if c = CHR 0x0D then CHR 0x0A else c)"

lemma lib_isr_pushes: "lib_isr rx r = foldl uart_input_push r (map cook rx)"
  by (induction rx arbitrary: r) (simp_all add: cook_def)

definition empty_ring :: ring where
  "empty_ring = \<lparr>ring_head = 0, ring_tail = 0, ring_slots = (\<lambda>_. NUL)\<rparr>"

text \<open>
  The interrupt handler and the reader are a queue: after interrupts have delivered the
  characters \<open>rx\<close> into a ring holding \<open>q\<close>, popping yields the last 1023 characters of \<open>q\<close>
  followed by \<open>rx\<close>, in order, with carriage returns turned into line feeds.
\<close>

theorem uart_queue_order:
  assumes "ring_wf 1024 r"
  shows "ring_wf 1024 (lib_isr rx r) \<and>
    uart.pops 1023 (lib_isr rx r) = newest 1023 (ring_queue 1024 r @ map cook rx)"
proof -
  have "uart.pops 1023 (lib_isr rx r) = ring_queue 1024 (lib_isr rx r)"
    using uart.push_all [OF assms] uart.queue_cap by (intro uart.pops_queue) (auto simp: lib_isr_pushes)
  then show ?thesis using uart.push_all [OF assms] by (simp add: lib_isr_pushes)
qed

theorem uart_queue_order_witness:
  "uart.pops 1023 (lib_isr [CHR ''l'', CHR ''s'', CHR 0x0D] empty_ring) = [CHR ''l'', CHR ''s'', CHR 0x0A]"
proof -
  have "ring_wf 1024 empty_ring" by (simp add: ring_wf_def empty_ring_def)
  from uart_queue_order [OF this, of "[CHR ''l'', CHR ''s'', CHR 0x0D]"]
  show ?thesis by (simp add: empty_ring_def ring_queue_def ring_len_def cook_def)
qed

section \<open>64-bit division\<close>

text \<open>One round of the schoolbook division, for the bits \<open>i - 1, \<dots>, 0\<close> of \<open>n\<close>.\<close>

fun umod_loop :: "u64 \<Rightarrow> u64 \<Rightarrow> nat \<Rightarrow> u64 \<Rightarrow> u64" where
  "umod_loop n d 0 r = r"
| "umod_loop n d (Suc i) r =
     (let r = push_bit 1 r OR (drop_bit i n AND 1) in umod_loop n d i (if r \<ge> d then r - d else r))"

definition umoddi3 :: "u64 \<Rightarrow> u64 \<Rightarrow> u64" where
  "umoddi3 n d = umod_loop n d 64 0"

fun udiv_loop :: "u64 \<Rightarrow> u64 \<Rightarrow> nat \<Rightarrow> u64 \<Rightarrow> u64 \<Rightarrow> u64" where
  "udiv_loop n d 0 q r = q"
| "udiv_loop n d (Suc i) q r =
     (let r = push_bit 1 r OR (drop_bit i n AND 1) in
      if r \<ge> d then udiv_loop n d i (q OR push_bit i 1) (r - d) else udiv_loop n d i q r)"

definition udivdi3 :: "u64 \<Rightarrow> u64 \<Rightarrow> u64" where
  "udivdi3 n d = (if d = 0 then -1 else udiv_loop n d 64 0 0)"

definition divdi3 :: "u64 \<Rightarrow> u64 \<Rightarrow> u64" where
  "divdi3 n d =
     (let (n, sgn1) = (if n <s 0 then (- n, -1) else (n, 1));
          (d, sgn2) = (if d <s 0 then (- d, - sgn1) else (d, sgn1))
      in sgn2 * udivdi3 n d)"

definition moddi3 :: "u64 \<Rightarrow> u64 \<Rightarrow> u64" where
  "moddi3 n d =
     (let (n, sgn1) = (if n <s 0 then (- n, -1) else (n, 1));
          d = (if d <s 0 then - d else d)
      in sgn1 * umoddi3 n d)"

lemma unat_power_u64: "i < 64 \<Longrightarrow> unat (2 ^ i :: u64) = 2 ^ i"
proof -
  assume "i < 64"
  then have "(2::nat) ^ i < 2 ^ 64" by (rule power_strict_increasing) simp
  moreover have "(2 ^ i :: u64) = of_nat (2 ^ i)" by simp
  ultimately show ?thesis by (simp only: unsigned_of_nat take_bit_nat_eq_self) (use \<open>i < 64\<close> in \<open>simp add: take_bit_nat_eq_self\<close>)
qed

lemma bit_step:
  fixes n r :: u64
  assumes "unat r < 2 ^ 63" and i: "i < 64"
  shows "unat (push_bit 1 r OR (drop_bit i n AND 1)) = 2 * unat r + unat n div 2 ^ i mod 2"
proof -
  have "push_bit 1 r OR (drop_bit i n AND 1) = push_bit 1 r + (drop_bit i n AND 1)"
    by (rule disjunctive_add [symmetric])
      (simp only: bit_push_bit_iff bit_and_iff bit_1_iff, simp)
  moreover have "unat (push_bit 1 r) = 2 * unat r"
    using assms by (simp add: push_bit_eq_mult unat_word_ariths mult.commute)
  moreover have "unat (drop_bit i n AND 1) = unat n div 2 ^ i mod 2"
    using i by (simp add: and_one_eq unat_mod_distrib drop_bit_eq_div unat_div_distrib unat_power_u64)
  ultimately show ?thesis using assms by (simp add: unat_word_ariths)
qed

lemma div_step:
  fixes N d r b :: nat
  assumes "0 < d" "r = M mod d" "N = 2 * M + b" "b < 2"
  shows "N mod d = (if 2 * r + b \<ge> d then 2 * r + b - d else 2 * r + b)"
    "N div d = 2 * (M div d) + (if 2 * r + b \<ge> d then 1 else 0)"
proof -
  have N: "N = 2 * r + b + 2 * (M div d) * d"
    using assms by (metis (no_types, opaque_lifting) add.assoc add.commute distrib_left
        mod_mult_div_eq mult.assoc mult.commute)
  have "r < d" using assms by simp
  then have lt: "2 * r + b < 2 * d" using assms(4) by simp
  have "(2 * r + b) mod d = (if 2 * r + b \<ge> d then 2 * r + b - d else 2 * r + b)"
    using lt by (auto simp: mod_if)
  then show "N mod d = (if 2 * r + b \<ge> d then 2 * r + b - d else 2 * r + b)"
    by (simp add: N)
  have "(2 * r + b) div d = (if 2 * r + b \<ge> d then 1 else 0)"
    using lt assms(1) by (auto simp: div_if)
  then show "N div d = 2 * (M div d) + (if 2 * r + b \<ge> d then 1 else 0)"
    using assms(1) by (simp add: N)
qed

lemma quotient_bit:
  fixes n r :: u64
  assumes "i < 64" and r: "unat r = unat n div 2 ^ Suc i mod unat d" and d: "d \<noteq> 0"
  defines "r' \<equiv> push_bit 1 r OR (drop_bit i n AND 1)"
  shows "unat (if r' \<ge> d then r' - d else r') = unat n div 2 ^ i mod unat d"
    "unat n div 2 ^ i div unat d = 2 * (unat n div 2 ^ Suc i div unat d) + (if r' \<ge> d then 1 else 0)"
proof -
  define M where "M = unat n div 2 ^ Suc i"
  define b where "b = unat n div 2 ^ i mod 2"
  have d0: "0 < unat d" using d by (simp add: unat_gt_0)
  have "unat n < 2 ^ 64" using unsigned_less [of n] by simp
  moreover have "M \<le> unat n div 2" unfolding M_def by (rule div_le_mono2) simp_all
  ultimately have "M < 2 ^ 63" by simp
  moreover have "unat r \<le> M" using r by (simp add: M_def)
  ultimately have "unat r < 2 ^ 63" by linarith
  then have r': "unat r' = 2 * unat r + b" unfolding r'_def b_def by (rule bit_step) fact
  have N: "unat n div 2 ^ i = 2 * M + b"
  proof -
    have "M = unat n div 2 ^ i div 2"
      unfolding M_def by (simp only: power_Suc2 div_mult2_eq)
    then show ?thesis by (simp add: b_def)
  qed
  note s = div_step [OF d0 r [folded M_def] N]
  have b2: "b < 2" by (simp add: b_def)
  have ge: "r' \<ge> d \<longleftrightarrow> 2 * unat r + b \<ge> unat d" by (simp add: word_le_nat_alt r')
  show "unat (if r' \<ge> d then r' - d else r') = unat n div 2 ^ i mod unat d"
    using s(1) [OF b2] ge r' by (simp add: unat_sub)
  show "unat n div 2 ^ i div unat d = 2 * (unat n div 2 ^ Suc i div unat d) + (if r' \<ge> d then 1 else 0)"
    using s(2) [OF b2] ge by (simp add: M_def)
qed

lemma umod_loop_eq:
  "d \<noteq> 0 \<Longrightarrow> i \<le> 64 \<Longrightarrow> unat r = unat n div 2 ^ i mod unat d \<Longrightarrow>
    unat (umod_loop n d i r) = unat n mod unat d"
proof (induction i arbitrary: r)
  case (Suc i)
  have "i < 64" using Suc.prems by simp
  from quotient_bit(1) [OF this Suc.prems(3,1)] show ?case
    unfolding umod_loop.simps Let_def using Suc.prems by (intro Suc.IH) simp_all
qed simp

lemma udiv_loop_eq:
  "d \<noteq> 0 \<Longrightarrow> i \<le> 64 \<Longrightarrow> unat r = unat n div 2 ^ i mod unat d \<Longrightarrow>
    unat q = (unat n div 2 ^ i div unat d) * 2 ^ i \<Longrightarrow>
    unat (udiv_loop n d i q r) = unat n div unat d"
proof (induction i arbitrary: q r)
  case (Suc i)
  let ?r = "push_bit 1 r OR (drop_bit i n AND 1)"
  have i: "i < 64" using Suc.prems by simp
  note b = quotient_bit [OF i Suc.prems(3,1)]
  define Q where "Q = unat n div 2 ^ Suc i div unat d"
  have q: "unat q = Q * 2 ^ Suc i" using Suc.prems(4) by (simp add: Q_def)
  have "q = of_nat (unat q)" by simp
  then have "q = of_nat (Q * 2 ^ Suc i)" by (simp only: q)
  then have q2: "q = push_bit (Suc i) (of_nat Q)" by (simp add: push_bit_eq_mult mult.commute)
  have "\<not> bit q k \<or> \<not> bit (push_bit i 1 :: u64) k" for k
    unfolding q2 bit_push_bit_iff bit_1_iff by auto
  then have q3: "q OR push_bit i 1 = q + push_bit i 1"
    by (intro disjunctive_add [symmetric])
  have p: "unat (push_bit i 1 :: u64) = 2 ^ i"
    using unat_power_u64 [OF i] by (simp add: push_bit_eq_mult)
  have or: "unat (q OR push_bit i 1) = (2 * Q + 1) * 2 ^ i" if "?r \<ge> d"
  proof -
    have "unat n div 2 ^ i div unat d = 2 * Q + 1" using b(2) that by (simp add: Q_def)
    then have "2 * Q + 1 \<le> unat n div 2 ^ i" by (metis div_le_dividend)
    then have "(2 * Q + 1) * 2 ^ i \<le> unat n div 2 ^ i * 2 ^ i" by (rule mult_le_mono1)
    also have "\<dots> \<le> unat n" by (rule div_times_less_eq_dividend)
    also have "\<dots> < 2 ^ 64" using unsigned_less [of n] by simp
    finally have lt: "(2 * Q + 1) * 2 ^ i < 2 ^ 64" .
    have s: "unat q + unat (push_bit i 1 :: u64) = (2 * Q + 1) * 2 ^ i"
      unfolding q p by (simp add: algebra_simps)
    have "unat (q OR push_bit i 1) = (2 * Q + 1) * 2 ^ i mod 2 ^ 64"
      unfolding q3 unat_word_ariths s by simp
    then show ?thesis using lt by (metis mod_less)
  qed
  show ?case
  proof (cases "?r \<ge> d")
    case True
    have "unat (udiv_loop n d i (q OR push_bit i 1) (?r - d)) = unat n div unat d"
      by (rule Suc.IH) (use True or b Suc.prems(1) i in \<open>simp_all add: Q_def\<close>)
    then show ?thesis using True by (simp only: udiv_loop.simps Let_def if_True)
  next
    case False
    have "unat (udiv_loop n d i q ?r) = unat n div unat d"
      by (rule Suc.IH) (use False b q Suc.prems(1) i in \<open>simp_all add: Q_def\<close>)
    then show ?thesis using False by (simp only: udiv_loop.simps Let_def if_False)
  qed
qed simp

lemma unat_eqI: "unat a = unat b \<Longrightarrow> a = (b :: u64)"
  by (metis of_nat_unat ucast_id)

lemma unat_u64_less: "unat (n :: u64) < 18446744073709551616"
  using unsigned_less [of n] by simp

lemma umoddi3_eq: "d \<noteq> 0 \<Longrightarrow> umoddi3 n d = n mod d"
proof (rule unat_eqI)
  assume d: "d \<noteq> 0"
  have "unat (umod_loop n d 64 0) = unat n mod unat d"
    by (rule umod_loop_eq) (use d unat_u64_less [of n] in simp_all)
  then show "unat (umoddi3 n d) = unat (n mod d)"
    by (simp add: umoddi3_def unat_mod_distrib)
qed

lemma udivdi3_eq: "d \<noteq> 0 \<Longrightarrow> udivdi3 n d = n div d"
proof (rule unat_eqI)
  assume d: "d \<noteq> 0"
  have "unat (udiv_loop n d 64 0 0) = unat n div unat d"
    by (rule udiv_loop_eq) (use d unat_u64_less [of n] in simp_all)
  then show "unat (udivdi3 n d) = unat (n div d)"
    using d by (simp add: udivdi3_def unat_div_distrib)
qed

lemma abs_word:
  fixes n :: u64
  shows "uint (if n <s 0 then - n else n) = \<bar>sint n\<bar>"
proof -
  have b: "- (2 ^ 63) \<le> sint n" "sint n < 2 ^ 63"
    using sint_ge [of n] sint_lt [of n] by simp_all
  have e: "(if n <s 0 then - n else n) = word_of_int \<bar>sint n\<bar>"
    by (cases "n <s 0") (simp_all add: word_sless_alt abs_if)
  show ?thesis unfolding e using b by (simp add: unsigned_of_int take_bit_int_eq_self)
qed

lemma of_int_uint_div: "word_of_int (uint a div uint b) = (a div b :: u64)"
  by (metis uint_div_distrib word_of_int_uint)

lemma of_int_uint_mod: "word_of_int (uint a mod uint b) = (a mod b :: u64)"
  by (metis uint_mod_distrib word_of_int_uint)

text \<open>C36: 
  The division routines of the compiler runtime are correct for every divisor that is not
  zero, also those above \<open>2 ^ 63\<close>: unsigned quotient and remainder, and signed ones rounding
  towards zero as C requires (the quotient wraps around for the minimal value over -1).
\<close>

theorem division_runtime_correct:
  assumes "d \<noteq> 0"
  shows "udivdi3 n d = n div d \<and> umoddi3 n d = n mod d \<and>
    divdi3 n d = word_of_int (sint n sdiv sint d) \<and> moddi3 n d = word_of_int (sint n smod sint d)"
proof -
  define n' where "n' = (if n <s 0 then - n else n)"
  define d' where "d' = (if d <s 0 then - d else d)"
  have a: "uint n' = \<bar>sint n\<bar>" "uint d' = \<bar>sint d\<bar>" by (simp_all only: n'_def d'_def abs_word)
  have d': "d' \<noteq> 0" using assms by (auto simp: d'_def)
  have sint0: "sint x = 0 \<Longrightarrow> x = 0" for x :: u64 by (metis of_int_0 of_int_sint scast_id)
  have sg: "sgn (sint n) = (if n <s 0 then -1 else if n = 0 then 0 else 1)"
    "sgn (sint d) = (if d <s 0 then -1 else 1)"
    using assms sint0 [of n] sint0 [of d] by (auto simp: word_sless_alt sgn_if)
  have "divdi3 n d = (if (n <s 0) = (d <s 0) then n' div d' else - (n' div d'))"
    using udivdi3_eq [OF d', of n']
    by (cases "n <s 0"; cases "d <s 0") (simp_all add: divdi3_def Let_def n'_def d'_def)
  also have "\<dots> = word_of_int (sgn (sint n) * sgn (sint d) * (uint n' div uint d'))"
    using of_int_uint_div [of n' d'] by (auto simp: sg n'_def)
  finally have q: "divdi3 n d = word_of_int (sint n sdiv sint d)"
    by (simp add: a signed_divide_int_def)
  have "moddi3 n d = (if n <s 0 then - (n' mod d') else n' mod d')"
    using umoddi3_eq [OF d', of n']
    by (cases "n <s 0"; cases "d <s 0") (simp_all add: moddi3_def Let_def n'_def d'_def)
  also have "\<dots> = word_of_int (sgn (sint n) * (uint n' mod uint d'))"
    using of_int_uint_mod [of n' d'] by (auto simp: sg n'_def)
  finally have "moddi3 n d = word_of_int (sint n smod sint d)"
    by (simp add: a signed_modulo_int_def)
  with q udivdi3_eq [OF assms] umoddi3_eq [OF assms] show ?thesis by simp
qed

theorem division_runtime_correct_witness: "udivdi3 0xFFFFFFFFFFFFFFFF 0x8000000000000001 = 1"
  using division_runtime_correct [of "0x8000000000000001" "0xFFFFFFFFFFFFFFFF"] by simp

section \<open>The formatter\<close>

text \<open>
  The output of a call is the text in the buffer (without the terminating NUL) and the length
  counted so far; a \<open>NULL\<close> buffer is only passed with \<open>n = 0\<close>. The arguments after the format
  are a list; \<open>long\<close> has 32 bits. Reading an argument of the wrong kind or one that is not
  there, and a lone \<open>%\<close> at the end of the format (the loop then runs past its NUL), are \<open>None\<close>.
\<close>

datatype va = VInt u32 | VLL u64 | VStr "string option"

type_synonym sink = "string \<times> nat"

definition put_char :: "nat \<Rightarrow> char \<Rightarrow> sink \<Rightarrow> sink" where
  "put_char n c st = (let (t, pos) = st in (if pos + 1 < n then t @ [c] else t, pos + 1))"

definition digit_char :: "bool \<Rightarrow> nat \<Rightarrow> char" where
  "digit_char upper d = (if d < 10 then char_of (48 + d)
     else char_of ((if upper then 65 else 97) + (d - 10)))"

text \<open>The digits in the order of the loop, the lowest first (the bases are 10 and 16).\<close>

fun radix_digits :: "nat \<Rightarrow> bool \<Rightarrow> nat \<Rightarrow> string" where
  "radix_digits base upper v =
     (if v = 0 \<or> base < 2 then []
      else digit_char upper (v mod base) # radix_digits base upper (v div base))"

declare radix_digits.simps [simp del]

definition print_unsigned :: "nat \<Rightarrow> u64 \<Rightarrow> nat \<Rightarrow> bool \<Rightarrow> sink \<Rightarrow> sink" where
  "print_unsigned n v base upper st =
     (let buf = (if v = 0 then ''0'' else radix_digits base upper (unat v))
      in fold (put_char n) (rev buf) st)"

definition print_signed :: "nat \<Rightarrow> u64 \<Rightarrow> sink \<Rightarrow> sink" where
  "print_signed n v st =
     (let (v, st) = (if v <s 0 then (- v, put_char n (CHR ''-'') st) else (v, st))
      in print_unsigned n v 10 False st)"

text \<open>The length modifier, and one conversion with its argument.\<close>

fun long_mod :: "string \<Rightarrow> nat \<times> string" where
  "long_mod (c # d # f) = (if c = CHR ''l'' then if d = CHR ''l'' then (2, f) else (1, d # f) else (0, c # d # f))"
| "long_mod [c] = (if c = CHR ''l'' then (1, []) else (0, [c]))"
| "long_mod [] = (0, [])"

definition arg_int :: "nat \<Rightarrow> bool \<Rightarrow> va list \<Rightarrow> (u64 \<times> va list) option" where
  "arg_int lng sgnd args = (case args of
     VLL v # args' \<Rightarrow> if lng = 2 then Some (v, args') else None
   | VInt v # args' \<Rightarrow> if lng = 2 then None
        else Some (if sgnd then scast v else ucast v, args')
   | _ \<Rightarrow> None)"

definition conversion :: "nat \<Rightarrow> nat \<Rightarrow> char \<Rightarrow> va list \<Rightarrow> sink \<Rightarrow> (va list \<times> sink) option" where
  "conversion n lng k args st =
     (if k = CHR ''d'' then map_option (\<lambda>(v, args). (args, print_signed n v st)) (arg_int lng True args)
      else if k = CHR ''u'' then map_option (\<lambda>(v, args). (args, print_unsigned n v 10 False st)) (arg_int lng False args)
      else if k = CHR ''x'' then map_option (\<lambda>(v, args). (args, print_unsigned n v 16 False st)) (arg_int lng False args)
      else if k = CHR ''X'' then map_option (\<lambda>(v, args). (args, print_unsigned n v 16 True st)) (arg_int lng False args)
      else if k = CHR ''c'' then (case args of
             VInt v # args' \<Rightarrow> Some (args', put_char n (b2c (ucast v)) st) | _ \<Rightarrow> None)
      else if k = CHR ''s'' then (case args of
             VStr s # args' \<Rightarrow> Some (args', fold (put_char n) (case s of None \<Rightarrow> ''(null)'' | Some t \<Rightarrow> t) st)
           | _ \<Rightarrow> None)
      else Some (args, put_char n k (put_char n (CHR ''%'') st)))"

lemma long_mod_length: "length (snd (long_mod f)) \<le> length f"
  by (cases f rule: long_mod.cases) auto

lemma long_mod_less: "(lng, k # f') = long_mod f \<Longrightarrow> length f' < Suc (length f)"
  using long_mod_length [of f] by (metis Suc_le_lessD Suc_n_not_le_n length_Cons less_Suc_eq_le
      nat_le_linear order_trans snd_conv)

function vsn :: "nat \<Rightarrow> string \<Rightarrow> va list \<Rightarrow> sink \<Rightarrow> sink option" where
  "vsn n [] args st = Some st"
| "vsn n (c # f) args st =
     (if c \<noteq> CHR ''%'' then vsn n f args (put_char n c st)
      else if f \<noteq> [] \<and> hd f = CHR ''%'' then vsn n (tl f) args (put_char n (CHR ''%'') st)
      else case long_mod f of
          (lng, []) \<Rightarrow> None
        | (lng, k # f') \<Rightarrow> (case conversion n lng k args st of
              None \<Rightarrow> None | Some (args', st') \<Rightarrow> vsn n f' args' st'))"
  by pat_completeness auto
termination
  by (relation "measure (\<lambda>(n, f, args, st). length f)") (auto dest: long_mod_less)

definition lib_vsnprintf :: "nat \<Rightarrow> string \<Rightarrow> va list \<Rightarrow> sink option" where
  "lib_vsnprintf n fmt args = vsn n fmt args ([], 0)"

definition snprintf :: "nat \<Rightarrow> string \<Rightarrow> va list \<Rightarrow> sink option" where
  "snprintf n fmt args = lib_vsnprintf n fmt args"

text \<open>
  \<open>lib_vprintf\<close>: a first pass counts, a text that does not fit the buffer of 1024 bytes hangs
  the kernel (\<open>None\<close>), the second pass formats. The result is the text sent to the UART.
\<close>

definition lib_vprintf :: "string \<Rightarrow> va list \<Rightarrow> sink option" where
  "lib_vprintf fmt args =
     (case lib_vsnprintf 0 fmt args of
        None \<Rightarrow> None
      | Some (_, len) \<Rightarrow> if len + 1 > 1024 then None else lib_vsnprintf (len + 1) fmt args)"

text \<open>What a sink of capacity \<open>n\<close> holds of the full text.\<close>

definition cut :: "nat \<Rightarrow> string \<Rightarrow> sink" where
  "cut n full = (take (n - 1) full, length full)"

lemma put_char_cut [simp]: "put_char n c (cut n full) = cut n (full @ [c])"
  by (auto simp: put_char_def cut_def)

lemma put_chars_cut [simp]: "fold (put_char n) xs (cut n full) = cut n (full @ xs)"
  by (induction xs arbitrary: full) simp_all

definition udigits :: "u64 \<Rightarrow> nat \<Rightarrow> bool \<Rightarrow> string" where
  "udigits v base upper = rev (if v = 0 then ''0'' else radix_digits base upper (unat v))"

lemma print_unsigned_cut [simp]:
  "print_unsigned n v base upper (cut n full) = cut n (full @ udigits v base upper)"
  by (simp add: print_unsigned_def udigits_def Let_def)

definition sdigits :: "u64 \<Rightarrow> string" where
  "sdigits v = (if v <s 0 then CHR ''-'' # udigits (- v) 10 False else udigits v 10 False)"

lemma print_signed_cut [simp]: "print_signed n v (cut n full) = cut n (full @ sdigits v)"
  by (simp add: print_signed_def sdigits_def)

lemma conversion_cut:
  "\<exists>r. \<forall>n full. conversion n lng k args (cut n full) = map_option (\<lambda>(a, e). (a, cut n (full @ e))) r"
proof -
  define r where "r =
     (if k = CHR ''d'' then map_option (\<lambda>(v, args). (args, sdigits v)) (arg_int lng True args)
      else if k = CHR ''u'' then map_option (\<lambda>(v, args). (args, udigits v 10 False)) (arg_int lng False args)
      else if k = CHR ''x'' then map_option (\<lambda>(v, args). (args, udigits v 16 False)) (arg_int lng False args)
      else if k = CHR ''X'' then map_option (\<lambda>(v, args). (args, udigits v 16 True)) (arg_int lng False args)
      else if k = CHR ''c'' then (case args of VInt v # args' \<Rightarrow> Some (args', [b2c (ucast v)]) | _ \<Rightarrow> None)
      else if k = CHR ''s'' then (case args of
             VStr s # args' \<Rightarrow> Some (args', case s of None \<Rightarrow> ''(null)'' | Some t \<Rightarrow> t) | _ \<Rightarrow> None)
      else Some (args, [CHR ''%'', k]))"
  have "conversion n lng k args (cut n full) = map_option (\<lambda>(a, e). (a, cut n (full @ e))) r" for n full
    unfolding conversion_def r_def
    by (auto simp: option.map_comp comp_def case_prod_unfold split: list.splits va.splits option.splits)
  then show ?thesis by blast
qed

lemma vsn_cut: "\<exists>r. \<forall>n full. vsn n f args (cut n full) = map_option (\<lambda>e. cut n (full @ e)) r"
proof (induction "length f" arbitrary: f args rule: less_induct)
  case less
  show ?case
  proof (cases f)
    case Nil
    then show ?thesis by (auto intro: exI [of _ "Some []"])
  next
    case (Cons c g)
    consider (plain) "c \<noteq> CHR ''%''" | (percent) "c = CHR ''%''" "g \<noteq> []" "hd g = CHR ''%''"
      | (lone) lng where "c = CHR ''%''" "\<not> (g \<noteq> [] \<and> hd g = CHR ''%'')" "long_mod g = (lng, [])"
      | (conv) lng k f' where "c = CHR ''%''" "\<not> (g \<noteq> [] \<and> hd g = CHR ''%'')" "long_mod g = (lng, k # f')"
      by (cases "long_mod g"; cases "snd (long_mod g)") auto
    then show ?thesis
    proof cases
      case plain
      obtain r where "\<forall>n full. vsn n g args (cut n full) = map_option (\<lambda>e. cut n (full @ e)) r"
        using less [of g args] Cons by auto
      then show ?thesis using plain Cons
        by (intro exI [of _ "map_option ((#) c) r"]) (simp add: option.map_comp comp_def)
    next
      case percent
      obtain r where "\<forall>n full. vsn n (tl g) args (cut n full) = map_option (\<lambda>e. cut n (full @ e)) r"
        using less [of "tl g" args] Cons percent(2) by (cases g) auto
      then show ?thesis using percent Cons
        by (intro exI [of _ "map_option ((#) (CHR ''%'')) r"]) (simp add: option.map_comp comp_def)
    next
      case lone
      then show ?thesis using Cons by (intro exI [of _ None]) auto
    next
      case conv
      obtain r where r: "\<forall>n full. conversion n lng k args (cut n full) =
          map_option (\<lambda>(a, e). (a, cut n (full @ e))) r" using conversion_cut by blast
      show ?thesis
      proof (cases r)
        case None
        then show ?thesis using conv Cons r by (intro exI [of _ None]) auto
      next
        case (Some p)
        obtain args' e where p: "p = (args', e)" by fastforce
        have "length f' < length f" using long_mod_length [of g] conv(3) Cons by simp
        from less [OF this, of args'] obtain r' where
          "\<forall>n full. vsn n f' args' (cut n full) = map_option (\<lambda>e. cut n (full @ e)) r'" by blast
        then show ?thesis using conv Cons r Some p
          by (intro exI [of _ "map_option ((@) e) r'"]) (auto simp add: option.map_comp comp_def)
      qed
    qed
  qed
qed

text \<open>
  Formatting is the same text for every buffer: either the format and arguments are
  wrong for every capacity, or there is one full text such that for each \<open>n\<close> the call writes
  its first \<open>n - 1\<close> characters and returns its full length, never more than the buffer holds.
  So the counting pass of \<open>lib_vprintf\<close> computes the size the second pass needs, and the
  printed text is complete.
\<close>

theorem snprintf_truncates:
  "(\<forall>n. snprintf n fmt args = None) \<and> lib_vprintf fmt args = None \<or>
   (\<exists>full. (\<forall>n. snprintf n fmt args = Some (take (n - 1) full, length full)) \<and>
      lib_vprintf fmt args = (if length full < 1024 then Some (full, length full) else None))"
proof -
  have e: "([], 0) = cut n []" for n by (simp add: cut_def)
  obtain r where "\<forall>n full. vsn n fmt args (cut n full) = map_option (\<lambda>e. cut n (full @ e)) r"
    using vsn_cut [of fmt args] by blast
  then have r: "vsn n fmt args ([], 0) = map_option (\<lambda>e. cut n e) r" for n
    using e [of n] by simp
  show ?thesis
  proof (cases r)
    case None
    then show ?thesis by (simp add: snprintf_def lib_vsnprintf_def lib_vprintf_def r)
  next
    case (Some a)
    have n: "lib_vsnprintf n fmt args = Some (take (n - 1) a, length a)" for n
      by (simp add: lib_vsnprintf_def r Some cut_def)
    show ?thesis
      by (intro disjI2 exI [of _ a]) (simp add: snprintf_def lib_vprintf_def n)
  qed
qed

end
