(* ===== verification/Clock.thy ===== *)
theory Clock
  imports Prelude
begin

text \<open>
  \<open>vibeos/timer.c\<close> and the date formatting of \<open>vibeos/user.c\<close>: the millisecond timer, the
  wall clock, calendar conversions and the random numbers handed to lwIP. The cycle counter is
  an input: \<open>mtime\<close> is its value at the time of the call. The build date that seeds the wall
  clock is a parameter (macros \<open>HOST_BUILD_*\<close>).
\<close>

section \<open>State\<close>

record clock =
  timer_count :: u32
  lwip_rand_state :: u32
  wall_clock_base_epoch :: u32
  wall_clock_base_ms :: u32
  wall_clock_initialized :: bool
  wall_clock_synced :: bool
  mie :: u32
  mtimecmp :: u32

definition clock_init :: clock where
  "clock_init = \<lparr>timer_count = 0, lwip_rand_state = 0x6d2b79f5, wall_clock_base_epoch = 0,
     wall_clock_base_ms = 0, wall_clock_initialized = False, wall_clock_synced = False,
     mie = 0, mtimecmp = 0\<rparr>"

text \<open>
  Reading the 64-bit counter through its two 32-bit halves: the samples are the values of the
  counter at the successive register reads; a round is repeated while the high half changes.
\<close>

fun read_mtime_real :: "u64 list \<Rightarrow> u64 option" where
  "read_mtime_real (a # b # c # rest) =
     (let hi = ucast (drop_bit 32 a) :: u32; lo = ucast b :: u32; hi2 = ucast (drop_bit 32 c) :: u32
      in if hi2 \<noteq> hi then read_mtime_real rest
         else Some (push_bit 32 (ucast hi) OR ucast lo))"
| "read_mtime_real rest = None"

abbreviation (input) MTIME_TICKS_PER_MS :: u64 where "MTIME_TICKS_PER_MS \<equiv> 50000"
abbreviation (input) INTERVAL :: u64 where "INTERVAL \<equiv> 500000"
abbreviation (input) MIE_MTIE :: u32 where "MIE_MTIE \<equiv> 0x80"

definition get_millisecond_timer :: "u64 \<Rightarrow> u32" where
  "get_millisecond_timer mtime = ucast (mtime div MTIME_TICKS_PER_MS)"

definition sys_now :: "u64 \<Rightarrow> u32" where "sys_now mtime = get_millisecond_timer mtime"

definition set_next_timer :: "clock \<Rightarrow> u64 \<Rightarrow> clock" where
  "set_next_timer c nxt =
     (let old_mie = mie c;
          c = c\<lparr>mie := old_mie AND NOT MIE_MTIE\<rparr>;
          c = c\<lparr>mtimecmp := ucast nxt\<rparr>
      in c\<lparr>mie := old_mie\<rparr>)"

definition timer_init :: "u64 \<Rightarrow> clock \<Rightarrow> clock" where
  "timer_init mtime c = (let c = set_next_timer c (mtime + INTERVAL) in c\<lparr>mie := mie c OR MIE_MTIE\<rparr>)"

definition timer_handler :: "u64 \<Rightarrow> clock \<Rightarrow> clock" where
  "timer_handler mtime c = set_next_timer (c\<lparr>timer_count := timer_count c + 1\<rparr>) (mtime + INTERVAL)"

section \<open>Calendar\<close>

definition is_leap_year :: "nat \<Rightarrow> bool" where
  "is_leap_year year \<longleftrightarrow> year mod 4 = 0 \<and> year mod 100 \<noteq> 0 \<or> year mod 400 = 0"

definition mdays :: "nat list" where
  "mdays = [31, 28, 31, 30, 31, 30, 31, 31, 30, 31, 30, 31]"

definition clamp_month :: "nat \<Rightarrow> nat" where
  "clamp_month month = (let month = (if month < 1 then 1 else month) in if month > 12 then 12 else month)"

definition days_before_month :: "nat \<Rightarrow> nat \<Rightarrow> nat" where
  "days_before_month year month =
     foldl (\<lambda>days m. let days = days + mdays ! (m - 1)
                      in if m = 2 \<and> is_leap_year year then days + 1 else days)
       0 [1 ..< clamp_month month]"

definition days_before_year :: "nat \<Rightarrow> nat" where
  "days_before_year year =
     foldl (\<lambda>days y. days + (if is_leap_year y then 366 else 365)) 0 [1970 ..< year]"

definition ymd_hms_to_unix :: "nat \<Rightarrow> nat \<Rightarrow> nat \<Rightarrow> nat \<Rightarrow> nat \<Rightarrow> nat \<Rightarrow> u32" where
  "ymd_hms_to_unix year month day hour minute sec =
     (let year = (if year < 1970 then 1970 else year);
          day = (if day < 1 then 1 else day);
          days = days_before_year year + days_before_month year month + (day - 1)
      in of_nat (days * 86400 + hour * 3600 + minute * 60 + sec))"

record build_date =
  build_year :: nat
  build_month :: nat
  build_day :: nat
  build_hour :: nat
  build_min :: nat
  build_sec :: nat

definition build_time_unix :: "build_date \<Rightarrow> u32" where
  "build_time_unix b = ymd_hms_to_unix (build_year b) (build_month b) (build_day b)
     (build_hour b) (build_min b) (build_sec b)"

record tm =
  tm_sec :: int
  tm_min :: int
  tm_hour :: int
  tm_mday :: int
  tm_mon :: int
  tm_year :: int
  tm_wday :: int
  tm_yday :: int
  tm_isdst :: int

definition year_len :: "nat \<Rightarrow> nat" where
  "year_len year = (if is_leap_year year then 366 else 365)"

text \<open>The year and month loops of \<open>gmtime_r\<close>: what remains of the days, and the year or month.\<close>

function gm_year :: "nat \<Rightarrow> nat \<Rightarrow> nat \<times> nat" where
  "gm_year days year =
     (let yd = (if is_leap_year year then 366 else 365) in
      if days < yd then (days, year) else gm_year (days - yd) (year + 1))"
  by pat_completeness auto
termination by (relation "measure fst") (auto split: if_splits)

function gm_month :: "nat \<Rightarrow> nat \<Rightarrow> nat \<Rightarrow> nat \<times> nat" where
  "gm_month year days month =
     (if month < 12 then
        let dim = mdays ! month + (if month = 1 \<and> is_leap_year year then 1 else 0) in
        if days < dim then (days, month) else gm_month year (days - dim) (month + 1)
      else (days, month))"
  by pat_completeness auto
termination by (relation "measure (\<lambda>(y, d, m). 12 - m)") auto

declare gm_year.simps [simp del] gm_month.simps [simp del]

definition gmtime_r :: "int \<Rightarrow> tm" where
  "gmtime_r timer =
     (let t = (if timer < 0 then 0 else nat timer);
          days = t div 86400;
          secs = t mod 86400;
          hour = secs div 3600;
          secs' = secs mod 3600;
          (yday, year) = gm_year days 1970;
          (mday, month) = gm_month year yday 0
      in \<lparr>tm_sec = int (secs' mod 60), tm_min = int (secs' div 60), tm_hour = int hour,
          tm_mday = int mday + 1, tm_mon = int month, tm_year = int year - 1900,
          tm_wday = int ((days + 4) mod 7), tm_yday = int yday, tm_isdst = 0\<rparr>)"

section \<open>The wall clock\<close>

definition wall_clock_init_if_needed :: "build_date \<Rightarrow> u64 \<Rightarrow> clock \<Rightarrow> clock" where
  "wall_clock_init_if_needed b mtime c =
     (if wall_clock_initialized c then c
      else c\<lparr>wall_clock_base_epoch := build_time_unix b,
             wall_clock_base_ms := get_millisecond_timer mtime, wall_clock_initialized := True\<rparr>)"

definition get_wall_clock_seconds :: "build_date \<Rightarrow> u64 \<Rightarrow> clock \<Rightarrow> u32 \<times> clock" where
  "get_wall_clock_seconds b mtime c =
     (let c = wall_clock_init_if_needed b mtime c
      in (wall_clock_base_epoch c + (get_millisecond_timer mtime - wall_clock_base_ms c) div 1000, c))"

definition set_wall_clock_unix_seconds :: "u64 \<Rightarrow> u32 \<Rightarrow> clock \<Rightarrow> clock" where
  "set_wall_clock_unix_seconds mtime unix_seconds c =
     c\<lparr>wall_clock_base_epoch := unix_seconds, wall_clock_base_ms := get_millisecond_timer mtime,
       wall_clock_initialized := True, wall_clock_synced := True\<rparr>"

definition wall_clock_is_synced :: "clock \<Rightarrow> bool" where
  "wall_clock_is_synced c = wall_clock_synced c"

definition time :: "build_date \<Rightarrow> u64 \<Rightarrow> clock \<Rightarrow> int \<times> clock" where
  "time b mtime c = (let (s, c) = get_wall_clock_seconds b mtime c in (uint s, c))"

definition gettimeofday :: "u64 \<Rightarrow> int \<times> int" where
  "gettimeofday mtime = (let ms = get_millisecond_timer mtime
     in (uint (ms div 1000), uint ((ms mod 1000) * 1000)))"

definition difftime :: "int \<Rightarrow> int \<Rightarrow> int" where "difftime time1 time0 = time1 - time0"

definition xorshift32 :: "u32 \<Rightarrow> u32" where
  "xorshift32 x = (let x = x XOR push_bit 13 x; x = x XOR drop_bit 17 x in x XOR push_bit 5 x)"

definition lwip_rand :: "u64 \<Rightarrow> clock \<Rightarrow> u32 \<times> clock" where
  "lwip_rand mtime c =
     (let r = xorshift32 (lwip_rand_state c) XOR sys_now mtime XOR timer_count c
      in (r, c\<lparr>lwip_rand_state := r\<rparr>))"

section \<open>Date text (user.c)\<close>

definition append_u2 :: "nat \<Rightarrow> string" where
  "append_u2 v = [char_of (48 + v div 10 mod 10), char_of (48 + v mod 10)]"

definition append_u4 :: "nat \<Rightarrow> string" where
  "append_u4 v = [char_of (48 + v div 1000 mod 10), char_of (48 + v div 100 mod 10),
     char_of (48 + v div 10 mod 10), char_of (48 + v mod 10)]"

definition format_ymd_hms :: "nat \<Rightarrow> nat \<Rightarrow> nat \<Rightarrow> nat \<Rightarrow> nat \<Rightarrow> nat \<Rightarrow> string" where
  "format_ymd_hms year month day hour minute sec =
     append_u4 year @ ''-'' @ append_u2 month @ ''-'' @ append_u2 day @ '' '' @
     append_u2 hour @ '':'' @ append_u2 minute @ '':'' @ append_u2 sec"

definition format_hms :: "u32 \<Rightarrow> string" where
  "format_hms secs =
     (let tmv = gmtime_r (uint secs + 8 * 3600)
      in format_ymd_hms (nat (tm_year tmv + 1900)) (nat (tm_mon tmv + 1)) (nat (tm_mday tmv))
           (nat (tm_hour tmv)) (nat (tm_min tmv)) (nat (tm_sec tmv)))"

definition format_clock :: "build_date \<Rightarrow> u64 \<Rightarrow> clock \<Rightarrow> string \<times> clock" where
  "format_clock b mtime c =
     (let (s, c) = get_wall_clock_seconds b mtime c;
          tmv = gmtime_r (uint s + 8 * 3600)
      in (format_ymd_hms (nat (tm_year tmv + 1900)) (nat (tm_mon tmv + 1)) (nat (tm_mday tmv))
            (nat (tm_hour tmv)) (nat (tm_min tmv)) (nat (tm_sec tmv)), c))"

section \<open>Calendar lemmas\<close>

lemma days_before_year_Suc: "1970 \<le> y \<Longrightarrow> days_before_year (Suc y) = days_before_year y + year_len y"
  by (simp add: days_before_year_def year_len_def)

lemma gm_year_sum:
  "1970 \<le> y \<Longrightarrow> case gm_year d y of (d', y') \<Rightarrow>
     days_before_year y + d = days_before_year y' + d' \<and> d' < year_len y' \<and> y \<le> y'"
proof (induction d y rule: gm_year.induct)
  case (1 d y)
  show ?case
  proof (cases "d < year_len y")
    case True
    then show ?thesis by (subst gm_year.simps) (simp add: year_len_def Let_def)
  next
    case False
    have "gm_year d y = gm_year (d - year_len y) (y + 1)"
      using False by (subst gm_year.simps) (simp add: year_len_def Let_def)
    moreover have "case gm_year (d - year_len y) (y + 1) of (d', y') \<Rightarrow>
      days_before_year (y + 1) + (d - year_len y) = days_before_year y' + d' \<and> d' < year_len y' \<and> y + 1 \<le> y'"
      using 1 False by (simp add: year_len_def Let_def)
    ultimately show ?thesis using False 1(2) by (auto simp: days_before_year_Suc split: prod.splits)
  qed
qed

definition month_len :: "nat \<Rightarrow> nat \<Rightarrow> nat" where
  "month_len year m = mdays ! m + (if m = 1 \<and> is_leap_year year then 1 else 0)"

lemma days_before_month_Suc:
  "m < 11 \<Longrightarrow> days_before_month y (Suc (Suc m)) = days_before_month y (Suc m) + month_len y m"
  by (simp add: days_before_month_def clamp_month_def month_len_def Let_def)

lemma days_before_month_1 [simp]: "days_before_month y (Suc 0) = 0"
  by (simp add: days_before_month_def clamp_month_def)

lemma days_before_12: "days_before_month y 12 + month_len y 11 = year_len y"
  by (simp add: days_before_month_def clamp_month_def month_len_def year_len_def mdays_def Let_def
      upt_rec)

lemma gm_month_sum:
  "m < 12 \<Longrightarrow> days_before_month y (Suc m) + d < year_len y \<Longrightarrow> case gm_month y d m of (d', m') \<Rightarrow>
     days_before_month y (Suc m) + d = days_before_month y (Suc m') + d' \<and> m' < 12 \<and> d' < month_len y m'"
proof (induction y d m rule: gm_month.induct)
  case (1 y d m)
  show ?case
  proof (cases "d < month_len y m")
    case True
    then show ?thesis using 1(2) by (subst gm_month.simps) (simp add: month_len_def Let_def)
  next
    case False
    have m: "m < 11"
    proof (rule ccontr)
      assume "\<not> m < 11"
      then have "m = 11" using 1(2) by simp
      then show False using days_before_12 [of y] 1(3) False by (simp add: numeral_eq_Suc)
    qed
    have "gm_month y d m = gm_month y (d - month_len y m) (m + 1)"
      using False 1(2) by (subst gm_month.simps) (simp add: month_len_def Let_def)
    moreover have "case gm_month y (d - month_len y m) (m + 1) of (d', m') \<Rightarrow>
      days_before_month y (Suc (m + 1)) + (d - month_len y m) = days_before_month y (Suc m') + d' \<and>
        m' < 12 \<and> d' < month_len y m'"
      using 1 False m days_before_month_Suc [OF m, of y] by (simp add: month_len_def Let_def)
    ultimately show ?thesis
      using False days_before_month_Suc [OF m, of y] by (auto split: prod.splits)
  qed
qed

lemma day_split:
  fixes n :: nat
  shows "n mod 86400 div 3600 = n div 3600 mod 24" "n mod 86400 mod 3600 = n mod 3600"
    "n mod 3600 div 60 = n div 60 mod 60" "n mod 3600 mod 60 = n mod 60"
    "n div 86400 * 86400 + (n div 3600 mod 24 * 3600 + (n div 60 mod 60 * 60 + n mod 60)) = n"
proof -
  have a: "n mod 86400 = 3600 * (n div 3600 mod 24) + n mod 3600"
    using mod_mult2_eq [of n 3600 24] by simp
  have b: "n mod 3600 = 60 * (n div 60 mod 60) + n mod 60"
    using mod_mult2_eq [of n 60 60] by simp
  show "n mod 86400 div 3600 = n div 3600 mod 24" unfolding a by simp
  show "n mod 86400 mod 3600 = n mod 3600" unfolding a by simp
  show "n mod 3600 div 60 = n div 60 mod 60" unfolding b by simp
  show "n mod 3600 mod 60 = n mod 60" unfolding b by simp
  show "n div 86400 * 86400 + (n div 3600 mod 24 * 3600 + (n div 60 mod 60 * 60 + n mod 60)) = n"
    using div_mult_mod_eq [of n 86400] a b by linarith
qed

lemma gmtime_fields:
  obtains year yday mon day where
    "gmtime_r (int n) = \<lparr>tm_sec = int (n mod 60), tm_min = int (n div 60 mod 60),
       tm_hour = int (n div 3600 mod 24), tm_mday = int day + 1, tm_mon = int mon,
       tm_year = int year - 1900, tm_wday = int ((n div 86400 + 4) mod 7), tm_yday = int yday,
       tm_isdst = 0\<rparr>"
    "1970 \<le> year" "mon < 12" "day < month_len year mon" "yday < year_len year"
    "yday = days_before_month year (Suc mon) + day"
    "n div 86400 = days_before_year year + yday"
proof -
  obtain yday year where y: "gm_year (n div 86400) 1970 = (yday, year)" by fastforce
  obtain day mon where m: "gm_month year yday 0 = (day, mon)" by fastforce
  have ys: "n div 86400 = days_before_year year + yday" "yday < year_len year" "1970 \<le> year"
    using gm_year_sum [of 1970 "n div 86400"] y by (simp_all add: days_before_year_def)
  have ms: "yday = days_before_month year (Suc mon) + day" "mon < 12" "day < month_len year mon"
    using gm_month_sum [of 0 year yday] m ys(2) by simp_all
  have t: "(if int n < 0 then 0 else nat (int n)) = n" by simp
  have c: "n mod 86400 mod 3600 mod 60 = n mod 60" "n mod 86400 mod 3600 div 60 = n div 60 mod 60"
    by (simp_all only: day_split(2-4))
  have "gmtime_r (int n) = \<lparr>tm_sec = int (n mod 60), tm_min = int (n div 60 mod 60),
       tm_hour = int (n div 3600 mod 24), tm_mday = int day + 1, tm_mon = int mon,
       tm_year = int year - 1900, tm_wday = int ((n div 86400 + 4) mod 7), tm_yday = int yday,
       tm_isdst = 0\<rparr>"
    unfolding gmtime_r_def t Let_def y m prod.case c day_split(1) ..
  then show thesis using that ys ms by blast
qed

lemma unix_of_fields:
  assumes "n div 86400 = days_before_year year + (days_before_month year (Suc mon) + day)" "1970 \<le> year"
  shows "ymd_hms_to_unix year (Suc mon) (Suc day) (n div 3600 mod 24) (n div 60 mod 60) (n mod 60)
    = of_nat n"
proof -
  have y: "(if year < 1970 then 1970 else year) = year" using assms(2) by simp
  have d: "(if Suc day < 1 then 1 else Suc day) - 1 = day" by simp
  have "(days_before_year year + days_before_month year (Suc mon) + day) * 86400 +
      n div 3600 mod 24 * 3600 + n div 60 mod 60 * 60 + n mod 60 = n"
    using day_split(5) [of n] assms(1) by (simp only: add.assoc)
  then show ?thesis unfolding ymd_hms_to_unix_def Let_def y d by (rule arg_cong)
qed

text \<open>
  The calendar conversions are inverse to each other: for every moment \<open>n\<close> the fields of
  \<open>gmtime_r\<close> are in range (month, day of that month in that year, hour, minute, second), the
  weekday counts on from Thursday, and converting the fields back gives \<open>n\<close> modulo 2^32.
\<close>

theorem gmtime_roundtrip:
  "let r = gmtime_r (int n) in
    ymd_hms_to_unix (nat (tm_year r + 1900)) (nat (tm_mon r + 1)) (nat (tm_mday r))
      (nat (tm_hour r)) (nat (tm_min r)) (nat (tm_sec r)) = of_nat n \<and>
    0 \<le> tm_mon r \<and> tm_mon r < 12 \<and> 1 \<le> tm_mday r \<and>
    tm_mday r \<le> int (month_len (nat (tm_year r + 1900)) (nat (tm_mon r))) \<and>
    tm_hour r < 24 \<and> tm_min r < 60 \<and> tm_sec r < 60 \<and>
    tm_wday r = int ((n div 86400 + 4) mod 7)"
proof -
  obtain year yday mon day where
    r: "gmtime_r (int n) = \<lparr>tm_sec = int (n mod 60), tm_min = int (n div 60 mod 60),
       tm_hour = int (n div 3600 mod 24), tm_mday = int day + 1, tm_mon = int mon,
       tm_year = int year - 1900, tm_wday = int ((n div 86400 + 4) mod 7), tm_yday = int yday,
       tm_isdst = 0\<rparr>"
    and f: "1970 \<le> year" "mon < 12" "day < month_len year mon"
      "yday = days_before_month year (Suc mon) + day" "n div 86400 = days_before_year year + yday"
    by (rule gmtime_fields [of n]) blast
  have e: "nat (int mon + 1) = Suc mon" "nat (int day + 1) = Suc day"
    "nat (int year - 1900 + 1900) = year" by simp_all
  define h mi sc wd where "h = n div 3600 mod 24" and "mi = n div 60 mod 60" and "sc = n mod 60"
    and "wd = (n div 86400 + 4) mod 7"
  have b: "sc < 60" "mi < 60" "h < 24" by (simp_all add: h_def mi_def sc_def)
  have u: "ymd_hms_to_unix year (Suc mon) (Suc day) h mi sc = of_nat n"
    unfolding h_def mi_def sc_def by (rule unix_of_fields) (use f in simp_all)
  show ?thesis
    unfolding r h_def [symmetric] mi_def [symmetric] sc_def [symmetric] wd_def [symmetric] Let_def
      tm.simps e nat_int u
    using b f(1-3) by simp
qed

text \<open>Reading the wall clock at a later value of the counter.\<close>

lemma ms_difference:
  assumes "m0 \<le> (m :: u64)"
  shows "unat (get_millisecond_timer m - get_millisecond_timer m0) =
    (unat m div 50000 - unat m0 div 50000) mod 2 ^ 32"
proof -
  have le: "unat m0 div 50000 \<le> unat m div 50000"
    using assms by (simp add: word_le_nat_alt div_le_mono)
  have e: "get_millisecond_timer k = of_nat (unat k div 50000)" for k
  proof -
    have "get_millisecond_timer k = of_nat (unat (k div 50000))"
      by (simp add: get_millisecond_timer_def)
    then show ?thesis by (simp only: unat_div_distrib) simp
  qed
  have "get_millisecond_timer m - get_millisecond_timer m0 =
      of_nat (unat m div 50000 - unat m0 div 50000)"
    unfolding e using le by (simp only: of_nat_diff)
  moreover have "unat (of_nat k :: u32) = k mod 2 ^ 32" for k
    by (simp add: unsigned_of_nat take_bit_eq_mod)
  ultimately show ?thesis by (simp only:)
qed

text \<open>After the clock is set to \<open>u\<close> at counter value \<open>m0\<close>, reading it at any later counter
  value \<open>m\<close> gives \<open>u\<close> plus the elapsed whole seconds, where the elapsed milliseconds count
  modulo 2^32: the clock is exact for 49.7 days and then falls back to \<open>u\<close>. Reading does not
  change the state, and the build date is not used.
\<close>

theorem wall_clock_reads_elapsed:
  assumes "m0 \<le> m"
  shows "get_wall_clock_seconds b m (set_wall_clock_unix_seconds m0 u c) =
    (u + of_nat ((unat m div 50000 - unat m0 div 50000) mod 2 ^ 32 div 1000),
     set_wall_clock_unix_seconds m0 u c)"
proof -
  define d where "d = get_millisecond_timer m - get_millisecond_timer m0"
  have "d div 1000 = of_nat (unat (d div 1000))" by simp
  then have "d div 1000 = of_nat (unat d div 1000)" by (simp only: unat_div_distrib) simp
  then have "d div 1000 = of_nat ((unat m div 50000 - unat m0 div 50000) mod 2 ^ 32 div 1000)"
    using ms_difference [OF assms] by (simp add: d_def)
  then show ?thesis
    by (simp add: get_wall_clock_seconds_def set_wall_clock_unix_seconds_def
        wall_clock_init_if_needed_def Let_def d_def)
qed

theorem wall_clock_reads_elapsed_witness:
  "\<forall>b. fst (get_wall_clock_seconds b 150000000 (set_wall_clock_unix_seconds 0 1700000000 clock_init))
    = 1700000003"
proof
  fix b
  show "fst (get_wall_clock_seconds b 150000000 (set_wall_clock_unix_seconds 0 1700000000 clock_init)) = 1700000003"
    using wall_clock_reads_elapsed [of 0 150000000 b 1700000000 clock_init] by simp
qed

end
