(* ===== verification/TermEnv.thy ===== *)
theory TermEnv
  imports CString "HOL-Library.Char_ord"
begin

text \<open>
  The text state of a terminal in \<open>vibeos/user_terminal.c\<close>: environment variables and aliases
  (two tables with the same code), the expansions applied to a command line, the obfuscation
  of the password in \<open>~/.sshboot\<close>, and \<open>copy_name20\<close> of \<open>vibeos/user_fs_shell.c\<close>.
\<close>

section \<open>Tables of names and values\<close>

text \<open>
  A table is two arrays of 12 strings and a count. Names hold 19 characters, values 95.
\<close>

record strtab =
  tab_name :: "nat \<Rightarrow> string"
  tab_value :: "nat \<Rightarrow> string"
  tab_count :: nat

abbreviation (input) MAX_VARS :: nat where "MAX_VARS \<equiv> 12"

definition copy_name20 :: "string \<Rightarrow> string" where "copy_name20 src = take 19 src"

definition env_copy_value :: "string \<Rightarrow> string" where "env_copy_value src = take 95 src"

definition is_alpha_us :: "char \<Rightarrow> bool" where
  "is_alpha_us c \<longleftrightarrow> (CHR ''A'' \<le> c \<and> c \<le> CHR ''Z'') \<or> (CHR ''a'' \<le> c \<and> c \<le> CHR ''z'') \<or> c = CHR ''_''"

definition is_name_char :: "char \<Rightarrow> bool" where
  "is_name_char c \<longleftrightarrow> is_alpha_us c \<or> (CHR ''0'' \<le> c \<and> c \<le> CHR ''9'')"

definition env_name_ok :: "string \<Rightarrow> bool" where
  "env_name_ok name \<longleftrightarrow> name \<noteq> [] \<and> is_alpha_us (hd name) \<and> list_all is_name_char (tl name)"

definition tab_find :: "strtab \<Rightarrow> string \<Rightarrow> nat option" where
  "tab_find t name =
     (if name = [] then None
      else find (\<lambda>i. strcmp (tab_name t i) name = 0) [0 ..< tab_count t])"

definition tab_reset :: "strtab \<Rightarrow> strtab" where
  "tab_reset t = t\<lparr>tab_count := 0, tab_name := (\<lambda>i. if i < MAX_VARS then [] else tab_name t i),
     tab_value := (\<lambda>i. if i < MAX_VARS then [] else tab_value t i)\<rparr>"

definition tab_put :: "strtab \<Rightarrow> nat \<Rightarrow> string \<Rightarrow> string \<Rightarrow> strtab" where
  "tab_put t i name v =
     t\<lparr>tab_name := (tab_name t)(i := copy_name20 name), tab_value := (tab_value t)(i := env_copy_value v)\<rparr>"

definition tab_set :: "strtab \<Rightarrow> string \<Rightarrow> string \<Rightarrow> int \<times> strtab" where
  "tab_set t name v =
     (if \<not> env_name_ok name then (-1, t)
      else case tab_find t name of
        Some idx \<Rightarrow> (0, tab_put t idx name v)
      | None \<Rightarrow> if tab_count t \<ge> MAX_VARS then (-1, t)
               else (0, tab_put (t\<lparr>tab_count := tab_count t + 1\<rparr>) (tab_count t) name v))"

text \<open>The loop that moves the entries after the removed one down.\<close>

fun tab_shift :: "strtab \<Rightarrow> nat \<Rightarrow> nat \<Rightarrow> strtab" where
  "tab_shift t i 0 = t"
| "tab_shift t i (Suc n) = tab_shift (tab_put t i (tab_name t (i + 1)) (tab_value t (i + 1))) (i + 1) n"

definition tab_unset :: "strtab \<Rightarrow> string \<Rightarrow> int \<times> strtab" where
  "tab_unset t name =
     (case tab_find t name of
        None \<Rightarrow> (-1, t)
      | Some idx \<Rightarrow>
          let t = tab_shift t idx (tab_count t - 1 - idx)
          in if tab_count t > 0 then
               let c = tab_count t - 1
               in (0, t\<lparr>tab_count := c, tab_name := (tab_name t)(c := []), tab_value := (tab_value t)(c := [])\<rparr>)
             else (0, t))"

definition tab_get :: "strtab \<Rightarrow> string \<Rightarrow> string" where
  "tab_get t name = (case tab_find t name of None \<Rightarrow> [] | Some idx \<Rightarrow> tab_value t idx)"

section \<open>The terminal's tables\<close>

abbreviation (input) WINDOW_KIND_TERMINAL :: int where "WINDOW_KIND_TERMINAL \<equiv> 0"

text \<open>The fields of \<open>struct Window\<close> that the shell environment and the file system use.\<close>

record shell_win =
  win_kind :: int
  win_cwd :: string
  win_cwd_bno :: nat
  win_env :: strtab
  win_alias :: strtab

definition terminal_env_set :: "shell_win \<Rightarrow> string \<Rightarrow> string \<Rightarrow> int \<times> shell_win" where
  "terminal_env_set w name v = (let (rc, t) = tab_set (win_env w) name v in (rc, w\<lparr>win_env := t\<rparr>))"

definition terminal_env_unset :: "shell_win \<Rightarrow> string \<Rightarrow> int \<times> shell_win" where
  "terminal_env_unset w name = (let (rc, t) = tab_unset (win_env w) name in (rc, w\<lparr>win_env := t\<rparr>))"

definition terminal_env_get :: "shell_win \<Rightarrow> string \<Rightarrow> string" where
  "terminal_env_get w name = tab_get (win_env w) name"

definition terminal_alias_set :: "shell_win \<Rightarrow> string \<Rightarrow> string \<Rightarrow> int \<times> shell_win" where
  "terminal_alias_set w name v = (let (rc, t) = tab_set (win_alias w) name v in (rc, w\<lparr>win_alias := t\<rparr>))"

definition terminal_alias_unset :: "shell_win \<Rightarrow> string \<Rightarrow> int \<times> shell_win" where
  "terminal_alias_unset w name = (let (rc, t) = tab_unset (win_alias w) name in (rc, w\<lparr>win_alias := t\<rparr>))"

definition terminal_alias_get :: "shell_win \<Rightarrow> string \<Rightarrow> string" where
  "terminal_alias_get w name = tab_get (win_alias w) name"

definition terminal_env_reset :: "shell_win \<Rightarrow> shell_win" where
  "terminal_env_reset w = w\<lparr>win_env := tab_reset (win_env w)\<rparr>"

definition terminal_alias_reset :: "shell_win \<Rightarrow> shell_win" where
  "terminal_alias_reset w = w\<lparr>win_alias := tab_reset (win_alias w)\<rparr>"

definition cwd_or_root :: "string \<Rightarrow> string" where
  "cwd_or_root s = (if s = [] then ''/root'' else s)"

definition terminal_env_sync_pwd :: "shell_win \<Rightarrow> shell_win" where
  "terminal_env_sync_pwd w =
     (if win_kind w \<noteq> WINDOW_KIND_TERMINAL then w
      else snd (terminal_env_set w ''PWD'' (cwd_or_root (win_cwd w))))"

definition terminal_env_bootstrap :: "shell_win \<Rightarrow> shell_win" where
  "terminal_env_bootstrap w =
     (if win_kind w \<noteq> WINDOW_KIND_TERMINAL then w
      else let w = terminal_alias_reset (terminal_env_reset w);
               w = foldl (\<lambda>w (k, v). snd (terminal_env_set w k v)) w
                 [(''HOME'', ''/root''), (''PWD'', cwd_or_root (win_cwd w)), (''TERM'', ''matrix''),
                  (''SHELL'', ''matrix''), (''USER'', ''root''), (''PATH'', ''/root/bin:/bin:/usr/bin'')]
           in foldl (\<lambda>w (k, v). snd (terminal_alias_set w k v)) w
                [(''ll'', ''ls -all''), (''l'', ''ls''), (''c'', ''clear''), (''n'', ''netsurf''),
                 (''wrpopen'', ''wrp open'')])"

section \<open>Expansions of a command line\<close>

text \<open>\<open>dst_size\<close> is the capacity of the destination, its NUL included.\<close>

definition terminal_expand_home_path :: "shell_win \<Rightarrow> string \<Rightarrow> nat \<Rightarrow> string" where
  "terminal_expand_home_path w src dst_size =
     (if dst_size = 0 then []
      else let home = terminal_env_get w ''HOME'';
               home = (if home = [] then ''/root'' else home);
               n = dst_size - 1
      in if char_at src 0 \<noteq> CHR ''~'' then take n src
         else if char_at src 1 \<noteq> NUL \<and> char_at src 1 \<noteq> CHR ''/'' then take n src
         else let dst = take n home;
                  src = drop 1 src;
                  src = (if char_at src 0 = CHR ''/'' then drop 1 src else src);
                  src = (if 0 < length dst \<and> length dst < n \<and> last dst = CHR ''/'' \<and> char_at src 0 = CHR ''/''
                         then drop 1 src else src);
                  dst = (if 0 < length dst \<and> length dst < n \<and> last dst \<noteq> CHR ''/''
                         then dst @ ''/'' else dst)
              in dst @ take (n - length dst) src)"

definition terminal_expand_alias_command :: "shell_win \<Rightarrow> string \<Rightarrow> nat \<Rightarrow> string" where
  "terminal_expand_alias_command w src dst_size =
     (if dst_size = 0 then []
      else let n = dst_size - 1;
               rest = dropWhile is_blank src;
               token = take 19 (takeWhile (\<lambda>c. \<not> is_blank c) rest);
               rest = drop (length token) rest;
               alias = terminal_alias_get w token
      in if alias = [] then take n src
         else let dst = take n alias;
                  rest = dropWhile is_blank rest;
                  dst = (if rest \<noteq> [] \<and> length dst < n then dst @ '' '' else dst)
              in dst @ take (n - length dst) rest)"

text \<open>The name after a \<open>$\<close>: in braces at most 19 characters are read, else the excess is skipped.\<close>

definition var_name :: "string \<Rightarrow> (string \<times> string) option" where
  "var_name src =
     (if char_at src 0 = CHR ''{'' then
        let src = drop 1 src;
            name = take 19 (takeWhile (\<lambda>c. c \<noteq> CHR ''}'') src);
            src = drop (length name) src
        in Some (name, if char_at src 0 = CHR ''}'' then drop 1 src else src)
      else if src \<noteq> [] \<and> is_alpha_us (hd src) then
        Some (take 19 (takeWhile is_name_char src), dropWhile is_name_char src)
      else None)"

lemma var_name_length: "var_name src = Some (name, src') \<Longrightarrow> length src' \<le> length src"
proof (cases "char_at src 0 = CHR ''{''")
  case False
  assume "var_name src = Some (name, src')"
  with False have "src' = dropWhile is_name_char src" by (auto simp: var_name_def split: if_splits)
  then show ?thesis by (simp add: length_dropWhile_le)
qed (auto simp: var_name_def Let_def)

function env_expand :: "shell_win \<Rightarrow> nat \<Rightarrow> string \<Rightarrow> string \<Rightarrow> string" where
  "env_expand w n dst src =
     (if src = [] \<or> length dst \<ge> n then dst
      else if hd src \<noteq> CHR ''$'' then env_expand w n (dst @ [hd src]) (tl src)
      else if char_at (tl src) 0 = CHR ''$'' then env_expand w n (dst @ ''$'') (tl (tl src))
      else case var_name (tl src) of
          None \<Rightarrow> env_expand w n (dst @ ''$'') (tl src)
        | Some (name, src') \<Rightarrow>
            env_expand w n (dst @ take (n - length dst) (terminal_env_get w name)) src')"
  by pat_completeness auto
termination
  by (relation "measure (\<lambda>(w, n, dst, src). length src)")
    (auto dest!: var_name_length simp flip: length_greater_0_conv intro: Suc_le_lessD)

declare env_expand.simps [simp del]

definition terminal_env_expand_command :: "shell_win \<Rightarrow> string \<Rightarrow> nat \<Rightarrow> string" where
  "terminal_env_expand_command w src dst_size =
     (if dst_size = 0 then [] else env_expand w (dst_size - 1) [] src)"

section \<open>The obfuscated password of \<open>~/.sshboot\<close>\<close>

definition sshboot_hex_val :: "char \<Rightarrow> u8" where
  "sshboot_hex_val c =
     (if CHR ''0'' \<le> c \<and> c \<le> CHR ''9'' then c2b c - 48
      else if CHR ''a'' \<le> c \<and> c \<le> CHR ''f'' then c2b c - 97 + 10
      else if CHR ''A'' \<le> c \<and> c \<le> CHR ''F'' then c2b c - 65 + 10
      else 255)"

definition sshboot_keystream_next :: "u32 \<Rightarrow> u8 \<times> u32" where
  "sshboot_keystream_next state =
     (let s = state XOR push_bit 13 state; s = s XOR drop_bit 17 s; s = s XOR push_bit 5 s
      in (ucast (drop_bit 24 s), s))"

definition hex_digit :: "u8 \<Rightarrow> char" where
  "hex_digit d = ''0123456789abcdef'' ! unat (d AND 15)"

fun obf_loop :: "string \<Rightarrow> u32 \<Rightarrow> string" where
  "obf_loop [] state = []"
| "obf_loop (c # cs) state =
     (let (k, state) = sshboot_keystream_next state; b = c2b c XOR k
      in hex_digit (drop_bit 4 b) # hex_digit b # obf_loop cs state)"

abbreviation (input) SSHBOOT_SEED :: u32 where "SSHBOOT_SEED \<equiv> 0x6d2b79f5"

definition sshboot_password_obfuscate :: "string \<Rightarrow> nat \<Rightarrow> string option" where
  "sshboot_password_obfuscate password out_max =
     (if out_max < 8 then None
      else if length password = 0 \<or> 3 + length password * 2 + 1 > out_max then None
      else Some (''v1:'' @ obf_loop password SSHBOOT_SEED))"

fun deobf_loop :: "string \<Rightarrow> u32 \<Rightarrow> string option" where
  "deobf_loop (h # l # cs) state =
     (let hi = sshboot_hex_val h; lo = sshboot_hex_val l in
      if hi > 15 \<or> lo > 15 then None
      else let (k, state) = sshboot_keystream_next state
           in map_option ((#) (b2c ((push_bit 4 hi OR lo) XOR k))) (deobf_loop cs state))"
| "deobf_loop cs state = Some []"

definition sshboot_password_deobfuscate :: "string \<Rightarrow> nat \<Rightarrow> string option" where
  "sshboot_password_deobfuscate encoded out_max =
     (if out_max = 0 then None
      else let e = (if strncmp encoded ''v1:'' 3 = 0 then drop 3 encoded else encoded)
           in if length e = 0 \<or> length e mod 2 \<noteq> 0 \<or> length e div 2 \<ge> out_max then None
              else deobf_loop e SSHBOOT_SEED)"

section \<open>The contract of a table of names\<close>

text \<open>
  What the shell relies on: \<open>bound t\<close> are the names that have a value, \<open>ok\<close> the names the
  table can hold.
\<close>

locale string_table =
  fixes put :: "'t \<Rightarrow> string \<Rightarrow> string \<Rightarrow> int \<times> 't"
    and remove :: "'t \<Rightarrow> string \<Rightarrow> int \<times> 't"
    and lookup :: "'t \<Rightarrow> string \<Rightarrow> string"
    and wf :: "'t \<Rightarrow> bool"
    and bound :: "'t \<Rightarrow> string set"
    and ok :: "string \<Rightarrow> bool"
    and cap :: nat
  assumes ok_cstr: "ok k \<Longrightarrow> cstr k"
    and put_ok: "wf t \<Longrightarrow> ok k \<Longrightarrow> k \<in> bound t \<or> card (bound t) < cap \<Longrightarrow>
      fst (put t k v) = 0 \<and> wf (snd (put t k v)) \<and> bound (snd (put t k v)) = insert k (bound t) \<and>
      (\<forall>j. cstr j \<longrightarrow> lookup (snd (put t k v)) j = (if j = k then take 95 v else lookup t j))"
    and put_full: "wf t \<Longrightarrow> ok k \<Longrightarrow> \<not> (k \<in> bound t \<or> card (bound t) < cap) \<Longrightarrow> put t k v = (-1, t)"
    and remove_bound: "wf t \<Longrightarrow> k \<in> bound t \<Longrightarrow>
      fst (remove t k) = 0 \<and> wf (snd (remove t k)) \<and> bound (snd (remove t k)) = bound t - {k} \<and>
      (\<forall>j. cstr j \<longrightarrow> lookup (snd (remove t k)) j = (if j = k then [] else lookup t j))"
    and remove_free: "wf t \<Longrightarrow> cstr k \<Longrightarrow> k \<notin> bound t \<Longrightarrow> remove t k = (-1, t)"
    and lookup_free: "wf t \<Longrightarrow> cstr k \<Longrightarrow> k \<notin> bound t \<Longrightarrow> lookup t k = []"
begin

lemma put_remove:
  assumes "wf t" "ok k" "k \<notin> bound t" "card (bound t) < cap"
  shows "wf (snd (remove (snd (put t k v)) k)) \<and>
    bound (snd (remove (snd (put t k v)) k)) = bound t \<and>
    (\<forall>j. cstr j \<longrightarrow> lookup (snd (remove (snd (put t k v)) k)) j = lookup t j)"
proof -
  have p: "k \<in> bound t \<or> card (bound t) < cap" using assms(4) by simp
  note a = put_ok [OF assms(1,2) p, of v]
  have "k \<in> bound (snd (put t k v))" using a by simp
  note b = remove_bound [OF _ this]
  show ?thesis using a b assms(3) lookup_free [OF assms(1) ok_cstr [OF assms(2)] assms(3)] by auto
qed

text \<open>Putting a list of bindings that fits.\<close>

lemma put_list:
  assumes "wf t" "\<forall>(k, v) \<in> set kvs. ok k" "card (bound t \<union> fst ` set kvs) \<le> cap" "finite (bound t)"
  shows "wf (foldl (\<lambda>t (k, v). snd (put t k v)) t kvs) \<and>
    bound (foldl (\<lambda>t (k, v). snd (put t k v)) t kvs) = bound t \<union> fst ` set kvs \<and>
    (\<forall>j. cstr j \<longrightarrow> lookup (foldl (\<lambda>t (k, v). snd (put t k v)) t kvs) j =
      (case map_of (rev kvs) j of Some v \<Rightarrow> take 95 v | None \<Rightarrow> lookup t j))"
  using assms
proof (induction kvs arbitrary: t)
  case (Cons kv kvs)
  obtain k v where kv: "kv = (k, v)" by fastforce
  have "card (insert k (bound t)) \<le> card (bound t \<union> fst ` set (kv # kvs))"
    using Cons.prems(4) kv by (intro card_mono) auto
  then have "card (insert k (bound t)) \<le> cap" using Cons.prems(3) by linarith
  then have "k \<in> bound t \<or> card (bound t) < cap" using Cons.prems(4) by (auto simp: card_insert_if split: if_splits)
  note a = put_ok [OF Cons.prems(1) _ this, of v]
  have ok: "ok k" using Cons.prems(2) kv by auto
  define t' where "t' = snd (put t k v)"
  have t': "wf t'" "bound t' = insert k (bound t)" using a [OF ok] by (auto simp: t'_def)
  have "bound t' \<union> fst ` set kvs = bound t \<union> fst ` set (kv # kvs)" using t' kv by auto
  then have "card (bound t' \<union> fst ` set kvs) \<le> cap" using Cons.prems(3) by simp
  from Cons.IH [OF t'(1) _ this] Cons.prems t'(2) have IH:
    "wf (foldl (\<lambda>t (k, v). snd (put t k v)) t' kvs)"
    "bound (foldl (\<lambda>t (k, v). snd (put t k v)) t' kvs) = bound t' \<union> fst ` set kvs"
    "\<forall>j. cstr j \<longrightarrow> lookup (foldl (\<lambda>t (k, v). snd (put t k v)) t' kvs) j =
      (case map_of (rev kvs) j of Some v \<Rightarrow> take 95 v | None \<Rightarrow> lookup t' j)" by auto
  show ?case using IH a [OF ok] kv t'(2)
    by (auto simp: t'_def map_add_def split: option.splits)
qed simp

end

section \<open>The tables of a terminal implement it\<close>

definition tab_wf :: "strtab \<Rightarrow> bool" where
  "tab_wf t \<longleftrightarrow> tab_count t \<le> 12 \<and> inj_on (tab_name t) {..<tab_count t} \<and>
     (\<forall>i < tab_count t. tab_name t i \<noteq> [] \<and> cstr (tab_name t i) \<and> length (tab_name t i) \<le> 19 \<and>
        length (tab_value t i) \<le> 95)"

definition tab_bound :: "strtab \<Rightarrow> string set" where
  "tab_bound t = tab_name t ` {..<tab_count t}"

definition tab_ok :: "string \<Rightarrow> bool" where
  "tab_ok k \<longleftrightarrow> env_name_ok k \<and> length k \<le> 19"

lemma name_char_NUL: "\<not> is_name_char NUL"
  by (simp add: is_name_char_def is_alpha_us_def)

lemma env_name_ok_cstr: "env_name_ok k \<Longrightarrow> k \<noteq> [] \<and> cstr k"
  using name_char_NUL by (cases k) (auto simp: env_name_ok_def cstr_def list_all_iff is_name_char_def)

lemma find_upt_Some: "find P [0 ..< n] = Some i \<Longrightarrow> i < n \<and> P i"
  unfolding find_Some_iff by auto

lemma find_unique:
  assumes "\<And>i j. i < n \<Longrightarrow> j < n \<Longrightarrow> P i \<Longrightarrow> P j \<Longrightarrow> i = j"
  shows "find P [0 ..< n] = Some i \<longleftrightarrow> i < n \<and> P i"
proof
  assume i: "i < n \<and> P i"
  then have "find P [0 ..< n] \<noteq> None" unfolding find_None_iff by auto
  then obtain j where j: "find P [0 ..< n] = Some j" by blast
  then show "find P [0 ..< n] = Some i" using find_upt_Some [OF j] i assms by metis
qed (rule find_upt_Some)

lemma tab_find_Some:
  assumes "tab_wf t" "cstr k"
  shows "tab_find t k = Some i \<longleftrightarrow> i < tab_count t \<and> tab_name t i = k"
proof (cases "k = []")
  case True
  then show ?thesis using assms by (auto simp: tab_find_def tab_wf_def)
next
  case False
  have "find (\<lambda>i. strcmp (tab_name t i) k = 0) [0 ..< tab_count t] = Some i \<longleftrightarrow>
      i < tab_count t \<and> strcmp (tab_name t i) k = 0"
    by (rule find_unique) (use assms in \<open>auto simp: tab_wf_def inj_on_def\<close>)
  then show ?thesis using False assms by (auto simp: tab_find_def tab_wf_def)
qed

lemma tab_find_None:
  assumes "tab_wf t" "cstr k"
  shows "tab_find t k = None \<longleftrightarrow> k \<notin> tab_bound t"
proof -
  have "tab_find t k = None \<longleftrightarrow> (\<forall>i. tab_find t k \<noteq> Some i)" by simp
  also have "\<dots> \<longleftrightarrow> k \<notin> tab_bound t"
    unfolding tab_find_Some [OF assms] tab_bound_def by blast
  finally show ?thesis .
qed

lemma tab_get_eq:
  assumes "tab_wf t" "cstr k"
  shows "(i < tab_count t \<and> tab_name t i = k \<longrightarrow> tab_get t k = tab_value t i) \<and>
    (k \<notin> tab_bound t \<longrightarrow> tab_get t k = [])"
proof (intro conjI impI)
  assume "i < tab_count t \<and> tab_name t i = k"
  then have "tab_find t k = Some i" unfolding tab_find_Some [OF assms] .
  then show "tab_get t k = tab_value t i" by (simp add: tab_get_def)
next
  assume "k \<notin> tab_bound t"
  then have "tab_find t k = None" unfolding tab_find_None [OF assms] .
  then show "tab_get t k = []" by (simp add: tab_get_def)
qed

lemma card_tab_bound: "tab_wf t \<Longrightarrow> card (tab_bound t) = tab_count t"
  by (simp add: tab_bound_def tab_wf_def card_image)

text \<open>A table is determined by its entries: lookups through the index of a name.\<close>

lemma tab_get_cong:
  assumes "tab_wf t" "tab_wf t'" "cstr k"
    and "\<And>i. i < tab_count t \<Longrightarrow> tab_name t i = k \<Longrightarrow>
      \<exists>j < tab_count t'. tab_name t' j = k \<and> tab_value t' j = tab_value t i"
    and "k \<notin> tab_bound t \<Longrightarrow> k \<notin> tab_bound t'"
  shows "tab_get t' k = tab_get t k"
proof (cases "k \<in> tab_bound t")
  case True
  then obtain i where i: "i < tab_count t" "tab_name t i = k" by (auto simp: tab_bound_def)
  from assms(4) [OF this] show ?thesis
    using tab_get_eq [OF assms(1,3)] tab_get_eq [OF assms(2,3)] i by metis
next
  case False
  then show ?thesis using assms(5) tab_get_eq [OF assms(1,3)] tab_get_eq [OF assms(2,3)] by metis
qed

lemma tab_ok_cstr: "tab_ok k \<Longrightarrow> cstr k \<and> k \<noteq> [] \<and> take 19 k = k"
  using env_name_ok_cstr by (auto simp: tab_ok_def)

lemma tab_put_simps [simp]:
  "tab_count (tab_put t i k v) = tab_count t"
  "tab_name (tab_put t i k v) = (tab_name t)(i := take 19 k)"
  "tab_value (tab_put t i k v) = (tab_value t)(i := take 95 v)"
  by (simp_all add: tab_put_def copy_name20_def env_copy_value_def)

lemma tab_set_old:
  assumes "tab_wf t" "tab_ok k" "k \<in> tab_bound t"
  shows "fst (tab_set t k v) = 0 \<and> tab_wf (snd (tab_set t k v)) \<and>
    tab_bound (snd (tab_set t k v)) = insert k (tab_bound t) \<and>
    (\<forall>j. cstr j \<longrightarrow> tab_get (snd (tab_set t k v)) j = (if j = k then take 95 v else tab_get t j))"
proof -
  have k: "cstr k" "take 19 k = k" "env_name_ok k" using tab_ok_cstr [OF assms(2)] assms(2) by (auto simp: tab_ok_def)
  obtain i where i: "tab_find t k = Some i"
    using tab_find_None [OF assms(1) k(1)] assms(3) by (cases "tab_find t k") auto
  then have i': "i < tab_count t" "tab_name t i = k" using tab_find_Some [OF assms(1) k(1)] by auto
  define t' where "t' = tab_put t i k v"
  have e: "tab_set t k v = (0, t')" by (simp add: tab_set_def k i t'_def)
  have n: "tab_name t' = tab_name t" using i' k by (auto simp: t'_def)
  have c: "tab_count t' = tab_count t" by (simp add: t'_def)
  have wf: "tab_wf t'" using assms(1) i' n c by (auto simp: tab_wf_def) (simp add: t'_def)
  have b: "tab_bound t' = tab_bound t" by (simp add: tab_bound_def n c)
  have "tab_get t' j = (if j = k then take 95 v else tab_get t j)" if "cstr j" for j
  proof (cases "j = k")
    case True
    have "tab_get t' k = tab_value t' i" using tab_get_eq [OF wf k(1), of i] i' n c by simp
    then show ?thesis using True by (simp add: t'_def)
  next
    case False
    have "tab_get t' j = tab_get t j"
      by (rule tab_get_cong [OF assms(1) wf that]) (use False i' n c b in \<open>auto simp: t'_def\<close>)
    then show ?thesis using False by simp
  qed
  then show ?thesis using e wf b assms(3) by auto
qed

lemma tab_set_new:
  assumes "tab_wf t" "tab_ok k" "k \<notin> tab_bound t" "tab_count t < 12"
  shows "fst (tab_set t k v) = 0 \<and> tab_wf (snd (tab_set t k v)) \<and>
    tab_bound (snd (tab_set t k v)) = insert k (tab_bound t) \<and>
    (\<forall>j. cstr j \<longrightarrow> tab_get (snd (tab_set t k v)) j = (if j = k then take 95 v else tab_get t j))"
proof -
  have k: "cstr k" "take 19 k = k" "env_name_ok k" "k \<noteq> []" "length k \<le> 19"
    using tab_ok_cstr [OF assms(2)] assms(2) by (auto simp: tab_ok_def)
  have f: "tab_find t k = None" using tab_find_None [OF assms(1) k(1)] assms(3) by simp
  define t' where "t' = tab_put (t\<lparr>tab_count := tab_count t + 1\<rparr>) (tab_count t) k v"
  have e: "tab_set t k v = (0, t')" using assms(4) by (simp add: tab_set_def k f t'_def)
  have n: "tab_name t' = (tab_name t)(tab_count t := k)" "tab_count t' = Suc (tab_count t)"
    "tab_value t' = (tab_value t)(tab_count t := take 95 v)"
    using k by (simp_all add: t'_def)
  have b: "tab_bound t' = insert k (tab_bound t)"
    by (auto simp: tab_bound_def n lessThan_Suc)
  have inj: "inj_on ((tab_name t)(tab_count t := k)) {..<Suc (tab_count t)}"
    using assms(1,3) by (auto simp: tab_wf_def tab_bound_def lessThan_Suc inj_on_def)
  have wf: "tab_wf t'"
    using assms(1,4) k inj by (auto simp: tab_wf_def n less_Suc_eq)
  have "tab_get t' j = (if j = k then take 95 v else tab_get t j)" if "cstr j" for j
  proof (cases "j = k")
    case True
    have "tab_get t' k = tab_value t' (tab_count t)"
      using tab_get_eq [OF wf k(1), of "tab_count t"] n by simp
    then show ?thesis using True n by simp
  next
    case False
    have "tab_get t' j = tab_get t j"
    proof (rule tab_get_cong [OF assms(1) wf that])
      fix i assume "i < tab_count t" "tab_name t i = j"
      then show "\<exists>m<tab_count t'. tab_name t' m = j \<and> tab_value t' m = tab_value t i"
        using n by (intro exI [of _ i]) simp
    qed (use False b in auto)
    then show ?thesis using False by simp
  qed
  then show ?thesis using e wf b by auto
qed

lemma tab_set_full:
  assumes "tab_wf t" "tab_ok k" "k \<notin> tab_bound t" "\<not> tab_count t < 12"
  shows "tab_set t k v = (-1, t)"
  using tab_find_None [OF assms(1), of k] tab_ok_cstr [OF assms(2)] assms
  by (simp add: tab_set_def tab_ok_def)

lemma tab_set_ok:
  assumes "tab_wf t" "tab_ok k" "k \<in> tab_bound t \<or> tab_count t < 12"
  shows "fst (tab_set t k v) = 0 \<and> tab_wf (snd (tab_set t k v)) \<and>
    tab_bound (snd (tab_set t k v)) = insert k (tab_bound t) \<and>
    (\<forall>j. cstr j \<longrightarrow> tab_get (snd (tab_set t k v)) j = (if j = k then take 95 v else tab_get t j))"
  using tab_set_old [OF assms(1,2)] tab_set_new [OF assms(1,2)] assms(3) by blast

lemma tab_shift_eq:
  assumes "\<And>j. i < j \<Longrightarrow> j \<le> i + n \<Longrightarrow> length (tab_name t j) \<le> 19 \<and> length (tab_value t j) \<le> 95"
  shows "tab_count (tab_shift t i n) = tab_count t \<and>
    tab_name (tab_shift t i n) = (\<lambda>j. if i \<le> j \<and> j < i + n then tab_name t (j + 1) else tab_name t j) \<and>
    tab_value (tab_shift t i n) = (\<lambda>j. if i \<le> j \<and> j < i + n then tab_value t (j + 1) else tab_value t j)"
  using assms
proof (induction n arbitrary: t i)
  case (Suc n)
  let ?t = "tab_put t i (tab_name t (i + 1)) (tab_value t (i + 1))"
  have s: "take 19 (tab_name t (i + 1)) = tab_name t (i + 1)"
    "take 95 (tab_value t (i + 1)) = tab_value t (i + 1)" using Suc.prems [of "i + 1"] by simp_all
  have "tab_count (tab_shift ?t (i + 1) n) = tab_count ?t \<and>
    tab_name (tab_shift ?t (i + 1) n) = (\<lambda>j. if i + 1 \<le> j \<and> j < i + 1 + n then tab_name ?t (j + 1) else tab_name ?t j) \<and>
    tab_value (tab_shift ?t (i + 1) n) = (\<lambda>j. if i + 1 \<le> j \<and> j < i + 1 + n then tab_value ?t (j + 1) else tab_value ?t j)"
    by (rule Suc.IH) (use Suc.prems in auto)
  then show ?case using s by (auto simp: fun_eq_iff)
qed (auto simp: fun_eq_iff)

lemma tab_unset_free:
  assumes "tab_wf t" "cstr k" "k \<notin> tab_bound t"
  shows "tab_unset t k = (-1, t)"
  using tab_find_None [OF assms(1,2)] assms(3) by (simp add: tab_unset_def)

lemma tab_unset_bound:
  assumes "tab_wf t" "k \<in> tab_bound t"
  shows "fst (tab_unset t k) = 0 \<and> tab_wf (snd (tab_unset t k)) \<and>
    tab_bound (snd (tab_unset t k)) = tab_bound t - {k} \<and>
    (\<forall>j. cstr j \<longrightarrow> tab_get (snd (tab_unset t k)) j = (if j = k then [] else tab_get t j))"
proof -
  obtain i where i: "i < tab_count t" "tab_name t i = k" using assms(2) by (auto simp: tab_bound_def)
  have k: "cstr k" using assms(1) i by (auto simp: tab_wf_def)
  have f: "tab_find t k = Some i" using tab_find_Some [OF assms(1) k] i by simp
  define c where "c = tab_count t - 1"
  define t1 where "t1 = tab_shift t i (c - i)"
  have t1: "tab_count t1 = tab_count t"
    "tab_name t1 = (\<lambda>j. if i \<le> j \<and> j < c then tab_name t (j + 1) else tab_name t j)"
    "tab_value t1 = (\<lambda>j. if i \<le> j \<and> j < c then tab_value t (j + 1) else tab_value t j)"
    using tab_shift_eq [of i "c - i" t] assms(1) i by (auto simp: t1_def c_def tab_wf_def fun_eq_iff)
  define t' where "t' = t1\<lparr>tab_count := c, tab_name := (tab_name t1)(c := []), tab_value := (tab_value t1)(c := [])\<rparr>"
  have e: "tab_unset t k = (0, t')"
    using f i t1(1) by (simp add: tab_unset_def t'_def t1_def c_def Let_def)
  have n: "tab_count t' = c" "j < c \<Longrightarrow> tab_name t' j = tab_name t (if i \<le> j then j + 1 else j)"
    "j < c \<Longrightarrow> tab_value t' j = tab_value t (if i \<le> j then j + 1 else j)" for j
    by (auto simp: t'_def t1)
  have c: "tab_count t = Suc c" using i by (simp add: c_def)
  have inj: "inj_on (tab_name t) {..<Suc c}" using assms(1) c by (simp add: tab_wf_def)
  have inj': "inj_on (tab_name t') {..<c}"
  proof (rule inj_onI)
    fix a b assume ab: "a \<in> {..<c}" "b \<in> {..<c}" "tab_name t' a = tab_name t' b"
    then have "(if i \<le> a then a + 1 else a) = (if i \<le> b then b + 1 else b)"
      using n(2) [of a] n(2) [of b] by (intro inj_onD [OF inj]) auto
    then show "a = b" by (auto split: if_splits)
  qed
  have wf: "tab_wf t'" using assms(1) inj' n c by (auto simp: tab_wf_def)
  have cover: "\<exists>m<c. tab_name t' m = tab_name t j \<and> tab_value t' m = tab_value t j"
    if "j < tab_count t" "j \<noteq> i" for j
  proof (cases "j < i")
    case True
    then have "j < c" using i c by simp
    then show ?thesis using n(2,3) [of j] True by (intro exI [of _ j]) simp
  next
    case False
    then have "j - 1 < c" "i \<le> j - 1" "j - 1 + 1 = j" using that c by auto
    then show ?thesis using n(2,3) [of "j - 1"] by (intro exI [of _ "j - 1"]) simp
  qed
  have b: "tab_bound t' = tab_bound t - {k}"
  proof (intro equalityI subsetI)
    fix x assume "x \<in> tab_bound t'"
    then obtain a where a: "a < c" "x = tab_name t (if i \<le> a then a + 1 else a)"
      using n(1,2) by (auto simp: tab_bound_def)
    then have "(if i \<le> a then a + 1 else a) < Suc c" "(if i \<le> a then a + 1 else a) \<noteq> i" by auto
    moreover from this have "x \<noteq> k" using inj a(2) i c unfolding inj_on_def by (metis lessThan_iff)
    ultimately show "x \<in> tab_bound t - {k}" using a(2) c by (auto simp: tab_bound_def)
  next
    fix x assume "x \<in> tab_bound t - {k}"
    then obtain j where "j < tab_count t" "x = tab_name t j" "j \<noteq> i" using i by (auto simp: tab_bound_def)
    then obtain m where "m < c" "tab_name t' m = x" using cover by metis
    then show "x \<in> tab_bound t'" using n(1) by (auto simp: tab_bound_def)
  qed
  have "tab_get t' j = (if j = k then [] else tab_get t j)" if "cstr j" for j
  proof (cases "j = k")
    case True
    then show ?thesis using tab_get_eq [OF wf that] b by simp
  next
    case False
    have "tab_get t' j = tab_get t j"
      by (rule tab_get_cong [OF assms(1) wf that]) (use False i n(1) b cover in auto)
    then show ?thesis using False by simp
  qed
  then show ?thesis using e wf b by simp
qed

interpretation env: string_table terminal_env_set terminal_env_unset terminal_env_get
  "\<lambda>w. tab_wf (win_env w)" "\<lambda>w. tab_bound (win_env w)" tab_ok 12
proof (unfold_locales, goal_cases)
  case (1 k)
  then show ?case using tab_ok_cstr by blast
next
  case (2 w k v)
  then show ?case using tab_set_ok [of "win_env w" k v]
    by (simp add: terminal_env_set_def terminal_env_get_def case_prod_unfold card_tab_bound Let_def)
next
  case (3 w k v)
  then show ?case using tab_set_full [of "win_env w" k v]
    by (auto simp: terminal_env_set_def card_tab_bound)
next
  case (4 w k)
  then show ?case using tab_unset_bound [of "win_env w" k]
    by (simp add: terminal_env_unset_def terminal_env_get_def case_prod_unfold Let_def)
next
  case (5 w k)
  then show ?case using tab_unset_free [of "win_env w" k] by (simp add: terminal_env_unset_def)
next
  case (6 w k)
  then show ?case using tab_get_eq [of "win_env w" k] by (simp add: terminal_env_get_def)
qed

interpretation aliases: string_table terminal_alias_set terminal_alias_unset terminal_alias_get
  "\<lambda>w. tab_wf (win_alias w)" "\<lambda>w. tab_bound (win_alias w)" tab_ok 12
proof (unfold_locales, goal_cases)
  case (1 k)
  then show ?case using tab_ok_cstr by blast
next
  case (2 w k v)
  then show ?case using tab_set_ok [of "win_alias w" k v]
    by (simp add: terminal_alias_set_def terminal_alias_get_def case_prod_unfold card_tab_bound Let_def)
next
  case (3 w k v)
  then show ?case using tab_set_full [of "win_alias w" k v]
    by (auto simp: terminal_alias_set_def card_tab_bound)
next
  case (4 w k)
  then show ?case using tab_unset_bound [of "win_alias w" k]
    by (simp add: terminal_alias_unset_def terminal_alias_get_def case_prod_unfold Let_def)
next
  case (5 w k)
  then show ?case using tab_unset_free [of "win_alias w" k] by (simp add: terminal_alias_unset_def)
next
  case (6 w k)
  then show ?case using tab_get_eq [of "win_alias w" k] by (simp add: terminal_alias_get_def)
qed

section \<open>Properties\<close>

definition demo_win :: shell_win where
  "demo_win = \<lparr>win_kind = 0, win_cwd = ''/root/src'', win_cwd_bno = 1,
     win_env = \<lparr>tab_name = (\<lambda>_. []), tab_value = (\<lambda>_. []), tab_count = 0\<rparr>,
     win_alias = \<lparr>tab_name = (\<lambda>_. []), tab_value = (\<lambda>_. []), tab_count = 0\<rparr>\<rparr>"

lemma demo_win_wf: "tab_wf (win_env demo_win)" "tab_bound (win_env demo_win) = {}"
  by (simp_all add: demo_win_def tab_wf_def tab_bound_def)

text \<open>
  Setting a variable whose name fits (19 characters) succeeds exactly if the variable
  exists or fewer than 12 do; it can then be read back, cut to 95 characters, and no other
  variable changes. Unsetting a variable that was new restores every lookup.
\<close>

theorem env_set_get_unset:
  assumes "tab_wf (win_env w)" "env_name_ok k" "length k \<le> 19"
  shows "(fst (terminal_env_set w k v) = 0 \<longleftrightarrow>
      k \<in> tab_bound (win_env w) \<or> tab_count (win_env w) < 12) \<and>
    (fst (terminal_env_set w k v) = 0 \<longrightarrow>
      terminal_env_get (snd (terminal_env_set w k v)) k = take 95 v \<and>
      (\<forall>j. cstr j \<longrightarrow> j \<noteq> k \<longrightarrow>
        terminal_env_get (snd (terminal_env_set w k v)) j = terminal_env_get w j)) \<and>
    (fst (terminal_env_set w k v) = 0 \<longrightarrow> k \<notin> tab_bound (win_env w) \<longrightarrow>
      (\<forall>j. cstr j \<longrightarrow> terminal_env_get (snd (terminal_env_unset (snd (terminal_env_set w k v)) k)) j
        = terminal_env_get w j))"
proof -
  have ok: "tab_ok k" using assms(2,3) by (simp add: tab_ok_def)
  have c: "cstr k" using tab_ok_cstr [OF ok] by simp
  have card: "card (tab_bound (win_env w)) = tab_count (win_env w)" using card_tab_bound [OF assms(1)] .
  show ?thesis
  proof (cases "k \<in> tab_bound (win_env w) \<or> tab_count (win_env w) < 12")
    case True
    then show ?thesis
      using env.put_ok [of w k v] env.put_remove [of w k v] assms(1) ok c card by auto
  next
    case False
    then show ?thesis using env.put_full [of w k v] assms(1) ok card by auto
  qed
qed

theorem env_set_get_unset_witness:
  "terminal_env_get (snd (terminal_env_set demo_win ''HOME'' ''/root'')) ''HOME'' = ''/root''"
  using env_set_get_unset [OF demo_win_wf(1), of "''HOME''" "''/root''"]
  by (simp add: env_name_ok_def is_name_char_def is_alpha_us_def demo_win_def)

lemma boot_aliases:
  "tab_wf (win_alias (terminal_alias_reset w))" "tab_bound (win_alias (terminal_alias_reset w)) = {}"
  "tab_wf (win_env (terminal_env_reset w))" "tab_bound (win_env (terminal_env_reset w)) = {}"
  by (simp_all add: terminal_alias_reset_def terminal_env_reset_def tab_reset_def tab_wf_def tab_bound_def)

lemma foldl_env_set_alias:
  "win_alias (foldl (\<lambda>w (k, v). snd (terminal_env_set w k v)) w kvs) = win_alias w"
  by (induction kvs arbitrary: w) (auto simp: terminal_env_set_def case_prod_unfold Let_def)

lemma foldl_alias_set_env:
  "win_env (foldl (\<lambda>w (k, v). snd (terminal_alias_set w k v)) w kvs) = win_env w"
  by (induction kvs arbitrary: w) (auto simp: terminal_alias_set_def case_prod_unfold Let_def)

text \<open>
  A fresh terminal has the documented environment and aliases, whatever its tables held:
  \<open>HOME\<close>, \<open>PWD\<close> (the current directory, \<open>/root\<close> if there is none), \<open>PATH\<close>, \<open>USER\<close> and the aliases
  \<open>ll\<close>, \<open>l\<close>, \<open>c\<close>, \<open>n\<close> and \<open>wrpopen\<close>; both tables are well formed.
\<close>

theorem bootstrap_environment:
  assumes "win_kind w = WINDOW_KIND_TERMINAL"
  defines "w' \<equiv> terminal_env_bootstrap w"
  shows "tab_wf (win_env w') \<and> tab_wf (win_alias w') \<and>
    terminal_env_get w' ''HOME'' = ''/root'' \<and>
    terminal_env_get w' ''PWD'' = take 95 (cwd_or_root (win_cwd w)) \<and>
    terminal_env_get w' ''PATH'' = ''/root/bin:/bin:/usr/bin'' \<and>
    terminal_env_get w' ''USER'' = ''root'' \<and> terminal_env_get w' ''EDITOR'' = [] \<and>
    map (terminal_alias_get w') [''ll'', ''l'', ''c'', ''n'', ''wrpopen''] =
      [''ls -all'', ''ls'', ''clear'', ''netsurf'', ''wrp open'']"
proof -
  let ?w0 = "terminal_alias_reset (terminal_env_reset w)"
  define es where "es = [(''HOME'', ''/root''), (''PWD'', cwd_or_root (win_cwd ?w0)), (''TERM'', ''matrix''),
     (''SHELL'', ''matrix''), (''USER'', ''root''), (''PATH'', ''/root/bin:/bin:/usr/bin'')]"
  define as where "as = [(''ll'', ''ls -all''), (''l'', ''ls''), (''c'', ''clear''), (''n'', ''netsurf''),
     (''wrpopen'', ''wrp open'')]"
  define w1 where "w1 = foldl (\<lambda>w (k, v). snd (terminal_env_set w k v)) ?w0 es"
  have w': "w' = foldl (\<lambda>w (k, v). snd (terminal_alias_set w k v)) w1 as"
    using assms(1) by (simp only: w'_def terminal_env_bootstrap_def w1_def es_def as_def Let_def
        if_True if_False simp_thms)
  have w0: "tab_wf (win_env ?w0)" "tab_bound (win_env ?w0) = {}"
    using boot_aliases(3,4) [of w] by (simp_all add: terminal_alias_reset_def)
  have "\<forall>(k, v) \<in> set es. tab_ok k" "\<forall>(k, v) \<in> set as. tab_ok k"
    by (simp_all add: es_def as_def tab_ok_def env_name_ok_def is_name_char_def is_alpha_us_def)
  moreover have "card (fst ` set es) \<le> 12" "card (fst ` set as) \<le> 12"
    using card_image_le [of "set es" fst] card_length [of es]
      card_image_le [of "set as" fst] card_length [of as]
    by (simp_all add: es_def as_def)
  moreover have "tab_wf (win_alias w1)" "tab_bound (win_alias w1) = {}"
    using boot_aliases(1,2) by (simp_all add: w1_def foldl_env_set_alias)
  ultimately have
    e: "tab_wf (win_env w1)" "\<forall>j. cstr j \<longrightarrow> terminal_env_get w1 j =
      (case map_of (rev es) j of Some v \<Rightarrow> take 95 v | None \<Rightarrow> terminal_env_get ?w0 j)"
    and a: "tab_wf (win_alias w')" "\<forall>j. cstr j \<longrightarrow> terminal_alias_get w' j =
      (case map_of (rev as) j of Some v \<Rightarrow> take 95 v | None \<Rightarrow> terminal_alias_get w1 j)"
    using env.put_list [of ?w0 es] aliases.put_list [of w1 as] w0 unfolding w1_def [symmetric] w' [symmetric]
    by simp_all
  have env: "win_env w' = win_env w1" by (simp add: w' foldl_alias_set_env)
  have g: "terminal_env_get w' j = terminal_env_get w1 j" for j
    by (simp add: terminal_env_get_def env)
  have pwd: "cwd_or_root (win_cwd ?w0) = cwd_or_root (win_cwd w)"
    by (simp add: terminal_alias_reset_def terminal_env_reset_def)
  have "terminal_env_get ?w0 ''EDITOR'' = []"
    using env.lookup_free [OF w0(1), of "''EDITOR''"] w0(2) by simp
  then show ?thesis
    using e a by (simp add: g env) (simp add: es_def as_def pwd)
qed

theorem bootstrap_environment_witness:
  "terminal_env_get (terminal_env_bootstrap demo_win) ''PWD'' = ''/root/src''"
  using bootstrap_environment [of demo_win] by (simp add: demo_win_def cwd_or_root_def)

lemma env_expand_length: "length dst \<le> n \<Longrightarrow> length (env_expand w n dst src) \<le> n"
proof (induction w n dst src rule: env_expand.induct)
  case (1 w n dst src)
  then show ?case
    by (subst env_expand.simps) (auto split: option.splits)
qed

lemma env_expand_plain:
  "CHR ''$'' \<notin> set src \<Longrightarrow> length dst \<le> n \<Longrightarrow> env_expand w n dst src = dst @ take (n - length dst) src"
proof (induction w n dst src rule: env_expand.induct)
  case (1 w n dst src)
  show ?case
  proof (cases "src = [] \<or> length dst \<ge> n")
    case True
    then show ?thesis using 1(6) by (subst env_expand.simps) auto
  next
    case False
    then obtain c cs where src: "src = c # cs" by (cases src) auto
    have "env_expand w n dst src = env_expand w n (dst @ [c]) cs"
      using False 1(5) src by (subst env_expand.simps) auto
    also have "\<dots> = (dst @ [c]) @ take (n - length (dst @ [c])) cs"
      using 1(1) False 1(5) src by auto
    also have "\<dots> = dst @ take (n - length dst) src"
      using False src by (cases "n - length dst") (auto simp: Suc_diff_Suc diff_Suc split: nat.splits)
    finally show ?thesis .
  qed
qed

lemma length_if: "length a \<le> n \<Longrightarrow> length b \<le> n \<Longrightarrow> length (if c then a else b) \<le> n"
  by simp

lemma length_append_take: "length d \<le> n \<Longrightarrow> length (d @ take (n - length d) s) \<le> n"
  by simp

lemma length_if_snoc:
  "length d \<le> n \<Longrightarrow> (c \<Longrightarrow> length d < n) \<Longrightarrow> length (if c then d @ [x] else d) \<le> n"
  by auto

text \<open>
  The three expansions of a command line never write past a destination of \<open>n\<close> bytes, and
  text without a variable, a leading tilde or an alias is only cut to the buffer.
\<close>

theorem expansions_bounded:
  assumes "0 < n"
  shows "length (terminal_expand_home_path w src n) < n \<and>
    length (terminal_expand_alias_command w src n) < n \<and>
    length (terminal_env_expand_command w src n) < n \<and>
    (CHR ''$'' \<notin> set src \<longrightarrow> terminal_env_expand_command w src n = take (n - 1) src)"
proof -
  have "length (terminal_expand_home_path w src n) \<le> n - 1"
    unfolding terminal_expand_home_path_def Let_def
    by (intro length_if length_append_take length_if_snoc) (simp_all split del: if_split)
  moreover have "length (terminal_expand_alias_command w src n) \<le> n - 1"
    unfolding terminal_expand_alias_command_def Let_def
    by (intro length_if length_append_take length_if_snoc) (simp_all split del: if_split)
  moreover have "length (terminal_env_expand_command w src n) \<le> n - 1"
    by (simp add: terminal_env_expand_command_def env_expand_length)
  ultimately show ?thesis using assms env_expand_plain [of src "[]" "n - 1" w]
    by (auto simp: terminal_env_expand_command_def)
qed

theorem expansions_bounded_witness:
  "terminal_env_expand_command demo_win ''make all'' 5 = ''make''"
  using expansions_bounded [of 5 demo_win "''make all''"] by simp

lemma nat_lt_16_cases: "(k::nat) < 16 \<Longrightarrow> k = 0 \<or> k = 1 \<or> k = 2 \<or> k = 3 \<or> k = 4 \<or> k = 5 \<or> k = 6 \<or>
    k = 7 \<or> k = 8 \<or> k = 9 \<or> k = 10 \<or> k = 11 \<or> k = 12 \<or> k = 13 \<or> k = 14 \<or> k = 15"
  by presburger

lemma hex_val_nat: "k < 16 \<Longrightarrow> sshboot_hex_val (hex_digit (of_nat k)) = of_nat k"
  by (drule nat_lt_16_cases, elim disjE)
    (simp_all add: hex_digit_def sshboot_hex_val_def c2b_def of_char_def)

lemma hex_val_small: "unat x < 16 \<Longrightarrow> sshboot_hex_val (hex_digit x) = x"
  using hex_val_nat [of "unat x"] by simp

lemma hex_digit_low: "hex_digit (b AND 15) = hex_digit b"
  by (simp add: hex_digit_def and.assoc)

lemma nibbles:
  fixes b :: u8
  shows "unat (drop_bit 4 b) < 16" "unat (b AND 15) < 16" "push_bit 4 (drop_bit 4 b) OR (b AND 15) = b"
proof -
  have m: "(15::u8) = mask 4" by (simp add: mask_eq_exp_minus_1)
  have "unat b < 256" using unsigned_less [of b] by simp
  then show "unat (drop_bit 4 b) < 16" by (simp add: drop_bit_eq_div unat_div_distrib)
  have "unat (take_bit 4 b) < 16" by (simp add: take_bit_eq_mod unat_mod_distrib)
  then show "unat (b AND 15) < 16" by (simp only: m take_bit_eq_mask)
  show "push_bit 4 (drop_bit 4 b) OR (b AND 15) = b"
    unfolding m take_bit_eq_mask [symmetric]
    by (rule bit_word_eqI) (auto simp: bit_or_iff bit_push_bit_iff bit_drop_bit_eq bit_take_bit_iff)
qed

lemma deobf_obf: "deobf_loop (obf_loop p st) st = Some p"
proof (induction p arbitrary: st)
  case (Cons c p)
  obtain k st' where k: "sshboot_keystream_next st = (k, st')" by fastforce
  define b where "b = c2b c XOR k"
  have h: "sshboot_hex_val (hex_digit (drop_bit 4 b)) = drop_bit 4 b"
    "sshboot_hex_val (hex_digit b) = b AND 15"
    using hex_val_small nibbles(1,2) [of b] hex_digit_low [of b] by metis+
  have le: "\<not> drop_bit 4 b > 15" "\<not> (b AND 15) > 15"
    using nibbles(1,2) [of b] by (simp_all add: word_less_nat_alt)
  have "(push_bit 4 (drop_bit 4 b) OR (b AND 15)) XOR k = c2b c"
    unfolding nibbles(3) b_def by (simp add: xor.assoc)
  then have "b2c ((push_bit 4 (drop_bit 4 b) OR (b AND 15)) XOR k) = c" by simp
  then show ?case
    unfolding obf_loop.simps k prod.case Let_def b_def [symmetric] deobf_loop.simps h Cons.IH
    using le by simp
qed simp

lemma length_obf: "length (obf_loop p st) = 2 * length p"
  by (induction p arbitrary: st) (simp_all add: case_prod_unfold Let_def)

text \<open>
  The password of \<open>~/.sshboot\<close> survives its obfuscation: every password that is accepted
  for the file and is shorter than the buffer it is decoded into is decoded to itself.
\<close>

theorem sshboot_roundtrip:
  assumes "sshboot_password_obfuscate p n = Some e" "length p < m"
  shows "sshboot_password_deobfuscate e m = Some p"
proof -
  have e: "e = ''v1:'' @ obf_loop p SSHBOOT_SEED" "length p \<noteq> 0"
    using assms(1) by (auto simp: sshboot_password_obfuscate_def split: if_splits)
  have "strncmp e ''v1:'' 3 = 0" by (simp add: e numeral_3_eq_3 Let_def)
  then show ?thesis using e assms(2) length_obf [of p SSHBOOT_SEED] deobf_obf [of p SSHBOOT_SEED]
    by (auto simp: sshboot_password_deobfuscate_def Let_def)
qed

theorem sshboot_roundtrip_witness:
  "\<exists>e. sshboot_password_obfuscate ''secret'' 160 = Some e \<and>
     sshboot_password_deobfuscate e 64 = Some ''secret''"
proof -
  obtain e where e: "sshboot_password_obfuscate ''secret'' 160 = Some e"
    by (simp add: sshboot_password_obfuscate_def)
  then show ?thesis using sshboot_roundtrip [OF e, of 64] by simp
qed

end
