(* ===== verification/FsDisk.thy ===== *)
theory FsDisk
  imports CString
begin

text \<open>
  The block layer of \<open>vibeos/fs.c\<close>: the RAM disk (\<open>drivers/virtio/virtio_disk.c\<close>, 512 blocks of
  4096 bytes), the bitmap of used blocks, allocation and freeing, directory blocks and their
  entries, and the scan that rebuilds the bitmap from the disk. A block number out of range
  reaches a \<open>panic\<close> in the disk driver and is \<open>None\<close>.
\<close>

section \<open>State\<close>

abbreviation (input) FS_MAX_BLOCKS :: nat where "FS_MAX_BLOCKS \<equiv> 512"
abbreviation (input) BSIZE :: nat where "BSIZE \<equiv> 4096"
abbreviation (input) FS_MAGIC :: u32 where "FS_MAGIC \<equiv> 0x58504653"
abbreviation (input) FS_DATA_MAGIC :: u32 where "FS_DATA_MAGIC \<equiv> 0x31415444"
abbreviation (input) FS_DATA_PAYLOAD :: nat where "FS_DATA_PAYLOAD \<equiv> 4088"
abbreviation (input) MAX_DIR_ENTRIES :: nat where "MAX_DIR_ENTRIES \<equiv> 120"

text \<open>
  \<open>struct dir_block\<close> is larger than a block: 120 entries of 40 bytes after a header of 8 take
  4808 bytes. Entries from 102 on lie in the memory behind the block; \<open>behind\<close> is that memory
  for a \<open>struct blk\<close> on the stack. \<open>fs_now\<close> is what \<open>current_fs_time\<close> returns.
\<close>

record fs =
  disk :: "nat \<Rightarrow> mem8"
  fs_block_map :: mem8
  next_free_block :: nat
  fs_alloc_ready :: bool
  fs_now :: u32
  behind :: mem8

section \<open>The disk driver\<close>

definition disk_read :: "fs \<Rightarrow> nat \<Rightarrow> mem8 \<Rightarrow> mem8 option" where
  "disk_read f b m = (if b \<ge> FS_MAX_BLOCKS then None
     else Some (\<lambda>i. if i < BSIZE then disk f b i else m i))"

definition disk_write :: "fs \<Rightarrow> nat \<Rightarrow> mem8 \<Rightarrow> fs option" where
  "disk_write f b m = (if b \<ge> FS_MAX_BLOCKS then None
     else Some (f\<lparr>disk := (disk f)(b := (\<lambda>i. if i < BSIZE then m i else 0))\<rparr>))"

text \<open>Reading into a cleared \<open>struct blk\<close> on the stack.\<close>

definition read_stack_blk :: "fs \<Rightarrow> nat \<Rightarrow> mem8 option" where
  "read_stack_blk f b = disk_read f b (\<lambda>i. if i < BSIZE then 0 else behind f i)"

section \<open>The bitmap\<close>

definition fs_block_is_used :: "fs \<Rightarrow> nat \<Rightarrow> bool" where
  "fs_block_is_used f b = (b \<ge> FS_MAX_BLOCKS \<or> (fs_block_map f (b div 8) AND byte_mask b) \<noteq> 0)"

definition fs_block_set_used :: "fs \<Rightarrow> nat \<Rightarrow> fs" where
  "fs_block_set_used f b = (if b \<ge> FS_MAX_BLOCKS then f
     else f\<lparr>fs_block_map := (fs_block_map f)(b div 8 := fs_block_map f (b div 8) OR byte_mask b)\<rparr>)"

definition fs_block_clear_used :: "fs \<Rightarrow> nat \<Rightarrow> fs" where
  "fs_block_clear_used f b = (if b \<ge> FS_MAX_BLOCKS then f
     else f\<lparr>fs_block_map := (fs_block_map f)(b div 8 := fs_block_map f (b div 8) AND NOT (byte_mask b))\<rparr>)"

section \<open>Directory entries\<close>

definition entry_off :: "nat \<Rightarrow> nat" where "entry_off i = 8 + 40 * i"

definition db_magic :: "mem8 \<Rightarrow> u32" where "db_magic m = le32 m 0"
definition db_parent :: "mem8 \<Rightarrow> nat" where "db_parent m = unat (le32 m 4)"

definition e_bno :: "mem8 \<Rightarrow> nat \<Rightarrow> nat" where "e_bno m i = unat (le32 m (entry_off i + 20))"
definition e_size :: "mem8 \<Rightarrow> nat \<Rightarrow> nat" where "e_size m i = unat (le32 m (entry_off i + 24))"
definition e_ctime :: "mem8 \<Rightarrow> nat \<Rightarrow> u32" where "e_ctime m i = le32 m (entry_off i + 28)"
definition e_mtime :: "mem8 \<Rightarrow> nat \<Rightarrow> u32" where "e_mtime m i = le32 m (entry_off i + 32)"
definition e_mode :: "mem8 \<Rightarrow> nat \<Rightarrow> u16" where "e_mode m i = le16 m (entry_off i + 36)"
definition e_type :: "mem8 \<Rightarrow> nat \<Rightarrow> u16" where "e_type m i = le16 m (entry_off i + 38)"
definition e_free :: "mem8 \<Rightarrow> nat \<Rightarrow> bool" where "e_free m i \<longleftrightarrow> m (entry_off i) = 0"

text \<open>\<open>strcmp\<close> of a name in memory with a string is 0: the bytes up to the NUL agree.\<close>

fun mem_streq :: "mem8 \<Rightarrow> nat \<Rightarrow> string \<Rightarrow> bool" where
  "mem_streq m p [] \<longleftrightarrow> m p = 0"
| "mem_streq m p (c # s) \<longleftrightarrow> c \<noteq> NUL \<and> m p = c2b c \<and> mem_streq m (p + 1) s"

text \<open>The characters up to the NUL, at most \<open>n\<close>: what the bounded copies of a name read.\<close>

definition mem_str :: "mem8 \<Rightarrow> nat \<Rightarrow> nat \<Rightarrow> string" where
  "mem_str m p n = map b2c (takeWhile (\<lambda>b. b \<noteq> 0) (bytes_at m p n))"

definition e_name :: "mem8 \<Rightarrow> nat \<Rightarrow> string" where "e_name m i = mem_str m (entry_off i) 19"

definition put_name20 :: "mem8 \<Rightarrow> nat \<Rightarrow> string \<Rightarrow> mem8" where
  "put_name20 m p s = mem_copy m p (map c2b (take 19 s) @ [0])"

definition find_entry_index :: "mem8 \<Rightarrow> string \<Rightarrow> int \<Rightarrow> nat option" where
  "find_entry_index m name type_filter =
     find (\<lambda>i. \<not> e_free m i \<and> (type_filter = -1 \<or> uint (e_type m i) = type_filter) \<and>
               mem_streq m (entry_off i) name) [0 ..< MAX_DIR_ENTRIES]"

definition find_free_entry_index :: "mem8 \<Rightarrow> nat option" where
  "find_free_entry_index m = find (\<lambda>i. e_free m i) [0 ..< MAX_DIR_ENTRIES]"

text \<open>Writing to an entry that does not lie in the block is a write behind the \<open>struct blk\<close>.\<close>

definition entry_in_block :: "nat \<Rightarrow> bool" where "entry_in_block i \<longleftrightarrow> entry_off i + 40 \<le> BSIZE"

section \<open>Rebuilding the bitmap\<close>

text \<open>The bound of the loop is the guard of the code: \<open>guard++ < FS_MAX_BLOCKS\<close>.\<close>

fun fs_scan_chain :: "fs \<Rightarrow> nat \<Rightarrow> nat \<Rightarrow> fs" where
  "fs_scan_chain f bno 0 = f"
| "fs_scan_chain f bno (Suc guard) =
     (if bno \<ge> 60 \<and> bno < FS_MAX_BLOCKS then
        if fs_block_is_used f bno then f
        else let m = disk f bno; f = fs_block_set_used f bno in
          if le32 m 0 \<noteq> FS_DATA_MAGIC then f
          else if unat (le32 m 4) = 0 \<or> unat (le32 m 4) = bno then f
          else fs_scan_chain f (unat (le32 m 4)) guard
      else f)"

definition stack_view :: "fs \<Rightarrow> nat \<Rightarrow> mem8" where
  "stack_view f b = (\<lambda>i. if i < BSIZE then disk f b i else behind f i)"

function fs_scan_dir :: "fs \<Rightarrow> nat \<Rightarrow> nat \<Rightarrow> fs" where
  "fs_scan_dir f bno depth =
     (if bno = 0 \<or> bno \<ge> FS_MAX_BLOCKS \<or> depth > 32 then f
      else if depth > 0 \<and> fs_block_is_used f bno then f
      else let m = stack_view f bno in
        if db_magic m \<noteq> FS_MAGIC then f
        else foldl (\<lambda>f i. if e_free m i then f
                          else if e_type m i = 1 then fs_scan_dir f (e_bno m i) (depth + 1)
                          else fs_scan_chain f (e_bno m i) FS_MAX_BLOCKS)
               (fs_block_set_used f bno) [0 ..< MAX_DIR_ENTRIES])"
  by pat_completeness auto
termination by (relation "measure (\<lambda>(f, bno, depth). 33 - depth)") auto

declare fs_scan_dir.simps [simp del]

definition fs_rebuild_alloc_state :: "fs \<Rightarrow> fs" where
  "fs_rebuild_alloc_state f =
     (let f = f\<lparr>fs_block_map := (\<lambda>i. if i < FS_MAX_BLOCKS div 8 then 0 else fs_block_map f i)\<rparr>;
          f = foldl fs_block_set_used f [0 ..< 60];
          f = f\<lparr>next_free_block := 60, fs_alloc_ready := True\<rparr>
      in if db_magic (stack_view f 1) \<noteq> FS_MAGIC then f
         else (fs_scan_dir f 1 0)\<lparr>next_free_block := 60\<rparr>)"

definition fs_ready :: "fs \<Rightarrow> fs" where
  "fs_ready f = (if fs_alloc_ready f then f else fs_rebuild_alloc_state f)"

section \<open>Allocation\<close>

definition zero_block :: mem8 where "zero_block = (\<lambda>_. 0)"

definition balloc :: "fs \<Rightarrow> nat \<times> fs" where
  "balloc f =
     (let f = fs_ready f in
      case find (\<lambda>i. (fs_block_map f (i div 8) AND byte_mask i) = 0) [next_free_block f ..< FS_MAX_BLOCKS] of
        None \<Rightarrow> (0, f)
      | Some i \<Rightarrow>
          let f = f\<lparr>fs_block_map := (fs_block_map f)(i div 8 := fs_block_map f (i div 8) OR byte_mask i)\<rparr>;
              f = f\<lparr>next_free_block := i + 1\<rparr>
          in (i, f\<lparr>disk := (disk f)(i := zero_block)\<rparr>))"

definition bfree :: "fs \<Rightarrow> nat \<Rightarrow> fs" where
  "bfree f bno =
     (if bno < 60 \<or> bno \<ge> FS_MAX_BLOCKS then f
      else let f = f\<lparr>fs_block_map := (fs_block_map f)(bno div 8 := fs_block_map f (bno div 8) AND NOT (byte_mask bno))\<rparr>
           in if bno < next_free_block f then f\<lparr>next_free_block := bno\<rparr> else f)"

text \<open>Total, used and free blocks.\<close>

definition fs_usage_info :: "fs \<Rightarrow> (nat \<times> nat \<times> nat) \<times> fs" where
  "fs_usage_info f =
     (let f = fs_ready f;
          used = length (filter (\<lambda>i. (fs_block_map f (i div 8) AND byte_mask i) \<noteq> 0) [0 ..< FS_MAX_BLOCKS])
      in ((FS_MAX_BLOCKS, used, FS_MAX_BLOCKS - used), f))"

text \<open>Freeing a chain follows the links on the disk; on a cyclic chain the loop never ends.\<close>

partial_function (option) fs_free_chain :: "fs \<Rightarrow> nat \<Rightarrow> fs option" where
  "fs_free_chain f bno =
     (if bno = 0 then Some f
      else if bno \<ge> FS_MAX_BLOCKS then None
      else let m = disk f bno;
               nxt = (if le32 m 0 = FS_DATA_MAGIC then unat (le32 m 4) else 0)
           in fs_free_chain (bfree f bno) nxt)"

definition fs_load_dir_block :: "fs \<Rightarrow> nat \<Rightarrow> mem8 option option" where
  "fs_load_dir_block f bno =
     (if bno = 0 \<or> bno \<ge> FS_MAX_BLOCKS then Some None
      else map_option (\<lambda>m. if db_magic m \<noteq> FS_MAGIC then None else Some m) (read_stack_blk f bno))"

definition dir_block_is_empty :: "fs \<Rightarrow> nat \<Rightarrow> bool option" where
  "dir_block_is_empty f bno =
     map_option (\<lambda>m. db_magic m = FS_MAGIC \<and> list_all (\<lambda>i. e_free m i) [0 ..< MAX_DIR_ENTRIES])
       (read_stack_blk f bno)"

text \<open>The walk to the root looks at most at 64 directories.\<close>

fun dir_is_ancestor_loop :: "fs \<Rightarrow> nat \<Rightarrow> nat \<Rightarrow> nat \<Rightarrow> bool" where
  "dir_is_ancestor_loop f anc child 0 = False"
| "dir_is_ancestor_loop f anc child (Suc guard) =
     (if child = 0 then False else if child = anc then True else if child = 1 then False
      else case fs_load_dir_block f child of
          Some (Some m) \<Rightarrow> dir_is_ancestor_loop f anc (if db_parent m \<noteq> 0 then db_parent m else 1) guard
        | _ \<Rightarrow> False)"

definition fs_dir_is_ancestor :: "fs \<Rightarrow> nat \<Rightarrow> nat \<Rightarrow> bool" where
  "fs_dir_is_ancestor f anc child = dir_is_ancestor_loop f anc child 64"

section \<open>The bitmap implements a map of used units\<close>

lemma fs_map_fields [simp]:
  "disk (fs_block_set_used f b) = disk f" "disk (fs_block_clear_used f b) = disk f"
  "next_free_block (fs_block_set_used f b) = next_free_block f"
  "fs_alloc_ready (fs_block_set_used f b) = fs_alloc_ready f"
  "behind (fs_block_set_used f b) = behind f" "fs_now (fs_block_set_used f b) = fs_now f"
  by (simp_all add: fs_block_set_used_def fs_block_clear_used_def)

lemma used_bit: "fs_block_is_used f b \<longleftrightarrow> b \<ge> 512 \<or> bit (fs_block_map f (b div 8)) (b mod 8)"
  by (auto simp: fs_block_is_used_def and_mask_nonzero)

lemma used_set [bitmap_simps]:
  "fs_block_is_used (fs_block_set_used f p) q \<longleftrightarrow> q = p \<or> fs_block_is_used f q"
  using div_mod_8_eq [of p q] by (auto simp: used_bit fs_block_set_used_def bit_or_mask)

lemma used_clear [bitmap_simps]:
  "q < 512 \<Longrightarrow> fs_block_is_used (fs_block_clear_used f p) q \<longleftrightarrow> q \<noteq> p \<and> fs_block_is_used f q"
  using div_mod_8_eq [of p q] by (auto simp: used_bit fs_block_clear_used_def bit_andnot_mask)

interpretation block_map: used_map fs_block_is_used fs_block_set_used fs_block_clear_used "\<lambda>b. b < 512"
  by unfold_locales (auto simp: bitmap_simps)

lemma used_disk_update [simp]: "fs_block_is_used (f\<lparr>disk := d\<rparr>) = fs_block_is_used f"
  "fs_block_is_used (f\<lparr>next_free_block := n\<rparr>) = fs_block_is_used f"
  "fs_block_is_used (f\<lparr>fs_alloc_ready := r\<rparr>) = fs_block_is_used f"
  "fs_block_is_used (f\<lparr>fs_now := w\<rparr>) = fs_block_is_used f"
  by (simp_all add: fun_eq_iff fs_block_is_used_def)

lemma disk_write_fields:
  "disk_write f b m = Some f' \<Longrightarrow> b < 512 \<and> disk f' = (disk f)(b := (\<lambda>i. if i < 4096 then m i else 0)) \<and>
    fs_block_map f' = fs_block_map f \<and> next_free_block f' = next_free_block f \<and>
    fs_alloc_ready f' = fs_alloc_ready f \<and> fs_now f' = fs_now f \<and> behind f' = behind f \<and>
    fs_block_is_used f' = fs_block_is_used f"
  by (auto simp: disk_write_def split: if_splits)

text \<open>
  The state the allocator keeps: the first 60 blocks are never handed out, and no block below
  the search start is free.
\<close>

definition map_inv :: "fs \<Rightarrow> bool" where
  "map_inv f \<longleftrightarrow> fs_alloc_ready f \<and> 60 \<le> next_free_block f \<and> next_free_block f \<le> 512 \<and>
     (\<forall>b < next_free_block f. fs_block_is_used f b)"

lemma scan_chain_fields:
  "next_free_block (fs_scan_chain f b g) = next_free_block f \<and>
   fs_alloc_ready (fs_scan_chain f b g) = fs_alloc_ready f \<and> disk (fs_scan_chain f b g) = disk f \<and>
   behind (fs_scan_chain f b g) = behind f \<and> fs_now (fs_scan_chain f b g) = fs_now f \<and>
   (\<forall>q. fs_block_is_used f q \<longrightarrow> fs_block_is_used (fs_scan_chain f b g) q)"
proof (induction g arbitrary: f b)
  case (Suc g)
  show ?case
    using Suc.IH [of "fs_block_set_used f b" "unat (le32 (disk f b) 4)"]
    by (auto simp: Let_def used_set)
qed simp

lemma foldl_preserves:
  assumes "\<And>f x. x \<in> set xs \<Longrightarrow> R f (g f x)" "\<And>f. R f f" "\<And>a b c. R a b \<Longrightarrow> R b c \<Longrightarrow> R a c"
  shows "R f (foldl g f xs)"
  using assms(1)
proof (induction xs arbitrary: f)
  case Nil
  then show ?case using assms(2) by simp
next
  case (Cons x xs)
  have "R f (g f x)" "R (g f x) (foldl g (g f x) xs)" using Cons by simp_all
  then show ?case using assms(3) by simp
qed

definition map_grows :: "fs \<Rightarrow> fs \<Rightarrow> bool" where
  "map_grows f f' \<longleftrightarrow> next_free_block f' = next_free_block f \<and> fs_alloc_ready f' = fs_alloc_ready f \<and>
     disk f' = disk f \<and> behind f' = behind f \<and> fs_now f' = fs_now f \<and>
     (\<forall>q. fs_block_is_used f q \<longrightarrow> fs_block_is_used f' q)"

lemma map_grows_refl: "map_grows f f" by (simp add: map_grows_def)
lemma map_grows_trans: "map_grows a b \<Longrightarrow> map_grows b c \<Longrightarrow> map_grows a c" by (simp add: map_grows_def)
lemma map_grows_set: "map_grows f (fs_block_set_used f b)" by (simp add: map_grows_def used_set)
lemma map_grows_chain: "map_grows f (fs_scan_chain f b g)"
  using scan_chain_fields [of f b g] by (simp add: map_grows_def)

lemma map_grows_dir: "map_grows f (fs_scan_dir f b d)"
proof (induction "33 - d" arbitrary: f b d rule: less_induct)
  case less
  show ?case
  proof (cases "b = 0 \<or> b \<ge> 512 \<or> d > 32 \<or> (d > 0 \<and> fs_block_is_used f b) \<or>
      db_magic (stack_view f b) \<noteq> 0x58504653")
    case True
    then have "fs_scan_dir f b d = f" by (subst fs_scan_dir.simps) (auto simp: Let_def)
    then show ?thesis by (simp add: map_grows_refl)
  next
    case False
    let ?m = "stack_view f b"
    let ?g = "\<lambda>f i. if e_free ?m i then f
                          else if e_type ?m i = 1 then fs_scan_dir f (e_bno ?m i) (d + 1)
                          else fs_scan_chain f (e_bno ?m i) 512"
    have "map_grows f' (?g f' i)" for f' i
    proof -
      have "33 - (d + 1) < 33 - d" using False by auto
      from less [OF this, of f' "e_bno ?m i"] show ?thesis
        using map_grows_refl map_grows_chain by simp
    qed
    then have "map_grows (fs_block_set_used f b) (foldl ?g (fs_block_set_used f b) [0 ..< 120])"
      by (rule foldl_preserves) (auto intro: map_grows_refl map_grows_trans)
    moreover have "fs_scan_dir f b d = foldl ?g (fs_block_set_used f b) [0 ..< 120]"
      using False by (subst fs_scan_dir.simps) (auto simp: Let_def)
    ultimately show ?thesis using map_grows_set map_grows_trans by metis
  qed
qed

lemma rebuild_inv: "map_inv (fs_rebuild_alloc_state f)"
proof -
  define f0 where "f0 = f\<lparr>fs_block_map := (\<lambda>i. if i < 512 div 8 then 0 else fs_block_map f i)\<rparr>"
  define f1 where "f1 = (foldl fs_block_set_used f0 [0 ..< 60])\<lparr>next_free_block := 60, fs_alloc_ready := True\<rparr>"
  have u: "fs_block_is_used f1 b" if "b < 60" for b
    using that block_map.used_fold_set [of "[0 ..< 60]" b f0]
    by (simp add: f1_def)
  have g: "map_grows f1 (fs_scan_dir f1 1 0)" by (rule map_grows_dir)
  have e: "fs_rebuild_alloc_state f = (if db_magic (stack_view f1 1) \<noteq> 0x58504653 then f1
      else (fs_scan_dir f1 1 0)\<lparr>next_free_block := 60\<rparr>)"
    by (simp add: fs_rebuild_alloc_state_def f0_def f1_def Let_def)
  show ?thesis using u g by (auto simp: e map_inv_def map_grows_def f1_def)
qed

lemma ready_inv: "fs_alloc_ready f \<Longrightarrow> fs_ready f = f" "\<not> fs_alloc_ready f \<Longrightarrow> map_inv (fs_ready f)"
  by (simp_all add: fs_ready_def rebuild_inv)

lemma map_bit_used: "i < 512 \<Longrightarrow> (fs_block_map f (i div 8) AND byte_mask i) = 0 \<longleftrightarrow> \<not> fs_block_is_used f i"
  by (simp add: fs_block_is_used_def)

lemma balloc_cases:
  assumes "map_inv f"
  obtains (full) "balloc f = (0, f)" "\<forall>b < 512. fs_block_is_used f b"
    | (block) i where "60 \<le> i" "i < 512" "\<not> fs_block_is_used f i" "\<forall>b < i. fs_block_is_used f b"
      "balloc f = (i, (fs_block_set_used f i)\<lparr>next_free_block := i + 1, disk := (disk f)(i := zero_block)\<rparr>)"
proof -
  have r: "fs_ready f = f" using assms by (simp add: map_inv_def fs_ready_def)
  let ?P = "\<lambda>i. (fs_block_map f (i div 8) AND byte_mask i) = 0"
  show thesis
  proof (cases "find ?P [next_free_block f ..< 512]")
    case None
    then have "\<forall>i. next_free_block f \<le> i \<and> i < 512 \<longrightarrow> fs_block_is_used f i"
      by (auto simp: find_None_iff map_bit_used)
    then have "\<forall>b < 512. fs_block_is_used f b" using assms by (auto simp: map_inv_def not_le [symmetric])
    then show thesis using full None r by (simp add: balloc_def)
  next
    case (Some i)
    then obtain k where k: "k < length [next_free_block f ..< 512]" "[next_free_block f ..< 512] ! k = i" "?P i"
      "\<forall>j < k. \<not> ?P ([next_free_block f ..< 512] ! j)" unfolding find_Some_iff by blast
    have i: "next_free_block f \<le> i" "i < 512" "k = i - next_free_block f" using k(1,2) by auto
    have used: "fs_block_is_used f b" if "b < i" for b
    proof (cases "b < next_free_block f")
      case True
      then show ?thesis using assms by (simp add: map_inv_def)
    next
      case False
      then have "b - next_free_block f < k" "[next_free_block f ..< 512] ! (b - next_free_block f) = b"
        using that i by auto
      then have "\<not> ?P b" using k(4) by metis
      then show ?thesis using that i(2) map_bit_used [of b f] by simp
    qed
    have "\<not> fs_block_is_used f i" using k(3) i(2) map_bit_used by simp
    moreover have "balloc f = (i, (fs_block_set_used f i)\<lparr>next_free_block := i + 1, disk := (disk f)(i := zero_block)\<rparr>)"
      using Some r i(2) by (cases f) (simp add: balloc_def Let_def fs_block_set_used_def)
    ultimately show thesis using block [of i] i used assms by (auto simp: map_inv_def)
  qed
qed

lemma balloc_inv: "map_inv f \<Longrightarrow> map_inv (snd (balloc f))"
proof -
  assume inv: "map_inv f"
  show ?thesis
  proof (cases rule: balloc_cases [OF inv, case_names full block])
    case full
    then show ?thesis using inv by simp
  next
    case (block i)
    then show ?thesis using inv by (auto simp: map_inv_def used_set less_Suc_eq)
  qed
qed

lemma bfree_eq: "bfree f b = (if b < 60 \<or> b \<ge> 512 then f
    else (fs_block_clear_used f b)\<lparr>next_free_block := min b (next_free_block f)\<rparr>)"
  by (cases f) (simp add: bfree_def fs_block_clear_used_def Let_def min_def)

lemma bfree_used: "q < 512 \<Longrightarrow> fs_block_is_used (bfree f b) q \<longleftrightarrow> (q \<noteq> b \<or> b < 60) \<and> fs_block_is_used f q"
  by (auto simp: bfree_eq used_clear)

lemma bfree_inv: "map_inv f \<Longrightarrow> map_inv (bfree f b)"
proof -
  assume inv: "map_inv f"
  have n: "next_free_block (bfree f b) = (if b < 60 \<or> b \<ge> 512 then next_free_block f
      else min b (next_free_block f))" "fs_alloc_ready (bfree f b) = fs_alloc_ready f"
    by (auto simp: bfree_eq fs_block_clear_used_def)
  have "fs_block_is_used (bfree f b) q" if "q < next_free_block (bfree f b)" for q
  proof -
    have "q < 512" "q < next_free_block f" "q \<noteq> b \<or> b < 60"
      using that inv by (auto simp: n map_inv_def split: if_splits)
    then show ?thesis using inv bfree_used [of q f b] by (auto simp: map_inv_def)
  qed
  then show ?thesis using inv unfolding map_inv_def n by auto
qed

lemma bfree_fields [simp]: "disk (bfree f b) = disk f" "fs_now (bfree f b) = fs_now f"
  "behind (bfree f b) = behind f" "fs_alloc_ready (bfree f b) = fs_alloc_ready f"
  by (auto simp: bfree_eq fs_block_clear_used_def)

text \<open>
  C24: The block allocator hands out only free blocks: \<open>balloc\<close> returns 0 exactly if all 512
  blocks are used and then changes nothing; otherwise it returns the lowest free block, never
  one of the 60 reserved ones, marks just this block, clears its content and touches no other
  block. Freeing it again restores the set of used blocks. Both keep the allocator invariant.
\<close>

theorem balloc_correct:
  assumes "map_inv f"
  shows "case balloc f of (b, f') \<Rightarrow>
    map_inv f' \<and>
    (b = 0 \<longleftrightarrow> (\<forall>q < FS_MAX_BLOCKS. fs_block_is_used f q)) \<and>
    (if b = 0 then f' = f
     else 60 \<le> b \<and> b < FS_MAX_BLOCKS \<and> \<not> fs_block_is_used f b \<and> (\<forall>q < b. fs_block_is_used f q) \<and>
       (\<forall>q. fs_block_is_used f' q \<longleftrightarrow> q = b \<or> fs_block_is_used f q) \<and>
       disk f' = (disk f)(b := zero_block) \<and>
       map_inv (bfree f' b) \<and> (\<forall>q < FS_MAX_BLOCKS. fs_block_is_used (bfree f' b) q \<longleftrightarrow> fs_block_is_used f q))"
proof (cases rule: balloc_cases [OF assms, case_names full block])
  case full
  then show ?thesis using assms by simp
next
  case (block i)
  define f' where "f' = snd (balloc f)"
  have f': "balloc f = (i, f')" using block(5) by (simp add: f'_def)
  have inv: "map_inv f'" "map_inv (bfree f' i)" using balloc_inv [OF assms] by (simp_all add: f'_def bfree_inv)
  have u: "fs_block_is_used f' q \<longleftrightarrow> q = i \<or> fs_block_is_used f q" for q
    using block(5) by (simp add: f'_def used_set)
  have d: "disk f' = (disk f)(i := zero_block)" using block(5) by (simp add: f'_def)
  have i0: "i \<noteq> 0" using block(1) by simp
  have nf: "\<not> (\<forall>q < 512. fs_block_is_used f q)" using block(2,3) by blast
  have fr: "\<forall>q < 512. fs_block_is_used (bfree f' i) q \<longleftrightarrow> fs_block_is_used f q"
    using bfree_used [of _ f' i] u block(1,3) by auto
  show ?thesis
    unfolding f' prod.case using i0 nf inv block(1-4) u d fr by simp
qed

definition empty_fs :: fs where
  "empty_fs = \<lparr>disk = (\<lambda>_ _. 0), fs_block_map = (\<lambda>_. 0), next_free_block = 60, fs_alloc_ready = False,
     fs_now = 0, behind = (\<lambda>_. 0)\<rparr>"

definition fresh_fs :: fs where "fresh_fs = fs_rebuild_alloc_state empty_fs"

lemma fresh_fs_inv: "map_inv fresh_fs" by (simp add: fresh_fs_def rebuild_inv)

theorem balloc_correct_witness: "map_inv (snd (balloc fresh_fs))"
  using balloc_correct [OF fresh_fs_inv] unfolding case_prod_unfold by (rule conjunct1)

section \<open>Chains of data blocks\<close>

text \<open>
  \<open>chain d b bs\<close>: the data blocks of a file that starts at block \<open>b\<close> are \<open>bs\<close>, in the order of
  the links, and the last one ends the chain.
\<close>

fun chain :: "(nat \<Rightarrow> mem8) \<Rightarrow> nat \<Rightarrow> nat list \<Rightarrow> bool" where
  "chain d b [] \<longleftrightarrow> b = 0"
| "chain d b (x # xs) \<longleftrightarrow> b = x \<and> x \<noteq> 0 \<and> x < 512 \<and> le32 (d x) 0 = FS_DATA_MAGIC \<and>
     chain d (unat (le32 (d x) 4)) xs"

lemma chain_cong: "(\<And>x. x \<in> set bs \<Longrightarrow> d x = d' x) \<Longrightarrow> chain d b bs = chain d' b bs"
  by (induction bs arbitrary: b) auto

lemma free_chain_eq:
  "chain (disk f) b bs \<Longrightarrow> fs_free_chain f b = Some (foldl bfree f bs)"
proof (induction bs arbitrary: f b)
  case Nil
  then show ?case by (subst fs_free_chain.simps) simp
next
  case (Cons x xs)
  have "fs_free_chain (bfree f x) (unat (le32 (disk f x) 4)) = Some (foldl bfree (bfree f x) xs)"
    by (rule Cons.IH) (use Cons.prems in simp)
  then show ?case using Cons.prems by (subst fs_free_chain.simps) (simp add: Let_def)
qed

lemma foldl_bfree_used:
  "q < 512 \<Longrightarrow> fs_block_is_used (foldl bfree f bs) q \<longleftrightarrow> (q \<notin> set bs \<or> q < 60) \<and> fs_block_is_used f q"
  by (induction bs arbitrary: f) (auto simp: bfree_used)

lemma foldl_bfree_inv: "map_inv f \<Longrightarrow> map_inv (foldl bfree f bs)"
  by (induction bs arbitrary: f) (simp_all add: bfree_inv)

lemma foldl_bfree_fields [simp]: "disk (foldl bfree f bs) = disk f" "fs_now (foldl bfree f bs) = fs_now f"
  "behind (foldl bfree f bs) = behind f"
  by (induction bs arbitrary: f) simp_all

text \<open>
  C29: Freeing a file returns exactly its blocks: if the data blocks of the chain at \<open>b\<close> are
  \<open>bs\<close>, the loop ends, frees those of them above the reserved ones and no other block, and
  leaves the content of the disk alone. (On a chain whose links form a cycle it does not end.)
\<close>

theorem free_chain_frees_chain:
  assumes "chain (disk f) b bs" "map_inv f"
  shows "\<exists>f'. fs_free_chain f b = Some f' \<and> map_inv f' \<and> disk f' = disk f \<and>
    (\<forall>q < FS_MAX_BLOCKS. fs_block_is_used f' q \<longleftrightarrow> fs_block_is_used f q \<and> (q \<in> set bs \<longrightarrow> q < 60))"
  using free_chain_eq [OF assms(1)] foldl_bfree_inv [OF assms(2)] foldl_bfree_used [of _ f bs] by auto

text \<open>A disk with a file of two blocks, 60 and 61.\<close>

definition two_block_disk :: "nat \<Rightarrow> mem8" where
  "two_block_disk = (\<lambda>_. zero_block)(60 := put32 (put32 zero_block 0 FS_DATA_MAGIC) 4 61,
     61 := put32 zero_block 0 FS_DATA_MAGIC)"

lemma two_block_chain: "chain two_block_disk 60 [60, 61]"
  by (simp add: two_block_disk_def le32_def zero_block_def put32_def)

theorem free_chain_frees_chain_witness:
  "\<exists>f'. fs_free_chain (fresh_fs\<lparr>disk := two_block_disk\<rparr>) 60 = Some f' \<and> map_inv f'"
proof -
  have "map_inv (fresh_fs\<lparr>disk := two_block_disk\<rparr>)"
    using fresh_fs_inv by (simp add: map_inv_def)
  with free_chain_frees_chain [of "fresh_fs\<lparr>disk := two_block_disk\<rparr>" 60 "[60, 61]"] two_block_chain
  show ?thesis by auto
qed

end
