(* ===== verification/FsPath.thy ===== *)
theory FsPath
  imports FsDisk TermEnv
begin

text \<open>
  Paths of the file system: the current directory text (\<open>fs_path_set_child\<close>,
  \<open>fs_path_set_parent\<close>), \<open>load_current_dir\<close>, \<open>resolve_fs_target\<close> of \<open>vibeos/fs.c\<close>, and the
  path helpers of \<open>vibeos/user_fs_shell.c\<close> with \<open>resolve_editor_target\<close>.

  The scratch window \<open>fs_tmp_window\<close> is cleared before every use, so it is a local value here
  (callers never pass it as the terminal together with a path). Writing more characters into
  \<open>cwd\<close> or into a caller's buffer than it holds is \<open>None\<close>.
\<close>

section \<open>Windows of the file system\<close>

text \<open>\<open>win_local_b\<close> is \<open>local_b.data\<close> and, from offset 4096 on, what follows it in the window.\<close>

record fs_win = shell_win +
  win_local_b :: mem8

definition load_current_dir :: "fs \<Rightarrow> fs_win \<Rightarrow> (mem8 option \<times> fs_win \<times> fs) option" where
  "load_current_dir f w =
     (let f = fs_ready f in
      case disk_read f (win_cwd_bno w) (win_local_b w) of
        None \<Rightarrow> None
      | Some m \<Rightarrow> Some (if db_magic m \<noteq> FS_MAGIC then None else Some m, w\<lparr>win_local_b := m\<rparr>, f))"

text \<open>The cleared scratch window with a current directory.\<close>

definition tmp_window :: "nat \<Rightarrow> string \<Rightarrow> fs_win" where
  "tmp_window bno cwd = \<lparr>win_kind = 0, win_cwd = cwd, win_cwd_bno = bno,
     win_env = \<lparr>tab_name = (\<lambda>_. []), tab_value = (\<lambda>_. []), tab_count = 0\<rparr>,
     win_alias = \<lparr>tab_name = (\<lambda>_. []), tab_value = (\<lambda>_. []), tab_count = 0\<rparr>,
     win_local_b = (\<lambda>_. 0)\<rparr>"

section \<open>Text of the current directory\<close>

definition fs_path_set_child :: "string \<Rightarrow> string \<Rightarrow> string" where
  "fs_path_set_child cwd name =
     (let len = strlen cwd;
          cwd = (if len > 1 \<and> cwd ! (len - 1) \<noteq> CHR ''/'' then lib_strcat cwd ''/'' else cwd)
      in lib_strncat cwd name 19)"

text \<open>The loops \<open>while (len > 1 && ...) cwd[--len] = 0\<close>.\<close>

function trim_while :: "(char \<Rightarrow> bool) \<Rightarrow> string \<Rightarrow> string" where
  "trim_while P s = (if length s > 1 \<and> P (last s) then trim_while P (butlast s) else s)"
  by pat_completeness auto
termination by (relation "measure (\<lambda>(P, s). length s)") auto

declare trim_while.simps [simp del]

definition fs_path_set_parent :: "string \<Rightarrow> string" where
  "fs_path_set_parent cwd =
     (if strlen cwd \<le> 1 then ''/''
      else let s = trim_while (\<lambda>c. c = CHR ''/'') cwd;
               s = trim_while (\<lambda>c. c \<noteq> CHR ''/'') s
           in if length s > 1 then butlast s else ''/'')"

definition path_set_child :: "string \<Rightarrow> string \<Rightarrow> string" where
  "path_set_child cwd name =
     (let len = strlen cwd;
          cwd = (if len > 1 \<and> cwd ! (len - 1) \<noteq> CHR ''/'' then lib_strcat cwd ''/'' else cwd)
      in lib_strncat cwd name 19)"

definition path_set_parent :: "string \<Rightarrow> string" where
  "path_set_parent cwd =
     (if strlen cwd \<le> 1 then ''/''
      else let s = trim_while (\<lambda>c. c = CHR ''/'') cwd;
               s = trim_while (\<lambda>c. c \<noteq> CHR ''/'') s
           in if length s > 1 then butlast s else ''/'')"

definition build_editor_path :: "string \<Rightarrow> string \<Rightarrow> string" where
  "build_editor_path cwd name =
     (let dst = take 127 (if cwd \<noteq> [] then cwd else ''/root'');
          dst = (if length dst > 0 \<and> last dst \<noteq> CHR ''/'' \<and> length dst < 127 then dst @ ''/'' else dst)
      in dst @ take (127 - length dst) name)"

definition shorten_path_for_title :: "string \<Rightarrow> nat \<Rightarrow> string" where
  "shorten_path_for_title src max_len =
     (if max_len = 0 then []
      else if length src \<le> max_len then src
      else if max_len \<le> 3 then replicate max_len (CHR ''.'')
      else ''...'' @ drop (length src - (max_len - 3)) src)"

text \<open>\<open>append_out_str\<close> and \<open>append_out_pad\<close> append to a text in a buffer of \<open>out_max\<close> bytes.\<close>

definition append_out_str :: "string \<Rightarrow> nat \<Rightarrow> string \<Rightarrow> string" where
  "append_out_str out out_max s =
     (if int (length out) \<ge> int out_max - 1 then out else out @ take (out_max - 1 - length out) s)"

definition append_out_pad :: "string \<Rightarrow> nat \<Rightarrow> string \<Rightarrow> nat \<Rightarrow> string" where
  "append_out_pad out out_max s width =
     (let room = out_max - 1 - length out;
          t = take (min room width) s
      in out @ t @ replicate (min (room - length t) (width - length t)) (CHR '' ''))"

definition mode_to_str :: "u32 \<Rightarrow> u16 \<Rightarrow> string" where
  "mode_to_str mode typ =
     [if typ = 1 then CHR ''d'' else CHR ''-'',
      if mode AND 4 \<noteq> 0 then CHR ''r'' else CHR ''-'',
      if mode AND 2 \<noteq> 0 then CHR ''w'' else CHR ''-'',
      if mode AND 1 \<noteq> 0 then CHR ''x'' else CHR ''-'']"

fun path_basename_from :: "string \<Rightarrow> string \<Rightarrow> string" where
  "path_basename_from [] base = base"
| "path_basename_from (c # p) base =
     path_basename_from p (if c = CHR ''/'' \<or> c = CHR 0x5C then p else base)"

definition path_basename :: "string \<Rightarrow> string" where
  "path_basename p = path_basename_from p p"

definition has_mount_prefix :: "string \<Rightarrow> string \<Rightarrow> bool" where
  "has_mount_prefix path pre \<longleftrightarrow> strncmp path pre (length pre) = 0 \<and>
     (char_at path (length pre) = NUL \<or> char_at path (length pre) = CHR ''/'')"

definition path_is_sftp :: "string \<Rightarrow> bool" where
  "path_is_sftp path \<longleftrightarrow>
     has_mount_prefix path ''/sftp'' \<or> has_mount_prefix path ''/sftpd'' \<or>
     has_mount_prefix path ''./sftp'' \<or> has_mount_prefix path ''./sftpd'' \<or>
     has_mount_prefix path ''sftp'' \<or> has_mount_prefix path ''sftpd''"

definition sftp_subpath :: "string \<Rightarrow> string" where
  "sftp_subpath path =
     (if \<not> path_is_sftp path then path
      else let p = (if strncmp path ''/sftpd'' 6 = 0 then drop 6 path
                    else if strncmp path ''/sftp'' 5 = 0 then drop 5 path
                    else if strncmp path ''./sftpd'' 7 = 0 then drop 7 path
                    else if strncmp path ''./sftp'' 6 = 0 then drop 6 path
                    else if strncmp path ''sftpd'' 5 = 0 then drop 5 path
                    else drop 4 path);
               p = (if char_at p 0 = CHR ''/'' then drop 1 p else p)
           in if p = [] then ''.'' else p)"

definition copy_last_path_segment :: "string \<Rightarrow> string \<Rightarrow> string" where
  "copy_last_path_segment path fallback =
     (let p = rev (dropWhile (\<lambda>c. c = CHR ''/'') (rev path));
          base = rev (takeWhile (\<lambda>c. c \<noteq> CHR ''/'') (rev p))
      in if p \<noteq> [] \<and> base \<noteq> [] then take 19 base else copy_name20 fallback)"

section \<open>Resolving a path\<close>

definition bno_or_root :: "nat \<Rightarrow> nat" where "bno_or_root b = (if b = 0 then 1 else b)"

text \<open>A string written to a buffer of \<open>cap\<close> bytes.\<close>

definition fits :: "nat \<Rightarrow> string \<Rightarrow> string option" where
  "fits cap s = (if length s < cap then Some s else None)"

text \<open>Result of a resolution: directory block, its path, the last component.\<close>

type_synonym target = "nat \<times> string \<times> string"

definition skip_slashes :: "string \<Rightarrow> string" where
  "skip_slashes p = dropWhile (\<lambda>c. c = CHR ''/'') p"

text \<open>The entries of the directory at block \<open>bno\<close>, as the cleared scratch window sees them.\<close>

definition tmp_dir :: "fs \<Rightarrow> nat \<Rightarrow> string \<Rightarrow> mem8 option option" where
  "tmp_dir f bno cwd = map_option fst (load_current_dir f (tmp_window bno cwd))"

text \<open>
  The component loop. \<open>whole\<close> is the expanded input, which becomes the leaf when no component is
  left over; \<open>cap\<close> is the size of the caller's \<open>cwd_out\<close>. The file system state is the one after
  \<open>fs_ready\<close> once a directory has been read.
\<close>

function resolve_loop :: "nat \<Rightarrow> string \<Rightarrow> fs \<Rightarrow> nat \<Rightarrow> string \<Rightarrow> string \<Rightarrow> (target option \<times> fs) option" where
  "resolve_loop cap whole f bno cwd p =
     (if p = [] then
        map_option (\<lambda>c. (Some (bno_or_root bno, c, copy_name20 whole), f)) (fits cap (cwd_or_root cwd))
      else
        let seg = takeWhile (\<lambda>c. c \<noteq> CHR ''/'') p;
            rest = skip_slashes (drop (length seg) p)
        in if length seg > 19 then Some (None, f)
           else if seg = [] \<or> seg = ''.'' then resolve_loop cap whole f bno cwd rest
           else if seg = ''..'' then
             (case tmp_dir f bno cwd of
                None \<Rightarrow> None
              | Some None \<Rightarrow> Some (None, fs_ready f)
              | Some (Some m) \<Rightarrow>
                  let bno' = bno_or_root (db_parent m)
                  in resolve_loop cap whole (fs_ready f) bno'
                       (if bno' = 1 then ''/root'' else fs_path_set_parent cwd) rest)
           else if rest = [] then
             map_option (\<lambda>c. (Some (bno_or_root bno, c, copy_name20 seg), f)) (fits cap (cwd_or_root cwd))
           else
             (case tmp_dir f bno cwd of
                None \<Rightarrow> None
              | Some None \<Rightarrow> Some (None, fs_ready f)
              | Some (Some m) \<Rightarrow>
                  (case find_entry_index m seg 1 of
                     None \<Rightarrow> Some (None, fs_ready f)
                   | Some idx \<Rightarrow>
                       (case fits 128 (fs_path_set_child cwd (e_name m idx)) of
                          None \<Rightarrow> None
                        | Some cwd' \<Rightarrow> resolve_loop cap whole (fs_ready f) (e_bno m idx) cwd' rest))))"
  by pat_completeness auto

lemma skip_slashes_length: "length (skip_slashes p) \<le> length p"
  by (simp add: skip_slashes_def length_dropWhile_le)

lemma skip_rest_shorter:
  "p \<noteq> [] \<Longrightarrow> length (skip_slashes (drop (length (takeWhile (\<lambda>c. c \<noteq> CHR ''/'') p)) p)) < length p"
proof (cases p)
  case (Cons c cs)
  show ?thesis
  proof (cases "c = CHR ''/''")
    case True
    then have "skip_slashes (drop (length (takeWhile (\<lambda>c. c \<noteq> CHR ''/'') p)) p) = skip_slashes cs"
      using Cons by (simp add: skip_slashes_def)
    then show ?thesis using Cons skip_slashes_length [of cs] by simp
  next
    case False
    then have "length (drop (length (takeWhile (\<lambda>c. c \<noteq> CHR ''/'') p)) p) < length p"
      using Cons by simp
    then show ?thesis using skip_slashes_length order_le_less_trans by blast
  qed
qed simp

termination resolve_loop
  by (relation "measure (\<lambda>(cap, whole, f, bno, cwd, p). length p)") (use skip_rest_shorter in auto)

declare resolve_loop.simps [simp del]

definition resolve_fs_target :: "nat \<Rightarrow> fs \<Rightarrow> fs_win \<Rightarrow> string \<Rightarrow> (target option \<times> fs) option" where
  "resolve_fs_target cap f term input =
     (let whole = terminal_expand_home_path (shell_win.truncate term) input 64;
          bno = bno_or_root (win_cwd_bno term);
          cwd = cwd_or_root (win_cwd term);
          p = dropWhile is_blank whole
      in if p = [] then Some (None, f)
         else let (bno, cwd, p) = (if hd p = CHR ''/'' then (1, ''/root'', skip_slashes p) else (bno, cwd, p));
                  (bno, cwd, p) = (if strncmp p ''root/'' 5 = 0 then (1, ''/root'', drop 5 p)
                                   else if strcmp p ''root'' = 0 then (1, ''/root'', drop 4 p)
                                   else (bno, cwd, p))
              in resolve_loop cap whole f bno cwd (skip_slashes p))"

text \<open>
  \<open>resolve_editor_target\<close>: the same walk with a buffer of 128 characters; a trailing slash asks
  for a directory, and the leaf is empty when the path names a directory. The leading
  \<open>root/\<close> is only skipped in an absolute path.
\<close>

function editor_loop :: "bool \<Rightarrow> nat \<Rightarrow> fs \<Rightarrow> nat \<Rightarrow> string \<Rightarrow> string \<Rightarrow> (target option \<times> fs) option" where
  "editor_loop ends_with_slash cap f bno cwd p =
     (if p = [] then
        map_option (\<lambda>c. (Some (bno_or_root bno, c, []), f)) (fits cap (cwd_or_root cwd))
      else
        let seg = takeWhile (\<lambda>c. c \<noteq> CHR ''/'') p;
            rest = skip_slashes (drop (length seg) p)
        in if length seg > 19 then Some (None, f)
           else if seg = [] \<or> seg = ''.'' then editor_loop ends_with_slash cap f bno cwd rest
           else if seg = ''..'' then
             (case tmp_dir f bno cwd of
                None \<Rightarrow> None
              | Some None \<Rightarrow> Some (None, fs_ready f)
              | Some (Some m) \<Rightarrow>
                  let bno' = bno_or_root (db_parent m)
                  in editor_loop ends_with_slash cap (fs_ready f) bno'
                       (if bno' = 1 then ''/root'' else path_set_parent cwd) rest)
           else if rest = [] \<and> \<not> ends_with_slash then
             map_option (\<lambda>c. (Some (bno_or_root bno, c, copy_name20 seg), f)) (fits cap (cwd_or_root cwd))
           else
             (case tmp_dir f bno cwd of
                None \<Rightarrow> None
              | Some None \<Rightarrow> Some (None, fs_ready f)
              | Some (Some m) \<Rightarrow>
                  (case find_entry_index m seg 1 of
                     None \<Rightarrow> Some (None, fs_ready f)
                   | Some idx \<Rightarrow>
                       (case fits 128 (path_set_child cwd (e_name m idx)) of
                          None \<Rightarrow> None
                        | Some cwd' \<Rightarrow>
                            if rest = [] then
                              map_option (\<lambda>c. (Some (bno_or_root (e_bno m idx), c, []), fs_ready f))
                                (fits cap (cwd_or_root cwd'))
                            else editor_loop ends_with_slash cap (fs_ready f) (e_bno m idx) cwd' rest))))"
  by pat_completeness auto
termination editor_loop
  by (relation "measure (\<lambda>(e, cap, f, bno, cwd, p). length p)") (use skip_rest_shorter in auto)

declare editor_loop.simps [simp del]

definition resolve_editor_target :: "nat \<Rightarrow> fs \<Rightarrow> fs_win \<Rightarrow> string \<Rightarrow> (target option \<times> fs) option" where
  "resolve_editor_target cap f term input =
     (let whole = terminal_expand_home_path (shell_win.truncate term) input 128;
          p = dropWhile is_blank whole;
          trimmed = rev (dropWhile is_blank (rev whole));
          slash = (trimmed \<noteq> [] \<and> last trimmed = CHR ''/'');
          bno = bno_or_root (win_cwd_bno term);
          cwd = cwd_or_root (win_cwd term)
      in if p = [] then Some (None, f)
         else if hd p = CHR ''/'' then
           let p = skip_slashes p;
               p = (if strncmp p ''root/'' 5 = 0 then drop 5 p
                    else if strcmp p ''root'' = 0 then drop 4 p else p)
           in editor_loop slash cap f 1 ''/root'' (skip_slashes p)
         else editor_loop slash cap f bno cwd p)"

section \<open>Lemmas on path text\<close>

lemma trim_while_snoc: "s \<noteq> [] \<Longrightarrow> P c \<Longrightarrow> trim_while P (s @ [c]) = trim_while P s"
  by (subst trim_while.simps) simp

lemma trim_while_append: "s \<noteq> [] \<Longrightarrow> \<forall>c \<in> set t. P c \<Longrightarrow> trim_while P (s @ t) = trim_while P s"
proof (induction t rule: rev_induct)
  case (snoc c t)
  then have "trim_while P (s @ t @ [c]) = trim_while P (s @ t)"
    using trim_while_snoc [of "s @ t" P c] by simp
  then show ?case using snoc by simp
qed simp

lemma trim_while_stop: "\<not> P (last s) \<or> length s \<le> 1 \<Longrightarrow> trim_while P s = s"
  by (subst trim_while.simps) auto

text \<open>A component of a path: printable, without a slash, at most 19 characters.\<close>

definition component :: "string \<Rightarrow> bool" where
  "component s \<longleftrightarrow> s \<noteq> [] \<and> length s \<le> 19 \<and> (\<forall>c \<in> set s. printable c \<and> c \<noteq> CHR ''/'')"

lemma takeWhile_printable: "component s \<Longrightarrow> takeWhile printable (take 19 s) = s"
  by (simp add: component_def)

lemma set_child_eq:
  assumes "1 < length cwd" "last cwd \<noteq> CHR ''/''" "component name"
  shows "fs_path_set_child cwd name = cwd @ ''/'' @ name"
proof -
  have "cwd ! (length cwd - 1) = last cwd" using assms(1) by (metis last_conv_nth list.size(3) not_one_less_zero)
  then show ?thesis using assms takeWhile_printable [OF assms(3)]
    by (simp add: fs_path_set_child_def strlen_def Let_def lib_strcat_def lib_strncat_def)
qed

text \<open>
  Entering a directory and leaving it again gives the old path text: for a path of more
  than one character without a trailing slash and any directory name of the file system,
  \<open>fs_path_set_parent\<close> undoes \<open>fs_path_set_child\<close>; the shell's own copies of the two functions
  agree with those of the file system on all inputs.
\<close>

theorem path_child_parent:
  assumes "1 < length cwd" "last cwd \<noteq> CHR ''/''" "component name"
  shows "fs_path_set_parent (fs_path_set_child cwd name) = cwd \<and>
    path_set_child c n = fs_path_set_child c n \<and> path_set_parent c = fs_path_set_parent c"
proof -
  have cwd: "cwd \<noteq> []" using assms(1) by auto
  have n: "last name \<noteq> CHR ''/''" "\<forall>c \<in> set name. c \<noteq> CHR ''/''" "name \<noteq> []"
    using assms(3) last_in_set [of name] by (auto simp: component_def)
  let ?s = "cwd @ ''/'' @ name"
  have "trim_while (\<lambda>c. c = CHR ''/'') ?s = ?s"
    by (rule trim_while_stop) (use n in simp)
  moreover have "trim_while (\<lambda>c. c \<noteq> CHR ''/'') ?s = cwd @ ''/''"
  proof -
    have "trim_while (\<lambda>c. c \<noteq> CHR ''/'') ((cwd @ ''/'') @ name) = trim_while (\<lambda>c. c \<noteq> CHR ''/'') (cwd @ ''/'')"
      by (rule trim_while_append) (use n in auto)
    also have "\<dots> = cwd @ ''/''" by (rule trim_while_stop) simp
    finally show ?thesis by simp
  qed
  ultimately have "fs_path_set_parent ?s = cwd"
    using assms(1) cwd by (simp add: fs_path_set_parent_def strlen_def Let_def butlast_append)
  then have "fs_path_set_parent (fs_path_set_child cwd name) = cwd"
    by (simp only: set_child_eq [OF assms])
  moreover have "path_set_child c n = fs_path_set_child c n" "path_set_parent c = fs_path_set_parent c"
    by (simp_all only: path_set_child_def fs_path_set_child_def path_set_parent_def fs_path_set_parent_def)
  ultimately show ?thesis by blast
qed

theorem path_child_parent_witness:
  "fs_path_set_parent (fs_path_set_child ''/root/src'' ''lib'') = ''/root/src''"
  using path_child_parent [of "''/root/src''" "''lib''" "''x''" "''y''"]
  by (simp add: component_def printable_def)

section \<open>Resolution is a walk through directories\<close>

text \<open>The contents of a directory as the cleared scratch window holds them.\<close>

definition tmp_view :: "fs \<Rightarrow> nat \<Rightarrow> mem8" where
  "tmp_view f b = (\<lambda>i. if i < BSIZE then disk f b i else 0)"

definition dir_child :: "fs \<Rightarrow> nat \<Rightarrow> string \<Rightarrow> nat option" where
  "dir_child f b name =
     (if b \<ge> FS_MAX_BLOCKS \<or> db_magic (tmp_view f b) \<noteq> FS_MAGIC then None
      else map_option (e_bno (tmp_view f b)) (find_entry_index (tmp_view f b) name 1))"

fun walk :: "fs \<Rightarrow> nat \<Rightarrow> string list \<Rightarrow> nat option" where
  "walk f b [] = Some b"
| "walk f b (s # ss) = (case dir_child f b s of None \<Rightarrow> None | Some c \<Rightarrow> walk f c ss)"

fun path_join :: "string list \<Rightarrow> string" where
  "path_join [] = []"
| "path_join [s] = s"
| "path_join (s # t # ss) = s @ ''/'' @ path_join (t # ss)"

definition plain_component :: "string \<Rightarrow> bool" where
  "plain_component s \<longleftrightarrow> component s \<and> s \<noteq> ''.'' \<and> s \<noteq> ''..''"

lemma tmp_dir_eq:
  assumes "fs_alloc_ready f" "b < 512"
  shows "tmp_dir f b cwd = Some (if db_magic (tmp_view f b) \<noteq> FS_MAGIC then None else Some (tmp_view f b))"
  using assms by (simp add: tmp_dir_def load_current_dir_def fs_ready_def disk_read_def tmp_window_def
      tmp_view_def Let_def)

lemma mem_streq_char: "mem_streq m p s \<Longrightarrow> k < length s \<Longrightarrow> m (p + k) = c2b (s ! k) \<and> s ! k \<noteq> NUL"
proof (induction s arbitrary: p k)
  case (Cons c s)
  then show ?case using Cons.IH [of "p + 1" "k - 1"] by (cases k) auto
qed simp

lemma mem_streq_end: "mem_streq m p s \<Longrightarrow> m (p + length s) = 0"
proof (induction s arbitrary: p)
  case (Cons c s)
  then show ?case using Cons.IH [of "p + 1"] by simp
qed simp

lemma bytes_at_append: "bytes_at m p (a + b) = bytes_at m p a @ bytes_at m (p + a) b"
  by (rule nth_equalityI) (auto simp: nth_append)

lemma mem_str_eq:
  assumes "mem_streq m p s" "length s \<le> n"
  shows "mem_str m p n = s"
proof -
  have pre: "bytes_at m p (length s) = map c2b s"
    by (rule nth_equalityI) (use mem_streq_char [OF assms(1)] in auto)
  have "bytes_at m p n = map c2b s @ bytes_at m (p + length s) (n - length s)"
    unfolding pre [symmetric] using assms(2) by (simp flip: bytes_at_append)
  moreover have "\<forall>b \<in> set (map c2b s). b \<noteq> 0"
    using mem_streq_char [OF assms(1)] by (auto simp: in_set_conv_nth)
  moreover have "takeWhile (\<lambda>b. b \<noteq> 0) (bytes_at m (p + length s) k) = []" for k
    using mem_streq_end [OF assms(1)] by (cases k) (simp_all add: bytes_at_def upt_conv_Cons del: upt_Suc)
  ultimately have "takeWhile (\<lambda>b. b \<noteq> 0) (bytes_at m p n) = map c2b s"
    using takeWhile_append2 [of "map c2b s" "\<lambda>b. b \<noteq> 0" "bytes_at m (p + length s) (n - length s)"]
    by fastforce
  then show ?thesis by (simp add: mem_str_def comp_def)
qed

lemma find_entry_Some:
  "find_entry_index m name tf = Some i \<Longrightarrow> i < 120 \<and> \<not> e_free m i \<and>
    (tf = -1 \<or> uint (e_type m i) = tf) \<and> mem_streq m (entry_off i) name"
  unfolding find_entry_index_def by (drule find_upt_Some) simp

lemma seg_of_join:
  assumes "plain_component s"
  shows "takeWhile (\<lambda>c. c \<noteq> CHR ''/'') (s @ ''/'' @ r) = s" "takeWhile (\<lambda>c. c \<noteq> CHR ''/'') s = s"
    "s \<noteq> []" "length s \<le> 19" "hd s \<noteq> CHR ''/''"
proof -
  have a: "\<forall>c \<in> set s. c \<noteq> CHR ''/''" and "s \<noteq> []" "length s \<le> 19"
    using assms by (auto simp: plain_component_def component_def)
  then show "s \<noteq> []" "length s \<le> 19" "hd s \<noteq> CHR ''/''" by auto
  show "takeWhile (\<lambda>c. c \<noteq> CHR ''/'') (s @ ''/'' @ r) = s" using a by (simp add: takeWhile_append2)
  show "takeWhile (\<lambda>c. c \<noteq> CHR ''/'') s = s" using a by (simp add: takeWhile_eq_all_conv)
qed

lemma skip_join: "plain_component s \<Longrightarrow> skip_slashes (path_join (s # ss)) = path_join (s # ss)"
  using seg_of_join(3,5) [of s] by (cases ss; cases s) (auto simp: skip_slashes_def)

lemma join_nonempty: "plain_component s \<Longrightarrow> path_join (s # ss) \<noteq> []"
  using seg_of_join(3) [of s] by (cases ss) auto

lemma set_child_length: "component n \<Longrightarrow> length (fs_path_set_child cwd n) \<le> length cwd + 1 + length n"
  using takeWhile_printable [of n]
  by (auto simp: fs_path_set_child_def Let_def lib_strcat_def lib_strncat_def)

lemma fs_path_nonempty: "cwd \<noteq> [] \<Longrightarrow> fs_path_set_child cwd n \<noteq> []"
  by (auto simp: fs_path_set_child_def Let_def lib_strcat_def lib_strncat_def)

lemma expand_plain:
  assumes "p \<noteq> []" "hd p \<noteq> CHR ''~''"
  shows "terminal_expand_home_path w p n = take (n - 1) p"
proof -
  have "char_at p 0 = hd p" using assms(1) by (cases p) auto
  then show ?thesis using assms(2)
    by (cases "n = 0") (simp_all add: terminal_expand_home_path_def Let_def)
qed

lemma resolve_loop_leaf:
  assumes "p \<noteq> []" "takeWhile (\<lambda>c. c \<noteq> CHR ''/'') p = seg" "skip_slashes (drop (length seg) p) = []"
    "length seg \<le> 19" "seg \<noteq> []" "seg \<noteq> ''.''" "seg \<noteq> ''..''" "length (cwd_or_root cwd) < cap"
  shows "resolve_loop cap whole f b cwd p = Some (Some (bno_or_root b, cwd_or_root cwd, copy_name20 seg), f)"
proof -
  have c: "(p = []) = False" "(length seg > 19) = False" "(seg = [] \<or> seg = ''.'') = False"
    "(seg = ''..'') = False" using assms by simp_all
  have f: "fits cap (cwd_or_root cwd) = Some (cwd_or_root cwd)" using assms(8) by (simp add: fits_def)
  show ?thesis
    by (subst resolve_loop.simps)
      (simp only: Let_def c if_False assms(2,3) f option.map refl if_True)
qed

lemma resolve_loop_enter:
  assumes "p \<noteq> []" "takeWhile (\<lambda>c. c \<noteq> CHR ''/'') p = seg" "skip_slashes (drop (length seg) p) = rest"
    "length seg \<le> 19" "seg \<noteq> []" "seg \<noteq> ''.''" "seg \<noteq> ''..''" "rest \<noteq> []"
    "tmp_dir f b cwd = Some (Some m)" "find_entry_index m seg 1 = Some idx"
    "length (fs_path_set_child cwd (e_name m idx)) < 128"
  shows "resolve_loop cap whole f b cwd p =
    resolve_loop cap whole (fs_ready f) (e_bno m idx) (fs_path_set_child cwd (e_name m idx)) rest"
proof -
  have c: "(p = []) = False" "(length seg > 19) = False" "(seg = [] \<or> seg = ''.'') = False"
    "(seg = ''..'') = False" "(rest = []) = False" using assms by simp_all
  have f: "fits 128 (fs_path_set_child cwd (e_name m idx)) = Some (fs_path_set_child cwd (e_name m idx))"
    using assms(11) by (simp add: fits_def)
  show ?thesis
    by (subst resolve_loop.simps)
      (simp only: Let_def c if_False assms(2,3,9,10) f option.case)
qed

lemma resolve_loop_walk:
  assumes "fs_alloc_ready f" "walk f b dirs = Some b'" "\<forall>s \<in> set dirs. plain_component s"
    "plain_component leaf" "length cwd + length (path_join (dirs @ [leaf])) < 128"
    "length cwd + length (path_join (dirs @ [leaf])) < cap" "cwd \<noteq> []"
  shows "resolve_loop cap whole f b cwd (path_join (dirs @ [leaf])) =
    Some (Some (bno_or_root b', foldl fs_path_set_child cwd dirs, leaf), f)"
  using assms
proof (induction dirs arbitrary: b cwd)
  case Nil
  note s = seg_of_join [OF Nil.prems(4)]
  have "leaf \<noteq> ''.''" "leaf \<noteq> ''..''" using Nil.prems(4) by (auto simp: plain_component_def)
  moreover have "cwd_or_root cwd = cwd" "copy_name20 leaf = leaf"
    using Nil.prems(7) s(4) by (simp_all add: cwd_or_root_def copy_name20_def)
  moreover have "length cwd < cap" using Nil.prems(6) by simp
  ultimately show ?case using resolve_loop_leaf [of leaf leaf cwd cap whole f b] s Nil.prems(2)
    by (simp add: skip_slashes_def)
next
  case (Cons d ds)
  have d: "plain_component d" using Cons.prems(3) by simp
  note s = seg_of_join [OF d]
  obtain t ts where tl: "ds @ [leaf] = t # ts" by (cases ds) auto
  have t: "plain_component t" using tl Cons.prems(3,4) by (cases ds) auto
  let ?rest = "path_join (ds @ [leaf])"
  have j: "path_join ((d # ds) @ [leaf]) = d @ ''/'' @ ?rest" by (simp add: tl)
  have sk: "skip_slashes (''/'' @ ?rest) = ?rest"
    using skip_join [OF t, of ts] by (simp add: tl skip_slashes_def)
  have ne: "?rest \<noteq> []" using join_nonempty [OF t, of ts] by (simp add: tl)
  have nd: "d \<noteq> ''.''" "d \<noteq> ''..''" "component d" using d by (auto simp: plain_component_def)
  obtain c where c: "dir_child f b d = Some c" "walk f c ds = Some b'"
    using Cons.prems(2) by (auto split: option.splits)
  let ?m = "tmp_view f b"
  obtain idx where i: "b < 512" "db_magic ?m = 0x58504653" "find_entry_index ?m d 1 = Some idx"
    "e_bno ?m idx = c" using c(1) by (auto simp: dir_child_def split: if_splits)
  have "mem_streq ?m (entry_off idx) d" using find_entry_Some [OF i(3)] by simp
  then have nm: "e_name ?m idx = d" using mem_str_eq [of ?m _ d 19] s(4) by (simp add: e_name_def)
  have len: "length (fs_path_set_child cwd d) + length ?rest < 128"
    "length (fs_path_set_child cwd d) + length ?rest < cap"
    using set_child_length [OF nd(3), of cwd] Cons.prems(5,6) j by auto
  have IH: "resolve_loop cap whole f c (fs_path_set_child cwd d) ?rest =
      Some (Some (bno_or_root b', foldl fs_path_set_child (fs_path_set_child cwd d) ds, leaf), f)"
    by (rule Cons.IH) (use Cons.prems c len fs_path_nonempty in auto)
  have td: "tmp_dir f b cwd = Some (Some ?m)"
    using tmp_dir_eq [OF Cons.prems(1) i(1)] i(2) by simp
  have r: "fs_ready f = f" using Cons.prems(1) by (simp add: fs_ready_def)
  have "resolve_loop cap whole f b cwd (d @ ''/'' @ ?rest) =
      resolve_loop cap whole f c (fs_path_set_child cwd d) ?rest"
  proof -
    have "resolve_loop cap whole f b cwd (d @ ''/'' @ ?rest) = resolve_loop cap whole (fs_ready f)
        (e_bno ?m idx) (fs_path_set_child cwd (e_name ?m idx)) ?rest"
    proof (rule resolve_loop_enter [OF _ s(1) _ s(4,3) nd(1,2) ne td i(3)])
      show "skip_slashes (drop (length d) (d @ ''/'' @ ?rest)) = ?rest" using sk by simp
      show "length (fs_path_set_child cwd (e_name ?m idx)) < 128" using len(1) nm by simp
    qed simp
    then show ?thesis by (simp only: r i(4) nm)
  qed
  then show ?case using IH j by simp
qed

text \<open>
  C32: Resolving a relative path \<open>d1/.../dn/leaf\<close> of ordinary components is a walk through the
  directories: if each \<open>d\<close> names a directory entry of the one before, starting at the current
  directory, the result is the block of the last one, the path text extended by the names, and
  the leaf; the file system is unchanged. (The path is shorter than the 64-byte buffer, the
  result fits the callers' buffers, and does not start with \<open>root/\<close>, which the code takes as the
  root directory.)
\<close>

theorem resolve_is_walk:
  assumes "fs_alloc_ready f" "walk f (bno_or_root (win_cwd_bno w)) dirs = Some b"
    "\<forall>s \<in> set dirs. plain_component s" "plain_component leaf"
    "length (path_join (dirs @ [leaf])) < 64"
    "hd (path_join (dirs @ [leaf])) \<noteq> CHR ''~''" "\<not> is_blank (hd (path_join (dirs @ [leaf])))"
    "strncmp (path_join (dirs @ [leaf])) ''root/'' 5 \<noteq> 0" "strcmp (path_join (dirs @ [leaf])) ''root'' \<noteq> 0"
    "length (cwd_or_root (win_cwd w)) + length (path_join (dirs @ [leaf])) < min cap 128"
  shows "resolve_fs_target cap f w (path_join (dirs @ [leaf])) =
    Some (Some (bno_or_root b, foldl fs_path_set_child (cwd_or_root (win_cwd w)) dirs, leaf), f)"
proof -
  let ?p = "path_join (dirs @ [leaf])"
  obtain t ts where tl: "dirs @ [leaf] = t # ts" by (cases dirs) auto
  have t: "plain_component t" using tl assms(3,4) by (cases dirs) auto
  have ne: "?p \<noteq> []" using join_nonempty [OF t, of ts] by (simp add: tl)
  have sk: "skip_slashes ?p = ?p" using skip_join [OF t, of ts] by (simp add: tl)
  then have h: "hd ?p \<noteq> CHR ''/''" using ne
    using hd_dropWhile [of "\<lambda>c. c = CHR ''/''" ?p] unfolding skip_slashes_def by simp
  have whole: "terminal_expand_home_path (shell_win.truncate w) ?p 64 = ?p"
    using expand_plain [OF ne assms(6), of "shell_win.truncate w" 64] assms(5) by simp
  have bl: "dropWhile is_blank ?p = ?p" using assms(7) ne by (cases ?p) auto
  have "resolve_loop cap ?p f (bno_or_root (win_cwd_bno w)) (cwd_or_root (win_cwd w)) ?p =
    Some (Some (bno_or_root b, foldl fs_path_set_child (cwd_or_root (win_cwd w)) dirs, leaf), f)"
    by (rule resolve_loop_walk) (use assms in \<open>auto simp: cwd_or_root_def\<close>)
  moreover have "(?p = []) = False" "(hd ?p = CHR ''/'') = False"
    "(strncmp ?p ''root/'' 5 = 0) = False" "(strcmp ?p ''root'' = 0) = False"
    using ne h assms(8,9) by simp_all
  ultimately show ?thesis
    by (simp only: resolve_fs_target_def Let_def whole bl if_False prod.case sk)
qed

theorem resolve_is_walk_witness:
  "resolve_fs_target 32 fresh_fs (tmp_window 1 ''/root'') ''notes.txt'' =
    Some (Some (1, ''/root'', ''notes.txt''), fresh_fs)"
proof -
  have "fs_alloc_ready fresh_fs" using fresh_fs_inv by (simp add: map_inv_def)
  from resolve_is_walk [OF this, of "tmp_window 1 ''/root''" "[]" 1 "''notes.txt''" 32] show ?thesis
    by (simp add: tmp_window_def bno_or_root_def cwd_or_root_def plain_component_def component_def
        printable_def is_blank_def numeral_eq_Suc Let_def)
qed

end
