(* ===== verification/FsFile.thy ===== *)
theory FsFile
  imports FsPath Alloc
begin

text \<open>
  Files of \<open>vibeos/fs.c\<close>: storing and loading their bytes, removing and moving directory
  entries, formatting; \<open>local_path_info\<close> and \<open>local_mkdir_path\<close> of \<open>vibeos/user_fs_shell.c\<close> and
  \<open>load_file_entry_prefix\<close> of \<open>vibeos/user_editor.c\<close>. Results are the C return codes;
  \<open>None\<close> stands for a panic of the disk driver, a chain that is freed forever, or a write
  outside a buffer.
\<close>

section \<open>Writing files\<close>

text \<open>A write of a block number that \<open>balloc\<close> returned, which is always on the disk.\<close>

definition disk_put :: "fs \<Rightarrow> nat \<Rightarrow> mem8 \<Rightarrow> fs" where
  "disk_put f b m = f\<lparr>disk := (disk f)(b := (\<lambda>i. if i < BSIZE then m i else 0))\<rparr>"

definition data_block :: "u8 list \<Rightarrow> mem8" where
  "data_block chunk = mem_copy (put32 (put32 zero_block 0 FS_DATA_MAGIC) 4 0) 8 chunk"

text \<open>Linking the previous block to the new one: read, set \<open>next_bno\<close>, write.\<close>

definition link_block :: "fs \<Rightarrow> nat \<Rightarrow> nat \<Rightarrow> fs" where
  "link_block f prev b = disk_put f prev (put32 (disk f prev) 4 (of_nat b))"

text \<open>
  The block loop of \<open>store_file_bytes\<close>: the first block of the chain, or \<open>None\<close> when the disk is
  full (the blocks written so far stay allocated).
\<close>

function store_blocks :: "fs \<Rightarrow> u8 list \<Rightarrow> nat \<Rightarrow> nat \<Rightarrow> nat \<Rightarrow> nat option \<times> fs" where
  "store_blocks f data written first prev =
     (if written < length data then
        case balloc f of (b, f) \<Rightarrow>
          if b = 0 then (None, f)
          else let chunk = min (length data - written) FS_DATA_PAYLOAD;
                   f = disk_put f b (data_block (take chunk (drop written data)))
               in if prev \<noteq> 0 then store_blocks (link_block f prev b) data (written + chunk) first b
                  else store_blocks f data (written + chunk) b b
      else (Some first, f))"
  by pat_completeness auto
termination by (relation "measure (\<lambda>(f, data, written, first, prev). length data - written)") auto

declare store_blocks.simps [simp del]

definition store_empty :: "fs \<Rightarrow> nat option \<times> fs" where
  "store_empty f = (case balloc f of (b, f) \<Rightarrow>
     if b = 0 then (None, f) else (Some b, disk_put f b (data_block [])))"

definition write_entry :: "mem8 \<Rightarrow> nat \<Rightarrow> string \<Rightarrow> nat \<Rightarrow> nat \<Rightarrow> u32 \<Rightarrow> u32 \<Rightarrow> mem8" where
  "write_entry m idx leaf first sz created_at now_t =
     (let p = entry_off idx;
          m = put_name20 m p leaf;
          m = put32 m (p + 20) (of_nat first);
          m = put32 m (p + 24) (of_nat sz);
          m = put32 m (p + 28) created_at;
          m = put32 m (p + 32) now_t;
          m = put16 m (p + 38) 0
      in put16 m (p + 36) 7)"

definition needs_resolve :: "string \<Rightarrow> bool" where
  "needs_resolve name \<longleftrightarrow> strchr name (CHR ''/'') \<noteq> None \<or> char_at name 0 = CHR ''~''"

text \<open>The directory and leaf a file name refers to; \<open>cap\<close> is the size of the caller's \<open>cwd_buf\<close>.\<close>

definition name_target :: "nat \<Rightarrow> fs \<Rightarrow> fs_win \<Rightarrow> string \<Rightarrow> ((nat \<times> string) option \<times> fs) option" where
  "name_target cap f w name =
     (if needs_resolve name then
        map_option (\<lambda>(r, f). (map_option (\<lambda>(b, c, leaf). (bno_or_root b, leaf)) r, f))
          (resolve_fs_target cap f w name)
      else Some (Some (bno_or_root (win_cwd_bno w), name), f))"

definition store_file_bytes :: "fs \<Rightarrow> fs_win \<Rightarrow> string \<Rightarrow> u8 list \<Rightarrow> (int \<times> fs) option" where
  "store_file_bytes f w name data =
     (case name_target 128 f w name of
        None \<Rightarrow> None
      | Some (None, f) \<Rightarrow> Some (-1, f)
      | Some (Some (dir_bno, leaf), f) \<Rightarrow>
        (case read_stack_blk f dir_bno of
           None \<Rightarrow> None
         | Some db \<Rightarrow>
           if db_magic db \<noteq> FS_MAGIC then Some (-1, f)
           else let found = find_entry_index db leaf (-1) in
             if found \<noteq> None \<and> e_type db (the found) = 1 then Some (-3, f)
             else case (case found of Some i \<Rightarrow> Some i | None \<Rightarrow> find_free_entry_index db) of
                 None \<Rightarrow> Some (-2, f)
               | Some idx \<Rightarrow>
                 let old_bno = (if found \<noteq> None then e_bno db idx else 0);
                     created_at = (if found \<noteq> None then e_ctime db idx else fs_now f)
                 in case (if data = [] then store_empty f else store_blocks f data 0 0 0) of
                     (None, f) \<Rightarrow> Some (-4, f)
                   | (Some first, f) \<Rightarrow>
                     if \<not> entry_in_block idx then None
                     else let f = disk_put f dir_bno
                                (write_entry db idx leaf first (length data) created_at (fs_now f))
                          in if old_bno \<noteq> 0 then map_option (\<lambda>f. (0, f)) (fs_free_chain f old_bno)
                             else Some (0, f)))"

section \<open>Reading files\<close>

function load_blocks :: "fs \<Rightarrow> nat \<Rightarrow> nat \<Rightarrow> u8 list \<Rightarrow> u8 list option" where
  "load_blocks f remaining bno acc =
     (if remaining > 0 \<and> bno \<noteq> 0 then
        if bno \<ge> FS_MAX_BLOCKS then None
        else let m = disk f bno in
          if le32 m 0 = FS_DATA_MAGIC then
            let chunk = min remaining FS_DATA_PAYLOAD
            in load_blocks f (remaining - chunk) (unat (le32 m 4)) (acc @ bytes_at m 8 chunk)
          else let chunk = min remaining BSIZE
            in load_blocks f (remaining - chunk) 0 (acc @ bytes_at m 0 chunk)
      else Some acc)"
  by pat_completeness auto
termination by (relation "measure (\<lambda>(f, remaining, bno, acc). remaining)") auto

declare load_blocks.simps [simp del]

text \<open>
  The directory that a name to be read is looked up in, and the window after the lookup: a
  plain name uses the window's own block buffer, a path the scratch window.
\<close>

definition open_dir :: "fs \<Rightarrow> fs_win \<Rightarrow> string \<Rightarrow> ((mem8 \<times> string) option \<times> fs_win \<times> fs) option" where
  "open_dir f w name =
     (if needs_resolve name then
        case resolve_fs_target 32 f w name of
          None \<Rightarrow> None
        | Some (None, f) \<Rightarrow> Some (None, w, f)
        | Some (Some (b, c, leaf), f) \<Rightarrow>
            map_option (\<lambda>(m, _, f). (map_option (\<lambda>m. (m, leaf)) m, w, f))
              (load_current_dir f (tmp_window (bno_or_root b) (cwd_or_root c)))
      else map_option (\<lambda>(m, w, f). (map_option (\<lambda>m. (m, name)) m, w, f)) (load_current_dir f w))"

definition load_file_bytes :: "fs \<Rightarrow> fs_win \<Rightarrow> string \<Rightarrow> nat \<Rightarrow> ((int \<times> u8 list) \<times> fs_win \<times> fs) option" where
  "load_file_bytes f w name max_size =
     (case open_dir f w name of
        None \<Rightarrow> None
      | Some (None, w, f) \<Rightarrow> Some ((-1, []), w, f)
      | Some (Some (db, leaf), w, f) \<Rightarrow>
        (case find_entry_index db leaf 0 of
           None \<Rightarrow> Some ((-2, []), w, f)
         | Some idx \<Rightarrow>
           if e_size db idx > max_size then Some ((-3, []), w, f)
           else if e_bno db idx = 0 then Some ((0, []), w, f)
           else map_option (\<lambda>bs. ((0, bs), w, f)) (load_blocks f (e_size db idx) (e_bno db idx) [])))"

text \<open>
  \<open>load_file_bytes_alloc\<close> takes its buffer from the kernel heap; the third component is the
  buffer the caller gets (address and bytes).
\<close>

definition load_file_bytes_alloc ::
    "fs \<Rightarrow> heap \<Rightarrow> fs_win \<Rightarrow> string \<Rightarrow> ((int \<times> (u32 \<times> u8 list) option) \<times> fs_win \<times> fs \<times> heap) option" where
  "load_file_bytes_alloc f h w name =
     (case open_dir f w name of
        None \<Rightarrow> None
      | Some (None, w, f) \<Rightarrow> Some ((-1, None), w, f, h)
      | Some (Some (db, leaf), w, f) \<Rightarrow>
        (case find_entry_index db leaf 0 of
           None \<Rightarrow> Some ((-2, None), w, f, h)
         | Some idx \<Rightarrow>
           let sz = e_size db idx;
               (buf, h) = malloc h (if sz = 0 then 1 else of_nat sz)
           in if buf = 0 then Some ((-4, None), w, f, h)
              else if e_bno db idx = 0 then Some ((0, Some (buf, [])), w, f, h)
              else map_option (\<lambda>bs. if length bs \<noteq> sz then ((-5, None), w, f, free h buf)
                                    else ((0, Some (buf, bs)), w, f, h))
                     (load_blocks f sz (e_bno db idx) [])))"

definition load_file_entry_prefix :: "fs \<Rightarrow> nat \<Rightarrow> nat \<Rightarrow> nat \<Rightarrow> (int \<times> u8 list) option" where
  "load_file_entry_prefix f entry_size entry_bno max_size =
     map_option (\<lambda>bs. (if entry_size > length bs then 1 else 0, bs))
       (load_blocks f (min entry_size max_size) entry_bno [])"

section \<open>Removing, moving, formatting\<close>

definition remove_entry_named :: "fs \<Rightarrow> fs_win \<Rightarrow> string \<Rightarrow> (int \<times> fs_win \<times> fs) option" where
  "remove_entry_named f w name =
     (case load_current_dir f w of
        None \<Rightarrow> None
      | Some (None, w, f) \<Rightarrow> Some (-1, w, f)
      | Some (Some db, w, f) \<Rightarrow>
        (case find_entry_index db name (-1) of
           None \<Rightarrow> Some (-2, w, f)
         | Some idx \<Rightarrow>
           let typ = e_type db idx; bno = e_bno db idx in
           case (if typ = 1 then dir_block_is_empty f bno else Some True) of
             None \<Rightarrow> None
           | Some False \<Rightarrow> Some (-3, w, f)
           | Some True \<Rightarrow>
             let m = mem_fill db (entry_off idx) 40 0;
                 w = w\<lparr>win_local_b := m\<rparr>
             in case disk_write f (win_cwd_bno w) m of
                  None \<Rightarrow> None
                | Some f \<Rightarrow>
                  if typ = 1 then Some (0, w, if bno \<noteq> 0 then bfree f bno else f)
                  else if bno \<noteq> 0 then map_option (\<lambda>f. (0, w, f)) (fs_free_chain f bno)
                  else Some (0, w, f)))"

definition skip_spaces :: "string \<Rightarrow> string" where
  "skip_spaces s = dropWhile (\<lambda>c. c = CHR '' '') s"

text \<open>Copying an entry, and giving it a new name and time.\<close>

definition put_entry :: "mem8 \<Rightarrow> nat \<Rightarrow> u8 list \<Rightarrow> mem8" where
  "put_entry m idx e = mem_copy m (entry_off idx) e"

definition rename_entry :: "mem8 \<Rightarrow> nat \<Rightarrow> string \<Rightarrow> u32 \<Rightarrow> mem8" where
  "rename_entry m idx leaf now_t = put32 (put_name20 m (entry_off idx) leaf) (entry_off idx + 32) now_t"

text \<open>The last part of \<open>move_entry_named\<close>: the entry goes from one directory block to another.\<close>

definition move_across :: "fs \<Rightarrow> nat \<Rightarrow> mem8 \<Rightarrow> nat \<Rightarrow> nat \<Rightarrow> mem8 \<Rightarrow> string \<Rightarrow> (int \<times> fs) option" where
  "move_across f src_bno src_db src_idx dst_bno dst_db dst_leaf =
     (case find_free_entry_index dst_db of
        None \<Rightarrow> Some (-5, f)
      | Some di \<Rightarrow>
        if \<not> entry_in_block di \<or> \<not> entry_in_block src_idx then None
        else let e = bytes_at src_db (entry_off src_idx) 40;
                 dst' = rename_entry (put_entry dst_db di e) di dst_leaf (fs_now f);
                 src' = mem_fill src_db (entry_off src_idx) 40 0
             in case disk_write f src_bno src' of None \<Rightarrow> None | Some f \<Rightarrow>
                case disk_write f dst_bno dst' of None \<Rightarrow> None | Some f \<Rightarrow>
                if e_type src_db src_idx = 1 \<and> e_bno src_db src_idx \<noteq> 0 then
                  (case fs_load_dir_block f (e_bno src_db src_idx) of
                     None \<Rightarrow> None
                   | Some None \<Rightarrow> Some (0, f)
                   | Some (Some child) \<Rightarrow>
                       map_option (\<lambda>f. (0, f))
                         (disk_write f (e_bno src_db src_idx) (put32 child 4 (of_nat dst_bno))))
                else Some (0, f))"

definition move_finish :: "fs \<Rightarrow> nat \<Rightarrow> mem8 \<Rightarrow> nat \<Rightarrow> nat \<Rightarrow> mem8 \<Rightarrow> nat option \<Rightarrow> string \<Rightarrow> (int \<times> fs) option" where
  "move_finish f src_bno src_db src_idx dst_bno dst_db dst_idx dst_leaf =
     (if src_bno = dst_bno then
        if dst_idx \<noteq> None \<and> dst_idx \<noteq> Some src_idx then Some (-4, f)
        else if \<not> entry_in_block src_idx then None
        else map_option (\<lambda>f. (0, f)) (disk_write f src_bno (rename_entry src_db src_idx dst_leaf (fs_now f)))
      else if dst_idx \<noteq> None then Some (-4, f)
      else move_across f src_bno src_db src_idx dst_bno dst_db dst_leaf)"

definition move_entry_named :: "fs \<Rightarrow> fs_win \<Rightarrow> string \<Rightarrow> string \<Rightarrow> (int \<times> fs) option" where
  "move_entry_named f w src_input dst_input =
     (let src_input = skip_spaces src_input; dst_input = skip_spaces dst_input in
      if src_input = [] \<or> dst_input = [] then Some (-1, f)
      else case resolve_fs_target 32 f w src_input of
        None \<Rightarrow> None
      | Some (None, f) \<Rightarrow> Some (-1, f)
      | Some (Some (src_bno, _, src_leaf), f) \<Rightarrow>
        (case resolve_fs_target 32 f w dst_input of
           None \<Rightarrow> None
         | Some (None, f) \<Rightarrow> Some (-1, f)
         | Some (Some (dst_bno, _, dst_leaf), f) \<Rightarrow>
           if src_bno = dst_bno \<and> strcmp src_leaf dst_leaf = 0 then Some (0, f)
           else case fs_load_dir_block f src_bno of
             None \<Rightarrow> None
           | Some None \<Rightarrow> Some (-2, f)
           | Some (Some src_db) \<Rightarrow>
             (case find_entry_index src_db src_leaf (-1) of
                None \<Rightarrow> Some (-3, f)
              | Some src_idx \<Rightarrow>
                (case fs_load_dir_block f dst_bno of
                   None \<Rightarrow> None
                 | Some None \<Rightarrow> Some (-2, f)
                 | Some (Some dst_db) \<Rightarrow>
                   (let dst_idx = find_entry_index dst_db dst_leaf (-1) in
                    if dst_idx \<noteq> None \<and> e_type dst_db (the dst_idx) = 1 then
                      let ex = e_bno dst_db (the dst_idx) in
                      if e_type src_db src_idx = 1 \<and> fs_dir_is_ancestor f (e_bno src_db src_idx) ex
                      then Some (-6, f)
                      else case fs_load_dir_block f ex of
                          None \<Rightarrow> None
                        | Some None \<Rightarrow> Some (-2, f)
                        | Some (Some db2) \<Rightarrow>
                            move_finish f src_bno src_db src_idx ex db2
                              (find_entry_index db2 (copy_name20 src_leaf) (-1)) (copy_name20 src_leaf)
                    else move_finish f src_bno src_db src_idx dst_bno dst_db dst_idx dst_leaf)))))"

text \<open>Formatting writes an empty root directory and sends every active window back to it.\<close>

definition fs_reset_window_cwd :: "fs_win \<Rightarrow> fs_win" where
  "fs_reset_window_cwd w = w\<lparr>win_cwd_bno := 1, win_cwd := ''/root'',
     win_local_b := (\<lambda>i. if i < BSIZE then 0 else win_local_b w i)\<rparr>"

definition sync_pwd :: "fs_win \<Rightarrow> fs_win" where
  "sync_pwd w = w\<lparr>win_env := win_env (terminal_env_sync_pwd (shell_win.truncate w))\<rparr>"

definition fs_format_root :: "fs \<Rightarrow> fs_win \<Rightarrow> (bool \<times> fs_win) list \<Rightarrow> fs \<times> fs_win \<times> (bool \<times> fs_win) list" where
  "fs_format_root f owner wins =
     (let m = put32 (put32 (\<lambda>i. if i < BSIZE then 0 else win_local_b owner i) 0 FS_MAGIC) 4 1;
          f = disk_put f 1 m;
          f = f\<lparr>fs_block_map := (\<lambda>i. if i < FS_MAX_BLOCKS div 8 then 0 else fs_block_map f i)\<rparr>;
          f = foldl fs_block_set_used f [0 ..< 60];
          f = f\<lparr>next_free_block := 60, fs_alloc_ready := True\<rparr>
      in (f, owner\<lparr>win_local_b := m\<rparr>,
          map (\<lambda>(active, w). if \<not> active then (active, w)
                             else (active, sync_pwd (fs_reset_window_cwd w))) wins))"

definition local_path_info :: "fs \<Rightarrow> fs_win \<Rightarrow> string \<Rightarrow> ((int \<times> nat \<times> string) option \<times> fs) option" where
  "local_path_info f w path =
     (case resolve_fs_target 128 f w path of
        None \<Rightarrow> None
      | Some (None, f) \<Rightarrow> Some (None, f)
      | Some (Some (b, c, leaf), f) \<Rightarrow>
        if leaf = [] \<or> strcmp leaf ''.'' = 0
        then Some (Some (1, bno_or_root b, copy_name20 (path_basename c)), f)
        else case load_current_dir f (tmp_window (bno_or_root b) []) of
            None \<Rightarrow> None
          | Some (None, _, f) \<Rightarrow> Some (None, f)
          | Some (Some db, _, f) \<Rightarrow>
              Some (map_option (\<lambda>i. (uint (e_type db i), e_bno db i, e_name db i))
                      (find_entry_index db leaf (-1)), f))"

text \<open>The entry and the block of a new directory.\<close>

definition write_dir_entry :: "mem8 \<Rightarrow> nat \<Rightarrow> string \<Rightarrow> nat \<Rightarrow> u32 \<Rightarrow> mem8" where
  "write_dir_entry m idx leaf nb now_t =
     (let p = entry_off idx;
          m = mem_fill m p 40 0;
          m = put_name20 m p leaf;
          m = put32 m (p + 20) (of_nat nb);
          m = put16 m (p + 38) 1;
          m = put16 m (p + 36) 7;
          m = put32 m (p + 32) now_t
      in put32 m (p + 28) now_t)"

definition new_dir_block :: "nat \<Rightarrow> mem8" where
  "new_dir_block parent = put32 (put32 zero_block 0 FS_MAGIC) 4 (of_nat parent)"

definition local_mkdir_path :: "fs \<Rightarrow> fs_win \<Rightarrow> string \<Rightarrow> (int \<times> fs) option" where
  "local_mkdir_path f w path =
     (if path = [] then Some (-1, f)
      else let expanded = terminal_expand_home_path (shell_win.truncate w) path 128 in
      if strcmp expanded ''.'' = 0 \<or> strcmp expanded ''./'' = 0 then Some (0, f)
      else case resolve_editor_target 128 f w expanded of
        None \<Rightarrow> None
      | Some (None, f) \<Rightarrow> Some (-1, f)
      | Some (Some (b, _, leaf), f) \<Rightarrow>
        if leaf = [] then Some (-1, f)
        else case load_current_dir f (tmp_window (bno_or_root b) []) of
            None \<Rightarrow> None
          | Some (None, _, f) \<Rightarrow> Some (-1, f)
          | Some (Some db, _, f) \<Rightarrow>
              if find_entry_index db leaf (-1) \<noteq> None then Some (0, f)
              else case find_free_entry_index db of
                  None \<Rightarrow> Some (-1, f)
                | Some idx \<Rightarrow>
                  (case balloc f of (nb, f) \<Rightarrow>
                     if nb = 0 then Some (-1, f)
                     else case disk_write f (bno_or_root b) (write_dir_entry db idx leaf nb (fs_now f)) of
                         None \<Rightarrow> None
                       | Some f \<Rightarrow> Some (0, disk_put f nb (new_dir_block (bno_or_root b)))))"

section \<open>What the block loop writes\<close>

definition cut_block :: "mem8 \<Rightarrow> mem8" where
  "cut_block m = (\<lambda>i. if i < BSIZE then m i else 0)"

lemma cut_le32 [simp]: "i + 4 \<le> 4096 \<Longrightarrow> le32 (cut_block m) i = le32 m i"
  by (rule le32_cong) (simp add: cut_block_def)

lemma cut_bytes_at [simp]: "i + n \<le> 4096 \<Longrightarrow> bytes_at (cut_block m) i n = bytes_at m i n"
  by (rule bytes_at_cong) (simp add: cut_block_def)

lemma disk_put_simps [simp]:
  "disk (disk_put f b m) = (disk f)(b := cut_block m)"
  "fs_block_is_used (disk_put f b m) = fs_block_is_used f" "map_inv (disk_put f b m) = map_inv f"
  "fs_now (disk_put f b m) = fs_now f" "behind (disk_put f b m) = behind f"
  "fs_alloc_ready (disk_put f b m) = fs_alloc_ready f"
  by (simp_all add: disk_put_def cut_block_def map_inv_def)

lemma data_block_fields [simp]:
  "le32 (data_block c) 0 = 0x31415444" "le32 (data_block c) 4 = 0"
  by (simp_all add: data_block_def)

lemma data_block_bytes: "n \<le> length c \<Longrightarrow> bytes_at (data_block c) 8 n = take n c"
  by (simp add: data_block_def)

text \<open>The payload of a list of blocks, and the loader reading along a chain.\<close>

definition payload :: "(nat \<Rightarrow> mem8) \<Rightarrow> nat list \<Rightarrow> u8 list" where
  "payload d bs = concat (map (\<lambda>b. bytes_at (d b) 8 4088) bs)"

lemma length_payload [simp]: "length (payload d bs) = 4088 * length bs"
  by (induction bs) (simp_all add: payload_def)

lemma payload_simps [simp]: "payload d [] = []" "payload d (b # bs) = bytes_at (d b) 8 4088 @ payload d bs"
  "payload d (bs @ cs) = payload d bs @ payload d cs"
  by (simp_all add: payload_def)

lemma payload_cong: "(\<And>b. b \<in> set bs \<Longrightarrow> bytes_at (d b) 8 4088 = bytes_at (d' b) 8 4088) \<Longrightarrow>
    payload d bs = payload d' bs"
  by (induction bs) auto

lemma load_chain:
  "chain (disk f) b bs \<Longrightarrow> n \<le> 4088 * length bs \<Longrightarrow>
    load_blocks f n b acc = Some (acc @ take n (payload (disk f) bs))"
proof (induction bs arbitrary: b n acc)
  case Nil
  then show ?case by (subst load_blocks.simps) simp
next
  case (Cons x xs)
  show ?case
  proof (cases "n = 0")
    case True
    then show ?thesis by (subst load_blocks.simps) simp
  next
    case False
    let ?c = "min n 4088"
    have "bytes_at (disk f x) 8 ?c = take ?c (bytes_at (disk f x) 8 4088)"
      by (rule nth_equalityI) simp_all
    moreover have "take n (payload (disk f) (x # xs)) =
        take ?c (bytes_at (disk f x) 8 4088) @ take (n - ?c) (payload (disk f) xs)"
      by (cases "n \<le> 4088") simp_all
    moreover have "load_blocks f (n - ?c) (unat (le32 (disk f x) 4)) (acc @ bytes_at (disk f x) 8 ?c) =
        Some ((acc @ bytes_at (disk f x) 8 ?c) @ take (n - ?c) (payload (disk f) xs))"
      by (rule Cons.IH) (use Cons.prems in auto)
    moreover have "load_blocks f n b acc =
        load_blocks f (n - ?c) (unat (le32 (disk f x) 4)) (acc @ bytes_at (disk f x) 8 ?c)"
      using False Cons.prems(1) by (subst load_blocks.simps) (simp add: Let_def)
    ultimately show ?thesis by simp
  qed
qed

lemma chain_extend:
  "chain d x (xs @ [p]) \<Longrightarrow> \<forall>y \<in> set xs. d' y = d y \<Longrightarrow> le32 (d' p) 0 = 0x31415444 \<Longrightarrow>
    unat (le32 (d' p) 4) = b \<Longrightarrow> b \<noteq> 0 \<Longrightarrow> b < 512 \<Longrightarrow> le32 (d' b) 0 = 0x31415444 \<Longrightarrow> le32 (d' b) 4 = 0 \<Longrightarrow>
    chain d' x (xs @ [p, b])"
  by (induction xs arbitrary: x) auto

text \<open>The state of the loop: the blocks written so far are \<open>bs\<close>.\<close>

definition store_inv :: "fs \<Rightarrow> u8 list \<Rightarrow> nat \<Rightarrow> nat \<Rightarrow> nat \<Rightarrow> nat list \<Rightarrow> bool" where
  "store_inv f data written first prev bs \<longleftrightarrow>
     map_inv f \<and> distinct bs \<and> (\<forall>b \<in> set bs. 60 \<le> b \<and> b < 512 \<and> fs_block_is_used f b) \<and>
     written \<le> length data \<and>
     (if bs = [] then written = 0 \<and> prev = 0
      else first = hd bs \<and> prev = last bs \<and> chain (disk f) first bs \<and>
        written \<le> 4088 * length bs \<and> (written < length data \<longrightarrow> written = 4088 * length bs) \<and>
        take written (payload (disk f) bs) = take written data)"

lemma store_step:
  assumes inv: "store_inv f data written first prev bs" and lt: "written < length data"
    and al: "balloc f = (b, f1)" "b \<noteq> 0"
  defines "chunk \<equiv> min (length data - written) 4088"
  defines "f2 \<equiv> disk_put f1 b (data_block (take chunk (drop written data)))"
  defines "f3 \<equiv> (if prev \<noteq> 0 then link_block f2 prev b else f2)"
  shows "store_inv f3 data (written + chunk) (if prev \<noteq> 0 then first else b) b (bs @ [b]) \<and>
    \<not> fs_block_is_used f b \<and> (\<forall>q. q \<notin> set (bs @ [b]) \<longrightarrow> disk f3 q = disk f q) \<and>
    (\<forall>q. fs_block_is_used f3 q \<longleftrightarrow> fs_block_is_used f q \<or> q = b) \<and>
    fs_now f3 = fs_now f \<and> behind f3 = behind f"
proof -
  have minv: "map_inv f" using inv by (simp add: store_inv_def)
  obtain b': "60 \<le> b" "b < 512" "\<not> fs_block_is_used f b"
    and f1: "f1 = (fs_block_set_used f b)\<lparr>next_free_block := b + 1, disk := (disk f)(b := zero_block)\<rparr>"
    using al by (cases rule: balloc_cases [OF minv, case_names full block]) auto
  have f1': "map_inv f1" "disk f1 = (disk f)(b := zero_block)" "fs_now f1 = fs_now f" "behind f1 = behind f"
    "\<And>q. fs_block_is_used f1 q \<longleftrightarrow> q = b \<or> fs_block_is_used f q"
    using balloc_inv [OF minv] al(1) by (simp_all add: f1 used_set)
  have nb: "b \<notin> set bs" using inv b'(3) by (auto simp: store_inv_def)
  let ?D = "data_block (take chunk (drop written data))"
  have d2: "disk f2 = (disk f)(b := cut_block ?D)" by (simp add: f2_def f1')
  have chunk: "0 < chunk" "chunk \<le> 4088" "written + chunk \<le> length data" using lt by (auto simp: chunk_def)
  have newbytes: "take chunk (bytes_at (cut_block ?D) 8 4088) = take chunk (drop written data)"
  proof -
    have "take chunk (bytes_at ?D 8 4088) = bytes_at ?D 8 chunk"
      by (rule nth_equalityI) (use chunk in simp_all)
    then show ?thesis using chunk by (simp add: data_block_bytes)
  qed
  have fields: "le32 (cut_block ?D) 0 = 0x31415444" "le32 (cut_block ?D) 4 = 0" by simp_all
  show ?thesis
  proof (cases "bs = []")
    case True
    then have p: "prev = 0" "written = 0" using inv by (simp_all add: store_inv_def)
    then have f3: "f3 = f2" by (simp add: f3_def)
    have "chain (disk f3) b [b]" using b' fields by (simp add: f3 d2)
    moreover have "take chunk (payload (disk f3) [b]) = take chunk data"
      using newbytes p by (simp add: f3 d2)
    ultimately show ?thesis
      using True p b' f1' chunk f3 d2 by (auto simp: store_inv_def f2_def chunk_def)
  next
    case False
    then obtain xs where bs: "bs = xs @ [prev]" using inv
      by (metis store_inv_def append_butlast_last_id)
    have I: "distinct bs" "\<forall>b \<in> set bs. 60 \<le> b \<and> b < 512 \<and> fs_block_is_used f b" "first = hd bs"
      "chain (disk f) first bs" "written = 4088 * length bs"
      "take written (payload (disk f) bs) = take written data"
      using inv False lt by (auto simp: store_inv_def)
    have p0: "prev \<noteq> 0" "prev \<noteq> b" using I(2) bs nb by auto
    have f3: "f3 = link_block f2 prev b" using p0 by (simp add: f3_def)
    have d3: "disk f3 = (disk f)(b := cut_block ?D, prev := cut_block (put32 (disk f prev) 4 (of_nat b)))"
      using p0 by (simp add: f3 link_block_def d2)
    have dp: "le32 (disk f3 prev) 0 = 0x31415444" "unat (le32 (disk f3 prev) 4) = b"
    proof -
      have "chain (disk f) first (xs @ [prev])" using I(4) bs by simp
      then have "le32 (disk f prev) 0 = 0x31415444" by (induction xs arbitrary: first) auto
      then show "le32 (disk f3 prev) 0 = 0x31415444" by (simp add: d3)
      show "unat (le32 (disk f3 prev) 4) = b" using b' by (simp add: d3)
    qed
    have ch: "chain (disk f3) first (xs @ [prev, b])"
      by (rule chain_extend [of "disk f"]) (use I(1,4) bs nb p0 b' dp fields in \<open>auto simp: d3\<close>)
    have pl: "payload (disk f3) bs = payload (disk f) bs"
      by (rule payload_cong) (use nb in \<open>auto simp: d3 bs intro!: bytes_at_cong simp: cut_block_def put32_other\<close>)
    have "take (written + chunk) (payload (disk f3) (bs @ [b])) = take (written + chunk) data"
    proof -
      have "payload (disk f3) (bs @ [b]) = payload (disk f) bs @ bytes_at (cut_block ?D) 8 4088"
        using p0 pl by (simp add: d3)
      then have "take (written + chunk) (payload (disk f3) (bs @ [b])) =
          take written (payload (disk f) bs) @ take chunk (bytes_at (cut_block ?D) 8 4088)"
        using I(5) by simp
      also have "\<dots> = take written data @ take chunk (drop written data)" using I(6) newbytes by simp
      finally show ?thesis by (simp add: take_add)
    qed
    moreover have "fs_block_is_used f3 q \<longleftrightarrow> fs_block_is_used f q \<or> q = b" for q
      using f1'(5) by (auto simp: f3 link_block_def f2_def)
    moreover have "map_inv f3" "fs_now f3 = fs_now f" "behind f3 = behind f"
      using f1' by (simp_all add: f3 link_block_def f2_def)
    moreover have "written + chunk < length data \<longrightarrow> written + chunk = 4088 * length (bs @ [b])"
      using I(5) by (auto simp: chunk_def)
    moreover have "hd (xs @ [prev]) = hd (xs @ [prev, b])" by (cases xs) simp_all
    ultimately show ?thesis
      using False bs ch I p0 b' nb chunk d3 by (auto simp: store_inv_def)
  qed
qed

lemma store_blocks_spec:
  assumes "store_inv f data written first prev bs" "store_blocks f data written first prev = (Some r, f')"
    "bs \<noteq> [] \<or> data \<noteq> []"
  shows "\<exists>bs' p. store_inv f' data (length data) r p bs' \<and> bs' \<noteq> [] \<and>
    (\<forall>q \<in> set bs'. q \<in> set bs \<or> \<not> fs_block_is_used f q) \<and> (\<forall>q. q \<notin> set bs' \<longrightarrow> disk f' q = disk f q) \<and>
    (\<forall>q. fs_block_is_used f' q \<longleftrightarrow> fs_block_is_used f q \<or> q \<in> set bs') \<and>
    fs_now f' = fs_now f \<and> behind f' = behind f \<and> set bs \<subseteq> set bs'"
  using assms
proof (induction "length data - written" arbitrary: f written first prev bs rule: less_induct)
  case less
  show ?case
  proof (cases "written < length data")
    case False
    then have w: "written = length data" using less.prems(1) by (simp add: store_inv_def)
    have "r = first" "f' = f" using False less.prems(2) by (simp_all add: store_blocks.simps [of f])
    moreover have "bs \<noteq> []" using less.prems(1,3) w by (auto simp: store_inv_def split: if_splits)
    ultimately show ?thesis using less.prems(1) w
      by (intro exI [of _ bs] exI [of _ prev]) (auto simp: store_inv_def)
  next
    case True
    obtain b f1 where al: "balloc f = (b, f1)" by fastforce
    have b0: "b \<noteq> 0"
    proof
      assume "b = 0"
      then show False using less.prems(2) True al by (simp add: store_blocks.simps [of f])
    qed
    define chunk where "chunk = min (length data - written) 4088"
    define f2 where "f2 = disk_put f1 b (data_block (take chunk (drop written data)))"
    define f3 where "f3 = (if prev \<noteq> 0 then link_block f2 prev b else f2)"
    define first' where "first' = (if prev \<noteq> 0 then first else b)"
    note st = store_step [OF less.prems(1) True al b0, folded chunk_def, folded f2_def, folded f3_def first'_def]
    have "store_blocks f3 data (written + chunk) first' b = (Some r, f')"
      using less.prems(2) True al b0
      by (auto simp: store_blocks.simps [of f] Let_def chunk_def f2_def f3_def first'_def split: if_splits)
    moreover have "length data - (written + chunk) < length data - written"
      using True by (auto simp: chunk_def)
    ultimately obtain bs' p where
      "store_inv f' data (length data) r p bs'" "bs' \<noteq> []"
      "\<forall>q \<in> set bs'. q \<in> set (bs @ [b]) \<or> \<not> fs_block_is_used f3 q"
      "\<forall>q. q \<notin> set bs' \<longrightarrow> disk f' q = disk f3 q"
      "\<forall>q. fs_block_is_used f' q \<longleftrightarrow> fs_block_is_used f3 q \<or> q \<in> set bs'"
      "fs_now f' = fs_now f3" "behind f' = behind f3" "set (bs @ [b]) \<subseteq> set bs'"
      using less.hyps [of "written + chunk" f3 first' b "bs @ [b]"] st by auto
    then show ?thesis using st by (intro exI [of _ bs'] exI [of _ p]) auto
  qed
qed

end
