(* ===== verification/FsStore.thy ===== *)
theory FsStore
  imports FsFile
begin

text \<open>
  What the file operations of \<open>FsFile\<close> do: a stored file is read back as it was written, no
  other file of the disk changes, removing gives the blocks back, a formatted disk is empty.
\<close>

section \<open>Directory entries after a write\<close>

lemma mem_streq_put:
  "cstr s \<Longrightarrow> (\<And>k. k < length s \<Longrightarrow> m (p + k) = c2b (s ! k)) \<Longrightarrow> m (p + length s) = 0 \<Longrightarrow> mem_streq m p s"
proof (induction s arbitrary: p)
  case (Cons c s)
  have "m p = c2b c" using Cons.prems(2) [of 0] by simp
  moreover have "mem_streq m (p + 1) s"
    by (rule Cons.IH) (use Cons.prems(1,3) Cons.prems(2) [of "Suc _"] in auto)
  ultimately show ?case using Cons.prems(1) by simp
qed simp

lemma mem_streq_cong: "(\<And>k. k \<le> length s \<Longrightarrow> m (p + k) = m' (p + k)) \<Longrightarrow> mem_streq m p s = mem_streq m' p s"
proof (induction s arbitrary: p)
  case Nil
  then show ?case using Nil [of 0] by simp
next
  case (Cons c s)
  have "m p = m' p" using Cons.prems [of 0] by simp
  moreover have "mem_streq m (p + 1) s = mem_streq m' (p + 1) s"
    by (rule Cons.IH) (use Cons.prems [of "Suc _"] in auto)
  ultimately show ?case by simp
qed

lemma find_upt_least: "i < n \<Longrightarrow> P i \<Longrightarrow> \<forall>j < i. \<not> P j \<Longrightarrow> find P [0 ..< n] = Some i"
  unfolding find_Some_iff by (intro exI [of _ i]) simp

lemma find_upt_first: "find P [0 ..< n] = Some i \<Longrightarrow> j < i \<Longrightarrow> \<not> P j"
  unfolding find_Some_iff by auto

definition same_entry :: "mem8 \<Rightarrow> mem8 \<Rightarrow> nat \<Rightarrow> bool" where
  "same_entry m m' j \<longleftrightarrow> (\<forall>k < 40. m (entry_off j + k) = m' (entry_off j + k))"

lemma same_entry_fields:
  assumes "same_entry m m' j"
  shows "e_free m j = e_free m' j" "e_type m j = e_type m' j" "e_bno m j = e_bno m' j"
    "e_size m j = e_size m' j" "e_ctime m j = e_ctime m' j" "e_mtime m j = e_mtime m' j"
    "length s \<le> 38 \<Longrightarrow> mem_streq m (entry_off j) s = mem_streq m' (entry_off j) s"
proof -
  have a: "m (entry_off j + k) = m' (entry_off j + k)" if "k < 40" for k
    using assms that by (simp add: same_entry_def)
  show "e_free m j = e_free m' j" using a [of 0] by (simp add: e_free_def)
  show "e_type m j = e_type m' j" unfolding e_type_def
    by (rule le16_cong) (use a in \<open>simp add: add.assoc\<close>)
  show "e_bno m j = e_bno m' j" unfolding e_bno_def
    by (rule arg_cong [where f = unat], rule le32_cong) (use a in \<open>simp add: add.assoc\<close>)
  show "e_size m j = e_size m' j" unfolding e_size_def
    by (rule arg_cong [where f = unat], rule le32_cong) (use a in \<open>simp add: add.assoc\<close>)
  show "e_ctime m j = e_ctime m' j" unfolding e_ctime_def
    by (rule le32_cong) (use a in \<open>simp add: add.assoc\<close>)
  show "e_mtime m j = e_mtime m' j" unfolding e_mtime_def
    by (rule le32_cong) (use a in \<open>simp add: add.assoc\<close>)
  show "mem_streq m (entry_off j) s = mem_streq m' (entry_off j) s" if "length s \<le> 38"
    by (rule mem_streq_cong) (use a that in simp)
qed

lemma put_name20_other: "i < p \<or> p + 20 \<le> i \<Longrightarrow> put_name20 m p s i = m i"
  by (auto simp: put_name20_def mem_copy_def)

lemma put_name20_name: "length s \<le> 19 \<Longrightarrow> k \<le> length s \<Longrightarrow>
    put_name20 m p s (p + k) = (if k < length s then c2b (s ! k) else 0)"
  by (auto simp: put_name20_def mem_copy_def nth_append)

lemma write_entry_other:
  assumes "i < entry_off idx \<or> entry_off idx + 40 \<le> i"
  shows "write_entry m idx leaf a b c d i = m i"
  using assms by (auto simp: write_entry_def Let_def put_name20_other put16_other put32_other)

lemma write_entry_fields:
  fixes m idx leaf first sz ct mt
  assumes "cstr leaf" "length leaf \<le> 19"
  defines "m' \<equiv> write_entry m idx leaf first sz ct mt"
  shows "e_bno m' idx = unat (of_nat first :: u32)" "e_size m' idx = unat (of_nat sz :: u32)"
    "e_ctime m' idx = ct" "e_mtime m' idx = mt" "e_type m' idx = 0"
    "mem_streq m' (entry_off idx) leaf" "leaf \<noteq> [] \<Longrightarrow> \<not> e_free m' idx"
proof -
  show "e_bno m' idx = unat (of_nat first :: u32)" by (simp add: m'_def write_entry_def e_bno_def Let_def)
  show "e_size m' idx = unat (of_nat sz :: u32)" by (simp add: m'_def write_entry_def e_size_def Let_def)
  show "e_ctime m' idx = ct" by (simp add: m'_def write_entry_def e_ctime_def Let_def)
  show "e_mtime m' idx = mt" by (simp add: m'_def write_entry_def e_mtime_def Let_def)
  show "e_type m' idx = 0" by (simp add: m'_def write_entry_def e_type_def Let_def)
  have nm: "m' (entry_off idx + k) = put_name20 m (entry_off idx) leaf (entry_off idx + k)" if "k < 20" for k
    using that by (simp add: m'_def write_entry_def Let_def)
  then have "m' (entry_off idx + k) = (if k < length leaf then c2b (leaf ! k) else 0)" if "k \<le> length leaf" for k
    using that assms(2) put_name20_name [OF assms(2) that] by simp
  then have b: "\<And>k. k < length leaf \<Longrightarrow> m' (entry_off idx + k) = c2b (leaf ! k)"
    "m' (entry_off idx + length leaf) = 0" by simp_all
  show "mem_streq m' (entry_off idx) leaf" by (rule mem_streq_put [OF assms(1) b])
  show "\<not> e_free m' idx" if "leaf \<noteq> []"
    using b(1) [of 0] that assms(1) by (cases leaf) (auto simp: e_free_def)
qed

lemma same_entry_write:
  "j \<noteq> idx \<Longrightarrow> same_entry (write_entry m idx leaf a b c d) m j"
  unfolding same_entry_def by (auto simp: entry_off_def intro!: write_entry_other)

text \<open>Looking up a name in a directory where it was just written at the index the code chose.\<close>

lemma find_type_after_write:
  assumes ty: "ty = -1 \<or> ty = 0" and leaf: "cstr leaf" "length leaf \<le> 19" "leaf \<noteq> []"
    and idx: "(case find_entry_index db leaf (-1) of Some i \<Rightarrow> Some i | None \<Rightarrow> find_free_entry_index db) = Some idx"
    and idx': "entry_in_block idx"
    and view: "\<And>i. i < 4096 \<Longrightarrow> m i = write_entry db idx leaf first sz ct mt i"
  shows "find_entry_index m leaf ty = Some idx"
proof -
  let ?w = "write_entry db idx leaf first sz ct mt"
  have n: "idx < 102" using idx' by (auto simp: entry_in_block_def entry_off_def)
  have sw: "same_entry m ?w j" if "j \<le> idx" for j
    using that n view by (auto simp: same_entry_def entry_off_def)
  note w = write_entry_fields [OF leaf(1,2), of db idx first sz ct mt]
  have at_idx: "\<not> e_free m idx \<and> uint (e_type m idx) = 0 \<and> mem_streq m (entry_off idx) leaf"
    using same_entry_fields [OF sw [of idx]] w leaf by simp
  have before: "\<not> (\<not> e_free m j \<and> mem_streq m (entry_off j) leaf)" if "j < idx" for j
  proof -
    have "\<not> (\<not> e_free db j \<and> mem_streq db (entry_off j) leaf)"
    proof (cases "find_entry_index db leaf (-1)")
      case None
      then show ?thesis using that n by (auto simp: find_entry_index_def find_None_iff)
    next
      case (Some i)
      then have "i = idx" using idx by simp
      then show ?thesis using find_upt_first [OF Some [unfolded find_entry_index_def], of j] that by simp
    qed
    moreover have a: "same_entry m ?w j" "same_entry ?w db j" using sw [of j] that same_entry_write by auto
    moreover have "length leaf \<le> 38" using leaf(2) by simp
    ultimately show ?thesis
      using same_entry_fields(1) [OF a(1)] same_entry_fields(1) [OF a(2)]
        same_entry_fields(7) [OF a(1), of leaf] same_entry_fields(7) [OF a(2), of leaf] by simp
  qed
  show ?thesis unfolding find_entry_index_def
    by (rule find_upt_least) (use n at_idx before ty in auto)
qed

lemmas find_after_write = find_type_after_write [of 0, simplified]

section \<open>A stored file is read back\<close>

lemma free_chain_fields:
  assumes "fs_free_chain f b = Some f'" "map_inv f"
  shows "disk f' = disk f \<and> map_inv f' \<and> fs_now f' = fs_now f \<and> behind f' = behind f"
proof -
  have "map_inv f \<longrightarrow> disk f' = disk f \<and> map_inv f' \<and> fs_now f' = fs_now f \<and> behind f' = behind f"
  proof (rule fs_free_chain.raw_induct [OF _ assms(1)])
    fix rec :: "fs \<Rightarrow> nat \<Rightarrow> fs option" and f f' :: fs and b
    let ?nxt = "if le32 (disk f b) 0 = FS_DATA_MAGIC then unat (le32 (disk f b) 4) else 0"
    assume IH: "\<And>f b f'. rec f b = Some f' \<Longrightarrow> map_inv f \<longrightarrow>
        disk f' = disk f \<and> map_inv f' \<and> fs_now f' = fs_now f \<and> behind f' = behind f"
      and step: "(if b = 0 then Some f else if b \<ge> FS_MAX_BLOCKS then None
        else let m = disk f b; nxt = (if le32 m 0 = FS_DATA_MAGIC then unat (le32 m 4) else 0)
             in rec (bfree f b) nxt) = Some f'"
    show "map_inv f \<longrightarrow> disk f' = disk f \<and> map_inv f' \<and> fs_now f' = fs_now f \<and> behind f' = behind f"
    proof (cases "b = 0 \<or> b \<ge> 512")
      case True
      then show ?thesis using step by (auto split: if_splits)
    next
      case False
      then have "rec (bfree f b) ?nxt = Some f'" using step by (simp add: Let_def)
      from IH [OF this] show ?thesis using bfree_inv [of f b] by simp
    qed
  qed
  then show ?thesis using assms(2) by simp
qed

text \<open>The two ways of writing the data: the chain of the new file, and what the loop leaves alone.\<close>

lemma store_data_spec:
  assumes "map_inv f" "(if data = [] then store_empty f else store_blocks f data 0 0 0) = (Some r, f')"
  shows "\<exists>bs. chain (disk f') r bs \<and> bs \<noteq> [] \<and> distinct bs \<and> length data \<le> 4088 * length bs \<and>
    take (length data) (payload (disk f') bs) = data \<and>
    (\<forall>q \<in> set bs. 60 \<le> q \<and> q < 512 \<and> \<not> fs_block_is_used f q) \<and>
    (\<forall>q. q \<notin> set bs \<longrightarrow> disk f' q = disk f q) \<and>
    (\<forall>q. fs_block_is_used f' q \<longleftrightarrow> fs_block_is_used f q \<or> q \<in> set bs) \<and>
    map_inv f' \<and> fs_now f' = fs_now f \<and> behind f' = behind f"
proof (cases "data = []")
  case False
  have i: "store_inv f data 0 0 0 []" using assms(1) by (simp add: store_inv_def)
  have "store_blocks f data 0 0 0 = (Some r, f')" using assms(2) False by simp
  from store_blocks_spec [OF i this] False obtain bs p where
    "store_inv f' data (length data) r p bs" "bs \<noteq> []"
    "\<forall>q \<in> set bs. \<not> fs_block_is_used f q" "\<forall>q. q \<notin> set bs \<longrightarrow> disk f' q = disk f q"
    "\<forall>q. fs_block_is_used f' q \<longleftrightarrow> fs_block_is_used f q \<or> q \<in> set bs"
    "fs_now f' = fs_now f" "behind f' = behind f" by auto
  then show ?thesis by (intro exI [of _ bs]) (auto simp: store_inv_def)
next
  case True
  obtain b f1 where al: "balloc f = (b, f1)" by fastforce
  have b0: "b \<noteq> 0" "r = b" "f' = disk_put f1 b (data_block [])"
    using assms(2) True al by (auto simp: store_empty_def split: if_splits)
  obtain "60 \<le> b" "b < 512" "\<not> fs_block_is_used f b"
    and f1: "f1 = (fs_block_set_used f b)\<lparr>next_free_block := b + 1, disk := (disk f)(b := zero_block)\<rparr>"
    using al b0(1) by (cases rule: balloc_cases [OF assms(1), case_names full block]) auto
  moreover have "map_inv f1" using balloc_inv [OF assms(1)] al by simp
  moreover have "disk f1 = (disk f)(b := zero_block)" "fs_now f1 = fs_now f" "behind f1 = behind f"
    "\<And>q. fs_block_is_used f1 q \<longleftrightarrow> q = b \<or> fs_block_is_used f q" by (simp_all add: f1 used_set)
  ultimately show ?thesis using True b0 by (intro exI [of _ "[b]"]) auto
qed

text \<open>
  A successful store of a plain name, taken apart: the directory block it read, the entry it
  chose, the chain it wrote, and the state before the old chain is freed.
\<close>

lemma store_success:
  assumes "store_file_bytes f w name data = Some (0, f')" "\<not> needs_resolve name" "map_inv f"
  obtains db idx r f1 created where
    "db = stack_view f (bno_or_root (win_cwd_bno w))" "bno_or_root (win_cwd_bno w) < 512" "db_magic db = FS_MAGIC"
    "(case find_entry_index db name (-1) of Some i \<Rightarrow> Some i | None \<Rightarrow> find_free_entry_index db) = Some idx"
    "find_entry_index db name (-1) \<noteq> None \<longrightarrow> e_type db idx \<noteq> 1"
    "(if data = [] then store_empty f else store_blocks f data 0 0 0) = (Some r, f1)"
    "entry_in_block idx"
    "(let f2 = disk_put f1 (bno_or_root (win_cwd_bno w)) (write_entry db idx name r (length data) created (fs_now f1))
      in if find_entry_index db name (-1) \<noteq> None \<and> e_bno db idx \<noteq> 0
         then fs_free_chain f2 (e_bno db idx) = Some f' else f' = f2)"
proof -
  let ?d = "bno_or_root (win_cwd_bno w)"
  let ?db = "stack_view f ?d"
  have nt: "name_target 128 f w name = Some (Some (?d, name), f)" using assms(2) by (simp add: name_target_def)
  note S0 = assms(1) [unfolded store_file_bytes_def nt option.case prod.case]
  have d: "?d < 512"
  proof (rule ccontr)
    assume "\<not> ?d < 512"
    then have "read_stack_blk f ?d = None" by (simp add: read_stack_blk_def disk_read_def)
    then show False using S0 by simp
  qed
  have rd: "read_stack_blk f ?d = Some ?db"
    using d by (auto simp: read_stack_blk_def disk_read_def stack_view_def)
  note S = S0 [unfolded rd option.case]
  have nm: "\<not> db_magic ?db \<noteq> 0x58504653"
  proof
    assume a: "db_magic ?db \<noteq> 0x58504653"
    show False using S unfolding if_P [OF a] by simp
  qed
  then have mg: "db_magic ?db = 0x58504653" by simp
  define found where "found = find_entry_index ?db name (-1)"
  define target where "target = (case found of Some i \<Rightarrow> Some i | None \<Rightarrow> find_free_entry_index ?db)"
  define written where "written = (if data = [] then store_empty f else store_blocks f data 0 0 0)"
  note S1 = S [unfolded Let_def, folded found_def, folded target_def, folded written_def, unfolded if_not_P [OF nm]]
  have ty: "\<not> (found \<noteq> None \<and> e_type ?db (the found) = 1)"
  proof
    assume a: "found \<noteq> None \<and> e_type ?db (the found) = 1"
    show False using S1 unfolding if_P [OF a] by simp
  qed
  note S2 = S1 [unfolded if_not_P [OF ty]]
  obtain idx where idx: "target = Some idx" using S2 by (cases target) simp_all
  obtain r f1 where w: "written = (Some r, f1)"
    using S2 [unfolded idx option.case] by (cases written; cases "fst written") simp_all
  note S3 = S2 [unfolded idx w option.case prod.case]
  have blk: "entry_in_block idx" using S3 by (auto split: if_splits)
  define created where "created = (if found \<noteq> None then e_ctime ?db idx else fs_now f)"
  define old where "old = (if found \<noteq> None then e_bno ?db idx else 0)"
  define f2 where "f2 = disk_put f1 ?d (write_entry ?db idx name r (length data) created (fs_now f1))"
  have fin: "(if old \<noteq> 0 then map_option (\<lambda>f. (0::int, f)) (fs_free_chain f2 old) else Some (0, f2)) = Some (0, f')"
    using S3 [folded created_def old_def, folded f2_def] blk by simp
  have ty': "found \<noteq> None \<longrightarrow> e_type ?db idx \<noteq> 1"
    using ty idx by (cases found) (simp_all add: target_def)
  have "if found \<noteq> None \<and> e_bno ?db idx \<noteq> 0 then fs_free_chain f2 (e_bno ?db idx) = Some f' else f' = f2"
  proof (cases "old = 0")
    case True
    then have "\<not> (found \<noteq> None \<and> e_bno ?db idx \<noteq> 0)" unfolding old_def by argo
    then show ?thesis using fin True by (simp only: if_False) simp
  next
    case False
    then have o: "found \<noteq> None \<and> e_bno ?db idx \<noteq> 0" "old = e_bno ?db idx" unfolding old_def by argo+
    then show ?thesis using fin False by (cases "fs_free_chain f2 old") auto
  qed
  note fin' = this
  show thesis
    by (rule that [of ?db idx r f1 created])
      (use d mg idx ty' w blk fin' in \<open>simp_all only: Let_def found_def target_def written_def f2_def\<close>)
qed

section \<open>Directories whose files are intact\<close>

text \<open>
  \<open>dir_files f d own\<close>: block \<open>d\<close> is a directory, and each of its 102 entries that names a file
  owns the blocks \<open>own j\<close>: the chain from the entry's first block, long enough for its size,
  in use, above the reserved blocks and shared with no other entry.
\<close>

definition is_file :: "mem8 \<Rightarrow> nat \<Rightarrow> bool" where
  "is_file m j \<longleftrightarrow> \<not> e_free m j \<and> e_type m j \<noteq> 1"

definition owns :: "fs \<Rightarrow> nat \<Rightarrow> nat \<Rightarrow> nat list \<Rightarrow> bool" where
  "owns f d j bs \<longleftrightarrow> chain (disk f) (e_bno (disk f d) j) bs \<and> e_size (disk f d) j \<le> 4088 * length bs \<and>
     d \<notin> set bs \<and> (\<forall>b \<in> set bs. 60 \<le> b \<and> b < 512 \<and> fs_block_is_used f b)"

definition dir_files :: "fs \<Rightarrow> nat \<Rightarrow> (nat \<Rightarrow> nat list) \<Rightarrow> bool" where
  "dir_files f d own \<longleftrightarrow> map_inv f \<and> d \<noteq> 0 \<and> d < 512 \<and> fs_block_is_used f d \<and>
     db_magic (disk f d) = FS_MAGIC \<and>
     (\<forall>j < 102. if is_file (disk f d) j then owns f d j (own j) else own j = []) \<and>
     (\<forall>i < 102. \<forall>j < 102. i \<noteq> j \<longrightarrow> set (own i) \<inter> set (own j) = {})"

lemma same_entry_view: "(\<And>i. i < 4096 \<Longrightarrow> m i = m' i) \<Longrightarrow> j < 102 \<Longrightarrow> same_entry m m' j"
  by (simp add: same_entry_def entry_off_def)

lemma same_entry_is_file: "same_entry m m' j \<Longrightarrow> is_file m j = is_file m' j"
  using same_entry_fields(1,2) by (auto simp: is_file_def)

lemma same_entry_trans: "same_entry a b j \<Longrightarrow> same_entry b c j \<Longrightarrow> same_entry a c j"
  by (simp add: same_entry_def)

lemma same_entry_sym: "same_entry a b j \<Longrightarrow> same_entry b a j"
  by (simp add: same_entry_def)

lemma stack_view_entry: "j < 102 \<Longrightarrow> same_entry (stack_view f d) (disk f d) j"
  by (rule same_entry_view) (simp_all add: stack_view_def)

lemma entry_in_block_iff: "entry_in_block j \<longleftrightarrow> j < 102"
  by (auto simp: entry_in_block_def entry_off_def)

lemma mem_streq_unique: "mem_streq m p s \<Longrightarrow> mem_streq m p t \<Longrightarrow> s = t"
proof (induction s arbitrary: p t)
  case Nil
  then show ?case by (cases t) auto
next
  case (Cons c s)
  then show ?case by (cases t) auto
qed

text \<open>What a successful store does to a directory with intact files.\<close>

lemma store_dir:
  assumes df: "dir_files f d own" and d: "win_cwd_bno w = d" and nr: "\<not> needs_resolve name" and len: "length name \<le> 19"
    and st: "store_file_bytes f w name data = Some (0, f')"
  obtains idx r bs created where
    "idx < 102" "e_free (disk f d) idx \<or> (is_file (disk f d) idx \<and> mem_streq (disk f d) (entry_off idx) name)"
    "(case find_entry_index (stack_view f d) name (-1) of Some i \<Rightarrow> Some i
        | None \<Rightarrow> find_free_entry_index (stack_view f d)) = Some idx"
    "disk f' d = cut_block (write_entry (stack_view f d) idx name r (length data) created (fs_now f))"
    "chain (disk f') r bs" "length data \<le> 4088 * length bs" "take (length data) (payload (disk f') bs) = data"
    "\<forall>q \<in> set bs. 60 \<le> q \<and> q < 512 \<and> \<not> fs_block_is_used f q"
    "\<forall>q. q \<noteq> d \<and> q \<notin> set bs \<longrightarrow> disk f' q = disk f q"
    "\<forall>q < 512. fs_block_is_used f' q \<longleftrightarrow> fs_block_is_used f q \<and> q \<notin> set (own idx) \<or> q \<in> set bs"
    "map_inv f'"
proof -
  have inv: "map_inv f" "d \<noteq> 0" "d < 512" "fs_block_is_used f d" using df by (simp_all add: dir_files_def)
  have d': "bno_or_root (win_cwd_bno w) = d" using inv(2) d by (simp add: bno_or_root_def)
  from store_success [OF st nr inv(1), unfolded d']
  obtain idx r f1 created where
    tgt: "(case find_entry_index (stack_view f d) name (-1) of Some i \<Rightarrow> Some i
        | None \<Rightarrow> find_free_entry_index (stack_view f d)) = Some idx"
    and ty: "find_entry_index (stack_view f d) name (-1) \<noteq> None \<longrightarrow> e_type (stack_view f d) idx \<noteq> 1"
    and wr: "(if data = [] then store_empty f else store_blocks f data 0 0 0) = (Some r, f1)"
    and blk: "entry_in_block idx"
    and fin: "let f2 = disk_put f1 d (write_entry (stack_view f d) idx name r (length data) created (fs_now f1))
      in if find_entry_index (stack_view f d) name (-1) \<noteq> None \<and> e_bno (stack_view f d) idx \<noteq> 0
         then fs_free_chain f2 (e_bno (stack_view f d) idx) = Some f' else f' = f2"
    by metis
  have n: "idx < 102" using blk entry_in_block_iff by simp
  note same = stack_view_entry [OF n, of f d]
  obtain bs where bs: "chain (disk f1) r bs" "length data \<le> 4088 * length bs"
    "take (length data) (payload (disk f1) bs) = data"
    "\<forall>q \<in> set bs. 60 \<le> q \<and> q < 512 \<and> \<not> fs_block_is_used f q"
    "\<forall>q. q \<notin> set bs \<longrightarrow> disk f1 q = disk f q"
    "\<forall>q. fs_block_is_used f1 q \<longleftrightarrow> fs_block_is_used f q \<or> q \<in> set bs"
    "map_inv f1" "fs_now f1 = fs_now f"
    using store_data_spec [OF inv(1) wr] by blast
  define f2 where "f2 = disk_put f1 d (write_entry (stack_view f d) idx name r (length data) created (fs_now f1))"
  have db: "d \<notin> set bs" using bs(4) inv(4) by blast
  have ent: "e_free (disk f d) idx \<or> (is_file (disk f d) idx \<and> mem_streq (disk f d) (entry_off idx) name)"
  proof (cases "find_entry_index (stack_view f d) name (-1)")
    case None
    then have "find_free_entry_index (stack_view f d) = Some idx" using tgt by simp
    then have "e_free (stack_view f d) idx" unfolding find_free_entry_index_def by (drule_tac find_upt_Some) simp
    then show ?thesis using same_entry_fields(1) [OF same] by simp
  next
    case (Some i)
    then have "i = idx" using tgt by simp
    with find_entry_Some [OF Some] ty Some have
      "\<not> e_free (stack_view f d) idx" "mem_streq (stack_view f d) (entry_off idx) name" "e_type (stack_view f d) idx \<noteq> 1"
      by simp_all
    then show ?thesis using same_entry_is_file [OF same] same_entry_fields(7) [OF same, of name] len
      by (simp add: is_file_def)
  qed
  have old: "f' = foldl bfree f2 (own idx)"
  proof (cases "is_file (disk f d) idx")
    case False
    then have "own idx = []" using df n by (simp add: dir_files_def)
    moreover have "find_entry_index (stack_view f d) name (-1) = None"
    proof (rule ccontr)
      assume "\<not> ?thesis"
      then obtain i where "find_entry_index (stack_view f d) name (-1) = Some i" by blast
      then have "\<not> e_free (stack_view f d) idx" using tgt find_entry_Some by simp
      then show False using False ent same_entry_fields(1) [OF same] by simp
    qed
    ultimately show ?thesis using fin by (simp add: f2_def)
  next
    case True
    then have o: "owns f d idx (own idx)" using df n by (simp add: dir_files_def)
    then have "chain (disk f) (e_bno (stack_view f d) idx) (own idx)"
      using same_entry_fields(3) [OF same] by (simp add: owns_def)
    moreover have "disk f2 q = disk f q" if "q \<in> set (own idx)" for q
    proof -
      have "q \<noteq> d" "q \<notin> set bs" using o bs(4) that by (auto simp: owns_def)
      then show ?thesis using bs(5) by (simp add: f2_def)
    qed
    ultimately have ch: "chain (disk f2) (e_bno (stack_view f d) idx) (own idx)"
      using chain_cong [of "own idx" "disk f2" "disk f"] by metis
    have found: "find_entry_index (stack_view f d) name (-1) \<noteq> None"
    proof
      assume "find_entry_index (stack_view f d) name (-1) = None"
      then have "find_free_entry_index (stack_view f d) = Some idx" using tgt by simp
      then have "e_free (stack_view f d) idx" unfolding find_free_entry_index_def by (drule_tac find_upt_Some) simp
      then show False using True same_entry_fields(1) [OF same] by (simp add: is_file_def)
    qed
    show ?thesis
    proof (cases "e_bno (stack_view f d) idx = 0")
      case True
      then have "own idx = []" using ch by (cases "own idx") auto
      then show ?thesis using fin True by (simp add: f2_def)
    next
      case False
      then show ?thesis using fin found free_chain_eq [OF ch] by (simp add: f2_def)
    qed
  qed
  have f2: "disk f2 q = (if q = d then cut_block (write_entry (stack_view f d) idx name r (length data) created (fs_now f))
      else disk f1 q)" for q
    by (simp add: f2_def bs(8))
  have f': "disk f' = disk f2" "map_inv f'" using bs(7) by (simp_all add: old foldl_bfree_inv f2_def)
  have fb: "\<forall>q \<in> set bs. disk f' q = disk f1 q" using db by (auto simp: f' f2)
  show thesis
  proof (rule that [of idx r created bs])
    show "chain (disk f') r bs" using chain_cong [of bs "disk f'" "disk f1" r] bs(1) fb by simp
    show "take (length data) (payload (disk f') bs) = data"
      using payload_cong [of bs "disk f'" "disk f1"] bs(3) fb by simp
    show "\<forall>q < 512. fs_block_is_used f' q \<longleftrightarrow> fs_block_is_used f q \<and> q \<notin> set (own idx) \<or> q \<in> set bs"
    proof (intro allI impI)
      fix q :: nat
      assume q: "q < 512"
      have f2u: "fs_block_is_used f2 q \<longleftrightarrow> fs_block_is_used f q \<or> q \<in> set bs" using bs(6) by (simp add: f2_def)
      have own: "\<forall>b \<in> set (own idx). 60 \<le> b \<and> fs_block_is_used f b"
        using df n by (cases "is_file (disk f d) idx") (auto simp: dir_files_def owns_def)
      show "fs_block_is_used f' q \<longleftrightarrow> fs_block_is_used f q \<and> q \<notin> set (own idx) \<or> q \<in> set bs"
        unfolding old foldl_bfree_used [OF q] using f2u own bs(4) by auto
    qed
  qed (use n ent tgt bs f2 f' in auto)
qed

lemma find_entry_view:
  assumes "find_entry_index m name ty = Some j" "j < 102" "length name \<le> 38"
    and view: "\<And>i. i < 4096 \<Longrightarrow> m i = m' i"
  shows "find_entry_index m' name ty = Some j"
proof -
  have same: "(\<not> e_free m i \<and> (ty = -1 \<or> uint (e_type m i) = ty) \<and> mem_streq m (entry_off i) name) \<longleftrightarrow>
      (\<not> e_free m' i \<and> (ty = -1 \<or> uint (e_type m' i) = ty) \<and> mem_streq m' (entry_off i) name)" if "i < 102" for i
  proof -
    note se = same_entry_view [of m m', OF view that]
    show ?thesis using same_entry_fields(1) [OF se] same_entry_fields(2) [OF se] same_entry_fields(7) [OF se assms(3)] by simp
  qed
  show ?thesis unfolding find_entry_index_def
  proof (rule find_upt_least)
    show "\<not> e_free m' j \<and> (ty = -1 \<or> uint (e_type m' j) = ty) \<and> mem_streq m' (entry_off j) name"
      using same [OF assms(2)] find_entry_Some [OF assms(1)] by simp
    show "\<forall>i < j. \<not> (\<not> e_free m' i \<and> (ty = -1 \<or> uint (e_type m' i) = ty) \<and> mem_streq m' (entry_off i) name)"
    proof (intro allI impI)
      fix i assume i: "i < j"
      then have "i < 102" using assms(2) by simp
      from same [OF this] find_upt_first [OF assms(1) [unfolded find_entry_index_def] i]
      show "\<not> (\<not> e_free m' i \<and> (ty = -1 \<or> uint (e_type m' i) = ty) \<and> mem_streq m' (entry_off i) name)"
        by blast
    qed
  qed (use assms(2) in simp)
qed

text \<open>Reading a file of a directory block by its plain name.\<close>

lemma load_plain:
  assumes "map_inv f" "d < 512" "win_cwd_bno w = d" "db_magic (disk f d) = FS_MAGIC" "\<not> needs_resolve name"
    "find_entry_index (disk f d) name 0 = Some j" "j < 102" "length name \<le> 38"
    "chain (disk f) (e_bno (disk f d) j) bs" "e_size (disk f d) j \<le> 4088 * length bs"
  shows "map_option fst (load_file_bytes f w name mx) =
    Some (if e_size (disk f d) j > mx then (-3, []) else (0, take (e_size (disk f d) j) (payload (disk f) bs)))"
proof -
  define m where "m = (\<lambda>i. if i < BSIZE then disk f d i else win_local_b w i)"
  have r: "fs_ready f = f" using assms(1) by (simp add: map_inv_def fs_ready_def)
  have v: "\<And>i. i < 4096 \<Longrightarrow> disk f d i = m i" by (simp add: m_def)
  have "le32 m 0 = le32 (disk f d) 0" by (rule le32_cong) (simp add: m_def)
  then have mg: "db_magic m = 0x58504653" using assms(4) by (simp add: db_magic_def)
  have o: "open_dir f w name = Some (Some (m, name), w\<lparr>win_local_b := m\<rparr>, f)"
    using assms(2,3,5) mg by (simp add: open_dir_def load_current_dir_def r disk_read_def m_def)
  have fd: "find_entry_index m name 0 = Some j" using find_entry_view [OF assms(6,7,8) v] .
  note e = same_entry_fields(3,4) [OF same_entry_view [OF v assms(7)]]
  have ld: "load_blocks f (e_size m j) (e_bno m j) [] = Some (take (e_size m j) (payload (disk f) bs))"
    using load_chain [of f "e_bno m j" bs "e_size m j" "[]"] assms(9,10) e by simp
  show ?thesis
  proof (cases "e_bno m j = 0")
    case True
    then have "bs = []" using assms(9) e by (cases bs) auto
    then show ?thesis using o fd e True assms(10) by (simp add: load_file_bytes_def)
  next
    case False
    then show ?thesis using o fd ld e by (simp add: load_file_bytes_def)
  qed
qed

lemma cut_view: "i < 4096 \<Longrightarrow> cut_block m i = m i" by (simp add: cut_block_def)

lemma load_same_file:
  assumes "map_inv f" "map_inv f'" "d < 512" "win_cwd_bno w = d" "\<not> needs_resolve name" "length name \<le> 38"
    "db_magic (disk f d) = FS_MAGIC" "db_magic (disk f' d) = FS_MAGIC" "j < 102"
    "find_entry_index (disk f d) name 0 = Some j" "find_entry_index (disk f' d) name 0 = Some j"
    "same_entry (disk f' d) (disk f d) j" "owns f d j bs" "\<forall>b \<in> set bs. disk f' b = disk f b"
  shows "map_option fst (load_file_bytes f' w name mx) = map_option fst (load_file_bytes f w name mx)"
proof -
  note e = same_entry_fields(3,4) [OF assms(12)]
  have ch: "chain (disk f) (e_bno (disk f d) j) bs" "e_size (disk f d) j \<le> 4088 * length bs"
    using assms(13) by (simp_all add: owns_def)
  then have ch': "chain (disk f') (e_bno (disk f' d) j) bs"
    using chain_cong [of bs "disk f'" "disk f"] assms(14) e by simp
  have "payload (disk f') bs = payload (disk f) bs" by (rule payload_cong) (use assms(14) in simp)
  moreover have "e_size (disk f' d) j \<le> 4088 * length bs" using ch(2) e by simp
  ultimately show ?thesis
    using load_plain [OF assms(1,3,4,7,5,10,9,6) ch, of mx] load_plain [OF assms(2,3,4,8,5,11,9,6) ch', of mx]
    by (simp only: e)
qed

lemma store_load:
  assumes df: "dir_files f d own" and d: "win_cwd_bno w = d"
    and name: "cstr name" "name \<noteq> []" "length name \<le> 19" "\<not> needs_resolve name"
    and len: "length data < 2 ^ 32"
    and st: "store_file_bytes f w name data = Some (0, f')"
  shows "\<exists>own'. dir_files f' d own' \<and>
    (\<forall>w' max_size. win_cwd_bno w' = d \<and> length data \<le> max_size \<longrightarrow>
       map_option fst (load_file_bytes f' w' name max_size) = Some (0, data)) \<and>
    (\<forall>other w' max_size j. other \<noteq> name \<and> \<not> needs_resolve other \<and> length other \<le> 19 \<and>
       win_cwd_bno w' = d \<and> find_entry_index (disk f d) other 0 = Some j \<and> j < 102 \<longrightarrow>
       map_option fst (load_file_bytes f' w' other max_size) = map_option fst (load_file_bytes f w' other max_size))"
proof -
  obtain idx r bs created where S:
    "idx < 102" "e_free (disk f d) idx \<or> (is_file (disk f d) idx \<and> mem_streq (disk f d) (entry_off idx) name)"
    "(case find_entry_index (stack_view f d) name (-1) of Some i \<Rightarrow> Some i
        | None \<Rightarrow> find_free_entry_index (stack_view f d)) = Some idx"
    "disk f' d = cut_block (write_entry (stack_view f d) idx name r (length data) created (fs_now f))"
    "chain (disk f') r bs" "length data \<le> 4088 * length bs" "take (length data) (payload (disk f') bs) = data"
    "\<forall>q \<in> set bs. 60 \<le> q \<and> q < 512 \<and> \<not> fs_block_is_used f q"
    "\<forall>q. q \<noteq> d \<and> q \<notin> set bs \<longrightarrow> disk f' q = disk f q"
    "\<forall>q < 512. fs_block_is_used f' q \<longleftrightarrow> fs_block_is_used f q \<and> q \<notin> set (own idx) \<or> q \<in> set bs"
    "map_inv f'"
    by (rule store_dir [OF df d name(4,3) st])
  let ?w = "write_entry (stack_view f d) idx name r (length data) created (fs_now f)"
  have D: "map_inv f" "d \<noteq> 0" "d < 512" "fs_block_is_used f d" "db_magic (disk f d) = 0x58504653"
    "\<And>j. j < 102 \<Longrightarrow> is_file (disk f d) j \<Longrightarrow> owns f d j (own j)"
    "\<And>j. j < 102 \<Longrightarrow> \<not> is_file (disk f d) j \<Longrightarrow> own j = []"
    "\<And>i j. i < 102 \<Longrightarrow> j < 102 \<Longrightarrow> i \<noteq> j \<Longrightarrow> set (own i) \<inter> set (own j) = {}"
    using df unfolding dir_files_def by metis+
  have view: "\<And>i. i < 4096 \<Longrightarrow> disk f' d i = ?w i" using S(4) cut_view by simp
  have magic: "db_magic (disk f' d) = 0x58504653"
  proof -
    have "le32 (disk f' d) 0 = le32 (disk f d) 0"
      by (rule le32_cong) (simp add: view write_entry_other entry_off_def stack_view_def)
    then show ?thesis using D(5) by (simp add: db_magic_def)
  qed
  have others: "same_entry (disk f' d) (disk f d) j" if "j < 102" "j \<noteq> idx" for j
    using same_entry_trans [OF same_entry_trans [OF same_entry_view [of "disk f' d" ?w, OF view that(1)]
        same_entry_write [OF that(2)]] stack_view_entry [OF that(1)]] .
  have found: "find_entry_index (disk f' d) name 0 = Some idx"
    by (rule find_after_write [OF name(1,3,2) S(3) _ view]) (use S(1) entry_in_block_iff in auto)
  note we = write_entry_fields [OF name(1,3), of "stack_view f d" idx r "length data" created "fs_now f"]
  note se = same_entry_fields [OF same_entry_view [of "disk f' d" ?w, OF view S(1)]]
  have r: "r < 512" using S(5) by (cases bs) auto
  have ef: "e_bno (disk f' d) idx = r" "e_size (disk f' d) idx = length data" "is_file (disk f' d) idx"
    using we se r len name(2) by (simp_all add: is_file_def unsigned_of_nat take_bit_nat_eq_self)
  have dbs: "d \<notin> set bs" using S(8) D(4) by blast
  have own_used: "\<forall>b \<in> set (own j). fs_block_is_used f b \<and> b \<noteq> d \<and> b < 512 \<and> 60 \<le> b" if "j < 102" for j
    using D(6,7) [OF that] by (cases "is_file (disk f d) j") (auto simp: owns_def)
  have fresh: "set (own j) \<inter> set bs = {}" if "j < 102" for j using own_used [OF that] S(8) by blast
  have intact: "\<forall>b \<in> set (own j). disk f' b = disk f b" if "j < 102" for j
    using S(9) own_used [OF that] fresh [OF that] by blast
  define own' where "own' = own(idx := bs)"
  have "dir_files f' d own'"
    unfolding dir_files_def
  proof (intro conjI allI impI)
    show "fs_block_is_used f' d" using S(10) D(3,4) own_used [OF S(1)] by blast
    fix j :: nat assume j: "j < 102"
    show "if is_file (disk f' d) j then owns f' d j (own' j) else own' j = []"
    proof (cases "j = idx")
      case True
      then show ?thesis using ef S(5,6,8,10) dbs by (auto simp: owns_def own'_def)
    next
      case False
      note o = others [OF j False]
      show ?thesis
      proof (cases "is_file (disk f d) j")
        case True
        then have w: "owns f d j (own j)" using D(6) j by simp
        then have ch: "chain (disk f') (e_bno (disk f' d) j) (own j)"
          using chain_cong [of "own j" "disk f'" "disk f"] intact [OF j] same_entry_fields(3) [OF o] by (simp add: owns_def)
        have "\<forall>b \<in> set (own j). fs_block_is_used f' b"
          using S(10) own_used [OF j] D(8) [OF j S(1) False] by blast
        then show ?thesis
          using w ch same_entry_is_file [OF o] True same_entry_fields(4) [OF o] False by (simp add: owns_def own'_def)
      next
        case nf: False
        then show ?thesis using same_entry_is_file [OF o] D(7) [OF j] False by (simp add: own'_def)
      qed
    qed
  next
    fix i j :: nat assume "i < 102" "j < 102" "i \<noteq> j"
    then show "set (own' i) \<inter> set (own' j) = {}" using D(8) [of i j] fresh by (auto simp: own'_def)
  qed (use S(11) D(2,3) magic in simp_all)
  moreover have "map_option fst (load_file_bytes f' w' name mx) = Some (0, data)"
    if "win_cwd_bno w' = d" "length data \<le> mx" for w' mx
    using load_plain [OF S(11) D(3) that(1) magic name(4) found S(1), of bs mx] S(5,6,7) ef that(2) name(3) by simp
  moreover have "map_option fst (load_file_bytes f' w' other mx) = map_option fst (load_file_bytes f w' other mx)"
    if o: "other \<noteq> name" "\<not> needs_resolve other" "length other \<le> 19" "win_cwd_bno w' = d"
      "find_entry_index (disk f d) other 0 = Some j" "j < 102" for other w' mx j
  proof -
    have nidx: "j \<noteq> idx"
      using S(2) find_entry_Some [OF o(5)] mem_streq_unique [of "disk f d" "entry_off idx" other name] o(1) by auto
    have jf: "is_file (disk f d) j" using find_entry_Some [OF o(5)] by (auto simp: is_file_def)
    have "find_entry_index (disk f' d) other 0 = Some j"
      unfolding find_entry_index_def
    proof (rule find_upt_least)
      show "\<not> e_free (disk f' d) j \<and> ((0::int) = -1 \<or> uint (e_type (disk f' d) j) = 0) \<and>
          mem_streq (disk f' d) (entry_off j) other"
        using find_entry_Some [OF o(5)] same_entry_fields(1,2) [OF others [OF o(6) nidx]]
          same_entry_fields(7) [OF others [OF o(6) nidx], of other] o(3) by simp
      show "\<forall>i < j. \<not> (\<not> e_free (disk f' d) i \<and> ((0::int) = -1 \<or> uint (e_type (disk f' d) i) = 0) \<and>
          mem_streq (disk f' d) (entry_off i) other)"
      proof (intro allI impI notI)
        fix i assume i: "i < j"
          and h: "\<not> e_free (disk f' d) i \<and> ((0::int) = -1 \<or> uint (e_type (disk f' d) i) = 0) \<and>
            mem_streq (disk f' d) (entry_off i) other"
        have "i \<noteq> idx"
          using h find_entry_Some [OF found] mem_streq_unique [of "disk f' d" "entry_off idx" other name] o(1) by auto
        moreover have "i < 102" using i o(6) by simp
        ultimately have oth: "same_entry (disk f' d) (disk f d) i" by (rule others [rotated])
        show False
          using h find_upt_first [OF o(5) [unfolded find_entry_index_def] i] same_entry_fields(1,2) [OF oth]
            same_entry_fields(7) [OF oth, of other] o(3) by simp
      qed
    qed (use o(6) in simp)
    then show ?thesis
      using load_same_file [OF D(1) S(11) D(3) o(4,2) _ D(5) magic o(6,5)] o(3) others [OF o(6) nidx]
        D(6) [OF o(6) jf] intact [OF o(6)] by simp
  qed
  ultimately show ?thesis by blast
qed

text \<open>
  C1: Storing a file works: if every file of the current directory is intact (its chain of data
  blocks is in use, long enough and shared with no other) and \<open>store_file_bytes\<close> reports
  success for a plain name of at most 19 characters, then afterwards every file is intact
  again, \<open>load_file_bytes\<close> returns exactly the bytes that were stored under the name, and for
  every other file of the directory it returns what it returned before.
\<close>

theorem store_load_roundtrip:
  assumes df: "dir_files f d own" and d: "win_cwd_bno w = d"
    and name: "cstr name" "name \<noteq> []" "length name \<le> 19" "\<not> needs_resolve name"
    and len: "length data < 2 ^ 32"
    and st: "store_file_bytes f w name data = Some (0, f')"
  shows "\<exists>own'. dir_files f' d own' \<and>
    (\<forall>w' max_size. win_cwd_bno w' = d \<and> length data \<le> max_size \<longrightarrow>
       map_option fst (load_file_bytes f' w' name max_size) = Some (0, data)) \<and>
    (\<forall>other w' max_size j. other \<noteq> name \<and> \<not> needs_resolve other \<and> length other \<le> 19 \<and>
       win_cwd_bno w' = d \<and> find_entry_index (disk f d) other 0 = Some j \<and> j < 102 \<longrightarrow>
       map_option fst (load_file_bytes f' w' other max_size) = map_option fst (load_file_bytes f w' other max_size))"
  by (rule store_load [OF df d name len st])

section \<open>When storing succeeds\<close>

definition free_blocks :: "fs \<Rightarrow> nat set" where
  "free_blocks f = {q. q < 512 \<and> \<not> fs_block_is_used f q}"

lemma finite_free_blocks [simp]: "finite (free_blocks f)" by (simp add: free_blocks_def)

lemma balloc_free_blocks:
  assumes "map_inv f" "free_blocks f \<noteq> {}"
  shows "\<exists>b f'. balloc f = (b, f') \<and> b \<noteq> 0 \<and> card (free_blocks f') = card (free_blocks f) - 1"
proof (cases rule: balloc_cases [OF assms(1), case_names full block])
  case full
  then show ?thesis using assms(2) by (auto simp: free_blocks_def)
next
  case (block i)
  have "free_blocks (snd (balloc f)) = free_blocks f - {i}"
    using block(5) by (auto simp: free_blocks_def used_set)
  moreover have "i \<in> free_blocks f" using block by (simp add: free_blocks_def)
  ultimately show ?thesis using block(1,5) by (intro exI [of _ i] exI [of _ "snd (balloc f)"]) simp
qed

lemma free_blocks_put [simp]: "free_blocks (disk_put f b m) = free_blocks f" "free_blocks (link_block f p b) = free_blocks f"
  by (simp_all add: free_blocks_def link_block_def)

lemma store_blocks_succeeds:
  "store_inv f data written first prev bs \<Longrightarrow> length data - written \<le> 4088 * card (free_blocks f) \<Longrightarrow>
    \<exists>r f'. store_blocks f data written first prev = (Some r, f')"
proof (induction "length data - written" arbitrary: f written first prev bs rule: less_induct)
  case less
  show ?case
  proof (cases "written < length data")
    case False
    then show ?thesis by (simp add: store_blocks.simps [of f])
  next
    case True
    then have ne: "free_blocks f \<noteq> {}" using less.prems(2) by auto
    have inv: "map_inv f" using less.prems(1) by (simp add: store_inv_def)
    obtain b f1 where al: "balloc f = (b, f1)" "b \<noteq> 0" "card (free_blocks f1) = card (free_blocks f) - 1"
      using balloc_free_blocks [OF inv ne] by blast
    have pos: "0 < card (free_blocks f)" using ne by (simp add: card_gt_0_iff)
    define chunk where "chunk = min (length data - written) 4088"
    define f2 where "f2 = disk_put f1 b (data_block (take chunk (drop written data)))"
    define f3 where "f3 = (if prev \<noteq> 0 then link_block f2 prev b else f2)"
    define first' where "first' = (if prev \<noteq> 0 then first else b)"
    note st = store_step [OF less.prems(1) True al(1,2), folded chunk_def, folded f2_def, folded f3_def first'_def]
    have "free_blocks f3 = free_blocks f1" by (simp add: f3_def f2_def)
    then have "length data - (written + chunk) \<le> 4088 * card (free_blocks f3)"
      using less.prems(2) al(3) pos by (auto simp: chunk_def)
    moreover have "length data - (written + chunk) < length data - written"
      using True by (auto simp: chunk_def)
    ultimately have "\<exists>r f'. store_blocks f3 data (written + chunk) first' b = (Some r, f')"
      using less.hyps [of "written + chunk" f3 first' b "bs @ [b]"] st by blast
    moreover have "store_blocks f data written first prev = store_blocks f3 data (written + chunk) first' b"
      using True al by (auto simp: store_blocks.simps [of f] Let_def chunk_def f2_def f3_def first'_def)
    ultimately show ?thesis by simp
  qed
qed

lemma find_upt_before: "P i \<Longrightarrow> i < n \<Longrightarrow> \<exists>k \<le> i. find P [0 ..< n] = Some k \<and> P k"
proof (cases "find P [0 ..< n]")
  case None
  then show "P i \<Longrightarrow> i < n \<Longrightarrow> ?thesis" by (auto simp: find_None_iff)
next
  case (Some k)
  then show "P i \<Longrightarrow> i < n \<Longrightarrow> ?thesis" using find_upt_first [OF Some, of i] find_upt_Some [OF Some]
    by (auto simp: not_less [symmetric])
qed

lemma store_succeeds:
  assumes df: "dir_files f d own" and d: "win_cwd_bno w = d" and nr: "\<not> needs_resolve name" and len: "length name \<le> 19"
    and entry: "(\<exists>i < 102. find_entry_index (stack_view f d) name (-1) = Some i \<and> e_type (disk f d) i \<noteq> 1) \<or>
      find_entry_index (stack_view f d) name (-1) = None \<and> (\<exists>i < 102. e_free (disk f d) i)"
    and space: "free_blocks f \<noteq> {}" "length data \<le> 4088 * card (free_blocks f)"
  shows "\<exists>f'. store_file_bytes f w name data = Some (0, f')"
proof -
  let ?db = "stack_view f d"
  have inv: "map_inv f" "d \<noteq> 0" "d < 512" "db_magic (disk f d) = 0x58504653" using df by (simp_all add: dir_files_def)
  have nt: "name_target 128 f w name = Some (Some (d, name), f)" using nr d inv(2) by (simp add: name_target_def bno_or_root_def)
  have rd: "read_stack_blk f d = Some ?db"
    using inv(3) by (auto simp: read_stack_blk_def disk_read_def stack_view_def)
  have "le32 ?db 0 = le32 (disk f d) 0" by (rule le32_cong) (simp add: stack_view_def)
  then have mg: "db_magic ?db = 0x58504653" using inv(4) by (simp add: db_magic_def)
  obtain idx where idx: "(case find_entry_index ?db name (-1) of Some i \<Rightarrow> Some i | None \<Rightarrow> find_free_entry_index ?db) = Some idx"
    and n: "idx < 102"
  proof (cases "find_entry_index ?db name (-1)")
    case None
    then obtain i where i: "i < 102" "e_free ?db i" using entry same_entry_fields(1) [OF stack_view_entry] by force
    then obtain k where "k \<le> i" "find_free_entry_index ?db = Some k"
      using find_upt_before [of "e_free ?db" i 120] unfolding find_free_entry_index_def by auto
    then show thesis using that [of k] None i by simp
  next
    case (Some i)
    then show thesis using that [of i] entry by simp
  qed
  have ty: "\<not> (find_entry_index ?db name (-1) \<noteq> None \<and> e_type ?db (the (find_entry_index ?db name (-1))) = 1)"
  proof (cases "find_entry_index ?db name (-1)")
    case (Some i)
    then have "i = idx" using idx by simp
    then show ?thesis using entry Some same_entry_fields(2) [OF stack_view_entry [OF n]] by auto
  qed simp
  have "\<exists>r f1. (if data = [] then store_empty f else store_blocks f data 0 0 0) = (Some r, f1)"
  proof (cases "data = []")
    case True
    then show ?thesis using balloc_free_blocks [OF inv(1) space(1)] by (auto simp: store_empty_def)
  next
    case False
    have "store_inv f data 0 0 0 []" using inv(1) by (simp add: store_inv_def)
    from store_blocks_succeeds [OF this] space(2) False show ?thesis by simp
  qed
  then obtain r f1 where wr: "(if data = [] then store_empty f else store_blocks f data 0 0 0) = (Some r, f1)" by blast
  define old where "old = (if find_entry_index ?db name (-1) \<noteq> None then e_bno ?db idx else 0)"
  define created where "created = (if find_entry_index ?db name (-1) \<noteq> None then e_ctime ?db idx else fs_now f)"
  define f2 where "f2 = disk_put f1 d (write_entry ?db idx name r (length data) created (fs_now f1))"
  have eq: "store_file_bytes f w name data =
      (if old \<noteq> 0 then map_option (\<lambda>f. (0, f)) (fs_free_chain f2 old) else Some (0, f2))"
    unfolding store_file_bytes_def nt option.case prod.case rd mg Let_def if_not_P [OF ty] idx wr
    using n by (simp add: entry_in_block_iff old_def created_def f2_def)
  show ?thesis
  proof (cases "old = 0")
    case True
    then show ?thesis using eq by simp
  next
    case False
    then have fnd: "find_entry_index ?db name (-1) = Some idx" using idx by (cases "find_entry_index ?db name (-1)") (simp_all add: old_def)
    have nf: "is_file (disk f d) idx"
      using find_entry_Some [OF fnd] same_entry_fields(1,2) [OF stack_view_entry [OF n, of f d]] ty fnd
      by (simp add: is_file_def)
    then have o: "owns f d idx (own idx)" using df n by (simp add: dir_files_def)
    have oe: "old = e_bno (disk f d) idx" using fnd same_entry_fields(3) [OF stack_view_entry [OF n]] by (simp add: old_def)
    obtain bs where bs: "\<forall>q \<in> set bs. \<not> fs_block_is_used f q" "\<forall>q. q \<notin> set bs \<longrightarrow> disk f1 q = disk f q"
      using store_data_spec [OF inv(1) wr] by blast
    have "disk f2 q = disk f q" if "q \<in> set (own idx)" for q
      using o that bs by (auto simp: owns_def f2_def)
    then have "chain (disk f2) old (own idx)"
      using o chain_cong [of "own idx" "disk f2" "disk f"] oe by (simp add: owns_def)
    from free_chain_eq [OF this] show ?thesis using eq by simp
  qed
qed

text \<open>
  C2: Storing succeeds whenever there is room: in a directory with intact files, if the name
  denotes an existing file or there is a free entry, at least one block is free and the free
  blocks hold the data (4088 bytes each), \<open>store_file_bytes\<close> ends and returns 0.
\<close>

theorem store_succeeds_with_space:
  assumes "dir_files f d own" "win_cwd_bno w = d" "\<not> needs_resolve name" "length name \<le> 19"
    "(\<exists>i < 102. find_entry_index (stack_view f d) name (-1) = Some i \<and> e_type (disk f d) i \<noteq> 1) \<or>
      find_entry_index (stack_view f d) name (-1) = None \<and> (\<exists>i < 102. e_free (disk f d) i)"
    "free_blocks f \<noteq> {}" "length data \<le> 4088 * card (free_blocks f)"
  shows "\<exists>f'. store_file_bytes f w name data = Some (0, f')"
  by (rule store_succeeds [OF assms])

section \<open>Formatting and removing\<close>

lemma foldl_set_disk [simp]: "disk (foldl fs_block_set_used f bs) = disk f"
  by (induction bs arbitrary: f) simp_all

lemma foldl_set_behind [simp]: "behind (foldl fs_block_set_used f bs) = behind f"
  by (induction bs arbitrary: f) simp_all

lemma format_disk:
  assumes "f' = fst (fs_format_root f owner wins)"
  shows "map_inv f' \<and> free_blocks f' = {60 ..< 512} \<and> db_magic (disk f' 1) = FS_MAGIC \<and>
    (\<forall>j. e_free (disk f' 1) j)"
proof -
  define m where "m = put32 (put32 (\<lambda>i. if i < BSIZE then 0 else win_local_b owner i) 0 FS_MAGIC) 4 1"
  define f0 where "f0 = (disk_put f 1 m)\<lparr>fs_block_map := (\<lambda>i. if i < 512 div 8 then 0 else fs_block_map (disk_put f 1 m) i)\<rparr>"
  define low where "low = [0 ..< 60::nat]"
  have low: "set low = {..< 60}" by (auto simp: low_def)
  have f': "f' = (foldl fs_block_set_used f0 low)\<lparr>next_free_block := 60, fs_alloc_ready := True\<rparr>"
    by (simp only: assms fs_format_root_def m_def f0_def low_def Let_def fst_conv)
  have z: "\<not> fs_block_is_used f0 q" if "q < 512" for q
  proof -
    have "q div 8 < 64" using that by auto
    then show ?thesis using that by (simp add: fs_block_is_used_def f0_def)
  qed
  have u: "fs_block_is_used f' q \<longleftrightarrow> q < 60 \<or> q \<ge> 512" for q
  proof (cases "q < 512")
    case True
    have "fs_block_is_used f' q = fs_block_is_used (foldl fs_block_set_used f0 low) q"
      by (simp add: f' fs_block_is_used_def)
    then show ?thesis using block_map.used_fold_set [of low q f0] z True low by auto
  qed (simp add: fs_block_is_used_def)
  have d: "disk f' 1 = cut_block m" by (simp add: f' f0_def)
  have "map_inv f'" using u unfolding map_inv_def by (simp add: f')
  moreover have "free_blocks f' = {60 ..< 512}" 
  proof (rule set_eqI)
    fix q show "q \<in> free_blocks f' \<longleftrightarrow> q \<in> {60 ..< 512}"
      unfolding free_blocks_def mem_Collect_eq u atLeastLessThan_iff by linarith
  qed
  moreover have "db_magic (disk f' 1) = 0x58504653" 
  proof -
    have "le32 m 0 = 0x58504653" unfolding m_def by simp
    then show ?thesis unfolding d db_magic_def by simp
  qed
  moreover have "e_free (disk f' 1) j" for j
    unfolding d e_free_def by (simp add: m_def entry_off_def cut_block_def)
  ultimately show ?thesis by blast
qed

lemma format_dir_files:
  assumes "f' = fst (fs_format_root f owner wins)"
  shows "dir_files f' 1 (\<lambda>_. [])"
proof -
  have "1 \<notin> free_blocks f'" using format_disk [OF assms] by simp
  then have "fs_block_is_used f' 1" by (simp add: free_blocks_def)
  then show ?thesis using format_disk [OF assms] by (simp add: dir_files_def is_file_def)
qed

text \<open>
  Formatting empties the disk: whatever was there before, afterwards the root block is a
  directory without entries, exactly the blocks from 60 on are free, the allocator invariant
  holds, every active window is back in \<open>/root\<close> on block 1, and inactive ones are unchanged.
\<close>

theorem format_root_empties:
  "case fs_format_root f owner wins of (f', owner', wins') \<Rightarrow>
    dir_files f' 1 (\<lambda>_. []) \<and> (\<forall>j. e_free (disk f' 1) j) \<and> free_blocks f' = {60 ..< FS_MAX_BLOCKS} \<and>
    list_all2 (\<lambda>(active, w) (active', w'). active' = active \<and>
      (if active then win_cwd_bno w' = 1 \<and> win_cwd w' = ''/root'' else w' = w)) wins wins'"
proof -
  obtain f' owner' wins' where r: "fs_format_root f owner wins = (f', owner', wins')" by (metis prod_cases3)
  then have f': "f' = fst (fs_format_root f owner wins)" by simp
  have w: "wins' = map (\<lambda>(active, w). if \<not> active then (active, w)
      else (active, sync_pwd (fs_reset_window_cwd w))) wins"
    using r by (simp add: fs_format_root_def Let_def)
  have "list_all2 (\<lambda>(active, w) (active', w'). active' = active \<and>
      (if active then win_cwd_bno w' = 1 \<and> win_cwd w' = ''/root'' else w' = w)) wins wins'"
    unfolding w by (auto simp: list_all2_conv_all_nth sync_pwd_def fs_reset_window_cwd_def split: prod.splits)
  then show ?thesis unfolding r prod.case using format_disk [OF f'] format_dir_files [OF f'] by blast
qed

text \<open>
  C8: Removing a file gives back exactly its blocks: in a directory with intact files,
  \<open>remove_entry_named\<close> of the name of one of them returns 0, clears its entry, frees the blocks
  of its chain and no others, writes no block but the directory, leaves every other entry as
  it is, and the remaining files are intact.
\<close>

theorem remove_file_frees:
  assumes "dir_files f d own" "win_cwd_bno w = d" "length name \<le> 38"
    "find_entry_index (disk f d) name (-1) = Some j" "j < 102" "is_file (disk f d) j"
  shows "\<exists>w' f'. remove_entry_named f w name = Some (0, w', f') \<and> dir_files f' d (own(j := [])) \<and>
    free_blocks f' = free_blocks f \<union> set (own j) \<and> e_free (disk f' d) j \<and>
    (\<forall>q. q \<noteq> d \<longrightarrow> disk f' q = disk f q) \<and> (\<forall>i < 102. i \<noteq> j \<longrightarrow> same_entry (disk f' d) (disk f d) i)"
proof -
  have D: "map_inv f" "d \<noteq> 0" "d < 512" "fs_block_is_used f d" "db_magic (disk f d) = 0x58504653"
    "\<And>j. j < 102 \<Longrightarrow> is_file (disk f d) j \<Longrightarrow> owns f d j (own j)"
    "\<And>j. j < 102 \<Longrightarrow> \<not> is_file (disk f d) j \<Longrightarrow> own j = []"
    "\<And>i j. i < 102 \<Longrightarrow> j < 102 \<Longrightarrow> i \<noteq> j \<Longrightarrow> set (own i) \<inter> set (own j) = {}"
    using assms(1) unfolding dir_files_def by metis+
  define m where "m = (\<lambda>i. if i < BSIZE then disk f d i else win_local_b w i)"
  have view: "\<And>i. i < 4096 \<Longrightarrow> disk f d i = m i" by (simp add: m_def)
  have r: "fs_ready f = f" using D(1) by (simp add: map_inv_def fs_ready_def)
  have "le32 m 0 = le32 (disk f d) 0" by (rule le32_cong) (simp add: m_def)
  then have mg: "db_magic m = 0x58504653" using D(5) by (simp add: db_magic_def)
  have ld: "load_current_dir f w = Some (Some m, w\<lparr>win_local_b := m\<rparr>, f)"
    using D(3) assms(2) mg by (simp add: load_current_dir_def r disk_read_def m_def)
  have fd: "find_entry_index m name (-1) = Some j" using find_entry_view [OF assms(4,5,3) view] .
  note e = same_entry_fields [OF same_entry_view [OF view assms(5)]]
  have ty: "e_type m j \<noteq> 1" using assms(6) e(2) by (simp add: is_file_def)
  define m' where "m' = mem_fill m (entry_off j) 40 0"
  define f1 where "f1 = f\<lparr>disk := (disk f)(d := cut_block m')\<rparr>"
  have o: "owns f d j (own j)" using D(6) assms(5,6) by simp
  have own_used: "\<forall>b \<in> set (own i). fs_block_is_used f b \<and> b \<noteq> d \<and> b < 512 \<and> 60 \<le> b" if "i < 102" for i
    using D(6,7) [OF that] by (cases "is_file (disk f d) i") (auto simp: owns_def)
  have "chain (disk f1) (e_bno m j) (own j)"
    using o own_used [OF assms(5)] chain_cong [of "own j" "disk f1" "disk f"] e(3)
    by (simp add: owns_def f1_def)
  note fr = free_chain_eq [OF this]
  define f' where "f' = foldl bfree f1 (own j)"
  have w1: "disk_write f d m' = Some f1" using D(3) by (simp add: disk_write_def f1_def cut_block_def)
  have rm: "remove_entry_named f w name = Some (0, w\<lparr>win_local_b := m'\<rparr>, f')"
  proof (cases "e_bno m j = 0")
    case True
    then have "own j = []" using o e(3) by (cases "own j") (auto simp: owns_def)
    then show ?thesis
      using ld fd ty True w1 assms(2) by (simp add: remove_entry_named_def Let_def m'_def [symmetric] f'_def)
  next
    case False
    then show ?thesis
      using ld fd ty w1 assms(2) fr by (simp add: remove_entry_named_def Let_def m'_def [symmetric] f'_def)
  qed
  have inv1: "fs_block_is_used f1 = fs_block_is_used f" "map_inv f1"
  proof -
    show u: "fs_block_is_used f1 = fs_block_is_used f" by (simp add: f1_def fs_block_is_used_def fun_eq_iff)
    show "map_inv f1" using D(1) unfolding map_inv_def u by (simp add: f1_def)
  qed
  have used: "fs_block_is_used f' q \<longleftrightarrow> fs_block_is_used f q \<and> q \<notin> set (own j)" if "q < 512" for q
    using foldl_bfree_used [OF that, of f1 "own j"] inv1(1) own_used [OF assms(5)] by (auto simp: f'_def)
  have dsk: "disk f' q = (if q = d then cut_block m' else disk f q)" for q by (simp add: f'_def f1_def)
  have gone: "e_free (disk f' d) j" using assms(5) by (simp add: dsk e_free_def cut_block_def m'_def mem_fill_def entry_off_def)
  have others: "same_entry (disk f' d) (disk f d) i" if "i < 102" "i \<noteq> j" for i
    using that by (auto simp: same_entry_def dsk cut_block_def m'_def mem_fill_def entry_off_def m_def)
  have magic: "db_magic (disk f' d) = 0x58504653"
  proof -
    have "le32 (disk f' d) 0 = le32 (disk f d) 0"
      by (rule le32_cong) (simp add: dsk cut_block_def m'_def mem_fill_def entry_off_def m_def)
    then show ?thesis using D(5) by (simp add: db_magic_def)
  qed
  have "dir_files f' d (own(j := []))"
    unfolding dir_files_def
  proof (intro conjI allI impI)
    show "fs_block_is_used f' d" using used D(3,4) own_used [OF assms(5)] by blast
    fix i :: nat assume i: "i < 102"
    show "if is_file (disk f' d) i then owns f' d i ((own(j := [])) i) else (own(j := [])) i = []"
    proof (cases "i = j")
      case True
      then show ?thesis using gone by (simp add: is_file_def)
    next
      case False
      note oth = others [OF i False]
      show ?thesis
      proof (cases "is_file (disk f d) i")
        case True
        then have w: "owns f d i (own i)" using D(6) i by simp
        have "chain (disk f') (e_bno (disk f' d) i) (own i)"
          using w chain_cong [of "own i" "disk f'" "disk f"] own_used [OF i] same_entry_fields(3) [OF oth]
          by (simp add: owns_def dsk)
        moreover have "\<forall>b \<in> set (own i). fs_block_is_used f' b"
          using used own_used [OF i] D(8) [OF i assms(5) False] by blast
        ultimately show ?thesis
          using w same_entry_is_file [OF oth] True same_entry_fields(4) [OF oth] False by (simp add: owns_def)
      next
        case nf: False
        then show ?thesis using same_entry_is_file [OF oth] D(7) [OF i] False by simp
      qed
    qed
  next
    fix i k :: nat assume "i < 102" "k < 102" "i \<noteq> k"
    then show "set ((own(j := [])) i) \<inter> set ((own(j := [])) k) = {}" using D(8) [of i k] by simp
  qed (use inv1 D(2,3) magic foldl_bfree_inv in \<open>simp_all add: f'_def\<close>)
  moreover have "free_blocks f' = free_blocks f \<union> set (own j)"
    using used own_used [OF assms(5)] by (auto simp: free_blocks_def)
  ultimately show ?thesis using rm gone dsk others by auto
qed

section \<open>Witnesses\<close>

definition formatted :: fs where "formatted = fst (fs_format_root empty_fs (tmp_window 1 []) [])"

lemma formatted_ok:
  "dir_files formatted 1 (\<lambda>_. [])" "free_blocks formatted = {60 ..< 512}" "map_inv formatted"
  "\<And>j. e_free (disk formatted 1) j"
  using format_dir_files [OF formatted_def] format_disk [OF formatted_def] by auto

lemma formatted_entry:
  "(\<exists>i < 102. find_entry_index (stack_view formatted 1) ''a'' (-1) = Some i \<and> e_type (disk formatted 1) i \<noteq> 1) \<or>
    find_entry_index (stack_view formatted 1) ''a'' (-1) = None \<and> (\<exists>i < 102. e_free (disk formatted 1) i)"
proof -
  have "behind formatted = (\<lambda>_. 0)"
    by (simp add: formatted_def fs_format_root_def Let_def empty_fs_def disk_put_def foldl_set_behind)
  then have "find_entry_index (stack_view formatted 1) ''a'' (-1) = None"
    using formatted_ok(4) by (auto simp: find_entry_index_def find_None_iff stack_view_def e_free_def)
  moreover have "\<exists>i < 102. e_free (disk formatted 1) i" using formatted_ok(4) by (intro exI [of _ 0]) simp
  ultimately show ?thesis by blast
qed

lemma formatted_window: "win_cwd_bno (tmp_window 1 []) = 1" "\<not> needs_resolve ''a''"
  by (simp_all add: tmp_window_def needs_resolve_def strchr.simps char_at_def)

theorem store_load_roundtrip_witness:
  "\<exists>f'. store_file_bytes formatted (tmp_window 1 []) ''a'' [1, 2, 3] = Some (0, f') \<and>
     map_option fst (load_file_bytes f' (tmp_window 1 []) ''a'' 10) = Some (0, [1, 2, 3])"
proof -
  obtain f' where st: "store_file_bytes formatted (tmp_window 1 []) ''a'' [1, 2, 3] = Some (0, f')"
    using store_succeeds [OF formatted_ok(1) formatted_window(1,2) _ formatted_entry, of "[1, 2, 3]"] formatted_ok(2)
    by auto
  have "map_option fst (load_file_bytes f' (tmp_window 1 []) ''a'' 10) = Some (0, [1, 2, 3])"
    using store_load_roundtrip [OF formatted_ok(1) formatted_window(1) _ _ _ formatted_window(2) _ st]
      formatted_window(1) by fastforce
  with st show ?thesis by blast
qed

theorem store_succeeds_with_space_witness:
  "\<exists>f'. store_file_bytes formatted (tmp_window 1 []) ''a'' [] = Some (0, f')"
  using store_succeeds_with_space [OF formatted_ok(1) formatted_window(1,2) _ formatted_entry, of "[]"] formatted_ok(2)
  by simp

text \<open>A root directory with one file, \<open>a\<close>, in block 60.\<close>

definition one_file :: fs where
  "one_file = (fs_block_set_used formatted 60)\<lparr>disk :=
     (disk formatted)(1 := cut_block (write_entry (disk formatted 1) 0 ''a'' 60 3 0 0), 60 := cut_block (data_block [1, 2, 3]))\<rparr>"

lemma one_file_ok: "dir_files one_file 1 ((\<lambda>_. [])(0 := [60]))" "is_file (disk one_file 1) 0"
  "find_entry_index (disk one_file 1) ''a'' (-1) = Some 0"
proof -
  let ?w = "write_entry (disk formatted 1) 0 ''a'' 60 3 0 0"
  have d1: "disk one_file 1 = cut_block ?w" "disk one_file 60 = cut_block (data_block [1, 2, 3])"
    by (simp_all add: one_file_def)
  note w = write_entry_fields [of "''a''" "disk formatted 1" 0 60 3 0 0, simplified]
  have s0: "same_entry (disk one_file 1) ?w 0" unfolding d1 by (rule same_entry_view) (simp_all add: cut_view)
  note e = same_entry_fields [OF s0]
  have free: "e_free (disk one_file 1) j" if "j < 102" "j \<noteq> 0" for j
    using same_entry_fields(1) [OF same_entry_trans [OF same_entry_view [of "disk one_file 1" ?w j]
        same_entry_write [OF that(2)]]] that(1) formatted_ok(4)
    by (simp only: d1 cut_view)
  show f0: "is_file (disk one_file 1) 0" using e w by (simp add: is_file_def)
  show "find_entry_index (disk one_file 1) ''a'' (-1) = Some 0"
    unfolding find_entry_index_def by (rule find_upt_least) (use e(1) e(7) [of "''a''"] w in auto)
  have used: "fs_block_is_used one_file q \<longleftrightarrow> q = 60 \<or> fs_block_is_used formatted q" for q
  proof -
    have "fs_block_is_used one_file q = fs_block_is_used (fs_block_set_used formatted 60) q"
      by (simp add: one_file_def fs_block_is_used_def)
    then show ?thesis by (simp add: used_set)
  qed
  have inv: "map_inv one_file" using formatted_ok(3) used unfolding map_inv_def by (simp add: one_file_def)
  have owns: "owns one_file 1 0 [60]"
    using e w used by (simp add: owns_def d1(2))
  have magic: "db_magic (disk one_file 1) = 0x58504653"
  proof -
    have "le32 (disk one_file 1) 0 = le32 (disk formatted 1) 0"
      by (rule le32_cong) (simp only: d1, simp add: cut_view write_entry_other entry_off_def)
    then show ?thesis using formatted_ok(1) by (simp add: db_magic_def dir_files_def)
  qed
  have u1: "fs_block_is_used one_file 1" using used formatted_ok(1) by (simp add: dir_files_def)
  show "dir_files one_file 1 ((\<lambda>_. [])(0 := [60]))"
    unfolding dir_files_def
  proof (intro conjI allI impI)
    fix j :: nat assume j: "j < 102"
    show "if is_file (disk one_file 1) j then owns one_file 1 j (((\<lambda>_. [])(0 := [60])) j)
        else ((\<lambda>_. [])(0 := [60])) j = []"
      using f0 owns free [OF j] by (cases "j = 0") (simp_all add: is_file_def)
  qed (use inv magic u1 in \<open>auto split: if_splits\<close>)
qed

theorem remove_file_frees_witness:
  "\<exists>w' f'. remove_entry_named one_file (tmp_window 1 []) ''a'' = Some (0, w', f') \<and>
     free_blocks f' = free_blocks one_file \<union> {60}"
  using remove_file_frees [OF one_file_ok(1) formatted_window(1) _ one_file_ok(3) _ one_file_ok(2)] by auto

end
