(* ===== verification/AppFs.thy ===== *)
theory AppFs
  imports FsStore
begin

text \<open>
  The file descriptors of user programs, \<open>appfs_*\<close> in \<open>vibeos/fs.c\<close>: a table of 16 entries, each
  with a growing buffer from the kernel heap that holds the whole file and is written back when
  the descriptor is closed. \<open>None\<close> stands for a loop that does not end, a panic of the disk
  driver, or a copy that leaves its buffer.
\<close>

section \<open>State\<close>

abbreviation (input) APP_MAX_FDS :: nat where "APP_MAX_FDS \<equiv> 16"
abbreviation (input) APP_O_READ :: u32 where "APP_O_READ \<equiv> 0x01"
abbreviation (input) APP_O_WRITE :: u32 where "APP_O_WRITE \<equiv> 0x02"
abbreviation (input) APP_O_CREAT :: u32 where "APP_O_CREAT \<equiv> 0x100"
abbreviation (input) APP_O_TRUNC :: u32 where "APP_O_TRUNC \<equiv> 0x200"

text \<open>\<open>fd_data\<close> is the memory from the address \<open>fd_buf\<close> on.\<close>

record app_fd =
  fd_used :: bool
  fd_flags :: u32
  fd_pos :: u32
  fd_size :: u32
  fd_cap :: u32
  fd_buf :: u32
  fd_data :: mem8
  fd_cwd_bno :: nat
  fd_name :: string
  fd_cwd :: string

definition zero_fd :: app_fd where
  "zero_fd = \<lparr>fd_used = False, fd_flags = 0, fd_pos = 0, fd_size = 0, fd_cap = 0, fd_buf = 0,
     fd_data = (\<lambda>_. 0), fd_cwd_bno = 0, fd_name = [], fd_cwd = []\<rparr>"

text \<open>\<open>app_fresh\<close> is what memory from \<open>malloc\<close> holds before it is written.\<close>

record appfs =
  fd_table :: "nat \<Rightarrow> app_fd"
  app_cwd_bno :: nat
  app_cwd :: string
  app_win :: fs_win
  app_files :: fs
  app_heap :: heap
  app_fresh :: mem8

definition put_fd :: "appfs \<Rightarrow> nat \<Rightarrow> app_fd \<Rightarrow> appfs" where
  "put_fd s i fd = s\<lparr>fd_table := (fd_table s)(i := fd)\<rparr>"

section \<open>The table and the buffers\<close>

definition appfs_reset_table :: "appfs \<Rightarrow> appfs" where
  "appfs_reset_table s =
     foldl (\<lambda>s i. let fd = fd_table s i;
                      s = (if fd_buf fd \<noteq> 0 then s\<lparr>app_heap := free (app_heap s) (fd_buf fd)\<rparr> else s)
                  in put_fd s i zero_fd) s [0 ..< APP_MAX_FDS]"

definition appfs_set_cwd :: "appfs \<Rightarrow> nat \<Rightarrow> string \<Rightarrow> appfs option" where
  "appfs_set_cwd s cwd_bno cwd =
     map_option (\<lambda>c. (appfs_reset_table s)\<lparr>app_cwd_bno := bno_or_root cwd_bno, app_cwd := c\<rparr>)
       (fits 32 (cwd_or_root cwd))"

definition appfs_path_to_name :: "string \<Rightarrow> string option" where
  "appfs_path_to_name path =
     (let p = skip_slashes path; seg = takeWhile (\<lambda>c. c \<noteq> CHR ''/'') p in
      if p = [] then None
      else if length seg > 19 then None
      else if drop (length seg) p \<noteq> [] then None
      else Some seg)"

definition appfs_find_fd :: "appfs \<Rightarrow> nat option" where
  "appfs_find_fd s = find (\<lambda>i. \<not> fd_used (fd_table s i)) [0 ..< APP_MAX_FDS]"

text \<open>Doubling the capacity; \<open>Some None\<close> is the overflow the code notices.\<close>

partial_function (option) grow_cap :: "u32 \<Rightarrow> u32 \<Rightarrow> u32 \<Rightarrow> u32 option option" where
  "grow_cap cap new_cap need =
     (if new_cap < need then
        let new_cap = new_cap * 2
        in if new_cap < cap then Some None else grow_cap cap new_cap need
      else Some (Some new_cap))"

definition appfs_reserve :: "appfs \<Rightarrow> nat \<Rightarrow> u32 \<Rightarrow> (int \<times> appfs) option" where
  "appfs_reserve s i need =
     (let fd = fd_table s i in
      if need \<le> fd_cap fd then Some (0, s)
      else case grow_cap (fd_cap fd) (if fd_cap fd \<noteq> 0 then fd_cap fd else 256) need of
          None \<Rightarrow> None
        | Some None \<Rightarrow> Some (-1, s)
        | Some (Some new_cap) \<Rightarrow>
            (let (nbuf, h) = malloc (app_heap s) new_cap in
             if nbuf = 0 then Some (-1, s\<lparr>app_heap := h\<rparr>)
             else let data = (if fd_buf fd \<noteq> 0 \<and> fd_size fd \<noteq> 0
                              then mem_copy (app_fresh s) 0 (bytes_at (fd_data fd) 0 (unat (fd_size fd)))
                              else app_fresh s);
                      h = (if fd_buf fd \<noteq> 0 then free h (fd_buf fd) else h)
                  in Some (0, put_fd (s\<lparr>app_heap := h\<rparr>) i
                       (fd\<lparr>fd_buf := nbuf, fd_cap := new_cap, fd_data := data\<rparr>))))"

text \<open>The window of the descriptor's directory.\<close>

definition fd_window :: "appfs \<Rightarrow> app_fd \<Rightarrow> fs_win" where
  "fd_window s fd = tmp_window (if fd_cwd_bno fd \<noteq> 0 then fd_cwd_bno fd else app_cwd_bno s)
     (if fd_cwd fd \<noteq> [] then fd_cwd fd else app_cwd s)"

definition upd_size :: "appfs \<Rightarrow> nat \<Rightarrow> u32 \<Rightarrow> appfs" where
  "upd_size s i n = put_fd s i ((fd_table s i)\<lparr>fd_size := n\<rparr>)"

definition no_buffer :: "appfs \<Rightarrow> nat \<Rightarrow> u32 \<Rightarrow> appfs" where
  "no_buffer s i n = put_fd s i ((fd_table s i)\<lparr>fd_size := n, fd_cap := 0, fd_buf := 0\<rparr>)"

definition appfs_load_file :: "appfs \<Rightarrow> nat \<Rightarrow> string \<Rightarrow> u32 \<Rightarrow> (int \<times> appfs) option" where
  "appfs_load_file s i name flags =
     (case load_current_dir (app_files s) (fd_window s (fd_table s i)) of
        None \<Rightarrow> None
      | Some (None, w, f) \<Rightarrow> Some (-1, s\<lparr>app_win := w, app_files := f\<rparr>)
      | Some (Some db, w, f) \<Rightarrow>
        (let s = s\<lparr>app_win := w, app_files := f\<rparr> in
         case find_entry_index db name 0 of
           None \<Rightarrow> if flags AND APP_O_CREAT = 0 then Some (-2, s) else Some (0, no_buffer s i 0)
         | Some idx \<Rightarrow>
           (let s = no_buffer s i (of_nat (e_size db idx)) in
            if e_size db idx = 0 then
              (case appfs_reserve s i 1 of
                 None \<Rightarrow> None
               | Some (rc, s) \<Rightarrow>
                   if rc \<noteq> 0 then Some (-3, s)
                   else Some (0, put_fd s i ((fd_table s i)\<lparr>fd_size := 0, fd_data := (fd_data (fd_table s i))(0 := 0)\<rparr>)))
            else case appfs_reserve s i (of_nat (e_size db idx)) of
                None \<Rightarrow> None
              | Some (rc, s) \<Rightarrow>
                  if rc \<noteq> 0 then Some (-3, s)
                  else case load_file_bytes (app_files s) w name (unat (fd_cap (fd_table s i))) of
                      None \<Rightarrow> None
                    | Some ((rc, bs), w, f) \<Rightarrow>
                        let s = s\<lparr>app_win := w, app_files := f\<rparr>; fd = fd_table s i in
                        if rc \<noteq> 0 then Some (-4, s)
                        else Some (0, put_fd s i
                               (fd\<lparr>fd_size := of_nat (length bs), fd_data := mem_copy (fd_data fd) 0 bs\<rparr>)))))"

text \<open>Writing back; without a buffer the code passes an empty text, which is right for size 0 only.\<close>

definition appfs_commit :: "appfs \<Rightarrow> nat \<Rightarrow> (int \<times> appfs) option" where
  "appfs_commit s i =
     (let fd = fd_table s i; w = fd_window s fd in
      if \<not> fd_used fd then Some (-1, s\<lparr>app_win := tmp_window 0 []\<rparr>)
      else if fd_buf fd = 0 \<and> fd_size fd \<noteq> 0 then None
      else case store_file_bytes (app_files s) w (fd_name fd) (bytes_at (fd_data fd) 0 (unat (fd_size fd))) of
          None \<Rightarrow> None
        | Some (rc, f) \<Rightarrow> Some (if rc \<noteq> 0 then -1 else 0, s\<lparr>app_win := w, app_files := f\<rparr>))"

section \<open>The calls of a program\<close>

definition valid_fd :: "appfs \<Rightarrow> int \<Rightarrow> bool" where
  "valid_fd s k \<longleftrightarrow> 0 \<le> k \<and> k < int APP_MAX_FDS \<and> fd_used (fd_table s (nat k))"

definition drop_fd :: "appfs \<Rightarrow> nat \<Rightarrow> appfs" where
  "drop_fd s i = (let fd = fd_table s i;
                      s = (if fd_buf fd \<noteq> 0 then s\<lparr>app_heap := free (app_heap s) (fd_buf fd)\<rparr> else s)
                  in put_fd s i zero_fd)"

definition appfs_close_fd :: "appfs \<Rightarrow> int \<Rightarrow> (int \<times> appfs) option" where
  "appfs_close_fd s k =
     (if \<not> valid_fd s k then Some (-1, s)
      else let i = nat k; fl = fd_flags (fd_table s i) in
        if fl AND APP_O_WRITE \<noteq> 0 \<or> fl AND APP_O_CREAT \<noteq> 0 \<or> fl AND APP_O_TRUNC \<noteq> 0 then
          (case appfs_commit s i of
             None \<Rightarrow> None
           | Some (rc, s) \<Rightarrow> if rc \<noteq> 0 then Some (-1, s) else Some (0, drop_fd s i))
        else Some (0, drop_fd s i))"

fun close_loop :: "nat list \<Rightarrow> int \<Rightarrow> appfs \<Rightarrow> (int \<times> appfs) option" where
  "close_loop [] rc s = Some (rc, s)"
| "close_loop (i # is) rc s =
     (if fd_used (fd_table s i) then
        case appfs_close_fd s (int i) of
          None \<Rightarrow> None
        | Some (r, s) \<Rightarrow> close_loop is (if r \<noteq> 0 then -1 else rc) s
      else close_loop is rc s)"

definition appfs_close_all :: "appfs \<Rightarrow> (int \<times> appfs) option" where
  "appfs_close_all s = close_loop [0 ..< APP_MAX_FDS] 0 s"

text \<open>The directory and the name of the file to open.\<close>

definition open_target :: "appfs \<Rightarrow> string \<Rightarrow> ((nat \<times> string \<times> string) option \<times> appfs) option" where
  "open_target s path =
     (if strchr path (CHR ''/'') \<noteq> None \<or> char_at path 0 = CHR ''~'' then
        (case resolve_fs_target 32 (app_files s) (app_win s) path of
           None \<Rightarrow> None
         | Some (None, f) \<Rightarrow> Some (None, s\<lparr>app_files := f\<rparr>)
         | Some (Some (b, c, leaf), f) \<Rightarrow>
             if leaf = [] then Some (None, s\<lparr>app_files := f\<rparr>)
             else Some (Some (bno_or_root b, cwd_or_root c, leaf), s\<lparr>app_files := f\<rparr>))
      else case appfs_path_to_name path of
          None \<Rightarrow> Some (None, s)
        | Some name \<Rightarrow> Some (Some (bno_or_root (app_cwd_bno s), cwd_or_root (app_cwd s), name), s))"

definition open_trunc :: "appfs \<Rightarrow> nat \<Rightarrow> u32 \<Rightarrow> (int \<times> appfs) option" where
  "open_trunc s i flags =
     (if flags AND APP_O_TRUNC = 0 then Some (int i + 3, put_fd s i ((fd_table s i)\<lparr>fd_pos := 0\<rparr>))
      else let s = upd_size s i 0 in
        if fd_cap (fd_table s i) = 0 then
          (case appfs_reserve s i 1 of
             None \<Rightarrow> None
           | Some (rc, s) \<Rightarrow> if rc \<noteq> 0 then Some (-4, put_fd s i zero_fd)
                             else Some (int i + 3, put_fd s i ((fd_table s i)\<lparr>fd_pos := 0\<rparr>)))
        else Some (int i + 3, put_fd s i ((fd_table s i)\<lparr>fd_pos := 0\<rparr>)))"

definition appfs_open :: "appfs \<Rightarrow> string \<Rightarrow> u32 \<Rightarrow> (int \<times> appfs) option" where
  "appfs_open s path flags =
     (case appfs_find_fd s of
        None \<Rightarrow> Some (-2, s)
      | Some i \<Rightarrow>
        (case open_target s path of
           None \<Rightarrow> None
         | Some (None, s) \<Rightarrow> Some (-1, put_fd s i zero_fd)
         | Some (Some (b, c, name), s) \<Rightarrow>
           (let s = put_fd s i (zero_fd\<lparr>fd_used := True, fd_flags := flags, fd_cwd_bno := b, fd_cwd := c,
                                        fd_name := copy_name20 name\<rparr>) in
            if flags AND APP_O_WRITE \<noteq> 0 \<and> flags AND (APP_O_CREAT OR APP_O_TRUNC) \<noteq> 0
            then Some (int i + 3, s)
            else case appfs_load_file s i name flags of
                None \<Rightarrow> None
              | Some (rc, s) \<Rightarrow>
                if rc \<noteq> 0 \<and> (flags AND APP_O_READ \<noteq> 0 \<or> flags AND APP_O_CREAT = 0)
                then Some (-3, put_fd s i zero_fd)
                else open_trunc (if rc \<noteq> 0 then no_buffer s i 0 else s) i flags)))"

definition appfs_read :: "appfs \<Rightarrow> int \<Rightarrow> u32 \<Rightarrow> (int \<times> u8 list) \<times> appfs" where
  "appfs_read s fd_no sz =
     (if \<not> valid_fd s (fd_no - 3) then ((-1, []), s)
      else let i = nat (fd_no - 3); fd = fd_table s i in
        if fd_flags fd AND APP_O_READ = 0 then ((-1, []), s)
        else if fd_pos fd \<ge> fd_size fd then ((0, []), s)
        else let remain = fd_size fd - fd_pos fd; chunk = (if sz > remain then remain else sz)
             in ((sint chunk, bytes_at (fd_data fd) (unat (fd_pos fd)) (unat chunk)),
                 put_fd s i (fd\<lparr>fd_pos := fd_pos fd + chunk\<rparr>)))"

definition appfs_write :: "appfs \<Rightarrow> int \<Rightarrow> u8 list \<Rightarrow> (int \<times> appfs) option" where
  "appfs_write s fd_no bs =
     (if \<not> valid_fd s (fd_no - 3) then Some (-1, s)
      else let i = nat (fd_no - 3); sz = of_nat (length bs) :: u32 in
        if fd_flags (fd_table s i) AND APP_O_WRITE = 0 then Some (-1, s)
        else let need = fd_pos (fd_table s i) + sz in
          case (if need > fd_cap (fd_table s i) then appfs_reserve s i need else Some (0, s)) of
            None \<Rightarrow> None
          | Some (rc, s) \<Rightarrow>
            if rc \<noteq> 0 then Some (-1, s)
            else let fd = fd_table s i in
              if unat (fd_pos fd) + length bs > unat (fd_cap fd) then None
              else let p = fd_pos fd + sz
                   in Some (sint sz, put_fd s i (fd\<lparr>fd_data := mem_copy (fd_data fd) (unat (fd_pos fd)) bs,
                        fd_pos := p, fd_size := (if p > fd_size fd then p else fd_size fd)\<rparr>)))"

definition appfs_seek :: "appfs \<Rightarrow> int \<Rightarrow> int \<Rightarrow> int \<Rightarrow> (int \<times> appfs) option" where
  "appfs_seek s fd_no offset whence =
     (if \<not> valid_fd s (fd_no - 3) then Some (-1, s)
      else let i = nat (fd_no - 3); fd = fd_table s i in
        if whence \<noteq> 0 \<and> whence \<noteq> 1 \<and> whence \<noteq> 2 then Some (-1, s)
        else let base = (if whence = 0 then 0 else if whence = 1 then sint (fd_pos fd) else sint (fd_size fd));
                 nxt = base + offset; n = of_int nxt :: u32
             in if nxt < -(2 ^ 31) \<or> nxt \<ge> 2 ^ 31 then None
                else if nxt < 0 then Some (-1, s)
                else if n > fd_size fd then
                  if fd_flags fd AND APP_O_WRITE = 0 then Some (-1, s)
                  else case (if n > fd_cap fd then appfs_reserve s i n else Some (0, s)) of
                      None \<Rightarrow> None
                    | Some (rc, s) \<Rightarrow>
                      if rc \<noteq> 0 then Some (-1, s)
                      else let fd = fd_table s i in
                        Some (nxt, put_fd s i (fd\<lparr>fd_pos := n, fd_size := n,
                          fd_data := mem_fill (fd_data fd) (unat (fd_size fd)) (unat (n - fd_size fd)) 0\<rparr>))
                else Some (nxt, put_fd s i (fd\<lparr>fd_pos := n\<rparr>)))"

definition appfs_tell :: "appfs \<Rightarrow> int \<Rightarrow> int" where
  "appfs_tell s fd_no = (if \<not> valid_fd s (fd_no - 3) then -1 else sint (fd_pos (fd_table s (nat (fd_no - 3)))))"

definition appfs_close :: "appfs \<Rightarrow> int \<Rightarrow> (int \<times> appfs) option" where
  "appfs_close s fd_no = appfs_close_fd s (fd_no - 3)"

section \<open>Buffers are live blocks of the heap\<close>

text \<open>
  \<open>buf_ok A s\<close>: with the live blocks \<open>A\<close>, every descriptor without a buffer has capacity 0, every
  other one owns a live block that holds its capacity, and no two share a block. Capacities are
  0 or powers of two from 256 on.
\<close>

definition cap_ok :: "u32 \<Rightarrow> bool" where
  "cap_ok c \<longleftrightarrow> c = 0 \<or> (\<exists>k \<le> 23. c = 2 ^ (8 + k))"

definition buf_ok :: "(u32 \<rightharpoonup> nat) \<Rightarrow> appfs \<Rightarrow> bool" where
  "buf_ok A s \<longleftrightarrow> alloc_inv (app_heap s) A \<and>
     (\<forall>i < 16. if fd_buf (fd_table s i) = 0 then fd_cap (fd_table s i) = 0
               else \<exists>n. A (fd_buf (fd_table s i)) = Some n \<and> unat (fd_cap (fd_table s i)) \<le> n) \<and>
     (\<forall>i < 16. \<forall>j < 16. i \<noteq> j \<longrightarrow> fd_buf (fd_table s i) \<noteq> 0 \<longrightarrow> fd_buf (fd_table s i) \<noteq> fd_buf (fd_table s j)) \<and>
     (\<forall>i < 16. cap_ok (fd_cap (fd_table s i)))"

definition range_ok :: "app_fd \<Rightarrow> bool" where
  "range_ok fd \<longleftrightarrow> fd_pos fd \<le> fd_size fd \<and> fd_size fd \<le> fd_cap fd"

definition appfs_ok :: "(u32 \<rightharpoonup> nat) \<Rightarrow> appfs \<Rightarrow> bool" where
  "appfs_ok A s \<longleftrightarrow> buf_ok A s \<and> (\<forall>i < 16. range_ok (fd_table s i))"

lemma put_fd_simps [simp]:
  "fd_table (put_fd s i fd) = (fd_table s)(i := fd)" "app_heap (put_fd s i fd) = app_heap s"
  "app_files (put_fd s i fd) = app_files s" "app_cwd_bno (put_fd s i fd) = app_cwd_bno s"
  "app_cwd (put_fd s i fd) = app_cwd s" "app_win (put_fd s i fd) = app_win s" "app_fresh (put_fd s i fd) = app_fresh s"
  by (simp_all add: put_fd_def)

text \<open>The parts of the state that do not concern the buffers.\<close>

lemma buf_ok_cong:
  "app_heap s' = app_heap s \<Longrightarrow> (\<And>i. i < 16 \<Longrightarrow> fd_buf (fd_table s' i) = fd_buf (fd_table s i) \<and>
     fd_cap (fd_table s' i) = fd_cap (fd_table s i)) \<Longrightarrow> buf_ok A s' = buf_ok A s"
  by (simp add: buf_ok_def cong: all_cong)

lemma buf_ok_put:
  assumes "buf_ok A s" "fd_buf fd = fd_buf (fd_table s i)" "fd_cap fd = fd_cap (fd_table s i)"
  shows "buf_ok A (put_fd s i fd)"
  by (rule iffD2 [OF buf_ok_cong assms(1)]) (use assms(2,3) in auto)

text \<open>An entry that gives up its buffer, which stays live (or never was).\<close>

lemma buf_ok_no_buffer:
  "buf_ok A s \<Longrightarrow> fd_buf fd = 0 \<Longrightarrow> fd_cap fd = 0 \<Longrightarrow> buf_ok A (put_fd s i fd)"
  unfolding buf_ok_def by (auto simp: cap_ok_def)

lemma buf_ok_drop:
  assumes ok: "buf_ok A s" and i: "i < 16" and fd: "fd_buf fd = 0" "fd_cap fd = 0" and b: "fd_buf (fd_table s i) \<noteq> 0"
  shows "buf_ok (A(fd_buf (fd_table s i) := None)) (put_fd (s\<lparr>app_heap := free (app_heap s) (fd_buf (fd_table s i))\<rparr>) i fd)"
proof -
  have "A (fd_buf (fd_table s i)) \<noteq> None" using ok i b unfolding buf_ok_def by fastforce
  then have "alloc_inv (free (app_heap s) (fd_buf (fd_table s i))) (A(fd_buf (fd_table s i) := None))"
    using kmalloc.release_live ok by (simp add: buf_ok_def)
  moreover have "fd_buf (fd_table s j) \<noteq> fd_buf (fd_table s i)" if "j < 16" "j \<noteq> i" for j
    using ok that i b unfolding buf_ok_def by metis
  moreover have "cap_ok 0" by (simp add: cap_ok_def)
  ultimately show ?thesis using ok fd unfolding buf_ok_def by auto
qed

lemma cap_ok_double: "cap_ok n \<Longrightarrow> cap_ok (n * 2)"
proof -
  assume "cap_ok n"
  then consider "n = 0" | k where "k \<le> 23" "n = 2 ^ (8 + k)" unfolding cap_ok_def by blast
  then show ?thesis
  proof cases
    case (2 k)
    have e: "n * 2 = 2 ^ (8 + Suc k)" by (simp only: 2(2) add_Suc_right power_Suc mult.commute)
    show ?thesis
    proof (cases "k = 23")
      case True
      then have "n * 2 = 0" using 2(2) by simp
      then show ?thesis by (simp add: cap_ok_def)
    next
      case False
      then have "Suc k \<le> 23" using 2(1) by simp
      then show ?thesis unfolding cap_ok_def e by blast
    qed
  qed (simp add: cap_ok_def)
qed

lemma cap_ok_start: "cap_ok c \<Longrightarrow> cap_ok (if c \<noteq> 0 then c else 256)"
proof -
  have "(256 :: u32) = 2 ^ (8 + 0)" by simp
  then have "cap_ok 256" unfolding cap_ok_def by blast
  then show "cap_ok c \<Longrightarrow> ?thesis" by simp
qed

lemma grow_cap_result:
  assumes "grow_cap c n need = Some (Some r)"
  shows "need \<le> r \<and> (cap_ok n \<longrightarrow> cap_ok r)"
proof -
  have "(case y of Some r \<Rightarrow> need \<le> r \<and> (cap_ok n \<longrightarrow> cap_ok r) | None \<Rightarrow> True)" if "grow_cap c n need = Some y" for y
  proof (rule grow_cap.raw_induct [OF _ that])
    fix rec :: "u32 \<Rightarrow> u32 \<Rightarrow> u32 \<Rightarrow> u32 option option" and c n need y
    assume IH: "\<And>c n need y. rec c n need = Some y \<Longrightarrow> (case y of Some r \<Rightarrow> need \<le> r \<and> (cap_ok n \<longrightarrow> cap_ok r) | None \<Rightarrow> True)"
      and step: "(if n < need then let n = n * 2 in if n < c then Some None else rec c n need
        else Some (Some n)) = Some y"
    show "case y of Some r \<Rightarrow> need \<le> r \<and> (cap_ok n \<longrightarrow> cap_ok r) | None \<Rightarrow> True"
      using step IH [of c "n * 2" need y] cap_ok_double [of n] by (cases y) (auto simp: Let_def split: if_splits)
  qed
  from this [OF assms] show ?thesis by simp
qed

lemma reserve_ok:
  assumes ok: "buf_ok A s" and i: "i < 16" and r: "appfs_reserve s i need = Some (rc, s')"
  shows "\<exists>A'. buf_ok A' s' \<and> app_files s' = app_files s \<and> app_win s' = app_win s \<and> app_cwd s' = app_cwd s \<and>
    app_cwd_bno s' = app_cwd_bno s \<and> (\<forall>j. j \<noteq> i \<longrightarrow> fd_table s' j = fd_table s j) \<and>
    (\<exists>b c d. fd_table s' i = (fd_table s i)\<lparr>fd_buf := b, fd_cap := c, fd_data := d\<rparr> \<and>
       (rc = 0 \<longrightarrow> need \<le> c \<and> (fd_buf (fd_table s i) \<noteq> 0 \<or> fd_size (fd_table s i) = 0 \<longrightarrow>
          (\<forall>k < unat (fd_size (fd_table s i)). d k = fd_data (fd_table s i) k))) \<and>
       (rc \<noteq> 0 \<longrightarrow> b = fd_buf (fd_table s i) \<and> c = fd_cap (fd_table s i) \<and> d = fd_data (fd_table s i)))"
proof -
  let ?fd = "fd_table s i"
  have inv: "alloc_inv (app_heap s) A" using ok by (simp add: buf_ok_def)
  have self: "?fd = ?fd\<lparr>fd_buf := fd_buf ?fd, fd_cap := fd_cap ?fd, fd_data := fd_data ?fd\<rparr>" by simp
  show ?thesis
  proof (cases "need \<le> fd_cap ?fd")
    case True
    then have "s' = s" "rc = 0" using r by (simp_all add: appfs_reserve_def)
    then show ?thesis using ok True
      by (intro exI [of _ A] conjI)
        (simp_all, rule exI [of _ "fd_buf ?fd"], rule exI [of _ "fd_cap ?fd"], rule exI [of _ "fd_data ?fd"], simp)
  next
    case False
    then obtain g where g: "grow_cap (fd_cap ?fd) (if fd_cap ?fd \<noteq> 0 then fd_cap ?fd else 256) need = Some g"
      using r by (auto simp: appfs_reserve_def Let_def split: option.splits)
    show ?thesis
    proof (cases g)
      case None
      then have "s' = s" "rc = -1" using r False g by (simp_all add: appfs_reserve_def Let_def)
      then show ?thesis using ok self by (intro exI [of _ A]) auto
    next
      case (Some nc)
      obtain q h where m: "malloc (app_heap s) nc = (q, h)" by fastforce
      show ?thesis
      proof (cases "q = 0")
        case True
        then have s': "s' = s\<lparr>app_heap := h\<rparr>" "rc = -1" using r False g Some m by (simp_all add: appfs_reserve_def Let_def)
        have "alloc_inv h A" using kmalloc.alloc_null [OF inv] m True by simp
        then have "buf_ok A s'" using ok by (simp add: buf_ok_def s')
        then show ?thesis using s' self by (intro exI [of _ A]) auto
      next
        case q: False
        let ?b = "fd_buf ?fd"
        define d where "d = (if ?b \<noteq> 0 \<and> fd_size ?fd \<noteq> 0
          then mem_copy (app_fresh s) 0 (bytes_at (fd_data ?fd) 0 (unat (fd_size ?fd))) else app_fresh s)"
        define h' where "h' = (if ?b \<noteq> 0 then free h ?b else h)"
        have s': "s' = put_fd (s\<lparr>app_heap := h'\<rparr>) i (?fd\<lparr>fd_buf := q, fd_cap := nc, fd_data := d\<rparr>)" "rc = 0"
          using r False g Some m q by (simp_all add: appfs_reserve_def Let_def d_def h'_def)
        have "cap_ok (fd_cap ?fd)" using ok i unfolding buf_ok_def by blast
        then have need: "need \<le> nc" "cap_ok nc" using grow_cap_result g Some cap_ok_start by simp_all
        have keep: "d k = fd_data ?fd k" if "?b \<noteq> 0 \<or> fd_size ?fd = 0" "k < unat (fd_size ?fd)" for k
          using that by (auto simp: d_def mem_copy_def)
        obtain A' where A': "alloc_inv h' A'" "\<exists>n. A' q = Some n \<and> unat nc \<le> n"
          "\<And>p. p \<noteq> ?b \<Longrightarrow> A p \<noteq> None \<Longrightarrow> A' p = A p \<and> p \<noteq> q"
        proof (cases "?b = 0")
          case True
          obtain n where n: "n \<ge> unat nc" "alloc_inv h (A(q \<mapsto> n))" "A q = None"
            using kmalloc.alloc_block [OF inv m q] by blast
          show thesis
          proof (rule that [of "A(q \<mapsto> n)"])
            show "\<And>p. A p \<noteq> None \<Longrightarrow> (A(q \<mapsto> n)) p = A p \<and> p \<noteq> q" using n(3) by auto
          qed (use n True in \<open>simp_all add: h'_def\<close>)
        next
          case b: False
          then obtain k where "A ?b = Some k" using ok i unfolding buf_ok_def by fastforce
          from kmalloc.exchange [OF inv this m q] obtain n where
            n: "n \<ge> unat nc" "alloc_inv (free h ?b) (A(q \<mapsto> n, ?b := None))" "q \<noteq> ?b" by blast
          have "A q = None" using kmalloc.alloc_block [OF inv m q] by blast
          show thesis
          proof (rule that [of "A(q \<mapsto> n, ?b := None)"])
            show "\<And>p. p \<noteq> ?b \<Longrightarrow> A p \<noteq> None \<Longrightarrow> (A(q \<mapsto> n, ?b := None)) p = A p \<and> p \<noteq> q"
              using \<open>A q = None\<close> by auto
          qed (use n b in \<open>simp_all add: h'_def\<close>)
        qed
        have oth: "fd_buf (fd_table s j) \<noteq> 0 \<Longrightarrow> (\<exists>n. A' (fd_buf (fd_table s j)) = Some n \<and> unat (fd_cap (fd_table s j)) \<le> n) \<and>
            fd_buf (fd_table s j) \<noteq> q" if ji: "j < 16" "j \<noteq> i" for j
        proof -
          assume nz: "fd_buf (fd_table s j) \<noteq> 0"
          then obtain n where n: "A (fd_buf (fd_table s j)) = Some n" "unat (fd_cap (fd_table s j)) \<le> n"
            using ok ji(1) unfolding buf_ok_def by metis
          have "fd_buf (fd_table s j) \<noteq> ?b" using ok ji i nz unfolding buf_ok_def by metis
          from A'(3) [OF this] n show ?thesis by simp
        qed
        have "buf_ok A' s'"
          unfolding buf_ok_def
        proof (intro conjI allI impI)
          show "alloc_inv (app_heap s') A'" using A'(1) by (simp add: s')
          fix j :: nat assume j: "j < 16"
          show "if fd_buf (fd_table s' j) = 0 then fd_cap (fd_table s' j) = 0
              else \<exists>n. A' (fd_buf (fd_table s' j)) = Some n \<and> unat (fd_cap (fd_table s' j)) \<le> n"
            using A'(2) q oth [OF j] ok j unfolding buf_ok_def by (cases "j = i") (auto simp: s')
        next
          fix j k :: nat assume a: "j < 16" "k < 16" "j \<noteq> k" "fd_buf (fd_table s' j) \<noteq> 0"
          have "fd_buf (fd_table s j) \<noteq> 0 \<longrightarrow> fd_buf (fd_table s j) \<noteq> fd_buf (fd_table s k)"
            using ok a(1-3) unfolding buf_ok_def by metis
          then show "fd_buf (fd_table s' j) \<noteq> fd_buf (fd_table s' k)"
            using a oth [of j] oth [of k] q by (cases "j = i"; cases "k = i") (auto simp: s')
        next
          fix j :: nat assume "j < 16"
          then show "cap_ok (fd_cap (fd_table s' j))" using ok need(2) unfolding buf_ok_def by (simp add: s')
        qed
        then show ?thesis using s' need keep
          by (intro exI [of _ A'] conjI)
            (simp_all, rule exI [of _ q], rule exI [of _ nc], rule exI [of _ d], auto)
      qed
    qed
  qed
qed

lemma sint_small: "unat (w :: u32) < 2 ^ 31 \<Longrightarrow> sint w = int (unat w)"
proof -
  assume "unat w < 2 ^ 31"
  then have "nat (uint w) < 2147483648" by simp
  then have "uint w < 2147483648" by linarith
  then have u: "uint w < 2 ^ 31" by simp
  have "- (2 ^ 31) \<le> uint w" by (rule order_trans [of _ 0]) simp_all
  then show ?thesis using signed_take_bit_int_eq_self [of 31 "uint w"] u by (simp add: sint_uint)
qed

lemma unat_2p: "n < 32 \<Longrightarrow> unat ((2 :: u32) ^ n) = 2 ^ n"
proof -
  assume "n < 32"
  then have "(2 :: nat) ^ n < 2 ^ 32" by (rule power_strict_increasing) simp
  then have "unat (of_nat (2 ^ n) :: u32) = 2 ^ n"
    unfolding unsigned_of_nat of_nat_id using \<open>n < 32\<close> by (intro take_bit_nat_eq_self) simp
  then show ?thesis by simp
qed

text \<open>Up to 2 GB the doubling ends.\<close>

lemma grow_cap_ends:
  "k \<le> 23 \<Longrightarrow> need \<le> 2 ^ 31 \<Longrightarrow> c \<le> 2 ^ (8 + k) \<Longrightarrow> \<exists>r. grow_cap c (2 ^ (8 + k)) need = Some (Some r)"
proof (induction "23 - k" arbitrary: k)
  case 0
  then have "k = 23" by simp
  then have "\<not> 2 ^ (8 + k) < need" using 0(3) by (simp add: not_less)
  then show ?case by (subst grow_cap.simps) simp
next
  case (Suc n)
  show ?case
  proof (cases "2 ^ (8 + k) < need")
    case False
    then show ?thesis by (subst grow_cap.simps) simp
  next
    case True
    have k: "Suc k \<le> 23" "n = 23 - Suc k" using Suc(2) by simp_all
    have e: "(2 :: u32) ^ (8 + k) * 2 = 2 ^ (8 + Suc k)" by (simp only: add_Suc_right power_Suc mult.commute)
    have "unat ((2 :: u32) ^ (8 + k)) = 2 ^ (8 + k)" "unat ((2 :: u32) ^ (8 + Suc k)) = 2 ^ (8 + Suc k)"
      using k(1) unat_2p by simp_all
    then have le: "(2 :: u32) ^ (8 + k) \<le> 2 ^ (8 + Suc k)" by (simp add: word_le_nat_alt)
    then have c: "c \<le> 2 ^ (8 + Suc k)" using Suc.prems(3) by (rule order_trans [rotated])
    from Suc.hyps(1) [OF k(2) k(1) Suc.prems(2) c] obtain r where
      "grow_cap c (2 ^ (8 + Suc k)) need = Some (Some r)" by blast
    then show ?thesis using True c by (subst grow_cap.simps) (simp add: e Let_def not_less)
  qed
qed

lemma reserve_ends:
  assumes "buf_ok A s" "i < 16" "need \<le> 2 ^ 31"
  shows "appfs_reserve s i need \<noteq> None"
proof -
  let ?c = "fd_cap (fd_table s i)"
  have "cap_ok ?c" using assms(1,2) unfolding buf_ok_def by blast
  then have "\<exists>k. k \<le> 23 \<and> (if ?c \<noteq> 0 then ?c else 256) = 2 ^ (8 + k) \<and> ?c \<le> 2 ^ (8 + k)"
  proof (cases "?c = 0")
    case True
    then show ?thesis by (intro exI [of _ 0]) simp
  next
    case False
    then obtain k where "k \<le> 23" "?c = 2 ^ (8 + k)" using \<open>cap_ok ?c\<close> unfolding cap_ok_def by blast
    then show ?thesis using False by (intro exI [of _ k] conjI) (simp_all only: if_True order_refl simp_thms)
  qed
  then obtain k where k: "k \<le> 23" "(if ?c \<noteq> 0 then ?c else 256) = 2 ^ (8 + k)" "?c \<le> 2 ^ (8 + k)" by blast
  have "\<exists>r. grow_cap ?c (if ?c \<noteq> 0 then ?c else 256) need = Some (Some r)"
    unfolding k(2) by (rule grow_cap_ends [OF k(1) assms(3) k(3)])
  then obtain r where r: "grow_cap ?c (if ?c \<noteq> 0 then ?c else 256) need = Some (Some r)" by blast
  show ?thesis
    unfolding appfs_reserve_def Let_def r option.case by (simp split: prod.split)
qed

section \<open>A descriptor is a file with a position\<close>

definition fd_bytes :: "app_fd \<Rightarrow> u8 list" where
  "fd_bytes fd = bytes_at (fd_data fd) 0 (unat (fd_size fd))"

text \<open>Writing into a list of bytes.\<close>

definition splice :: "u8 list \<Rightarrow> nat \<Rightarrow> u8 list \<Rightarrow> u8 list" where
  "splice xs p ys = take p xs @ ys @ drop (p + length ys) xs"

lemma fd_bytes_write:
  assumes "unat p \<le> unat sz" "unat q = unat p + length bs" "\<And>k. k < unat sz \<Longrightarrow> d k = d' k"
  shows "bytes_at (mem_copy d (unat p) bs) 0 (unat (if q > sz then q else sz :: u32)) =
    splice (bytes_at d' 0 (unat sz)) (unat p) bs"
proof (rule nth_equalityI)
  show "length (bytes_at (mem_copy d (unat p) bs) 0 (unat (if q > sz then q else sz))) =
      length (splice (bytes_at d' 0 (unat sz)) (unat p) bs)"
    using assms(1,2) by (auto simp: splice_def word_less_nat_alt)
  fix k assume "k < length (bytes_at (mem_copy d (unat p) bs) 0 (unat (if q > sz then q else sz)))"
  then have k: "k < unat sz \<or> k < unat p + length bs" using assms(2) by (auto split: if_splits)
  show "bytes_at (mem_copy d (unat p) bs) 0 (unat (if q > sz then q else sz)) ! k =
      splice (bytes_at d' 0 (unat sz)) (unat p) bs ! k"
    using k assms by (auto simp: splice_def mem_copy_def nth_append word_less_nat_alt min_def)
qed

lemma appfs_ok_put:
  assumes "appfs_ok A s" "fd_buf fd = fd_buf (fd_table s i)" "fd_cap fd = fd_cap (fd_table s i)" "range_ok fd"
  shows "appfs_ok A (put_fd s i fd)"
  using assms buf_ok_put [of A s fd i] by (simp add: appfs_ok_def)

text \<open>What \<open>appfs_reserve\<close> does for a descriptor within its ranges.\<close>

lemma reserve_file:
  assumes ok: "appfs_ok A s" and i: "i < 16" and r: "appfs_reserve s i need = Some (rc, s')"
  obtains A' b c d where "appfs_ok A' s'" "app_files s' = app_files s" "app_win s' = app_win s"
    "app_cwd s' = app_cwd s" "app_cwd_bno s' = app_cwd_bno s" "\<And>j. j \<noteq> i \<Longrightarrow> fd_table s' j = fd_table s j"
    "fd_table s' i = (fd_table s i)\<lparr>fd_buf := b, fd_cap := c, fd_data := d\<rparr>"
    "rc = 0 \<Longrightarrow> need \<le> c" "\<And>k. k < unat (fd_size (fd_table s i)) \<Longrightarrow> d k = fd_data (fd_table s i) k"
proof -
  let ?fd = "fd_table s i"
  have b: "buf_ok A s" and rg: "\<And>j. j < 16 \<Longrightarrow> range_ok (fd_table s j)" using ok by (simp_all add: appfs_ok_def)
  have nb: "fd_buf ?fd \<noteq> 0 \<or> fd_size ?fd = 0"
  proof (cases "fd_buf ?fd = 0")
    case True
    then have "fd_cap ?fd = 0" using b i unfolding buf_ok_def by metis
    then show ?thesis using rg [OF i] by (simp add: range_ok_def)
  qed simp
  obtain A' bb c d where A': "buf_ok A' s'" "app_files s' = app_files s" "app_win s' = app_win s"
    "app_cwd s' = app_cwd s" "app_cwd_bno s' = app_cwd_bno s" "\<And>j. j \<noteq> i \<Longrightarrow> fd_table s' j = fd_table s j"
    "fd_table s' i = ?fd\<lparr>fd_buf := bb, fd_cap := c, fd_data := d\<rparr>"
    "rc = 0 \<longrightarrow> need \<le> c \<and> (fd_buf ?fd \<noteq> 0 \<or> fd_size ?fd = 0 \<longrightarrow> (\<forall>k < unat (fd_size ?fd). d k = fd_data ?fd k))"
    "rc \<noteq> 0 \<longrightarrow> bb = fd_buf ?fd \<and> c = fd_cap ?fd \<and> d = fd_data ?fd"
    using reserve_ok [OF b i r] by blast
  have keep: "\<And>k. k < unat (fd_size ?fd) \<Longrightarrow> d k = fd_data ?fd k" using A'(8,9) nb by blast
  have grow: "fd_cap ?fd \<le> c"
  proof (cases "rc = 0")
    case True
    show ?thesis
    proof (cases "need \<le> fd_cap ?fd")
      case True
      then have "s' = s" using r by (simp add: appfs_reserve_def)
      have "fd_cap (fd_table s' i) = c" unfolding A'(7) by simp
      then show ?thesis using \<open>s' = s\<close> by simp
    next
      case False
      then have "fd_cap ?fd \<le> need" by simp
      then show ?thesis using A'(8) \<open>rc = 0\<close> by (meson order_trans)
    qed
  qed (use A'(9) in simp)
  have "appfs_ok A' s'" unfolding appfs_ok_def
  proof (intro conjI allI impI A'(1))
    fix j :: nat assume "j < 16"
    then show "range_ok (fd_table s' j)" using rg [of j] A'(6) [of j] A'(7) grow
      by (cases "j = i") (auto simp: range_ok_def)
  qed
  with A' keep show thesis using that by blast
qed

lemma write_ok:
  assumes ok: "appfs_ok A s" and v: "valid_fd s (fd_no - 3)" and i: "i = nat (fd_no - 3)"
    and fl: "fd_flags (fd_table s i) AND APP_O_WRITE \<noteq> 0"
    and len: "unat (fd_pos (fd_table s i)) + length bs < 2 ^ 31"
  shows "\<exists>rc s' A'. appfs_write s fd_no bs = Some (rc, s') \<and> appfs_ok A' s' \<and> app_files s' = app_files s \<and>
    app_cwd s' = app_cwd s \<and> app_cwd_bno s' = app_cwd_bno s \<and>
    (\<forall>j. j \<noteq> i \<longrightarrow> fd_table s' j = fd_table s j) \<and>
    (\<exists>b c d p n. fd_table s' i = (fd_table s i)\<lparr>fd_buf := b, fd_cap := c, fd_data := d, fd_pos := p, fd_size := n\<rparr>) \<and>
    (if rc = int (length bs) then fd_bytes (fd_table s' i) = splice (fd_bytes (fd_table s i)) (unat (fd_pos (fd_table s i))) bs \<and>
        unat (fd_pos (fd_table s' i)) = unat (fd_pos (fd_table s i)) + length bs
     else rc = -1 \<and> fd_bytes (fd_table s' i) = fd_bytes (fd_table s i) \<and> fd_pos (fd_table s' i) = fd_pos (fd_table s i))"
proof -
  let ?fd = "fd_table s i"
  let ?sz = "of_nat (length bs) :: u32"
  have i16: "i < 16" using v i by (auto simp: valid_fd_def)
  have sz1: "unat ?sz = length bs" using len by (simp add: unsigned_of_nat take_bit_nat_eq_self)
  then have "uint ?sz = int (length bs)" by (simp add: uint_nat)
  then have sz: "unat ?sz = length bs" "sint ?sz = int (length bs)"
    using sz1 len by (simp_all add: sint_uint signed_take_bit_int_eq_self)
  have need: "unat (fd_pos ?fd + ?sz) = unat (fd_pos ?fd) + length bs"
    using len sz by (simp add: unat_word_ariths)
  let ?res = "if fd_pos ?fd + ?sz > fd_cap ?fd then appfs_reserve s i (fd_pos ?fd + ?sz) else Some (0, s)"
  obtain r s1 A1 b c d where S: "?res = Some (r, s1)" "appfs_ok A1 s1" "app_files s1 = app_files s" "app_cwd s1 = app_cwd s"
    "app_cwd_bno s1 = app_cwd_bno s" "\<And>j. j \<noteq> i \<Longrightarrow> fd_table s1 j = fd_table s j"
    "fd_table s1 i = ?fd\<lparr>fd_buf := b, fd_cap := c, fd_data := d\<rparr>"
    "r = 0 \<Longrightarrow> fd_pos ?fd + ?sz \<le> c" "\<And>k. k < unat (fd_size ?fd) \<Longrightarrow> d k = fd_data ?fd k"
  proof (cases "fd_pos ?fd + ?sz > fd_cap ?fd")
    case True
    have b: "buf_ok A s" using ok by (simp add: appfs_ok_def)
    have "fd_pos ?fd + ?sz \<le> 2 ^ 31" using need len by (simp add: word_le_nat_alt)
    then have "appfs_reserve s i (fd_pos ?fd + ?sz) \<noteq> None" by (rule reserve_ends [OF b i16])
    then obtain r s1 where rs: "appfs_reserve s i (fd_pos ?fd + ?sz) = Some (r, s1)" by auto
    show thesis
      by (rule reserve_file [OF ok i16 rs], rule that [of r s1])
        (simp add: True rs, assumption, assumption, assumption, assumption, blast, assumption, blast, blast)
  next
    case False
    have res: "?res = Some (0, s)" by (rule if_not_P [OF False])
    have le: "fd_pos ?fd + ?sz \<le> fd_cap ?fd" using False by simp
    show thesis
      by (rule that [OF res ok, of "fd_data ?fd" "fd_cap ?fd" "fd_buf ?fd"]) (simp_all add: le)
  qed
  have eq: "appfs_write s fd_no bs = (if r \<noteq> 0 then Some (-1, s1)
      else if unat (fd_pos ?fd) + length bs > unat c then None
      else Some (sint ?sz, put_fd s1 i ((fd_table s1 i)\<lparr>fd_data := mem_copy d (unat (fd_pos ?fd)) bs,
             fd_pos := fd_pos ?fd + ?sz,
             fd_size := (if fd_pos ?fd + ?sz > fd_size ?fd then fd_pos ?fd + ?sz else fd_size ?fd)\<rparr>)))"
    using v fl S(1) unfolding appfs_write_def Let_def i [symmetric] by (simp add: S(7))
  show ?thesis
  proof (cases "r = 0")
    case False
    have same: "fd_bytes (fd_table s1 i) = fd_bytes ?fd" "fd_pos (fd_table s1 i) = fd_pos ?fd"
      unfolding fd_bytes_def using S(9) by (auto simp: S(7) intro!: bytes_at_cong)
    have ex: "\<exists>b c d p n. fd_table s1 i = ?fd\<lparr>fd_buf := b, fd_cap := c, fd_data := d, fd_pos := p, fd_size := n\<rparr>"
      unfolding S(7) by (intro exI [of _ b] exI [of _ c] exI [of _ d] exI [of _ "fd_pos ?fd"] exI [of _ "fd_size ?fd"]) simp
    show ?thesis
      by (rule exI [of _ "-1"], rule exI [of _ s1], rule exI [of _ A1])
        (use False eq S(2-6) same ex in simp)
  next
    case True
    have le: "unat (fd_pos ?fd) + length bs \<le> unat c" using S(8) [OF True] need by (simp add: word_le_nat_alt)
    define fd2 where "fd2 = (fd_table s1 i)\<lparr>fd_data := mem_copy d (unat (fd_pos ?fd)) bs, fd_pos := fd_pos ?fd + ?sz,
             fd_size := (if fd_pos ?fd + ?sz > fd_size ?fd then fd_pos ?fd + ?sz else fd_size ?fd)\<rparr>"
    have w: "appfs_write s fd_no bs = Some (int (length bs), put_fd s1 i fd2)"
      using eq True le sz(2) by (simp add: fd2_def)
    have rg: "range_ok (fd_table s1 i)" "range_ok ?fd" using S(2) ok i16 by (simp_all add: appfs_ok_def)
    have "range_ok fd2" using rg le need S(8) [OF True] by (auto simp: fd2_def range_ok_def S(7))
    then have ok2: "appfs_ok A1 (put_fd s1 i fd2)" using appfs_ok_put [OF S(2)] by (simp add: fd2_def)
    have p: "unat (fd_pos ?fd) \<le> unat (fd_size ?fd)" using rg(2) by (simp add: range_ok_def word_le_nat_alt)
    have "fd_bytes fd2 = splice (fd_bytes ?fd) (unat (fd_pos ?fd)) bs"
      using fd_bytes_write [OF p need, of d "fd_data ?fd"] S(9) by (simp add: fd_bytes_def fd2_def)
    moreover have "\<exists>b c d p n. fd2 = ?fd\<lparr>fd_buf := b, fd_cap := c, fd_data := d, fd_pos := p, fd_size := n\<rparr>"
      unfolding fd2_def S(7)
      by (intro exI [of _ b] exI [of _ c] exI [of _ "mem_copy d (unat (fd_pos ?fd)) bs"] exI [of _ "fd_pos ?fd + ?sz"]
            exI [of _ "if fd_pos ?fd + ?sz > fd_size ?fd then fd_pos ?fd + ?sz else fd_size ?fd"]) simp
    moreover have "unat (fd_pos fd2) = unat (fd_pos ?fd) + length bs" using need by (simp add: fd2_def)
    ultimately show ?thesis
      by (intro exI [of _ "int (length bs)"] exI [of _ "put_fd s1 i fd2"] exI [of _ A1])
        (use w ok2 S(3-6) in simp)
  qed
qed

text \<open>Reading and moving the position.\<close>

lemma take_drop_bytes_at: "take n (drop p (bytes_at m 0 sz)) = bytes_at m p (min n (sz - p))"
proof (rule nth_equalityI)
  fix k assume "k < length (take n (drop p (bytes_at m 0 sz)))"
  then have "k < n" "p + k < sz" by auto
  then show "take n (drop p (bytes_at m 0 sz)) ! k = bytes_at m p (min n (sz - p)) ! k" by simp
qed simp

lemma read_ok:
  assumes ok: "appfs_ok A s" and v: "valid_fd s (fd_no - 3)" and i: "i = nat (fd_no - 3)"
    and fl: "fd_flags (fd_table s i) AND APP_O_READ \<noteq> 0" and sz: "sz < 2 ^ 31"
  shows "\<exists>s'. appfs_read s fd_no sz =
      ((int (length (take (unat sz) (drop (unat (fd_pos (fd_table s i))) (fd_bytes (fd_table s i))))),
        take (unat sz) (drop (unat (fd_pos (fd_table s i))) (fd_bytes (fd_table s i)))), s') \<and>
    appfs_ok A s' \<and> s' = put_fd s i ((fd_table s i)\<lparr>fd_pos := fd_pos (fd_table s' i)\<rparr>) \<and>
    unat (fd_pos (fd_table s' i)) = unat (fd_pos (fd_table s i)) +
      length (take (unat sz) (drop (unat (fd_pos (fd_table s i))) (fd_bytes (fd_table s i))))"
proof -
  let ?fd = "fd_table s i"
  have i16: "i < 16" using v i by (auto simp: valid_fd_def)
  have rg: "range_ok ?fd" using ok i16 by (simp add: appfs_ok_def)
  then have ps: "unat (fd_pos ?fd) \<le> unat (fd_size ?fd)" by (simp add: range_ok_def word_le_nat_alt)
  show ?thesis
  proof (cases "fd_pos ?fd \<ge> fd_size ?fd")
    case True
    then have e: "fd_pos ?fd = fd_size ?fd" using rg by (simp add: range_ok_def)
    have "put_fd s i (?fd\<lparr>fd_pos := fd_size ?fd\<rparr>) = s"
      unfolding e [symmetric] by (cases s) (simp add: put_fd_def fun_upd_idem)
    moreover have "appfs_read s fd_no sz = ((0, []), s)"
      using v fl True unfolding appfs_read_def Let_def i [symmetric] by simp
    moreover have "drop (unat (fd_pos ?fd)) (fd_bytes ?fd) = []" using e by (simp add: fd_bytes_def)
    ultimately show ?thesis using e ok by (intro exI [of _ s]) (simp only:, simp)
  next
    case False
    define chunk where "chunk = (if sz > fd_size ?fd - fd_pos ?fd then fd_size ?fd - fd_pos ?fd else sz)"
    have rem: "unat (fd_size ?fd - fd_pos ?fd) = unat (fd_size ?fd) - unat (fd_pos ?fd)"
      using False by (simp add: unat_sub_if_size word_le_nat_alt not_le)
    have c: "unat chunk = min (unat sz) (unat (fd_size ?fd) - unat (fd_pos ?fd))"
      using rem by (auto simp: chunk_def word_less_nat_alt)
    have clt: "unat chunk < 2 ^ 31" using c sz by (auto simp: word_less_nat_alt)
    have si: "sint chunk = int (unat chunk)" by (rule sint_small [OF clt])
    have bs: "bytes_at (fd_data ?fd) (unat (fd_pos ?fd)) (unat chunk) =
        take (unat sz) (drop (unat (fd_pos ?fd)) (fd_bytes ?fd))"
      unfolding fd_bytes_def c by (rule take_drop_bytes_at [symmetric])
    have pos: "unat (fd_pos ?fd + chunk) = unat (fd_pos ?fd) + unat chunk"
    proof -
      have "unat (fd_pos ?fd) + unat chunk \<le> unat (fd_size ?fd)" using c ps by simp
      moreover have "unat (fd_size ?fd) < 2 ^ 32" using unsigned_less [of "fd_size ?fd"] by simp
      ultimately show ?thesis by (simp add: unat_word_ariths)
    qed
    have "range_ok (?fd\<lparr>fd_pos := fd_pos ?fd + chunk\<rparr>)"
      using rg pos c ps by (simp add: range_ok_def word_le_nat_alt)
    then have ok': "appfs_ok A (put_fd s i (?fd\<lparr>fd_pos := fd_pos ?fd + chunk\<rparr>))"
      using appfs_ok_put [OF ok] by simp
    have len: "length (take (unat sz) (drop (unat (fd_pos ?fd)) (fd_bytes ?fd))) = unat chunk"
      using arg_cong [OF bs, of length] by simp
    have "appfs_read s fd_no sz = ((sint chunk, bytes_at (fd_data ?fd) (unat (fd_pos ?fd)) (unat chunk)),
        put_fd s i (?fd\<lparr>fd_pos := fd_pos ?fd + chunk\<rparr>))"
      using v fl False unfolding appfs_read_def Let_def i [symmetric] chunk_def by simp
    then show ?thesis using ok' pos unfolding si bs len
      by (intro exI [of _ "put_fd s i (?fd\<lparr>fd_pos := fd_pos ?fd + chunk\<rparr>)"]) simp
  qed
qed

lemma seek_ok:
  assumes ok: "appfs_ok A s" and v: "valid_fd s (fd_no - 3)" and i: "i = nat (fd_no - 3)"
    and wh: "whence = 0 \<or> whence = 1 \<or> whence = 2" and small: "unat (fd_size (fd_table s i)) < 2 ^ 31"
    and t: "int t = (if whence = 0 then 0 else if whence = 1 then int (unat (fd_pos (fd_table s i)))
      else int (unat (fd_size (fd_table s i)))) + offset" "t < 2 ^ 31"
  shows "\<exists>rc s' A'. appfs_seek s fd_no offset whence = Some (rc, s') \<and> appfs_ok A' s' \<and>
    app_files s' = app_files s \<and> (\<forall>j. j \<noteq> i \<longrightarrow> fd_table s' j = fd_table s j) \<and>
    (if rc = int t then unat (fd_pos (fd_table s' i)) = t \<and> fd_bytes (fd_table s' i) = fd_bytes (fd_table s i) @
          replicate (t - length (fd_bytes (fd_table s i))) 0 \<and>
        (length (fd_bytes (fd_table s i)) < t \<longrightarrow> fd_flags (fd_table s i) AND APP_O_WRITE \<noteq> 0)
     else rc = -1 \<and> length (fd_bytes (fd_table s i)) < t \<and> fd_bytes (fd_table s' i) = fd_bytes (fd_table s i) \<and>
        fd_pos (fd_table s' i) = fd_pos (fd_table s i))"
proof -
  let ?fd = "fd_table s i"
  let ?n = "of_nat t :: u32"
  have i16: "i < 16" using v i by (auto simp: valid_fd_def)
  have rg: "range_ok ?fd" using ok i16 by (simp add: appfs_ok_def)
  then have ps: "unat (fd_pos ?fd) \<le> unat (fd_size ?fd)" by (simp add: range_ok_def word_le_nat_alt)
  have si: "sint (fd_pos ?fd) = int (unat (fd_pos ?fd))" "sint (fd_size ?fd) = int (unat (fd_size ?fd))"
    by (rule sint_small, rule le_less_trans [OF ps small]) (rule sint_small [OF small])
  define nxt where "nxt = (if whence = 0 then 0 else if whence = 1 then sint (fd_pos ?fd) else sint (fd_size ?fd)) + offset"
  have nxt: "nxt = int t" using t(1) unfolding nxt_def si by simp
  have un: "unat ?n = t" using t(2) by (simp add: unsigned_of_nat take_bit_nat_eq_self)
  have wh': "\<not> (whence \<noteq> 0 \<and> whence \<noteq> 1 \<and> whence \<noteq> 2)" using wh by blast
  have rng: "\<not> (int t < - (2 ^ 31) \<or> int t \<ge> 2 ^ 31)" "\<not> int t < 0" using t(2) by auto
  have gt: "?n > fd_size ?fd \<longleftrightarrow> unat (fd_size ?fd) < t" using un by (simp add: word_less_nat_alt)
  have eq: "appfs_seek s fd_no offset whence =
      (if ?n > fd_size ?fd then
         if fd_flags ?fd AND 2 = 0 then Some (-1, s)
         else case (if ?n > fd_cap ?fd then appfs_reserve s i ?n else Some (0, s)) of
             None \<Rightarrow> None
           | Some (rc, s) \<Rightarrow>
             if rc \<noteq> 0 then Some (-1, s)
             else let fd = fd_table s i in
               Some (int t, put_fd s i (fd\<lparr>fd_pos := ?n, fd_size := ?n,
                 fd_data := mem_fill (fd_data fd) (unat (fd_size fd)) (unat (?n - fd_size fd)) 0\<rparr>))
       else Some (int t, put_fd s i (?fd\<lparr>fd_pos := ?n\<rparr>)))"
    unfolding appfs_seek_def Let_def i [symmetric] nxt_def [symmetric] if_not_P [OF wh'] nxt if_not_P [OF rng(1)]
      if_not_P [OF rng(2)] using v by (simp only: simp_thms if_False of_int_of_nat_eq)
  show ?thesis
  proof (cases "?n > fd_size ?fd")
    case False
    then have le: "t \<le> unat (fd_size ?fd)" using gt by simp
    have "range_ok (?fd\<lparr>fd_pos := ?n\<rparr>)" using rg le un by (simp add: range_ok_def word_le_nat_alt)
    then have "appfs_ok A (put_fd s i (?fd\<lparr>fd_pos := ?n\<rparr>))" using appfs_ok_put [OF ok] by simp
    then show ?thesis using eq False le un
      by (intro exI [of _ "int t"] exI [of _ "put_fd s i (?fd\<lparr>fd_pos := ?n\<rparr>)"] exI [of _ A])
        (simp add: fd_bytes_def)
  next
    case True
    then have lt: "unat (fd_size ?fd) < t" using gt by simp
    show ?thesis
    proof (cases "fd_flags ?fd AND 2 = 0")
      case nw: True
      then show ?thesis using eq True lt ok
        by (intro exI [of _ "-1"] exI [of _ s] exI [of _ A]) (simp add: fd_bytes_def)
    next
      case w: False
      let ?res = "if ?n > fd_cap ?fd then appfs_reserve s i ?n else Some (0, s)"
      obtain r s1 A1 b c d where S: "?res = Some (r, s1)" "appfs_ok A1 s1" "app_files s1 = app_files s"
        "\<And>j. j \<noteq> i \<Longrightarrow> fd_table s1 j = fd_table s j"
        "fd_table s1 i = ?fd\<lparr>fd_buf := b, fd_cap := c, fd_data := d\<rparr>"
        "r = 0 \<Longrightarrow> ?n \<le> c" "\<And>k. k < unat (fd_size ?fd) \<Longrightarrow> d k = fd_data ?fd k"
      proof (cases "?n > fd_cap ?fd")
        case g: True
        have bo: "buf_ok A s" using ok by (simp add: appfs_ok_def)
        have "?n \<le> 2 ^ 31" using un t(2) by (simp add: word_le_nat_alt)
        then have "appfs_reserve s i ?n \<noteq> None" by (rule reserve_ends [OF bo i16])
        then obtain r s1 where rs: "appfs_reserve s i ?n = Some (r, s1)" by auto
        show thesis
          by (rule reserve_file [OF ok i16 rs], rule that [of r s1])
            (simp add: g rs, assumption, assumption, blast, assumption, blast, blast)
      next
        case g: False
        have res: "?res = Some (0, s)" by (rule if_not_P [OF g])
        have le: "?n \<le> fd_cap ?fd" using g by simp
        show thesis
          by (rule that [OF res ok, of "fd_data ?fd" "fd_cap ?fd" "fd_buf ?fd"]) (simp_all add: le)
      qed
      show ?thesis
      proof (cases "r = 0")
        case False
        have same: "fd_bytes (fd_table s1 i) = fd_bytes ?fd" "fd_pos (fd_table s1 i) = fd_pos ?fd"
          unfolding fd_bytes_def using S(7) by (auto simp: S(5) intro!: bytes_at_cong)
        show ?thesis
          by (rule exI [of _ "-1"], rule exI [of _ s1], rule exI [of _ A1])
            (use False eq True w S(1-4) same lt in \<open>simp add: fd_bytes_def\<close>)
      next
        case r0: True
        define fd2 where "fd2 = (fd_table s1 i)\<lparr>fd_pos := ?n, fd_size := ?n,
          fd_data := mem_fill d (unat (fd_size ?fd)) (unat (?n - fd_size ?fd)) 0\<rparr>"
        have "appfs_seek s fd_no offset whence = Some (int t, put_fd s1 i fd2)"
          unfolding eq if_P [OF True] if_not_P [OF w] S(1) by (simp add: r0 fd2_def S(5))
        moreover have "range_ok fd2" using S(6) [OF r0] by (simp add: fd2_def range_ok_def S(5))
        then have "appfs_ok A1 (put_fd s1 i fd2)" using appfs_ok_put [OF S(2)] by (simp add: fd2_def)
        moreover have "fd_bytes fd2 = fd_bytes ?fd @ replicate (t - unat (fd_size ?fd)) 0"
        proof -
          have df: "unat (?n - fd_size ?fd) = t - unat (fd_size ?fd)"
            using True un by (simp add: unat_sub_if_size word_less_nat_alt)
          show ?thesis
          proof (rule nth_equalityI)
            fix k assume "k < length (fd_bytes fd2)"
            then have "k < t" using un by (simp add: fd_bytes_def fd2_def)
            then show "fd_bytes fd2 ! k = (fd_bytes ?fd @ replicate (t - unat (fd_size ?fd)) 0) ! k"
              using un df S(7) by (simp add: fd_bytes_def fd2_def nth_append mem_fill_def)
          qed (use un lt in \<open>simp add: fd_bytes_def fd2_def\<close>)
        qed
        ultimately show ?thesis
          by (intro exI [of _ "int t"] exI [of _ "put_fd s1 i fd2"] exI [of _ A1])
            (use S(3,4) un w in \<open>simp add: fd2_def fd_bytes_def\<close>)
      qed
    qed
  qed
qed

section \<open>Every call keeps the invariant\<close>

lemma load_blocks_length: "load_blocks f n b acc = Some bs \<Longrightarrow> length bs \<le> length acc + n"
proof (induction f n b acc rule: load_blocks.induct)
  case (1 f n b acc)
  show ?case
  proof (cases "n > 0 \<and> b \<noteq> 0")
    case False
    then show ?thesis using "1.prems" by (subst (asm) load_blocks.simps) auto
  next
    case True
    then have b: "\<not> b \<ge> 512" using "1.prems" by (subst (asm) load_blocks.simps) (auto split: if_splits)
    show ?thesis
    proof (cases "le32 (disk f b) 0 = 0x31415444")
      case m: True
      then have "load_blocks f (n - min n 4088) (unat (le32 (disk f b) 4)) (acc @ bytes_at (disk f b) 8 (min n 4088)) = Some bs"
        using "1.prems" True b by (subst (asm) load_blocks.simps) (simp add: Let_def)
      from "1.IH"(1) [OF True b refl m refl this] show ?thesis by simp
    next
      case m: False
      then have "load_blocks f (n - min n 4096) 0 (acc @ bytes_at (disk f b) 0 (min n 4096)) = Some bs"
        using "1.prems" True b by (subst (asm) load_blocks.simps) (simp add: Let_def)
      from "1.IH"(2) [OF True b refl m refl this] show ?thesis by simp
    qed
  qed
qed

lemma load_file_length:
  assumes "load_file_bytes f w name mx = Some ((rc, bs), w', f')"
  shows "length bs \<le> mx"
proof -
  obtain od w1 f1 where o: "open_dir f w name = Some (od, w1, f1)"
    using assms by (cases "open_dir f w name") (auto simp: load_file_bytes_def)
  show ?thesis
  proof (cases od)
    case None
    then show ?thesis using assms o by (simp add: load_file_bytes_def)
  next
    case (Some dl)
    obtain db leaf where dl: "dl = (db, leaf)" by fastforce
    show ?thesis
    proof (cases "find_entry_index db leaf 0")
      case None
      then show ?thesis using assms o Some dl by (simp add: load_file_bytes_def)
    next
      case (Some idx)
      consider "bs = []" | "load_blocks f1 (e_size db idx) (e_bno db idx) [] = Some bs" "e_size db idx \<le> mx"
        using assms o \<open>od = Some dl\<close> dl Some by (auto simp: load_file_bytes_def split: if_splits)
      then show ?thesis
      proof cases
        case 2
        then show ?thesis using load_blocks_length [OF 2(1)] by simp
      qed simp
    qed
  qed
qed

text \<open>Reserving for an entry whose buffer was given up, before its size is in range.\<close>

lemma reserve_fresh:
  assumes ok: "buf_ok A s" and i: "i < 16" and r: "appfs_reserve s i need = Some (rc, s')"
  obtains A' b c d where "buf_ok A' s'" "\<And>j. j \<noteq> i \<Longrightarrow> fd_table s' j = fd_table s j"
    "fd_table s' i = (fd_table s i)\<lparr>fd_buf := b, fd_cap := c, fd_data := d\<rparr>" "rc = 0 \<Longrightarrow> need \<le> c"
  using reserve_ok [OF ok i r] by blast

definition others_same :: "nat \<Rightarrow> appfs \<Rightarrow> appfs \<Rightarrow> bool" where
  "others_same i s s' \<longleftrightarrow> (\<forall>j. j \<noteq> i \<longrightarrow> fd_table s' j = fd_table s j)"

lemma no_buffer_ok: "buf_ok A s \<Longrightarrow> buf_ok A (no_buffer s i n)"
  unfolding no_buffer_def by (rule buf_ok_no_buffer) simp_all

lemma buf_ok_files [simp]: "buf_ok A (s\<lparr>app_win := w, app_files := f\<rparr>) = buf_ok A s" "buf_ok A (s\<lparr>app_files := f\<rparr>) = buf_ok A s"
  "buf_ok A (s\<lparr>app_win := w\<rparr>) = buf_ok A s"
  by (simp_all add: buf_ok_def)

lemma load_file_ok:
  assumes ok: "buf_ok A s" and i: "i < 16" and pos: "fd_pos (fd_table s i) = 0"
    and l: "appfs_load_file s i name flags = Some (rc, s')"
  shows "\<exists>A'. buf_ok A' s' \<and> others_same i s s' \<and> fd_pos (fd_table s' i) = 0 \<and> (rc = 0 \<longrightarrow> range_ok (fd_table s' i))"
proof -
  obtain dbo w f where d: "load_current_dir (app_files s) (fd_window s (fd_table s i)) = Some (dbo, w, f)"
    using l by (cases "load_current_dir (app_files s) (fd_window s (fd_table s i))") (auto simp: appfs_load_file_def)
  let ?s = "s\<lparr>app_win := w, app_files := f\<rparr>"
  show ?thesis
  proof (cases dbo)
    case None
    then have "s' = ?s" "rc = -1" using l d by (simp_all add: appfs_load_file_def)
    then show ?thesis using ok pos by (intro exI [of _ A]) (simp add: others_same_def)
  next
    case (Some db)
    show ?thesis
    proof (cases "find_entry_index db name 0")
      case None
      then have "s' = ?s \<and> rc = -2 \<or> s' = no_buffer ?s i 0 \<and> rc = 0"
        using l d Some by (simp add: appfs_load_file_def Let_def split: if_splits)
      then show ?thesis
      proof
        assume "s' = ?s \<and> rc = -2"
        then show ?thesis using ok pos by (intro exI [of _ A]) (simp add: others_same_def)
      next
        assume a: "s' = no_buffer ?s i 0 \<and> rc = 0"
        then have "buf_ok A s'" using no_buffer_ok [of A ?s i 0] ok by simp
        then show ?thesis using a pos by (intro exI [of _ A]) (simp add: others_same_def no_buffer_def range_ok_def)
      qed
    next
      case (Some idx)
      let ?n = "of_nat (e_size db idx) :: u32"
      let ?s1 = "no_buffer ?s i ?n"
      define need where "need = (if e_size db idx = 0 then 1 else ?n)"
      have b1: "buf_ok A ?s1" using no_buffer_ok [of A ?s i ?n] ok by simp
      have t1: "fd_table ?s1 j = (if j = i then (fd_table s i)\<lparr>fd_size := ?n, fd_cap := 0, fd_buf := 0\<rparr> else fd_table s j)" for j
        by (simp add: no_buffer_def)
      obtain rc1 s2 where r: "appfs_reserve ?s1 i need = Some (rc1, s2)"
        using l d \<open>dbo = Some db\<close> Some
        by (cases "appfs_reserve ?s1 i need") (auto simp: appfs_load_file_def Let_def need_def split: if_splits)
      obtain A' b c da where S: "buf_ok A' s2" "\<And>j. j \<noteq> i \<Longrightarrow> fd_table s2 j = fd_table ?s1 j"
        "fd_table s2 i = (fd_table ?s1 i)\<lparr>fd_buf := b, fd_cap := c, fd_data := da\<rparr>" "rc1 = 0 \<Longrightarrow> need \<le> c"
        by (rule reserve_fresh [OF b1 i r]) blast
      have os: "others_same i s s2" using S(2) t1 by (simp add: others_same_def)
      show ?thesis
      proof (cases "rc1 = 0")
        case False
        then have "s' = s2" "rc = -3" using l d \<open>dbo = Some db\<close> Some r
          by (auto simp: appfs_load_file_def Let_def need_def split: if_splits)
        then show ?thesis using S(1,3) os pos t1 by (intro exI [of _ A']) simp
      next
        case r0: True
        show ?thesis
        proof (cases "e_size db idx = 0")
          case True
          then have s': "s' = put_fd s2 i ((fd_table s2 i)\<lparr>fd_size := 0, fd_data := (fd_data (fd_table s2 i))(0 := 0)\<rparr>)"
            using l d \<open>dbo = Some db\<close> Some r r0 by (simp add: appfs_load_file_def Let_def need_def)
          have "buf_ok A' s'" unfolding s' by (rule buf_ok_put [OF S(1)]) simp_all
          then show ?thesis using os pos S(3) t1 by (intro exI [of _ A']) (simp add: s' others_same_def range_ok_def)
        next
          case False
          obtain rc2 bs w2 f2 where lf: "load_file_bytes (app_files s2) w name (unat (fd_cap (fd_table s2 i))) = Some ((rc2, bs), w2, f2)"
            using l d \<open>dbo = Some db\<close> Some r r0 False
            by (cases "load_file_bytes (app_files s2) w name (unat (fd_cap (fd_table s2 i)))")
              (auto simp: appfs_load_file_def Let_def need_def)
          let ?s3 = "s2\<lparr>app_win := w2, app_files := f2\<rparr>"
          show ?thesis
          proof (cases "rc2 = 0")
            case False
            then have "s' = ?s3" "rc = -4"
              using l d \<open>dbo = Some db\<close> Some r r0 \<open>e_size db idx \<noteq> 0\<close> lf
              by (simp_all add: appfs_load_file_def Let_def need_def)
            then show ?thesis using S(1,3) os pos t1 by (intro exI [of _ A']) (simp add: others_same_def)
          next
            case True
            let ?fd = "(fd_table s2 i)\<lparr>fd_size := of_nat (length bs), fd_data := mem_copy (fd_data (fd_table s2 i)) 0 bs\<rparr>"
            have s': "s' = put_fd ?s3 i ?fd"
              using l d \<open>dbo = Some db\<close> Some r r0 \<open>e_size db idx \<noteq> 0\<close> lf True
              by (simp add: appfs_load_file_def Let_def need_def)
            have "length bs \<le> unat c" using load_file_length [OF lf] S(3) by simp
            then have "unat (of_nat (length bs) :: u32) \<le> unat c"
            proof -
              assume le: "length bs \<le> unat c"
              have "unat c < 2 ^ 32" using unsigned_less [of c] by simp
              then show ?thesis using le by (simp add: unsigned_of_nat take_bit_nat_eq_self)
            qed
            then have "range_ok ?fd" using S(3) t1 pos by (simp add: range_ok_def word_le_nat_alt)
            moreover have "buf_ok A' s'" unfolding s' by (rule buf_ok_put) (use S(1) in simp_all)
            ultimately show ?thesis using os pos S(3) t1 by (intro exI [of _ A']) (simp add: s' others_same_def)
          qed
        qed
      qed
    qed
  qed
qed

lemma range_ok_zero: "fd_pos fd = 0 \<Longrightarrow> fd_size fd = 0 \<Longrightarrow> range_ok fd"
  by (simp add: range_ok_def)

lemma zero_fd_simps [simp]: "fd_buf zero_fd = 0" "fd_cap zero_fd = 0" "fd_pos zero_fd = 0" "fd_size zero_fd = 0"
  "fd_used zero_fd = False"
  by (simp_all add: zero_fd_def)

text \<open>An entry that is emptied, its buffer being live no longer or leaked.\<close>

lemma appfs_ok_zero:
  assumes "buf_ok A s" "\<And>j. j < 16 \<Longrightarrow> j \<noteq> i \<Longrightarrow> range_ok (fd_table s j)"
  shows "appfs_ok A (put_fd s i zero_fd)"
  using assms buf_ok_no_buffer [OF assms(1), of zero_fd i] by (simp add: appfs_ok_def range_ok_def)

lemma drop_fd_ok:
  assumes ok: "appfs_ok A s" and i: "i < 16"
  shows "\<exists>A'. appfs_ok A' (drop_fd s i)"
proof (cases "fd_buf (fd_table s i) = 0")
  case True
  then show ?thesis using appfs_ok_zero [of A s i] ok by (auto simp: drop_fd_def Let_def appfs_ok_def)
next
  case False
  have "buf_ok (A(fd_buf (fd_table s i) := None)) (drop_fd s i)"
    using buf_ok_drop [OF _ i, of A s zero_fd] ok False by (simp add: drop_fd_def Let_def appfs_ok_def)
  then show ?thesis using ok by (intro exI) (auto simp: appfs_ok_def drop_fd_def Let_def range_ok_def)
qed

lemma commit_ok: "appfs_commit s i = Some (rc, s') \<Longrightarrow> \<exists>w f. s' = s\<lparr>app_win := w, app_files := f\<rparr>"
proof -
  assume a: "appfs_commit s i = Some (rc, s')"
  show ?thesis
  proof (cases "fd_used (fd_table s i)")
    case False
    then have "s' = s\<lparr>app_win := tmp_window 0 []\<rparr>" using a by (simp add: appfs_commit_def)
    then have "s' = s\<lparr>app_win := tmp_window 0 [], app_files := app_files s\<rparr>" by simp
    then show ?thesis by blast
  next
    case True
    then show ?thesis using a by (auto simp: appfs_commit_def Let_def split: if_splits option.splits)
  qed
qed

lemma appfs_ok_files [simp]: "appfs_ok A (s\<lparr>app_win := w, app_files := f\<rparr>) = appfs_ok A s"
  "appfs_ok A (s\<lparr>app_files := f\<rparr>) = appfs_ok A s" "appfs_ok A (s\<lparr>app_win := w\<rparr>) = appfs_ok A s"
  by (simp_all add: appfs_ok_def)

lemma close_fd_ok:
  assumes ok: "appfs_ok A s" and c: "appfs_close_fd s k = Some (rc, s')"
  shows "\<exists>A'. appfs_ok A' s'"
proof (cases "valid_fd s k")
  case False
  then show ?thesis using ok c by (auto simp: appfs_close_fd_def)
next
  case True
  then have i: "nat k < 16" by (auto simp: valid_fd_def)
  let ?fl = "fd_flags (fd_table s (nat k))"
  show ?thesis
  proof (cases "?fl AND 2 \<noteq> 0 \<or> ?fl AND 256 \<noteq> 0 \<or> ?fl AND 512 \<noteq> 0")
    case False
    then have "s' = drop_fd s (nat k)" using c True by (simp add: appfs_close_fd_def Let_def)
    then show ?thesis using drop_fd_ok [OF ok i] by simp
  next
    case fl: True
    obtain r s1 where r: "appfs_commit s (nat k) = Some (r, s1)"
      using c True fl by (cases "appfs_commit s (nat k)") (auto simp: appfs_close_fd_def Let_def)
    then have ok1: "appfs_ok A s1" using ok commit_ok [OF r] by auto
    have "s' = (if r \<noteq> 0 then s1 else drop_fd s1 (nat k))"
      using c True fl r by (auto simp: appfs_close_fd_def Let_def split: if_splits)
    then show ?thesis using ok1 drop_fd_ok [OF ok1 i] by auto
  qed
qed

lemma close_loop_ok: "appfs_ok A s \<Longrightarrow> close_loop is rc s = Some (r, s') \<Longrightarrow> \<exists>A'. appfs_ok A' s'"
proof (induction "is" rc s arbitrary: A rule: close_loop.induct)
  case (2 i "is" rc s)
  show ?case
  proof (cases "fd_used (fd_table s i)")
    case False
    then show ?thesis using 2 by simp
  next
    case True
    then obtain r1 s1 where r: "appfs_close_fd s (int i) = Some (r1, s1)"
      using "2.prems"(2) by (cases "appfs_close_fd s (int i)") auto
    obtain A1 where "appfs_ok A1 s1" using close_fd_ok [OF "2.prems"(1) r] by blast
    with 2(1) [OF True r refl] show ?thesis using "2.prems"(2) True r by simp
  qed
qed auto

lemma reset_loop_ok:
  "appfs_ok A s \<Longrightarrow> \<forall>i \<in> set is. i < 16 \<Longrightarrow>
    \<exists>A'. appfs_ok A' (foldl (\<lambda>s i. let fd = fd_table s i;
                      s = (if fd_buf fd \<noteq> 0 then s\<lparr>app_heap := free (app_heap s) (fd_buf fd)\<rparr> else s)
                  in put_fd s i zero_fd) s is)"
proof (induction "is" arbitrary: A s)
  case (Cons i "is")
  obtain A1 where "appfs_ok A1 (drop_fd s i)" using drop_fd_ok [of A s i] Cons.prems by auto
  from Cons.IH [OF this] Cons.prems(2) show ?case by (simp add: drop_fd_def Let_def)
qed auto

lemma open_target_ok:
  assumes a: "open_target s path = Some (r, s')"
  shows "\<exists>f. s' = s\<lparr>app_files := f\<rparr>"
proof (cases "strchr path (CHR ''/'') \<noteq> None \<or> char_at path 0 = CHR ''~''")
  case False
  then have "s' = s" using a by (cases "appfs_path_to_name path") (auto simp: open_target_def)
  then have "s' = s\<lparr>app_files := app_files s\<rparr>" by simp
  then show ?thesis by blast
next
  case True
  obtain t f where rt: "resolve_fs_target 32 (app_files s) (app_win s) path = Some (t, f)"
    using a True by (cases "resolve_fs_target 32 (app_files s) (app_win s) path") (auto simp: open_target_def)
  have "s' = s\<lparr>app_files := f\<rparr>"
  proof (cases t)
    case None
    then show ?thesis using a True rt by (simp add: open_target_def)
  next
    case (Some x)
    obtain b c leaf where "x = (b, c, leaf)" by (metis prod_cases3)
    then show ?thesis using a True rt Some by (simp add: open_target_def split: if_splits)
  qed
  then show ?thesis by blast
qed

lemma open_trunc_ok:
  assumes ok: "buf_ok A s" "\<And>j. j < 16 \<Longrightarrow> j \<noteq> i \<Longrightarrow> range_ok (fd_table s j)" and i: "i < 16"
    and rg: "range_ok (fd_table s i)" and o: "open_trunc s i flags = Some (rc, s')"
  shows "\<exists>A'. appfs_ok A' s'"
proof -
  have put: "appfs_ok A' (put_fd s1 i ((fd_table s1 i)\<lparr>fd_pos := 0\<rparr>))"
    if b: "buf_ok A' s1" and js: "\<And>j. j < 16 \<Longrightarrow> j \<noteq> i \<Longrightarrow> range_ok (fd_table s1 j)"
      and sc: "fd_size (fd_table s1 i) \<le> fd_cap (fd_table s1 i)" for A' s1
    using buf_ok_put [OF b, of "(fd_table s1 i)\<lparr>fd_pos := 0\<rparr>" i] js sc by (simp add: appfs_ok_def range_ok_def)
  show ?thesis
  proof (cases "flags AND 512 = 0")
    case True
    then have "s' = put_fd s i ((fd_table s i)\<lparr>fd_pos := 0\<rparr>)" using o by (simp add: open_trunc_def)
    then show ?thesis using put [OF ok] rg by (auto simp: range_ok_def)
  next
    case False
    let ?s1 = "upd_size s i 0"
    have b1: "buf_ok A ?s1" unfolding upd_size_def by (rule buf_ok_put [OF ok(1)]) simp_all
    have j1: "\<And>j. j < 16 \<Longrightarrow> j \<noteq> i \<Longrightarrow> range_ok (fd_table ?s1 j)" using ok(2) by (simp add: upd_size_def)
    show ?thesis
    proof (cases "fd_cap (fd_table ?s1 i) = 0")
      case nc: False
      then have "s' = put_fd ?s1 i ((fd_table ?s1 i)\<lparr>fd_pos := 0\<rparr>)" using o False by (simp add: open_trunc_def Let_def)
      then show ?thesis using put [OF b1 j1] by (auto simp: upd_size_def)
    next
      case nc: True
      obtain r s2 where r: "appfs_reserve ?s1 i 1 = Some (r, s2)"
        using o False nc by (cases "appfs_reserve ?s1 i 1") (auto simp: open_trunc_def Let_def)
      obtain A' b c d where S: "buf_ok A' s2" "\<And>j. j \<noteq> i \<Longrightarrow> fd_table s2 j = fd_table ?s1 j"
        "fd_table s2 i = (fd_table ?s1 i)\<lparr>fd_buf := b, fd_cap := c, fd_data := d\<rparr>" "r = 0 \<Longrightarrow> 1 \<le> c"
        by (rule reserve_fresh [OF b1 i r]) blast
      have j2: "\<And>j. j < 16 \<Longrightarrow> j \<noteq> i \<Longrightarrow> range_ok (fd_table s2 j)" using S(2) j1 by simp
      have "s' = (if r \<noteq> 0 then put_fd s2 i zero_fd else put_fd s2 i ((fd_table s2 i)\<lparr>fd_pos := 0\<rparr>))"
        using o False nc r by (auto simp: open_trunc_def Let_def split: if_splits)
      then show ?thesis using put [OF S(1) j2] appfs_ok_zero [OF S(1) j2] S(3) by (auto simp: upd_size_def)
    qed
  qed
qed

lemma open_ok:
  assumes ok: "appfs_ok A s" and o: "appfs_open s path flags = Some (rc, s')"
  shows "\<exists>A'. appfs_ok A' s'"
proof (cases "appfs_find_fd s")
  case None
  then show ?thesis using ok o by (auto simp: appfs_open_def)
next
  case (Some i)
  then have i: "i < 16" unfolding appfs_find_fd_def by (drule_tac find_upt_Some) simp
  obtain r s1 where t: "open_target s path = Some (r, s1)"
    using o Some by (cases "open_target s path") (auto simp: appfs_open_def)
  have ok1: "appfs_ok A s1" using ok open_target_ok [OF t] by auto
  then have b1: "buf_ok A s1" and r1: "\<And>j. j < 16 \<Longrightarrow> range_ok (fd_table s1 j)" by (simp_all add: appfs_ok_def)
  show ?thesis
  proof (cases r)
    case None
    then have "s' = put_fd s1 i zero_fd" using o Some t by (simp add: appfs_open_def)
    then show ?thesis using appfs_ok_zero [OF b1 r1] by auto
  next
    case r: (Some x)
    obtain b c name where x: "x = (b, c, name)" by (metis prod_cases3)
    let ?fd = "zero_fd\<lparr>fd_used := True, fd_flags := flags, fd_cwd_bno := b, fd_cwd := c, fd_name := copy_name20 name\<rparr>"
    let ?s2 = "put_fd s1 i ?fd"
    have b2: "buf_ok A ?s2" by (rule buf_ok_no_buffer [OF b1]) simp_all
    show ?thesis
    proof (cases "flags AND 2 \<noteq> 0 \<and> flags AND (256 OR 512) \<noteq> 0")
      case True
      then have "s' = ?s2" using o Some t r x by (simp add: appfs_open_def Let_def)
      then show ?thesis using b2 r1 by (auto simp: appfs_ok_def range_ok_def)
    next
      case False
      obtain l s3 where l: "appfs_load_file ?s2 i name flags = Some (l, s3)"
        using o Some t r x False
        by (cases "appfs_load_file ?s2 i name flags") (auto simp: appfs_open_def Let_def)
      obtain A3 where A3: "buf_ok A3 s3" "others_same i ?s2 s3" "fd_pos (fd_table s3 i) = 0 \<and> (l = 0 \<longrightarrow> range_ok (fd_table s3 i))"
        using load_file_ok [OF b2 i _ l] by auto
      have r3: "\<And>j. j < 16 \<Longrightarrow> j \<noteq> i \<Longrightarrow> range_ok (fd_table s3 j)" using A3(2) r1 by (simp add: others_same_def)
      show ?thesis
      proof (cases "l \<noteq> 0 \<and> (flags AND 1 \<noteq> 0 \<or> flags AND 256 = 0)")
        case True
        then have "s' = put_fd s3 i zero_fd" using o Some t r x False l
          by (auto simp: appfs_open_def Let_def split: if_splits)
        then show ?thesis using appfs_ok_zero [OF A3(1) r3] by auto
      next
        case nf: False
        let ?s4 = "if l \<noteq> 0 then no_buffer s3 i 0 else s3"
        have tr: "open_trunc ?s4 i flags = Some (rc, s')"
          using o Some t r x False l nf by (auto simp: appfs_open_def Let_def)
        have b4: "buf_ok A3 ?s4" using A3(1) no_buffer_ok by simp
        have r4: "\<And>j. j < 16 \<Longrightarrow> j \<noteq> i \<Longrightarrow> range_ok (fd_table ?s4 j)" using r3 by (simp add: no_buffer_def)
        show ?thesis
        proof (cases "l = 0")
          case True
          then show ?thesis using open_trunc_ok [OF b4 r4 i _ tr] A3(3) by simp
        next
          case False
          then have "range_ok (fd_table ?s4 i)" using A3(3) by (simp add: no_buffer_def range_ok_def)
          then show ?thesis using open_trunc_ok [OF b4 r4 i _ tr] by simp
        qed
      qed
    qed
  qed
qed

lemma read_keeps:
  assumes ok: "appfs_ok A s"
  shows "appfs_ok A (snd (appfs_read s fd_no sz))"
proof (cases "valid_fd s (fd_no - 3) \<and> fd_flags (fd_table s (nat (fd_no - 3))) AND 1 \<noteq> 0 \<and>
    \<not> fd_pos (fd_table s (nat (fd_no - 3))) \<ge> fd_size (fd_table s (nat (fd_no - 3)))")
  case False
  then have "snd (appfs_read s fd_no sz) = s" by (auto simp: appfs_read_def Let_def)
  then show ?thesis using ok by simp
next
  case True
  let ?i = "nat (fd_no - 3)"
  let ?fd = "fd_table s ?i"
  let ?c = "if sz > fd_size ?fd - fd_pos ?fd then fd_size ?fd - fd_pos ?fd else sz"
  have i: "?i < 16" using True by (auto simp: valid_fd_def)
  have e: "snd (appfs_read s fd_no sz) = put_fd s ?i (?fd\<lparr>fd_pos := fd_pos ?fd + ?c\<rparr>)"
    using True by (simp add: appfs_read_def Let_def)
  have rg: "range_ok ?fd" using ok i by (simp add: appfs_ok_def)
  have "fd_pos ?fd + ?c \<le> fd_size ?fd"
  proof -
    have "unat (fd_size ?fd - fd_pos ?fd) = unat (fd_size ?fd) - unat (fd_pos ?fd)"
      using True by (simp add: unat_sub_if_size word_le_nat_alt not_le)
    then have c: "unat ?c \<le> unat (fd_size ?fd) - unat (fd_pos ?fd)" by (auto simp: word_less_nat_alt)
    have "unat (fd_pos ?fd + ?c) \<le> unat (fd_pos ?fd) + unat ?c"
      unfolding unat_word_ariths by (rule mod_less_eq_dividend)
    moreover have "unat (fd_pos ?fd) \<le> unat (fd_size ?fd)" using True by (simp add: word_le_nat_alt not_le)
    ultimately have "unat (fd_pos ?fd + ?c) \<le> unat (fd_size ?fd)" using c by linarith
    then show ?thesis unfolding word_le_nat_alt .
  qed
  then show ?thesis unfolding e using rg by (intro appfs_ok_put [OF ok]) (simp_all add: range_ok_def)
qed

lemma write_keeps:
  assumes ok: "appfs_ok A s" and w: "appfs_write s fd_no bs = Some (rc, s')"
  shows "\<exists>A'. appfs_ok A' s'"
proof (cases "valid_fd s (fd_no - 3) \<and> fd_flags (fd_table s (nat (fd_no - 3))) AND 2 \<noteq> 0")
  case False
  then have "s' = s" using w unfolding appfs_write_def Let_def by (auto split: if_splits)
  then show ?thesis using ok by blast
next
  case v: True
  define i where "i = nat (fd_no - 3)"
  have i16: "i < 16" using v by (auto simp: valid_fd_def i_def)
  let ?fd = "fd_table s i"
  let ?sz = "of_nat (length bs) :: u32"
  let ?res = "if fd_pos ?fd + ?sz > fd_cap ?fd then appfs_reserve s i (fd_pos ?fd + ?sz) else Some (0, s)"
  have "?res \<noteq> None" using w v unfolding appfs_write_def Let_def i_def [symmetric] by (cases ?res) simp_all
  then obtain r s1 where S: "?res = Some (r, s1)" by (metis not_None_eq surj_pair)
  obtain A1 where A1: "appfs_ok A1 s1"
  proof (cases "fd_pos ?fd + ?sz > fd_cap ?fd")
    case True
    then have rs: "appfs_reserve s i (fd_pos ?fd + ?sz) = Some (r, s1)" using S by simp
    show thesis by (rule reserve_file [OF ok i16 rs], rule that)
  next
    case False
    then have "s1 = s" using S by simp
    then show thesis using that ok by simp
  qed
  let ?fd1 = "fd_table s1 i"
  let ?p = "fd_pos ?fd1 + ?sz"
  have eq: "appfs_write s fd_no bs = (if r \<noteq> 0 then Some (-1, s1)
      else if unat (fd_pos ?fd1) + length bs > unat (fd_cap ?fd1) then None
      else Some (sint ?sz, put_fd s1 i (?fd1\<lparr>fd_data := mem_copy (fd_data ?fd1) (unat (fd_pos ?fd1)) bs,
             fd_pos := ?p, fd_size := (if ?p > fd_size ?fd1 then ?p else fd_size ?fd1)\<rparr>)))"
    unfolding appfs_write_def Let_def i_def [symmetric] S option.case prod.case using v by (simp add: i_def)
  show ?thesis
  proof (cases "r = 0 \<and> \<not> unat (fd_pos ?fd1) + length bs > unat (fd_cap ?fd1)")
    case False
    then have "s' = s1" using w eq by (auto split: if_splits)
    then show ?thesis using A1 by blast
  next
    case True
    have rg: "range_ok ?fd1" using A1 i16 by (simp add: appfs_ok_def)
    have cap: "unat (fd_cap ?fd1) < 2 ^ 32" using unsigned_less [of "fd_cap ?fd1"] by simp
    have "unat ?p = unat (fd_pos ?fd1) + length bs"
      using True cap by (simp add: unat_word_ariths unsigned_of_nat take_bit_nat_eq_self)
    then have "?p \<le> fd_cap ?fd1" using True by (simp add: word_le_nat_alt)
    then have "appfs_ok A1 (put_fd s1 i (?fd1\<lparr>fd_data := mem_copy (fd_data ?fd1) (unat (fd_pos ?fd1)) bs,
             fd_pos := ?p, fd_size := (if ?p > fd_size ?fd1 then ?p else fd_size ?fd1)\<rparr>))"
      using rg by (intro appfs_ok_put [OF A1]) (auto simp: range_ok_def)
    moreover have "s' = put_fd s1 i (?fd1\<lparr>fd_data := mem_copy (fd_data ?fd1) (unat (fd_pos ?fd1)) bs,
             fd_pos := ?p, fd_size := (if ?p > fd_size ?fd1 then ?p else fd_size ?fd1)\<rparr>)"
      using w eq True by simp
    ultimately show ?thesis by blast
  qed
qed

lemma seek_keeps:
  assumes ok: "appfs_ok A s" and k: "appfs_seek s fd_no offset whence = Some (rc, s')"
  shows "\<exists>A'. appfs_ok A' s'"
proof -
  define i where "i = nat (fd_no - 3)"
  let ?fd = "fd_table s i"
  define nxt where "nxt = (if whence = 0 then 0 else if whence = 1 then sint (fd_pos ?fd) else sint (fd_size ?fd)) + offset"
  let ?n = "of_int nxt :: u32"
  show ?thesis
  proof (cases "s' = s")
    case True
    then show ?thesis using ok by blast
  next
    case False
    have v: "valid_fd s (fd_no - 3)"
    proof (rule ccontr)
      assume "\<not> valid_fd s (fd_no - 3)"
      then have "s' = s" using k by (simp add: appfs_seek_def)
      with False show "False" by simp
    qed
    have i16: "i < 16" using v by (auto simp: valid_fd_def i_def)
    have rg: "range_ok ?fd" using ok i16 by (simp add: appfs_ok_def)
    have wh: "\<not> (whence \<noteq> 0 \<and> whence \<noteq> 1 \<and> whence \<noteq> 2)"
    proof
      assume a: "whence \<noteq> 0 \<and> whence \<noteq> 1 \<and> whence \<noteq> 2"
      show False using k False v unfolding appfs_seek_def if_P [OF a] by simp
    qed
    note k2 = k [unfolded appfs_seek_def Let_def i_def [symmetric] nxt_def [symmetric] if_not_P [OF wh]]
    have r1: "\<not> (nxt < - (2 ^ 31) \<or> nxt \<ge> 2 ^ 31)" using k2 v by (auto split: if_splits)
    have r2: "\<not> nxt < 0" using k2 v False r1 by (auto split: if_splits)
    note k3 = k2 [unfolded if_not_P [OF r1] if_not_P [OF r2]]
    show ?thesis
    proof (cases "?n > fd_size ?fd")
      case le: False
      then have "s' = put_fd s i (?fd\<lparr>fd_pos := ?n\<rparr>)" using k3 v by auto
      moreover have "appfs_ok A (put_fd s i (?fd\<lparr>fd_pos := ?n\<rparr>))"
        using rg le by (intro appfs_ok_put [OF ok]) (auto simp: range_ok_def)
      ultimately show ?thesis by blast
    next
      case gt: True
      have w: "\<not> fd_flags ?fd AND 2 = 0" using k3 v False gt by (auto split: if_splits)
      let ?res = "if ?n > fd_cap ?fd then appfs_reserve s i ?n else Some (0, s)"
      note k4 = k3 [unfolded if_P [OF gt] if_not_P [OF w]]
      have "?res \<noteq> None" using k4 v by (cases ?res) simp_all
      then obtain r s1 where S: "?res = Some (r, s1)" by (metis not_None_eq surj_pair)
      have A1: "\<exists>A1. appfs_ok A1 s1 \<and> (r = 0 \<longrightarrow> ?n \<le> fd_cap (fd_table s1 i))"
      proof (cases "?n > fd_cap ?fd")
        case True
        then have rs: "appfs_reserve s i ?n = Some (r, s1)" using S by simp
        obtain A' b c d where "appfs_ok A' s1" "fd_table s1 i = ?fd\<lparr>fd_buf := b, fd_cap := c, fd_data := d\<rparr>" "r = 0 \<Longrightarrow> ?n \<le> c"
          by (rule reserve_file [OF ok i16 rs]) blast
        then show ?thesis by auto
      next
        case False
        then have "s1 = s" "?n \<le> fd_cap ?fd" using S by auto
        then show ?thesis using ok by auto
      qed
      then obtain A1 where A1: "appfs_ok A1 s1" "r = 0 \<longrightarrow> ?n \<le> fd_cap (fd_table s1 i)" by blast
      show ?thesis
      proof (cases "r = 0")
        case False
        then have "s' = s1" using k4 v unfolding S by simp
        then show ?thesis using A1 by blast
      next
        case True
        then have "s' = put_fd s1 i ((fd_table s1 i)\<lparr>fd_pos := ?n, fd_size := ?n,
            fd_data := mem_fill (fd_data (fd_table s1 i)) (unat (fd_size (fd_table s1 i))) (unat (?n - fd_size (fd_table s1 i))) 0\<rparr>)"
          using k4 v unfolding S by auto
        moreover have "appfs_ok A1 \<dots>"
          using A1(2) True by (intro appfs_ok_put [OF A1(1)]) (auto simp: range_ok_def)
        ultimately show ?thesis by blast
      qed
    qed
  qed
qed

section \<open>The calls of a program, and what they guarantee\<close>

datatype request =
    Open string u32 | Read int u32 | Write int "u8 list" | Seek int int int | Close int | Close_All | Set_Cwd nat string

fun serve :: "appfs \<Rightarrow> request \<Rightarrow> appfs option" where
  "serve s (Open path flags) = map_option snd (appfs_open s path flags)"
| "serve s (Read fd_no sz) = Some (snd (appfs_read s fd_no sz))"
| "serve s (Write fd_no bs) = map_option snd (appfs_write s fd_no bs)"
| "serve s (Seek fd_no offset whence) = map_option snd (appfs_seek s fd_no offset whence)"
| "serve s (Close fd_no) = map_option snd (appfs_close s fd_no)"
| "serve s Close_All = map_option snd (appfs_close_all s)"
| "serve s (Set_Cwd bno cwd) = appfs_set_cwd s bno cwd"

inductive serves :: "appfs \<Rightarrow> appfs \<Rightarrow> bool" where
  serves_refl: "serves s s"
| serves_step: "serves s t \<Longrightarrow> serve t r = Some u \<Longrightarrow> serves s u"

lemma serve_ok: "appfs_ok A s \<Longrightarrow> serve s r = Some s' \<Longrightarrow> \<exists>A'. appfs_ok A' s'"
proof (cases r)
  case (Set_Cwd bno cwd)
  assume a: "appfs_ok A s" "serve s r = Some s'"
  obtain A' where "appfs_ok A' (appfs_reset_table s)"
    using reset_loop_ok [OF a(1), of "[0 ..< 16]"] unfolding appfs_reset_table_def by auto
  then have "appfs_ok A' ((appfs_reset_table s)\<lparr>app_cwd_bno := n, app_cwd := c\<rparr>)" for n c
    by (simp add: appfs_ok_def buf_ok_def)
  then show ?thesis using a(2) Set_Cwd by (auto simp: appfs_set_cwd_def)
qed (use open_ok read_keeps write_keeps seek_keeps close_fd_ok close_loop_ok in
    \<open>fastforce simp: appfs_close_def appfs_close_all_def\<close>)+


definition file_view :: "appfs \<Rightarrow> nat \<Rightarrow> u8 list \<times> nat" where
  "file_view s i = (fd_bytes (fd_table s i), unat (fd_pos (fd_table s i)))"

text \<open>
  C14: A descriptor is a file with a position: writing to an open descriptor either replaces the
  bytes from the position on (extending the file) and advances it, or returns -1 and changes
  nothing; reading returns the bytes from the position on, as many as asked for and present,
  and advances it; neither hangs nor leaves its buffer (below 2 GB), and both keep the
  buffers valid.
\<close>

theorem fd_refines_file:
  assumes "appfs_ok A s" "valid_fd s (fd_no - 3)" "i = nat (fd_no - 3)" "file_view s i = (xs, p)"
  shows "(fd_flags (fd_table s i) AND APP_O_WRITE \<noteq> 0 \<and> p + length bs < 2 ^ 31 \<longrightarrow>
      (\<exists>rc s' A'. appfs_write s fd_no bs = Some (rc, s') \<and> appfs_ok A' s' \<and>
         (rc = int (length bs) \<and> file_view s' i = (splice xs p bs, p + length bs) \<or> rc = -1 \<and> file_view s' i = (xs, p)))) \<and>
    (fd_flags (fd_table s i) AND APP_O_READ \<noteq> 0 \<and> sz < 2 ^ 31 \<longrightarrow>
      (let ys = take (unat sz) (drop p xs) in
       \<exists>s'. appfs_read s fd_no sz = ((int (length ys), ys), s') \<and> appfs_ok A s' \<and> file_view s' i = (xs, p + length ys)))"
proof (intro conjI impI)
  have v: "xs = fd_bytes (fd_table s i)" "p = unat (fd_pos (fd_table s i))" using assms(4) by (simp_all add: file_view_def)
  assume a: "fd_flags (fd_table s i) AND APP_O_WRITE \<noteq> 0 \<and> p + length bs < 2 ^ 31"
  obtain rc s' A' where w: "appfs_write s fd_no bs = Some (rc, s')" "appfs_ok A' s'"
    "if rc = int (length bs) then fd_bytes (fd_table s' i) = splice (fd_bytes (fd_table s i)) (unat (fd_pos (fd_table s i))) bs \<and>
        unat (fd_pos (fd_table s' i)) = unat (fd_pos (fd_table s i)) + length bs
     else rc = -1 \<and> fd_bytes (fd_table s' i) = fd_bytes (fd_table s i) \<and> fd_pos (fd_table s' i) = fd_pos (fd_table s i)"
    using write_ok [OF assms(1-3), of bs] a v by blast
  then show "\<exists>rc s' A'. appfs_write s fd_no bs = Some (rc, s') \<and> appfs_ok A' s' \<and>
      (rc = int (length bs) \<and> file_view s' i = (splice xs p bs, p + length bs) \<or> rc = -1 \<and> file_view s' i = (xs, p))"
    unfolding file_view_def v by (intro exI [of _ rc] exI [of _ s'] exI [of _ A']) (simp split: if_splits)
next
  have v: "xs = fd_bytes (fd_table s i)" "p = unat (fd_pos (fd_table s i))" using assms(4) by (simp_all add: file_view_def)
  assume a: "fd_flags (fd_table s i) AND APP_O_READ \<noteq> 0 \<and> sz < 2 ^ 31"
  obtain s' where r: "appfs_read s fd_no sz = ((int (length (take (unat sz) (drop p xs))), take (unat sz) (drop p xs)), s')"
    "appfs_ok A s'" "s' = put_fd s i ((fd_table s i)\<lparr>fd_pos := fd_pos (fd_table s' i)\<rparr>)"
    "unat (fd_pos (fd_table s' i)) = p + length (take (unat sz) (drop p xs))"
    using read_ok [OF assms(1-3), of sz] a unfolding v by blast
  have "fd_bytes (fd_table s' i) = xs" unfolding v by (subst r(3)) (simp add: fd_bytes_def)
  then show "let ys = take (unat sz) (drop p xs) in
       \<exists>s'. appfs_read s fd_no sz = ((int (length ys), ys), s') \<and> appfs_ok A s' \<and> file_view s' i = (xs, p + length ys)"
    unfolding Let_def file_view_def using r by (intro exI [of _ s']) (simp only: simp_thms prod.inject)
qed

text \<open>
  Seeking sets the position: a target within the file only moves it, a target behind the
  end of a file open for writing pads the file with zeros up to it (or returns -1 and changes
  nothing when there is no memory), and for a file that is not open for writing returns -1.
\<close>

theorem seek_sets_position:
  assumes "appfs_ok A s" "valid_fd s (fd_no - 3)" "i = nat (fd_no - 3)" "file_view s i = (xs, p)" "length xs < 2 ^ 31"
    "whence = 0 \<or> whence = 1 \<or> whence = 2" "t < 2 ^ 31"
    "int t = (if whence = 0 then 0 else if whence = 1 then int p else int (length xs)) + offset"
  shows "\<exists>rc s' A'. appfs_seek s fd_no offset whence = Some (rc, s') \<and> appfs_ok A' s' \<and>
    (rc = int t \<and> file_view s' i = (xs @ replicate (t - length xs) 0, t) \<and>
       (t \<le> length xs \<or> fd_flags (fd_table s i) AND APP_O_WRITE \<noteq> 0) \<or>
     rc = -1 \<and> length xs < t \<and> file_view s' i = (xs, p))"
proof -
  have v: "xs = fd_bytes (fd_table s i)" "p = unat (fd_pos (fd_table s i))" using assms(4) by (simp_all add: file_view_def)
  have len: "length xs = unat (fd_size (fd_table s i))" by (simp add: v fd_bytes_def)
  obtain rc s' A' where k: "appfs_seek s fd_no offset whence = Some (rc, s')" "appfs_ok A' s'"
    "if rc = int t then unat (fd_pos (fd_table s' i)) = t \<and> fd_bytes (fd_table s' i) = fd_bytes (fd_table s i) @
          replicate (t - length (fd_bytes (fd_table s i))) 0 \<and>
        (length (fd_bytes (fd_table s i)) < t \<longrightarrow> fd_flags (fd_table s i) AND 2 \<noteq> 0)
     else rc = -1 \<and> length (fd_bytes (fd_table s i)) < t \<and> fd_bytes (fd_table s' i) = fd_bytes (fd_table s i) \<and>
        fd_pos (fd_table s' i) = fd_pos (fd_table s i)"
    using seek_ok [OF assms(1-3,6) _ _ assms(7), of offset] assms(5,8) len v(2) by metis
  then show ?thesis
    unfolding file_view_def v by (intro exI [of _ rc] exI [of _ s'] exI [of _ A']) (auto split: if_splits)
qed

text \<open>
  C20: Closing a descriptor that is open for writing makes its bytes the file: if the directory's
  files are intact and \<open>appfs_close\<close> returns 0, loading the name from that directory afterwards
  yields exactly the descriptor's bytes, and the directory's files are intact.
\<close>

theorem close_stores_file:
  assumes ok: "appfs_ok A s" and v: "valid_fd s (fd_no - 3)" and i: "i = nat (fd_no - 3)"
    and fl: "fd_flags (fd_table s i) AND APP_O_WRITE \<noteq> 0"
    and name: "cstr (fd_name (fd_table s i))" "fd_name (fd_table s i) \<noteq> []" "length (fd_name (fd_table s i)) \<le> 19"
      "\<not> needs_resolve (fd_name (fd_table s i))"
    and d: "fd_cwd_bno (fd_table s i) = d" and df: "dir_files (app_files s) d own"
    and c: "appfs_close s fd_no = Some (0, s')"
  shows "\<exists>own'. dir_files (app_files s') d own' \<and> \<not> fd_used (fd_table s' i) \<and>
    (\<forall>w max_size. win_cwd_bno w = d \<and> length (fd_bytes (fd_table s i)) \<le> max_size \<longrightarrow>
       map_option fst (load_file_bytes (app_files s') w (fd_name (fd_table s i)) max_size) =
         Some (0, fd_bytes (fd_table s i)))"
proof -
  let ?fd = "fd_table s i"
  have d0: "d \<noteq> 0" using df by (simp add: dir_files_def)
  have i16: "i < 16" using v i by (auto simp: valid_fd_def)
  obtain r s1 where r: "appfs_commit s i = Some (r, s1)"
    using c v fl unfolding appfs_close_def appfs_close_fd_def Let_def i [symmetric] by (cases "appfs_commit s i") auto
  then have r0: "r = 0" "s' = drop_fd s1 i"
    using c v fl unfolding appfs_close_def appfs_close_fd_def Let_def i [symmetric] by (auto split: if_splits)
  have u: "fd_used ?fd" using v i by (auto simp: valid_fd_def)
  obtain rc f where st: "store_file_bytes (app_files s) (fd_window s ?fd) (fd_name ?fd) (bytes_at (fd_data ?fd) 0 (unat (fd_size ?fd))) = Some (rc, f)"
    and s1: "rc = 0" "app_files s1 = f"
    using r r0(1) u by (auto simp: appfs_commit_def Let_def split: if_splits option.splits)
  have w: "win_cwd_bno (fd_window s ?fd) = d" using d d0 by (simp add: fd_window_def tmp_window_def)
  have st': "store_file_bytes (app_files s) (fd_window s ?fd) (fd_name ?fd) (fd_bytes ?fd) = Some (0, f)"
    using st s1(1) by (simp add: fd_bytes_def)
  have len: "length (fd_bytes ?fd) < 2 ^ 32" using unsigned_less [of "fd_size ?fd"] by (simp add: fd_bytes_def)
  have f: "app_files s' = f" "\<not> fd_used (fd_table s' i)" using s1(2) r0(2) by (simp_all add: drop_fd_def Let_def)
  show ?thesis using store_load [OF df w name len st'] f by blast
qed

section \<open>Witnesses\<close>

lemma some_heap: "\<exists>h. alloc_inv h Map.empty"
proof -
  obtain h where "heap_inv h (usb_dma_pages h) Map.empty" using demo_heap_inv by blast
  then have "alloc_inv h Map.empty" unfolding alloc_inv_def live_blocks_def by (intro exI [of _ "usb_dma_pages h"] exI [of _ Map.empty]) simp
  then show ?thesis by blast
qed

text \<open>A program with descriptor 3 open for reading and writing, still empty.\<close>

definition demo_app :: "heap \<Rightarrow> appfs" where
  "demo_app h = \<lparr>fd_table = (\<lambda>_. zero_fd)(0 := zero_fd\<lparr>fd_used := True, fd_flags := 3, fd_cwd_bno := 1, fd_name := ''a''\<rparr>),
     app_cwd_bno = 1, app_cwd = ''/root'', app_win = tmp_window 1 [], app_files = formatted, app_heap = h,
     app_fresh = (\<lambda>_. 0)\<rparr>"

lemma demo_app_ok: "alloc_inv h Map.empty \<Longrightarrow> appfs_ok Map.empty (demo_app h)"
  by (simp add: appfs_ok_def buf_ok_def demo_app_def range_ok_def cap_ok_def)

lemma demo_app_view: "valid_fd (demo_app h) (3 - 3)" "file_view (demo_app h) 0 = ([], 0)"
  "fd_flags (fd_table (demo_app h) 0) AND APP_O_WRITE \<noteq> 0" "(0::nat) = nat (3 - 3)"
  by (simp_all add: demo_app_def valid_fd_def file_view_def fd_bytes_def)


theorem fd_refines_file_witness:
  "\<exists>h rc s'. appfs_write (demo_app h) 3 [7] = Some (rc, s') \<and>
     (rc = 1 \<and> file_view s' 0 = ([7], 1) \<or> rc = -1 \<and> file_view s' 0 = ([], 0))"
proof -
  obtain h where h: "alloc_inv h Map.empty" using some_heap by blast
  have "\<exists>rc s'. appfs_write (demo_app h) 3 [7] = Some (rc, s') \<and>
     (rc = 1 \<and> file_view s' 0 = ([7], 1) \<or> rc = -1 \<and> file_view s' 0 = ([], 0))"
    using fd_refines_file [OF demo_app_ok [OF h] demo_app_view(1,4,2), of "[7]" 0] demo_app_view(3) [of h]
    by (auto simp: splice_def)
  then show ?thesis by blast
qed

theorem seek_sets_position_witness:
  "\<exists>h rc s'. appfs_seek (demo_app h) 3 1 0 = Some (rc, s') \<and>
     (rc = 1 \<and> file_view s' 0 = ([0], 1) \<or> rc = -1 \<and> file_view s' 0 = ([], 0))"
proof -
  obtain h where h: "alloc_inv h Map.empty" using some_heap by blast
  have "\<exists>rc s'. appfs_seek (demo_app h) 3 1 0 = Some (rc, s') \<and>
     (rc = 1 \<and> file_view s' 0 = ([0], 1) \<or> rc = -1 \<and> file_view s' 0 = ([], 0))"
    using seek_sets_position [OF demo_app_ok [OF h] demo_app_view(1,4,2), of 0 1 1] by auto
  then show ?thesis by blast
qed

theorem close_stores_file_witness:
  "\<exists>h s'. appfs_close (demo_app h) 3 = Some (0, s') \<and>
     map_option fst (load_file_bytes (app_files s') (tmp_window 1 []) ''a'' 10) = Some (0, [])"
proof -
  obtain h where h: "alloc_inv h Map.empty" using some_heap by blast
  let ?s = "demo_app h"
  have fd: "fd_cwd_bno (fd_table ?s 0) = 1" "fd_name (fd_table ?s 0) = ''a''" "fd_bytes (fd_table ?s 0) = []"
    "app_files ?s = formatted" "fd_used (fd_table ?s 0)" "fd_buf (fd_table ?s 0) = 0" "fd_size (fd_table ?s 0) = 0"
    by (simp_all add: demo_app_def fd_bytes_def)
  have w: "win_cwd_bno (fd_window ?s (fd_table ?s 0)) = 1" by (simp add: fd fd_window_def tmp_window_def)
  obtain f where "store_file_bytes formatted (fd_window ?s (fd_table ?s 0)) ''a'' [] = Some (0, f)"
    using store_succeeds [OF formatted_ok(1) w formatted_window(2) _ formatted_entry, of "[]"] formatted_ok(2) by auto
  then have "\<exists>s1. appfs_commit ?s 0 = Some (0, s1)" by (simp add: appfs_commit_def Let_def fd)
  then obtain s' where c: "appfs_close ?s 3 = Some (0, s')"
    using demo_app_view(1,3) [of h] by (auto simp: appfs_close_def appfs_close_fd_def Let_def)
  from close_stores_file [OF demo_app_ok [OF h] demo_app_view(1,4,3) _ _ _ _ fd(1) _ c, of "\<lambda>_. []"]
  have "map_option fst (load_file_bytes (app_files s') (tmp_window 1 []) ''a'' 10) = Some (0, [])"
    using formatted_ok(1) formatted_window fd by fastforce
  with c show ?thesis by blast
qed

end
