(* ===== verification/Asm.thy ===== *)
theory Asm
  imports FsStore TermEnv
begin

text \<open>
  The assembler tool of the shell (\<open>vibeos/apps/editor/tool_asm.c\<close>): the lexical functions, the
  program built from a source text, the interpreter of its instructions, and \<open>run_asm_file\<close>.

  Registers are 32-bit words (\<open>int32_t\<close> arithmetic wraps around in the compiled code). The
  source buffer the code cuts into strings in place is a text here; the pointer of an
  instruction into it is the string it points to. The texts of a failing operand test are the
  code's. At the end: an abstract machine on abstract instructions, and the proof that
  assembling and running the printed form of a program is running it on this machine.
\<close>

section \<open>Lexical functions\<close>

definition asm_is_space :: "char \<Rightarrow> bool" where
  "asm_is_space c \<longleftrightarrow> c = CHR '' '' \<or> c = CHR 0x09 \<or> c = CHR 0x0D \<or> c = CHR 0x0A"

definition asm_trim :: "string \<Rightarrow> string" where
  "asm_trim s = rev (dropWhile asm_is_space (rev (dropWhile asm_is_space s)))"

fun asm_strip_comment :: "string \<Rightarrow> string" where
  "asm_strip_comment [] = []"
| "asm_strip_comment (c # s) =
     (if c = CHR ''#'' then []
      else if c = CHR ''/'' \<and> char_at s 0 = CHR ''/'' then []
      else c # asm_strip_comment s)"

definition asm_is_ident_start :: "char \<Rightarrow> bool" where
  "asm_is_ident_start c \<longleftrightarrow>
     (let n = (of_char c :: nat) in (97 \<le> n \<and> n \<le> 122) \<or> (65 \<le> n \<and> n \<le> 90) \<or> c = CHR ''_'' \<or> c = CHR ''.'')"

definition asm_is_ident_char :: "char \<Rightarrow> bool" where
  "asm_is_ident_char c \<longleftrightarrow> asm_is_ident_start c \<or> is_digit c"

text \<open>The digits of \<open>x<n>\<close>; \<open>n\<close> is an \<open>int\<close> that wraps around.\<close>

fun parse_x :: "string \<Rightarrow> u32 \<Rightarrow> nat option" where
  "parse_x [] n = None"
| "parse_x (c # s) n =
     (if is_digit c then
        let n = n * 10 + (of_char c - 48) in
        if s = [] then if 0 \<le> sint n \<and> sint n < 32 then Some (unat n) else None
        else parse_x s n
      else None)"

definition reg_names :: "(string \<times> nat) list" where
  "reg_names =
    [(''zero'', 0), (''ra'', 1), (''sp'', 2), (''gp'', 3), (''tp'', 4),
     (''t0'', 5), (''t1'', 6), (''t2'', 7),
     (''s0'', 8), (''fp'', 8), (''s1'', 9),
     (''a0'', 10), (''a1'', 11), (''a2'', 12), (''a3'', 13), (''a4'', 14), (''a5'', 15), (''a6'', 16), (''a7'', 17),
     (''s2'', 18), (''s3'', 19), (''s4'', 20), (''s5'', 21), (''s6'', 22), (''s7'', 23), (''s8'', 24), (''s9'', 25),
     (''s10'', 26), (''s11'', 27),
     (''t3'', 28), (''t4'', 29), (''t5'', 30), (''t6'', 31)]"

definition asm_parse_reg :: "string \<Rightarrow> nat option" where
  "asm_parse_reg name =
     (if name = [] then None
      else if char_at name 0 = CHR ''x'' \<and> is_digit (char_at name 1) then parse_x (drop 1 name) 0
      else map_of reg_names name)"

definition imm_digit :: "u32 \<Rightarrow> char \<Rightarrow> u32 option" where
  "imm_digit base c =
     (let n = (of_char c :: nat) in
      case (if is_digit c then Some (of_char c - 48)
            else if base = 16 \<and> 97 \<le> n \<and> n \<le> 102 then Some (10 + (of_char c - 97))
            else if base = 16 \<and> 65 \<le> n \<and> n \<le> 70 then Some (10 + (of_char c - 65))
            else None) of
        None \<Rightarrow> None
      | Some d \<Rightarrow> if d \<ge> base then None else Some d)"

fun imm_loop :: "u32 \<Rightarrow> string \<Rightarrow> u32 \<Rightarrow> u32 option" where
  "imm_loop base [] v = Some v"
| "imm_loop base (c # s) v =
     (case imm_digit base c of None \<Rightarrow> None | Some d \<Rightarrow> imm_loop base s (v * base + d))"

definition asm_parse_imm :: "string \<Rightarrow> u32 option" where
  "asm_parse_imm s =
     (if s = [] then None
      else
        let neg = (char_at s 0 = CHR ''-'');
            s = (if char_at s 0 = CHR ''+'' \<or> char_at s 0 = CHR ''-'' then drop 1 s else s);
            hex = (char_at s 0 = CHR ''0'' \<and> (char_at s 1 = CHR ''x'' \<or> char_at s 1 = CHR ''X''));
            base = (if hex then 16 else 10);
            s = (if hex then drop 2 s else s)
        in if s = [] then None
           else case imm_loop base s 0 of
                  None \<Rightarrow> None
                | Some v \<Rightarrow> Some (if neg then if v = 0 then 0 else - v else v))"

definition is_sep :: "char \<Rightarrow> bool" where
  "is_sep c \<longleftrightarrow> asm_is_space c \<or> c = CHR '',''"

text \<open>The token (\<open>None\<close> if there is none) and the new cursor.\<close>

definition asm_next_token :: "string \<Rightarrow> nat \<Rightarrow> string option \<times> string" where
  "asm_next_token cursor max_len =
     (let p = dropWhile is_sep cursor in
      if p = [] then (None, p)
      else (Some (take (max_len - 1) (takeWhile (\<lambda>c. \<not> is_sep c) p)),
            dropWhile is_sep (dropWhile (\<lambda>c. \<not> is_sep c) p)))"

section \<open>The program\<close>

abbreviation (input) ASM_MAX_LINES :: nat where "ASM_MAX_LINES \<equiv> 256"
abbreviation (input) ASM_MAX_LABELS :: nat where "ASM_MAX_LABELS \<equiv> 64"
abbreviation (input) ASM_LINE_LEN :: nat where "ASM_LINE_LEN \<equiv> 192"
abbreviation (input) OUT_BUF_SIZE :: nat where "OUT_BUF_SIZE \<equiv> 2048"

record asm_program =
  insts :: "string list"
  line_nos :: "nat list"
  asm_labels :: "(string \<times> nat) list"

definition empty_program :: asm_program where
  "empty_program = \<lparr>insts = [], line_nos = [], asm_labels = []\<rparr>"

definition asm_find_label :: "asm_program \<Rightarrow> string \<Rightarrow> nat option" where
  "asm_find_label prog name = map_option snd (find (\<lambda>l. fst l = name) (asm_labels prog))"

definition asm_add_label :: "asm_program \<Rightarrow> string \<Rightarrow> nat \<Rightarrow> int \<times> asm_program" where
  "asm_add_label prog name n =
     (if length (asm_labels prog) \<ge> ASM_MAX_LABELS then (-1, prog)
      else if asm_find_label prog name \<noteq> None then (-2, prog)
      else (0, prog\<lparr>asm_labels := asm_labels prog @ [(copy_name20 name, n)]\<rparr>))"

text \<open>The labels at the start of a line: the text after them, or an error.\<close>

definition label_prefix :: "string \<Rightarrow> nat option" where
  "label_prefix s =
     (case strchr s (CHR '':'') of
        None \<Rightarrow> None
      | Some k \<Rightarrow>
        if \<not> list_all asm_is_ident_char (take k s) \<or> k = 0 \<or> \<not> asm_is_ident_start (char_at s 0)
        then None else Some k)"

lemma length_asm_trim: "length (asm_trim s) \<le> length s"
  using length_dropWhile_le [of asm_is_space "rev (dropWhile asm_is_space s)"]
    length_dropWhile_le [of asm_is_space s]
  by (simp add: asm_trim_def)

lemma label_prefix_less: "label_prefix s = Some k \<Longrightarrow> k < length s"
  by (auto simp: label_prefix_def strchr_Some split: option.splits if_splits)

function asm_line_labels :: "string \<Rightarrow> asm_program \<Rightarrow> string + string \<times> asm_program" where
  "asm_line_labels s prog =
     (case label_prefix s of
        None \<Rightarrow> Inr (s, prog)
      | Some k \<Rightarrow>
        let name = asm_trim (take k s) in
        if name = [] then Inl ''asm: empty label''
        else case asm_add_label prog name (length (insts prog)) of
               (rc, prog) \<Rightarrow>
               if rc \<noteq> 0 then Inl ''asm: duplicate/too many labels''
               else let s = asm_trim (drop (k + 1) s) in
                    if s = [] then Inr (s, prog) else asm_line_labels s prog)"
  by pat_completeness auto
termination
  by (relation "measure (\<lambda>(s, prog). length s)")
    (auto dest!: label_prefix_less intro: le_less_trans [OF length_asm_trim])

declare asm_line_labels.simps [simp del]

text \<open>One line of the source: comment and blanks removed, labels entered, an instruction added.\<close>

definition asm_source_line :: "string \<Rightarrow> nat \<Rightarrow> asm_program \<Rightarrow> string + asm_program" where
  "asm_source_line ln line_no prog =
     (let s = asm_trim (asm_strip_comment ln) in
      if s = [] then Inr prog
      else case asm_line_labels s prog of
             Inl err \<Rightarrow> Inl err
           | Inr (s, prog) \<Rightarrow>
             if s = [] then Inr prog
             else if char_at s 0 = CHR ''.'' then Inr prog
             else if length (insts prog) \<ge> ASM_MAX_LINES then Inl ''asm: program too large''
             else Inr (prog\<lparr>insts := insts prog @ [s], line_nos := line_nos prog @ [line_no]\<rparr>))"

fun asm_build_lines :: "string list \<Rightarrow> nat \<Rightarrow> asm_program \<Rightarrow> string + asm_program" where
  "asm_build_lines [] line_no prog = Inr prog"
| "asm_build_lines (l # ls) line_no prog =
     (case asm_source_line l line_no prog of
        Inl err \<Rightarrow> Inl err
      | Inr prog \<Rightarrow> asm_build_lines ls (line_no + 1) prog)"

lemma drop_dropWhile_less: "p \<noteq> [] \<Longrightarrow> length (drop (Suc 0) (dropWhile P p)) < length p"
proof -
  assume "p \<noteq> []"
  then have "0 < length p" by simp
  then show ?thesis using length_dropWhile_le [of P p] unfolding length_drop by linarith
qed

text \<open>The lines of a text; the loop ends at the end of the text, not with an empty last line.\<close>

function split_lines :: "string \<Rightarrow> string list" where
  "split_lines p =
     (if p = [] then []
      else takeWhile (\<lambda>c. c \<noteq> CHR 0x0A) p # split_lines (drop 1 (dropWhile (\<lambda>c. c \<noteq> CHR 0x0A) p)))"
  by pat_completeness auto
termination
  by (relation "measure length") (auto intro: drop_dropWhile_less simp del: length_drop)

declare split_lines.simps [simp del]

definition asm_build_program :: "string \<Rightarrow> string + asm_program" where
  "asm_build_program src = asm_build_lines (split_lines src) 1 empty_program"

section \<open>The output buffer\<close>

definition asm_append_text :: "string \<Rightarrow> string \<Rightarrow> string" where
  "asm_append_text out s = out @ take (OUT_BUF_SIZE - 1 - length out) s"

definition asm_append_int32 :: "string \<Rightarrow> u32 \<Rightarrow> string" where
  "asm_append_int32 out v =
     (if sint v < 0 then
        let out = asm_append_text out ''-'' in
        if v = 0x80000000 then asm_append_text out (lib_itoa 0x80000000)
        else asm_append_text out (lib_itoa (- v))
      else asm_append_text out (lib_itoa v))"

definition hex_char :: "nat \<Rightarrow> char" where
  "hex_char d = ''0123456789abcdef'' ! d"

fun hex32_loop :: "nat \<Rightarrow> u32 \<Rightarrow> string \<Rightarrow> string" where
  "hex32_loop 0 v buf = buf"
| "hex32_loop (Suc i) v buf = hex32_loop i (drop_bit 4 v) (hex_char (unat (v AND 0xF)) # buf)"

definition append_hex32_local :: "u32 \<Rightarrow> string" where
  "append_hex32_local v = hex32_loop 8 v []"

section \<open>The interpreter\<close>

record vm =
  vm_regs :: "u32 list"
  vm_pc :: nat
  vm_out :: string

text \<open>
  The outcome of one pass of the loop: on to the next, end of the program (\<open>break\<close>), or return
  of \<open>-1\<close> with a text. \<open>fall\<close> is the common end of the pass.
\<close>

datatype outcome = Next vm | Halt vm | Fail string

definition fall :: "vm \<Rightarrow> outcome" where
  "fall s = Next (s\<lparr>vm_regs := (vm_regs s)[0 := 0], vm_pc := vm_pc s + 1\<rparr>)"

definition set_reg :: "vm \<Rightarrow> nat \<Rightarrow> u32 \<Rightarrow> outcome" where
  "set_reg s rd v = fall (if rd \<noteq> 0 then s\<lparr>vm_regs := (vm_regs s)[rd := v]\<rparr> else s)"

abbreviation reg :: "vm \<Rightarrow> nat \<Rightarrow> u32" where
  "reg s r \<equiv> vm_regs s ! r"

definition tokens1 :: "string \<Rightarrow> (string \<times> string) option" where
  "tokens1 cur = (case asm_next_token cur 24 of (None, _) \<Rightarrow> None | (Some a, cur) \<Rightarrow> Some (a, cur))"

definition tokens2 :: "string \<Rightarrow> (string \<times> string \<times> string) option" where
  "tokens2 cur = (case tokens1 cur of None \<Rightarrow> None
     | Some (a, cur) \<Rightarrow> map_option (\<lambda>(b, cur). (a, b, cur)) (tokens1 cur))"

definition tokens3 :: "string \<Rightarrow> (string \<times> string \<times> string) option" where
  "tokens3 cur = (case tokens2 cur of None \<Rightarrow> None
     | Some (a, b, cur) \<Rightarrow> map_option (\<lambda>(c, cur). (a, b, c)) (tokens1 cur))"

definition exec_li :: "vm \<Rightarrow> string \<Rightarrow> outcome" where
  "exec_li s cur =
     (case tokens2 cur of
        None \<Rightarrow> Fail ''asm: li needs rd, imm''
      | Some (a, b, _) \<Rightarrow>
        (case (asm_parse_reg a, asm_parse_imm b) of
           (Some rd, Some imm) \<Rightarrow> set_reg s rd imm
         | _ \<Rightarrow> Fail ''asm: bad li operand''))"

definition exec_mv :: "vm \<Rightarrow> string \<Rightarrow> outcome" where
  "exec_mv s cur =
     (case tokens2 cur of
        None \<Rightarrow> Fail ''asm: mv needs rd, rs''
      | Some (a, b, _) \<Rightarrow>
        (case (asm_parse_reg a, asm_parse_reg b) of
           (Some rd, Some rs1) \<Rightarrow> set_reg s rd (reg s rs1)
         | _ \<Rightarrow> Fail ''asm: bad mv operand''))"

definition exec_addi :: "vm \<Rightarrow> string \<Rightarrow> outcome" where
  "exec_addi s cur =
     (case tokens3 cur of
        None \<Rightarrow> Fail ''asm: addi needs rd, rs, imm''
      | Some (a, b, c) \<Rightarrow>
        (case (asm_parse_reg a, asm_parse_reg b, asm_parse_imm c) of
           (Some rd, Some rs1, Some imm) \<Rightarrow> set_reg s rd (reg s rs1 + imm)
         | _ \<Rightarrow> Fail ''asm: bad addi operand''))"

definition exec_addsub :: "bool \<Rightarrow> vm \<Rightarrow> string \<Rightarrow> outcome" where
  "exec_addsub adding s cur =
     (case tokens3 cur of
        None \<Rightarrow> Fail ''asm: add/sub needs rd, rs1, rs2''
      | Some (a, b, c) \<Rightarrow>
        (case (asm_parse_reg a, asm_parse_reg b, asm_parse_reg c) of
           (Some rd, Some rs1, Some rs2) \<Rightarrow>
             set_reg s rd (if adding then reg s rs1 + reg s rs2 else reg s rs1 - reg s rs2)
         | _ \<Rightarrow> Fail ''asm: bad add/sub operand''))"

definition exec_lui :: "vm \<Rightarrow> string \<Rightarrow> outcome" where
  "exec_lui s cur =
     (case tokens2 cur of
        None \<Rightarrow> Fail ''asm: lui needs rd, imm''
      | Some (a, b, _) \<Rightarrow>
        (case (asm_parse_reg a, asm_parse_imm b) of
           (Some rd, Some imm) \<Rightarrow> set_reg s rd (push_bit 12 imm)
         | _ \<Rightarrow> Fail ''asm: bad lui operand''))"

definition exec_j :: "asm_program \<Rightarrow> vm \<Rightarrow> string \<Rightarrow> outcome" where
  "exec_j prog s cur =
     (case tokens1 cur of
        None \<Rightarrow> Fail ''asm: j needs label''
      | Some (a, _) \<Rightarrow>
        (case asm_find_label prog a of
           None \<Rightarrow> Fail ''asm: unknown label''
         | Some target \<Rightarrow> Next (s\<lparr>vm_pc := target\<rparr>)))"

definition exec_branch :: "asm_program \<Rightarrow> bool \<Rightarrow> vm \<Rightarrow> string \<Rightarrow> outcome" where
  "exec_branch prog on_equal s cur =
     (case tokens3 cur of
        None \<Rightarrow> Fail ''asm: beq/bne needs rs1, rs2, label''
      | Some (a, b, c) \<Rightarrow>
        (case (asm_parse_reg a, asm_parse_reg b, asm_find_label prog c) of
           (Some rs1, Some rs2, Some target) \<Rightarrow>
             if (reg s rs1 = reg s rs2) = on_equal then Next (s\<lparr>vm_pc := target\<rparr>) else fall s
         | _ \<Rightarrow> Fail ''asm: bad branch operand''))"

definition exec_ecall :: "vm \<Rightarrow> outcome" where
  "exec_ecall s =
     (let sysno = reg s 17 in
      if sysno = 1 then fall (s\<lparr>vm_out := asm_append_text (asm_append_int32 (vm_out s) (reg s 10)) [CHR 0x0A]\<rparr>)
      else if sysno = 2 then
        fall (s\<lparr>vm_out := asm_append_text (asm_append_text (vm_out s) (append_hex32_local (reg s 10))) [CHR 0x0A]\<rparr>)
      else if sysno = 10 then Halt s
      else Fail ''asm: unsupported ecall'')"

definition asm_step :: "asm_program \<Rightarrow> vm \<Rightarrow> outcome" where
  "asm_step prog s =
     (case asm_next_token (take (ASM_LINE_LEN - 1) (insts prog ! vm_pc s)) 24 of
        (None, _) \<Rightarrow> Next (s\<lparr>vm_pc := vm_pc s + 1\<rparr>)
      | (Some op, cur) \<Rightarrow>
        if op = ''li'' then exec_li s cur
        else if op = ''mv'' then exec_mv s cur
        else if op = ''addi'' then exec_addi s cur
        else if op = ''add'' \<or> op = ''sub'' then exec_addsub (op = ''add'') s cur
        else if op = ''lui'' then exec_lui s cur
        else if op = ''j'' then exec_j prog s cur
        else if op = ''beq'' \<or> op = ''bne'' then exec_branch prog (op = ''beq'') s cur
        else if op = ''ecall'' then exec_ecall s
        else if op = ''nop'' then fall s
        else Fail (lib_strcat (lib_strcpy ''asm: bad opcode on line '') (lib_itoa (of_nat (line_nos prog ! vm_pc s)))))"

text \<open>\<open>left\<close> is the number of steps left of the limit of 200000.\<close>

function asm_exec_loop :: "asm_program \<Rightarrow> nat \<Rightarrow> vm \<Rightarrow> int \<times> string" where
  "asm_exec_loop prog left s =
     (if vm_pc s < length (insts prog) then
        if left = 0 then (-1, ''asm: step limit reached'')
        else case asm_step prog s of
               Next s \<Rightarrow> asm_exec_loop prog (left - 1) s
             | Halt s \<Rightarrow> (0, if vm_out s = [] then ''>> asm done'' else vm_out s)
             | Fail err \<Rightarrow> (-1, err)
      else (0, if vm_out s = [] then ''>> asm done'' else vm_out s))"
  by pat_completeness auto
termination by (relation "measure (\<lambda>(prog, left, s). left)") auto

declare asm_exec_loop.simps [simp del]

definition vm_start :: vm where
  "vm_start = \<lparr>vm_regs = replicate 32 0, vm_pc = 0, vm_out = []\<rparr>"

definition asm_exec_program :: "asm_program \<Rightarrow> int \<times> string" where
  "asm_exec_program prog = asm_exec_loop prog 200000 vm_start"

text \<open>
  \<open>run_asm_file\<close>: the result code and the text in \<open>term->out_buf\<close>, which is \<open>out\<close> before.
  The bytes of the file count up to the first NUL.
\<close>

abbreviation (input) WGET_MAX_FILE_SIZE :: nat where "WGET_MAX_FILE_SIZE \<equiv> 262144"

definition run_asm_file :: "fs \<Rightarrow> fs_win \<Rightarrow> string \<Rightarrow> string \<Rightarrow> ((int \<times> string) \<times> fs_win \<times> fs) option" where
  "run_asm_file f w name out =
     (case load_file_bytes f w name WGET_MAX_FILE_SIZE of
        None \<Rightarrow> None
      | Some ((rc, bs), w, f) \<Rightarrow>
        Some (if rc \<noteq> 0 then (-1, out)
              else if length bs = 0 then (-1, ''asm: empty file'')
              else if length bs \<ge> WGET_MAX_FILE_SIZE - 1 then (-1, ''asm: file too large'')
              else case asm_build_program (takeWhile (\<lambda>c. c \<noteq> NUL) (map b2c bs)) of
                     Inl err \<Rightarrow> (-1, err)
                   | Inr prog \<Rightarrow> asm_exec_program prog, w, f))"

section \<open>Bounds of the program and of the interpreter\<close>

definition asm_program_ok :: "asm_program \<Rightarrow> bool" where
  "asm_program_ok p \<longleftrightarrow> length (insts p) \<le> 256 \<and> length (line_nos p) = length (insts p) \<and>
     length (asm_labels p) \<le> 64 \<and>
     (\<forall>l \<in> set (asm_labels p). length (fst l) < 20 \<and> snd l \<le> length (insts p))"

lemma asm_add_label_ok:
  "asm_program_ok p \<Longrightarrow> asm_add_label p name (length (insts p)) = (rc, p') \<Longrightarrow>
   asm_program_ok p' \<and> insts p' = insts p"
  unfolding asm_add_label_def asm_program_ok_def copy_name20_def
  by (simp split: if_splits) fastforce

lemma asm_line_labels_ok:
  "asm_program_ok p \<Longrightarrow> asm_line_labels s p = Inr (s', p') \<Longrightarrow> asm_program_ok p'"
proof (induction s p rule: asm_line_labels.induct)
  case (1 s p)
  show ?case
    using 1 by (subst (asm) (2) asm_line_labels.simps)
      (fastforce split: option.splits prod.splits if_splits simp: Let_def dest: asm_add_label_ok)
qed

lemma asm_source_line_ok: "asm_program_ok p \<Longrightarrow> asm_source_line l n p = Inr p' \<Longrightarrow> asm_program_ok p'"
  unfolding asm_source_line_def Let_def
  by (fastforce simp: asm_program_ok_def split: if_splits sum.splits prod.splits dest!: asm_line_labels_ok [rotated])

lemma asm_build_lines_ok: "asm_program_ok p \<Longrightarrow> asm_build_lines ls n p = Inr p' \<Longrightarrow> asm_program_ok p'"
  by (induction ls arbitrary: n p) (auto split: sum.splits dest: asm_source_line_ok)

lemma parse_x_less: "parse_x s n = Some r \<Longrightarrow> r < 32"
proof (induction s n rule: parse_x.induct)
  case (2 c s n)
  have "unat v < 32" if "0 \<le> sint v" "sint v < 32" for v :: u32
    using that uint_sint [of v] by (simp add: take_bit_int_eq_self unat_eq_nat_uint)
  then show ?case using 2 by (auto simp: Let_def split: if_splits)
qed simp

lemma reg_names_less: "(n, r) \<in> set reg_names \<Longrightarrow> r < 32"
  by (auto simp: reg_names_def)

lemma asm_parse_reg_less: "asm_parse_reg s = Some r \<Longrightarrow> r < 32"
  by (auto simp: asm_parse_reg_def split: if_splits dest!: map_of_SomeD dest: parse_x_less reg_names_less)

definition vm_ok :: "asm_program \<Rightarrow> vm \<Rightarrow> bool" where
  "vm_ok prog s \<longleftrightarrow> length (vm_regs s) = 32 \<and> vm_regs s ! 0 = 0 \<and> length (vm_out s) \<le> 2047 \<and>
     vm_pc s \<le> length (insts prog)"

lemma length_append_text: "length out \<le> 2047 \<Longrightarrow> length (asm_append_text out s) \<le> 2047"
  by (auto simp: asm_append_text_def)

lemma length_append_int32: "length out \<le> 2047 \<Longrightarrow> length (asm_append_int32 out v) \<le> 2047"
  by (simp add: asm_append_int32_def Let_def length_append_text)

lemma fall_ok: "length (vm_regs s) = 32 \<Longrightarrow> length (vm_out s) \<le> 2047 \<Longrightarrow> vm_pc s < length (insts prog) \<Longrightarrow>
    fall s = Next s' \<Longrightarrow> vm_ok prog s'"
  by (auto simp: fall_def vm_ok_def)

lemma set_reg_ok: "vm_ok prog s \<Longrightarrow> vm_pc s < length (insts prog) \<Longrightarrow> set_reg s rd v = Next s' \<Longrightarrow> vm_ok prog s'"
  by (auto simp: set_reg_def vm_ok_def fall_def split: if_splits)

lemma find_label_bound: "asm_program_ok prog \<Longrightarrow> asm_find_label prog l = Some t \<Longrightarrow> t \<le> length (insts prog)"
  unfolding asm_find_label_def asm_program_ok_def
  by (auto simp: find_Some_iff) (metis nth_mem snd_conv)

lemma asm_step_cases:
  assumes "P (Next (s\<lparr>vm_pc := vm_pc s + 1\<rparr>))"
    and "\<And>cur. P (exec_li s cur)" "\<And>cur. P (exec_mv s cur)" "\<And>cur. P (exec_addi s cur)"
    and "\<And>b cur. P (exec_addsub b s cur)" "\<And>cur. P (exec_lui s cur)" "\<And>cur. P (exec_j prog s cur)"
    and "\<And>b cur. P (exec_branch prog b s cur)" "P (exec_ecall s)" "P (fall s)"
    and "\<And>v. P (Fail (lib_strcat (lib_strcpy ''asm: bad opcode on line '') (lib_itoa v)))"
  shows "P (asm_step prog s)"
proof -
  have chain: "P x \<Longrightarrow> P y \<Longrightarrow> P (if b then x else y)" for b x y by simp
  obtain t cur where t: "asm_next_token (take (ASM_LINE_LEN - 1) (insts prog ! vm_pc s)) 24 = (t, cur)"
    by (cases "asm_next_token (take (ASM_LINE_LEN - 1) (insts prog ! vm_pc s)) 24")
  show ?thesis
  proof (cases t)
    case None
    show ?thesis unfolding asm_step_def t None prod.case option.case by (rule assms(1))
  next
    case (Some op)
    show ?thesis unfolding asm_step_def t Some prod.case option.case by (intro chain assms)
  qed
qed

lemma asm_step_ok:
  assumes "asm_program_ok prog" "vm_ok prog s" "vm_pc s < length (insts prog)" "asm_step prog s = Next s'"
  shows "vm_ok prog s'"
proof -
  have reg: "set_reg s rd v = Next s' \<Longrightarrow> vm_ok prog s'" for rd v using set_reg_ok assms by blast
  have fallen: "fall (s\<lparr>vm_out := out\<rparr>) = Next s' \<Longrightarrow> length out \<le> 2047 \<Longrightarrow> vm_ok prog s'" for out
    using assms(2,3) by (auto simp: vm_ok_def fall_def)
  have here: "fall s = Next s' \<Longrightarrow> vm_ok prog s'" using fall_ok assms(2,3) by (auto simp: vm_ok_def)
  have jump: "asm_find_label prog l = Some t \<Longrightarrow> vm_ok prog (s\<lparr>vm_pc := t\<rparr>)" for l t
    using assms(1,2) find_label_bound by (simp add: vm_ok_def)
  have o: "length (vm_out s) \<le> 2047" using assms(2) by (simp add: vm_ok_def)
  have li: "exec_li s cur = Next s' \<Longrightarrow> vm_ok prog s'" for cur
    by (auto simp: exec_li_def split: option.splits prod.splits dest: reg)
  have mv: "exec_mv s cur = Next s' \<Longrightarrow> vm_ok prog s'" for cur
    by (auto simp: exec_mv_def split: option.splits prod.splits dest: reg)
  have addi: "exec_addi s cur = Next s' \<Longrightarrow> vm_ok prog s'" for cur
    by (auto simp: exec_addi_def split: option.splits prod.splits dest: reg)
  have add: "exec_addsub b s cur = Next s' \<Longrightarrow> vm_ok prog s'" for b cur
    by (auto simp: exec_addsub_def split: option.splits prod.splits dest: reg)
  have lui: "exec_lui s cur = Next s' \<Longrightarrow> vm_ok prog s'" for cur
    by (auto simp: exec_lui_def split: option.splits prod.splits dest: reg)
  have j: "exec_j prog s cur = Next s' \<Longrightarrow> vm_ok prog s'" for cur
    by (auto simp: exec_j_def split: option.splits prod.splits dest: jump)
  have branch: "exec_branch prog b s cur = Next s' \<Longrightarrow> vm_ok prog s'" for b cur
    by (auto simp: exec_branch_def split: option.splits prod.splits if_splits dest: jump here)
  have ecall: "exec_ecall s = Next s' \<Longrightarrow> vm_ok prog s'"
    using o by (auto simp: exec_ecall_def Let_def split: if_splits
        intro: fallen length_append_text length_append_int32)
  have "asm_step prog s = Next s' \<longrightarrow> vm_ok prog s'"
    by (rule asm_step_cases) (use assms(2,3) li mv addi add lui j branch ecall here in \<open>auto simp: vm_ok_def\<close>)
  then show ?thesis using assms(4) by simp
qed

text \<open>The states at the head of the loop of \<open>asm_exec_program\<close>.\<close>

inductive asm_reach :: "asm_program \<Rightarrow> vm \<Rightarrow> bool" for prog where
  start: "asm_reach prog vm_start"
| pass: "asm_reach prog s \<Longrightarrow> vm_pc s < length (insts prog) \<Longrightarrow> asm_step prog s = Next s' \<Longrightarrow>
    asm_reach prog s'"

lemma asm_build_ok: "asm_build_program src = Inr prog \<Longrightarrow> asm_program_ok prog"
  using asm_build_lines_ok [of empty_program] by (simp add: asm_build_program_def asm_program_ok_def empty_program_def)

lemma vm_start_ok: "vm_ok prog vm_start"
  by (simp add: vm_ok_def vm_start_def)

lemma asm_reach_ok: "asm_reach prog s \<Longrightarrow> asm_program_ok prog \<Longrightarrow> vm_ok prog s"
  by (induction rule: asm_reach.induct) (auto intro: vm_start_ok asm_step_ok)

lemma length_digits_rev: "n < 10 ^ k \<Longrightarrow> length (digits_rev n) \<le> k"
proof (induction n arbitrary: k rule: digits_rev.induct)
  case (1 n)
  show ?case
  proof (cases "n = 0")
    case False
    then obtain j where k: "k = Suc j" using 1(2) by (cases k) auto
    then have "length (digits_rev (n div 10)) \<le> j" using 1 False by (simp add: less_mult_imp_div_less mult.commute)
    then show ?thesis using False k by (subst digits_rev.simps) simp
  qed (subst digits_rev.simps, simp)
qed

lemma length_lib_itoa: "length (lib_itoa n) \<le> 10"
proof -
  have "unat n < 2 ^ 32" using unsigned_less [of n] by simp
  then have "unat n < 10 ^ 10" by simp
  then show ?thesis using length_digits_rev [of "unat n" 10] by (simp add: lib_itoa_def)
qed

lemma fall_next [simp]: "fall s \<noteq> Fail e" "fall s \<noteq> Halt t" "set_reg s rd v \<noteq> Fail e" "set_reg s rd v \<noteq> Halt t"
  by (simp_all add: fall_def set_reg_def)

definition short_text :: "string \<Rightarrow> bool" where
  "short_text e \<longleftrightarrow> e \<noteq> [] \<and> length e < 64"

lemma exec_fail:
  "exec_li s cur = Fail e \<Longrightarrow> short_text e"
  "exec_mv s cur = Fail e \<Longrightarrow> short_text e"
  "exec_addi s cur = Fail e \<Longrightarrow> short_text e"
  "exec_addsub b s cur = Fail e \<Longrightarrow> short_text e"
  "exec_lui s cur = Fail e \<Longrightarrow> short_text e"
  "exec_j prog s cur = Fail e \<Longrightarrow> short_text e"
  "exec_branch prog b s cur = Fail e \<Longrightarrow> short_text e"
  "exec_ecall s = Fail e \<Longrightarrow> short_text e"
proof -
  show "exec_li s cur = Fail e \<Longrightarrow> short_text e"
    by (auto simp: exec_li_def short_text_def split: option.splits prod.splits if_splits)
  show "exec_mv s cur = Fail e \<Longrightarrow> short_text e"
    by (auto simp: exec_mv_def short_text_def split: option.splits prod.splits if_splits)
  show "exec_addi s cur = Fail e \<Longrightarrow> short_text e"
    by (auto simp: exec_addi_def short_text_def split: option.splits prod.splits if_splits)
  show "exec_addsub b s cur = Fail e \<Longrightarrow> short_text e"
    by (auto simp: exec_addsub_def short_text_def split: option.splits prod.splits if_splits)
  show "exec_lui s cur = Fail e \<Longrightarrow> short_text e"
    by (auto simp: exec_lui_def short_text_def split: option.splits prod.splits if_splits)
  show "exec_j prog s cur = Fail e \<Longrightarrow> short_text e"
    by (auto simp: exec_j_def short_text_def split: option.splits prod.splits if_splits)
  show "exec_branch prog b s cur = Fail e \<Longrightarrow> short_text e"
    by (auto simp: exec_branch_def short_text_def split: option.splits prod.splits if_splits)
  show "exec_ecall s = Fail e \<Longrightarrow> short_text e"
    by (auto simp: exec_ecall_def Let_def short_text_def split: if_splits)
qed

lemma exec_halt [simp]:
  "exec_li s cur \<noteq> Halt t" "exec_mv s cur \<noteq> Halt t" "exec_addi s cur \<noteq> Halt t" "exec_addsub b s cur \<noteq> Halt t"
  "exec_lui s cur \<noteq> Halt t" "exec_j prog s cur \<noteq> Halt t" "exec_branch prog b s cur \<noteq> Halt t"
proof -
  show "exec_li s cur \<noteq> Halt t"
    by (simp add: exec_li_def split: option.split prod.split)
  show "exec_mv s cur \<noteq> Halt t"
    by (simp add: exec_mv_def split: option.split prod.split)
  show "exec_addi s cur \<noteq> Halt t"
    by (simp add: exec_addi_def split: option.split prod.split)
  show "exec_addsub b s cur \<noteq> Halt t"
    by (simp add: exec_addsub_def split: option.split prod.split)
  show "exec_lui s cur \<noteq> Halt t"
    by (simp add: exec_lui_def split: option.split prod.split)
  show "exec_j prog s cur \<noteq> Halt t"
    by (simp add: exec_j_def split: option.split prod.split)
  show "exec_branch prog b s cur \<noteq> Halt t"
    by (simp add: exec_branch_def split: option.split prod.split)
qed

lemma asm_step_fail: "asm_step prog s = Fail e \<Longrightarrow> short_text e"
proof -
  have "short_text (lib_strcat (lib_strcpy ''asm: bad opcode on line '') (lib_itoa v))" for v
    using length_lib_itoa [of v] by (simp add: short_text_def lib_strcat_def lib_strcpy_def)
  then have "asm_step prog s = Fail e \<longrightarrow> short_text e"
    by (rule_tac asm_step_cases) (auto intro: exec_fail)
  then show "asm_step prog s = Fail e \<Longrightarrow> short_text e" by simp
qed

lemma asm_step_halt: "asm_step prog s = Halt s' \<Longrightarrow> s' = s"
proof -
  have "asm_step prog s = Halt s' \<longrightarrow> s' = s"
    by (rule asm_step_cases) (auto simp: exec_ecall_def Let_def)
  then show "asm_step prog s = Halt s' \<Longrightarrow> s' = s" by simp
qed

definition asm_result_ok :: "int \<times> string \<Rightarrow> bool" where
  "asm_result_ok r \<longleftrightarrow> fst r \<in> {0, -1} \<and> snd r \<noteq> [] \<and> length (snd r) < 2048"

lemma asm_exec_loop_ok:
  "asm_program_ok prog \<Longrightarrow> vm_ok prog s \<Longrightarrow> asm_result_ok (asm_exec_loop prog n s)"
proof (induction prog n s rule: asm_exec_loop.induct)
  case (1 prog n s)
  have o: "length (vm_out s) \<le> 2047" using 1(3) by (simp add: vm_ok_def)
  show ?case
  proof (cases "vm_pc s < length (insts prog) \<and> n \<noteq> 0")
    case True
    show ?thesis
    proof (cases "asm_step prog s")
      case (Next s')
      then show ?thesis using True 1 asm_step_ok
        by (subst asm_exec_loop.simps) auto
    next
      case (Halt s')
      then show ?thesis using True o asm_step_halt [OF Halt]
        by (subst asm_exec_loop.simps) (simp add: asm_result_ok_def)
    next
      case (Fail err)
      then show ?thesis using True asm_step_fail [OF Fail]
        by (subst asm_exec_loop.simps) (simp add: asm_result_ok_def short_text_def)
    qed
  next
    case False
    then show ?thesis using o by (subst asm_exec_loop.simps) (auto simp: asm_result_ok_def)
  qed
qed

text \<open>
  C33: The assembler stays in its arrays for every source text: a built program has at most 256
  instructions and 64 labels whose names fit their 20 bytes and whose targets are in the
  program; whenever the interpreter is at the head of its loop it has 32 registers, \<open>x0\<close> is
  zero, the program counter is at most the program's length and the output fits \<open>out_buf\<close>;
  every register operand is below 32; and the interpreter always returns, with 0 or -1 and a
  text that fits the window.
\<close>

theorem asm_memory_safe:
  assumes "asm_build_program src = Inr prog"
  shows "asm_program_ok prog \<and> (\<forall>s. asm_reach prog s \<longrightarrow> vm_ok prog s) \<and>
    (\<forall>name r. asm_parse_reg name = Some r \<longrightarrow> r < 32) \<and> asm_result_ok (asm_exec_program prog)"
  using asm_build_ok [OF assms] asm_reach_ok asm_parse_reg_less asm_exec_loop_ok vm_start_ok
  by (auto simp: asm_exec_program_def)

theorem asm_memory_safe_witness:
  "asm_result_ok (asm_exec_program \<lparr>insts = [''mv a0, x5''], line_nos = [1], asm_labels = [(''go'', 0)]\<rparr>)"
proof -
  have "asm_build_program ''go: mv a0, x5  # copy'' = Inr \<lparr>insts = [''mv a0, x5''], line_nos = [1], asm_labels = [(''go'', 0)]\<rparr>"
    by code_simp
  then show ?thesis using asm_memory_safe by blast
qed

section \<open>An abstract machine\<close>

text \<open>
  Instructions as data, registers as a function, targets as labels, the output without a bound.
  A program is a list of instructions, each with the labels in front of it.
\<close>

datatype ainst = ALi nat u32 | AMv nat nat | AAddi nat nat u32 | AAdd nat nat nat | ASub nat nat nat
  | ALui nat u32 | AJ string | ABeq nat nat string | ABne nat nat string | AEcall | ANop

type_synonym aprog = "(string list \<times> ainst) list"
type_synonym astate = "(nat \<Rightarrow> u32) \<times> nat \<times> string"

datatype aoutcome = AGo astate | AExit string | AFault string

definition target :: "aprog \<Rightarrow> string \<Rightarrow> nat option" where
  "target p l = find (\<lambda>i. l \<in> set (fst (p ! i))) [0 ..< length p]"

definition write_reg :: "(nat \<Rightarrow> u32) \<Rightarrow> nat \<Rightarrow> u32 \<Rightarrow> nat \<Rightarrow> u32" where
  "write_reg r d v = (if d = 0 then r else r(d := v))"

definition show_int :: "u32 \<Rightarrow> string" where
  "show_int v = (if sint v < 0 then CHR ''-'' # lib_itoa (- v) else lib_itoa v)"

definition show_hex :: "u32 \<Rightarrow> string" where
  "show_hex v = map (\<lambda>i. hex_char (unat v div 16 ^ i mod 16)) [7, 6, 5, 4, 3, 2, 1, 0]"

fun a_step :: "aprog \<Rightarrow> astate \<Rightarrow> aoutcome" where
  "a_step p (r, n, out) =
     (case snd (p ! n) of
        ALi d v \<Rightarrow> AGo (write_reg r d v, n + 1, out)
      | AMv d a \<Rightarrow> AGo (write_reg r d (r a), n + 1, out)
      | AAddi d a v \<Rightarrow> AGo (write_reg r d (r a + v), n + 1, out)
      | AAdd d a b \<Rightarrow> AGo (write_reg r d (r a + r b), n + 1, out)
      | ASub d a b \<Rightarrow> AGo (write_reg r d (r a - r b), n + 1, out)
      | ALui d v \<Rightarrow> AGo (write_reg r d (v * 4096), n + 1, out)
      | AJ l \<Rightarrow> (case target p l of None \<Rightarrow> AFault ''asm: unknown label'' | Some t \<Rightarrow> AGo (r, t, out))
      | ABeq a b l \<Rightarrow> (case target p l of None \<Rightarrow> AFault ''asm: bad branch operand''
          | Some t \<Rightarrow> AGo (r, if r a = r b then t else n + 1, out))
      | ABne a b l \<Rightarrow> (case target p l of None \<Rightarrow> AFault ''asm: bad branch operand''
          | Some t \<Rightarrow> AGo (r, if r a \<noteq> r b then t else n + 1, out))
      | AEcall \<Rightarrow>
          if r 17 = 1 then AGo (r, n + 1, out @ show_int (r 10) @ [CHR 0x0A])
          else if r 17 = 2 then AGo (r, n + 1, out @ show_hex (r 10) @ [CHR 0x0A])
          else if r 17 = 10 then AExit out
          else AFault ''asm: unsupported ecall''
      | ANop \<Rightarrow> AGo (r, n + 1, out))"

declare a_step.simps [simp del]

text \<open>What the window shows after a run that ended: the first 2047 characters of the output.\<close>

definition shown :: "string \<Rightarrow> string" where
  "shown out = (if out = [] then ''>> asm done'' else take 2047 out)"

fun a_run :: "aprog \<Rightarrow> nat \<Rightarrow> astate \<Rightarrow> int \<times> string" where
  "a_run p 0 (r, n, out) =
     (if n < length p then (-1, ''asm: step limit reached'') else (0, shown out))"
| "a_run p (Suc k) (r, n, out) =
     (if n < length p then
        case a_step p (r, n, out) of
          AGo st \<Rightarrow> a_run p k st
        | AExit out \<Rightarrow> (0, shown out)
        | AFault e \<Rightarrow> (-1, e)
      else (0, shown out))"

text \<open>The source text of a program.\<close>

definition show_reg :: "nat \<Rightarrow> string" where
  "show_reg r = CHR ''x'' # lib_itoa (of_nat r)"

definition ops2 :: "string \<Rightarrow> string \<Rightarrow> string \<Rightarrow> string" where
  "ops2 op a b = op @ '' '' @ a @ '', '' @ b"

definition ops3 :: "string \<Rightarrow> string \<Rightarrow> string \<Rightarrow> string \<Rightarrow> string" where
  "ops3 op a b c = op @ '' '' @ a @ '', '' @ b @ '', '' @ c"

fun show_inst :: "ainst \<Rightarrow> string" where
  "show_inst (ALi d v) = ops2 ''li'' (show_reg d) (show_int v)"
| "show_inst (AMv d a) = ops2 ''mv'' (show_reg d) (show_reg a)"
| "show_inst (AAddi d a v) = ops3 ''addi'' (show_reg d) (show_reg a) (show_int v)"
| "show_inst (AAdd d a b) = ops3 ''add'' (show_reg d) (show_reg a) (show_reg b)"
| "show_inst (ASub d a b) = ops3 ''sub'' (show_reg d) (show_reg a) (show_reg b)"
| "show_inst (ALui d v) = ops2 ''lui'' (show_reg d) (show_int v)"
| "show_inst (AJ l) = ''j '' @ l"
| "show_inst (ABeq a b l) = ops3 ''beq'' (show_reg a) (show_reg b) l"
| "show_inst (ABne a b l) = ops3 ''bne'' (show_reg a) (show_reg b) l"
| "show_inst AEcall = ''ecall''"
| "show_inst ANop = ''nop''"

definition show_labels :: "string list \<Rightarrow> string" where
  "show_labels ls = concat (map (\<lambda>l. l @ '': '') ls)"

definition show_line :: "string list \<times> ainst \<Rightarrow> string" where
  "show_line x = show_labels (fst x) @ show_inst (snd x)"

definition show_prog :: "aprog \<Rightarrow> string" where
  "show_prog p = concat (map (\<lambda>x. show_line x @ [CHR 0x0A]) p)"

definition label_ok :: "string \<Rightarrow> bool" where
  "label_ok l \<longleftrightarrow> l \<noteq> [] \<and> asm_is_ident_start (hd l) \<and> list_all asm_is_ident_char l \<and> length l < 20"

fun inst_ok :: "ainst \<Rightarrow> bool" where
  "inst_ok (ALi d v) = (d < 32)"
| "inst_ok (AMv d a) = (d < 32 \<and> a < 32)"
| "inst_ok (AAddi d a v) = (d < 32 \<and> a < 32)"
| "inst_ok (AAdd d a b) = (d < 32 \<and> a < 32 \<and> b < 32)"
| "inst_ok (ASub d a b) = (d < 32 \<and> a < 32 \<and> b < 32)"
| "inst_ok (ALui d v) = (d < 32)"
| "inst_ok (AJ l) = label_ok l"
| "inst_ok (ABeq a b l) = (a < 32 \<and> b < 32 \<and> label_ok l)"
| "inst_ok (ABne a b l) = (a < 32 \<and> b < 32 \<and> label_ok l)"
| "inst_ok AEcall = True"
| "inst_ok ANop = True"

definition aprog_ok :: "aprog \<Rightarrow> bool" where
  "aprog_ok p \<longleftrightarrow> length p \<le> 256 \<and> length (concat (map fst p)) \<le> 64 \<and> distinct (concat (map fst p)) \<and>
     (\<forall>x \<in> set p. inst_ok (snd x) \<and> (\<forall>l \<in> set (fst x). label_ok l))"

section \<open>Printed operands are read back\<close>

text \<open>The characters of a printed operand.\<close>

definition word_char :: "char \<Rightarrow> bool" where
  "word_char c \<longleftrightarrow> asm_is_ident_char c \<or> c = CHR ''-''"

definition word_ok :: "string \<Rightarrow> bool" where
  "word_ok w \<longleftrightarrow> w \<noteq> [] \<and> list_all word_char w \<and> length w \<le> 23"

lemma word_char_not: "word_char c \<Longrightarrow> \<not> is_sep c \<and> \<not> asm_is_space c \<and> c \<noteq> CHR '':'' \<and> c \<noteq> CHR ''#'' \<and>
    c \<noteq> CHR ''/'' \<and> c \<noteq> CHR 0x0A \<and> c \<noteq> NUL"
  by (auto simp: word_char_def asm_is_ident_char_def asm_is_ident_start_def is_digit_def Let_def is_sep_def asm_is_space_def)

lemma show_int_word: "word_ok (show_int v)"
proof -
  have "list_all word_char (lib_itoa u) \<and> lib_itoa u \<noteq> []" for u
    using lib_itoa_digits [of u] by (auto simp: list_all_iff word_char_def asm_is_ident_char_def)
  then show ?thesis using length_lib_itoa [of v] length_lib_itoa [of "- v"]
    by (auto simp: word_ok_def show_int_def word_char_def)
qed

lemma parse_show_reg: "r < 32 \<Longrightarrow> asm_parse_reg (show_reg r) = Some r \<and> word_ok (show_reg r)"
proof -
  have "list_all (\<lambda>r. asm_parse_reg (show_reg r) = Some r \<and> word_ok (show_reg r)) [0 ..< 32]"
    by code_simp
  then show "r < 32 \<Longrightarrow> asm_parse_reg (show_reg r) = Some r \<and> word_ok (show_reg r)" by (simp add: list_all_iff)
qed

lemma imm_loop_digits: "list_all is_digit s \<Longrightarrow> imm_loop 10 s v = Some (atoi_digits s v)"
proof (induction s arbitrary: v)
  case (Cons c s)
  have "imm_digit 10 c = Some (of_char c - 48)"
  proof -
    obtain n where n: "(of_char c :: nat) = n" "48 \<le> n" "n \<le> 57" using Cons.prems by (auto simp: is_digit_def)
    have "(of_char c :: u32) = of_nat n" using n(1) by (metis of_nat_of_char)
    moreover have "n \<in> {48 ..< 58}" using n by simp
    then have "of_nat n - 48 < (10 :: u32)" by (auto simp: atLeastLessThan_nat_numeral)
    ultimately show ?thesis using Cons.prems by (simp add: imm_digit_def Let_def not_le)
  qed
  then show ?case using Cons by simp
qed simp

lemma lib_itoa_value: "imm_loop 10 (lib_itoa v) 0 = Some v"
proof -
  have "list_all is_digit (lib_itoa v)" using lib_itoa_digits [of v] by (simp add: list_all_iff)
  moreover have "atoi_digits (lib_itoa v) 0 = v"
    by (simp add: lib_itoa_def atoi_digits_rev is_digit_def)
  ultimately show ?thesis by (simp add: imm_loop_digits)
qed

lemma lib_itoa_decimal: "\<exists>c s. lib_itoa v = c # s \<and> is_digit c \<and> char_at s 0 \<noteq> CHR ''x'' \<and> char_at s 0 \<noteq> CHR ''X''"
proof -
  obtain c s where cs: "lib_itoa v = c # s" using lib_itoa_digits [of v] by (cases "lib_itoa v") auto
  then have "is_digit c" "list_all is_digit s" using lib_itoa_digits [of v] by (auto simp: list_all_iff)
  then show ?thesis using cs by (cases s) (auto simp: is_digit_def)
qed

lemma parse_show_int: "asm_parse_imm (show_int v) = Some v"
proof -
  have dec: "c \<noteq> CHR ''+'' \<and> c \<noteq> CHR ''-''" if "is_digit c" for c using that by (auto simp: is_digit_def)
  obtain c s where cs: "lib_itoa v = c # s" "is_digit c" "char_at s 0 \<noteq> CHR ''x''" "char_at s 0 \<noteq> CHR ''X''"
    using lib_itoa_decimal by blast
  obtain d t where dt: "lib_itoa (- v) = d # t" "is_digit d" "char_at t 0 \<noteq> CHR ''x''" "char_at t 0 \<noteq> CHR ''X''"
    using lib_itoa_decimal by blast
  show ?thesis
  proof (cases "sint v < 0")
    case True
    then show ?thesis using dt lib_itoa_value [of "- v"] unfolding asm_parse_imm_def Let_def show_int_def
      by (simp split: if_splits)
  next
    case False
    then show ?thesis using cs dec [of c] lib_itoa_value [of v] unfolding asm_parse_imm_def Let_def show_int_def
      by (simp split: if_splits)
  qed
qed

lemma label_word: "label_ok l \<Longrightarrow> word_ok l"
  by (auto simp: label_ok_def word_ok_def word_char_def list_all_iff)

lemma word_sep:
  assumes "word_ok w"
  shows "dropWhile is_sep (w @ r) = w @ r"
    "takeWhile (\<lambda>c. \<not> is_sep c) w = w" "dropWhile (\<lambda>c. \<not> is_sep c) w = []"
    "is_sep c \<Longrightarrow> takeWhile (\<lambda>c. \<not> is_sep c) (w @ c # r) = w"
    "is_sep c \<Longrightarrow> dropWhile (\<lambda>c. \<not> is_sep c) (w @ c # r) = c # r"
proof -
  have n: "\<not> is_sep c" if "c \<in> set w" for c using assms that word_char_not by (auto simp: word_ok_def list_all_iff)
  then show "takeWhile (\<lambda>c. \<not> is_sep c) w = w" "dropWhile (\<lambda>c. \<not> is_sep c) w = []"
    "is_sep c \<Longrightarrow> takeWhile (\<lambda>c. \<not> is_sep c) (w @ c # r) = w"
    "is_sep c \<Longrightarrow> dropWhile (\<lambda>c. \<not> is_sep c) (w @ c # r) = c # r"
    by (simp_all add: takeWhile_eq_all_conv)
  show "dropWhile is_sep (w @ r) = w @ r" using n assms by (cases w) (auto simp: word_ok_def)
qed

lemma next_word_end:
  assumes w: "word_ok w"
  shows "asm_next_token w 24 = (Some w, [])"
proof -
  have "dropWhile is_sep w = w" using word_sep(1) [OF w, of "[]"] by simp
  moreover have "w \<noteq> []" "take 23 w = w" using w by (simp_all add: word_ok_def)
  ultimately show ?thesis by (simp add: asm_next_token_def word_sep(2,3) [OF w])
qed

lemma next_word: "word_ok w \<Longrightarrow> is_sep c \<Longrightarrow> asm_next_token (w @ c # r) 24 = (Some w, dropWhile is_sep r)"
  using word_sep [of w] by (auto simp: asm_next_token_def Let_def word_ok_def)

lemma sep_chars: "is_sep (CHR '' '')" "is_sep (CHR '','')"
  by (simp_all add: is_sep_def asm_is_space_def)

lemma next_op: "word_ok w \<Longrightarrow> word_ok a \<Longrightarrow> asm_next_token (w @ '' '' @ a @ r) 24 = (Some w, a @ r)"
  using next_word [of w "CHR '' ''"] word_sep(1) [of a] sep_chars by simp

lemma next_arg: "word_ok w \<Longrightarrow> word_ok a \<Longrightarrow> asm_next_token (w @ '', '' @ a @ r) 24 = (Some w, a @ r)"
  using next_word [of w "CHR '',''"] word_sep(1) [of a] sep_chars by simp

lemma first_token:
  assumes "word_ok op" "word_ok a"
  shows "asm_next_token (ops2 op a b) 24 = (Some op, a @ '', '' @ b)"
    and "asm_next_token (ops3 op a b c) 24 = (Some op, a @ '', '' @ b @ '', '' @ c)"
  unfolding ops2_def ops3_def by (rule next_op [OF assms])+

lemma operand_tokens:
  assumes "word_ok a" "word_ok b"
  shows "tokens2 (a @ '', '' @ b) = Some (a, b, [])"
    and "word_ok c \<Longrightarrow> tokens3 (a @ '', '' @ b @ '', '' @ c) = Some (a, b, c)"
proof -
  show "tokens2 (a @ '', '' @ b) = Some (a, b, [])"
    using next_arg [of a b "[]"] next_word_end [of b] assms by (simp add: tokens2_def tokens1_def)
  show "word_ok c \<Longrightarrow> tokens3 (a @ '', '' @ b @ '', '' @ c) = Some (a, b, c)"
    using next_arg [of a b "'', '' @ c"] next_arg [of b c "[]"] next_word_end [of c] assms
    by (simp add: tokens3_def tokens2_def tokens1_def)
qed

section \<open>The printed program is built\<close>

lemma op_words:
  "word_ok ''li''" "word_ok ''mv''" "word_ok ''addi''" "word_ok ''add''" "word_ok ''sub''" "word_ok ''lui''"
  "word_ok ''j''" "word_ok ''beq''" "word_ok ''bne''" "word_ok ''ecall''" "word_ok ''nop''"
  by (simp_all add: word_ok_def word_char_def asm_is_ident_char_def asm_is_ident_start_def Let_def)

lemma show_inst_form:
  assumes "inst_ok i"
  shows "\<exists>op ws. word_ok op \<and> hd op \<noteq> CHR ''.'' \<and> list_all word_ok ws \<and>
    (ws = [] \<and> show_inst i = op \<or> (\<exists>a. ws = [a] \<and> show_inst i = op @ '' '' @ a) \<or>
     (\<exists>a b. ws = [a, b] \<and> show_inst i = ops2 op a b) \<or> (\<exists>a b c. ws = [a, b, c] \<and> show_inst i = ops3 op a b c))"
proof -
  have r: "r < 32 \<Longrightarrow> word_ok (show_reg r)" for r using parse_show_reg by blast
  have zero: ?thesis if "word_ok op" "hd op \<noteq> CHR ''.''" "show_inst i = op" for op
    by (rule exI [of _ op], rule exI [of _ "[]"]) (use that in simp)
  have one: ?thesis if "word_ok op" "hd op \<noteq> CHR ''.''" "show_inst i = op @ '' '' @ a" "word_ok a" for op a
    by (rule exI [of _ op], rule exI [of _ "[a]"]) (use that in simp)
  have two: ?thesis if "word_ok op" "hd op \<noteq> CHR ''.''" "show_inst i = ops2 op a b" "word_ok a" "word_ok b" for op a b
    by (rule exI [of _ op], rule exI [of _ "[a, b]"]) (use that in simp)
  have three: ?thesis if "word_ok op" "hd op \<noteq> CHR ''.''" "show_inst i = ops3 op a b c" "word_ok a" "word_ok b" "word_ok c"
    for op a b c
    by (rule exI [of _ op], rule exI [of _ "[a, b, c]"]) (use that in simp)
  show ?thesis
  proof (cases i)
    case (ALi d v) then show ?thesis using assms r by (intro two [OF op_words(1)]) (auto intro: show_int_word)
  next
    case (AMv d a) then show ?thesis using assms r by (intro two [OF op_words(2)]) auto
  next
    case (AAddi d a v) then show ?thesis using assms r by (intro three [OF op_words(3)]) (auto intro: show_int_word)
  next
    case (AAdd d a b) then show ?thesis using assms r by (intro three [OF op_words(4)]) auto
  next
    case (ASub d a b) then show ?thesis using assms r by (intro three [OF op_words(5)]) auto
  next
    case (ALui d v) then show ?thesis using assms r by (intro two [OF op_words(6)]) (auto intro: show_int_word)
  next
    case (AJ l) then show ?thesis using assms by (intro one [OF op_words(7)]) (auto intro: label_word)
  next
    case (ABeq a b l) then show ?thesis using assms r by (intro three [OF op_words(8)]) (auto intro: label_word)
  next
    case (ABne a b l) then show ?thesis using assms r by (intro three [OF op_words(9)]) (auto intro: label_word)
  next
    case AEcall then show ?thesis by (intro zero [OF op_words(10)]) auto
  next
    case ANop then show ?thesis by (intro zero [OF op_words(11)]) auto
  qed
qed

definition line_text :: "string \<Rightarrow> bool" where
  "line_text s \<longleftrightarrow> s \<noteq> [] \<and> length s \<le> 191 \<and> \<not> asm_is_space (hd s) \<and> hd s \<noteq> CHR ''.'' \<and> \<not> asm_is_space (last s) \<and>
     list_all (\<lambda>c. word_char c \<or> c = CHR '' '' \<or> c = CHR '','') s"

lemma word_ends: "word_ok w \<Longrightarrow> w \<noteq> [] \<and> length w \<le> 23 \<and> \<not> asm_is_space (hd w) \<and> \<not> asm_is_space (last w) \<and>
    list_all (\<lambda>c. word_char c \<or> c = CHR '' '' \<or> c = CHR '','') w"
  using word_char_not by (auto simp: word_ok_def list_all_iff)

lemma show_inst_line:
  assumes "inst_ok i"
  shows "line_text (show_inst i)"
proof -
  obtain op ws where op: "word_ok op" "hd op \<noteq> CHR ''.''" and ws: "list_all word_ok ws"
    and f: "ws = [] \<and> show_inst i = op \<or> (\<exists>a. ws = [a] \<and> show_inst i = op @ '' '' @ a) \<or>
     (\<exists>a b. ws = [a, b] \<and> show_inst i = ops2 op a b) \<or> (\<exists>a b c. ws = [a, b, c] \<and> show_inst i = ops3 op a b c)"
    using show_inst_form [OF assms] by blast
  from f show ?thesis
  proof (elim disjE exE conjE)
    assume "show_inst i = op"
    then show ?thesis using op word_ends [OF op(1)] by (simp add: line_text_def)
  next
    fix a assume "ws = [a]" "show_inst i = op @ '' '' @ a"
    then show ?thesis using op word_ends [OF op(1)] word_ends [of a] ws by (simp add: line_text_def)
  next
    fix a b assume "ws = [a, b]" "show_inst i = ops2 op a b"
    then show ?thesis using op word_ends [OF op(1)] word_ends [of a] word_ends [of b] ws
      by (simp add: line_text_def ops2_def)
  next
    fix a b c assume "ws = [a, b, c]" "show_inst i = ops3 op a b c"
    then show ?thesis using op word_ends [OF op(1)] word_ends [of a] word_ends [of b] word_ends [of c] ws
      by (simp add: line_text_def ops3_def)
  qed
qed

lemma asm_trim_same: "s \<noteq> [] \<Longrightarrow> \<not> asm_is_space (hd s) \<Longrightarrow> \<not> asm_is_space (last s) \<Longrightarrow> asm_trim s = s"
proof -
  assume s: "s \<noteq> []" "\<not> asm_is_space (hd s)" "\<not> asm_is_space (last s)"
  have "dropWhile asm_is_space s = s" using s by (cases s) auto
  moreover have "dropWhile asm_is_space (rev s) = rev s"
  proof (cases "rev s")
    case (Cons a r)
    then have "a = last s" using hd_rev [of s] by simp
    then show ?thesis using s(3) unfolding Cons by simp
  qed simp
  ultimately show ?thesis by (simp add: asm_trim_def)
qed

lemma asm_trim_blank: "asm_trim (CHR '' '' # s) = asm_trim s"
  by (simp add: asm_trim_def asm_is_space_def)

lemma strip_same: "CHR ''#'' \<notin> set s \<Longrightarrow> CHR ''/'' \<notin> set s \<Longrightarrow> asm_strip_comment s = s"
  by (induction s) auto

lemma word_char_simps [simp]: "\<not> word_char (CHR '':'')" "\<not> word_char (CHR ''#'')" "\<not> word_char (CHR ''/'')"
  "\<not> word_char (CHR 0x0A)" "\<not> word_char NUL"
  using word_char_not by blast+

lemma label_chars: "label_ok l \<Longrightarrow> CHR '':'' \<notin> set l \<and> l \<noteq> [] \<and> \<not> asm_is_space (hd l) \<and> \<not> asm_is_space (last l)"
proof -
  assume "label_ok l"
  then have w: "word_ok l" by (rule label_word)
  then have "\<forall>c \<in> set l. word_char c" by (simp add: word_ok_def list_all_iff)
  then have "CHR '':'' \<notin> set l" using word_char_simps(1) by blast
  then show ?thesis using word_ends [OF w] by simp
qed

lemma label_prefix_label: "label_ok l \<Longrightarrow> label_prefix (l @ CHR '':'' # r) = Some (length l)"
proof -
  assume l: "label_ok l"
  then have "strchr (l @ CHR '':'' # r) (CHR '':'') = Some (length l)"
    using label_chars by (simp add: strchr_Some)
  then show ?thesis using l
    by (cases l) (auto simp: label_prefix_def label_ok_def)
qed

lemma label_prefix_text: "line_text t \<Longrightarrow> label_prefix t = None"
proof -
  assume "line_text t"
  then have "\<forall>c \<in> set t. word_char c \<or> c = CHR '' '' \<or> c = CHR '',''" by (simp add: line_text_def list_all_iff)
  then have "CHR '':'' \<notin> set t" by fastforce
  then have "strchr t (CHR '':'') = None" by (subst strchr_None) simp_all
  then show ?thesis by (simp add: label_prefix_def)
qed

lemma show_labels_text:
  assumes "\<forall>l \<in> set ls. label_ok l" "line_text t"
  shows "asm_trim (show_labels ls @ t) = show_labels ls @ t" "show_labels ls @ t \<noteq> []"
proof -
  have t: "t \<noteq> []" "\<not> asm_is_space (hd t)" "\<not> asm_is_space (last t)" using assms(2) by (simp_all add: line_text_def)
  have "\<not> asm_is_space (hd (show_labels ls @ t))"
  proof (cases ls)
    case (Cons l ls')
    then show ?thesis using assms(1) label_chars [of l] by (simp add: show_labels_def)
  qed (simp add: show_labels_def t)
  then show "asm_trim (show_labels ls @ t) = show_labels ls @ t"
    by (rule asm_trim_same [rotated]) (use t in simp_all)
  show "show_labels ls @ t \<noteq> []" using t by simp
qed

lemma asm_line_labels_show:
  assumes "\<forall>l \<in> set ls. label_ok l" "distinct ls" "fst ` set (asm_labels prog) \<inter> set ls = {}"
    and "length (asm_labels prog) + length ls \<le> 64" "line_text t"
  shows "asm_line_labels (show_labels ls @ t) prog =
    Inr (t, prog\<lparr>asm_labels := asm_labels prog @ map (\<lambda>l. (l, length (insts prog))) ls\<rparr>)"
  using assms(1-4)
proof (induction ls arbitrary: prog)
  case Nil
  then show ?case using label_prefix_text [OF assms(5)]
    by (subst asm_line_labels.simps) (simp add: show_labels_def)
next
  case (Cons l ls)
  have l: "label_ok l" "asm_trim l = l" "l \<noteq> []" "copy_name20 l = l"
    using Cons.prems(1) label_chars [of l] asm_trim_same [of l] by (auto simp: copy_name20_def label_ok_def)
  have ln: "show_labels (l # ls) @ t = l @ CHR '':'' # CHR '' '' # (show_labels ls @ t)"
    by (simp add: show_labels_def)
  have "find (\<lambda>x. fst x = l) (asm_labels prog) = None"
    using Cons.prems(3) by (force simp: find_None_iff)
  then have add: "asm_add_label prog l (length (insts prog)) =
    (0, prog\<lparr>asm_labels := asm_labels prog @ [(l, length (insts prog))]\<rparr>)"
    using Cons.prems(4) l(4) by (simp add: asm_add_label_def asm_find_label_def)
  have rest: "asm_trim (CHR '' '' # (show_labels ls @ t)) = show_labels ls @ t" "show_labels ls @ t \<noteq> []"
    using show_labels_text [of ls t] Cons.prems(1) assms(5) by (simp_all add: asm_trim_blank)
  have "asm_line_labels (show_labels ls @ t) (prog\<lparr>asm_labels := asm_labels prog @ [(l, length (insts prog))]\<rparr>) =
    Inr (t, prog\<lparr>asm_labels := asm_labels prog @ (l, length (insts prog)) # map (\<lambda>l. (l, length (insts prog))) ls\<rparr>)"
    using Cons.prems by (subst Cons.IH) auto
  then show ?case
    unfolding ln by (subst asm_line_labels.simps) (use assms(5) in \<open>simp add: label_prefix_label [OF l(1)] l add rest Let_def line_text_def\<close>)
qed

definition label_list :: "aprog \<Rightarrow> (string \<times> nat) list" where
  "label_list p = concat (map (\<lambda>i. map (\<lambda>l. (l, i)) (fst (p ! i))) [0 ..< length p])"

definition prog_of :: "aprog \<Rightarrow> asm_program" where
  "prog_of p = \<lparr>insts = map (show_inst \<circ> snd) p, line_nos = map Suc [0 ..< length p], asm_labels = label_list p\<rparr>"

lemma label_list_snoc: "label_list (p @ [x]) = label_list p @ map (\<lambda>l. (l, length p)) (fst x)"
proof -
  have "map (\<lambda>i. map (\<lambda>l. (l, i)) (fst ((p @ [x]) ! i))) [0 ..< length p] =
    map (\<lambda>i. map (\<lambda>l. (l, i)) (fst (p ! i))) [0 ..< length p]"
    by (simp add: nth_append)
  then show ?thesis by (simp only: label_list_def length_append) (simp del: map_eq_conv)
qed

lemma label_list_names: "map fst (label_list p) = concat (map fst p)"
proof (induction p rule: rev_induct)
  case (snoc x p)
  then show ?case by (simp add: label_list_snoc comp_def)
qed (simp add: label_list_def)

lemma asm_source_line_show:
  assumes "\<forall>l \<in> set ls. label_ok l" "distinct ls" "fst ` set (asm_labels prog) \<inter> set ls = {}"
    and "length (asm_labels prog) + length ls \<le> 64" "line_text t" "length (insts prog) < 256"
  shows "asm_source_line (show_labels ls @ t) n prog =
    Inr (prog\<lparr>insts := insts prog @ [t], line_nos := line_nos prog @ [n],
      asm_labels := asm_labels prog @ map (\<lambda>l. (l, length (insts prog))) ls\<rparr>)"
proof -
  have "\<forall>c \<in> set l. word_char c" if "label_ok l" for l
    using label_word [OF that] by (simp add: word_ok_def list_all_iff)
  then have "\<forall>l \<in> set ls. \<forall>c \<in> set l. word_char c" using assms(1) by blast
  then have labs: "\<forall>c \<in> set (show_labels ls). word_char c \<or> c = CHR '' '' \<or> c = CHR '','' \<or> c = CHR '':''"
    by (induction ls) (auto simp: show_labels_def)
  have "\<forall>c \<in> set t. word_char c \<or> c = CHR '' '' \<or> c = CHR '',''"
    using assms(5) by (simp add: line_text_def list_all_iff)
  then have "\<forall>c \<in> set (show_labels ls @ t). word_char c \<or> c = CHR '' '' \<or> c = CHR '','' \<or> c = CHR '':''"
    using labs by auto
  then have "CHR ''#'' \<notin> set (show_labels ls @ t)" "CHR ''/'' \<notin> set (show_labels ls @ t)"
    by fastforce+
  then have strip: "asm_strip_comment (show_labels ls @ t) = show_labels ls @ t" by (rule strip_same)
  have "t \<noteq> []" "char_at t 0 \<noteq> CHR ''.''" using assms(5) by (auto simp: line_text_def char_at_def hd_conv_nth)
  then show ?thesis
    using assms(6) by (simp add: asm_source_line_def strip show_labels_text [OF assms(1,5)] asm_line_labels_show [OF assms(1-5)])
qed

lemma split_lines_Cons: "CHR 0x0A \<notin> set l \<Longrightarrow> split_lines (l @ CHR 0x0A # r) = l # split_lines r"
proof -
  assume "CHR 0x0A \<notin> set l"
  then have "takeWhile (\<lambda>c. c \<noteq> CHR 0x0A) (l @ CHR 0x0A # r) = l"
    "dropWhile (\<lambda>c. c \<noteq> CHR 0x0A) (l @ CHR 0x0A # r) = CHR 0x0A # r"
    by (induction l) auto
  then show ?thesis by (subst split_lines.simps) simp
qed

lemma show_line_no_newline: "\<forall>l \<in> set (fst x). label_ok l \<Longrightarrow> inst_ok (snd x) \<Longrightarrow> CHR 0x0A \<notin> set (show_line x)"
proof -
  assume a: "\<forall>l \<in> set (fst x). label_ok l" "inst_ok (snd x)"
  have "CHR 0x0A \<notin> set l" if "label_ok l" for l
    using label_word [OF that] word_char_simps(4) by (fastforce simp: word_ok_def list_all_iff)
  then have "CHR 0x0A \<notin> set (show_labels (fst x))" using a(1) by (auto simp: show_labels_def)
  moreover have "CHR 0x0A \<notin> set (show_inst (snd x))"
    using show_inst_line [OF a(2)] word_char_simps(4) by (fastforce simp: line_text_def list_all_iff)
  ultimately show ?thesis by (simp add: show_line_def)
qed

lemma split_show_prog:
  "(\<forall>x \<in> set p. inst_ok (snd x) \<and> (\<forall>l \<in> set (fst x). label_ok l)) \<Longrightarrow> split_lines (show_prog p) = map show_line p"
proof (induction p)
  case Nil
  then show ?case by (simp add: show_prog_def split_lines.simps)
next
  case (Cons x p)
  have "show_prog (x # p) = show_line x @ CHR 0x0A # show_prog p" by (simp add: show_prog_def)
  moreover have "CHR 0x0A \<notin> set (show_line x)" using Cons.prems show_line_no_newline by simp
  ultimately show ?case using Cons by (simp add: split_lines_Cons)
qed

lemma asm_build_lines_show:
  assumes "aprog_ok (p @ q)"
  shows "asm_build_lines (map show_line q) (length p + 1) (prog_of p) = Inr (prog_of (p @ q))"
  using assms
proof (induction q arbitrary: p)
  case (Cons x q)
  have ok: "aprog_ok ((p @ [x]) @ q)" using Cons.prems by simp
  have labs: "\<forall>l \<in> set (fst x). label_ok l" "line_text (show_inst (snd x))"
    using Cons.prems show_inst_line by (simp_all add: aprog_ok_def)
  have names: "fst ` set (label_list p) = set (concat (map fst p))"
    using label_list_names [of p] by (metis set_map)
  have count: "length (label_list p) = length (concat (map fst p))"
    using label_list_names [of p] by (metis length_map)
  have "asm_source_line (show_line x) (length p + 1) (prog_of p) = Inr (prog_of (p @ [x]))"
    unfolding show_line_def
  proof (subst asm_source_line_show [OF labs(1) _ _ _ labs(2)])
    show "distinct (fst x)" using Cons.prems by (simp add: aprog_ok_def)
    show "fst ` set (asm_labels (prog_of p)) \<inter> set (fst x) = {}"
      using Cons.prems names by (auto simp: prog_of_def aprog_ok_def)
    show "length (asm_labels (prog_of p)) + length (fst x) \<le> 64"
      using Cons.prems count by (simp add: prog_of_def aprog_ok_def)
    show "length (insts (prog_of p)) < 256"
      using Cons.prems by (simp add: prog_of_def aprog_ok_def)
  qed (simp add: prog_of_def label_list_snoc)
  then show ?case using Cons.IH [OF ok] by simp
qed simp

lemma asm_build_show: "aprog_ok p \<Longrightarrow> asm_build_program (show_prog p) = Inr (prog_of p)"
proof -
  assume p: "aprog_ok p"
  have "empty_program = prog_of []" by (simp add: empty_program_def prog_of_def label_list_def)
  moreover have "split_lines (show_prog p) = map show_line p"
    using p by (intro split_show_prog) (simp add: aprog_ok_def)
  ultimately show ?thesis using asm_build_lines_show [of "[]" p] p by (simp add: asm_build_program_def)
qed

section \<open>The interpreter runs the abstract machine\<close>

lemma find_label_target: "asm_find_label (prog_of p) l = target p l"
proof -
  have "map_option snd (find (\<lambda>x. fst x = l) (concat (map (\<lambda>i. map (\<lambda>l. (l, i)) (f i)) is))) = find (\<lambda>i. l \<in> set (f i)) is"
    for f :: "nat \<Rightarrow> string list" and "is"
  proof (induction "is")
    case (Cons i "is")
    have "find (\<lambda>x. fst x = l) (map (\<lambda>l. (l, i)) ls @ rest) = (if l \<in> set ls then Some (l, i) else find (\<lambda>x. fst x = l) rest)"
      for ls rest by (induction ls) auto
    then show ?case using Cons by simp
  qed simp
  then show ?thesis by (simp add: asm_find_label_def prog_of_def label_list_def target_def)
qed

lemma append_text_take: "asm_append_text (take 2047 out) s = take 2047 (out @ s)"
proof -
  have "2047 - min (length out) 2047 = 2047 - length out" by (simp add: min_def)
  then show ?thesis by (simp add: asm_append_text_def)
qed

lemma append_int_take: "asm_append_int32 (take 2047 out) v = take 2047 (out @ show_int v)"
proof (cases "sint v < 0")
  case True
  have "asm_append_int32 (take 2047 out) v = asm_append_text (asm_append_text (take 2047 out) ''-'') (lib_itoa (- v))"
  proof -
    have "lib_itoa (- 0x80000000) = lib_itoa 0x80000000" by (rule arg_cong [where f = lib_itoa]) simp
    then show ?thesis using True by (simp add: asm_append_int32_def Let_def)
  qed
  then show ?thesis using True by (simp add: append_text_take show_int_def del: take_append)
next
  case False
  then show ?thesis by (simp add: asm_append_int32_def append_text_take show_int_def)
qed

lemma unat_nibble: "unat (drop_bit k (v :: u32) AND 15) = unat v div 2 ^ k mod 16"
proof -
  have "(15 :: u32) = mask 4" by (simp add: mask_eq_exp_minus_1)
  then have "drop_bit k v AND 15 = take_bit 4 (drop_bit k v)" by (simp only: take_bit_eq_mask)
  then show ?thesis
    by (simp only: unsigned_take_bit_eq unat_drop_bit_eq) (simp add: take_bit_eq_mod drop_bit_eq_div)
qed

lemma hex32_loop_eq: "hex32_loop k (drop_bit j v) buf =
    map (\<lambda>i. hex_char (unat v div 2 ^ (j + 4 * i) mod 16)) (rev [0 ..< k]) @ buf"
proof (induction k arbitrary: j buf)
  case (Suc k)
  have "hex32_loop (Suc k) (drop_bit j v) buf =
      hex32_loop k (drop_bit (j + 4) v) (hex_char (unat v div 2 ^ j mod 16) # buf)"
    by (simp only: hex32_loop.simps drop_bit_drop_bit unat_nibble add.commute)
  also have "\<dots> = map (\<lambda>i. hex_char (unat v div 2 ^ (j + 4 + 4 * i) mod 16)) (rev [0 ..< k]) @
      hex_char (unat v div 2 ^ j mod 16) # buf"
    by (rule Suc.IH)
  also have "\<dots> = map (\<lambda>i. hex_char (unat v div 2 ^ (j + 4 * i) mod 16)) (rev [0 ..< Suc k]) @ buf"
    by (simp only: upt_conv_Cons [of 0 "Suc k"] map_Suc_upt [symmetric] zero_less_Suc)
      (simp add: rev_map [symmetric] ac_simps del: upt_Suc)
  finally show ?case .
qed simp

lemma hex_show: "append_hex32_local v = show_hex v"
proof -
  have "append_hex32_local v = map (\<lambda>i. hex_char (unat v div 2 ^ (0 + 4 * i) mod 16)) (rev [0 ..< 8]) @ []"
    unfolding append_hex32_local_def by (subst hex32_loop_eq [symmetric]) simp
  also have "rev [0 ..< 8] = [7, 6, 5, 4, 3, 2, 1, 0 :: nat]" by (simp add: upt_rec)
  finally show ?thesis by (simp only: show_hex_def power_mult add_0 append_Nil2) simp
qed

definition vm_rel :: "astate \<Rightarrow> vm \<Rightarrow> bool" where
  "vm_rel st s \<longleftrightarrow> (case st of (r, n, out) \<Rightarrow>
     vm_regs s = map r [0 ..< 32] \<and> r 0 = 0 \<and> vm_pc s = n \<and> vm_out s = take 2047 out)"

lemma update_regs: "d < 32 \<Longrightarrow> (map r [0 ..< 32])[d := v] = map (r(d := v)) [0 ..< 32]"
  by (rule nth_equalityI) (auto simp: nth_list_update)

lemma rel_fall:
  "vm_rel (r, n, out) s \<Longrightarrow> \<exists>s'. fall s = Next s' \<and> vm_rel (r, n + 1, out) s'"
  by (auto simp: vm_rel_def fall_def update_regs simp del: upt_rec_numeral)

lemma rel_set_reg:
  "vm_rel (r, n, out) s \<Longrightarrow> d < 32 \<Longrightarrow> \<exists>s'. set_reg s d v = Next s' \<and> vm_rel (write_reg r d v, n + 1, out) s'"
  by (auto simp: vm_rel_def set_reg_def fall_def write_reg_def update_regs fun_upd_twist simp del: upt_rec_numeral)

lemma rel_reg: "vm_rel (r, n, out) s \<Longrightarrow> a < 32 \<Longrightarrow> reg s a = r a"
  by (simp add: vm_rel_def)

lemma rel_ecall:
  assumes "vm_rel (r, n, out) s" "snd (p ! n) = AEcall"
  shows "case a_step p (r, n, out) of
      AGo st \<Rightarrow> \<exists>s'. exec_ecall s = Next s' \<and> vm_rel st s'
    | AExit e \<Rightarrow> exec_ecall s = Halt s \<and> e = out
    | AFault e \<Rightarrow> exec_ecall s = Fail e"
proof -
  have regs: "reg s 17 = r 17" "reg s 10 = r 10" using rel_reg [OF assms(1)] by simp_all
  have go: "\<exists>s'. fall (s\<lparr>vm_out := take 2047 o'\<rparr>) = Next s' \<and> vm_rel (r, n + 1, o') s'" for o'
    by (rule rel_fall) (use assms(1) in \<open>simp add: vm_rel_def\<close>)
  have out: "vm_out s = take 2047 out" using assms(1) by (simp add: vm_rel_def)
  have "asm_append_text (asm_append_int32 (vm_out s) (r 10)) [CHR 0x0A] = take 2047 (out @ show_int (r 10) @ [CHR 0x0A])"
    unfolding out append_int_take append_text_take by simp
  moreover have "asm_append_text (asm_append_text (vm_out s) (append_hex32_local (r 10))) [CHR 0x0A] =
      take 2047 (out @ show_hex (r 10) @ [CHR 0x0A])"
    unfolding out append_text_take hex_show by simp
  ultimately show ?thesis
    unfolding exec_ecall_def Let_def regs a_step.simps assms(2) ainst.case
    using go [of "out @ show_int (r 10) @ [CHR 0x0A]"] go [of "out @ show_hex (r 10) @ [CHR 0x0A]"]
    by (simp del: take_append)
qed

text \<open>What \<open>asm_step\<close> does with a printed instruction.\<close>

lemma asm_step_inst:
  assumes "n < length p" "vm_pc s = n" "inst_ok (snd (p ! n))"
  shows "asm_step (prog_of p) s =
    (case asm_next_token (show_inst (snd (p ! n))) 24 of
        (None, _) \<Rightarrow> Next (s\<lparr>vm_pc := vm_pc s + 1\<rparr>)
      | (Some op, cur) \<Rightarrow>
        if op = ''li'' then exec_li s cur
        else if op = ''mv'' then exec_mv s cur
        else if op = ''addi'' then exec_addi s cur
        else if op = ''add'' \<or> op = ''sub'' then exec_addsub (op = ''add'') s cur
        else if op = ''lui'' then exec_lui s cur
        else if op = ''j'' then exec_j (prog_of p) s cur
        else if op = ''beq'' \<or> op = ''bne'' then exec_branch (prog_of p) (op = ''beq'') s cur
        else if op = ''ecall'' then exec_ecall s
        else if op = ''nop'' then fall s
        else Fail (lib_strcat (lib_strcpy ''asm: bad opcode on line '') (lib_itoa (of_nat (line_nos (prog_of p) ! vm_pc s)))))"
proof -
  have "take 191 (show_inst (snd (p ! n))) = show_inst (snd (p ! n))"
    using show_inst_line [OF assms(3)] by (simp add: line_text_def)
  moreover have "insts (prog_of p) ! vm_pc s = show_inst (snd (p ! n))" using assms by (simp add: prog_of_def)
  ultimately show ?thesis unfolding asm_step_def by simp
qed

lemma show_reg_facts [simp]:
  "r < 32 \<Longrightarrow> asm_parse_reg (show_reg r) = Some r" "r < 32 \<Longrightarrow> word_ok (show_reg r)"
  using parse_show_reg by blast+

lemmas inst_tokens = first_token [simplified] operand_tokens [simplified] op_words show_int_word label_word parse_show_int find_label_target

lemma rel_step:
  assumes rel: "vm_rel (r, n, out) s" and n: "n < length p" and ok: "inst_ok (snd (p ! n))"
  shows "case a_step p (r, n, out) of
      AGo st \<Rightarrow> \<exists>s'. asm_step (prog_of p) s = Next s' \<and> vm_rel st s'
    | AExit e \<Rightarrow> asm_step (prog_of p) s = Halt s \<and> e = out
    | AFault e \<Rightarrow> asm_step (prog_of p) s = Fail e"
proof -
  have pc: "vm_pc s = n" using rel by (simp add: vm_rel_def)
  note step = asm_step_inst [OF n pc ok] and set = rel_set_reg [OF rel] and fallen = rel_fall [OF rel] and get = rel_reg [OF rel]
  have jump: "vm_rel (r, t, out) (s\<lparr>vm_pc := t\<rparr>)" for t using rel by (simp add: vm_rel_def)
  have j: "word_ok l \<Longrightarrow> asm_next_token (''j '' @ l) 24 = (Some ''j'', l) \<and> tokens1 l = Some (l, [])" for l
    using next_op [OF op_words(7), of l "[]"] next_word_end [of l] by (simp add: tokens1_def)
  note S = step a_step.simps
  show ?thesis
  proof (cases "snd (p ! n)")
    case (ALi d v)
    then show ?thesis using ok set [of d] by (simp add: S inst_tokens exec_li_def)
  next
    case (AMv d a)
    then show ?thesis using ok set [of d] get [of a] by (simp add: S inst_tokens exec_mv_def)
  next
    case (AAddi d a v)
    then show ?thesis using ok set [of d] get [of a] by (simp add: S inst_tokens exec_addi_def)
  next
    case (AAdd d a b)
    then show ?thesis using ok set [of d] get [of a] get [of b] by (simp add: S inst_tokens exec_addsub_def)
  next
    case (ASub d a b)
    then show ?thesis using ok set [of d] get [of a] get [of b] by (simp add: S inst_tokens exec_addsub_def)
  next
    case (ALui d v)
    then show ?thesis using ok set [of d] by (simp add: S inst_tokens exec_lui_def push_bit_eq_mult mult.commute)
  next
    case (AJ l)
    then show ?thesis using ok jump j [of l] by (simp add: S inst_tokens exec_j_def split: option.split)
  next
    case (ABeq a b l)
    then show ?thesis using ok jump fallen get [of a] get [of b]
      by (simp add: S inst_tokens exec_branch_def split: option.split)
  next
    case (ABne a b l)
    then show ?thesis using ok jump fallen get [of a] get [of b]
      by (simp add: S inst_tokens exec_branch_def split: option.split)
  next
    case AEcall
    then have "asm_step (prog_of p) s = exec_ecall s" by (simp add: step inst_tokens next_word_end)
    then show ?thesis using rel_ecall [OF rel AEcall] by (simp only:)
  next
    case ANop
    then show ?thesis using fallen by (simp add: S inst_tokens next_word_end)
  qed
qed

lemma shown_take: "(if take 2047 out = [] then ''>> asm done'' else take 2047 out) = shown out"
  by (simp add: shown_def)

lemma asm_exec_loop_run:
  "vm_rel st s \<Longrightarrow> \<forall>x \<in> set p. inst_ok (snd x) \<Longrightarrow> asm_exec_loop (prog_of p) k s = a_run p k st"
proof (induction k arbitrary: st s)
  case 0
  obtain r n out where st: "st = (r, n, out)" by (cases st)
  have "vm_pc s = n" "vm_out s = take 2047 out" using 0(1) by (simp_all add: st vm_rel_def)
  then show ?case
    by (subst asm_exec_loop.simps) (simp add: st prog_of_def shown_def)
next
  case (Suc k)
  obtain r n out where st: "st = (r, n, out)" by (cases st)
  have s: "vm_pc s = n" "vm_out s = take 2047 out" using Suc.prems(1) by (simp_all add: st vm_rel_def)
  have len: "length (insts (prog_of p)) = length p" by (simp add: prog_of_def)
  show ?case
  proof (cases "n < length p")
    case True
    then have ok: "inst_ok (snd (p ! n))" using Suc.prems(2) by simp
    note step = rel_step [OF Suc.prems(1) [unfolded st] True ok]
    show ?thesis
    proof (cases "a_step p (r, n, out)")
      case (AGo st')
      then obtain s' where "asm_step (prog_of p) s = Next s'" "vm_rel st' s'" using step by auto
      then show ?thesis using Suc.IH [of st' s'] Suc.prems(2) True s(1) AGo
        by (subst asm_exec_loop.simps) (simp add: st len)
    next
      case (AExit e)
      then show ?thesis using step True s by (subst asm_exec_loop.simps) (simp add: st len shown_def)
    next
      case (AFault e)
      then show ?thesis using step True s by (subst asm_exec_loop.simps) (simp add: st len)
    qed
  next
    case False
    then show ?thesis using s by (subst asm_exec_loop.simps) (simp add: st len shown_def)
  qed
qed

lemma asm_exec_show: "aprog_ok p \<Longrightarrow> asm_exec_program (prog_of p) = a_run p 200000 (\<lambda>_. 0, 0, [])"
proof -
  assume p: "aprog_ok p"
  have "vm_rel (\<lambda>_. 0, 0, []) vm_start"
    unfolding vm_rel_def vm_start_def by (simp add: map_replicate_const del: upt_rec_numeral)
  then show ?thesis using p unfolding asm_exec_program_def
    by (intro asm_exec_loop_run) (simp_all add: aprog_ok_def)
qed

text \<open>
  C25: Assembling and running is faithful: for every abstract program of at most 256
  instructions over registers below 32, with at most 64 distinct labels of at most 19
  characters, \<open>asm_build_program\<close> accepts the printed source text, and \<open>asm_exec_program\<close>
  returns exactly what the abstract machine computes in 200000 steps: the printed output cut to
  the window, the text of the first fault, or the step limit.
\<close>

theorem asm_runs_abstract_program:
  assumes "aprog_ok p"
  shows "\<exists>prog. asm_build_program (show_prog p) = Inr prog \<and>
    asm_exec_program prog = a_run p 200000 (\<lambda>_. 0, 0, [])"
  using asm_build_show [OF assms] asm_exec_show [OF assms] by blast

definition demo_prog :: aprog where
  "demo_prog = [([], ALi 10 (- 7)), ([], AJ ''end''), ([], ALi 10 1), ([''end''], ALi 17 1), ([], AEcall)]"

lemma a_run_numeral:
  "a_run p (numeral k) (r, n, out) =
     (if n < length p then
        case a_step p (r, n, out) of
          AGo st \<Rightarrow> a_run p (pred_numeral k) st
        | AExit out \<Rightarrow> (0, shown out)
        | AFault e \<Rightarrow> (-1, e)
      else (0, shown out))"
  by (simp add: numeral_eq_Suc)

lemma demo_ok: "aprog_ok demo_prog"
  by (simp add: aprog_ok_def demo_prog_def label_ok_def asm_is_ident_start_def asm_is_ident_char_def)

lemma demo_run: "a_run demo_prog 200000 (\<lambda>_. 0, 0, []) = (0, ''-7'' @ [CHR 0x0A])"
proof -
  have "target demo_prog ''end'' = Some 3" by code_simp
  moreover have "show_int (- 7) = ''-7''" by code_simp
  moreover have "length demo_prog = 5" by (simp add: demo_prog_def)
  moreover have "demo_prog ! 0 = ([], ALi 10 (- 7))" "demo_prog ! Suc 0 = ([], AJ ''end'')"
      "demo_prog ! 3 = ([''end''], ALi 17 1)" "demo_prog ! 4 = ([], AEcall)"
    by (simp_all add: demo_prog_def)
  ultimately show ?thesis
    by (simp add: a_run_numeral a_step.simps write_reg_def shown_def)
qed

theorem asm_runs_abstract_program_witness:
  "\<exists>prog. asm_build_program (show_prog demo_prog) = Inr prog \<and> asm_exec_program prog = (0, ''-7'' @ [CHR 0x0A])"
  using asm_runs_abstract_program [OF demo_ok] unfolding demo_run .

section \<open>Running a stored program\<close>

lemma show_prog_bytes:
  assumes p: "aprog_ok p"
  shows "NUL \<notin> set (show_prog p)" "length (show_prog p) \<le> 256 * 192 + 64 * 21"
proof -
  have l: "length l < 20 \<and> NUL \<notin> set l" if "label_ok l" for l
    using label_word [OF that] that word_char_simps(5) by (fastforce simp: label_ok_def word_ok_def list_all_iff)
  have i: "length (show_inst i) \<le> 191 \<and> NUL \<notin> set (show_inst i)" if "inst_ok i" for i
    using show_inst_line [OF that] word_char_simps(5) by (fastforce simp: line_text_def list_all_iff)
  have lab: "NUL \<notin> set (show_labels ls) \<and> length (show_labels ls) \<le> 21 * length ls" if "\<forall>l \<in> set ls. label_ok l" for ls
    using that by (induction ls) (use l in \<open>fastforce simp: show_labels_def\<close>)+
  have "NUL \<notin> set (show_prog q) \<and> length (show_prog q) \<le> length q * 192 + 21 * length (concat (map fst q))"
    if "\<forall>x \<in> set q. inst_ok (snd x) \<and> (\<forall>l \<in> set (fst x). label_ok l)" for q
    using that
  proof (induction q)
    case (Cons x q)
    then show ?case using i [of "snd x"] lab [of "fst x"] by (simp add: show_prog_def show_line_def)
  qed (simp add: show_prog_def)
  from this [of p] p show "NUL \<notin> set (show_prog p)" "length (show_prog p) \<le> 256 * 192 + 64 * 21"
    by (auto simp: aprog_ok_def)
qed

text \<open>
  C30: From the editor to the machine: if the file system stores the source text of a program
  under a plain name, then \<open>run_asm_file\<close> on that name, from any window at the same directory,
  loads it, builds it and leaves in the window what the abstract machine computes.
\<close>

theorem stored_program_runs:
  assumes "dir_files f d own" "win_cwd_bno w = d"
    and "cstr name" "name \<noteq> []" "length name \<le> 19" "\<not> needs_resolve name"
    and p: "aprog_ok p" "p \<noteq> []"
    and "store_file_bytes f w name (map c2b (show_prog p)) = Some (0, f')" and w': "win_cwd_bno w' = d"
  shows "map_option fst (run_asm_file f' w' name out) = Some (a_run p 200000 (\<lambda>_. 0, 0, []))"
proof -
  have len: "length (show_prog p) \<le> 50496" and nul: "NUL \<notin> set (show_prog p)"
    using show_prog_bytes [OF p(1)] by auto
  have ne: "show_prog p \<noteq> []" using p(2) by (cases p) (auto simp: show_prog_def)
  have "map_option fst (load_file_bytes f' w' name 262144) = Some (0, map c2b (show_prog p))"
    using store_load [OF assms(1-6) _ assms(9)] w' len by force
  then obtain w2 f2 where "load_file_bytes f' w' name 262144 = Some ((0, map c2b (show_prog p)), w2, f2)"
    by auto
  moreover have "takeWhile (\<lambda>c. c \<noteq> NUL) (map b2c (map c2b (show_prog p))) = show_prog p"
    using nul by (auto simp: comp_def takeWhile_eq_all_conv)
  ultimately show ?thesis
    using len ne asm_build_show [OF p(1)] asm_exec_show [OF p(1)] by (simp add: run_asm_file_def)
qed

theorem stored_program_runs_witness:
  "\<exists>f'. store_file_bytes formatted (tmp_window 1 []) ''a'' (map c2b (show_prog demo_prog)) = Some (0, f') \<and>
     map_option fst (run_asm_file f' (tmp_window 1 []) ''a'' []) = Some (0, ''-7'' @ [CHR 0x0A])"
proof -
  have "length (show_prog demo_prog) \<le> 4096" by code_simp
  then obtain f' where st: "store_file_bytes formatted (tmp_window 1 []) ''a'' (map c2b (show_prog demo_prog)) = Some (0, f')"
    using store_succeeds [OF formatted_ok(1) formatted_window(1,2) _ formatted_entry, of "map c2b (show_prog demo_prog)"]
      formatted_ok(2) by auto
  have "demo_prog \<noteq> []" by (simp add: demo_prog_def)
  then have "map_option fst (run_asm_file f' (tmp_window 1 []) ''a'' []) = Some (0, ''-7'' @ [CHR 0x0A])"
    using stored_program_runs [OF formatted_ok(1) formatted_window(1) _ _ _ formatted_window(2) demo_ok _ st formatted_window(1), of "[]"]
    by (simp add: demo_run del: map_option_eq_Some)
  with st show ?thesis by blast
qed

end
