(* ===== verification/AppVm.thy ===== *)
theory AppVm
  imports CString
begin

text \<open>
  The memory of a user program (\<open>vibeos/app_runtime.c\<close>): its page tables, its heap, the loader
  of its ELF image and the stack with its arguments.

  The linker symbols \<open>APP_START\<close> and \<open>APP_END\<close> and the addresses of the tables are parameters.
  Physical memory is a byte memory; a table of the code is a function from the index to the
  entry. \<open>reg_t\<close> is 32 bits wide.
\<close>

section \<open>Page tables\<close>

abbreviation (input) PGSIZE :: u32 where "PGSIZE \<equiv> 4096"
abbreviation (input) SATP_MODE_SV32 :: u32 where "SATP_MODE_SV32 \<equiv> 0x80000000"

definition PTE_V :: u32 where "PTE_V = 1"
definition PTE_R :: u32 where "PTE_R = 2"
definition PTE_W :: u32 where "PTE_W = 4"
definition PTE_X :: u32 where "PTE_X = 8"
definition PTE_U :: u32 where "PTE_U = 16"
definition PTE_A :: u32 where "PTE_A = 64"
definition PTE_D :: u32 where "PTE_D = 128"

lemmas pte_defs = PTE_V_def PTE_R_def PTE_W_def PTE_X_def PTE_U_def PTE_A_def PTE_D_def

record app_pt =
  app_root_pt :: "nat \<Rightarrow> u32"
  app_l2_pt :: "nat \<Rightarrow> nat \<Rightarrow> u32"

text \<open>Where the linker puts the program area and the tables.\<close>

record app_layout =
  APP_START :: u32
  APP_END :: u32
  root_addr :: u32
  l2_addr :: u32

definition align_up_reg :: "u32 \<Rightarrow> u32 \<Rightarrow> u32" where
  "align_up_reg v align = (v + align - 1) AND NOT (align - 1)"

definition pte_table :: "u32 \<Rightarrow> u32" where
  "pte_table l2_pa = push_bit 10 (drop_bit 12 l2_pa) OR PTE_V"

definition pte_leaf :: "u32 \<Rightarrow> u32" where
  "pte_leaf pa = push_bit 10 (drop_bit 12 pa) OR PTE_V OR PTE_R OR PTE_W OR PTE_X OR PTE_U OR PTE_A OR PTE_D"

function vm_loop :: "app_layout \<Rightarrow> u32 \<Rightarrow> nat \<Rightarrow> app_pt \<Rightarrow> app_pt" where
  "vm_loop lay app_pa app_page t =
     (if app_pa < APP_END lay then
        let root_idx = unat (drop_bit 22 app_pa AND 0x3ff);
            l2_idx = unat (drop_bit 12 app_pa AND 0x3ff);
            chunk = app_page div 1024;
            l2_pa = l2_addr lay + of_nat (4096 * chunk);
            t = (if app_pa AND 0x3fffff = 0
                 then t\<lparr>app_root_pt := (app_root_pt t)(root_idx := pte_table l2_pa)\<rparr> else t);
            t = t\<lparr>app_l2_pt := (app_l2_pt t)(chunk := (app_l2_pt t chunk)(l2_idx := pte_leaf app_pa))\<rparr>
        in if app_page + 1 \<ge> 4 * 1024 then t else vm_loop lay (app_pa + PGSIZE) (app_page + 1) t
      else t)"
  by pat_completeness auto
termination by (relation "measure (\<lambda>(lay, pa, page, t). 4096 - page)") auto

declare vm_loop.simps [simp del]

definition app_vm_reset :: "app_layout \<Rightarrow> app_pt \<times> u32" where
  "app_vm_reset lay =
     (vm_loop lay (APP_START lay) 0 \<lparr>app_root_pt = (\<lambda>_. 0), app_l2_pt = (\<lambda>_ _. 0)\<rparr>,
      SATP_MODE_SV32 OR drop_bit 12 (root_addr lay))"

section \<open>Heap\<close>

record user_heap =
  loaded_app_heap_lo :: u32
  loaded_app_heap_hi :: u32
  loaded_app_heap_cur :: u32

definition app_heap_alloc :: "user_heap \<Rightarrow> u32 \<Rightarrow> u32 \<times> user_heap" where
  "app_heap_alloc h sz =
     (let need = align_up_reg sz 16;
          cur = align_up_reg (loaded_app_heap_cur h) 16;
          need = (if need = 0 then 16 else need);
          cur = (if cur < loaded_app_heap_lo h then align_up_reg (loaded_app_heap_lo h) 16 else cur)
      in if loaded_app_heap_hi h \<le> cur \<or> need > loaded_app_heap_hi h - cur then (0, h)
         else (cur, h\<lparr>loaded_app_heap_cur := cur + need\<rparr>))"

definition app_heap_reset :: "u32 \<Rightarrow> u32 \<Rightarrow> user_heap" where
  "app_heap_reset lo hi =
     \<lparr>loaded_app_heap_lo = align_up_reg lo 16, loaded_app_heap_hi = hi AND NOT 0xF,
      loaded_app_heap_cur = align_up_reg lo 16\<rparr>"

section \<open>Loading an ELF image\<close>

text \<open>The file is a byte memory with its size; \<open>eh\<close> and \<open>ph\<close> are offsets into it.\<close>

definition e_magic_ok :: "mem8 \<Rightarrow> bool" where
  "e_magic_ok buf \<longleftrightarrow> buf 0 = 0x7f \<and> buf 1 = c2b (CHR ''E'') \<and> buf 2 = c2b (CHR ''L'') \<and> buf 3 = c2b (CHR ''F'') \<and>
     buf 4 = 1 \<and> buf 5 = 1 \<and> buf 6 = 1 \<and> le16 buf 16 = 2 \<and> le16 buf 18 = 243 \<and> le32 buf 20 = 1"

definition e_entry :: "mem8 \<Rightarrow> u32" where "e_entry buf = le32 buf 24"
definition e_phoff :: "mem8 \<Rightarrow> u32" where "e_phoff buf = le32 buf 28"
definition e_phentsize :: "mem8 \<Rightarrow> u16" where "e_phentsize buf = le16 buf 42"
definition e_phnum :: "mem8 \<Rightarrow> u16" where "e_phnum buf = le16 buf 44"

text \<open>The program header \<open>i\<close>, at \<open>buf + e_phoff + i * e_phentsize\<close>.\<close>

definition ph_at :: "mem8 \<Rightarrow> nat \<Rightarrow> nat" where
  "ph_at buf i = unat (e_phoff buf + of_nat i * ucast (e_phentsize buf))"

definition p_type :: "mem8 \<Rightarrow> nat \<Rightarrow> u32" where "p_type buf i = le32 buf (ph_at buf i)"
definition p_offset :: "mem8 \<Rightarrow> nat \<Rightarrow> u32" where "p_offset buf i = le32 buf (ph_at buf i + 4)"
definition p_vaddr :: "mem8 \<Rightarrow> nat \<Rightarrow> u32" where "p_vaddr buf i = le32 buf (ph_at buf i + 8)"
definition p_filesz :: "mem8 \<Rightarrow> nat \<Rightarrow> u32" where "p_filesz buf i = le32 buf (ph_at buf i + 16)"
definition p_memsz :: "mem8 \<Rightarrow> nat \<Rightarrow> u32" where "p_memsz buf i = le32 buf (ph_at buf i + 20)"

text \<open>The result of the loop: an error code with its text, or the memory.\<close>

definition load_segment :: "mem8 \<Rightarrow> nat \<Rightarrow> mem8 \<Rightarrow> mem8" where
  "load_segment buf i mem =
     (let mem = mem_copy mem (unat (p_vaddr buf i)) (bytes_at buf (unat (p_offset buf i)) (unat (p_filesz buf i)))
      in if p_memsz buf i > p_filesz buf i
         then memset mem (unat (p_vaddr buf i + p_filesz buf i)) 0 (unat (p_memsz buf i - p_filesz buf i))
         else mem)"

fun load_segments :: "app_layout \<Rightarrow> mem8 \<Rightarrow> u32 \<Rightarrow> nat list \<Rightarrow> mem8 \<Rightarrow> (int \<times> string) \<times> mem8" where
  "load_segments lay buf sz [] mem = ((0, []), mem)"
| "load_segments lay buf sz (i # is) mem =
     (if p_type buf i \<noteq> 1 then load_segments lay buf sz is mem
      else if unat (p_offset buf i) + unat (p_filesz buf i) > unat sz then ((-14, ''ERR: Bad ELF Seg.''), mem)
      else if p_memsz buf i < p_filesz buf i then ((-14, ''ERR: Bad ELF Seg.''), mem)
      else if p_memsz buf i = 0 then load_segments lay buf sz is mem
      else if p_vaddr buf i < APP_START lay \<or> unat (p_vaddr buf i) + unat (p_memsz buf i) > unat (APP_END lay)
      then ((-7, ''ERR: App Too Large.''), mem)
      else load_segments lay buf sz is (load_segment buf i mem))"

text \<open>The result code and text, the memory, and the new entry point if there is one.\<close>

definition app_load_elf_image ::
    "app_layout \<Rightarrow> mem8 \<Rightarrow> u32 \<Rightarrow> mem8 \<Rightarrow> (int \<times> string) \<times> mem8 \<times> u32 option" where
  "app_load_elf_image lay buf sz mem =
     (if sz < 52 then ((-11, ''ERR: Bad ELF.''), mem, None)
      else if \<not> e_magic_ok buf then ((-11, ''ERR: Bad ELF.''), mem, None)
      else if e_phoff buf = 0 \<or> e_phentsize buf < 32 then ((-12, ''ERR: Bad ELF PH.''), mem, None)
      else if unat (e_phoff buf) + unat (e_phnum buf) * unat (e_phentsize buf) > unat sz
      then ((-12, ''ERR: Bad ELF PH.''), mem, None)
      else if e_entry buf < APP_START lay \<or> e_entry buf \<ge> APP_END lay then ((-13, ''ERR: Bad ELF Entry.''), mem, None)
      else case load_segments lay buf sz [0 ..< unat (e_phnum buf)] mem of
             ((rc, msg), mem) \<Rightarrow> if rc \<noteq> 0 then ((rc, msg), mem, None) else ((0, []), mem, Some (e_entry buf)))"

section \<open>The argument stack\<close>

abbreviation (input) COLS :: nat where "COLS \<equiv> 100"
abbreviation (input) APP_MAX_ARGS :: nat where "APP_MAX_ARGS \<equiv> 8"
abbreviation (input) APP_HEAP_GUARD :: u32 where "APP_HEAP_GUARD \<equiv> 4096"

text \<open>Cutting the copied argument text at blanks; \<open>None\<close> is the return of -2.\<close>

lemma length_drop_word: "p \<noteq> [] \<Longrightarrow> length (drop (Suc 0) (dropWhile P p)) < length p"
proof -
  assume "p \<noteq> []"
  then have "0 < length p" by simp
  then show ?thesis using length_dropWhile_le [of P p] unfolding length_drop by linarith
qed

function split_args :: "string \<Rightarrow> string list \<Rightarrow> string list option" where
  "split_args p argv =
     (let p = dropWhile (\<lambda>c. c = CHR '' '') p in
      if p = [] then Some argv
      else if length argv \<ge> APP_MAX_ARGS then None
      else split_args (drop 1 (dropWhile (\<lambda>c. c \<noteq> CHR '' '') p)) (argv @ [takeWhile (\<lambda>c. c \<noteq> CHR '' '') p]))"
  by pat_completeness auto
termination
  by (relation "measure (\<lambda>(p, argv). length p)")
    (auto intro: less_le_trans [OF length_drop_word length_dropWhile_le] simp del: length_drop)

declare split_args.simps [simp del]

definition app_argv :: "string \<Rightarrow> string option \<Rightarrow> string list option" where
  "app_argv app_name argstr =
     (case argstr of
        None \<Rightarrow> Some [app_name]
      | Some a \<Rightarrow> if a = [] then Some [app_name] else split_args (take (COLS - 1) a) [app_name])"

text \<open>The strings with their NULs, one behind the other, and the addresses where they start.\<close>

fun put_strings :: "string list \<Rightarrow> u32 \<Rightarrow> mem8 \<Rightarrow> u32 list \<times> mem8" where
  "put_strings [] str_slot mem = ([], mem)"
| "put_strings (s # ss) str_slot mem =
     (let mem = mem_copy mem (unat str_slot) (map c2b s @ [0]);
          (ptrs, mem) = put_strings ss (str_slot + (of_nat (strlen s) + 1)) mem
      in (str_slot # ptrs, mem))"

fun put_words :: "u32 list \<Rightarrow> u32 \<Rightarrow> mem8 \<Rightarrow> mem8" where
  "put_words [] a mem = mem"
| "put_words (v # vs) a mem = put_words vs (a + 4) (put32 mem (unat a) v)"

definition app_prepare_argv_stack ::
    "app_layout \<Rightarrow> string \<Rightarrow> string option \<Rightarrow> mem8 \<Rightarrow> u32 \<Rightarrow> int \<times> mem8 \<times> u32" where
  "app_prepare_argv_stack lay app_name argstr mem user_sp =
     (case app_argv app_name argstr of
        None \<Rightarrow> (-2, mem, user_sp)
      | Some argv \<Rightarrow>
        let argc = of_nat (length argv) :: u32;
            str_bytes = sum_list (map (\<lambda>s. of_nat (strlen s) + 1) argv);
            frame_size = align_up_reg (4 + (argc + 1) * 4 + str_bytes) 16
        in if frame_size > user_sp \<or> user_sp - frame_size \<le> APP_START lay + APP_HEAP_GUARD
           then (-3, mem, user_sp)
           else
             let frame_base = user_sp - frame_size;
                 (ptrs, mem) = put_strings argv (frame_base + 4 + (argc + 1) * 4) mem;
                 mem = put32 mem (unat frame_base) argc;
                 mem = put_words (ptrs @ [0]) (frame_base + 4) mem
             in (0, mem, frame_base))"

section \<open>Entering and leaving\<close>

text \<open>The control state of the loaded program; the trampoline is a code address.\<close>

record app_ctl =
  loaded_app_entry :: u32
  loaded_app_resume_pc :: u32
  loaded_app_user_sp :: u32
  loaded_app_satp :: u32
  app_running :: bool

text \<open>What \<open>app_bootstrap\<close> does next: sleep, enter the program in user mode, or leave.\<close>

datatype boot_step = Sleep | EnterUser u32 u32 u32

definition app_bootstrap :: "u32 \<Rightarrow> app_ctl \<Rightarrow> boot_step \<times> app_ctl" where
  "app_bootstrap trampoline c =
     (if loaded_app_entry c = 0 then (Sleep, c)
      else (EnterUser (loaded_app_entry c) (loaded_app_user_sp c) (loaded_app_satp c),
            c\<lparr>loaded_app_entry := 0, app_running := True, loaded_app_resume_pc := trampoline\<rparr>))"

definition app_exit_resume_pc :: "app_ctl \<Rightarrow> u32" where
  "app_exit_resume_pc c = loaded_app_resume_pc c"

definition app_mark_exited :: "app_ctl \<Rightarrow> app_ctl" where
  "app_mark_exited c = c\<lparr>app_running := False, loaded_app_entry := 0\<rparr>"

section \<open>The tables map the program area to itself\<close>

text \<open>
  The address translation of the RISC-V hardware (Sv32, two levels): the physical address and
  the leaf entry, or \<open>None\<close> for a page fault.
\<close>

definition sv32_walk :: "(nat \<Rightarrow> u32) \<Rightarrow> u32 \<Rightarrow> u32 \<Rightarrow> (nat \<times> u32) option" where
  "sv32_walk pt satp va =
     (if \<not> bit satp 31 then Some (unat va, 0)
      else
        let pte = pt (unat (satp AND 0x3fffff) * 4096 + 4 * (unat va div 2 ^ 22)) in
        if \<not> bit pte 0 \<or> (\<not> bit pte 1 \<and> bit pte 2) then None
        else if bit pte 1 \<or> bit pte 3
        then if drop_bit 10 pte AND 0x3ff \<noteq> 0 then None
             else Some (unat (drop_bit 20 pte) * 2 ^ 22 + unat va mod 2 ^ 22, pte)
        else
          let pte = pt (unat (drop_bit 10 pte) * 4096 + 4 * (unat va div 4096 mod 1024)) in
          if \<not> bit pte 0 \<or> (\<not> bit pte 1 \<and> bit pte 2) then None
          else if bit pte 1 \<or> bit pte 3 then Some (unat (drop_bit 10 pte) * 4096 + unat va mod 4096, pte)
          else None)"

text \<open>The words of the tables in physical memory.\<close>

definition pt_word :: "app_layout \<Rightarrow> app_pt \<Rightarrow> nat \<Rightarrow> u32" where
  "pt_word lay t a =
     (let r = unat (root_addr lay); l = unat (l2_addr lay) in
      if r \<le> a \<and> a < r + 4096 then app_root_pt t ((a - r) div 4)
      else if l \<le> a \<and> a < l + 16384 then app_l2_pt t ((a - l) div 4096) ((a - l) mod 4096 div 4)
      else 0)"

definition layout_ok :: "app_layout \<Rightarrow> bool" where
  "layout_ok lay \<longleftrightarrow> unat (APP_START lay) mod 2 ^ 22 = 0 \<and> unat (APP_END lay) mod 4096 = 0 \<and>
     APP_START lay \<le> APP_END lay \<and> unat (APP_END lay) \<le> unat (APP_START lay) + 2 ^ 24 \<and>
     unat (root_addr lay) mod 4096 = 0 \<and> unat (l2_addr lay) mod 4096 = 0 \<and>
     unat (l2_addr lay) + 16384 \<le> 2 ^ 32 \<and>
     (unat (root_addr lay) + 4096 \<le> unat (l2_addr lay) \<or> unat (l2_addr lay) + 16384 \<le> unat (root_addr lay))"

lemma pte_leaf_alt: "pte_leaf pa = push_bit 10 (drop_bit 12 pa) OR 0xDF"
  by (simp add: pte_leaf_def pte_defs or.assoc)

lemma drop_push_page: "drop_bit 10 (push_bit 10 (drop_bit 12 (pa :: u32))) = drop_bit 12 pa"
  by (rule bit_word_eqI) (auto simp: bit_drop_bit_eq bit_push_bit_iff dest: bit_imp_le_length)

lemma pte_leaf_page: "drop_bit 10 (pte_leaf pa) = drop_bit 12 pa"
proof -
  have "drop_bit 10 (0xDF :: u32) = 0" by simp
  then show ?thesis unfolding pte_leaf_alt drop_bit_or drop_push_page by (simp only: or.right_neutral)
qed

lemma pte_table_page: "drop_bit 10 (pte_table pa) = drop_bit 12 pa"
proof -
  have "drop_bit 10 PTE_V = 0" by (simp add: PTE_V_def)
  then show ?thesis unfolding pte_table_def drop_bit_or drop_push_page by (simp only: or.right_neutral)
qed

lemma pte_leaf_flags: "n < 8 \<Longrightarrow> bit (pte_leaf pa) n \<longleftrightarrow> n \<noteq> 5"
proof -
  assume "n < 8"
  moreover have "\<not> bit (push_bit 10 (drop_bit 12 pa)) n" using \<open>n < 8\<close> by (simp add: bit_push_bit_iff)
  moreover have "bit (0xDF :: u32) n \<longleftrightarrow> n \<noteq> 5"
    using \<open>n < 8\<close> by (auto simp: less_Suc_eq numeral_eq_Suc bit_Suc)
  ultimately show ?thesis by (simp add: pte_leaf_alt bit_or_iff)
qed

lemma pte_table_flags: "n < 8 \<Longrightarrow> bit (pte_table pa) n \<longleftrightarrow> n = 0"
  by (auto simp: pte_table_def PTE_V_def bit_or_iff bit_push_bit_iff bit_1_iff)

lemma unat_mask_10: "unat ((w :: u32) AND 0x3ff) = unat w mod 1024"
proof -
  have "(0x3ff :: u32) = mask 10" by (simp add: mask_eq_exp_minus_1)
  then show ?thesis
    by (simp only: take_bit_eq_mask [symmetric] unsigned_take_bit_eq) (simp add: take_bit_eq_mod)
qed

lemma unat_mask_22: "unat ((w :: u32) AND 0x3fffff) = unat w mod 2 ^ 22"
proof -
  have "(0x3fffff :: u32) = mask 22" by (simp add: mask_eq_exp_minus_1)
  then show ?thesis
    by (simp only: take_bit_eq_mask [symmetric] unsigned_take_bit_eq) (simp add: take_bit_eq_mod)
qed

lemma unat_drop: "unat (drop_bit k (w :: u32)) = unat w div 2 ^ k"
  by (rule trans [OF unat_drop_bit_eq drop_bit_eq_div])

definition root_index :: "app_layout \<Rightarrow> nat" where
  "root_index lay = unat (APP_START lay) div 2 ^ 22"

definition page_addr :: "app_layout \<Rightarrow> nat \<Rightarrow> u32" where
  "page_addr lay k = APP_START lay + of_nat (4096 * k)"

text \<open>The tables after \<open>n\<close> pages.\<close>

definition built :: "app_layout \<Rightarrow> nat \<Rightarrow> app_pt" where
  "built lay n = \<lparr>app_root_pt = (\<lambda>i. if root_index lay \<le> i \<and> 1024 * (i - root_index lay) < n
        then pte_table (l2_addr lay + of_nat (4096 * (i - root_index lay))) else 0),
     app_l2_pt = (\<lambda>c j. if j < 1024 \<and> 1024 * c + j < n then pte_leaf (page_addr lay (1024 * c + j)) else 0)\<rparr>"

definition pages :: "app_layout \<Rightarrow> nat" where
  "pages lay = (unat (APP_END lay) - unat (APP_START lay)) div 4096"

lemma pages_facts:
  assumes "layout_ok lay"
  shows "unat (APP_START lay) = 1024 * 4096 * root_index lay"
    "unat (APP_END lay) = unat (APP_START lay) + 4096 * pages lay" "pages lay \<le> 4096"
    "k \<le> pages lay \<Longrightarrow> unat (APP_START lay) + 4096 * k < 2 ^ 32"
proof -
  have a: "unat (APP_START lay) mod 4194304 = 0" "unat (APP_END lay) mod 4096 = 0"
    "unat (APP_START lay) \<le> unat (APP_END lay)" "unat (APP_END lay) \<le> unat (APP_START lay) + 2 ^ 24"
    using assms by (auto simp: layout_ok_def word_le_nat_alt)
  have "4194304 dvd unat (APP_START lay)" using a(1) by (rule mod_0_imp_dvd)
  then have "4194304 * (unat (APP_START lay) div 4194304) = unat (APP_START lay)" by (rule dvd_mult_div_cancel)
  then show s: "unat (APP_START lay) = 1024 * 4096 * root_index lay" by (simp add: root_index_def)
  have "4096 dvd unat (APP_END lay)" using a(2) by (rule mod_0_imp_dvd)
  moreover have "4096 dvd unat (APP_START lay)" unfolding s by simp
  ultimately have "4096 dvd unat (APP_END lay) - unat (APP_START lay)" by (rule dvd_diff_nat)
  then have "unat (APP_END lay) - unat (APP_START lay) = 4096 * pages lay"
    unfolding pages_def by (simp only: dvd_mult_div_cancel)
  then show e: "unat (APP_END lay) = unat (APP_START lay) + 4096 * pages lay"
    using a(3) by linarith
  show "pages lay \<le> 4096" using e a(4) by simp
  have "unat (APP_END lay) < 2 ^ 32" using unsigned_less [of "APP_END lay"] by simp
  then show "k \<le> pages lay \<Longrightarrow> unat (APP_START lay) + 4096 * k < 2 ^ 32" using e by linarith
qed

lemma page_addr_facts:
  assumes "layout_ok lay" "k \<le> pages lay"
  shows "unat (page_addr lay k) = 4096 * (1024 * root_index lay + k)"
    "page_addr lay k < APP_END lay \<longleftrightarrow> k < pages lay"
proof -
  note f = pages_facts [OF assms(1)]
  have k: "unat (of_nat (4096 * k) :: u32) = 4096 * k" using f(4) [OF assms(2)] by (intro unat_of_nat_u32) simp
  have "unat (page_addr lay k) = unat (APP_START lay) + 4096 * k"
    unfolding page_addr_def unat_word_ariths k using f(4) [OF assms(2)] by (intro mod_less) simp
  then show u: "unat (page_addr lay k) = 4096 * (1024 * root_index lay + k)" using f(1) by simp
  show "page_addr lay k < APP_END lay \<longleftrightarrow> k < pages lay"
    unfolding word_less_nat_alt u f(2) f(1) by auto
qed

lemma page_indices:
  assumes "layout_ok lay" "k < pages lay"
  shows "unat (drop_bit 22 (page_addr lay k) AND 0x3ff) = root_index lay + k div 1024"
    "unat (drop_bit 12 (page_addr lay k) AND 0x3ff) = k mod 1024"
    "page_addr lay k AND 0x3fffff = 0 \<longleftrightarrow> k mod 1024 = 0"
proof -
  have k: "k \<le> pages lay" using assms(2) by simp
  note u = page_addr_facts(1) [OF assms(1) k]
  have "unat (page_addr lay k) < 2 ^ 32" using unsigned_less [of "page_addr lay k"] by simp
  then have "4096 * (1024 * root_index lay + k) < 2 ^ 32" unfolding u .
  then have "1024 * root_index lay + k < 1024 * 1024" by simp
  then have r: "root_index lay + k div 1024 < 1024" by linarith
  have "4096 * (1024 * root_index lay + k) div 4194304 = root_index lay + k div 1024"
  proof -
    have "4096 * (1024 * root_index lay + k) div (4096 * 1024) = (1024 * root_index lay + k) div 1024"
      by (rule div_mult_mult1) simp
    then show ?thesis by simp
  qed
  then show "unat (drop_bit 22 (page_addr lay k) AND 0x3ff) = root_index lay + k div 1024"
    using r by (simp only: unat_mask_10 unat_drop u) simp
  show "unat (drop_bit 12 (page_addr lay k) AND 0x3ff) = k mod 1024"
    by (simp only: unat_mask_10 unat_drop u) simp
  have "page_addr lay k AND 0x3fffff = 0 \<longleftrightarrow> unat (page_addr lay k AND 0x3fffff) = 0" by (simp only: unat_eq_0)
  also have "\<dots> \<longleftrightarrow> 4096 * (1024 * root_index lay + k) mod (4096 * 1024) = 0" by (simp only: unat_mask_22 u) simp
  also have "\<dots> \<longleftrightarrow> k mod 1024 = 0" by (simp only: mult_mod_right [symmetric]) simp
  finally show "page_addr lay k AND 0x3fffff = 0 \<longleftrightarrow> k mod 1024 = 0" .
qed

lemma mult_less_Suc:
  assumes "0 < (d :: nat)"
  shows "d * j < k + 1 \<longleftrightarrow> (k mod d = 0 \<and> j = k div d) \<or> d * j < k"
    and "j < d \<and> d * c + j < k + 1 \<longleftrightarrow> (c = k div d \<and> j = k mod d) \<or> j < d \<and> d * c + j < k"
proof -
  have "d * j = k \<longleftrightarrow> k mod d = 0 \<and> j = k div d" using assms by auto
  then show "d * j < k + 1 \<longleftrightarrow> (k mod d = 0 \<and> j = k div d) \<or> d * j < k" by (auto simp: less_Suc_eq)
  have "j < d \<and> d * c + j = k \<longleftrightarrow> c = k div d \<and> j = k mod d" using assms by auto
  then show "j < d \<and> d * c + j < k + 1 \<longleftrightarrow> (c = k div d \<and> j = k mod d) \<or> j < d \<and> d * c + j < k"
    by (auto simp: less_Suc_eq)
qed

lemma upd_root: "(\<lambda>i. if (b \<and> i = x) \<or> B i then f i else 0) = (if b then (\<lambda>i. if B i then f i else 0)(x := f x) else (\<lambda>i. if B i then f i else (0::u32)))"
  by (auto simp: fun_eq_iff)

lemma upd_leaf: "(\<lambda>c j. if (c = x \<and> j = y) \<or> B c j then f c j else 0) =
    (let t = \<lambda>c j. if B c j then f c j else (0::u32) in t(x := (t x)(y := f x y)))"
  by (auto simp: fun_eq_iff Let_def)

lemma built_step:
  assumes "layout_ok lay" "k < pages lay"
  shows "built lay (k + 1) =
    (let t = built lay k;
         t = (if page_addr lay k AND 0x3fffff = 0
              then t\<lparr>app_root_pt := (app_root_pt t)(unat (drop_bit 22 (page_addr lay k) AND 0x3ff) :=
                pte_table (l2_addr lay + of_nat (4096 * (k div 1024))))\<rparr> else t)
     in t\<lparr>app_l2_pt := (app_l2_pt t)(k div 1024 := (app_l2_pt t (k div 1024))
          (unat (drop_bit 12 (page_addr lay k) AND 0x3ff) := pte_leaf (page_addr lay k)))\<rparr>)"
proof -
  have root: "root_index lay \<le> i \<and> 1024 * (i - root_index lay) < k + 1 \<longleftrightarrow>
      (k mod 1024 = 0 \<and> i = root_index lay + k div 1024) \<or> root_index lay \<le> i \<and> 1024 * (i - root_index lay) < k" for i
    using mult_less_Suc(1) [of 1024 "i - root_index lay" k] by (cases "root_index lay \<le> i") auto
  have leaf: "j < 1024 \<and> 1024 * c + j < k + 1 \<longleftrightarrow> (c = k div 1024 \<and> j = k mod 1024) \<or> j < 1024 \<and> 1024 * c + j < k" for c j
    by (rule mult_less_Suc) simp
  have "app_root_pt (built lay (k + 1)) = (if k mod 1024 = 0 then (app_root_pt (built lay k))(root_index lay + k div 1024 :=
      pte_table (l2_addr lay + of_nat (4096 * (k div 1024)))) else app_root_pt (built lay k))"
    unfolding built_def app_pt.select_convs root upd_root by (simp only: add_diff_cancel_left')
  moreover have "app_l2_pt (built lay (k + 1)) = (app_l2_pt (built lay k))(k div 1024 := (app_l2_pt (built lay k) (k div 1024))
      (k mod 1024 := pte_leaf (page_addr lay k)))"
    unfolding built_def app_pt.select_convs leaf upd_leaf Let_def by (simp only: mult_div_mod_eq)
  ultimately show ?thesis
    unfolding page_indices [OF assms] Let_def
    by (intro app_pt.equality) (simp_all split: if_split)
qed

lemma vm_loop_built:
  assumes lay: "layout_ok lay" and k: "k \<le> pages lay" "k < 4096"
  shows "vm_loop lay (page_addr lay k) k (built lay k) = built lay (pages lay)"
  using k
proof (induction "pages lay - k" arbitrary: k)
  case 0
  then show ?case using page_addr_facts(2) [OF lay, of k] by (subst vm_loop.simps) simp
next
  case (Suc n)
  then have k: "k < pages lay" by simp
  have next_page: "page_addr lay k + 4096 = page_addr lay (k + 1)" by (simp add: page_addr_def)
  have step: "vm_loop lay (page_addr lay k) k (built lay k) =
    (if k + 1 \<ge> 4 * 1024 then built lay (k + 1) else vm_loop lay (page_addr lay (k + 1)) (k + 1) (built lay (k + 1)))"
    using page_addr_facts(2) [OF lay, of k] k built_step [OF lay k] next_page
    by (subst vm_loop.simps) (simp only: Let_def if_True less_imp_le)
  show ?case
  proof (cases "k + 1 \<ge> 4096")
    case True
    then have "k + 1 = pages lay" using k pages_facts(3) [OF lay] by simp
    then show ?thesis using step True by simp
  next
    case False
    then have "vm_loop lay (page_addr lay (k + 1)) (k + 1) (built lay (k + 1)) = built lay (pages lay)"
      using Suc(2) k by (intro Suc(1)) simp_all
    then show ?thesis using step False by simp
  qed
qed

lemma app_vm_reset_built:
  assumes "layout_ok lay"
  shows "app_vm_reset lay = (built lay (pages lay), SATP_MODE_SV32 OR drop_bit 12 (root_addr lay))"
proof -
  have "built lay 0 = \<lparr>app_root_pt = (\<lambda>_. 0), app_l2_pt = (\<lambda>_ _. 0)\<rparr>" by (simp add: built_def)
  moreover have "page_addr lay 0 = APP_START lay" by (simp add: page_addr_def)
  ultimately show ?thesis using vm_loop_built [OF assms, of 0] by (simp add: app_vm_reset_def)
qed

lemma satp_root:
  assumes "unat root mod 4096 = 0"
  shows "bit (SATP_MODE_SV32 OR drop_bit 12 root) 31"
    "unat ((SATP_MODE_SV32 OR drop_bit 12 root) AND 0x3fffff) * 4096 = unat (root :: u32)"
proof -
  have c: "bit (0x80000000 :: u32) n \<longleftrightarrow> n = 31" for n
  proof -
    have "(0x80000000 :: u32) = 2 ^ 31" by simp
    then show ?thesis by (simp only: bit_exp_iff) auto
  qed
  then show "bit (SATP_MODE_SV32 OR drop_bit 12 root) 31" by (simp add: bit_or_iff)
  have m: "(0x3fffff :: u32) = mask 22" by (simp add: mask_eq_exp_minus_1)
  have "(SATP_MODE_SV32 OR drop_bit 12 root) AND mask 22 = drop_bit 12 root"
  proof (rule bit_word_eqI)
    fix n :: nat assume "n < LENGTH(32)"
    have "\<not> n < 22 \<Longrightarrow> \<not> bit root (12 + n)" using bit_imp_le_length [of root "12 + n"] by auto
    then show "bit ((SATP_MODE_SV32 OR drop_bit 12 root) AND mask 22) n = bit (drop_bit 12 root) n"
      using \<open>n < LENGTH(32)\<close> unfolding bit_and_iff bit_or_iff c bit_drop_bit_eq bit_mask_iff by auto
  qed
  then have "unat ((SATP_MODE_SV32 OR drop_bit 12 root) AND 0x3fffff) = unat root div 4096"
    unfolding m by (simp only: unat_drop) simp
  then show "unat ((SATP_MODE_SV32 OR drop_bit 12 root) AND 0x3fffff) * 4096 = unat root"
    using assms by (simp add: mod_0_imp_dvd)
qed

lemma pt_word_root:
  assumes "i < 1024"
  shows "pt_word lay t (unat (root_addr lay) + 4 * i) = app_root_pt t i"
  using assms by (simp add: pt_word_def Let_def)

lemma pt_word_leaf:
  assumes "layout_ok lay" "c < 4" "j < 1024"
  shows "pt_word lay t (unat (l2_addr lay) + 4096 * c + 4 * j) = app_l2_pt t c j"
proof -
  let ?r = "unat (root_addr lay)" and ?l = "unat (l2_addr lay)"
  have "?r + 4096 \<le> ?l \<or> ?l + 16384 \<le> ?r" using assms(1) by (simp add: layout_ok_def)
  then have "\<not> (?r \<le> ?l + 4096 * c + 4 * j \<and> ?l + 4096 * c + 4 * j < ?r + 4096)" using assms(2,3) by linarith
  moreover have "?l \<le> ?l + 4096 * c + 4 * j \<and> ?l + 4096 * c + 4 * j < ?l + 16384" using assms(2,3) by linarith
  moreover have "?l + 4096 * c + 4 * j - ?l = 4096 * c + 4 * j" by simp
  moreover have "(4096 * c + 4 * j) div 4096 = c" "(4096 * c + 4 * j) mod 4096 div 4 = j" using assms(3) by auto
  ultimately show ?thesis unfolding pt_word_def Let_def by (simp only: if_False if_True simp_thms)
qed

lemma l2_base:
  assumes "layout_ok lay" "c < 4"
  shows "unat (drop_bit 10 (pte_table (l2_addr lay + of_nat (4096 * c)))) * 4096 = unat (l2_addr lay) + 4096 * c"
proof -
  have l: "unat (l2_addr lay) mod 4096 = 0" "unat (l2_addr lay) + 16384 \<le> 2 ^ 32" using assms(1) by (simp_all add: layout_ok_def)
  have "unat (of_nat (4096 * c) :: u32) = 4096 * c" using assms(2) by (intro unat_of_nat_u32) simp
  then have "unat (l2_addr lay + of_nat (4096 * c)) = unat (l2_addr lay) + 4096 * c"
    using l(2) assms(2) by (simp add: unat_word_ariths)
  then have "unat (drop_bit 12 (l2_addr lay + of_nat (4096 * c))) = (unat (l2_addr lay) + 4096 * c) div 4096"
    by (simp only: unat_drop) simp
  then show ?thesis using l(1) by (simp add: pte_table_page mod_0_imp_dvd)
qed

lemma pte_leaf_cong: "drop_bit 12 a = drop_bit 12 b \<Longrightarrow> pte_leaf a = pte_leaf b"
  by (simp only: pte_leaf_def)

lemma walk_built:
  assumes lay: "layout_ok lay"
  shows "sv32_walk (pt_word lay (built lay (pages lay))) (SATP_MODE_SV32 OR drop_bit 12 (root_addr lay)) va =
    (if APP_START lay \<le> va \<and> va < APP_END lay then Some (unat va, pte_leaf va) else None)"
proof -
  define i j where "i = unat va div 4194304" and "j = unat va div 4096 mod 1024"
  let ?t = "built lay (pages lay)" and ?R = "root_index lay"
  have v: "unat va < 2 ^ 32" using unsigned_less [of va] by simp
  then have i: "i < 1024" by (simp add: i_def)
  have j: "j < 1024" by (simp add: j_def)
  have ii: "i = unat va div 4096 div 1024" by (simp add: i_def div_mult2_eq [symmetric])
  have q: "unat va div 4096 = 1024 * i + j" unfolding ii j_def by simp
  note P = pages_facts [OF lay]
  have range: "APP_START lay \<le> va \<and> va < APP_END lay \<longleftrightarrow> 1024 * ?R \<le> 1024 * i + j \<and> 1024 * i + j < 1024 * ?R + pages lay"
    unfolding word_le_nat_alt word_less_nat_alt P(2) unfolding P(1) q [symmetric] by auto
  have root: "pt_word lay ?t (unat ((SATP_MODE_SV32 OR drop_bit 12 (root_addr lay)) AND 0x3fffff) * 4096 + 4 * (unat va div 2 ^ 22)) =
      (if ?R \<le> i \<and> 1024 * (i - ?R) < pages lay then pte_table (l2_addr lay + of_nat (4096 * (i - ?R))) else 0)"
  proof -
    have "unat (root_addr lay) mod 4096 = 0" using lay by (simp add: layout_ok_def)
    moreover have "unat va div 2 ^ 22 = i" by (simp add: i_def)
    ultimately show ?thesis by (simp only: satp_root(2) pt_word_root [OF i]) (simp add: built_def)
  qed
  show ?thesis
  proof (cases "?R \<le> i \<and> 1024 * (i - ?R) < pages lay")
    case False
    then have "\<not> (APP_START lay \<le> va \<and> va < APP_END lay)" unfolding range using j by linarith
    moreover have "sv32_walk (pt_word lay ?t) (SATP_MODE_SV32 OR drop_bit 12 (root_addr lay)) va = None"
      unfolding sv32_walk_def root if_not_P [OF False] Let_def
      using lay satp_root(1) [of "root_addr lay"] by (simp add: layout_ok_def)
    ultimately show ?thesis by simp
  next
    case True
    define c where "c = i - ?R"
    have c: "c < 4" "i = ?R + c" using True P(3) by (auto simp: c_def)
    have root': "pt_word lay ?t (unat ((SATP_MODE_SV32 OR drop_bit 12 (root_addr lay)) AND 0x3fffff) * 4096 + 4 * (unat va div 2 ^ 22)) =
        pte_table (l2_addr lay + of_nat (4096 * c))"
      unfolding root if_P [OF True] c_def ..
    have leaf: "pt_word lay ?t (unat (drop_bit 10 (pte_table (l2_addr lay + of_nat (4096 * c)))) * 4096 + 4 * j) =
        (if 1024 * c + j < pages lay then pte_leaf (page_addr lay (1024 * c + j)) else 0)"
      unfolding l2_base [OF lay c(1)] pt_word_leaf [OF lay c(1) j] by (simp add: built_def j)
    have range': "APP_START lay \<le> va \<and> va < APP_END lay \<longleftrightarrow> 1024 * c + j < pages lay"
      unfolding range c(2) by auto
    show ?thesis
    proof (cases "1024 * c + j < pages lay")
      case out: False
      then have "sv32_walk (pt_word lay ?t) (SATP_MODE_SV32 OR drop_bit 12 (root_addr lay)) va = None"
        unfolding sv32_walk_def root' Let_def j_def [symmetric] leaf if_not_P [OF out]
        using lay satp_root(1) [of "root_addr lay"] by (simp add: layout_ok_def pte_table_flags)
      then show ?thesis using out range' by simp
    next
      case inside: True
      have u: "unat (page_addr lay (1024 * c + j)) = 4096 * (unat va div 4096)"
        using page_addr_facts(1) [OF lay, of "1024 * c + j"] inside q c(2) by simp
      have "drop_bit 12 (page_addr lay (1024 * c + j)) = drop_bit 12 va"
        by (rule word_unat_eq_iff [THEN iffD2]) (simp only: unat_drop u, simp)
      then have pl: "pte_leaf (page_addr lay (1024 * c + j)) = pte_leaf va" by (rule pte_leaf_cong)
      have pa: "unat (drop_bit 10 (pte_leaf va)) * 4096 + unat va mod 4096 = unat va"
        unfolding pte_leaf_page unat_drop by simp
      have "sv32_walk (pt_word lay ?t) (SATP_MODE_SV32 OR drop_bit 12 (root_addr lay)) va = Some (unat va, pte_leaf va)"
        unfolding sv32_walk_def root' Let_def j_def [symmetric] leaf if_P [OF inside] pl pa
        using lay satp_root(1) [of "root_addr lay"] by (simp add: layout_ok_def pte_table_flags pte_leaf_flags)
      then show ?thesis using inside range' by simp
    qed
  qed
qed

text \<open>
  C35: The page tables of a user program map exactly its area, each address to itself, readable,
  writable and executable in user mode: for a program area that starts at a multiple of 4 MB
  and has at most 16 MB, the hardware walk of the tables that \<open>app_vm_reset\<close> builds, from the
  \<open>satp\<close> it sets, gives the same address with the flags V R W X U A D inside the area and a
  page fault everywhere else.
\<close>

theorem app_vm_identity:
  assumes "layout_ok lay"
  shows "\<exists>t satp. app_vm_reset lay = (t, satp) \<and>
    (\<forall>va. sv32_walk (pt_word lay t) satp va =
       (if APP_START lay \<le> va \<and> va < APP_END lay then Some (unat va, pte_leaf va) else None)) \<and>
    (\<forall>va n. n < 8 \<longrightarrow> bit (pte_leaf va) n = (n \<noteq> 5))"
  using app_vm_reset_built [OF assms] walk_built [OF assms] pte_leaf_flags by blast

text \<open>The layout of the linker script, with the tables at some page.\<close>

definition os_layout :: app_layout where
  "os_layout = \<lparr>APP_START = 0xBF000000, APP_END = 0xC0000000, root_addr = 0x80400000, l2_addr = 0x80401000\<rparr>"

theorem app_vm_identity_witness:
  "\<exists>t satp. app_vm_reset os_layout = (t, satp) \<and>
     sv32_walk (pt_word os_layout t) satp 0xBF801234 = Some (0xBF801234, pte_leaf 0xBF801234) \<and>
     sv32_walk (pt_word os_layout t) satp 0x80000000 = None"
proof -
  have ok: "layout_ok os_layout" by (simp add: layout_ok_def os_layout_def)
  obtain t satp where t: "app_vm_reset os_layout = (t, satp)" "\<And>va. sv32_walk (pt_word os_layout t) satp va =
      (if APP_START os_layout \<le> va \<and> va < APP_END os_layout then Some (unat va, pte_leaf va) else None)"
    using app_vm_identity [OF ok] by blast
  have "sv32_walk (pt_word os_layout t) satp 0xBF801234 = Some (unat (0xBF801234 :: u32), pte_leaf 0xBF801234)"
    unfolding t(2) by (simp add: os_layout_def)
  moreover have "sv32_walk (pt_word os_layout t) satp 0x80000000 = None"
    unfolding t(2) by (simp add: os_layout_def)
  ultimately show ?thesis using t(1) by simp
qed

section \<open>The heap of a user program\<close>

lemma unat_down_16: "unat ((w :: u32) AND NOT 15) = unat w div 16 * 16"
proof -
  have "w AND NOT (mask 4) = push_bit 4 (drop_bit 4 w)"
    by (rule bit_word_eqI)
      (auto simp: bit_and_iff bit_not_iff bit_mask_iff bit_push_bit_iff bit_drop_bit_eq not_less)
  then have "w AND NOT 15 = push_bit 4 (drop_bit 4 w)"
    by (simp add: mask_eq_exp_minus_1)
  moreover have "unat w < 4294967296" using unsigned_less [of w] by simp
  then have "unat w div 16 * 16 < 4294967296" by simp
  ultimately show ?thesis
    by (simp add: push_bit_eq_mult drop_bit_eq_div unat_word_ariths unat_div_distrib)
qed

lemma align_up_16: "unat v \<le> 0xFFFFFFF0 \<Longrightarrow> unat (align_up_reg v 16) = (unat v + 15) div 16 * 16"
  and align_up_16_wrap: "unat v > 0xFFFFFFF0 \<Longrightarrow> align_up_reg v 16 = 0"
proof -
  note u = unat_down_16
  have a: "align_up_reg v 16 = (v + 15) AND NOT 15"
  proof -
    have "v + 16 - 1 = v + 15" "(16 :: u32) - 1 = 15" by simp_all
    then show ?thesis unfolding align_up_reg_def by (simp only:)
  qed
  have v: "unat v < 4294967296" using unsigned_less [of v] by simp
  show "unat v \<le> 0xFFFFFFF0 \<Longrightarrow> unat (align_up_reg v 16) = (unat v + 15) div 16 * 16"
    unfolding a u by (simp add: unat_word_ariths)
  show "unat v > 0xFFFFFFF0 \<Longrightarrow> align_up_reg v 16 = 0"
  proof -
    assume g: "unat v > 0xFFFFFFF0"
    then have "unat (v + 15) = unat v + 15 - 4294967296" using v by (simp add: unat_word_ariths mod_if)
    then have "unat (align_up_reg v 16) = 0" using g v unfolding a u by simp
    then show ?thesis by (simp only: unat_eq_0)
  qed
qed

definition heap_ok :: "user_heap \<Rightarrow> bool" where
  "heap_ok h \<longleftrightarrow> 0 < loaded_app_heap_lo h \<and> loaded_app_heap_lo h \<le> loaded_app_heap_cur h \<and>
     unat (loaded_app_heap_cur h) mod 16 = 0 \<and> unat (loaded_app_heap_hi h) mod 16 = 0 \<and>
     loaded_app_heap_cur h \<le> 0xFFFFFFF0"

text \<open>The bytes a request takes.\<close>

definition round_size :: "u32 \<Rightarrow> nat" where
  "round_size sz = (if sz = 0 then 16 else (unat sz + 15) div 16 * 16)"

lemma round_size_ge: "unat sz \<le> round_size sz" "0 < round_size sz" "round_size sz mod 16 = 0"
proof -
  have "sz \<noteq> 0 \<Longrightarrow> 0 < unat sz" by (simp add: unat_gt_0)
  moreover have "n \<le> (n + 15) div 16 * 16" for n :: nat by presburger
  moreover have "0 < n \<Longrightarrow> 0 < (n + 15) div 16 * 16" for n :: nat by presburger
  ultimately show "unat sz \<le> round_size sz" "0 < round_size sz" "round_size sz mod 16 = 0"
    by (auto simp: round_size_def)
qed

lemma app_heap_alloc_eq:
  assumes h: "heap_ok h" and sz: "unat sz \<le> 0xFFFFFFF0"
  shows "app_heap_alloc h sz =
    (if unat (loaded_app_heap_cur h) + round_size sz \<le> unat (loaded_app_heap_hi h)
     then (loaded_app_heap_cur h, h\<lparr>loaded_app_heap_cur := loaded_app_heap_cur h + of_nat (round_size sz)\<rparr>)
     else (0, h))"
proof -
  let ?c = "loaded_app_heap_cur h" and ?hi = "loaded_app_heap_hi h"
  have c: "unat ?c mod 16 = 0" "unat ?c \<le> 0xFFFFFFF0" "\<not> ?c < loaded_app_heap_lo h"
    using h by (auto simp: heap_ok_def word_le_nat_alt word_less_nat_alt)
  have "unat (align_up_reg ?c 16) = unat ?c" unfolding align_up_16 [OF c(2)] using c(1) by presburger
  then have ac: "align_up_reg ?c 16 = ?c" by (simp only: word_unat_eq_iff)
  have sz': "(unat sz + 15) div 16 * 16 < 4294967296" using sz by simp
  have need: "(if align_up_reg sz 16 = 0 then 16 else align_up_reg sz 16) = of_nat (round_size sz)" (is "?need = _")
    "unat (of_nat (round_size sz) :: u32) = round_size sz"
  proof -
    show u: "unat (of_nat (round_size sz) :: u32) = round_size sz"
      using sz' by (intro unat_of_nat_u32) (auto simp: round_size_def)
    show "?need = of_nat (round_size sz)"
    proof (cases "sz = 0")
      case True
      then show ?thesis using align_up_16 [of 0] by (simp add: round_size_def unat_eq_0)
    next
      case False
      then have "0 < unat sz" by (simp add: unat_gt_0)
      then have "unat (align_up_reg sz 16) = round_size sz" "round_size sz \<noteq> 0"
        using align_up_16 [OF sz] False round_size_ge(2) [of sz] by (simp_all add: round_size_def)
      then show ?thesis by (metis u unat_0 word_unat_eq_iff)
    qed
  qed
  have cond: "(?hi \<le> ?c \<or> of_nat (round_size sz) > ?hi - ?c) \<longleftrightarrow> \<not> unat ?c + round_size sz \<le> unat ?hi"
    using round_size_ge(2) [of sz] unfolding word_less_nat_alt word_le_nat_alt need(2)
    by (auto simp: unat_sub_if_size word_le_nat_alt)
  show ?thesis
    unfolding app_heap_alloc_def Let_def ac need(1) if_not_P [OF c(3)] cond by simp
qed

fun heap_allocs :: "user_heap \<Rightarrow> u32 list \<Rightarrow> u32 list" where
  "heap_allocs h [] = []"
| "heap_allocs h (sz # ss) = (case app_heap_alloc h sz of (r, h) \<Rightarrow> r # heap_allocs h ss)"

text \<open>Blocks in the order they are given out: each in the heap, aligned, and behind the ones before.\<close>

fun blocks_ok :: "nat \<Rightarrow> nat \<Rightarrow> (u32 \<times> u32) list \<Rightarrow> bool" where
  "blocks_ok lo hi [] = True"
| "blocks_ok lo hi ((r, sz) # bs) =
     (if r = 0 then blocks_ok lo hi bs
      else lo \<le> unat r \<and> unat r mod 16 = 0 \<and> unat r + unat sz \<le> hi \<and> blocks_ok (unat r + max 1 (unat sz)) hi bs)"

lemma blocks_ok_mono: "blocks_ok lo hi bs \<Longrightarrow> lo' \<le> lo \<Longrightarrow> blocks_ok lo' hi bs"
  by (induction bs arbitrary: lo lo' rule: list.induct) (auto split: prod.splits if_splits)

lemma heap_allocs_ok:
  "heap_ok h \<Longrightarrow> \<forall>sz \<in> set ss. unat sz \<le> 0xFFFFFFF0 \<Longrightarrow>
   blocks_ok (unat (loaded_app_heap_cur h)) (unat (loaded_app_heap_hi h)) (zip (heap_allocs h ss) ss)"
proof (induction ss arbitrary: h)
  case (Cons sz ss)
  let ?c = "loaded_app_heap_cur h" and ?hi = "loaded_app_heap_hi h"
  have sz: "unat sz \<le> 0xFFFFFFF0" using Cons.prems by simp
  show ?case
  proof (cases "unat ?c + round_size sz \<le> unat ?hi")
    case True
    let ?h = "h\<lparr>loaded_app_heap_cur := ?c + of_nat (round_size sz)\<rparr>"
    have hi: "unat ?hi < 4294967296" "unat ?hi mod 16 = 0" using unsigned_less [of ?hi] Cons.prems(1) by (simp_all add: heap_ok_def)
    then have hi': "unat ?hi \<le> 0xFFFFFFF0" by presburger
    have r: "unat (of_nat (round_size sz) :: u32) = round_size sz" using True hi(1) by (intro unat_of_nat_u32) simp
    have u: "unat (?c + of_nat (round_size sz)) = unat ?c + round_size sz"
      using True hi(1) by (simp add: unat_word_ariths r)
    have "heap_ok ?h"
      using Cons.prems(1) True hi' round_size_ge(3) [of sz] by (auto simp: heap_ok_def word_le_nat_alt u mod_add_eq [symmetric])
    then have "blocks_ok (unat ?c + round_size sz) (unat ?hi) (zip (heap_allocs ?h ss) ss)"
      using Cons.IH [of ?h] Cons.prems(2) by (simp add: u)
    then have "blocks_ok (unat ?c + max 1 (unat sz)) (unat ?hi) (zip (heap_allocs ?h ss) ss)"
      by (rule blocks_ok_mono) (use round_size_ge [of sz] in auto)
    moreover have "?c \<noteq> 0" "unat ?c mod 16 = 0" using Cons.prems(1) by (auto simp: heap_ok_def)
    ultimately show ?thesis using True round_size_ge(1) [of sz] by (simp add: app_heap_alloc_eq [OF Cons.prems(1) sz])
  next
    case False
    then show ?thesis using Cons by (simp add: app_heap_alloc_eq [OF Cons.prems(1) sz])
  qed
qed simp

lemma app_heap_reset_ok:
  assumes "0 < lo" "unat lo \<le> 0xFFFFFFF0"
  shows "heap_ok (app_heap_reset lo hi)"
    "unat (loaded_app_heap_hi (app_heap_reset lo hi)) \<le> unat hi"
    "unat lo \<le> unat (loaded_app_heap_cur (app_heap_reset lo hi))"
proof -
  have l: "unat (align_up_reg lo 16) = (unat lo + 15) div 16 * 16" by (rule align_up_16 [OF assms(2)])
  have "0 < unat lo" using assms(1) by (simp add: word_less_nat_alt)
  then have p: "0 < unat (align_up_reg lo 16)" "unat lo \<le> unat (align_up_reg lo 16)" "unat (align_up_reg lo 16) mod 16 = 0"
    "unat (align_up_reg lo 16) \<le> 0xFFFFFFF0"
    unfolding l using assms(2) by (auto intro: Suc_leI)
  note h = unat_down_16 [of hi]
  show "heap_ok (app_heap_reset lo hi)"
    using p h by (simp add: app_heap_reset_def heap_ok_def word_le_nat_alt word_less_nat_alt)
  show "unat (loaded_app_heap_hi (app_heap_reset lo hi)) \<le> unat hi"
    using h by (simp add: app_heap_reset_def)
  show "unat lo \<le> unat (loaded_app_heap_cur (app_heap_reset lo hi))"
    using p by (simp add: app_heap_reset_def)
qed

lemma blocks_ok_hi: "blocks_ok lo hi bs \<Longrightarrow> hi \<le> hi' \<Longrightarrow> blocks_ok lo hi' bs"
  by (induction lo hi bs rule: blocks_ok.induct) (auto split: if_splits)

text \<open>
  The heap of a user program: whatever sequence of sizes is requested after
  \<open>app_heap_reset\<close>, the blocks that are not 0 are aligned to 16, inside the heap, and each lies
  behind all earlier ones, provided no size is within 15 of 2^32. For such a size the rounding
  wraps and \<open>app_heap_alloc\<close> does what it does for 16 bytes.
\<close>

theorem app_heap_blocks:
  assumes "0 < lo" "unat lo \<le> 0xFFFFFFF0"
  shows "(\<forall>ss. (\<forall>sz \<in> set ss. unat sz \<le> 0xFFFFFFF0) \<longrightarrow>
      blocks_ok (unat lo) (unat hi) (zip (heap_allocs (app_heap_reset lo hi) ss) ss)) \<and>
    (\<forall>h sz. unat sz > 0xFFFFFFF0 \<longrightarrow> app_heap_alloc h sz = app_heap_alloc h 16)"
proof (intro conjI allI impI)
  fix ss :: "u32 list" assume "\<forall>sz \<in> set ss. unat sz \<le> 0xFFFFFFF0"
  from heap_allocs_ok [OF app_heap_reset_ok(1) [OF assms] this]
  show "blocks_ok (unat lo) (unat hi) (zip (heap_allocs (app_heap_reset lo hi) ss) ss)"
    using app_heap_reset_ok(2,3) [OF assms] by (blast intro: blocks_ok_mono blocks_ok_hi)
next
  fix h and sz :: u32 assume "unat sz > 0xFFFFFFF0"
  then have "align_up_reg sz 16 = 0" by (rule align_up_16_wrap)
  moreover have "unat (align_up_reg 16 16) = unat (16 :: u32)" by (subst align_up_16) simp_all
  then have "align_up_reg 16 16 = 16" by (simp only: word_unat_eq_iff)
  ultimately show "app_heap_alloc h sz = app_heap_alloc h 16" by (simp add: app_heap_alloc_def)
qed

theorem app_heap_blocks_witness:
  "blocks_ok 0xBF001000 0xBFFFE000 (zip (heap_allocs (app_heap_reset 0xBF001000 0xBFFFE000) [100, 0, 0x2000000, 7]) [100, 0, 0x2000000, 7])"
  using app_heap_blocks [of "0xBF001000" "0xBFFFE000", THEN conjunct1, THEN spec, of "[100, 0, 0x2000000, 7]"]
  by (simp del: heap_allocs.simps)

section \<open>The loader stays in the program area\<close>

lemma load_segments_area:
  "load_segments lay buf sz is mem = (r, mem') \<Longrightarrow>
   \<not> (unat (APP_START lay) \<le> a \<and> a < unat (APP_END lay)) \<Longrightarrow> mem' a = mem a"
proof (induction lay buf sz "is" mem rule: load_segments.induct)
  case (2 lay buf sz i "is" mem)
  let ?v = "unat (p_vaddr buf i)" and ?f = "unat (p_filesz buf i)" and ?m = "unat (p_memsz buf i)"
  have seg: "load_segment buf i mem a = mem a"
    if "unat (APP_START lay) \<le> ?v" "?v + ?m \<le> unat (APP_END lay)" "?f \<le> ?m"
  proof -
    have "unat (APP_END lay) < 2 ^ 32" using unsigned_less [of "APP_END lay"] by simp
    then have "?v + ?f < 2 ^ 32" using that by linarith
    then have "unat (p_vaddr buf i + p_filesz buf i) = ?v + ?f" by (simp add: unat_word_ariths)
    moreover have "p_memsz buf i > p_filesz buf i \<Longrightarrow> unat (p_memsz buf i - p_filesz buf i) = ?m - ?f"
      by (simp add: unat_sub_if_size word_less_nat_alt)
    ultimately show ?thesis
      using that 2(5) by (auto simp: load_segment_def Let_def mem_fill_def mem_copy_def)
  qed
  show ?case using 2 seg
    by (auto simp: word_le_nat_alt word_less_nat_alt not_less split: if_splits)
qed simp

text \<open>Reading stays in the file: bytes behind its size have no influence.\<close>

definition same_file :: "u32 \<Rightarrow> mem8 \<Rightarrow> mem8 \<Rightarrow> bool" where
  "same_file sz b b' \<longleftrightarrow> (\<forall>k < unat sz. b k = b' k)"

lemma same_le: "same_file sz b b' \<Longrightarrow> k + 4 \<le> unat sz \<Longrightarrow> le32 b k = le32 b' k"
    "same_file sz b b' \<Longrightarrow> k + 2 \<le> unat sz \<Longrightarrow> le16 b k = le16 b' k"
  by (auto simp: same_file_def intro!: le32_cong le16_cong)

lemma same_bytes: "same_file sz b b' \<Longrightarrow> k + n \<le> unat sz \<Longrightarrow> bytes_at b k n = bytes_at b' k n"
  by (auto simp: same_file_def intro!: bytes_at_cong)

lemma header_bounds:
  assumes "unat (e_phoff buf) + unat (e_phnum buf) * unat (e_phentsize buf) \<le> unat (sz :: u32)"
    and "i < unat (e_phnum buf)" "\<not> e_phentsize buf < 32"
  shows "ph_at buf i = unat (e_phoff buf) + i * unat (e_phentsize buf)" "ph_at buf i + 32 \<le> unat sz"
proof -
  let ?o = "unat (e_phoff buf)" and ?e = "unat (e_phentsize buf)" and ?n = "unat (e_phnum buf)"
  have e: "32 \<le> ?e" using assms(3) by (simp add: word_less_nat_alt not_less)
  have "i * ?e + ?e \<le> ?n * ?e" using mult_le_mono1 [of "i + 1" ?n ?e] assms(2) by simp
  then have b: "?o + i * ?e + 32 \<le> unat sz" using assms(1) e by linarith
  have s: "unat sz < 4294967296" using unsigned_less [of sz] by simp
  have "unat (e_phnum buf) < 65536" using unsigned_less [of "e_phnum buf"] by simp
  then have i: "unat (of_nat i :: u32) = i" using assms(2) by (intro unat_of_nat_u32) simp
  have "?e < 65536" using unsigned_less [of "e_phentsize buf"] by simp
  then have c: "unat (ucast (e_phentsize buf) :: u32) = ?e" by (simp add: unsigned_ucast_eq take_bit_nat_eq_self)
  have "unat (of_nat i * ucast (e_phentsize buf) :: u32) = i * ?e" using b s by (simp add: unat_word_ariths i c)
  then show "ph_at buf i = ?o + i * ?e" using b s by (simp add: ph_at_def unat_word_ariths)
  then show "ph_at buf i + 32 \<le> unat sz" using b by simp
qed

lemma load_segments_same:
  assumes "same_file sz b b'" "\<And>i. i \<in> set is \<Longrightarrow> ph_at b i = ph_at b' i \<and> ph_at b i + 32 \<le> unat sz"
  shows "load_segments lay b sz is mem = load_segments lay b' sz is mem"
  using assms(2)
proof (induction "is" arbitrary: mem)
  case (Cons i "is")
  have h: "ph_at b i = ph_at b' i" "ph_at b' i + 32 \<le> unat sz" using Cons.prems [of i] by auto
  have f: "p_type b i = p_type b' i" "p_offset b i = p_offset b' i" "p_vaddr b i = p_vaddr b' i"
    "p_filesz b i = p_filesz b' i" "p_memsz b i = p_memsz b' i"
    using h by (auto simp: p_type_def p_offset_def p_vaddr_def p_filesz_def p_memsz_def intro!: same_le(1) [OF assms(1)])
  have "load_segment b i mem = load_segment b' i mem" if "unat (p_offset b' i) + unat (p_filesz b' i) \<le> unat sz" for mem
    using same_bytes [OF assms(1) that] by (simp add: load_segment_def Let_def f)
  moreover have "load_segments lay b sz is mem = load_segments lay b' sz is mem" for mem
  proof (rule Cons.IH)
    fix j assume "j \<in> set is"
    then show "ph_at b j = ph_at b' j \<and> ph_at b j + 32 \<le> unat sz" using Cons.prems [of j] by simp
  qed
  ultimately show ?case by (simp add: f)
qed simp

lemma app_load_elf_image_same:
  assumes "same_file sz b b'"
  shows "app_load_elf_image lay b sz mem = app_load_elf_image lay b' sz mem"
proof (cases "sz < 52")
  case False
  then have s: "52 \<le> unat sz" by (simp add: word_less_nat_alt not_less)
  have byte: "k < 52 \<Longrightarrow> b k = b' k" for k using assms s by (auto simp: same_file_def)
  have f: "e_magic_ok b = e_magic_ok b'" "e_entry b = e_entry b'" "e_phoff b = e_phoff b'"
    "e_phentsize b = e_phentsize b'" "e_phnum b = e_phnum b'"
    using s byte by (simp_all add: e_magic_ok_def e_entry_def e_phoff_def e_phentsize_def e_phnum_def
        same_le(1) [OF assms] same_le(2) [OF assms])
  have ph: "ph_at b i = ph_at b' i" for i by (simp add: ph_at_def f)
  have "load_segments lay b sz [0 ..< unat (e_phnum b)] mem = load_segments lay b' sz [0 ..< unat (e_phnum b)] mem"
    if "\<not> e_phentsize b < 32" "unat (e_phoff b) + unat (e_phnum b) * unat (e_phentsize b) \<le> unat sz"
    using header_bounds(2) [OF that(2) _ that(1)] ph by (intro load_segments_same [OF assms]) auto
  then have "load_segments lay b sz [0 ..< unat (e_phnum b')] mem = load_segments lay b' sz [0 ..< unat (e_phnum b')] mem
    \<or> e_phentsize b' < 32 \<or> unat (e_phoff b') + unat (e_phnum b') * unat (e_phentsize b') > unat sz"
    unfolding f using not_less by blast
  then show ?thesis unfolding app_load_elf_image_def f by (elim disjE) simp_all
qed (simp add: app_load_elf_image_def)

text \<open>
  What a loaded image is: for an address of the program area, the byte of the last segment of
  type LOAD that covers it, zero behind the bytes the file has, and the old byte if none does.
\<close>

definition seg_covers :: "mem8 \<Rightarrow> nat \<Rightarrow> nat \<Rightarrow> bool" where
  "seg_covers buf a i \<longleftrightarrow> p_type buf i = 1 \<and> unat (p_vaddr buf i) \<le> a \<and> a < unat (p_vaddr buf i) + unat (p_memsz buf i)"

definition seg_byte :: "mem8 \<Rightarrow> nat \<Rightarrow> nat \<Rightarrow> u8" where
  "seg_byte buf a i = (let k = a - unat (p_vaddr buf i) in
     if k < unat (p_filesz buf i) then buf (unat (p_offset buf i) + k) else 0)"

definition image_byte :: "mem8 \<Rightarrow> mem8 \<Rightarrow> nat list \<Rightarrow> nat \<Rightarrow> u8" where
  "image_byte buf mem is a = (case filter (seg_covers buf a) is of [] \<Rightarrow> mem a | js \<Rightarrow> seg_byte buf a (last js))"

lemma load_segment_byte:
  assumes "\<not> p_memsz buf i < p_filesz buf i" "unat (p_vaddr buf i) + unat (p_memsz buf i) \<le> unat (APP_END lay)" "p_type buf i = 1"
  shows "load_segment buf i mem a = (if seg_covers buf a i then seg_byte buf a i else mem a)"
proof -
  let ?v = "unat (p_vaddr buf i)" and ?f = "unat (p_filesz buf i)" and ?m = "unat (p_memsz buf i)"
  have "unat (APP_END lay) < 2 ^ 32" using unsigned_less [of "APP_END lay"] by simp
  moreover have fm: "?f \<le> ?m" using assms(1) by (simp add: word_less_nat_alt not_less)
  ultimately have "?v + ?f < 2 ^ 32" using assms(2) by linarith
  then have s: "unat (p_vaddr buf i + p_filesz buf i) = ?v + ?f" by (simp add: unat_word_ariths)
  have d: "p_memsz buf i > p_filesz buf i \<Longrightarrow> unat (p_memsz buf i - p_filesz buf i) = ?m - ?f"
    by (simp add: unat_sub_if_size word_less_nat_alt)
  show ?thesis
  proof (cases "p_memsz buf i > p_filesz buf i")
    case True
    then show ?thesis using s d [OF True] fm assms(3)
      by (auto simp: load_segment_def Let_def mem_fill_def mem_copy_def seg_covers_def seg_byte_def)
  next
    case False
    then have "?m = ?f" using assms(1) by simp
    then show ?thesis using False assms(3)
      by (auto simp: load_segment_def Let_def mem_copy_def seg_covers_def seg_byte_def)
  qed
qed

lemma load_segments_bytes:
  "load_segments lay buf sz is mem = ((0, msg), mem') \<Longrightarrow> mem' a = image_byte buf mem is a"
proof (induction lay buf sz "is" mem rule: load_segments.induct)
  case (1 lay buf sz mem)
  then show ?case by (simp add: image_byte_def)
next
  case (2 lay buf sz i "is" mem)
  show ?case
  proof (cases "p_type buf i \<noteq> 1 \<or> p_memsz buf i = 0")
    case True
    then have "\<not> seg_covers buf a i" by (auto simp: seg_covers_def)
    then have "image_byte buf mem (i # is) a = image_byte buf mem is a" by (simp add: image_byte_def)
    then show ?thesis using 2 True by (auto split: if_splits)
  next
    case False
    let ?c = "p_memsz buf i < p_filesz buf i" and ?b = "unat (p_offset buf i) + unat (p_filesz buf i) > unat sz"
      and ?l = "p_vaddr buf i < APP_START lay \<or> unat (p_vaddr buf i) + unat (p_memsz buf i) > unat (APP_END lay)"
    have c: "\<not> ?b" "\<not> ?c" "\<not> ?l" using 2(4) False by (auto split: if_splits)
    then have "load_segments lay buf sz is (load_segment buf i mem) = ((0, msg), mem')" using 2(4) False by simp
    then have m: "mem' a = image_byte buf (load_segment buf i mem) is a" using 2(3) False c by blast
    have "load_segment buf i mem a = (if seg_covers buf a i then seg_byte buf a i else mem a)"
      using c False by (intro load_segment_byte [where lay = lay]) auto
    then show ?thesis unfolding m by (auto simp: image_byte_def split: list.split)
  qed
qed

lemma elf_loader_correct:
  assumes r: "app_load_elf_image lay buf sz mem = ((rc, msg), mem', entry)"
  shows "(\<forall>buf'. same_file sz buf buf' \<longrightarrow> app_load_elf_image lay buf' sz mem = ((rc, msg), mem', entry)) \<and>
    (\<forall>a. \<not> (unat (APP_START lay) \<le> a \<and> a < unat (APP_END lay)) \<longrightarrow> mem' a = mem a) \<and>
    rc \<in> {0, -7, -11, -12, -13, -14} \<and>
    (rc = 0 \<longrightarrow> entry = Some (e_entry buf) \<and> APP_START lay \<le> e_entry buf \<and> e_entry buf < APP_END lay \<and>
       (\<forall>a. mem' a = image_byte buf mem [0 ..< unat (e_phnum buf)] a)) \<and>
    (rc \<noteq> 0 \<longrightarrow> entry = None)"
proof (intro conjI)
  obtain rc0 msg0 m0 where L: "load_segments lay buf sz [0 ..< unat (e_phnum buf)] mem = ((rc0, msg0), m0)"
    by (metis surj_pair)
  show "\<forall>buf'. same_file sz buf buf' \<longrightarrow> app_load_elf_image lay buf' sz mem = ((rc, msg), mem', entry)"
    using app_load_elf_image_same r by metis
  show "\<forall>a. \<not> (unat (APP_START lay) \<le> a \<and> a < unat (APP_END lay)) \<longrightarrow> mem' a = mem a"
    using r load_segments_area [OF L] by (auto simp: app_load_elf_image_def L split: if_splits)
  have "load_segments lay buf sz is m = ((rc1, msg1), m1) \<Longrightarrow> rc1 \<in> {0, -7, -14}" for "is" m rc1 msg1 m1
    by (induction lay buf sz "is" m rule: load_segments.induct) (auto split: if_splits)
  from this [OF L] show "rc \<in> {0, -7, -11, -12, -13, -14}"
    using r by (auto simp: app_load_elf_image_def L split: if_splits)
  show "rc = 0 \<longrightarrow> entry = Some (e_entry buf) \<and> APP_START lay \<le> e_entry buf \<and> e_entry buf < APP_END lay \<and>
       (\<forall>a. mem' a = image_byte buf mem [0 ..< unat (e_phnum buf)] a)"
    using r load_segments_bytes [of lay buf sz "[0 ..< unat (e_phnum buf)]" mem]
    by (auto simp: app_load_elf_image_def L not_less split: if_splits)
  show "rc \<noteq> 0 \<longrightarrow> entry = None" using r by (auto simp: app_load_elf_image_def L split: if_splits)
qed

text \<open>
  C39: The loader is safe for every file: it reads only bytes of the file, it writes only
  memory of the program area, and it returns 0 or one of its four error codes. If it returns 0, the
  entry point is in the program area and the memory is the image the program headers describe.
\<close>

theorem elf_loader_safe:
  assumes r: "app_load_elf_image lay buf sz mem = ((rc, msg), mem', entry)"
  shows "(\<forall>buf'. same_file sz buf buf' \<longrightarrow> app_load_elf_image lay buf' sz mem = ((rc, msg), mem', entry)) \<and>
    (\<forall>a. \<not> (unat (APP_START lay) \<le> a \<and> a < unat (APP_END lay)) \<longrightarrow> mem' a = mem a) \<and>
    rc \<in> {0, -7, -11, -12, -13, -14} \<and>
    (rc = 0 \<longrightarrow> entry = Some (e_entry buf) \<and> APP_START lay \<le> e_entry buf \<and> e_entry buf < APP_END lay \<and>
       (\<forall>a. mem' a = image_byte buf mem [0 ..< unat (e_phnum buf)] a)) \<and>
    (rc \<noteq> 0 \<longrightarrow> entry = None)"
  by (rule elf_loader_correct [OF r])

text \<open>A file with one segment: three bytes of code at the start of the area, and five zeros.\<close>

definition tiny_elf :: "u8 list" where
  "tiny_elf = [0x7f, 0x45, 0x4c, 0x46, 1, 1, 1, 0, 0, 0, 0, 0, 0, 0, 0, 0, 2, 0, 243, 0, 1, 0, 0, 0, 0, 1, 0, 0, 52, 0, 0, 0,
     0, 0, 0, 0, 0, 0, 0, 0, 52, 0, 32, 0, 1, 0, 0, 0, 0, 0, 0, 0,
     1, 0, 0, 0, 84, 0, 0, 0, 0, 1, 0, 0, 0, 1, 0, 0, 3, 0, 0, 0, 8, 0, 0, 0, 7, 0, 0, 0, 0, 0, 0, 0, 0x13, 0x37, 0x42]"

definition small_layout :: app_layout where
  "small_layout = \<lparr>APP_START = 0x100, APP_END = 0x400, root_addr = 0, l2_addr = 0x1000\<rparr>"

definition file_mem :: "u8 list \<Rightarrow> mem8" where
  "file_mem bs k = (if k < length bs then bs ! k else 0)"

theorem elf_loader_safe_witness:
  "\<exists>mem'. app_load_elf_image small_layout (file_mem tiny_elf) 87 (\<lambda>_. 0xAA) = ((0, []), mem', Some 0x100) \<and>
     mem' 0x101 = 0x37 \<and> mem' 0x104 = 0 \<and> mem' 0xFF = 0xAA"
proof -
  obtain rc msg mem' entry where r: "app_load_elf_image small_layout (file_mem tiny_elf) 87 (\<lambda>_. 0xAA) = ((rc, msg), mem', entry)"
    by (metis surj_pair)
  have "fst (app_load_elf_image small_layout (file_mem tiny_elf) 87 (\<lambda>_. 0xAA)) = (0, [])" by code_simp
  then have rc: "rc = 0" "msg = []" by (simp_all add: r)
  have n: "unat (e_phnum (file_mem tiny_elf)) = 1" "e_entry (file_mem tiny_elf) = 0x100" by code_simp+
  have i: "image_byte (file_mem tiny_elf) (\<lambda>_. 0xAA) [0] 0x101 = 0x37" "image_byte (file_mem tiny_elf) (\<lambda>_. 0xAA) [0] 0x104 = 0"
    "image_byte (file_mem tiny_elf) (\<lambda>_. 0xAA) [0] 0xFF = 0xAA" by code_simp+
  show ?thesis using elf_loader_safe [OF r] r rc n i by simp
qed

section \<open>What the program finds on its stack\<close>

text \<open>The arguments as a program reads them: a word count, pointers, and strings up to their NUL.\<close>

definition has_string :: "mem8 \<Rightarrow> u32 \<Rightarrow> string \<Rightarrow> bool" where
  "has_string mem p s \<longleftrightarrow> bytes_at mem (unat p) (length s + 1) = map c2b s @ [0]"

definition has_argv :: "mem8 \<Rightarrow> u32 \<Rightarrow> string list \<Rightarrow> bool" where
  "has_argv mem sp argv \<longleftrightarrow>
     le32 mem (unat sp) = of_nat (length argv) \<and>
     (\<forall>i < length argv. has_string mem (le32 mem (unat sp + 4 + 4 * i)) (argv ! i)) \<and>
     le32 mem (unat sp + 4 + 4 * length argv) = 0"

text \<open>The words of an argument text.\<close>

fun words_from :: "string \<Rightarrow> string \<Rightarrow> string list" where
  "words_from w [] = (if w = [] then [] else [w])"
| "words_from w (c # s) =
     (if c = CHR '' '' then (if w = [] then [] else [w]) @ words_from [] s else words_from (w @ [c]) s)"

definition words :: "string \<Rightarrow> string list" where
  "words s = words_from [] s"

lemma words_blank: "words (dropWhile (\<lambda>c. c = CHR '' '') p) = words p"
  unfolding words_def by (induction p) simp_all

lemma words_from_word: "CHR '' '' \<notin> set v \<Longrightarrow> words_from w (v @ r) = words_from (w @ v) r"
  by (induction v arbitrary: w) auto

lemma words_first:
  assumes "p \<noteq> []" "hd p \<noteq> CHR '' ''"
  shows "words p = takeWhile (\<lambda>c. c \<noteq> CHR '' '') p # words (drop 1 (dropWhile (\<lambda>c. c \<noteq> CHR '' '') p))"
proof -
  define w r where "w = takeWhile (\<lambda>c. c \<noteq> CHR '' '') p" and "r = dropWhile (\<lambda>c. c \<noteq> CHR '' '') p"
  have p: "p = w @ r" by (simp add: w_def r_def)
  have w: "w \<noteq> []" using assms by (cases p) (simp_all add: w_def)
  have "CHR '' '' \<notin> set w" using set_takeWhileD [of "CHR '' ''" "\<lambda>c. c \<noteq> CHR '' ''" p] by (auto simp: w_def)
  then have "words p = words_from w r" unfolding p words_def by (simp add: words_from_word)
  also have "\<dots> = w # words (drop 1 r)"
  proof (cases r)
    case (Cons c r')
    then have "c = CHR '' ''" using hd_dropWhile [of "\<lambda>c. c \<noteq> CHR '' ''" p] by (simp add: r_def [symmetric])
    then show ?thesis using Cons w by (simp add: words_def)
  qed (simp add: w words_def)
  finally show ?thesis by (simp add: w_def r_def)
qed

lemma words_Nil [simp]: "words [] = []" by (simp add: words_def)

lemma words_all_blank: "dropWhile (\<lambda>c. c = CHR '' '') p = [] \<Longrightarrow> words p = []"
proof -
  assume d: "dropWhile (\<lambda>c. c = CHR '' '') p = []"
  have "words p = words (dropWhile (\<lambda>c. c = CHR '' '') p)" by (rule words_blank [symmetric])
  then show "words p = []" by (simp only: d words_Nil)
qed

lemma split_args_words:
  "split_args p argv = (if length argv + length (words p) \<le> max 8 (length argv) then Some (argv @ words p) else None)"
proof (induction p argv rule: split_args.induct)
  case (1 p argv)
  define q where "q = dropWhile (\<lambda>c. c = CHR '' '') p"
  have step: "split_args p argv = (if q = [] then Some argv else if length argv \<ge> 8 then None
      else split_args (drop 1 (dropWhile (\<lambda>c. c \<noteq> CHR '' '') q)) (argv @ [takeWhile (\<lambda>c. c \<noteq> CHR '' '') q]))"
    unfolding q_def Let_def by (subst split_args.simps) (simp only: Let_def)
  show ?case
  proof (cases "q = []")
    case True
    then have "words p = []" unfolding q_def by (rule words_all_blank)
    then show ?thesis using step True by simp
  next
    case False
    then have "hd q \<noteq> CHR '' ''" unfolding q_def using hd_dropWhile [of "\<lambda>c. c = CHR '' ''" p] by blast
    then have "words q = takeWhile (\<lambda>c. c \<noteq> CHR '' '') q # words (drop 1 (dropWhile (\<lambda>c. c \<noteq> CHR '' '') q))"
      by (rule words_first [OF False])
    moreover have "words q = words p" unfolding q_def by (rule words_blank)
    ultimately obtain w r where wr: "w = takeWhile (\<lambda>c. c \<noteq> CHR '' '') q" "r = drop 1 (dropWhile (\<lambda>c. c \<noteq> CHR '' '') q)"
      "words p = w # words r" by simp
    show ?thesis
    proof (cases "length argv \<ge> 8")
      case True
      then show ?thesis using False step wr(3) by simp
    next
      case less: False
      then have "split_args p argv = split_args r (argv @ [w])" using False step wr by simp
      also have "\<dots> = (if length (argv @ [w]) + length (words r) \<le> max 8 (length (argv @ [w]))
          then Some ((argv @ [w]) @ words r) else None)"
        unfolding wr(1,2) by (rule 1) (use False less in \<open>simp_all add: q_def\<close>)
      also have "\<dots> = (if length argv + length (words p) \<le> max 8 (length argv) then Some (argv @ words p) else None)"
      proof -
        have "max 8 (length argv) = 8" "max 8 (length (argv @ [w])) = 8" using less by simp_all
        then show ?thesis by (simp add: wr(3))
      qed
      finally show ?thesis .
    qed
  qed
qed

lemma sum_words: "sum_list (map (\<lambda>s. length s + 1) (words p)) \<le> length p + 1"
proof -
  have "sum_list (map (\<lambda>s. length s + 1) (words_from w p)) \<le> length w + length p + 1" for w
    by (induction w p rule: words_from.induct) auto
  from this [of "[]"] show ?thesis by (simp add: words_def)
qed

lemma app_argv_words:
  "app_argv nm arg = (let ws = (case arg of None \<Rightarrow> [] | Some a \<Rightarrow> words (take 99 a)) in
     if length ws \<le> 7 then Some (nm # ws) else None)"
  by (cases arg) (auto simp: app_argv_def split_args_words Let_def)

definition str_room :: "string list \<Rightarrow> nat" where
  "str_room ss = sum_list (map (\<lambda>s. length s + 1) ss)"

lemma put_strings_mem:
  "put_strings ss slot mem = (ptrs, mem') \<Longrightarrow> unat slot + str_room ss < 2 ^ 32 \<Longrightarrow>
   length ptrs = length ss \<and> (\<forall>a. a < unat slot \<or> unat slot + str_room ss \<le> a \<longrightarrow> mem' a = mem a) \<and>
   (\<forall>i < length ss. unat slot \<le> unat (ptrs ! i) \<and> unat (ptrs ! i) + length (ss ! i) + 1 \<le> unat slot + str_room ss \<and>
      has_string mem' (ptrs ! i) (ss ! i))"
proof (induction ss arbitrary: slot mem ptrs mem')
  case Nil
  then show ?case by (simp add: str_room_def)
next
  case (Cons s ss)
  let ?m1 = "mem_copy mem (unat slot) (map c2b s @ [0])" and ?slot = "slot + (of_nat (strlen s) + 1)"
  obtain ps where ps: "put_strings ss ?slot ?m1 = (ps, mem')" "ptrs = slot # ps"
    using Cons.prems(1) by (auto simp: Let_def split: prod.splits)
  have room: "str_room (s # ss) = length s + 1 + str_room ss" by (simp add: str_room_def)
  have "unat (of_nat (strlen s) :: u32) = length s"
    using Cons.prems(2) room by (simp add: strlen_def unsigned_of_nat take_bit_nat_eq_self)
  then have slot: "unat ?slot = unat slot + length s + 1"
    using Cons.prems(2) room by (simp add: unat_word_ariths)
  have IH: "length ps = length ss" "\<And>a. a < unat ?slot \<or> unat ?slot + str_room ss \<le> a \<Longrightarrow> mem' a = ?m1 a"
    "\<And>i. i < length ss \<Longrightarrow> unat ?slot \<le> unat (ps ! i) \<and> unat (ps ! i) + length (ss ! i) + 1 \<le> unat ?slot + str_room ss \<and>
      has_string mem' (ps ! i) (ss ! i)"
    using Cons.IH [OF ps(1)] Cons.prems(2) room slot by auto
  have "bytes_at mem' (unat slot) (length s + 1) = bytes_at ?m1 (unat slot) (length s + 1)"
    by (rule bytes_at_cong) (use IH(2) slot in simp)
  also have "\<dots> = map c2b s @ [0]" by (subst bytes_at_mem_copy) simp_all
  finally have first: "has_string mem' slot s" by (simp add: has_string_def)
  have other: "mem' a = mem a" if "a < unat slot \<or> unat slot + str_room (s # ss) \<le> a" for a
    using that IH(2) [of a] slot room by (auto simp: mem_copy_def)
  have "unat slot \<le> unat (ptrs ! i) \<and> unat (ptrs ! i) + length ((s # ss) ! i) + 1 \<le> unat slot + str_room (s # ss) \<and>
      has_string mem' (ptrs ! i) ((s # ss) ! i)" if "i < length (s # ss)" for i
    using that first IH(3) [of "i - 1"] slot room by (cases i) (auto simp: ps(2))
  then show ?case using IH(1) other by (auto simp: ps(2))
qed

lemma put_words_mem:
  "unat a + 4 * length vs < 2 ^ 32 \<Longrightarrow>
   (\<forall>i < length vs. le32 (put_words vs a mem) (unat a + 4 * i) = vs ! i) \<and>
   (\<forall>b. b < unat a \<or> unat a + 4 * length vs \<le> b \<longrightarrow> put_words vs a mem b = mem b)"
proof (induction vs arbitrary: a mem)
  case (Cons v vs)
  have a: "unat (a + 4) = unat a + 4" using Cons.prems by (simp add: unat_word_ariths)
  have IH: "\<And>i. i < length vs \<Longrightarrow> le32 (put_words vs (a + 4) (put32 mem (unat a) v)) (unat a + 4 + 4 * i) = vs ! i"
    "\<And>b. b < unat a + 4 \<or> unat a + 4 + 4 * length vs \<le> b \<Longrightarrow> put_words vs (a + 4) (put32 mem (unat a) v) b = put32 mem (unat a) v b"
    using Cons.IH [of "a + 4" "put32 mem (unat a) v"] Cons.prems unfolding a by auto
  have "le32 (put_words vs (a + 4) (put32 mem (unat a) v)) (unat a) = le32 (put32 mem (unat a) v) (unat a)"
    by (rule le32_cong) (use IH(2) in simp)
  then have "le32 (put_words (v # vs) a mem) (unat a + 4 * i) = (v # vs) ! i" if "i < length (v # vs)" for i
    using that IH(1) [of "i - 1"] by (cases i) (simp_all add: algebra_simps)
  then show ?case using IH(2) by auto
qed simp

lemma has_string_cong:
  "has_string m p s \<Longrightarrow> (\<And>a. unat p \<le> a \<Longrightarrow> a < unat p + length s + 1 \<Longrightarrow> m' a = m a) \<Longrightarrow> has_string m' p s"
proof -
  assume h: "has_string m p s" and e: "\<And>a. unat p \<le> a \<Longrightarrow> a < unat p + length s + 1 \<Longrightarrow> m' a = m a"
  have "bytes_at m' (unat p) (length s + 1) = bytes_at m (unat p) (length s + 1)"
    by (rule bytes_at_cong) (use e in simp)
  then show "has_string m' p s" using h by (simp add: has_string_def)
qed

text \<open>The size of the frame, and that it fits.\<close>

lemma frame_words:
  assumes "length argv \<le> 8" "str_room argv < 2 ^ 16"
  shows "unat (align_up_reg (4 + (of_nat (length argv) + 1) * 4 + sum_list (map (\<lambda>s. of_nat (strlen s) + 1) argv)) 16) =
    (4 + (length argv + 1) * 4 + str_room argv + 15) div 16 * 16"
proof -
  have s: "sum_list (map (\<lambda>s. of_nat (strlen s) + 1) argv) = (of_nat (str_room argv) :: u32)"
    by (induction argv) (simp_all add: str_room_def strlen_def)
  have "(4 + (of_nat (length argv) + 1) * 4 + of_nat (str_room argv) :: u32) = of_nat (4 + (length argv + 1) * 4 + str_room argv)"
    by simp
  moreover have "unat (of_nat (4 + (length argv + 1) * 4 + str_room argv) :: u32) = 4 + (length argv + 1) * 4 + str_room argv"
    by (rule unat_of_nat_u32) (use assms in simp)
  ultimately have u: "unat (4 + (of_nat (length argv) + 1) * 4 + sum_list (map (\<lambda>s. of_nat (strlen s) + 1) argv) :: u32) =
      4 + (length argv + 1) * 4 + str_room argv"
    unfolding s by (simp only:)
  show ?thesis by (subst align_up_16) (use assms in \<open>simp_all only: u\<close>, simp)
qed

lemma argv_frame:
  assumes argv: "length argv \<le> 8" and base: "unat base + 4 + (length argv + 1) * 4 + str_room argv < 2 ^ 32"
    and slot: "slot = base + 4 + (of_nat (length argv) + 1) * 4"
    and ps: "put_strings argv slot mem = (ptrs, m1)"
    and m2: "m2 = put_words (ptrs @ [0]) (base + 4) (put32 m1 (unat base) (of_nat (length argv)))"
  shows "has_argv m2 base argv \<and>
    (\<forall>a. a < unat base \<or> unat base + 4 + (length argv + 1) * 4 + str_room argv \<le> a \<longrightarrow> m2 a = mem a)"
proof -
  have "(of_nat (length argv) + 1) * 4 = (of_nat ((length argv + 1) * 4) :: u32)" by simp
  moreover have "unat (of_nat ((length argv + 1) * 4) :: u32) = (length argv + 1) * 4"
    by (rule unat_of_nat_u32) (use argv in simp)
  ultimately have us: "unat slot = unat base + 4 + (length argv + 1) * 4"
    using base unfolding slot by (simp add: unat_word_ariths del: of_nat_mult of_nat_add)
  have u4: "unat (base + 4) = unat base + 4" using base by (simp add: unat_word_ariths)
  have S: "length ptrs = length argv" "\<And>a. a < unat slot \<or> unat slot + str_room argv \<le> a \<Longrightarrow> m1 a = mem a"
    "\<And>i. i < length argv \<Longrightarrow> unat slot \<le> unat (ptrs ! i) \<and> has_string m1 (ptrs ! i) (argv ! i)"
    using put_strings_mem [OF ps] base us by auto
  let ?m = "put32 m1 (unat base) (of_nat (length argv))"
  have W: "\<And>i. i < length (ptrs @ [0]) \<Longrightarrow> le32 m2 (unat base + 4 + 4 * i) = (ptrs @ [0]) ! i"
    "\<And>b. b < unat base + 4 \<or> unat base + 4 + 4 * length (ptrs @ [0]) \<le> b \<Longrightarrow> m2 b = ?m b"
    using put_words_mem [of "base + 4" "ptrs @ [0]" ?m] base S(1) unfolding m2 u4 by auto
  have "le32 m2 (unat base) = le32 ?m (unat base)" by (rule le32_cong) (use W(2) in simp)
  then have c: "le32 m2 (unat base) = of_nat (length argv)" by simp
  have "has_string m2 (le32 m2 (unat base + 4 + 4 * i)) (argv ! i)" if i: "i < length argv" for i
  proof -
    have p: "le32 m2 (unat base + 4 + 4 * i) = ptrs ! i" using W(1) [of i] i S(1) by (simp add: nth_append)
    show ?thesis unfolding p
    proof (rule has_string_cong)
      show "has_string m1 (ptrs ! i) (argv ! i)" using S(3) [OF i] by simp
      fix a assume "unat (ptrs ! i) \<le> a"
      then have "unat slot \<le> a" using S(3) [OF i] by simp
      then show "m2 a = m1 a" using W(2) [of a] us S(1) by simp
    qed
  qed
  moreover have "le32 m2 (unat base + 4 + 4 * length argv) = 0" using W(1) [of "length argv"] S(1) by (simp add: nth_append)
  moreover have "m2 a = mem a" if "a < unat base \<or> unat base + 4 + (length argv + 1) * 4 + str_room argv \<le> a" for a
    using that W(2) [of a] S(1) S(2) [of a] us by auto
  ultimately show ?thesis using c by (simp add: has_argv_def)
qed

lemma argv_stack_correct:
  assumes r: "app_prepare_argv_stack lay nm arg mem sp = (rc, mem', sp')" and nm: "length nm < 2 ^ 15"
    and ws: "ws = (case arg of None \<Rightarrow> [] | Some a \<Rightarrow> words (take 99 a))"
  shows "(rc = -2 \<longleftrightarrow> length ws > 7) \<and>
    (rc = 0 \<longrightarrow> has_argv mem' sp' (nm # ws) \<and> sp' < sp \<and> APP_START lay + 4096 < sp' \<and>
       unat (sp - sp') mod 16 = 0 \<and> (\<forall>a. a < unat sp' \<or> unat sp \<le> a \<longrightarrow> mem' a = mem a)) \<and>
    (rc \<noteq> 0 \<longrightarrow> mem' = mem \<and> sp' = sp)"
proof (cases "length ws \<le> 7")
  case False
  then have "app_argv nm arg = None" by (simp add: app_argv_words ws Let_def)
  then show ?thesis using r False by (simp add: app_prepare_argv_stack_def)
next
  case True
  let ?argv = "nm # ws" and ?total = "4 + (length (nm # ws) + 1) * 4 + str_room (nm # ws)"
  have "app_argv nm arg = Some ?argv" using True by (simp add: app_argv_words ws Let_def)
  note R = r [unfolded app_prepare_argv_stack_def this option.case Let_def]
  define frame where "frame = align_up_reg (4 + (of_nat (length ?argv) + 1) * 4 + sum_list (map (\<lambda>s. of_nat (strlen s) + 1) ?argv)) 16"
  have "str_room ws \<le> 100"
    using sum_words [of "take 99 (the arg)"] by (cases arg) (auto simp: ws str_room_def)
  then have room: "str_room ?argv < 2 ^ 16" using nm by (simp add: str_room_def)
  have frame: "unat frame = (?total + 15) div 16 * 16"
    unfolding frame_def by (rule frame_words) (use True room in simp_all)
  have fit: "?total \<le> unat frame" "0 < unat frame" "unat frame mod 16 = 0" unfolding frame by presburger+
  note R = R [folded frame_def]
  show ?thesis
  proof (cases "frame > sp \<or> sp - frame \<le> APP_START lay + 4096")
    case bad: True
    then show ?thesis using R True by simp
  next
    case ok: False
    obtain ptrs m1 where ps: "put_strings ?argv (sp - frame + 4 + (of_nat (length ?argv) + 1) * 4) mem = (ptrs, m1)"
      by (metis surj_pair)
    have r0: "rc = 0" "sp' = sp - frame"
      "mem' = put_words (ptrs @ [0]) (sp - frame + 4) (put32 m1 (unat (sp - frame)) (of_nat (length ?argv)))"
      using R [unfolded if_not_P [OF ok] ps prod.case prod.inject] by blast+
    have base: "unat (sp - frame) = unat sp - unat frame" "unat frame \<le> unat sp"
      using ok by (auto simp: unat_sub_if_size word_le_nat_alt word_less_nat_alt)
    have sp: "unat sp < 2 ^ 32" using unsigned_less [of sp] by simp
    have "has_argv mem' (sp - frame) ?argv \<and>
        (\<forall>a. a < unat (sp - frame) \<or> unat (sp - frame) + 4 + (length ?argv + 1) * 4 + str_room ?argv \<le> a \<longrightarrow> mem' a = mem a)"
    proof (rule argv_frame [OF _ _ refl ps r0(3)])
      show "length ?argv \<le> 8" using True by simp
      show "unat (sp - frame) + 4 + (length ?argv + 1) * 4 + str_room ?argv < 2 ^ 32"
        using base fit(1) sp by linarith
    qed
    then have mem: "has_argv mem' sp' ?argv" "\<And>a. a < unat sp' \<or> unat sp \<le> a \<Longrightarrow> mem' a = mem a"
      using fit(1) base r0(2) by auto
    have "sp' < sp" using base fit(2) by (simp add: r0(2) word_less_nat_alt)
    moreover have "sp - sp' = frame" by (simp add: r0(2))
    moreover have "APP_START lay + 4096 < sp'" using ok by (simp add: r0(2) not_le)
    ultimately show ?thesis using mem r0(1) fit(3) True by simp
  qed
qed

text \<open>
  A program finds its arguments: if \<open>app_prepare_argv_stack\<close> returns 0, then the new stack
  pointer points to the argument count, the argument pointers with a null pointer at their end,
  and the strings they point to: the program's name and the words of the first 99 characters of
  the argument text. Only memory between the new and the old stack pointer was written, and the
  new one is above the guard page. It returns -2 exactly if there are more than 7 words.
\<close>

theorem argv_on_stack:
  assumes r: "app_prepare_argv_stack lay nm arg mem sp = (rc, mem', sp')" and nm: "length nm < 2 ^ 15"
    and ws: "ws = (case arg of None \<Rightarrow> [] | Some a \<Rightarrow> words (take 99 a))"
  shows "(rc = -2 \<longleftrightarrow> length ws > 7) \<and>
    (rc = 0 \<longrightarrow> has_argv mem' sp' (nm # ws) \<and> sp' < sp \<and> APP_START lay + 4096 < sp' \<and>
       unat (sp - sp') mod 16 = 0 \<and> (\<forall>a. a < unat sp' \<or> unat sp \<le> a \<longrightarrow> mem' a = mem a)) \<and>
    (rc \<noteq> 0 \<longrightarrow> mem' = mem \<and> sp' = sp)"
  by (rule argv_stack_correct [OF r nm ws])

theorem argv_on_stack_witness:
  "\<forall>mem. \<exists>mem' sp'. app_prepare_argv_stack os_layout ''ls.elf'' (Some ''-l  /root'') mem 0xBFFFFFF0 = (0, mem', sp') \<and>
     has_argv mem' sp' [''ls.elf'', ''-l'', ''/root'']"
proof
  fix mem
  obtain rc mem' sp' where r: "app_prepare_argv_stack os_layout ''ls.elf'' (Some ''-l  /root'') mem 0xBFFFFFF0 = (rc, mem', sp')"
    by (metis surj_pair)
  have w: "words ''-l  /root'' = [''-l'', ''/root'']" by code_simp
  then have a: "app_argv ''ls.elf'' (Some ''-l  /root'') = Some [''ls.elf'', ''-l'', ''/root'']"
    by (simp add: app_argv_words w)
  have "rc = 0"
  proof -
    have "unat (align_up_reg 36 16) = unat (48 :: u32)" by (subst align_up_16) simp_all
    then have "align_up_reg 36 16 = 48" by (simp only: word_unat_eq_iff)
    then show ?thesis using r unfolding app_prepare_argv_stack_def a
      by (simp add: os_layout_def strlen_def Let_def split: prod.splits)
  qed
  then show "\<exists>mem' sp'. app_prepare_argv_stack os_layout ''ls.elf'' (Some ''-l  /root'') mem 0xBFFFFFF0 = (0, mem', sp') \<and>
     has_argv mem' sp' [''ls.elf'', ''-l'', ''/root'']"
    using argv_on_stack [OF r _ refl] r by (simp add: w)
qed

end
