(* ===== verification/Terminal.thy ===== *)
theory Terminal
  imports CString "HOL-Library.Signed_Division"
begin

text \<open>
  A terminal window (\<open>vibeos/user_terminal.c\<close>): its rows of text and their scrolling, the output
  of programs, the line that is edited, the history, the queue of keys and the dispatch of a key.

  A row and the other texts of the window are strings; the edited line is the character buffer
  of the code with its length and cursor. What the dispatch calls outside this file (the command
  interpreter, tab completion, the windows of other kinds, the job control of the JIT, the ssh
  client) is a parameter, the record \<open>ext\<close>. Redrawing and waking the worker task are not part
  of the state.
\<close>

section \<open>State\<close>

abbreviation (input) ROWS :: nat where "ROWS \<equiv> 64"
abbreviation (input) COLS :: nat where "COLS \<equiv> 100"
abbreviation (input) MAX_HIST :: nat where "MAX_HIST \<equiv> 512"
abbreviation (input) INPUT_MAILBOX_SIZE :: nat where "INPUT_MAILBOX_SIZE \<equiv> 256"
abbreviation (input) WIDTH :: int where "WIDTH \<equiv> 512"
abbreviation (input) DESKTOP_H :: int where "DESKTOP_H \<equiv> 270"
abbreviation (input) PROMPT_LEN :: nat where "PROMPT_LEN \<equiv> 12"
abbreviation (input) KIND_TERMINAL :: int where "KIND_TERMINAL \<equiv> 0"
abbreviation (input) KIND_EDITOR :: int where "KIND_EDITOR \<equiv> 4"
abbreviation (input) KIND_IMAGE :: int where "KIND_IMAGE \<equiv> 1"

definition PROMPT :: string where "PROMPT = ''matrix:~$ > ''"

record cell_pos =
  sel_row :: int
  sel_col :: int

record twin =
  t_kind :: int
  t_active :: bool
  t_maximized :: bool
  t_x :: int
  t_y :: int
  t_w :: int
  t_h :: int
  term_font_scale :: int
  tlines :: "nat \<Rightarrow> string"
  total_rows :: nat
  cur_col :: nat
  v_offset :: nat
  cmd_buf :: "nat \<Rightarrow> char"
  edit_len :: nat
  cursor_pos :: nat
  saved_cmd :: string
  has_saved_cmd :: bool
  history :: "nat \<Rightarrow> string"
  hist_count :: nat
  hist_idx :: int
  input_q :: ring
  mailbox :: bool
  executing_cmd :: bool
  cancel_requested :: bool
  waiting_wget :: bool
  submit_locked :: bool
  shell_status :: string
  ssh_auth_mode :: nat
  ssh_auth_buf :: string
  app_stdout :: string
  out_buf :: string
  selecting :: bool
  has_selection :: bool
  sel_start :: cell_pos
  sel_end :: cell_pos
  app_is_running :: bool

section \<open>Geometry\<close>

definition terminal_font_scale :: "twin \<Rightarrow> int" where
  "terminal_font_scale w =
     (if term_font_scale w < 1 then 1 else if term_font_scale w > 3 then 3 else term_font_scale w)"

definition terminal_char_w :: "twin \<Rightarrow> int" where
  "terminal_char_w w = 8 * terminal_font_scale w"

definition terminal_char_h :: "twin \<Rightarrow> int" where
  "terminal_char_h w = 16 * terminal_font_scale w"

definition terminal_line_h :: "twin \<Rightarrow> int" where
  "terminal_line_h w = terminal_char_h w + 2"

definition terminal_visible_rows :: "twin \<Rightarrow> nat" where
  "terminal_visible_rows w =
     (let wh = (if t_maximized w then DESKTOP_H else t_h w); rv = (wh - 50) sdiv terminal_line_h w
      in if rv < 1 then 1 else nat rv)"

definition terminal_visible_cols :: "twin \<Rightarrow> nat" where
  "terminal_visible_cols w =
     (let ww = (if t_maximized w then WIDTH else t_w w);
          usable_w = ww - 20 - (if total_rows w > terminal_visible_rows w then 12 else 0);
          cols = usable_w sdiv terminal_char_w w
      in if cols < 1 then 1 else if cols > int COLS - 1 then COLS - 1 else nat cols)"

definition terminal_scroll_max :: "twin \<Rightarrow> nat" where
  "terminal_scroll_max w = total_rows w - terminal_visible_rows w"

definition terminal_clamp_v_offset :: "twin \<Rightarrow> twin" where
  "terminal_clamp_v_offset w =
     (if v_offset w > terminal_scroll_max w then w\<lparr>v_offset := terminal_scroll_max w\<rparr> else w)"

definition terminal_is_at_bottom :: "twin \<Rightarrow> bool" where
  "terminal_is_at_bottom w \<longleftrightarrow> v_offset w \<ge> terminal_scroll_max w"

definition terminal_scroll_to_bottom :: "twin \<Rightarrow> twin" where
  "terminal_scroll_to_bottom w =
     (if t_kind w \<noteq> KIND_TERMINAL then w else w\<lparr>v_offset := terminal_scroll_max w\<rparr>)"

definition resize_terminal_font :: "twin \<Rightarrow> int \<Rightarrow> twin" where
  "resize_terminal_font w new_scale =
     (let new_scale = (if new_scale < 1 then 1 else new_scale);
          new_scale = (if new_scale > 3 then 3 else new_scale)
      in if t_kind w \<noteq> KIND_TERMINAL then w
         else if new_scale = term_font_scale w then w
         else terminal_clamp_v_offset (w\<lparr>term_font_scale := new_scale\<rparr>))"

section \<open>Rows\<close>

text \<open>Making room: all rows move up by one.\<close>

definition shift_rows :: "twin \<Rightarrow> twin" where
  "shift_rows w = w\<lparr>tlines := (\<lambda>i. if i < ROWS - 1 then tlines w (i + 1) else tlines w i), total_rows := ROWS - 1\<rparr>"

definition make_room :: "twin \<Rightarrow> twin" where
  "make_room w =
     (if total_rows w \<ge> ROWS
      then let w = shift_rows w in if v_offset w > 0 then w\<lparr>v_offset := v_offset w - 1\<rparr> else w
      else w)"

definition put_row :: "twin \<Rightarrow> string \<Rightarrow> twin" where
  "put_row w s = w\<lparr>tlines := (tlines w)(total_rows w := s), total_rows := total_rows w + 1\<rparr>"

definition append_row :: "twin \<Rightarrow> string \<Rightarrow> twin" where
  "append_row w s =
     (let w = put_row (make_room w) s; rv = terminal_visible_rows w
      in if total_rows w > rv then w\<lparr>v_offset := total_rows w - rv\<rparr> else w)"

fun append_loop :: "twin \<Rightarrow> string \<Rightarrow> string \<Rightarrow> twin" where
  "append_loop w line_buf [] = (if line_buf \<noteq> [] then append_row w line_buf else w)"
| "append_loop w line_buf (c # p) =
     (if c = CHR 0x0A then append_loop (append_row w line_buf) [] p
      else append_loop w (if length line_buf < COLS - 1 then line_buf @ [c] else line_buf) p)"

definition append_terminal_line :: "twin \<Rightarrow> string \<Rightarrow> twin" where
  "append_terminal_line w text = (if t_kind w \<noteq> KIND_TERMINAL then w else append_loop w [] text)"

definition terminal_append_prompt :: "twin \<Rightarrow> twin" where
  "terminal_append_prompt w =
     (let w = make_room w in
      if total_rows w < ROWS then (put_row w PROMPT)\<lparr>cur_col := PROMPT_LEN\<rparr> else w)"

section \<open>Output of programs\<close>

definition terminal_app_stdout_flush :: "twin \<Rightarrow> twin" where
  "terminal_app_stdout_flush w =
     (if t_kind w \<noteq> KIND_TERMINAL then w
      else if app_stdout w = [] then w
      else (append_terminal_line w (app_stdout w))\<lparr>app_stdout := []\<rparr>)"

definition terminal_app_stdout_putc :: "twin \<Rightarrow> char \<Rightarrow> twin" where
  "terminal_app_stdout_putc w ch =
     (if \<not> t_active w \<or> t_kind w \<noteq> KIND_TERMINAL then w
      else if ch = CHR 0x0D then w
      else if ch = CHR 0x0A then terminal_app_stdout_flush w
      else let w = (if length (app_stdout w) \<ge> 2048 - 1 then terminal_app_stdout_flush w else w)
           in if length (app_stdout w) < 2048 - 1 then w\<lparr>app_stdout := app_stdout w @ [ch]\<rparr> else w)"

definition terminal_app_stdout_puts :: "twin \<Rightarrow> string \<Rightarrow> twin" where
  "terminal_app_stdout_puts w s = terminal_app_stdout_flush (foldl terminal_app_stdout_putc w s)"

section \<open>The key queue\<close>

definition window_input_empty :: "twin \<Rightarrow> bool" where
  "window_input_empty w \<longleftrightarrow> ring_head (input_q w) = ring_tail (input_q w)"

definition window_input_push :: "twin \<Rightarrow> char \<Rightarrow> twin" where
  "window_input_push w key =
     (let r = input_q w; nxt = (ring_tail r + 1) mod INPUT_MAILBOX_SIZE;
          r = (if nxt = ring_head r then r\<lparr>ring_head := (ring_head r + 1) mod INPUT_MAILBOX_SIZE\<rparr> else r)
      in w\<lparr>input_q := r\<lparr>ring_slots := (ring_slots r)(ring_tail r := key), ring_tail := nxt\<rparr>\<rparr>)"

definition window_input_pop :: "twin \<Rightarrow> (char \<times> twin) option" where
  "window_input_pop w =
     (if window_input_empty w then None
      else let r = input_q w
           in Some (ring_slots r (ring_head r),
                    w\<lparr>input_q := r\<lparr>ring_head := (ring_head r + 1) mod INPUT_MAILBOX_SIZE\<rparr>\<rparr>))"

definition clear_window_input_queue :: "twin \<Rightarrow> twin" where
  "clear_window_input_queue w =
     w\<lparr>input_q := (input_q w)\<lparr>ring_head := ring_tail (input_q w)\<rparr>, mailbox := False\<rparr>"

section \<open>The edited line\<close>

text \<open>The C string in a buffer of \<open>COLS\<close> characters, and copying one into it.\<close>

definition buf_text :: "(nat \<Rightarrow> char) \<Rightarrow> string" where
  "buf_text b = takeWhile (\<lambda>c. c \<noteq> NUL) (map b [0 ..< COLS])"

definition put_text :: "(nat \<Rightarrow> char) \<Rightarrow> string \<Rightarrow> nat \<Rightarrow> char" where
  "put_text b s = (\<lambda>i. if i < length s then s ! i else if i = length s then NUL else b i)"

definition redraw_prompt_line :: "twin \<Rightarrow> nat \<Rightarrow> twin" where
  "redraw_prompt_line w row =
     (if row \<ge> ROWS then w
      else w\<lparr>tlines := (tlines w)(row := PROMPT @ buf_text (cmd_buf w)), cur_col := PROMPT_LEN + cursor_pos w\<rparr>)"

definition load_edit_buffer :: "twin \<Rightarrow> string \<Rightarrow> twin" where
  "load_edit_buffer w src =
     (let s = take (COLS - PROMPT_LEN - 1) src
      in w\<lparr>cmd_buf := put_text (cmd_buf w) s, edit_len := length s, cursor_pos := length s\<rparr>)"

definition clear_prompt_input :: "twin \<Rightarrow> twin" where
  "clear_prompt_input w =
     w\<lparr>cmd_buf := (cmd_buf w)(0 := NUL), edit_len := 0, cursor_pos := 0, has_saved_cmd := False\<rparr>"

definition set_shell_status :: "twin \<Rightarrow> string \<Rightarrow> twin" where
  "set_shell_status w msg = w\<lparr>shell_status := msg\<rparr>"

text \<open>The loops that close and open a gap: \<open>b[i] = b[i + 1]\<close> upwards, \<open>b[i + 1] = b[i]\<close> downwards.\<close>

definition close_gap :: "(nat \<Rightarrow> char) \<Rightarrow> nat \<Rightarrow> nat \<Rightarrow> nat \<Rightarrow> char" where
  "close_gap b i n = foldl (\<lambda>b i. b(i := b (i + 1))) b [i ..< n]"

definition open_gap :: "(nat \<Rightarrow> char) \<Rightarrow> nat \<Rightarrow> nat \<Rightarrow> nat \<Rightarrow> char" where
  "open_gap b i n = foldl (\<lambda>b i. b(i + 1 := b i)) b (rev [i ..< n + 1])"

definition key_delete :: "twin \<Rightarrow> nat \<Rightarrow> twin" where
  "key_delete w r =
     (if cursor_pos w < edit_len w
      then redraw_prompt_line (w\<lparr>cmd_buf := close_gap (cmd_buf w) (cursor_pos w) (edit_len w), edit_len := edit_len w - 1\<rparr>) r
      else w)"

definition key_backspace :: "twin \<Rightarrow> nat \<Rightarrow> twin" where
  "key_backspace w r =
     (if cursor_pos w > 0 \<and> edit_len w > 0
      then redraw_prompt_line (w\<lparr>cmd_buf := close_gap (cmd_buf w) (cursor_pos w - 1) (edit_len w),
             edit_len := edit_len w - 1, cursor_pos := cursor_pos w - 1\<rparr>) r
      else w)"

definition key_insert :: "twin \<Rightarrow> nat \<Rightarrow> char \<Rightarrow> twin" where
  "key_insert w r key =
     (if edit_len w < COLS - PROMPT_LEN - 1
      then redraw_prompt_line (w\<lparr>cmd_buf := (open_gap (cmd_buf w) (cursor_pos w) (edit_len w))(cursor_pos w := key),
             edit_len := edit_len w + 1, cursor_pos := cursor_pos w + 1\<rparr>) r
      else w)"

definition key_left :: "twin \<Rightarrow> nat \<Rightarrow> twin" where
  "key_left w r = (if cursor_pos w > 0 then redraw_prompt_line (w\<lparr>cursor_pos := cursor_pos w - 1\<rparr>) r else w)"

definition key_right :: "twin \<Rightarrow> nat \<Rightarrow> twin" where
  "key_right w r = (if cursor_pos w < edit_len w then redraw_prompt_line (w\<lparr>cursor_pos := cursor_pos w + 1\<rparr>) r else w)"

definition key_home :: "twin \<Rightarrow> nat \<Rightarrow> twin" where
  "key_home w r = (if cursor_pos w \<noteq> 0 then redraw_prompt_line (w\<lparr>cursor_pos := 0\<rparr>) r else w)"

definition key_end :: "twin \<Rightarrow> nat \<Rightarrow> twin" where
  "key_end w r = (if cursor_pos w \<noteq> edit_len w then redraw_prompt_line (w\<lparr>cursor_pos := edit_len w\<rparr>) r else w)"

section \<open>History\<close>

definition terminal_history_set :: "twin \<Rightarrow> int \<Rightarrow> string \<Rightarrow> twin" where
  "terminal_history_set w idx s =
     (if idx < 0 \<or> idx \<ge> int MAX_HIST then w
      else w\<lparr>history := (history w)(nat idx := take (COLS - 1) s)\<rparr>)"

definition seed_commands :: "string list" where
  "seed_commands =
     [''ssh probe 192.168.0.152:2221'', ''ssh set root@192.168.0.152:2221'', ''ssh auth'',
      ''ssh exec uname -a'', ''ssh diag'', ''env'', ''alias ll=ls -all'', ''alias c=clear'',
      ''source ~/.bashrc'', ''. ~/.bashrc'',
      ''sftp mount /root/trade_new/os/mini-riscv-os/08-BlockDeviceDriver/http_test'', ''ls /sftp'',
      ''cat /sftp/jit_memtest.c'', ''jit /sftp/jit_memtest.c'', ''jit shared reset'',
      ''jit bg /sftp/jit_consumer.c'', ''jit bg /sftp/jit_producer.c'', ''jit ps'', ''ssh boot init'',
      ''vim ~/.sshboot'', ''gbemu lez.gb'']"

definition seed_terminal_history :: "twin \<Rightarrow> twin" where
  "seed_terminal_history w =
     (if t_kind w \<noteq> KIND_TERMINAL \<or> hist_count w > 0 then w
      else (foldl (\<lambda>w (i, s). terminal_history_set w i s) w (zip [0 .. 20] seed_commands))\<lparr>hist_count := 21, hist_idx := -1\<rparr>)"

text \<open>Entering a command into the history: not if it is the newest one already.\<close>

definition history_enter :: "twin \<Rightarrow> string \<Rightarrow> twin" where
  "history_enter w cmd =
     (if edit_len w > 0 \<and> (hist_count w = 0 \<or> history w 0 \<noteq> cmd)
      then let w = foldl (\<lambda>w i. terminal_history_set w (int i) (history w (i - 1))) w (rev [1 ..< MAX_HIST]);
               w = terminal_history_set w 0 cmd
           in if hist_count w < MAX_HIST then w\<lparr>hist_count := hist_count w + 1\<rparr> else w
      else w)"

definition key_up :: "twin \<Rightarrow> nat \<Rightarrow> twin" where
  "key_up w r =
     (let w = w\<lparr>submit_locked := False\<rparr> in
      if hist_idx w < int (hist_count w) - 1
      then let w = (if hist_idx w = -1 then w\<lparr>saved_cmd := buf_text (cmd_buf w), has_saved_cmd := True\<rparr> else w);
               w = w\<lparr>hist_idx := hist_idx w + 1\<rparr>
           in redraw_prompt_line (load_edit_buffer w (history w (nat (hist_idx w)))) r
      else w)"

definition key_down :: "twin \<Rightarrow> nat \<Rightarrow> twin" where
  "key_down w r =
     (let w = w\<lparr>submit_locked := False\<rparr> in
      if hist_idx w > 0
      then let w = w\<lparr>hist_idx := hist_idx w - 1\<rparr>
           in redraw_prompt_line (load_edit_buffer w (history w (nat (hist_idx w)))) r
      else if hist_idx w = 0
      then let w = w\<lparr>hist_idx := -1\<rparr>;
               w = (if has_saved_cmd w then load_edit_buffer w (saved_cmd w) else load_edit_buffer w []);
               w = w\<lparr>has_saved_cmd := False\<rparr>
           in redraw_prompt_line w r
      else w)"

section \<open>Secrets for ssh\<close>

definition is_request :: "string \<Rightarrow> string \<Rightarrow> bool" where
  "is_request req cmd =
     (let cmd = dropWhile is_blank cmd in
      strncmp cmd req (length req) = 0 \<and> dropWhile is_blank (drop (length req) cmd) = [])"

definition terminal_is_ssh_auth_request :: "string \<Rightarrow> bool" where
  "terminal_is_ssh_auth_request cmd = is_request ''ssh auth'' cmd"

definition terminal_is_ssh_boot_seal_request :: "string \<Rightarrow> bool" where
  "terminal_is_ssh_boot_seal_request cmd = is_request ''ssh boot seal'' cmd"

definition terminal_refresh_ssh_auth_prompt :: "twin \<Rightarrow> twin" where
  "terminal_refresh_ssh_auth_prompt w =
     (if ssh_auth_mode w = 0 then w
      else let prefix = (if ssh_auth_mode w = 2 then ''ssh boot seal '' else ''ssh auth '');
               n = min (length (ssh_auth_buf w)) (COLS - 1 - length prefix);
               display = prefix @ replicate n (CHR ''*'');
               w = w\<lparr>cmd_buf := put_text (cmd_buf w) display, edit_len := length display, cursor_pos := length display\<rparr>
           in if total_rows w > 0 then redraw_prompt_line w (total_rows w - 1) else w)"

definition terminal_begin_ssh_secret :: "twin \<Rightarrow> nat \<Rightarrow> twin" where
  "terminal_begin_ssh_secret w mode =
     (if t_kind w \<noteq> KIND_TERMINAL then w
      else terminal_scroll_to_bottom (terminal_refresh_ssh_auth_prompt
             (clear_prompt_input (w\<lparr>ssh_auth_mode := mode, ssh_auth_buf := [], submit_locked := False\<rparr>))))"

definition terminal_begin_ssh_auth :: "twin \<Rightarrow> twin" where
  "terminal_begin_ssh_auth w = terminal_begin_ssh_secret w 1"

definition terminal_begin_ssh_boot_seal :: "twin \<Rightarrow> twin" where
  "terminal_begin_ssh_boot_seal w = terminal_begin_ssh_secret w 2"

definition terminal_cancel_ssh_auth :: "twin \<Rightarrow> twin" where
  "terminal_cancel_ssh_auth w =
     (if ssh_auth_mode w = 0 then w
      else let w = clear_prompt_input (w\<lparr>ssh_auth_mode := 0, ssh_auth_buf := [], submit_locked := False\<rparr>);
               w = (if total_rows w > 0 then redraw_prompt_line w (total_rows w - 1) else w)
           in terminal_scroll_to_bottom w)"

section \<open>Cancelling\<close>

definition terminal_unlock_after_cancel :: "twin \<Rightarrow> twin" where
  "terminal_unlock_after_cancel w =
     (if t_kind w \<noteq> KIND_TERMINAL then w
      else terminal_scroll_to_bottom (terminal_append_prompt (clear_prompt_input (clear_window_input_queue
             (w\<lparr>executing_cmd := False, waiting_wget := False, cancel_requested := False, submit_locked := False\<rparr>)))))"

definition killed_text :: "int \<Rightarrow> string" where
  "killed_text killed = ''JIT: killed '' @ lib_itoa (of_int killed) @ '' job(s).''"

definition terminal_finish_ctrl_c_cancel :: "twin \<Rightarrow> int \<Rightarrow> twin" where
  "terminal_finish_ctrl_c_cancel w killed =
     (if t_kind w \<noteq> KIND_TERMINAL then w
      else terminal_unlock_after_cancel (if killed > 0 then append_terminal_line w (killed_text killed) else w))"

section \<open>Selection\<close>

definition line_text_len :: "string \<Rightarrow> nat" where
  "line_text_len s = min (COLS - 1) (length s)"

definition terminal_clear_selection :: "twin \<Rightarrow> twin" where
  "terminal_clear_selection w =
     w\<lparr>selecting := False, has_selection := False, sel_start := \<lparr>sel_row = 0, sel_col = 0\<rparr>, sel_end := \<lparr>sel_row = 0, sel_col = 0\<rparr>\<rparr>"

definition terminal_selection_normalized :: "twin \<Rightarrow> cell_pos \<times> cell_pos" where
  "terminal_selection_normalized w =
     (let s = sel_start w; e = sel_end w in
      if sel_row s > sel_row e \<or> (sel_row s = sel_row e \<and> sel_col s > sel_col e) then (e, s) else (s, e))"

definition terminal_has_nonempty_selection :: "twin \<Rightarrow> bool" where
  "terminal_has_nonempty_selection w \<longleftrightarrow> has_selection w \<and>
     (let (s, e) = terminal_selection_normalized w in sel_row s \<noteq> sel_row e \<or> sel_col s \<noteq> sel_col e)"

definition clip_int :: "int \<Rightarrow> int \<Rightarrow> int \<Rightarrow> int" where
  "clip_int lo hi v = (let v = (if v < lo then lo else v) in if v > hi then hi else v)"

text \<open>The part of a row that is selected; rows of the selection are rows of the window.\<close>

definition selected_part :: "twin \<Rightarrow> cell_pos \<Rightarrow> cell_pos \<Rightarrow> int \<Rightarrow> string" where
  "selected_part w s e r =
     (let row = tlines w (nat r); len = int (line_text_len row);
          c0 = clip_int 0 len (if r = sel_row s then sel_col s else 0);
          c1 = clip_int c0 len (if r = sel_row e then sel_col e else len)
      in take (nat (c1 - c0)) (drop (nat c0) row))"

text \<open>\<open>copy_rows\<close>: the clipboard text so far, and the rows that are left.\<close>

fun copy_rows :: "twin \<Rightarrow> cell_pos \<Rightarrow> cell_pos \<Rightarrow> int list \<Rightarrow> string \<Rightarrow> string" where
  "copy_rows w s e [] clip = clip"
| "copy_rows w s e (r # rs) clip =
     (if length clip < 2048 - 1 then
        let clip = clip @ take (2048 - 1 - length clip) (selected_part w s e r);
            clip = (if r \<noteq> sel_row e \<and> length clip < 2048 - 1 then clip @ [CHR 0x0A] else clip)
        in copy_rows w s e rs clip
      else clip)"

definition terminal_copy_selection :: "twin \<Rightarrow> string \<Rightarrow> string" where
  "terminal_copy_selection w clipboard =
     (if \<not> terminal_has_nonempty_selection w then clipboard
      else let (s, e) = terminal_selection_normalized w in copy_rows w s e [sel_row s .. sel_row e] [])"

definition clipboard_set :: "string \<Rightarrow> string" where
  "clipboard_set text = take (2048 - 1) text"

definition terminal_paste_clipboard :: "twin \<Rightarrow> string \<Rightarrow> twin" where
  "terminal_paste_clipboard w clipboard =
     (if clipboard = [] \<or> (t_kind w \<noteq> KIND_TERMINAL \<and> t_kind w \<noteq> KIND_EDITOR) then w
      else (foldl window_input_push w clipboard)\<lparr>mailbox := True\<rparr>)"

definition terminal_mouse_to_cell :: "twin \<Rightarrow> int \<Rightarrow> int \<Rightarrow> (int \<times> int) option" where
  "terminal_mouse_to_cell w mx my =
     (if t_kind w \<noteq> KIND_TERMINAL then None
      else let x = (if t_maximized w then 0 else t_x w); y = (if t_maximized w then 0 else t_y w);
               ww = (if t_maximized w then WIDTH else t_w w); wh = (if t_maximized w then DESKTOP_H else t_h w);
               left = x + 10; upper = y + 40; inner_h = wh - 50
           in if mx < left \<or> mx \<ge> x + ww - 15 \<or> my < upper \<or> my \<ge> upper + inner_h then None
              else let r = (my - upper) sdiv terminal_line_h w; c = (mx - left) sdiv terminal_char_w w;
                       r = (if r < 0 then 0 else r);
                       r = (if r \<ge> int (terminal_visible_rows w) then int (terminal_visible_rows w) - 1 else r);
                       c = (if c < 0 then 0 else c);
                       c = (if c > int (terminal_visible_cols w) then int (terminal_visible_cols w) else c);
                       r = r + int (v_offset w);
                       r = (if r < 0 then 0 else r);
                       r = (if r \<ge> int (total_rows w) then int (total_rows w) - 1 else r)
                   in Some (r, c))"

section \<open>Running a command and dispatching a key\<close>

record ext =
  exec_single_cmd :: "twin \<Rightarrow> string \<Rightarrow> twin"
  try_tab_complete :: "twin \<Rightarrow> nat \<Rightarrow> twin"
  other_window_key :: "twin \<Rightarrow> char \<Rightarrow> twin"
  submit_ssh_auth :: "twin \<Rightarrow> twin"
  jit_owner_active :: "twin \<Rightarrow> bool"
  jit_cancel_by_owner :: "twin \<Rightarrow> int \<times> twin"

text \<open>The output of a command, cut into rows of at most \<open>max_c\<close> characters.\<close>

function show_output :: "twin \<Rightarrow> nat \<Rightarrow> string \<Rightarrow> twin" where
  "show_output w max_c res =
     (if res = [] \<or> max_c = 0 then w
      else let t = length (takeWhile (\<lambda>c. c \<noteq> CHR 0x0A) (take max_c res));
               w = make_room w;
               w = (if total_rows w < ROWS then put_row w (take t res) else w);
               rest = drop t res
           in show_output w max_c (if rest \<noteq> [] \<and> hd rest = CHR 0x0A then drop 1 rest else rest))"
  by pat_completeness auto
termination
proof (relation "measure (\<lambda>(w, max_c, res). length res)", simp, goal_cases)
  case (1 w max_c res t w1 w2 rest)
  then show ?case by (cases res; cases max_c) auto
qed

declare show_output.simps [simp del]

definition run_command :: "ext \<Rightarrow> twin \<Rightarrow> twin" where
  "run_command x w =
     (let full_cmd = buf_text (cmd_buf w);
          w = w\<lparr>shell_status := []\<rparr>;
          w = (if total_rows w \<ge> ROWS then shift_rows w else w);
          w = w\<lparr>executing_cmd := True\<rparr>
      in if terminal_is_ssh_auth_request full_cmd
         then terminal_begin_ssh_auth (w\<lparr>executing_cmd := False, submit_locked := False\<rparr>)
         else if terminal_is_ssh_boot_seal_request full_cmd
         then terminal_begin_ssh_boot_seal (w\<lparr>executing_cmd := False, submit_locked := False\<rparr>)
         else let w = history_enter w full_cmd in
           if strncmp full_cmd ''clear'' 5 = 0
           then w\<lparr>total_rows := 1, v_offset := 0, tlines := (tlines w)(0 := PROMPT), cur_col := PROMPT_LEN,
                  executing_cmd := False, submit_locked := False\<rparr>
           else if cancel_requested w
           then terminal_unlock_after_cancel (append_terminal_line w ''Command cancelled.'')
           else let w = exec_single_cmd x w full_cmd;
                    w = terminal_scroll_to_bottom (show_output w (terminal_visible_cols w) (out_buf w))
                in if \<not> app_is_running w
                   then w\<lparr>executing_cmd := False, submit_locked := False, cancel_requested := False\<rparr> else w)"

text \<open>A key while a secret is typed.\<close>

definition secret_key :: "ext \<Rightarrow> twin \<Rightarrow> char \<Rightarrow> twin" where
  "secret_key x w key =
     (let k = (of_char key :: nat) in
      if k = 3 \<or> k = 27 then terminal_cancel_ssh_auth w
      else if k = 10 \<or> k = 13 then submit_ssh_auth x w
      else if k = 8 \<or> k = 127 then
        (if ssh_auth_buf w \<noteq> [] then terminal_refresh_ssh_auth_prompt (w\<lparr>ssh_auth_buf := butlast (ssh_auth_buf w)\<rparr>) else w)
      else if k \<ge> 32 \<and> k < 127 then
        (if length (ssh_auth_buf w) < 64 - 1
         then terminal_refresh_ssh_auth_prompt (w\<lparr>ssh_auth_buf := ssh_auth_buf w @ [key]\<rparr>) else w)
      else w)"

definition key_ctrl_c :: "ext \<Rightarrow> twin \<Rightarrow> twin" where
  "key_ctrl_c x w =
     (if submit_locked w \<or> executing_cmd w \<or> waiting_wget w \<or> jit_owner_active x w
      then case jit_cancel_by_owner x (w\<lparr>cancel_requested := True\<rparr>) of
             (killed, w) \<Rightarrow> if killed > 0 then terminal_unlock_after_cancel (append_terminal_line w (killed_text killed)) else w
      else let w = clear_prompt_input (clear_window_input_queue (w\<lparr>submit_locked := False, cancel_requested := False\<rparr>))
           in redraw_prompt_line w (if total_rows w > 0 then total_rows w - 1 else 0))"

definition after_enter :: "bool \<Rightarrow> twin \<Rightarrow> twin" where
  "after_enter is_clear w =
     (if waiting_wget w then w
      else let w = clear_prompt_input w;
               w = (if \<not> is_clear \<and> \<not> app_is_running w
                    then let w = make_room w
                         in if total_rows w < ROWS then (put_row w PROMPT)\<lparr>cur_col := PROMPT_LEN\<rparr> else w
                    else if is_clear then redraw_prompt_line w 0 else w)
           in terminal_scroll_to_bottom w)"

definition key_enter :: "ext \<Rightarrow> twin \<Rightarrow> twin" where
  "key_enter x w =
     (if waiting_wget w \<or> submit_locked w then w
      else let cmd = buf_text (cmd_buf w); is_clear = (strncmp cmd ''clear'' 5 = 0); had_input = (edit_len w > 0)
           in if had_input \<and> terminal_is_ssh_auth_request cmd then terminal_begin_ssh_auth w
              else if had_input \<and> terminal_is_ssh_boot_seal_request cmd then terminal_begin_ssh_boot_seal w
              else after_enter is_clear (if had_input then run_command x (w\<lparr>submit_locked := True\<rparr>) else w))"

text \<open>A key that edits the line in row \<open>r\<close>.\<close>

definition edit_key :: "ext \<Rightarrow> twin \<Rightarrow> nat \<Rightarrow> nat \<Rightarrow> char \<Rightarrow> twin" where
  "edit_key x w r k key =
     (if k = 0x10 then key_up w r
      else if k = 0x11 then key_down w r
      else if k = 0x12 then key_left w r
      else if k = 0x13 then key_right w r
      else if k = 0x15 then key_home w r
      else if k = 0x16 then key_end w r
      else if k = 0x14 then key_delete w r
      else if k = 8 then key_backspace w r
      else if k = 9 then try_tab_complete x w r
      else if k \<ge> 32 then key_insert w r key
      else w)"

text \<open>A printable key unlocks the submission and clears the status line before it is inserted.\<close>

definition unlocked :: "twin \<Rightarrow> nat \<Rightarrow> twin" where
  "unlocked w k =
     (if k \<ge> 32
      then let w = w\<lparr>submit_locked := False\<rparr>
           in if shell_status w \<noteq> []
              then let w = w\<lparr>shell_status := []\<rparr>
                   in if total_rows w > 0 then redraw_prompt_line w (total_rows w - 1) else w
              else w
      else w)"

definition line_key :: "ext \<Rightarrow> twin \<Rightarrow> nat \<Rightarrow> char \<Rightarrow> twin" where
  "line_key x w k key =
     (if executing_cmd w then w
      else let r = (if total_rows w > 0 then total_rows w - 1 else 0); r = (if r \<ge> ROWS then ROWS - 1 else r)
           in if k = 10 then key_enter x w
              else if waiting_wget w then w
              else edit_key x w r k key)"

definition terminal_key :: "ext \<Rightarrow> twin \<Rightarrow> char \<Rightarrow> twin" where
  "terminal_key x w key =
     (let k = (of_char key :: nat) in
      if k = 3 then key_ctrl_c x w
      else
        let stale = executing_cmd w \<and> \<not> app_is_running w;
            w = (if stale then w\<lparr>executing_cmd := False, cancel_requested := False\<rparr> else w)
        in if stale \<and> k = 10 then w else line_key x (unlocked w k) k key)"

definition handle_window_mailbox :: "ext \<Rightarrow> twin \<Rightarrow> twin" where
  "handle_window_mailbox x w =
     (case window_input_pop w of
        None \<Rightarrow> w\<lparr>mailbox := False\<rparr>
      | Some (key, w) \<Rightarrow>
        let w = (if edit_len w \<ge> COLS then w\<lparr>edit_len := 0, cursor_pos := 0, cmd_buf := (cmd_buf w)(0 := NUL)\<rparr> else w)
        in if t_kind w = KIND_EDITOR \<or> t_kind w = KIND_IMAGE then other_window_key x w key
           else if t_kind w = KIND_TERMINAL \<and> ssh_auth_mode w \<noteq> 0 then secret_key x w key
           else terminal_key x w key)"

text \<open>Control-C from the keyboard driver, for the active window (if there is one).\<close>

definition broadcast_ctrl_c :: "ext \<Rightarrow> int \<Rightarrow> twin list \<Rightarrow> twin list" where
  "broadcast_ctrl_c x active_win_idx wins =
     (if active_win_idx < 0 \<or> active_win_idx \<ge> int (length wins) then wins
      else let w = wins ! nat active_win_idx in
        if \<not> t_active w \<or> t_kind w \<noteq> KIND_TERMINAL then wins
        else if submit_locked w \<or> executing_cmd w \<or> waiting_wget w \<or> jit_owner_active x w
        then case jit_cancel_by_owner x (w\<lparr>cancel_requested := True\<rparr>) of
               (killed, w) \<Rightarrow> wins[nat active_win_idx := if killed > 0 then terminal_finish_ctrl_c_cancel w killed else w]
        else wins)"

text \<open>The worker task visits a window: it handles one key after the other until the queue is empty.\<close>

partial_function (option) drain_keys :: "ext \<Rightarrow> twin \<Rightarrow> twin option" where
  "drain_keys x w =
     (let w = handle_window_mailbox x w in if window_input_empty w then Some w else drain_keys x w)"

definition worker_visit :: "ext \<Rightarrow> twin \<Rightarrow> twin option" where
  "worker_visit x w = (if \<not> t_active w \<or> window_input_empty w then Some w else drain_keys x w)"

text \<open>A terminal with its first prompt.\<close>

definition fresh_terminal :: twin where
  "fresh_terminal = \<lparr>t_kind = 0, t_active = True, t_maximized = False, t_x = 10, t_y = 10, t_w = 400, t_h = 200,
     term_font_scale = 1, tlines = (\<lambda>i. if i = 0 then PROMPT else []), total_rows = 1, cur_col = 12, v_offset = 0,
     cmd_buf = (\<lambda>_. NUL), edit_len = 0, cursor_pos = 0, saved_cmd = [], has_saved_cmd = False, history = (\<lambda>_. []),
     hist_count = 0, hist_idx = -1, input_q = \<lparr>ring_head = 0, ring_tail = 0, ring_slots = (\<lambda>_. NUL)\<rparr>, mailbox = False,
     executing_cmd = False, cancel_requested = False, waiting_wget = False, submit_locked = False, shell_status = [],
     ssh_auth_mode = 0, ssh_auth_buf = [], app_stdout = [], out_buf = [], selecting = False, has_selection = False,
     sel_start = \<lparr>sel_row = 0, sel_col = 0\<rparr>, sel_end = \<lparr>sel_row = 0, sel_col = 0\<rparr>, app_is_running = False\<rparr>"

end
