(* ===== verification/TermLine.thy ===== *)
theory TermLine
  imports Terminal
begin

text \<open>
  The line editor of a terminal: the key queue, the edited line as an abstract text with a cursor,
  and the history.
\<close>

section \<open>The key queue keeps the newest keys\<close>

lemma input_push_ring: "window_input_push w c = w\<lparr>input_q := ring_push 256 (input_q w) c\<rparr>"
  by (simp add: window_input_push_def ring_push_def Let_def)

lemma input_pop_ring:
  "window_input_pop w = map_option (\<lambda>(c, r). (c, w\<lparr>input_q := r\<rparr>)) (ring_pop 256 (input_q w))"
  by (simp add: window_input_pop_def ring_pop_def window_input_empty_def Let_def)

definition keys_of :: "twin \<Rightarrow> string" where
  "keys_of w = ring_queue 256 (input_q w)"

definition keys_wf :: "twin \<Rightarrow> bool" where
  "keys_wf w \<longleftrightarrow> ring_wf 256 (input_q w)"

interpretation keys: drop_oldest_queue window_input_push window_input_pop keys_of keys_wf 255
proof
  fix w :: twin and c :: char
  assume "keys_wf w"
  then show "keys_wf (window_input_push w c) \<and> keys_of (window_input_push w c) = newest 255 (keys_of w @ [c])"
    using ring_push_queue [of 256 "input_q w" c] by (simp add: keys_wf_def keys_of_def input_push_ring)
next
  fix w :: twin assume "keys_wf w"
  then show "window_input_pop w = None \<longleftrightarrow> keys_of w = []"
    using ring_pop_queue [of 256 "input_q w"]
    by (auto simp: keys_wf_def keys_of_def input_pop_ring split: option.splits)
next
  fix w w' :: twin and c :: char
  assume "keys_wf w" "window_input_pop w = Some (c, w')"
  then show "keys_wf w' \<and> keys_of w = c # keys_of w'"
    using ring_pop_queue [of 256 "input_q w"]
    by (auto simp: keys_wf_def keys_of_def input_pop_ring split: option.splits)
next
  fix w :: twin assume "keys_wf w"
  then show "length (keys_of w) \<le> 255"
    using ring_queue_cap [of 256 "input_q w"] by (simp add: keys_wf_def keys_of_def)
qed

section \<open>The edited line is a text with a cursor\<close>

text \<open>The text before and behind the cursor.\<close>

definition edited :: "twin \<Rightarrow> string \<times> string" where
  "edited w = (map (cmd_buf w) [0 ..< cursor_pos w], map (cmd_buf w) [cursor_pos w ..< edit_len w])"

definition edit_ok :: "twin \<Rightarrow> bool" where
  "edit_ok w \<longleftrightarrow> edit_len w \<le> 87 \<and> cursor_pos w \<le> edit_len w \<and> cmd_buf w (edit_len w) = NUL \<and>
     (\<forall>i < edit_len w. cmd_buf w i \<noteq> NUL)"

fun edit :: "char \<Rightarrow> string \<times> string \<Rightarrow> string \<times> string" where
  "edit key (l, r) =
     (let k = (of_char key :: nat) in
      if k = 0x12 then (if l = [] then (l, r) else (butlast l, last l # r))
      else if k = 0x13 then (if r = [] then (l, r) else (l @ [hd r], drop 1 r))
      else if k = 0x15 then ([], l @ r)
      else if k = 0x16 then (l @ r, [])
      else if k = 0x14 then (l, drop 1 r)
      else if k = 8 then (butlast l, r)
      else if k \<ge> 32 \<and> length l + length r < 87 then (l @ [key], r)
      else (l, r))"

lemma buf_textI:
  assumes "n < 100" "b n = NUL" "\<And>i. i < n \<Longrightarrow> b i \<noteq> NUL"
  shows "buf_text b = map b [0 ..< n]"
proof -
  have "[0 ..< 100] = [0 ..< n] @ n # [Suc n ..< 100]"
    using assms(1) by (metis upt_conv_Cons upt_add_eq_append zero_le less_imp_add_positive)
  moreover have "takeWhile (\<lambda>c. c \<noteq> NUL) (map b [0 ..< n] @ NUL # map b [Suc n ..< 100]) = map b [0 ..< n]"
    by (subst takeWhile_append2) (use assms(3) in auto)
  ultimately show ?thesis unfolding buf_text_def using assms(2) by (simp del: upt_Suc)
qed

lemma edit_text: "edit_ok w \<Longrightarrow> buf_text (cmd_buf w) = fst (edited w) @ snd (edited w)"
proof -
  assume e: "edit_ok w"
  then have "buf_text (cmd_buf w) = map (cmd_buf w) [0 ..< edit_len w]"
    by (intro buf_textI) (auto simp: edit_ok_def)
  moreover have "[0 ..< edit_len w] = [0 ..< cursor_pos w] @ [cursor_pos w ..< edit_len w]"
    using e upt_add_eq_append [of 0 "cursor_pos w" "edit_len w - cursor_pos w"] by (simp add: edit_ok_def)
  ultimately show ?thesis by (simp add: edited_def)
qed

lemma close_gap_eq: "i \<le> n \<Longrightarrow> close_gap b i n = (\<lambda>j. if i \<le> j \<and> j < n then b (j + 1) else b j)"
proof (induction n)
  case (Suc n)
  show ?case
  proof (cases "i = Suc n")
    case False
    then have "close_gap b i (Suc n) = (close_gap b i n)(n := close_gap b i n (n + 1))"
      using Suc.prems by (simp add: close_gap_def)
    then show ?thesis using Suc False by (auto simp: fun_eq_iff less_Suc_eq)
  qed (auto simp: close_gap_def fun_eq_iff)
qed (auto simp: close_gap_def fun_eq_iff)

lemma open_gap_eq: "i \<le> n + 1 \<Longrightarrow> open_gap b i n = (\<lambda>j. if i < j \<and> j \<le> n + 1 then b (j - 1) else b j)"
proof -
  have "foldl (\<lambda>b i. b(i + 1 := b i)) b (rev [i ..< m]) = (\<lambda>j. if i < j \<and> j \<le> m then b (j - 1) else b j)"
    if "i \<le> m" for m b
    using that
  proof (induction m arbitrary: b)
    case (Suc m)
    show ?case
    proof (cases "i = Suc m")
      case False
      then have "i \<le> m" using Suc.prems by simp
      then show ?thesis using Suc.IH [of "b(m + 1 := b m)"] by (auto simp: fun_eq_iff)
    qed (auto simp: fun_eq_iff)
  qed (auto simp: fun_eq_iff)
  from this [of "n + 1" b] show "i \<le> n + 1 \<Longrightarrow> open_gap b i n = (\<lambda>j. if i < j \<and> j \<le> n + 1 then b (j - 1) else b j)"
    by (simp add: open_gap_def)
qed

text \<open>The prompt row shows the text, and the window's cursor is behind the first part.\<close>

definition prompt_row :: "twin \<Rightarrow> nat" where
  "prompt_row w = min 63 (total_rows w - 1)"

definition prompt_shown :: "twin \<Rightarrow> bool" where
  "prompt_shown w \<longleftrightarrow> tlines w (prompt_row w) = PROMPT @ fst (edited w) @ snd (edited w) \<and>
     cur_col w = 12 + length (fst (edited w))"

lemma redraw_fields [simp]:
  "cmd_buf (redraw_prompt_line w r) = cmd_buf w" "edit_len (redraw_prompt_line w r) = edit_len w"
  "cursor_pos (redraw_prompt_line w r) = cursor_pos w" "total_rows (redraw_prompt_line w r) = total_rows w"
  "input_q (redraw_prompt_line w r) = input_q w" "t_kind (redraw_prompt_line w r) = t_kind w"
  "ssh_auth_mode (redraw_prompt_line w r) = ssh_auth_mode w" "executing_cmd (redraw_prompt_line w r) = executing_cmd w"
  "waiting_wget (redraw_prompt_line w r) = waiting_wget w" "hist_idx (redraw_prompt_line w r) = hist_idx w"
  "hist_count (redraw_prompt_line w r) = hist_count w" "history (redraw_prompt_line w r) = history w"
  "saved_cmd (redraw_prompt_line w r) = saved_cmd w" "has_saved_cmd (redraw_prompt_line w r) = has_saved_cmd w"
  "shell_status (redraw_prompt_line w r) = shell_status w" "app_is_running (redraw_prompt_line w r) = app_is_running w"
  by (simp_all add: redraw_prompt_line_def)

lemma redraw_edited [simp]: "edited (redraw_prompt_line w r) = edited w" "edit_ok (redraw_prompt_line w r) = edit_ok w"
  by (simp_all add: edited_def edit_ok_def)

lemma redraw_shown: "edit_ok w \<Longrightarrow> prompt_shown (redraw_prompt_line w (prompt_row w))"
proof -
  assume e: "edit_ok w"
  have "prompt_row (redraw_prompt_line w (prompt_row w)) = prompt_row w" by (simp add: prompt_row_def)
  moreover have "prompt_row w < 64" by (simp add: prompt_row_def)
  ultimately show ?thesis using edit_text [OF e]
    by (simp add: prompt_shown_def redraw_prompt_line_def edited_def)
qed

lemma map_upt_eq: "(\<And>i. i < n - m \<Longrightarrow> f (m + i) = g (m' + i)) \<Longrightarrow> n - m = n' - m' \<Longrightarrow> map f [m ..< n] = map g [m' ..< n']"
  by (rule nth_equalityI) auto

lemma map_upt_split: "c \<le> n \<Longrightarrow> map b [0 ..< c] @ map b [c ..< n] = map b [0 ..< n]"
  by (metis le_add_diff_inverse map_append upt_add_eq_append zero_le)

lemma edit_left:
  "edit_ok w \<Longrightarrow> edited (key_left w r) = (let (l, t) = edited w in if l = [] then (l, t) else (butlast l, last l # t))
    \<and> edit_ok (key_left w r)"
proof -
  assume e: "edit_ok w"
  show ?thesis
  proof (cases "cursor_pos w")
    case 0
    then show ?thesis using e by (simp add: key_left_def edited_def)
  next
    case (Suc c)
    then have "c < edit_len w" using e by (simp add: edit_ok_def)
    then have "map (cmd_buf w) [c ..< edit_len w] = cmd_buf w c # map (cmd_buf w) [Suc c ..< edit_len w]"
      by (simp add: upt_conv_Cons)
    then show ?thesis using e Suc by (simp add: key_left_def edited_def edit_ok_def Let_def)
  qed
qed

lemma edit_right:
  "edit_ok w \<Longrightarrow> edited (key_right w r) = (let (l, t) = edited w in if t = [] then (l, t) else (l @ [hd t], drop 1 t))
    \<and> edit_ok (key_right w r)"
proof -
  assume e: "edit_ok w"
  show ?thesis
  proof (cases "cursor_pos w < edit_len w")
    case True
    then show ?thesis using e by (simp add: key_right_def edited_def edit_ok_def Let_def upt_conv_Cons)
  next
    case False
    then show ?thesis using e by (simp add: key_right_def edited_def edit_ok_def Let_def)
  qed
qed

lemma edit_home: "edit_ok w \<Longrightarrow> edited (key_home w r) = (let (l, t) = edited w in ([], l @ t)) \<and> edit_ok (key_home w r)"
proof -
  assume e: "edit_ok w"
  then have "edited (w\<lparr>cursor_pos := 0\<rparr>) = ([], map (cmd_buf w) [0 ..< edit_len w])"
    "edited (w\<lparr>cursor_pos := edit_len w\<rparr>) = (map (cmd_buf w) [0 ..< edit_len w], [])"
    "fst (edited w) @ snd (edited w) = map (cmd_buf w) [0 ..< edit_len w]"
    by (simp_all add: edited_def map_upt_split edit_ok_def)
  moreover have "edit_ok (w\<lparr>cursor_pos := c\<rparr>)" if "c \<le> edit_len w" for c using e that by (simp add: edit_ok_def)
  ultimately show ?thesis using e
    by (cases "edited w"; cases "cursor_pos w = 0") (auto simp: key_home_def edited_def)
qed

lemma edit_end: "edit_ok w \<Longrightarrow> edited (key_end w r) = (let (l, t) = edited w in (l @ t, [])) \<and> edit_ok (key_end w r)"
proof -
  assume e: "edit_ok w"
  then have "edited (w\<lparr>cursor_pos := 0\<rparr>) = ([], map (cmd_buf w) [0 ..< edit_len w])"
    "edited (w\<lparr>cursor_pos := edit_len w\<rparr>) = (map (cmd_buf w) [0 ..< edit_len w], [])"
    "fst (edited w) @ snd (edited w) = map (cmd_buf w) [0 ..< edit_len w]"
    by (simp_all add: edited_def map_upt_split edit_ok_def)
  moreover have "edit_ok (w\<lparr>cursor_pos := c\<rparr>)" if "c \<le> edit_len w" for c using e that by (simp add: edit_ok_def)
  ultimately show ?thesis using e
    by (cases "edited w"; cases "cursor_pos w = edit_len w") (auto simp: key_end_def edited_def)
qed

lemma edit_delete: "edit_ok w \<Longrightarrow> edited (key_delete w r) = (let (l, t) = edited w in (l, drop 1 t)) \<and> edit_ok (key_delete w r)"
proof -
  assume e: "edit_ok w"
  show ?thesis
  proof (cases "cursor_pos w < edit_len w")
    case True
    let ?b = "close_gap (cmd_buf w) (cursor_pos w) (edit_len w)"
    have b: "?b = (\<lambda>j. if cursor_pos w \<le> j \<and> j < edit_len w then cmd_buf w (j + 1) else cmd_buf w j)"
      using True by (intro close_gap_eq) simp
    have "map ?b [0 ..< cursor_pos w] = map (cmd_buf w) [0 ..< cursor_pos w]" unfolding b by simp
    moreover have "map ?b [cursor_pos w ..< edit_len w - 1] = map (cmd_buf w) [Suc (cursor_pos w) ..< edit_len w]"
      unfolding b by (rule map_upt_eq) auto
    moreover have "edit_ok (w\<lparr>cmd_buf := ?b, edit_len := edit_len w - 1\<rparr>)"
      using e True by (auto simp: edit_ok_def b)
    ultimately show ?thesis using True by (simp add: key_delete_def edited_def Let_def upt_conv_Cons)
  next
    case False
    then show ?thesis using e by (simp add: key_delete_def edited_def edit_ok_def Let_def)
  qed
qed

lemma edit_backspace: "edit_ok w \<Longrightarrow> edited (key_backspace w r) = (let (l, t) = edited w in (butlast l, t)) \<and> edit_ok (key_backspace w r)"
proof -
  assume e: "edit_ok w"
  show ?thesis
  proof (cases "cursor_pos w")
    case 0
    then show ?thesis using e by (simp add: key_backspace_def edited_def)
  next
    case (Suc c)
    then have c: "c < edit_len w" using e by (simp add: edit_ok_def)
    let ?b = "close_gap (cmd_buf w) c (edit_len w)"
    have b: "?b = (\<lambda>j. if c \<le> j \<and> j < edit_len w then cmd_buf w (j + 1) else cmd_buf w j)"
      using c by (intro close_gap_eq) simp
    have "map ?b [0 ..< c] = map (cmd_buf w) [0 ..< c]" unfolding b by simp
    moreover have "map ?b [c ..< edit_len w - 1] = map (cmd_buf w) [Suc c ..< edit_len w]"
      unfolding b by (rule map_upt_eq) auto
    moreover have "edit_ok (w\<lparr>cmd_buf := ?b, edit_len := edit_len w - 1, cursor_pos := c\<rparr>)"
      using e c Suc by (auto simp: edit_ok_def b)
    ultimately show ?thesis using c Suc by (simp add: key_backspace_def edited_def Let_def)
  qed
qed

lemma edit_insert:
  "edit_ok w \<Longrightarrow> key \<noteq> NUL \<Longrightarrow>
   edited (key_insert w r key) = (let (l, t) = edited w in if length l + length t < 87 then (l @ [key], t) else (l, t))
   \<and> edit_ok (key_insert w r key)"
proof -
  assume e: "edit_ok w" and key: "key \<noteq> NUL"
  have len: "length (fst (edited w)) + length (snd (edited w)) = edit_len w" using e by (simp add: edited_def edit_ok_def)
  show ?thesis
  proof (cases "edit_len w < 87")
    case True
    have ce: "cursor_pos w \<le> edit_len w" using e by (simp add: edit_ok_def)
    let ?b = "(open_gap (cmd_buf w) (cursor_pos w) (edit_len w))(cursor_pos w := key)"
    have b: "?b = (\<lambda>j. if j = cursor_pos w then key else if cursor_pos w < j \<and> j \<le> edit_len w + 1 then cmd_buf w (j - 1) else cmd_buf w j)"
      using ce by (subst open_gap_eq) (auto simp: fun_eq_iff)
    have "map ?b [0 ..< cursor_pos w] = map (cmd_buf w) [0 ..< cursor_pos w]" unfolding b by simp
    moreover have "map ?b [Suc (cursor_pos w) ..< Suc (edit_len w)] = map (cmd_buf w) [cursor_pos w ..< edit_len w]"
      unfolding b by (rule map_upt_eq) auto
    moreover have "edit_ok (w\<lparr>cmd_buf := ?b, edit_len := edit_len w + 1, cursor_pos := cursor_pos w + 1\<rparr>)"
      using e True key by (auto simp: edit_ok_def b)
    ultimately show ?thesis using True len by (simp add: key_insert_def edited_def Let_def)
  next
    case False
    then show ?thesis using e len by (simp add: key_insert_def split_beta Let_def)
  qed
qed

text \<open>A terminal that waits for keys, and the keys that edit the line.\<close>

definition idle :: "twin \<Rightarrow> bool" where
  "idle w \<longleftrightarrow> t_kind w = 0 \<and> ssh_auth_mode w = 0 \<and> \<not> executing_cmd w \<and> \<not> waiting_wget w \<and>
     0 < total_rows w \<and> total_rows w \<le> 64"

definition edit_key_code :: "char \<Rightarrow> bool" where
  "edit_key_code key \<longleftrightarrow> (of_char key :: nat) \<notin> {3, 9, 10, 0x10, 0x11}"

text \<open>Every editing key leaves the window alone or redraws the row of a window with other text.\<close>

definition same_input :: "twin \<Rightarrow> twin \<Rightarrow> bool" where
  "same_input w v \<longleftrightarrow> t_kind v = t_kind w \<and> ssh_auth_mode v = ssh_auth_mode w \<and> executing_cmd v = executing_cmd w \<and>
     waiting_wget v = waiting_wget w \<and> total_rows v = total_rows w \<and> input_q v = input_q w"

lemma same_input_refl [simp]: "same_input w w"
  by (simp add: same_input_def)

lemma same_input_edit [simp]:
  "same_input w (v\<lparr>cursor_pos := c\<rparr>) = same_input w v" "same_input w (v\<lparr>edit_len := n\<rparr>) = same_input w v"
  "same_input w (v\<lparr>cmd_buf := b\<rparr>) = same_input w v"
  by (simp_all add: same_input_def)

definition redrawn :: "twin \<Rightarrow> nat \<Rightarrow> twin \<Rightarrow> bool" where
  "redrawn w r f \<longleftrightarrow> f = w \<or> (\<exists>v. f = redraw_prompt_line v r \<and> same_input w v)"

lemma redrawnI: "redrawn w r w" "same_input w v \<Longrightarrow> redrawn w r (redraw_prompt_line v r)"
  unfolding redrawn_def by blast+

lemma key_ops_redrawn:
  "redrawn w r (key_left w r)" "redrawn w r (key_right w r)" "redrawn w r (key_home w r)" "redrawn w r (key_end w r)"
  "redrawn w r (key_delete w r)" "redrawn w r (key_backspace w r)" "redrawn w r (key_insert w r key)"
  by (simp_all add: redrawnI key_left_def key_right_def key_home_def key_end_def key_delete_def key_backspace_def key_insert_def)

lemma redrawn_input: "redrawn w r f \<Longrightarrow> same_input w f"
  unfolding redrawn_def by (auto simp: same_input_def)

lemma prompt_row_cong: "total_rows w' = total_rows w \<Longrightarrow> prompt_row w' = prompt_row w"
  by (simp add: prompt_row_def)

lemma prompt_shown_cong:
  "tlines w' = tlines w \<Longrightarrow> total_rows w' = total_rows w \<Longrightarrow> edited w' = edited w \<Longrightarrow> cur_col w' = cur_col w \<Longrightarrow>
   prompt_shown w' = prompt_shown w"
  by (simp add: prompt_shown_def prompt_row_def)

lemma redrawn_shown:
  assumes "redrawn w (prompt_row w) f" "edit_ok f" "prompt_shown w"
  shows "prompt_shown f"
  using assms(1) unfolding redrawn_def
proof (elim disjE exE conjE)
  fix v assume v: "f = redraw_prompt_line v (prompt_row w)" "same_input w v"
  then have r: "prompt_row v = prompt_row w" by (simp add: same_input_def prompt_row_def)
  have "edit_ok v" using assms(2) v(1) by simp
  then show ?thesis using redraw_shown [of v] v(1) r by simp
qed (use assms(3) in simp)

text \<open>What a terminal keeps while its line is edited.\<close>

definition editing :: "twin \<Rightarrow> bool" where
  "editing w \<longleftrightarrow> idle w \<and> edit_ok w \<and> prompt_shown w"

lemma idle_cong: "same_input w v \<Longrightarrow> idle v = idle w"
  by (simp add: same_input_def idle_def)

lemma editing_redrawn:
  assumes "editing w" "redrawn w (prompt_row w) f" "edit_ok f"
  shows "editing f \<and> input_q f = input_q w"
  using assms redrawn_shown [of w f] redrawn_input [of w "prompt_row w" f] idle_cong [of w f]
  by (auto simp: editing_def same_input_def)

lemma edit_key_step:
  assumes e: "editing w" and key: "edit_key_code key"
    and f_def: "f = edit_key x w (prompt_row w) (of_char key) key"
  shows "editing f \<and> input_q f = input_q w \<and> edited f = edit key (edited w)"
proof -
  have ok: "edit_ok w" using e by (simp add: editing_def)
  let ?k = "of_char key :: nat"
  have nul: "?k \<ge> 32 \<Longrightarrow> key \<noteq> NUL" by auto
  have "redrawn w (prompt_row w) f \<and> edit_ok f \<and> edited f = edit key (edited w)"
  proof -
    consider "?k = 0x12" | "?k = 0x13" | "?k = 0x15" | "?k = 0x16" | "?k = 0x14" | "?k = 8" | "?k \<ge> 32"
      | "?k \<notin> {0x12, 0x13, 0x15, 0x16, 0x14, 8}" "\<not> ?k \<ge> 32" by auto
    then show ?thesis
    proof cases
      case 1 then show ?thesis
        unfolding f_def edit_key_def using key_ops_redrawn(1) edit_left [OF ok] by (cases "edited w") simp
    next
      case 2 then show ?thesis
        unfolding f_def edit_key_def using key_ops_redrawn(2) edit_right [OF ok] by (cases "edited w") simp
    next
      case 3 then show ?thesis
        unfolding f_def edit_key_def using key_ops_redrawn(3) edit_home [OF ok] by (cases "edited w") simp
    next
      case 4 then show ?thesis
        unfolding f_def edit_key_def using key_ops_redrawn(4) edit_end [OF ok] by (cases "edited w") simp
    next
      case 5 then show ?thesis
        unfolding f_def edit_key_def using key_ops_redrawn(5) edit_delete [OF ok] by (cases "edited w") simp
    next
      case 6 then show ?thesis
        unfolding f_def edit_key_def using key_ops_redrawn(6) edit_backspace [OF ok] by (cases "edited w") simp
    next
      case 7
      then have "f = key_insert w (prompt_row w) key" using key unfolding f_def edit_key_def by simp
      moreover have "edit key (l, t) = (if length l + length t < 87 then (l @ [key], t) else (l, t))" for l t
        using 7 by simp
      ultimately show ?thesis using key_ops_redrawn(7) edit_insert [OF ok nul [OF 7]] by (cases "edited w") simp
    next
      case 8
      then have "f = w" using key unfolding f_def edit_key_def edit_key_code_def by simp
      moreover have "edit key (l, t) = (l, t)" for l t using 8 by simp
      ultimately show ?thesis using ok redrawnI(1) by (cases "edited w") simp
    qed
  qed
  then show ?thesis using editing_redrawn [OF e] by blast
qed

lemma editing_locked [simp]:
  "editing (w\<lparr>submit_locked := b\<rparr>) = editing w" "edited (w\<lparr>submit_locked := b\<rparr>) = edited w"
  by (simp_all add: editing_def idle_def edit_ok_def prompt_shown_def prompt_row_def edited_def)

lemma unlocked_editing:
  assumes "editing w"
  shows "editing (unlocked w k) \<and> input_q (unlocked w k) = input_q w \<and> edited (unlocked w k) = edited w"
proof -
  let ?v = "w\<lparr>submit_locked := False, shell_status := []\<rparr>" and ?r = "prompt_row w"
  have s: "same_input w ?v" by (simp add: same_input_def)
  have "edit_ok ?v" "edited ?v = edited w" using assms by (simp_all add: editing_def edit_ok_def edited_def)
  then have "editing (redraw_prompt_line ?v ?r) \<and> input_q (redraw_prompt_line ?v ?r) = input_q w
      \<and> edited (redraw_prompt_line ?v ?r) = edited w"
    using editing_redrawn [OF assms redrawnI(2) [OF s]] by simp
  moreover have "total_rows ?v > 0" "total_rows ?v - 1 = ?r" using assms by (auto simp: editing_def idle_def prompt_row_def)
  ultimately show ?thesis using assms by (simp add: unlocked_def Let_def)
qed

lemma terminal_key_editing:
  assumes e: "editing w" and key: "edit_key_code key"
  shows "editing (terminal_key x w key) \<and> input_q (terminal_key x w key) = input_q w \<and>
         edited (terminal_key x w key) = edit key (edited w)"
proof -
  let ?k = "of_char key :: nat" and ?u = "unlocked w (of_char key)"
  have u: "editing ?u" "input_q ?u = input_q w" "edited ?u = edited w" using unlocked_editing [OF e] by auto
  have k: "?k \<noteq> 3" "?k \<noteq> 10" using key by (auto simp: edit_key_code_def)
  have "terminal_key x w key = line_key x ?u ?k key"
    using e k by (simp add: terminal_key_def Let_def editing_def idle_def)
  also have "\<dots> = edit_key x ?u (prompt_row ?u) ?k key"
  proof -
    have "total_rows ?u - 1 = prompt_row ?u" "\<not> 64 \<le> total_rows ?u - 1" "0 < total_rows ?u"
      using u(1) by (auto simp: editing_def idle_def prompt_row_def)
    then show ?thesis using u(1) k(2) by (simp add: line_key_def editing_def idle_def Let_def)
  qed
  finally show ?thesis using edit_key_step [OF u(1) key, of _ x] u by simp
qed

lemma editing_input [simp]:
  "editing (w\<lparr>input_q := q\<rparr>) = editing w" "edited (w\<lparr>input_q := q\<rparr>) = edited w"
  by (simp_all add: editing_def idle_def edit_ok_def prompt_shown_def prompt_row_def edited_def)

lemma handle_key_editing:
  assumes e: "editing w" and wf: "keys_wf w" and q: "keys_of w = key # ks" and key: "edit_key_code key"
    and f: "f = handle_window_mailbox x w"
  shows "editing f \<and> keys_wf f \<and> keys_of f = ks \<and> edited f = edit key (edited w)"
proof -
  obtain c v where pop: "window_input_pop w = Some (c, v)"
    using keys.pop_None [OF wf] q by (cases "window_input_pop w") auto
  have v: "c = key" "keys_wf v" "keys_of v = ks" using keys.pop_Some [OF wf pop] q by auto
  obtain r where r: "v = w\<lparr>input_q := r\<rparr>"
    using pop by (auto simp: window_input_pop_def Let_def split: if_splits)
  then have ev: "editing v" "edited v = edited w" using e by simp_all
  then have "f = terminal_key x v key"
    using pop v(1) unfolding f by (simp add: handle_window_mailbox_def editing_def idle_def edit_ok_def)
  then show ?thesis
    using terminal_key_editing [OF ev(1) key, of x] v ev(2) by (simp add: keys_wf_def keys_of_def)
qed

lemma pushes_input: "\<exists>q. foldl window_input_push w ks = w\<lparr>input_q := q\<rparr>"
proof (induction ks arbitrary: w)
  case (Cons k ks)
  from Cons [of "window_input_push w k"] show ?case by (auto simp: input_push_ring)
next
  case Nil
  show ?case by (rule exI [of _ "input_q w"]) simp
qed

lemma newest_subset: "set (newest n xs) \<subseteq> set xs"
  by (auto simp: newest_def dest: in_set_dropD)

lemma keys_empty: "keys_wf w \<Longrightarrow> window_input_empty w \<longleftrightarrow> keys_of w = []"
  using keys.pop_None [of w] by (simp add: window_input_pop_def Let_def split: if_splits)

lemma drain_keys_editing:
  "editing w \<Longrightarrow> keys_wf w \<Longrightarrow> keys_of w \<noteq> [] \<Longrightarrow> \<forall>k\<in>set (keys_of w). edit_key_code k \<Longrightarrow>
   \<exists>f. drain_keys x w = Some f \<and> editing f \<and> keys_wf f \<and> keys_of f = [] \<and> edited f = fold edit (keys_of w) (edited w)"
proof (induction "length (keys_of w)" arbitrary: w)
  case (Suc n)
  then obtain k ks where q: "keys_of w = k # ks" by (cases "keys_of w") auto
  let ?f = "handle_window_mailbox x w"
  have f: "editing ?f" "keys_wf ?f" "keys_of ?f = ks" "edited ?f = edit k (edited w)"
    using handle_key_editing [OF Suc.prems(1,2) q _ refl, of x] Suc.prems(4) q by auto
  show ?case
  proof (cases ks)
    case Nil
    then show ?thesis using f q keys_empty [OF f(2)] by (subst drain_keys.simps) (simp add: Let_def)
  next
    case (Cons k' ks')
    then have "drain_keys x w = drain_keys x ?f"
      using f(3) keys_empty [OF f(2)] by (subst drain_keys.simps) (simp add: Let_def)
    moreover have "\<exists>g. drain_keys x ?f = Some g \<and> editing g \<and> keys_wf g \<and> keys_of g = [] \<and> edited g = fold edit ks (edited ?f)"
      using Suc.hyps(1) [of ?f] Suc.hyps(2) Suc.prems(4) f q Cons by simp
    ultimately show ?thesis using f(4) q by simp
  qed
qed simp

text \<open>C17: an idle terminal is a line editor. However many editing keys (characters, backspace,
  delete, left, right, home, end) are typed into its queue, the worker's visit ends, and the text
  before and behind the cursor is what the abstract editor makes of the newest 255 of them; the
  prompt row shows that text with the cursor in it, and the buffer is a C string within its bounds.\<close>

theorem line_editor:
  assumes "editing w" "t_active w" "keys_wf w" "keys_of w = []" "\<forall>k\<in>set ks. edit_key_code k"
  shows "\<exists>f. worker_visit x (foldl window_input_push w ks) = Some f \<and>
           edited f = fold edit (newest 255 ks) (edited w) \<and> edit_ok f \<and> prompt_shown f \<and> keys_of f = []"
proof -
  let ?v = "foldl window_input_push w ks"
  have q: "keys_wf ?v" "keys_of ?v = newest 255 ks" using keys.push_all [OF assms(3), of ks] assms(4) by auto
  obtain q' where v: "?v = w\<lparr>input_q := q'\<rparr>" using pushes_input by blast
  then have e: "editing ?v" "edited ?v = edited w" "t_active ?v" using assms(1,2) by simp_all
  have k: "\<forall>k\<in>set (keys_of ?v). edit_key_code k" using q(2) newest_subset assms(5) by (metis subsetD)
  show ?thesis
  proof (cases "keys_of ?v = []")
    case True
    then have "worker_visit x ?v = Some ?v" using keys_empty [OF q(1)] by (simp add: worker_visit_def)
    then show ?thesis using e True q(2) by (auto simp: editing_def)
  next
    case False
    then have "worker_visit x ?v = drain_keys x ?v" using keys_empty [OF q(1)] e(3) by (simp add: worker_visit_def)
    then show ?thesis using drain_keys_editing [OF e(1) q(1) False k, of x] e(2) q(2) by (auto simp: editing_def)
  qed
qed

lemma fresh_editing: "editing fresh_terminal" "keys_wf fresh_terminal" "keys_of fresh_terminal = []"
  by (simp_all add: editing_def idle_def edit_ok_def prompt_shown_def prompt_row_def edited_def fresh_terminal_def
      keys_wf_def keys_of_def ring_wf_def ring_queue_def ring_len_def)

text \<open>Typing \<open>ab\<close>, left, \<open>c\<close>, backspace, \<open>d\<close>, end, \<open>e\<close>.\<close>

theorem line_editor_witness:
  "\<forall>x. \<exists>f. worker_visit x (foldl window_input_push fresh_terminal
        [CHR ''a'', CHR ''b'', CHR 0x12, CHR ''c'', CHR 0x08, CHR ''d'', CHR 0x16, CHR ''e'']) = Some f \<and>
      edited f = (''adbe'', '''')"
proof
  fix x
  let ?ks = "[CHR ''a'', CHR ''b'', CHR 0x12, CHR ''c'', CHR 0x08, CHR ''d'', CHR 0x16, CHR ''e'']"
  have "\<forall>k\<in>set ?ks. edit_key_code k" by (simp add: edit_key_code_def)
  moreover have "t_active fresh_terminal" by (simp add: fresh_terminal_def)
  moreover have "edited fresh_terminal = ([], [])" by (simp add: edited_def fresh_terminal_def)
  moreover have "fold edit (newest 255 ?ks) ([], []) = (''adbe'', '''')" by (simp add: newest_def Let_def)
  ultimately show "\<exists>f. worker_visit x (foldl window_input_push fresh_terminal ?ks) = Some f \<and> edited f = (''adbe'', '''')"
    using line_editor [OF fresh_editing(1) _ fresh_editing(2,3), of ?ks x] by metis
qed

section \<open>The history\<close>

definition hist :: "twin \<Rightarrow> string list" where
  "hist w = map (history w) [0 ..< hist_count w]"

definition hist_ok :: "twin \<Rightarrow> bool" where
  "hist_ok w \<longleftrightarrow> hist_count w \<le> 512 \<and> (\<forall>s\<in>set (hist w). length s \<le> 99 \<and> NUL \<notin> set s)"

lemma history_shift:
  "m \<le> 511 \<Longrightarrow> foldl (\<lambda>w i. terminal_history_set w (int i) (history w (i - 1))) w (rev [1 ..< m + 1]) =
     w\<lparr>history := (\<lambda>i. if 1 \<le> i \<and> i \<le> m then take 99 (history w (i - 1)) else history w i)\<rparr>"
proof (induction m arbitrary: w)
  case (Suc m)
  let ?h = "(history w)(Suc m := take 99 (history w m))"
  have "foldl (\<lambda>w i. terminal_history_set w (int i) (history w (i - 1))) w (rev [1 ..< Suc m + 1]) =
      foldl (\<lambda>w i. terminal_history_set w (int i) (history w (i - 1))) (w\<lparr>history := ?h\<rparr>) (rev [1 ..< m + 1])"
    using Suc.prems by (simp add: terminal_history_set_def nat_add_distrib)
  also have "\<dots> = w\<lparr>history := (\<lambda>i. if 1 \<le> i \<and> i \<le> m then take 99 (?h (i - 1)) else ?h i)\<rparr>"
    using Suc.IH [of "w\<lparr>history := ?h\<rparr>"] Suc.prems by (simp add: fun_eq_iff del: upt_Suc cong: if_cong)
  also have "(\<lambda>i. if 1 \<le> i \<and> i \<le> m then take 99 (?h (i - 1)) else ?h i) =
      (\<lambda>i. if 1 \<le> i \<and> i \<le> Suc m then take 99 (history w (i - 1)) else history w i)"
    by (auto simp: fun_eq_iff le_Suc_eq)
  finally show ?case .
next
  case 0
  have "(\<lambda>i. if 1 \<le> i \<and> i \<le> 0 then take 99 (history w (i - 1)) else history w i) = history w" by (auto simp: fun_eq_iff)
  then show ?case by simp
qed

lemma history_enter_hist:
  assumes "hist_ok w"
  shows "hist (history_enter w cmd) =
    (if edit_len w > 0 \<and> (hist w = [] \<or> hd (hist w) \<noteq> cmd) then take 512 (take 99 cmd # hist w) else hist w)"
proof -
  have c: "(hist w = [] \<or> hd (hist w) \<noteq> cmd) \<longleftrightarrow> (hist_count w = 0 \<or> history w 0 \<noteq> cmd)"
    by (cases "hist_count w") (simp_all add: hist_def upt_conv_Cons del: upt_Suc)
  show ?thesis
  proof (cases "edit_len w > 0 \<and> (hist_count w = 0 \<or> history w 0 \<noteq> cmd)")
    case True
    let ?n = "hist_count w"
    let ?h = "\<lambda>i. if i = 0 then take 99 cmd else if i \<le> 511 then take 99 (history w (i - 1)) else history w i"
    have s: "foldl (\<lambda>w i. terminal_history_set w (int i) (history w (i - 1))) w (rev [1 ..< 512]) =
      w\<lparr>history := (\<lambda>i. if 1 \<le> i \<and> i \<le> 511 then take 99 (history w (i - 1)) else history w i)\<rparr>"
      using history_shift [of 511 w] by simp
    have h: "(\<lambda>i. if 1 \<le> i \<and> i \<le> 511 then take 99 (history w (i - 1)) else history w i)(0 := take 99 cmd) = ?h"
      by (auto simp: fun_eq_iff)
    have "history_enter w cmd = w\<lparr>history := ?h, hist_count := (if ?n < 512 then ?n + 1 else ?n)\<rparr>"
      using True h unfolding history_enter_def s by (simp add: terminal_history_set_def Let_def)
    moreover have "map ?h [0 ..< (if ?n < 512 then ?n + 1 else ?n)] = take 512 (take 99 cmd # hist w)"
    proof (rule nth_equalityI)
      show "length (map ?h [0 ..< (if ?n < 512 then ?n + 1 else ?n)]) = length (take 512 (take 99 cmd # hist w))"
        using assms by (simp add: hist_ok_def hist_def)
    next
      fix i assume "i < length (map ?h [0 ..< (if ?n < 512 then ?n + 1 else ?n)])"
      then have i: "i < (if ?n < 512 then ?n + 1 else ?n)" by simp
      show "map ?h [0 ..< (if ?n < 512 then ?n + 1 else ?n)] ! i = take 512 (take 99 cmd # hist w) ! i"
      proof (cases i)
        case (Suc j)
        then have j: "j < ?n" "Suc j \<le> 511" using i assms by (auto simp: hist_ok_def split: if_splits)
        then have "hist w ! j = history w j" "history w j \<in> set (hist w)" by (auto simp: hist_def)
        then show ?thesis using i Suc j assms by (auto simp: hist_ok_def simp del: upt_Suc)
      qed (use i in \<open>simp del: upt_Suc\<close>)
    qed
    ultimately show ?thesis using True c by (simp add: hist_def)
  next
    case False
    then have "history_enter w cmd = w" unfolding history_enter_def by (rule if_not_P)
    then show ?thesis using False unfolding c by (simp only: if_False)
  qed
qed

lemma same_input_browse [simp]:
  "same_input w (v\<lparr>saved_cmd := s\<rparr>) = same_input w v" "same_input w (v\<lparr>has_saved_cmd := b\<rparr>) = same_input w v"
  "same_input w (v\<lparr>hist_idx := i\<rparr>) = same_input w v" "same_input w (v\<lparr>submit_locked := b\<rparr>) = same_input w v"
  "same_input w (load_edit_buffer v s) = same_input w v"
  by (simp_all add: same_input_def load_edit_buffer_def Let_def)

lemma load_edited:
  assumes "NUL \<notin> set s"
  shows "edited (load_edit_buffer w s) = (take 87 s, [])" "edit_ok (load_edit_buffer w s)"
proof -
  let ?s = "take 87 s"
  have "put_text (cmd_buf w) ?s i \<noteq> NUL" if "i < length ?s" for i
    using that assms in_set_takeD [of "?s ! i" 87 s] nth_mem [of i ?s] by (metis put_text_def)
  moreover have "map (put_text (cmd_buf w) ?s) [0 ..< length ?s] = ?s"
    by (rule nth_equalityI) (auto simp: put_text_def)
  moreover have "put_text (cmd_buf w) ?s (length ?s) = NUL" unfolding put_text_def by (simp del: length_take)
  moreover have "length ?s \<le> 87" by simp
  ultimately show "edited (load_edit_buffer w s) = (take 87 s, [])" "edit_ok (load_edit_buffer w s)"
    by (simp_all add: load_edit_buffer_def edited_def edit_ok_def Let_def del: length_take)
qed

text \<open>A terminal that shows entry \<open>k\<close> of the history \<open>h\<close>, counted from 1, or for 0 the line \<open>orig\<close>.\<close>

definition recalled :: "string \<Rightarrow> string list \<Rightarrow> nat \<Rightarrow> twin \<Rightarrow> bool" where
  "recalled orig h k w \<longleftrightarrow> editing w \<and> hist w = h \<and> hist_idx w = int k - 1 \<and> k \<le> length h \<and>
     (if k = 0 then fst (edited w) @ snd (edited w) = orig
      else saved_cmd w = orig \<and> has_saved_cmd w \<and> edited w = (take 87 (h ! (k - 1)), []))"

lemma hist_fields [simp]:
  "hist (redraw_prompt_line w r) = hist w" "hist (load_edit_buffer w s) = hist w" "hist (w\<lparr>hist_idx := i\<rparr>) = hist w"
  "hist (w\<lparr>saved_cmd := s\<rparr>) = hist w" "hist (w\<lparr>has_saved_cmd := b\<rparr>) = hist w" "hist (w\<lparr>submit_locked := b\<rparr>) = hist w"
  by (simp_all add: hist_def load_edit_buffer_def Let_def)

lemma load_fields [simp]:
  "hist_idx (load_edit_buffer w s) = hist_idx w" "saved_cmd (load_edit_buffer w s) = saved_cmd w"
  "has_saved_cmd (load_edit_buffer w s) = has_saved_cmd w" "history (load_edit_buffer w s) = history w"
  by (simp_all add: load_edit_buffer_def Let_def)

lemma recalled_load:
  assumes "editing w" "same_input w v" "NUL \<notin> set s" "hist v = h" "hist_idx v = int k - 1" "k \<le> length h"
    and "if k = 0 then take 87 s = orig else saved_cmd v = orig \<and> has_saved_cmd v \<and> s = h ! (k - 1)"
    and "prompt_row w = r"
  shows "recalled orig h k (redraw_prompt_line (load_edit_buffer v s) r)"
proof -
  have "editing (redraw_prompt_line (load_edit_buffer v s) r)"
    using editing_redrawn [OF assms(1) redrawnI(2), of "load_edit_buffer v s"] load_edited(2) [OF assms(3)] assms(2,8) by auto
  then show ?thesis using assms(4-7) load_edited(1) [OF assms(3), of v] by (cases "k = 0") (simp_all add: recalled_def)
qed

lemma key_up_recalled:
  assumes w: "recalled orig h k w" and nul: "\<forall>s\<in>set h. NUL \<notin> set s" and r: "prompt_row w = r"
  shows "recalled orig h (min (k + 1) (length h)) (key_up w r)"
proof (cases "k < length h")
  case True
  let ?u = "w\<lparr>submit_locked := False\<rparr>"
  let ?v = "(if hist_idx ?u = -1 then ?u\<lparr>saved_cmd := buf_text (cmd_buf ?u), has_saved_cmd := True\<rparr> else ?u)\<lparr>hist_idx := int k\<rparr>"
  have i: "hist_idx w = int k - 1" "hist w = h" "editing w" using w by (simp_all add: recalled_def)
  then have n: "hist_count w = length h" "history w k = h ! k" using True by (auto simp: hist_def)
  have "key_up w r = redraw_prompt_line (load_edit_buffer ?v (h ! k)) r"
    using True i n by (cases "k = 0") (simp_all add: key_up_def Let_def)
  moreover have "recalled orig h (k + 1) (redraw_prompt_line (load_edit_buffer ?v (h ! k)) r)"
  proof (rule recalled_load [OF i(3)])
    have "buf_text (cmd_buf w) = orig" if "k = 0"
      using w that edit_text [of w] by (simp add: recalled_def editing_def)
    then show "if k + 1 = 0 then take 87 (h ! k) = orig
        else saved_cmd ?v = orig \<and> has_saved_cmd ?v \<and> h ! k = h ! (k + 1 - 1)"
      using w i by (auto simp: recalled_def)
  qed (use True i nul r in auto)
  ultimately show ?thesis using True by simp
next
  case False
  then have "hist_count w = length h" "hist_idx w = int (hist_count w) - 1" "k = length h"
    using w by (auto simp: recalled_def hist_def)
  moreover have "recalled orig h k (w\<lparr>submit_locked := False\<rparr>)"
    using w by (simp add: recalled_def)
  ultimately show ?thesis by (simp add: key_up_def)
qed

lemma key_down_recalled:
  assumes w: "recalled orig h k w" and nul: "\<forall>s\<in>set h. NUL \<notin> set s" and r: "prompt_row w = r"
    and orig: "length orig \<le> 87" "NUL \<notin> set orig"
  shows "recalled orig h (k - 1) (key_down w r)"
proof -
  have i: "hist_idx w = int k - 1" "hist w = h" "editing w" "k \<le> length h" using w by (simp_all add: recalled_def)
  let ?u = "w\<lparr>submit_locked := False\<rparr>"
  consider "k = 0" | "k = 1" | j where "k = Suc (Suc j)" by (metis One_nat_def nat.exhaust)
  then show ?thesis
  proof cases
    case 1
    moreover have "recalled orig h k ?u" using w by (simp add: recalled_def)
    ultimately show ?thesis using i by (simp add: key_down_def)
  next
    case 2
    let ?v = "?u\<lparr>hist_idx := -1\<rparr>"
    have "has_saved_cmd w" "saved_cmd w = orig" using w 2 by (simp_all add: recalled_def)
    then have "key_down w r = redraw_prompt_line ((load_edit_buffer ?v orig)\<lparr>has_saved_cmd := False\<rparr>) r"
      using i 2 by (simp add: key_down_def Let_def)
    moreover have "(load_edit_buffer ?v orig)\<lparr>has_saved_cmd := False\<rparr> = load_edit_buffer (?v\<lparr>has_saved_cmd := False\<rparr>) orig"
      by (simp add: load_edit_buffer_def Let_def)
    moreover have "recalled orig h 0 (redraw_prompt_line (load_edit_buffer (?v\<lparr>has_saved_cmd := False\<rparr>) orig) r)"
      by (rule recalled_load [OF i(3)]) (use i orig r in simp_all)
    ultimately show ?thesis using 2 by simp
  next
    case 3
    let ?v = "?u\<lparr>hist_idx := int j\<rparr>"
    have "history w j = h ! j" using i 3 by (auto simp: hist_def)
    then have "key_down w r = redraw_prompt_line (load_edit_buffer ?v (h ! j)) r"
      using i 3 by (simp add: key_down_def Let_def)
    moreover have "recalled orig h (j + 1) (redraw_prompt_line (load_edit_buffer ?v (h ! j)) r)"
      by (rule recalled_load [OF i(3)]) (use i 3 w nul r in \<open>auto simp: recalled_def\<close>)
    ultimately show ?thesis using 3 by simp
  qed
qed

lemma terminal_key_browse:
  assumes "editing w"
  shows "terminal_key x w (CHR 0x10) = key_up w (prompt_row w)" "terminal_key x w (CHR 0x11) = key_down w (prompt_row w)"
proof -
  have r: "total_rows w - 1 = prompt_row w" "\<not> 64 \<le> total_rows w - 1" "0 < total_rows w" "\<not> executing_cmd w" "\<not> waiting_wget w"
    using assms by (auto simp: editing_def idle_def prompt_row_def)
  then have l: "line_key x (unlocked w k) k key = edit_key x w (prompt_row w) k key" if "k < 32" "k \<noteq> 10" for k key
    using that by (simp add: line_key_def unlocked_def Let_def)
  show "terminal_key x w (CHR 0x10) = key_up w (prompt_row w)"
    "terminal_key x w (CHR 0x11) = key_down w (prompt_row w)"
    using r l [of 16] l [of 17] by (simp_all add: terminal_key_def edit_key_def)
qed

lemma ups_recalled:
  "recalled orig h 0 w \<Longrightarrow> \<forall>s\<in>set h. NUL \<notin> set s \<Longrightarrow>
   recalled orig h (min m (length h)) (((\<lambda>w. terminal_key x w (CHR 0x10)) ^^ m) w)"
proof (induction m)
  case (Suc m)
  let ?w = "((\<lambda>w. terminal_key x w (CHR 0x10)) ^^ m) w"
  have w: "recalled orig h (min m (length h)) ?w" using Suc by blast
  have e: "editing ?w" using w by (simp add: recalled_def)
  have "min (min m (length h) + 1) (length h) = min (Suc m) (length h)" by simp
  then show ?case using key_up_recalled [OF w Suc.prems(2) refl] terminal_key_browse(1) [OF e, of x] by simp
qed simp

lemma downs_recalled:
  "recalled orig h k w \<Longrightarrow> \<forall>s\<in>set h. NUL \<notin> set s \<Longrightarrow> length orig \<le> 87 \<Longrightarrow> NUL \<notin> set orig \<Longrightarrow>
   recalled orig h (k - n) (((\<lambda>w. terminal_key x w (CHR 0x11)) ^^ n) w)"
proof (induction n)
  case (Suc n)
  let ?w = "((\<lambda>w. terminal_key x w (CHR 0x11)) ^^ n) w"
  have w: "recalled orig h (k - n) ?w" using Suc by blast
  have e: "editing ?w" using w by (simp add: recalled_def)
  show ?case using key_down_recalled [OF w Suc.prems(2) refl Suc.prems(3,4)] terminal_key_browse(2) [OF e, of x] by simp
qed simp



end
