(* ===== verification/TermOutput.thy ===== *)
theory TermOutput
  imports Terminal
begin

text \<open>
  The rows of a terminal as a bounded log of lines, and what the output of programs makes of them.
\<close>

section \<open>The rows are a bounded log\<close>

definition screen :: "twin \<Rightarrow> string list" where
  "screen w = map (tlines w) [0 ..< total_rows w]"

function text_lines :: "string \<Rightarrow> string list" where
  "text_lines [] = []"
| "text_lines (c # s) = takeWhile (\<lambda>c. c \<noteq> CHR 0x0A) (c # s) # text_lines (drop 1 (dropWhile (\<lambda>c. c \<noteq> CHR 0x0A) (c # s)))"
  by pat_completeness auto
termination
  by (relation "measure length") (auto simp: le_imp_less_Suc length_dropWhile_le less_Suc_eq_le intro: diff_le_self [THEN le_trans])

lemma text_lines_nl [simp]: "text_lines (CHR 0x0A # s) = [] # text_lines s"
  by simp

lemma text_lines_line:
  assumes "CHR 0x0A \<notin> set l"
  shows "text_lines l = (if l = [] then [] else [l])"
    "text_lines (l @ CHR 0x0A # s) = l # text_lines s"
proof -
  have t: "takeWhile (\<lambda>c. c \<noteq> CHR 0x0A) l = l" using assms by (auto intro: takeWhile_eq_all_conv [THEN iffD2])
  have d: "dropWhile (\<lambda>c. c \<noteq> CHR 0x0A) l = []" using assms by (auto simp: dropWhile_eq_Nil_conv)
  have "takeWhile (\<lambda>c. c \<noteq> CHR 0x0A) (l @ CHR 0x0A # s) = l" "dropWhile (\<lambda>c. c \<noteq> CHR 0x0A) (l @ CHR 0x0A # s) = CHR 0x0A # s"
    using t d assms by (auto simp: takeWhile_append dropWhile_append)
  moreover have e: "text_lines x = takeWhile (\<lambda>c. c \<noteq> CHR 0x0A) x # text_lines (drop 1 (dropWhile (\<lambda>c. c \<noteq> CHR 0x0A) x))" if "x \<noteq> []" for x
    using that by (metis list.exhaust text_lines.simps(2))
  ultimately show "text_lines (l @ CHR 0x0A # s) = l # text_lines s" using e [of "l @ CHR 0x0A # s"] by (simp only: list.sel drop_Suc_Cons One_nat_def drop_0) simp
  show "text_lines l = (if l = [] then [] else [l])"
  proof (cases "l = []")
    case False
    then show ?thesis using e [OF False] unfolding t d by (simp only: if_False drop_Nil text_lines.simps(1))
  qed simp
qed

declare text_lines.simps(2) [simp del]

lemma newest_append: "newest n (newest n xs @ ys) = newest n (xs @ ys)"
proof (cases "length xs \<le> n")
  case False
  then have "length ys + (length xs - n) = length xs + length ys - n" by simp
  then show ?thesis using False by (simp add: newest_def drop_append add.commute)
qed simp

lemma screen_put_row:
  assumes "total_rows w \<le> 64"
  shows "screen (put_row (make_room w) s) = newest 64 (screen w @ [s])" "total_rows (put_row (make_room w) s) \<le> 64"
proof -
  have "screen (put_row w s) = screen w @ [s]" by (simp add: screen_def put_row_def)
  moreover have "screen (shift_rows w) = drop 1 (screen w)" if "total_rows w = 64"
    using that by (intro nth_equalityI) (simp_all add: screen_def shift_rows_def)
  moreover have "screen (put_row (w\<lparr>v_offset := v\<rparr>) s) = screen (put_row w s)" "total_rows (put_row (w\<lparr>v_offset := v\<rparr>) s) = total_rows (put_row w s)" for v w
    by (simp_all add: screen_def put_row_def)
  moreover have "screen (put_row w s) = screen w @ [s]" "total_rows (put_row w s) = total_rows w + 1" for w
    by (simp_all add: screen_def put_row_def)
  moreover have "total_rows (shift_rows w) = 63" "length (screen w) = total_rows w" by (simp_all add: shift_rows_def screen_def)
  ultimately show "screen (put_row (make_room w) s) = newest 64 (screen w @ [s])" "total_rows (put_row (make_room w) s) \<le> 64"
    using assms by (cases "total_rows w = 64"; simp add: make_room_def newest_def Let_def)+
qed

lemma append_row_screen:
  assumes "total_rows w \<le> 64"
  shows "screen (append_row w s) = newest 64 (screen w @ [s])" "total_rows (append_row w s) \<le> 64"
    "terminal_is_at_bottom (append_row w s)"
proof -
  let ?w = "put_row (make_room w) s"
  have [simp]: "screen (w\<lparr>v_offset := v\<rparr>) = screen w" "terminal_visible_rows (w\<lparr>v_offset := v\<rparr>) = terminal_visible_rows w" for v w
    by (simp_all add: screen_def terminal_visible_rows_def terminal_line_h_def terminal_char_h_def terminal_font_scale_def)
  show "screen (append_row w s) = newest 64 (screen w @ [s])" "total_rows (append_row w s) \<le> 64"
    using screen_put_row [OF assms] by (simp_all add: append_row_def Let_def)
  show "terminal_is_at_bottom (append_row w s)"
    by (simp add: append_row_def Let_def terminal_is_at_bottom_def terminal_scroll_max_def)
qed

lemma append_loop_screen:
  assumes "CHR 0x0A \<notin> set l" "total_rows w \<le> 64"
  shows "screen (append_loop w (take 99 l) p) = newest 64 (screen w @ map (take 99) (text_lines (l @ p))) \<and>
    total_rows (append_loop w (take 99 l) p) \<le> 64 \<and>
    (l @ p \<noteq> [] \<longrightarrow> terminal_is_at_bottom (append_loop w (take 99 l) p))"
  using assms
proof (induction p arbitrary: w l)
  case Nil
  have "newest 64 (screen w) = screen w" using Nil by (simp add: newest_def screen_def)
  then show ?case using Nil append_row_screen [of w "take 99 l"] by (simp add: text_lines_line)
next
  case (Cons c p)
  show ?case
  proof (cases "c = CHR 0x0A")
    case True
    let ?w = "append_row w (take 99 l)"
    note r = append_row_screen [OF Cons.prems(2), of "take 99 l"]
    have "append_loop w (take 99 l) (c # p) = append_loop ?w (take 99 []) p" using True by simp
    moreover have "terminal_is_at_bottom (append_loop ?w (take 99 []) p)"
      using Cons.IH [of "[]" ?w] r by (cases "p = []") simp_all
    ultimately show ?thesis
      using Cons.IH [of "[]" ?w] r Cons.prems True newest_append [of 64 "screen w @ [take 99 l]"]
      by (simp add: text_lines_line)
  next
    case False
    have "take 99 (l @ [c]) = (if length (take 99 l) < 99 then take 99 l @ [c] else take 99 l)" by simp
    then show ?thesis using Cons.IH [of "l @ [c]" w] Cons.prems False by simp
  qed
qed

lemma append_line_screen:
  assumes "total_rows w \<le> 64" "t_kind w = 0"
  shows "screen (append_terminal_line w s) = newest 64 (screen w @ map (take 99) (text_lines s))"
    "total_rows (append_terminal_line w s) \<le> 64" "s \<noteq> [] \<Longrightarrow> terminal_is_at_bottom (append_terminal_line w s)"
  using append_loop_screen [of "[]" w s] assms by (simp_all add: append_terminal_line_def)

section \<open>Output of programs becomes rows\<close>

lemma append_row_fields [simp]:
  "t_kind (append_row w s) = t_kind w" "t_active (append_row w s) = t_active w" "app_stdout (append_row w s) = app_stdout w"
  by (simp_all add: append_row_def put_row_def make_room_def shift_rows_def Let_def)

lemma append_loop_fields [simp]:
  "t_kind (append_loop w l s) = t_kind w \<and> t_active (append_loop w l s) = t_active w \<and> app_stdout (append_loop w l s) = app_stdout w"
  by (induction w l s rule: append_loop.induct) (simp_all split: if_split)

lemma append_line_fields [simp]:
  "t_kind (append_terminal_line w s) = t_kind w" "t_active (append_terminal_line w s) = t_active w"
  "app_stdout (append_terminal_line w s) = app_stdout w"
  by (simp_all add: append_terminal_line_def)

definition out_ready :: "twin \<Rightarrow> bool" where
  "out_ready w \<longleftrightarrow> t_kind w = 0 \<and> t_active w \<and> total_rows w \<le> 64"

definition shown_lines :: "string \<Rightarrow> string list" where
  "shown_lines s = map (take 99) (filter (\<lambda>l. l \<noteq> []) (text_lines s))"

lemma stdout_update [simp]:
  "screen (w\<lparr>app_stdout := l\<rparr>) = screen w" "out_ready (w\<lparr>app_stdout := l\<rparr>) = out_ready w"
  by (simp_all add: screen_def out_ready_def)

lemma flush_line:
  assumes "out_ready w" "CHR 0x0A \<notin> set (app_stdout w)"
  shows "out_ready (terminal_app_stdout_flush w)" "app_stdout (terminal_app_stdout_flush w) = []"
    "screen (terminal_app_stdout_flush w) = newest 64 (screen w @ shown_lines (app_stdout w))"
proof -
  have n: "newest 64 (screen w) = screen w" using assms(1) by (simp add: screen_def out_ready_def)
  have r: "total_rows w \<le> 64" "t_kind w = 0" using assms(1) by (simp_all add: out_ready_def)
  note a = append_line_screen [OF r, of "app_stdout w"]
  show "out_ready (terminal_app_stdout_flush w)" "app_stdout (terminal_app_stdout_flush w) = []"
    using a r assms(1) by (simp_all add: terminal_app_stdout_flush_def out_ready_def)
  show "screen (terminal_app_stdout_flush w) = newest 64 (screen w @ shown_lines (app_stdout w))"
    using a(1) n r text_lines_line(1) [OF assms(2)] by (simp add: terminal_app_stdout_flush_def shown_lines_def)
qed

lemma putc_char:
  assumes "out_ready w" "c \<noteq> CHR 0x0A" "c \<noteq> CHR 0x0D" "length (app_stdout w) < 2047"
  shows "terminal_app_stdout_putc w c = w\<lparr>app_stdout := app_stdout w @ [c]\<rparr>"
  using assms by (simp add: terminal_app_stdout_putc_def out_ready_def)

lemma first_line: "x \<noteq> [] \<Longrightarrow> takeWhile (\<lambda>c. c \<noteq> CHR 0x0A) x \<in> set (text_lines x)"
  by (metis list.exhaust list.set_intros(1) text_lines.simps(2))

lemma shown_lines_line: "CHR 0x0A \<notin> set l \<Longrightarrow> shown_lines (l @ CHR 0x0A # s) = shown_lines l @ shown_lines s"
  by (simp add: shown_lines_def text_lines_line)

lemma putc_lines:
  assumes "out_ready w" "CHR 0x0A \<notin> set (app_stdout w)"
    and "\<forall>l\<in>set (text_lines (app_stdout w @ filter (\<lambda>c. c \<noteq> CHR 0x0D) p)). length l \<le> 2047"
  shows "out_ready (terminal_app_stdout_puts w p) \<and> app_stdout (terminal_app_stdout_puts w p) = [] \<and>
    screen (terminal_app_stdout_puts w p) =
      newest 64 (screen w @ shown_lines (app_stdout w @ filter (\<lambda>c. c \<noteq> CHR 0x0D) p))"
  using assms
proof (induction p arbitrary: w)
  case Nil
  then show ?case using flush_line [of w] by (simp add: terminal_app_stdout_puts_def)
next
  case (Cons c p)
  let ?q = "filter (\<lambda>c. c \<noteq> CHR 0x0D) p" and ?l = "app_stdout w"
  have step: "terminal_app_stdout_puts w (c # p) = terminal_app_stdout_puts (terminal_app_stdout_putc w c) p"
    by (simp add: terminal_app_stdout_puts_def)
  consider "c = CHR 0x0D" | "c = CHR 0x0A" | "c \<noteq> CHR 0x0D" "c \<noteq> CHR 0x0A" by blast
  then show ?case
  proof cases
    case 1
    then have "terminal_app_stdout_putc w c = w" by (simp add: terminal_app_stdout_putc_def)
    then show ?thesis using step Cons.IH [OF Cons.prems(1,2)] Cons.prems(3) 1 by simp
  next
    case 2
    let ?v = "terminal_app_stdout_flush w"
    note f = flush_line [OF Cons.prems(1,2)]
    have v: "terminal_app_stdout_putc w c = ?v"
      using 2 Cons.prems(1) by (simp add: terminal_app_stdout_putc_def out_ready_def)
    have q: "filter (\<lambda>c. c \<noteq> CHR 0x0D) (c # p) = CHR 0x0A # ?q" using 2 by simp
    have "\<forall>l\<in>set (text_lines (app_stdout ?v @ ?q)). length l \<le> 2047"
      using Cons.prems(3) text_lines_line(2) [OF Cons.prems(2), of ?q] f(2) unfolding q by simp
    from Cons.IH [OF f(1) _ this] show ?thesis
      using step v f(2,3) q shown_lines_line [OF Cons.prems(2), of ?q] newest_append [of 64 "screen w @ shown_lines ?l"] by simp
  next
    case 3
    let ?v = "w\<lparr>app_stdout := ?l @ [c]\<rparr>"
    have q: "filter (\<lambda>c. c \<noteq> CHR 0x0D) (c # p) = c # ?q" using 3 by simp
    have "length (takeWhile (\<lambda>c. c \<noteq> CHR 0x0A) (?l @ c # ?q)) \<ge> length ?l + 1"
      using Cons.prems(2) 3 by (subst takeWhile_append2) auto
    moreover have "length (takeWhile (\<lambda>c. c \<noteq> CHR 0x0A) (?l @ c # ?q)) \<le> 2047"
      using Cons.prems(3) first_line [of "?l @ c # ?q"] unfolding q by blast
    ultimately have len: "length ?l < 2047" by simp
    have v: "terminal_app_stdout_putc w c = ?v" using putc_char Cons.prems(1) 3 len by blast
    have "out_ready ?v" "CHR 0x0A \<notin> set (app_stdout ?v)" using Cons.prems(1,2) 3 by simp_all
    from Cons.IH [OF this] show ?thesis using step v Cons.prems(3) unfolding q by simp
  qed
qed

text \<open>What a program prints is what the window shows. Printed text without an open line before
  it becomes rows: its lines in order, without carriage returns, each cut to 99 characters, empty
  lines dropped, behind the rows that were there, of which the newest 64 stay. (Lines have at most
  2047 characters, the capacity of the line buffer.)\<close>

theorem program_output_rows:
  assumes "out_ready w" "app_stdout w = []"
    and "\<forall>l\<in>set (text_lines (filter (\<lambda>c. c \<noteq> CHR 0x0D) s)). length l \<le> 2047"
  shows "screen (terminal_app_stdout_puts w s) =
           newest 64 (screen w @ map (take 99) (filter (\<lambda>l. l \<noteq> []) (text_lines (filter (\<lambda>c. c \<noteq> CHR 0x0D) s))))
         \<and> app_stdout (terminal_app_stdout_puts w s) = []"
  using putc_lines [of w s] assms by (simp add: shown_lines_def)

theorem program_output_rows_witness:
  "screen (terminal_app_stdout_puts fresh_terminal (''hi'' @ [CHR 0x0D, CHR 0x0A, CHR 0x0A] @ ''yo'')) = [PROMPT, ''hi'', ''yo'']"
proof -
  let ?s = "''hi'' @ [CHR 0x0D, CHR 0x0A, CHR 0x0A] @ ''yo''"
  have l: "text_lines (filter (\<lambda>c. c \<noteq> CHR 0x0D) ?s) = [''hi'', '''', ''yo'']" by (simp add: text_lines.simps(2))
  have "screen fresh_terminal = [PROMPT]" "out_ready fresh_terminal" "app_stdout fresh_terminal = []"
    by (simp_all add: screen_def out_ready_def fresh_terminal_def)
  then show ?thesis using program_output_rows [of fresh_terminal ?s] unfolding l by (simp add: newest_def)
qed

end
