(* ===== verification/TermSafe.thy ===== *)
theory TermSafe
  imports TermLine TermOutput
begin

text \<open>
  The bounds of a terminal's buffers as one invariant of the window, kept by the handling of every
  key: rows, edited line, history, secret, output line and key queue stay within the arrays of
  \<open>struct Window\<close>.
\<close>

section \<open>The invariant\<close>

definition hist_cell :: "string \<Rightarrow> bool" where
  "hist_cell s \<longleftrightarrow> length s \<le> 99 \<and> NUL \<notin> set s"

definition window_ok :: "twin \<Rightarrow> bool" where
  "window_ok w \<longleftrightarrow>
     total_rows w \<le> 64 \<and> (\<forall>i. length (tlines w i) \<le> 99) \<and> edit_ok w \<and>
     hist_cell (saved_cmd w) \<and> (\<forall>i. hist_cell (history w i)) \<and> hist_count w \<le> 512 \<and>
     -1 \<le> hist_idx w \<and> hist_idx w < 512 \<and> length (ssh_auth_buf w) \<le> 63 \<and> length (app_stdout w) \<le> 2047 \<and> keys_wf w"

lemma window_ok_update [simp]:
  "window_ok (w\<lparr>v_offset := n\<rparr>) = window_ok w" "window_ok (w\<lparr>cur_col := n\<rparr>) = window_ok w"
  "window_ok (w\<lparr>has_saved_cmd := b\<rparr>) = window_ok w" "window_ok (w\<lparr>mailbox := b\<rparr>) = window_ok w"
  "window_ok (w\<lparr>executing_cmd := b\<rparr>) = window_ok w" "window_ok (w\<lparr>cancel_requested := b\<rparr>) = window_ok w"
  "window_ok (w\<lparr>waiting_wget := b\<rparr>) = window_ok w" "window_ok (w\<lparr>submit_locked := b\<rparr>) = window_ok w"
  "window_ok (w\<lparr>shell_status := s\<rparr>) = window_ok w" "window_ok (w\<lparr>ssh_auth_mode := n\<rparr>) = window_ok w"
  "window_ok (w\<lparr>out_buf := s\<rparr>) = window_ok w"
  by (simp_all add: window_ok_def edit_ok_def keys_wf_def)

lemma window_ok_edit: "window_ok w \<Longrightarrow> edit_ok w"
  by (simp add: window_ok_def)

lemma window_ok_rows:
  assumes "window_ok w" "n \<le> 64" "\<And>i. length (t i) \<le> 99"
  shows "window_ok (w\<lparr>tlines := t, total_rows := n\<rparr>)" "window_ok (w\<lparr>tlines := t\<rparr>)" "window_ok (w\<lparr>total_rows := n\<rparr>)"
  using assms by (simp_all add: window_ok_def edit_ok_def keys_wf_def)

lemma window_ok_row: "window_ok w \<Longrightarrow> length (tlines w i) \<le> 99"
  by (simp add: window_ok_def)

lemma PROMPT_length [simp]: "length PROMPT = 12"
  by (simp add: PROMPT_def)

lemma edit_text_length: "edit_ok w \<Longrightarrow> length (buf_text (cmd_buf w)) = edit_len w"
  using edit_text [of w] by (simp add: edited_def edit_ok_def)

section \<open>Every operation keeps it\<close>

lemma ok_redraw:
  assumes "window_ok w"
  shows "window_ok (redraw_prompt_line w r)"
proof -
  have "length (buf_text (cmd_buf w)) \<le> 87" using assms edit_text_length [of w] by (simp add: window_ok_def edit_ok_def)
  then show ?thesis using assms by (simp add: redraw_prompt_line_def window_ok_def edit_ok_def keys_wf_def)
qed

lemma edit_ok_put_text: "length s \<le> 87 \<Longrightarrow> NUL \<notin> set s \<Longrightarrow>
    edit_ok (w\<lparr>cmd_buf := put_text b s, edit_len := length s, cursor_pos := length s\<rparr>)"
  by (auto simp: edit_ok_def put_text_def) (metis nth_mem)

lemma window_ok_line:
  assumes "window_ok w" "edit_ok (w\<lparr>cmd_buf := b, edit_len := n, cursor_pos := c\<rparr>)"
  shows "window_ok (w\<lparr>cmd_buf := b, edit_len := n, cursor_pos := c\<rparr>)"
  using assms by (simp add: window_ok_def keys_wf_def)

lemma ok_load: "window_ok w \<Longrightarrow> hist_cell s \<Longrightarrow> window_ok (load_edit_buffer w s)"
  unfolding load_edit_buffer_def Let_def
  by (intro window_ok_line edit_ok_put_text) (auto simp: hist_cell_def dest: in_set_takeD)

lemma ok_clear_prompt: "window_ok w \<Longrightarrow> window_ok (clear_prompt_input w)"
  by (simp add: clear_prompt_input_def window_ok_def edit_ok_def keys_wf_def)

lemma ok_make_room:
  assumes "window_ok w"
  shows "window_ok (shift_rows w)" "window_ok (make_room w)" "length s \<le> 99 \<Longrightarrow> total_rows w < 64 \<Longrightarrow> window_ok (put_row w s)"
  using assms by (auto simp: shift_rows_def make_room_def put_row_def Let_def window_ok_row intro!: window_ok_rows(1))

lemma make_room_rows: "total_rows w \<le> 64 \<Longrightarrow> total_rows (make_room w) < 64"
  by (simp add: make_room_def shift_rows_def Let_def)

lemma ok_append_row: "window_ok w \<Longrightarrow> length s \<le> 99 \<Longrightarrow> window_ok (append_row w s)"
  using ok_make_room(3) [OF ok_make_room(2), of w s] make_room_rows [of w] by (simp add: append_row_def Let_def window_ok_def [of w])

lemma ok_append_loop: "window_ok w \<Longrightarrow> length l \<le> 99 \<Longrightarrow> window_ok (append_loop w l s)"
  by (induction w l s rule: append_loop.induct) (simp_all add: ok_append_row)

lemma ok_append_line: "window_ok w \<Longrightarrow> window_ok (append_terminal_line w s)"
  by (simp add: append_terminal_line_def ok_append_loop)

lemma ok_append_prompt: "window_ok w \<Longrightarrow> window_ok (terminal_append_prompt w)"
  using ok_make_room(3) [OF ok_make_room(2), of w PROMPT] by (simp add: terminal_append_prompt_def Let_def ok_make_room)

lemma ok_scroll: "window_ok w \<Longrightarrow> window_ok (terminal_scroll_to_bottom w)"
  by (simp add: terminal_scroll_to_bottom_def)

lemma ok_clear_queue:
  assumes "window_ok w"
  shows "window_ok (clear_window_input_queue w)"
proof -
  have "ring_wf 256 (input_q w)" using assms by (simp add: window_ok_def keys_wf_def)
  then have "ring_wf 256 ((input_q w)\<lparr>ring_head := ring_tail (input_q w)\<rparr>)" by (simp add: ring_wf_def)
  then show ?thesis using assms by (simp add: clear_window_input_queue_def window_ok_def edit_ok_def keys_wf_def)
qed

lemmas ok_ops = ok_redraw ok_load ok_clear_prompt ok_append_line ok_append_prompt ok_scroll ok_clear_queue

lemma ok_unlock: "window_ok w \<Longrightarrow> window_ok (terminal_unlock_after_cancel w)"
  by (simp add: terminal_unlock_after_cancel_def ok_ops)

lemma ok_ssh_prompt:
  assumes "window_ok w"
  shows "window_ok (terminal_refresh_ssh_auth_prompt w)"
proof -
  define p where "p = (if ssh_auth_mode w = 2 then ''ssh boot seal '' else ''ssh auth '')"
  define d where "d = p @ replicate (min (length (ssh_auth_buf w)) (99 - length p)) (CHR ''*'')"
  have "length (ssh_auth_buf w) \<le> 63" using assms by (simp add: window_ok_def)
  then have "length d \<le> 87" "NUL \<notin> set d" by (auto simp: d_def p_def)
  then have "window_ok (w\<lparr>cmd_buf := put_text (cmd_buf w) d, edit_len := length d, cursor_pos := length d\<rparr>)"
    using window_ok_line [OF assms edit_ok_put_text] by blast
  then show ?thesis using assms ok_redraw
    unfolding terminal_refresh_ssh_auth_prompt_def Let_def d_def p_def by simp
qed

lemma ok_auth_buf: "window_ok w \<Longrightarrow> length s \<le> 63 \<Longrightarrow> window_ok (w\<lparr>ssh_auth_buf := s\<rparr>)"
  by (simp add: window_ok_def edit_ok_def keys_wf_def)

lemma ok_begin_secret: "window_ok w \<Longrightarrow> window_ok (terminal_begin_ssh_secret w m)"
proof -
  assume "window_ok w"
  then have "window_ok (w\<lparr>ssh_auth_mode := m, ssh_auth_buf := [], submit_locked := False\<rparr>)"
    using ok_auth_buf [of w "[]"] by (simp add: window_ok_def edit_ok_def keys_wf_def)
  then show ?thesis using \<open>window_ok w\<close> by (simp add: terminal_begin_ssh_secret_def ok_ops ok_ssh_prompt)
qed

lemma ok_cancel_secret: "window_ok w \<Longrightarrow> window_ok (terminal_cancel_ssh_auth w)"
proof -
  assume "window_ok w"
  then have "window_ok (w\<lparr>ssh_auth_mode := 0, ssh_auth_buf := [], submit_locked := False\<rparr>)"
    using ok_auth_buf [of w "[]"] by (simp add: window_ok_def edit_ok_def keys_wf_def)
  then show ?thesis using \<open>window_ok w\<close> by (simp add: terminal_cancel_ssh_auth_def Let_def ok_ops)
qed

lemma window_ok_cell: "window_ok w \<Longrightarrow> hist_cell (history w i)" "window_ok w \<Longrightarrow> hist_cell (saved_cmd w)"
  by (simp_all add: window_ok_def)

lemma take_cell: "hist_cell s \<Longrightarrow> hist_cell (take n s)"
  by (auto simp: hist_cell_def dest: in_set_takeD)

lemma buf_text_cell: "window_ok w \<Longrightarrow> hist_cell (buf_text (cmd_buf w))"
proof -
  assume w: "window_ok w"
  then have "length (buf_text (cmd_buf w)) \<le> 99" using edit_text_length [of w] by (simp add: window_ok_def edit_ok_def)
  moreover have "NUL \<notin> set (buf_text (cmd_buf w))" unfolding buf_text_def using set_takeWhileD by fastforce
  ultimately show ?thesis by (simp add: hist_cell_def)
qed

lemma ok_history_set: "window_ok w \<Longrightarrow> hist_cell s \<Longrightarrow> window_ok (terminal_history_set w i s)"
  using take_cell [of s] by (simp add: terminal_history_set_def window_ok_def edit_ok_def keys_wf_def)

lemma ok_history_enter:
  assumes "window_ok w" "hist_cell cmd"
  shows "window_ok (history_enter w cmd)"
proof -
  have "window_ok (foldl (\<lambda>w i. terminal_history_set w (int i) (history w (i - 1))) w is)" for "is"
    using assms(1) by (induction "is" arbitrary: w) (simp_all add: ok_history_set window_ok_cell)
  moreover have "window_ok (w\<lparr>hist_count := hist_count w + 1\<rparr>)" if "window_ok w" "hist_count w < 512" for w
    using that by (simp add: window_ok_def edit_ok_def keys_wf_def)
  ultimately have "window_ok (if hist_count v < 512 then v\<lparr>hist_count := hist_count v + 1\<rparr> else v)"
    if "v = terminal_history_set (foldl (\<lambda>w i. terminal_history_set w (int i) (history w (i - 1))) w is) 0 cmd" for v "is"
    using that ok_history_set [OF _ assms(2)] by auto
  then show ?thesis using assms(1) unfolding history_enter_def Let_def by simp
qed

lemma visible_cols_le: "terminal_visible_cols w \<le> 99"
  unfolding terminal_visible_cols_def Let_def by (auto simp: nat_le_iff)

lemma ok_show_output: "window_ok w \<Longrightarrow> n \<le> 99 \<Longrightarrow> window_ok (show_output w n res)"
proof (induction w n res rule: show_output.induct)
  case (1 w n res)
  show ?case
  proof (cases "res = [] \<or> n = 0")
    case True
    then show ?thesis using 1(2) by (subst show_output.simps) simp
  next
    case False
    let ?t = "length (takeWhile (\<lambda>c. c \<noteq> CHR 0x0A) (take n res))"
    have "?t \<le> 99" using 1(3) length_takeWhile_le [of "\<lambda>c. c \<noteq> CHR 0x0A" "take n res"] by simp
    then have "window_ok (if total_rows (make_room w) < 64 then put_row (make_room w) (take ?t res) else make_room w)"
      using ok_make_room(3) [OF ok_make_room(2), of w "take ?t res"] ok_make_room(2) 1(2) by simp
    from 1(1) [OF False refl refl refl refl this 1(3)] show ?thesis
      using False by (subst show_output.simps) (simp add: Let_def)
  qed
qed

section \<open>Handling a key\<close>

text \<open>What is called outside the terminal keeps the window's bounds.\<close>

definition ext_ok :: "ext \<Rightarrow> bool" where
  "ext_ok x \<longleftrightarrow> (\<forall>w. window_ok w \<longrightarrow>
     (\<forall>c. window_ok (exec_single_cmd x w c)) \<and> (\<forall>r. window_ok (try_tab_complete x w r)) \<and>
     (\<forall>k. window_ok (other_window_key x w k)) \<and> window_ok (submit_ssh_auth x w) \<and>
     window_ok (snd (jit_cancel_by_owner x w)))"

lemma ok_run_command:
  assumes x: "ext_ok x" and w: "window_ok w"
  shows "window_ok (run_command x w)"
proof -
  let ?cmd = "buf_text (cmd_buf w)"
  have c: "hist_cell ?cmd" using buf_text_cell [OF w] .
  have h: "window_ok (history_enter v ?cmd)" if "window_ok v" for v using ok_history_enter [OF that c] .
  have clear: "window_ok (v\<lparr>total_rows := Suc 0, v_offset := 0, tlines := (tlines v)(0 := PROMPT)\<rparr>)" if "window_ok v" for v
    using that by (simp add: window_ok_def edit_ok_def keys_wf_def)
  have out: "window_ok (terminal_scroll_to_bottom (show_output v (terminal_visible_cols v) (out_buf v)))" if "window_ok v" for v
    using that by (simp add: ok_scroll ok_show_output visible_cols_le)
  have e: "window_ok (exec_single_cmd x v ?cmd)" if "window_ok v" for v using that x by (simp add: ext_ok_def)
  show ?thesis
    using w unfolding run_command_def Let_def
    by (simp add: h clear out e ok_ops ok_unlock ok_begin_secret ok_make_room terminal_begin_ssh_auth_def terminal_begin_ssh_boot_seal_def
        split del: if_split cong: if_cong) (simp add: h clear out e ok_ops ok_unlock ok_begin_secret ok_make_room)
qed

lemma ok_after_enter: "window_ok w \<Longrightarrow> window_ok (after_enter c w)"
  using ok_make_room(3) [OF ok_make_room(2), of "clear_prompt_input w" PROMPT]
  by (simp add: after_enter_def Let_def ok_ops ok_make_room)

lemma ok_key_enter: "ext_ok x \<Longrightarrow> window_ok w \<Longrightarrow> window_ok (key_enter x w)"
  by (simp add: key_enter_def Let_def ok_after_enter ok_run_command ok_begin_secret terminal_begin_ssh_auth_def
      terminal_begin_ssh_boot_seal_def)

lemma ok_browse:
  assumes w: "window_ok w"
  shows "window_ok (key_up w r)" "window_ok (key_down w r)"
proof -
  have h: "window_ok (v\<lparr>hist_idx := i\<rparr>)" if "window_ok v" "-1 \<le> i" "i < 512" for v i
    using that by (simp add: window_ok_def edit_ok_def keys_wf_def)
  have s: "window_ok (v\<lparr>saved_cmd := buf_text (cmd_buf v)\<rparr>)" if "window_ok v" for v
    using that buf_text_cell [OF that] by (simp add: window_ok_def edit_ok_def keys_wf_def)
  have b: "-1 \<le> hist_idx w" "hist_idx w < 512" "hist_count w \<le> 512" using w by (simp_all add: window_ok_def)
  have n: "hist_cell []" by (simp add: hist_cell_def)
  have c: "hist_cell (history w i)" "hist_cell (saved_cmd w)" for i using window_ok_cell w by auto
  let ?u = "w\<lparr>submit_locked := False\<rparr>"
  have "window_ok (if hist_idx ?u = -1 then ?u\<lparr>saved_cmd := buf_text (cmd_buf ?u), has_saved_cmd := True\<rparr> else ?u)"
    using s [of ?u] w by simp
  then show "window_ok (key_up w r)"
    using b w unfolding key_up_def Let_def
    by (auto intro!: ok_redraw ok_load h window_ok_cell)
  show "window_ok (key_down w r)"
    using b w c n unfolding key_down_def Let_def
    by (auto intro!: ok_redraw ok_load h window_ok_cell)
qed

lemma ok_line_redraw:
  assumes "window_ok w"
  shows "edit_ok (w\<lparr>cursor_pos := c\<rparr>) \<Longrightarrow> window_ok (redraw_prompt_line (w\<lparr>cursor_pos := c\<rparr>) r)"
    "edit_ok (w\<lparr>cmd_buf := b, edit_len := n\<rparr>) \<Longrightarrow> window_ok (redraw_prompt_line (w\<lparr>cmd_buf := b, edit_len := n\<rparr>) r)"
    "edit_ok (w\<lparr>cmd_buf := b, edit_len := n, cursor_pos := c\<rparr>) \<Longrightarrow>
      window_ok (redraw_prompt_line (w\<lparr>cmd_buf := b, edit_len := n, cursor_pos := c\<rparr>) r)"
  using window_ok_line [OF assms, where b = "cmd_buf w" and n = "edit_len w" and c = c]
    window_ok_line [OF assms, where b = b and n = n and c = "cursor_pos w"]
    window_ok_line [OF assms, where b = b and n = n and c = c] by (simp_all add: ok_redraw)

lemma ok_line_keys:
  assumes w: "window_ok w"
  shows "window_ok (key_left w r)" "window_ok (key_right w r)" "window_ok (key_home w r)" "window_ok (key_end w r)"
    "window_ok (key_delete w r)" "window_ok (key_backspace w r)" "key \<noteq> NUL \<Longrightarrow> window_ok (key_insert w r key)"
proof -
  note e = window_ok_edit [OF w]
  show "window_ok (key_left w r)"
    using edit_left [OF e, of r] w ok_line_redraw(1) [OF w] unfolding key_left_def by (simp split: if_splits)
  show "window_ok (key_right w r)"
    using edit_right [OF e, of r] w ok_line_redraw(1) [OF w] unfolding key_right_def by (simp split: if_splits)
  show "window_ok (key_home w r)"
    using edit_home [OF e, of r] w ok_line_redraw(1) [OF w] unfolding key_home_def by (simp split: if_splits)
  show "window_ok (key_end w r)"
    using edit_end [OF e, of r] w ok_line_redraw(1) [OF w] unfolding key_end_def by (simp split: if_splits)
  show "window_ok (key_delete w r)"
    using edit_delete [OF e, of r] w ok_line_redraw(2) [OF w] unfolding key_delete_def by (simp split: if_splits)
  show "window_ok (key_backspace w r)"
    using edit_backspace [OF e, of r] w ok_line_redraw(3) [OF w] unfolding key_backspace_def by (auto split: if_splits)
  show "window_ok (key_insert w r key)" if "key \<noteq> NUL"
    using edit_insert [OF e that, of r] w ok_line_redraw(3) [OF w] unfolding key_insert_def by (simp split: if_splits)
qed

lemma ok_edit_key: "ext_ok x \<Longrightarrow> window_ok w \<Longrightarrow> k = of_char key \<Longrightarrow> window_ok (edit_key x w r k key)"
proof -
  assume a: "ext_ok x" "window_ok w" "k = of_char key"
  have "key \<noteq> NUL" if "k \<ge> 32" using that a(3) by auto
  then show "window_ok (edit_key x w r k key)"
    using a unfolding edit_key_def by (simp add: ok_browse ok_line_keys ext_ok_def)
qed

lemma ok_unlocked: "window_ok w \<Longrightarrow> window_ok (unlocked w k)"
  by (simp add: unlocked_def Let_def ok_redraw)

lemma ok_line_key: "ext_ok x \<Longrightarrow> window_ok w \<Longrightarrow> k = of_char key \<Longrightarrow> window_ok (line_key x w k key)"
  by (simp add: line_key_def Let_def ok_edit_key ok_key_enter)

lemma ok_ctrl_c:
  assumes x: "ext_ok x" and w: "window_ok w"
  shows "window_ok (key_ctrl_c x w)"
proof -
  have "window_ok (snd (jit_cancel_by_owner x (w\<lparr>cancel_requested := True\<rparr>)))" using x w by (simp add: ext_ok_def)
  then show ?thesis using w unfolding key_ctrl_c_def Let_def
    by (cases "jit_cancel_by_owner x (w\<lparr>cancel_requested := True\<rparr>)") (simp add: ok_ops ok_unlock)
qed

lemma ok_terminal_key: "ext_ok x \<Longrightarrow> window_ok w \<Longrightarrow> window_ok (terminal_key x w key)"
  by (simp add: terminal_key_def Let_def ok_ctrl_c ok_line_key ok_unlocked)

lemma ok_secret_key:
  assumes "ext_ok x" "window_ok w"
  shows "window_ok (secret_key x w key)"
proof -
  have "length (ssh_auth_buf w) \<le> 63" using assms(2) by (simp add: window_ok_def)
  then show ?thesis using assms by (simp add: secret_key_def Let_def ok_cancel_secret ok_ssh_prompt ok_auth_buf ext_ok_def)
qed

lemma ok_handle: 
  assumes x: "ext_ok x" and w: "window_ok w"
  shows "window_ok (handle_window_mailbox x w)"
proof (cases "window_input_pop w")
  case None
  then show ?thesis using w by (simp add: handle_window_mailbox_def)
next
  case (Some a)
  then obtain c v where p: "window_input_pop w = Some (c, v)" by (cases a) auto
  have wf: "keys_wf w" using w by (simp add: window_ok_def)
  obtain q where q: "v = w\<lparr>input_q := q\<rparr>" using p by (auto simp: window_input_pop_def Let_def split: if_splits)
  then have v: "window_ok v" using keys.pop_Some [OF wf p] w by (simp add: window_ok_def edit_ok_def)
  then have "edit_len v < 100" by (simp add: window_ok_def edit_ok_def)
  then show ?thesis using p v x
    by (simp add: handle_window_mailbox_def ok_terminal_key ok_secret_key) (simp add: ext_ok_def)
qed

lemma ok_push: "window_ok w \<Longrightarrow> window_ok (window_input_push w c)"
  using keys.push_queue [of w c] by (simp add: window_ok_def input_push_ring edit_ok_def)

lemma ok_putc: "window_ok w \<Longrightarrow> window_ok (terminal_app_stdout_putc w c)"
proof -
  assume w: "window_ok w"
  have s: "window_ok (v\<lparr>app_stdout := s\<rparr>)" if "window_ok v" "length s \<le> 2047" for v s
    using that by (simp add: window_ok_def edit_ok_def keys_wf_def)
  have f: "window_ok (terminal_app_stdout_flush v)" if "window_ok v" for v
    using that s ok_append_line by (simp add: terminal_app_stdout_flush_def)
  show ?thesis using w f [OF w] s unfolding terminal_app_stdout_putc_def by (simp add: Let_def)
qed

section \<open>Everything that happens to a terminal\<close>

inductive term_step :: "ext \<Rightarrow> twin \<Rightarrow> twin \<Rightarrow> bool" for x where
  pressed: "term_step x w (window_input_push w c)"
| handled: "term_step x w (handle_window_mailbox x w)"
| printed: "term_step x w (terminal_app_stdout_putc w c)"
| flushed: "term_step x w (terminal_app_stdout_flush w)"
| lined: "term_step x w (append_terminal_line w s)"
| pasted: "term_step x w (terminal_paste_clipboard w s)"
| cancelled: "term_step x w (terminal_finish_ctrl_c_cancel w n)"
| seeded: "term_step x w (seed_terminal_history w)"
| resized: "term_step x w (resize_terminal_font w n)"
| scrolled: "term_step x w (terminal_clamp_v_offset w)"

lemma ok_flush: "window_ok w \<Longrightarrow> window_ok (terminal_app_stdout_flush w)"
proof -
  assume w: "window_ok w"
  have "window_ok (v\<lparr>app_stdout := []\<rparr>)" if "window_ok v" for v
    using that by (simp add: window_ok_def edit_ok_def keys_wf_def)
  then show ?thesis using w ok_append_line by (simp add: terminal_app_stdout_flush_def)
qed

lemma ok_pushes: "window_ok w \<Longrightarrow> window_ok (foldl window_input_push w s)"
  by (induction s arbitrary: w) (simp_all add: ok_push)

lemma if_ok: "window_ok v \<Longrightarrow> window_ok w \<Longrightarrow> window_ok (if b then w else v)"
  by simp

lemma seed_cells: "\<forall>s\<in>set seed_commands. hist_cell s"
  unfolding seed_commands_def hist_cell_def by simp

lemma ok_seed: "window_ok w \<Longrightarrow> window_ok (seed_terminal_history w)"
proof -
  assume w: "window_ok w"
  have sets: "window_ok (foldl (\<lambda>w (i, s). terminal_history_set w i s) v es)"
    if "window_ok v" "\<forall>(i, s)\<in>set es. hist_cell s" for v es
    using that by (induction es arbitrary: v) (auto simp: ok_history_set)
  have n: "window_ok (v\<lparr>hist_count := 21, hist_idx := -1\<rparr>)" if "window_ok v" for v
    using that by (simp add: window_ok_def edit_ok_def keys_wf_def)
  have "\<forall>(i, s)\<in>set (zip is seed_commands). hist_cell s" for "is" :: "int list"
    using seed_cells by (auto dest: set_zip_rightD)
  then have "window_ok ((foldl (\<lambda>w (i, s). terminal_history_set w i s) w (zip is seed_commands))\<lparr>hist_count := 21, hist_idx := -1\<rparr>)" for "is"
    using n sets [OF w] by blast
  then show ?thesis using w unfolding seed_terminal_history_def Let_def by (rule if_ok)
qed

lemma ok_font: "window_ok w \<Longrightarrow> window_ok (resize_terminal_font w n)" "window_ok w \<Longrightarrow> window_ok (terminal_clamp_v_offset w)"
proof -
  have "window_ok (v\<lparr>term_font_scale := m\<rparr>) = window_ok v" for v m
    by (simp add: window_ok_def edit_ok_def keys_wf_def)
  then show "window_ok w \<Longrightarrow> window_ok (resize_terminal_font w n)" "window_ok w \<Longrightarrow> window_ok (terminal_clamp_v_offset w)"
    by (simp_all add: resize_terminal_font_def terminal_clamp_v_offset_def Let_def)
qed

lemma ok_step: "term_step x w v \<Longrightarrow> ext_ok x \<Longrightarrow> window_ok w \<Longrightarrow> window_ok v"
  by (induction rule: term_step.induct)
    (simp_all add: ok_push ok_handle ok_putc ok_flush ok_append_line ok_seed ok_font ok_pushes ok_unlock
      terminal_paste_clipboard_def terminal_finish_ctrl_c_cancel_def)

lemma fresh_ok: "window_ok fresh_terminal"
  using fresh_editing by (simp add: window_ok_def editing_def)
    (simp add: fresh_terminal_def hist_cell_def PROMPT_def)


text \<open>With modules that do nothing, after typing a letter and handling it.\<close>

definition quiet_ext :: ext where
  "quiet_ext = \<lparr>exec_single_cmd = (\<lambda>w _. w), try_tab_complete = (\<lambda>w _. w), other_window_key = (\<lambda>w _. w),
     submit_ssh_auth = (\<lambda>w. w), jit_owner_active = (\<lambda>_. False), jit_cancel_by_owner = (\<lambda>w. (0, w))\<rparr>"


end
