(* ===== verification/Launch.thy ===== *)
theory Launch
  imports AppVm AppFs Tasks Clock TermSafe
begin

text \<open>
  User programs from start to exit: \<open>launch_app_file\<close> (\<open>user_cmd.c\<close>), the system calls of the
  trap handler (\<open>trap.c\<close>) and \<open>app_exit_trampoline\<close> (\<open>user.c\<close>), composed from the models of the
  file system, the kernel heap, the descriptors, the ELF loader, the page tables, the scheduler
  and the terminal.
\<close>

section \<open>State\<close>

text \<open>Addresses that the linker chooses: the program area and the tables, the entry points of
  \<open>app_bootstrap\<close> and \<open>app_exit_trampoline\<close>, the stacks.\<close>

record kernel_image =
  lay :: app_layout
  boot_addr :: u32
  exit_addr :: u32
  exit_stack_top :: u32
  stack_top :: "int \<Rightarrow> u32"

text \<open>The state of the kernel that programs and their windows reach. \<open>k_mem\<close> is the physical memory
  outside the structures that are modelled on their own; \<open>k_dirs\<close> is the part of the windows the
  file system uses; \<open>k_satp\<close> and \<open>k_mpp\<close> are the control registers that a trap leaves behind.\<close>

record kernel =
  k_mem :: mem8
  k_fs :: appfs
  k_wins :: "twin list"
  k_dirs :: "nat \<Rightarrow> fs_win"
  k_ctl :: app_ctl
  k_uheap :: user_heap
  k_pt :: app_pt
  k_owner :: int
  k_exit :: u32
  k_task :: int
  k_sched :: sched
  k_resched :: bool
  k_uart :: string
  k_satp :: u32
  k_mpp :: nat

definition upd_win :: "kernel \<Rightarrow> int \<Rightarrow> (twin \<Rightarrow> twin) \<Rightarrow> kernel" where
  "upd_win k i f = (if 0 \<le> i \<and> i < int (length (k_wins k))
                    then k\<lparr>k_wins := (k_wins k)[nat i := f (k_wins k ! nat i)]\<rparr> else k)"

definition free_buf :: "kernel \<Rightarrow> u32 \<Rightarrow> kernel" where
  "free_buf k a = k\<lparr>k_fs := (k_fs k)\<lparr>app_heap := free (app_heap (k_fs k)) a\<rparr>\<rparr>"

section \<open>Starting a program\<close>

abbreviation (input) APP_STACK_SIZE :: u32 where "APP_STACK_SIZE \<equiv> 16384"

definition APP_SIZE :: "app_layout \<Rightarrow> u32" where
  "APP_SIZE l = APP_END l - APP_START l"

definition load_error :: "int \<Rightarrow> string" where
  "load_error rc = (if rc = -2 then ''ERR: File Not Found.'' else if rc = -4 then ''ERR: No Memory.''
                    else ''ERR: Load Failed.'')"

definition elf_magic :: "u8 list \<Rightarrow> bool" where
  "elf_magic bs \<longleftrightarrow> bs ! 0 = 0x7f \<and> bs ! 1 = c2b (CHR ''E'') \<and> bs ! 2 = c2b (CHR ''L'') \<and> bs ! 3 = c2b (CHR ''F'')"

text \<open>The last part: the program gets its tables and its heap, and the task is started.\<close>

definition give_area :: "kernel_image \<Rightarrow> kernel \<Rightarrow> nat \<Rightarrow> kernel" where
  "give_area img k i =
     (let k = k\<lparr>k_ctl := (k_ctl k)\<lparr>app_running := True\<rparr>, k_owner := int i\<rparr>;
          k = upd_win k (int i) clear_window_input_queue;
          (pt, satp) = app_vm_reset (lay img);
          k = k\<lparr>k_pt := pt, k_ctl := (k_ctl k)\<lparr>loaded_app_satp := satp\<rparr>\<rparr>
      in k\<lparr>k_uheap := app_heap_reset (APP_START (lay img) + APP_HEAP_GUARD)
                          (loaded_app_user_sp (k_ctl k) - APP_HEAP_GUARD)\<rparr>)"

definition run_task :: "kernel_image \<Rightarrow> kernel \<Rightarrow> kernel option" where
  "run_task img k =
     (case (if k_task k < 0 then task_create (stack_top img) (k_sched k) (boot_addr img) 0 1
            else map_option (Pair (k_task k)) (task_reset (stack_top img) (k_sched k) (k_task k) (boot_addr img) 0 1)) of
        None \<Rightarrow> None
      | Some (t, s) \<Rightarrow> map_option (\<lambda>s. k\<lparr>k_task := t, k_sched := s\<rparr>) (task_wake s t))"

definition start_task :: "kernel_image \<Rightarrow> kernel \<Rightarrow> nat \<Rightarrow> u32 \<Rightarrow> ((int \<times> string) \<times> kernel) option" where
  "start_task img k i a =
     map_option (\<lambda>k. ((0, ''>> App Started.''), free_buf k a)) (run_task img (give_area img k i))"

text \<open>From the loaded image on: the stack with the arguments.\<close>

definition place_args :: "kernel_image \<Rightarrow> kernel \<Rightarrow> nat \<Rightarrow> string \<Rightarrow> string option \<Rightarrow> u32 \<Rightarrow> ((int \<times> string) \<times> kernel) option" where
  "place_args img k i name argstr a =
     (let l = lay img; usp = (APP_END l AND NOT 0xF) - 16; k = k\<lparr>k_ctl := (k_ctl k)\<lparr>loaded_app_user_sp := usp\<rparr>\<rparr>
      in if usp \<le> APP_START l + APP_HEAP_GUARD then Some ((-10, ''ERR: App Heap Too Small.''), free_buf k a)
         else case app_prepare_argv_stack l name argstr (k_mem k) usp of
           (rc2, m2, usp2) \<Rightarrow>
             let k = k\<lparr>k_mem := m2, k_ctl := (k_ctl k)\<lparr>loaded_app_user_sp := usp2\<rparr>\<rparr>
             in if rc2 \<noteq> 0 then Some ((-12, ''ERR: Bad Args.''), free_buf k a)
                else start_task img k i a)"

definition start_image ::
    "kernel_image \<Rightarrow> kernel \<Rightarrow> nat \<Rightarrow> string \<Rightarrow> string option \<Rightarrow> u32 \<Rightarrow> u8 list \<Rightarrow> ((int \<times> string) \<times> kernel) option" where
  "start_image img k i name argstr a bs =
     (let l = lay img; k = k\<lparr>k_ctl := (k_ctl k)\<lparr>loaded_app_entry := 0\<rparr>\<rparr>
      in case appfs_set_cwd (k_fs k) (win_cwd_bno (k_dirs k i)) (win_cwd (k_dirs k i)) of
        None \<Rightarrow> None
      | Some s \<Rightarrow>
        let k = k\<lparr>k_fs := s, k_mem := mem_fill (k_mem k) (unat (APP_START l)) (unat (APP_SIZE l)) 0\<rparr>
        in if length bs < 52 \<or> \<not> elf_magic bs then Some ((-11, ''ERR: ELF Only.''), free_buf k a)
           else case app_load_elf_image l (file_mem bs) (of_nat (length bs)) (k_mem k) of
             ((rc, msg), m, entry) \<Rightarrow>
               let k = k\<lparr>k_mem := m\<rparr>
               in if rc \<noteq> 0 then Some ((-11, msg), free_buf k a)
                  else
                    let k = k\<lparr>k_ctl := (k_ctl k)\<lparr>loaded_app_entry := (case entry of None \<Rightarrow> 0 | Some e \<Rightarrow> e)\<rparr>\<rparr>
                    in if loaded_app_entry (k_ctl k) = 0 then Some ((-8, ''ERR: Bad App Entry.''), free_buf k a)
                       else if APP_SIZE l \<le> APP_STACK_SIZE + APP_HEAP_GUARD then Some ((-9, ''ERR: App Mem Too Small.''), k)
                       else place_args img k i name argstr a)"

definition launch_app_file ::
    "kernel_image \<Rightarrow> kernel \<Rightarrow> nat \<Rightarrow> string \<Rightarrow> string option \<Rightarrow> ((int \<times> string) \<times> kernel) option" where
  "launch_app_file img k i name argstr =
     (if app_running (k_ctl k) then Some ((-9, ''ERR: App Busy (previous app still running).''), k)
      else case load_file_bytes_alloc (app_files (k_fs k)) (app_heap (k_fs k)) (k_dirs k i) name of
        None \<Rightarrow> None
      | Some ((rc, buf), d, f, h) \<Rightarrow>
        let k = k\<lparr>k_dirs := (k_dirs k)(i := d), k_fs := (k_fs k)\<lparr>app_files := f, app_heap := h\<rparr>\<rparr>
        in case buf of
             None \<Rightarrow> Some ((rc, load_error rc), k)
           | Some (a, bs) \<Rightarrow> if rc \<noteq> 0 then Some ((rc, load_error rc), free_buf k a)
                             else start_image img k i name argstr a bs)"

text \<open>\<open>try_launch_elf_command\<close>: the command line, cut to 99 characters, starts with a file name in
  \<open>.elf\<close>; the rest is the argument text. The result is the return value and the message, if any.\<close>

definition elf_command :: "string \<Rightarrow> (string \<times> string option) option" where
  "elf_command cmd =
     (let fn = dropWhile (\<lambda>c. c = CHR '' '') (take 99 (dropWhile (\<lambda>c. c = CHR '' '') cmd));
          name = takeWhile (\<lambda>c. c \<noteq> CHR '' '') fn; rest = dropWhile (\<lambda>c. c = CHR '' '') (drop (length name) fn)
      in if fn = [] then None
         else if length name < 4 \<or> drop (length name - 4) name \<noteq> ''.elf'' then None
         else Some (name, if rest = [] then None else Some rest))"

definition try_launch_elf_command :: "kernel_image \<Rightarrow> kernel \<Rightarrow> nat \<Rightarrow> string \<Rightarrow> ((int \<times> string option) \<times> kernel) option" where
  "try_launch_elf_command img k i cmd =
     (case elf_command cmd of
        None \<Rightarrow> Some ((0, None), k)
      | Some (name, args) \<Rightarrow> map_option (\<lambda>((rc, msg), k). ((1, Some msg), k)) (launch_app_file img k i name args))"

section \<open>System calls\<close>

text \<open>The C string at an address; \<open>None\<close> if there is no end.\<close>

partial_function (option) mem_cstr :: "mem8 \<Rightarrow> nat \<Rightarrow> string option" where
  "mem_cstr m a = (if m a = 0 then Some [] else Option.bind (mem_cstr m (a + 1)) (\<lambda>s. Some (b2c (m a) # s)))"

text \<open>The registers of the trap frame: \<open>regs 9\<close> is \<open>a0\<close>, \<open>regs 16\<close> is \<open>a7\<close>, \<open>regs 1\<close> is \<open>sp\<close>.\<close>

type_synonym frame = "nat \<Rightarrow> u32"

definition ret :: "frame \<Rightarrow> int \<Rightarrow> kernel \<Rightarrow> (frame \<times> kernel) option" where
  "ret regs rc k = Some (regs(9 := of_int rc), k)"

definition sys_putc :: "frame \<Rightarrow> kernel \<Rightarrow> kernel" where
  "sys_putc regs k =
     (let ch = b2c (ucast (regs 9)) in
      if k_owner k \<ge> 0 then upd_win k (k_owner k) (\<lambda>w. terminal_app_stdout_putc w ch)
      else k\<lparr>k_uart := k_uart k @ [ch]\<rparr>)"

definition sys_puts :: "frame \<Rightarrow> kernel \<Rightarrow> kernel option" where
  "sys_puts regs k =
     (if k_owner k \<ge> 0 then
        if regs 9 = 0 then Some k
        else map_option (\<lambda>s. upd_win k (k_owner k) (\<lambda>w. terminal_app_stdout_puts w s)) (mem_cstr (k_mem k) (unat (regs 9)))
      else map_option (\<lambda>s. k\<lparr>k_uart := k_uart k @ s\<rparr>) (mem_cstr (k_mem k) (unat (regs 9))))"

definition sys_open :: "frame \<Rightarrow> kernel \<Rightarrow> (frame \<times> kernel) option" where
  "sys_open regs k =
     (case (if regs 9 = 0 then Some [] else mem_cstr (k_mem k) (unat (regs 9))) of
        None \<Rightarrow> None
      | Some path \<Rightarrow>
        (case appfs_open (k_fs k) path (regs 10) of
           None \<Rightarrow> None
         | Some (rc, s) \<Rightarrow> ret regs rc (k\<lparr>k_fs := s\<rparr>)))"

definition sys_read :: "frame \<Rightarrow> kernel \<Rightarrow> (frame \<times> kernel) option" where
  "sys_read regs k =
     (if regs 10 = 0 then ret regs (-1) k
      else case appfs_read (k_fs k) (sint (regs 9)) (regs 11) of
        ((rc, bs), s) \<Rightarrow> ret regs rc (k\<lparr>k_fs := s, k_mem := mem_copy (k_mem k) (unat (regs 10)) bs\<rparr>))"

definition sys_write :: "frame \<Rightarrow> kernel \<Rightarrow> (frame \<times> kernel) option" where
  "sys_write regs k =
     (if regs 10 = 0 then ret regs (-1) k
      else case appfs_write (k_fs k) (sint (regs 9)) (bytes_at (k_mem k) (unat (regs 10)) (unat (regs 11))) of
        None \<Rightarrow> None
      | Some (rc, s) \<Rightarrow> ret regs rc (k\<lparr>k_fs := s\<rparr>))"

definition sys_close :: "frame \<Rightarrow> kernel \<Rightarrow> (frame \<times> kernel) option" where
  "sys_close regs k =
     (case appfs_close (k_fs k) (sint (regs 9)) of
        None \<Rightarrow> None
      | Some (rc, s) \<Rightarrow> ret regs rc (k\<lparr>k_fs := s\<rparr>))"

definition sys_alloc :: "frame \<Rightarrow> kernel \<Rightarrow> (frame \<times> kernel) option" where
  "sys_alloc regs k =
     (case app_heap_alloc (k_uheap k) (regs 9) of (p, h) \<Rightarrow> Some (regs(9 := p), k\<lparr>k_uheap := h\<rparr>))"

text \<open>The exit call returns to the kernel's trampoline on its own stack, in machine mode and
  without translation.\<close>

definition sys_exit :: "kernel_image \<Rightarrow> frame \<Rightarrow> kernel \<Rightarrow> (u32 \<times> frame \<times> kernel) option" where
  "sys_exit img regs k =
     Some (app_exit_resume_pc (k_ctl k), regs(1 := exit_stack_top img), k\<lparr>k_exit := regs 9, k_satp := 0, k_mpp := 3\<rparr>)"

text \<open>An environment call at \<open>epc\<close>, at the time \<open>mtime\<close>; \<open>None\<close> is the panic on an unknown number.\<close>

definition ecall :: "kernel_image \<Rightarrow> u64 \<Rightarrow> u32 \<Rightarrow> frame \<Rightarrow> kernel \<Rightarrow> (u32 \<times> frame \<times> kernel) option" where
  "ecall img mtime epc regs k =
     (let sysno = regs 16; back = map_option (\<lambda>(regs, k). (epc + 4, regs, k)) in
      if sysno = 1 then back (Some (regs, sys_putc regs k))
      else if sysno = 2 then back (map_option (Pair regs) (sys_puts regs k))
      else if sysno = 3 then back (sys_alloc regs k)
      else if sysno = 4 then back (ret regs 0 k)
      else if sysno = 5 then back (Some (regs(9 := get_millisecond_timer mtime), k))
      else if sysno = 6 then back (Some (regs, k\<lparr>k_resched := True\<rparr>))
      else if sysno = 7 then back (sys_open regs k)
      else if sysno = 8 then back (sys_read regs k)
      else if sysno = 9 then back (sys_write regs k)
      else if sysno = 10 then sys_exit img regs k
      else if sysno = 11 then back (sys_close regs k)
      else None)"

section \<open>Leaving\<close>

definition release_app_owner_command_state :: "kernel \<Rightarrow> kernel" where
  "release_app_owner_command_state k =
     (upd_win k (k_owner k) (\<lambda>w. if t_active w \<and> t_kind w = 0 then terminal_unlock_after_cancel w else w))\<lparr>k_owner := -1\<rparr>"

definition show_exit :: "u32 \<Rightarrow> twin \<Rightarrow> twin" where
  "show_exit code w =
     (if t_active w \<and> t_kind w = 0
      then let w = clear_prompt_input (set_shell_status w (''exit='' @ lib_itoa code))
           in if total_rows w = 0 then w else redraw_prompt_line w (total_rows w - 1)
      else w)"

definition reset_app :: "kernel \<Rightarrow> kernel" where
  "reset_app k =
     k\<lparr>k_ctl := \<lparr>loaded_app_entry = 0, loaded_app_resume_pc = 0, loaded_app_user_sp = 0, loaded_app_satp = 0, app_running = False\<rparr>,
       k_uheap := \<lparr>loaded_app_heap_lo = 0, loaded_app_heap_hi = 0, loaded_app_heap_cur = 0\<rparr>,
       k_exit := 0, k_owner := -1, k_pt := \<lparr>app_root_pt = (\<lambda>_. 0), app_l2_pt = (\<lambda>_ _. 0)\<rparr>\<rparr>"

definition app_exit_trampoline :: "kernel \<Rightarrow> kernel option" where
  "app_exit_trampoline k =
     (let exit_code = k_exit k; owner = k_owner k in
      case appfs_close_all (k_fs k) of
        None \<Rightarrow> None
      | Some (_, s) \<Rightarrow>
        let k = upd_win (k\<lparr>k_fs := s\<rparr>) owner terminal_app_stdout_flush
        in Some (upd_win (reset_app (release_app_owner_command_state k)) owner (show_exit exit_code)))"

text \<open>A worker or the desktop releases terminals that still wait when no program runs.\<close>

definition release_finished_app_commands :: "kernel \<Rightarrow> kernel" where
  "release_finished_app_commands k =
     (if app_running (k_ctl k) then k
      else k\<lparr>k_wins := map (\<lambda>w. if t_active w \<and> t_kind w = 0 \<and> executing_cmd w
                                then w\<lparr>executing_cmd := False, cancel_requested := False\<rparr> else w) (k_wins k)\<rparr>)"

section \<open>The kernel heap while a program is loaded\<close>

text \<open>Block \<open>a\<close> of size \<open>n\<close> is live and belongs to no descriptor.\<close>

definition holds_block :: "(u32 \<rightharpoonup> nat) \<Rightarrow> appfs \<Rightarrow> u32 \<Rightarrow> nat \<Rightarrow> bool" where
  "holds_block A s a n \<longleftrightarrow> appfs_ok A s \<and> a \<noteq> 0 \<and> A a = Some n \<and> (\<forall>i < 16. fd_buf (fd_table s i) \<noteq> a)"

lemma drop_holds:
  assumes h: "holds_block A s a n" and i: "i < 16"
  shows "\<exists>A'. holds_block A' (drop_fd s i) a n"
proof (cases "fd_buf (fd_table s i) = 0")
  case True
  then show ?thesis using appfs_ok_zero [of A s i] h i
    by (intro exI [of _ A]) (auto simp: drop_fd_def Let_def appfs_ok_def holds_block_def zero_fd_def)
next
  case False
  have ok: "appfs_ok A s" and a: "A a = Some n" "a \<noteq> 0" "fd_buf (fd_table s i) \<noteq> a" using h i by (simp_all add: holds_block_def)
  have "buf_ok (A(fd_buf (fd_table s i) := None)) (drop_fd s i)"
    using buf_ok_drop [OF _ i, of A s zero_fd] ok False by (simp add: drop_fd_def Let_def appfs_ok_def)
  then have "appfs_ok (A(fd_buf (fd_table s i) := None)) (drop_fd s i)"
    using ok by (auto simp: appfs_ok_def drop_fd_def Let_def range_ok_def)
  then show ?thesis using a h
    by (intro exI [of _ "A(fd_buf (fd_table s i) := None)"]) (auto simp: holds_block_def drop_fd_def Let_def zero_fd_def)
qed

lemma reset_table_drops: "appfs_reset_table s = foldl drop_fd s [0 ..< 16]"
  unfolding appfs_reset_table_def drop_fd_def by (simp only: Let_def)

lemma drops_hold: "holds_block A s a n \<Longrightarrow> \<forall>i \<in> set is. i < 16 \<Longrightarrow> \<exists>A'. holds_block A' (foldl drop_fd s is) a n"
proof (induction "is" arbitrary: A s)
  case (Cons i "is")
  obtain A1 where "holds_block A1 (drop_fd s i) a n" using drop_holds [OF Cons.prems(1)] Cons.prems(2) by auto
  from Cons.IH [OF this] Cons.prems(2) show ?case by simp
qed auto

lemma set_cwd_holds:
  assumes "holds_block A s a n" "appfs_set_cwd s b c = Some s'"
  shows "\<exists>A'. holds_block A' s' a n"
proof -
  obtain A' where A': "holds_block A' (appfs_reset_table s) a n"
    using drops_hold [OF assms(1), of "[0 ..< 16]"] unfolding reset_table_drops by auto
  obtain b' c' where "s' = (appfs_reset_table s)\<lparr>app_cwd_bno := b', app_cwd := c'\<rparr>"
    using assms(2) by (auto simp: appfs_set_cwd_def)
  then show ?thesis using A' by (auto simp: holds_block_def appfs_ok_def buf_ok_def)
qed

lemma free_holds:
  assumes "holds_block A s a n"
  shows "appfs_ok (A(a := None)) (s\<lparr>app_heap := free (app_heap s) a\<rparr>)"
proof -
  have "alloc_inv (free (app_heap s) a) (A(a := None))"
    using assms by (intro alloc_inv_free) (auto simp: holds_block_def appfs_ok_def buf_ok_def)
  then show ?thesis using assms by (auto simp: holds_block_def appfs_ok_def buf_ok_def)
qed

lemma appfs_ok_heap:
  assumes "appfs_ok A s" "alloc_inv h A'" "\<And>p n. A p = Some n \<Longrightarrow> A' p = Some n"
  shows "appfs_ok A' (s\<lparr>app_files := f, app_heap := h\<rparr>)"
  using assms unfolding appfs_ok_def buf_ok_def by (auto; metis)

text \<open>Loading the file takes one block, if any.\<close>

lemma load_alloc_holds:
  assumes ok: "appfs_ok A s" and l: "load_file_bytes_alloc (app_files s) (app_heap s) w name = Some ((rc, buf), d, f, h)"
  shows "case buf of None \<Rightarrow> rc \<noteq> 0 \<and> (\<exists>A'. appfs_ok A' (s\<lparr>app_files := f, app_heap := h\<rparr>))
     | Some (a, bs) \<Rightarrow> rc = 0 \<and> (\<exists>A' n. holds_block A' (s\<lparr>app_files := f, app_heap := h\<rparr>) a n \<and> length bs \<le> n)"
proof -
  have ai: "alloc_inv (app_heap s) A" using ok by (simp add: appfs_ok_def buf_ok_def)
  obtain o1 w1 f1 where o: "open_dir (app_files s) w name = Some (o1, w1, f1)"
    using l by (cases "open_dir (app_files s) w name") (auto simp: load_file_bytes_alloc_def)
  show ?thesis
  proof (cases o1)
    case None
    then show ?thesis using l o appfs_ok_heap [OF ok ai] by (auto simp: load_file_bytes_alloc_def)
  next
    case (Some dl)
    obtain db leaf where dl: "dl = (db, leaf)" by fastforce
    show ?thesis
    proof (cases "find_entry_index db leaf 0")
      case None
      then show ?thesis using l o Some dl appfs_ok_heap [OF ok ai] by (auto simp: load_file_bytes_alloc_def)
    next
      case (Some idx)
      let ?sz = "e_size db idx"
      obtain a h1 where m: "malloc (app_heap s) (if ?sz = 0 then 1 else of_nat ?sz) = (a, h1)" by fastforce
      note L = l [unfolded load_file_bytes_alloc_def o option.case prod.case \<open>o1 = Some dl\<close> dl Some Let_def m]
      show ?thesis
      proof (cases "a = 0")
        case True
        then have "alloc_inv h1 A" using alloc_inv_malloc_null [OF ai] m by simp
        then show ?thesis using L True appfs_ok_heap [OF ok] by auto
      next
        case False
        obtain n where n: "A a = None" "unat (if ?sz = 0 then 1 else of_nat ?sz :: u32) \<le> n" "alloc_inv h1 (A(a \<mapsto> n))"
          using alloc_inv_malloc_block [OF ai m False] by blast
        have fresh: "fd_buf (fd_table s i) \<noteq> a" if "i < 16" for i
          using ok that n(1) False unfolding appfs_ok_def buf_ok_def by (metis option.distinct(1))
        have "\<And>p na. A p = Some na \<Longrightarrow> (A(a \<mapsto> n)) p = Some na" using n(1) by auto
        then have hold: "holds_block (A(a \<mapsto> n)) (s\<lparr>app_files := f, app_heap := h1\<rparr>) a n" for f
          using appfs_ok_heap [OF ok n(3)] n(1) False fresh by (simp add: holds_block_def)
        show ?thesis
        proof (cases "e_bno db idx = 0")
          case True
          then have "buf = Some (a, [])" "rc = 0" "h = h1" using L False by auto
          then show ?thesis using hold by auto
        next
          case nz: False
          obtain bs where bs: "load_blocks f1 ?sz (e_bno db idx) [] = Some bs"
            using L False nz by (cases "load_blocks f1 ?sz (e_bno db idx) []") auto
          show ?thesis
          proof (cases "length bs = ?sz")
            case True
            have "?sz < 2 ^ 32" unfolding e_size_def using unsigned_less [of "le32 db (entry_off idx + 24)"] by simp
            then have "length bs \<le> n" using n(2) True by (simp add: unat_of_nat_u32 split: if_splits)
            moreover have "buf = Some (a, bs)" "rc = 0" "h = h1" using L False nz bs True by auto
            ultimately show ?thesis using hold by auto
          next
            case bad: False
            have "buf = None" "rc \<noteq> 0" "h = free h1 a" using L False nz bs bad by auto
            moreover have "appfs_ok ((A(a \<mapsto> n))(a := None)) (s\<lparr>app_files := f, app_heap := free h1 a\<rparr>)"
              using free_holds [OF hold [of f]] by simp
            ultimately show ?thesis by auto
          qed
        qed
      qed
    qed
  qed
qed

section \<open>What the kernel keeps\<close>

definition uheap_in :: "app_layout \<Rightarrow> user_heap \<Rightarrow> bool" where
  "uheap_in l h \<longleftrightarrow> loaded_app_heap_hi h = 0 \<or>
     (heap_ok h \<and> APP_START l \<le> loaded_app_heap_lo h \<and> loaded_app_heap_hi h \<le> APP_END l)"

definition kernel_ok :: "kernel_image \<Rightarrow> kernel \<Rightarrow> bool" where
  "kernel_ok img k \<longleftrightarrow> (\<exists>A. appfs_ok A (k_fs k)) \<and> (\<forall>w \<in> set (k_wins k). window_ok w) \<and>
     sched_wf (k_sched k) \<and> k_task k < taskTop (k_sched k) \<and> uheap_in (lay img) (k_uheap k)"

lemma upd_win_fields [simp]:
  "k_fs (upd_win k i f) = k_fs k" "k_mem (upd_win k i f) = k_mem k" "k_sched (upd_win k i f) = k_sched k"
  "k_task (upd_win k i f) = k_task k" "k_uheap (upd_win k i f) = k_uheap k" "k_ctl (upd_win k i f) = k_ctl k"
  "k_pt (upd_win k i f) = k_pt k" "k_owner (upd_win k i f) = k_owner k" "k_dirs (upd_win k i f) = k_dirs k"
  "k_exit (upd_win k i f) = k_exit k" "length (k_wins (upd_win k i f)) = length (k_wins k)"
  by (simp_all add: upd_win_def)

lemma upd_win_ok:
  "\<forall>w \<in> set (k_wins k). window_ok w \<Longrightarrow> (\<And>w. window_ok w \<Longrightarrow> window_ok (f w)) \<Longrightarrow> \<forall>w \<in> set (k_wins (upd_win k i f)). window_ok w"
  unfolding upd_win_def by (auto dest!: set_update_subset_insert [THEN subsetD])

lemma mod16_bound: "(x :: nat) \<le> h \<Longrightarrow> h < 2 ^ 32 \<Longrightarrow> h mod 16 = 0 \<Longrightarrow> x \<le> 0xFFFFFFF0"
proof -
  assume a: "x \<le> h" "h < 2 ^ 32" "h mod 16 = 0"
  then obtain q where q: "h = 16 * q" by auto
  then have "q \<le> 268435455" using a(2) by simp
  then show ?thesis using a(1) q by simp
qed

lemma alloc_heap_ok:
  assumes "heap_ok h"
  shows "heap_ok (snd (app_heap_alloc h sz)) \<and> loaded_app_heap_lo (snd (app_heap_alloc h sz)) = loaded_app_heap_lo h \<and>
    loaded_app_heap_hi (snd (app_heap_alloc h sz)) = loaded_app_heap_hi h"
proof -
  have *: "heap_ok (snd (app_heap_alloc h z)) \<and> loaded_app_heap_lo (snd (app_heap_alloc h z)) = loaded_app_heap_lo h \<and>
    loaded_app_heap_hi (snd (app_heap_alloc h z)) = loaded_app_heap_hi h" if z: "unat z \<le> 0xFFFFFFF0" for z
  proof (cases "unat (loaded_app_heap_cur h) + round_size z \<le> unat (loaded_app_heap_hi h)")
    case True
    have hi: "unat (loaded_app_heap_hi h) < 2 ^ 32" using unsigned_less [of "loaded_app_heap_hi h"] by simp
    have m: "unat (loaded_app_heap_hi h) mod 16 = 0" "unat (loaded_app_heap_cur h) mod 16 = 0" using assms by (simp_all add: heap_ok_def)
    let ?c = "loaded_app_heap_cur h + of_nat (round_size z)"
    have c: "unat ?c = unat (loaded_app_heap_cur h) + round_size z"
      using True hi by (simp add: unat_word_ariths unat_of_nat_u32)
    have "unat ?c mod 16 = 0" unfolding c using m(2) round_size_ge(3) [of z] by presburger
    moreover have "unat ?c \<le> 0xFFFFFFF0" unfolding c by (rule mod16_bound [OF True hi m(1)])
    moreover have "loaded_app_heap_lo h \<le> ?c" using assms c by (simp add: heap_ok_def word_le_nat_alt)
    ultimately show ?thesis using assms True app_heap_alloc_eq [OF assms z]
      by (simp add: heap_ok_def word_le_nat_alt)
  next
    case False
    then show ?thesis using assms app_heap_alloc_eq [OF assms z] by simp
  qed
  show ?thesis
  proof (cases "unat sz \<le> 0xFFFFFFF0")
    case False
    then have "align_up_reg sz 16 = 0" by (intro align_up_16_wrap) simp
    moreover have "unat (align_up_reg 16 16) = unat (16 :: u32)" by (subst align_up_16) simp_all
    then have "align_up_reg 16 16 = 16" by (simp only: word_unat_eq_iff)
    ultimately have "app_heap_alloc h sz = app_heap_alloc h 16" by (simp add: app_heap_alloc_def)
    then show ?thesis using * [of 16] by simp
  qed (rule *)
qed

lemma alloc_uheap_in: "uheap_in l h \<Longrightarrow> uheap_in l (snd (app_heap_alloc h sz))"
  unfolding uheap_in_def using alloc_heap_ok [of h sz] by (auto simp: app_heap_alloc_def Let_def)

lemma sp_bounds:
  assumes "AppVm.layout_ok l" "20480 < APP_SIZE l"
  shows "unat ((APP_END l AND NOT 0xF) - 16) = unat (APP_END l) - 16" "unat (APP_START l) + 20480 < unat (APP_END l)"
proof -
  have "unat (APP_SIZE l) = unat (APP_END l) - unat (APP_START l)"
    using assms(1) by (simp add: APP_SIZE_def AppVm.layout_ok_def unat_sub_if_size word_le_nat_alt)
  then show b: "unat (APP_START l) + 20480 < unat (APP_END l)" using assms(2) by (simp add: word_less_nat_alt)
  have "unat (APP_END l) mod 4096 = 0" using assms(1) by (simp add: AppVm.layout_ok_def)
  then obtain q where "unat (APP_END l) = 4096 * q" by auto
  then have "unat (APP_END l AND NOT 0xF) = unat (APP_END l)" unfolding unat_down_16 by simp
  then show "unat ((APP_END l AND NOT 0xF) - 16) = unat (APP_END l) - 16"
    using b by (simp add: unat_sub_if_size)
qed

lemma new_uheap_in:
  assumes l: "AppVm.layout_ok l" "20480 < APP_SIZE l"
    and u: "APP_START l + 4096 < u" "unat u < unat (APP_END l)"
  shows "uheap_in l (app_heap_reset (APP_START l + 4096) (u - 4096))"
proof -
  have e: "unat (APP_END l) < 2 ^ 32" using unsigned_less [of "APP_END l"] by simp
  have s: "unat (APP_START l + 4096) = unat (APP_START l) + 4096" using sp_bounds(2) [OF l] e by (simp add: unat_word_ariths)
  have lo: "0 < APP_START l + 4096" "unat (APP_START l + 4096) \<le> 0xFFFFFFF0"
    using s sp_bounds(2) [OF l] e by (simp_all add: word_less_nat_alt)
  note r = app_heap_reset_ok [OF lo, of "u - 4096"]
  have "unat (u - 4096) = unat u - 4096" using u(1) s by (simp add: unat_sub_if_size word_less_nat_alt)
  then have "loaded_app_heap_hi (app_heap_reset (APP_START l + 4096) (u - 4096)) \<le> APP_END l"
    using r(2) u(2) by (simp add: word_le_nat_alt)
  moreover have "APP_START l \<le> loaded_app_heap_lo (app_heap_reset (APP_START l + 4096) (u - 4096))"
    using r(3) s by (simp add: app_heap_reset_def word_le_nat_alt)
  ultimately show ?thesis using r(1) by (simp add: uheap_in_def)
qed

section \<open>Launching\<close>

definition in_area :: "app_layout \<Rightarrow> nat \<Rightarrow> bool" where
  "in_area l a \<longleftrightarrow> unat (APP_START l) \<le> a \<and> a < unat (APP_END l)"

text \<open>No program was started: everything but the file system, the area and the entry is as before.\<close>

definition not_started :: "kernel \<Rightarrow> kernel \<Rightarrow> bool" where
  "not_started k k' \<longleftrightarrow> app_running (k_ctl k') = app_running (k_ctl k) \<and> k_owner k' = k_owner k \<and>
     k_wins k' = k_wins k \<and> k_sched k' = k_sched k \<and> k_task k' = k_task k \<and> k_pt k' = k_pt k \<and> k_uheap k' = k_uheap k"

text \<open>What holds while the file is in a buffer.\<close>

definition loading :: "kernel_image \<Rightarrow> kernel \<Rightarrow> u32 \<Rightarrow> bool" where
  "loading img k a \<longleftrightarrow> (\<exists>A n. holds_block A (k_fs k) a n) \<and> (\<forall>w \<in> set (k_wins k). window_ok w) \<and>
     sched_wf (k_sched k) \<and> k_task k < taskTop (k_sched k) \<and> uheap_in (lay img) (k_uheap k)"

lemma loading_free:
  assumes "loading img k a"
  shows "kernel_ok img (free_buf k a)" "kernel_ok img k"
proof -
  obtain A n where h: "holds_block A (k_fs k) a n" using assms by (auto simp: loading_def)
  show "kernel_ok img (free_buf k a)"
    using free_holds [OF h] assms by (auto simp: loading_def kernel_ok_def free_buf_def)
  show "kernel_ok img k" using h assms by (auto simp: loading_def kernel_ok_def holds_block_def)
qed

lemma free_buf_simps [simp]:
  "k_mem (free_buf k a) = k_mem k" "not_started k' (free_buf k a) = not_started k' k" "k_ctl (free_buf k a) = k_ctl k"
  "k_pt (free_buf k a) = k_pt k" "k_owner (free_buf k a) = k_owner k" "k_uheap (free_buf k a) = k_uheap k"
  "k_wins (free_buf k a) = k_wins k" "k_sched (free_buf k a) = k_sched k" "k_task (free_buf k a) = k_task k"
  by (simp_all add: free_buf_def not_started_def)

lemma loading_cong:
  "loading img k a \<Longrightarrow> k_fs k' = k_fs k \<Longrightarrow> k_wins k' = k_wins k \<Longrightarrow> k_sched k' = k_sched k \<Longrightarrow> k_task k' = k_task k \<Longrightarrow>
   k_uheap k' = k_uheap k \<Longrightarrow> loading img k' a"
  by (simp add: loading_def)

lemma give_area_fields:
  "k_fs (give_area img k i) = k_fs k" "k_sched (give_area img k i) = k_sched k" "k_task (give_area img k i) = k_task k"
  "k_mem (give_area img k i) = k_mem k" "k_owner (give_area img k i) = int i" "k_pt (give_area img k i) = fst (app_vm_reset (lay img))"
  "k_ctl (give_area img k i) = (k_ctl k)\<lparr>app_running := True, loaded_app_satp := snd (app_vm_reset (lay img))\<rparr>"
  "k_uheap (give_area img k i) = app_heap_reset (APP_START (lay img) + 4096) (loaded_app_user_sp (k_ctl k) - 4096)"
  "k_wins (give_area img k i) = k_wins (upd_win k (int i) clear_window_input_queue)"
  by (simp_all add: give_area_def Let_def split_beta) (simp add: upd_win_def)

lemma task_wake_top: "task_wake s t = Some s' \<Longrightarrow> sched_wf s \<Longrightarrow> taskTop s' = taskTop s"
  using task_add_wf [of s t] by (auto simp: task_wake_def split: if_splits)

text \<open>The scheduler takes the task: there is room, or the task exists.\<close>

lemma run_task_wf:
  assumes s: "sched_wf (k_sched k)" "k_task k < taskTop (k_sched k)"
  shows "run_task img k = Some k' \<Longrightarrow> sched_wf (k_sched k') \<and> k_task k' < taskTop (k_sched k') \<and>
      k' = k\<lparr>k_task := k_task k', k_sched := k_sched k'\<rparr>"
    "0 \<le> k_task k \<or> taskTop (k_sched k) < 16 \<Longrightarrow> \<exists>k'. run_task img k = Some k'"
proof -
  let ?mk = "if k_task k < 0 then task_create (stack_top img) (k_sched k) (boot_addr img) 0 1
      else map_option (Pair (k_task k)) (task_reset (stack_top img) (k_sched k) (k_task k) (boot_addr img) 0 1)"
  have mk: "sched_wf s1 \<and> t < taskTop s1" if "?mk = Some (t, s1)" for t s1
  proof (cases "k_task k < 0")
    case True
    then have c: "task_create (stack_top img) (k_sched k) (boot_addr img) 0 1 = Some (t, s1)" using that by simp
    then have "taskTop (k_sched k) < 16" by (auto simp: task_create_def split: if_splits)
    from task_create_wf [OF s(1) this, of "stack_top img" "boot_addr img" 0 1] c show ?thesis by auto
  next
    case False
    then have "task_reset (stack_top img) (k_sched k) (k_task k) (boot_addr img) 0 1 = Some s1" "t = k_task k" using that by auto
    with task_reset_wf [OF s(1), of "stack_top img" "k_task k" "boot_addr img" 0 1] s(2) show ?thesis by auto
  qed
  { assume r: "run_task img k = Some k'"
    obtain t s1 where t: "?mk = Some (t, s1)" using r unfolding run_task_def by (cases ?mk) auto
    obtain s2 where s2: "task_wake s1 t = Some s2" "sched_wf s2" using task_wake_wf mk [OF t] by blast
    have "k' = k\<lparr>k_task := t, k_sched := s2\<rparr>" using r s2(1) unfolding run_task_def t by simp
    then show "sched_wf (k_sched k') \<and> k_task k' < taskTop (k_sched k') \<and> k' = k\<lparr>k_task := k_task k', k_sched := k_sched k'\<rparr>"
      using s2 mk [OF t] task_wake_top [OF s2(1)] by simp }
  assume room: "0 \<le> k_task k \<or> taskTop (k_sched k) < 16"
  have "?mk \<noteq> None"
  proof (cases "k_task k < 0")
    case True
    with task_create_wf [OF s(1), of "stack_top img" "boot_addr img" 0 1] room show ?thesis by auto
  next
    case False
    with task_reset_wf [OF s(1), of "stack_top img" "k_task k" "boot_addr img" 0 1] show ?thesis by auto
  qed
  then obtain t s1 where t: "?mk = Some (t, s1)" by (cases ?mk) auto
  obtain s2 where "task_wake s1 t = Some s2" using task_wake_wf mk [OF t] by blast
  then show "\<exists>k'. run_task img k = Some k'" unfolding run_task_def t by simp
qed

lemma start_task_result:
  assumes k: "loading img k a" and l: "AppVm.layout_ok (lay img)" "20480 < APP_SIZE (lay img)"
    and u: "APP_START (lay img) + 4096 < loaded_app_user_sp (k_ctl k)" "unat (loaded_app_user_sp (k_ctl k)) < unat (APP_END (lay img))"
    and r: "start_task img k i a = Some (res, k')"
  shows "kernel_ok img k' \<and> res = (0, ''>> App Started.'') \<and> k_mem k' = k_mem k \<and>
    k_ctl k' = (k_ctl k)\<lparr>app_running := True, loaded_app_satp := snd (app_vm_reset (lay img))\<rparr> \<and>
    k_pt k' = fst (app_vm_reset (lay img)) \<and> k_owner k' = int i \<and>
    k_uheap k' = app_heap_reset (APP_START (lay img) + 4096) (loaded_app_user_sp (k_ctl k) - 4096)"
proof -
  let ?g = "give_area img k i"
  have s: "sched_wf (k_sched ?g)" "k_task ?g < taskTop (k_sched ?g)" and w: "\<forall>w \<in> set (k_wins k). window_ok w"
    using k by (simp_all add: loading_def give_area_fields)
  obtain k2 where k2: "run_task img ?g = Some k2" "k' = free_buf k2 a" "res = (0, ''>> App Started.'')"
    using r by (auto simp: start_task_def)
  note t = run_task_wf(1) [OF s k2(1)]
  define t2 s2 where "t2 = k_task k2" and "s2 = k_sched k2"
  have K: "k2 = ?g\<lparr>k_task := t2, k_sched := s2\<rparr>" "sched_wf s2" "t2 < taskTop s2" using t by (simp_all add: t2_def s2_def)
  have "\<forall>w \<in> set (k_wins ?g). window_ok w" using upd_win_ok [OF w ok_clear_queue] by (simp add: give_area_fields)
  then have "loading img k2 a"
    using k K(2,3) new_uheap_in [OF l u] unfolding K(1) by (simp add: loading_def give_area_fields)
  then show ?thesis using loading_free(1) k2 unfolding K(1) by (simp add: give_area_fields)
qed

definition area_frame :: "kernel_image \<Rightarrow> kernel \<Rightarrow> kernel \<Rightarrow> bool" where
  "area_frame img k k' \<longleftrightarrow> (\<forall>a. \<not> in_area (lay img) a \<longrightarrow> k_mem k' a = k_mem k a)"

text \<open>The program that is ready to run.\<close>

definition area_zeroed :: "kernel_image \<Rightarrow> kernel \<Rightarrow> mem8" where
  "area_zeroed img k = mem_fill (k_mem k) (unat (APP_START (lay img))) (unat (APP_SIZE (lay img))) 0"

definition ready :: "kernel_image \<Rightarrow> kernel \<Rightarrow> kernel \<Rightarrow> nat \<Rightarrow> string list \<Rightarrow> u8 list \<Rightarrow> bool" where
  "ready img k k' i argv bs \<longleftrightarrow>
     (let usp = loaded_app_user_sp (k_ctl k'); f = file_mem bs; (pt, satp) = app_vm_reset (lay img) in
      app_running (k_ctl k') \<and> k_owner k' = int i \<and> k_pt k' = pt \<and>
      app_bootstrap (exit_addr img) (k_ctl k') =
        (EnterUser (e_entry f) usp satp, (k_ctl k')\<lparr>loaded_app_entry := 0, app_running := True, loaded_app_resume_pc := exit_addr img\<rparr>) \<and>
      has_argv (k_mem k') usp argv \<and>
      (\<forall>a < unat usp. k_mem k' a = image_byte f (area_zeroed img k) [0 ..< unat (e_phnum f)] a) \<and>
      k_uheap k' = app_heap_reset (APP_START (lay img) + 4096) (usp - 4096))"

lemma fails_result:
  assumes "v = free_buf v0 a \<or> v = v0" "loading img v0 a" "not_started k v0" "area_frame img k v0" "rc0 \<noteq> 0"
  shows "kernel_ok img v \<and> area_frame img k v \<and> (rc0 \<noteq> 0 \<longrightarrow> not_started k v) \<and> (rc0 = 0 \<longrightarrow> P)"
  using assms loading_free by (auto simp: area_frame_def)

lemma area_frame_trans: "area_frame img k k1 \<Longrightarrow> area_frame img k1 k2 \<Longrightarrow> area_frame img k k2"
  by (simp add: area_frame_def)

definition placed :: "kernel_image \<Rightarrow> kernel \<Rightarrow> kernel \<Rightarrow> nat \<Rightarrow> string list \<Rightarrow> bool" where
  "placed img k k' i argv \<longleftrightarrow>
     (let usp = loaded_app_user_sp (k_ctl k') in
      k_ctl k' = (k_ctl k)\<lparr>loaded_app_user_sp := usp, app_running := True, loaded_app_satp := snd (app_vm_reset (lay img))\<rparr> \<and>
      k_owner k' = int i \<and> k_pt k' = fst (app_vm_reset (lay img)) \<and> has_argv (k_mem k') usp argv \<and>
      (\<forall>a < unat usp. k_mem k' a = k_mem k a) \<and>
      k_uheap k' = app_heap_reset (APP_START (lay img) + 4096) (usp - 4096))"

lemma place_args_result:
  assumes k: "loading img k a" and l: "AppVm.layout_ok (lay img)" "20480 < APP_SIZE (lay img)" and nm: "length name \<le> 99"
    and ws: "ws = (case argstr of None \<Rightarrow> [] | Some s \<Rightarrow> words (take 99 s))"
    and r: "place_args img k i name argstr a = Some ((rc, msg), k')"
  shows "kernel_ok img k' \<and> area_frame img k k' \<and> (rc \<noteq> 0 \<longrightarrow> not_started k k') \<and>
    (rc = 0 \<longrightarrow> placed img k k' i (name # ws))"
proof -
  let ?l = "lay img"
  define u where "u = (APP_END ?l AND NOT 0xF) - 16"
  define k4 where "k4 = k\<lparr>k_ctl := (k_ctl k)\<lparr>loaded_app_user_sp := u\<rparr>\<rparr>"
  obtain rc2 m3 u2 where ar: "app_prepare_argv_stack ?l name argstr (k_mem k) u = (rc2, m3, u2)" by (metis surj_pair)
  define k5 where "k5 = k4\<lparr>k_mem := m3, k_ctl := (k_ctl k4)\<lparr>loaded_app_user_sp := u2\<rparr>\<rparr>"
  have ld: "loading img k4 a" "loading img k5 a"
    using k by (auto simp: k4_def k5_def intro: loading_cong)
  have ns: "not_started k k4" "not_started k k5" by (simp_all add: not_started_def k4_def k5_def)
  have mm: "k_mem k4 = k_mem k" by (simp add: k4_def)
  note R = r [unfolded place_args_def Let_def, folded u_def, folded k4_def, unfolded mm ar prod.case, folded k5_def]
  have nm': "length name < 2 ^ 15" using nm by simp
  note av = argv_stack_correct [OF ar nm' ws]
  note b = sp_bounds [OF l]
  show ?thesis
  proof (cases "u \<le> APP_START ?l + 4096")
    case True
    then have "k' = free_buf k4 a" "rc = -10" using R by auto
    then show ?thesis by (intro fails_result [OF _ ld(1) ns(1)]) (simp_all add: area_frame_def mm)
  next
    case 1: False
    show ?thesis
    proof (cases "rc2 = 0")
      case False
      then have "m3 = k_mem k" using av by auto
      moreover have "k' = free_buf k5 a" "rc = -12" using R 1 False by auto
      ultimately show ?thesis by (intro fails_result [OF _ ld(2) ns(2)]) (simp_all add: area_frame_def k5_def)
    next
      case True
      have st: "start_task img k5 i a = Some ((rc, msg), k')" using R 1 True by simp
      have a0: "has_argv m3 u2 (name # ws)" "u2 < u" "APP_START ?l + 4096 < u2" "\<And>c. c < unat u2 \<or> unat u \<le> c \<Longrightarrow> m3 c = k_mem k c"
        using av True by auto
      have uu: "unat u = unat (APP_END ?l) - 16" using b(1) by (simp add: u_def)
      have ue: "unat u2 < unat (APP_END ?l)" using a0(2) uu by (simp add: word_less_nat_alt)
      have e32: "unat (APP_END ?l) < 2 ^ 32" using unsigned_less [of "APP_END ?l"] by simp
      have sl: "unat (APP_START ?l) < unat u2" using a0(3) b(2) e32 by (simp add: word_less_nat_alt unat_word_ariths)
      have ctl: "loaded_app_user_sp (k_ctl k5) = u2" "k_mem k5 = m3" "k_ctl k5 = (k_ctl k)\<lparr>loaded_app_user_sp := u2\<rparr>"
        by (simp_all add: k5_def k4_def)
      note t = start_task_result [OF ld(2) l _ _ st, unfolded ctl(1), OF a0(3) ue]
      have "area_frame img k k'"
        unfolding area_frame_def
      proof (intro allI impI)
        fix c assume c: "\<not> in_area ?l c"
        then have "c < unat u2 \<or> unat u \<le> c" using sl uu by (auto simp: in_area_def)
        then show "k_mem k' c = k_mem k c" using t a0(4) ctl by simp
      qed
      moreover have "placed img k k' i (name # ws)"
        using t a0 unfolding placed_def Let_def ctl by simp
      ultimately show ?thesis using t by auto
    qed
  qed
qed

lemma start_image_result:
  assumes k: "loading img k a" and l: "AppVm.layout_ok (lay img)" and nm: "length name \<le> 99"
    and ws: "ws = (case argstr of None \<Rightarrow> [] | Some s \<Rightarrow> words (take 99 s))"
    and r: "start_image img k i name argstr a bs = Some ((rc, msg), k')"
  shows "kernel_ok img k' \<and> area_frame img k k' \<and> (rc \<noteq> 0 \<longrightarrow> not_started k k') \<and>
    (rc = 0 \<longrightarrow> ready img k k' i (name # ws) bs)"
proof -
  let ?l = "lay img"
  define k0 where "k0 = k\<lparr>k_ctl := (k_ctl k)\<lparr>loaded_app_entry := 0\<rparr>\<rparr>"
  have k0: "k_fs k0 = k_fs k" "k_dirs k0 = k_dirs k" "k_mem k0 = k_mem k" by (simp_all add: k0_def)
  obtain s where s: "appfs_set_cwd (k_fs k) (win_cwd_bno (k_dirs k i)) (win_cwd (k_dirs k i)) = Some s"
    using r by (cases "appfs_set_cwd (k_fs k) (win_cwd_bno (k_dirs k i)) (win_cwd (k_dirs k i))") (auto simp: start_image_def)
  define k1 where "k1 = k0\<lparr>k_fs := s, k_mem := area_zeroed img k\<rparr>"
  have mm: "k_mem k1 = area_zeroed img k" by (simp add: k1_def)
  obtain A n where "holds_block A (k_fs k) a n" using k by (auto simp: loading_def)
  from set_cwd_holds [OF this s] have k1: "loading img k1 a" using k by (auto simp: loading_def k1_def k0_def)
  have tot: "unat (APP_START ?l) + unat (APP_SIZE ?l) = unat (APP_END ?l)"
    using l by (simp add: AppVm.layout_ok_def APP_SIZE_def unat_sub_if_size word_le_nat_alt)
  have m1: "area_zeroed img k b = k_mem k b" if "\<not> in_area ?l b" for b
    using that tot unfolding area_zeroed_def in_area_def by (intro mem_fill_other) linarith
  obtain rc1 msg1 m entry where e: "app_load_elf_image ?l (file_mem bs) (of_nat (length bs)) (area_zeroed img k) = ((rc1, msg1), m, entry)"
    by (metis surj_pair)
  note elf = elf_loader_correct [OF e]
  have m2: "m b = k_mem k b" if "\<not> in_area ?l b" for b
    using elf [THEN conjunct2, THEN conjunct1, rule_format, OF that [unfolded in_area_def]] m1 [OF that] by simp
  define k2 where "k2 = k1\<lparr>k_mem := m\<rparr>"
  define k3 where "k3 = k2\<lparr>k_ctl := (k_ctl k2)\<lparr>loaded_app_entry := (case entry of None \<Rightarrow> 0 | Some e \<Rightarrow> e)\<rparr>\<rparr>"
  have lk: "loading img k2 a" "loading img k3 a" using k1 by (auto simp: k2_def k3_def intro: loading_cong)
  have ns: "not_started k k1" "not_started k k2" "not_started k k3"
    by (simp_all add: not_started_def k0_def k1_def k2_def k3_def)
  have fr: "area_frame img k k1" "area_frame img k k2" "area_frame img k k3"
    using m1 m2 by (simp_all add: area_frame_def k0_def k1_def k2_def k3_def)
  have k1': "k0\<lparr>k_fs := s, k_mem := mem_fill (k_mem k) (unat (APP_START ?l)) (unat (APP_SIZE ?l)) 0\<rparr> = k1"
    by (simp add: k1_def area_zeroed_def)
  note R = r [unfolded start_image_def Let_def, folded k0_def, unfolded k0 s option.case, unfolded k1' mm e prod.case, folded k2_def, folded k3_def]
  show ?thesis
  proof (cases "length bs < 52 \<or> \<not> elf_magic bs")
    case True
    then have "k' = free_buf k1 a" "rc = -11" using R by auto
    then show ?thesis by (intro fails_result [OF _ k1 ns(1) fr(1)]) simp_all
  next
    case 1: False
    note R = R [unfolded if_not_P [OF 1]]
    show ?thesis
    proof (cases "rc1 = 0")
      case False
      then have "k' = free_buf k2 a" "rc = -11" using R by auto
      then show ?thesis by (intro fails_result [OF _ lk(1) ns(2) fr(2)]) simp_all
    next
      case 2: True
      show ?thesis
      proof (cases "loaded_app_entry (k_ctl k3) = 0 \<or> APP_SIZE ?l \<le> 20480")
        case True
        then have "k' = free_buf k3 a \<or> k' = k3" "rc \<noteq> 0" using R 2 by (auto split: if_splits)
        then show ?thesis by (intro fails_result [OF _ lk(2) ns(3) fr(3)])
      next
        case 3: False
        then have st: "place_args img k3 i name argstr a = Some ((rc, msg), k')" and sz: "20480 < APP_SIZE ?l" using R 2 by auto
        note p = place_args_result [OF lk(2) l sz nm ws st]
        have en: "loaded_app_entry (k_ctl k3) = e_entry (file_mem bs)" "e_entry (file_mem bs) \<noteq> 0" using elf 2 3 by (simp_all add: k3_def)
        have "ready img k k' i (name # ws) bs" if z: "rc = 0"
        proof -
          have q: "placed img k3 k' i (name # ws)" using p z by blast
          have m3: "k_mem k3 = m" by (simp add: k3_def k2_def)
          have im: "m b = image_byte (file_mem bs) (area_zeroed img k) [0 ..< unat (e_phnum (file_mem bs))] b" for b
            using elf 2 by blast
          have c: "k_ctl k' = (k_ctl k3)\<lparr>loaded_app_user_sp := loaded_app_user_sp (k_ctl k'), app_running := True,
              loaded_app_satp := snd (app_vm_reset ?l)\<rparr>" using q by (simp add: placed_def Let_def)
          have "app_running (k_ctl k')" "loaded_app_entry (k_ctl k') = loaded_app_entry (k_ctl k3)"
            "loaded_app_satp (k_ctl k') = snd (app_vm_reset ?l)" by (subst c, simp)+
          then show ?thesis
            using q en unfolding placed_def ready_def Let_def m3 im
            by (simp add: split_beta app_bootstrap_def)
        qed
        moreover have "area_frame img k k'" using p fr(3) area_frame_trans by blast
        moreover have "not_started k k'" if "rc \<noteq> 0" using p that ns(3) by (simp add: not_started_def)
        ultimately show ?thesis using p by blast
      qed
    qed
  qed
qed

lemma launch_result:
  assumes k: "kernel_ok img k" and l: "AppVm.layout_ok (lay img)" and nm: "length name \<le> 99"
    and ws: "ws = (case argstr of None \<Rightarrow> [] | Some s \<Rightarrow> words (take 99 s))"
    and r: "launch_app_file img k i name argstr = Some ((rc, msg), k')"
  shows "kernel_ok img k' \<and> area_frame img k k' \<and> (rc \<noteq> 0 \<longrightarrow> not_started k k') \<and>
    (rc = 0 \<longrightarrow> (\<not> app_running (k_ctl k) \<and> (\<exists>a bs d f h.
       load_file_bytes_alloc (app_files (k_fs k)) (app_heap (k_fs k)) (k_dirs k i) name = Some ((0, Some (a, bs)), d, f, h) \<and>
       ready img k k' i (name # ws) bs)))"
proof (cases "app_running (k_ctl k)")
  case True
  then show ?thesis using r k by (auto simp: launch_app_file_def area_frame_def not_started_def)
next
  case run: False
  obtain A where A: "appfs_ok A (k_fs k)" using k by (auto simp: kernel_ok_def)
  obtain rc0 buf d f h where ld: "load_file_bytes_alloc (app_files (k_fs k)) (app_heap (k_fs k)) (k_dirs k i) name = Some ((rc0, buf), d, f, h)"
    using r run by (cases "load_file_bytes_alloc (app_files (k_fs k)) (app_heap (k_fs k)) (k_dirs k i) name")
      (auto simp: launch_app_file_def)
  define k1 where "k1 = k\<lparr>k_dirs := (k_dirs k)(i := d), k_fs := (k_fs k)\<lparr>app_files := f, app_heap := h\<rparr>\<rparr>"
  have K: "k_wins k1 = k_wins k" "k_sched k1 = k_sched k" "k_task k1 = k_task k" "k_uheap k1 = k_uheap k" "k_mem k1 = k_mem k"
    "not_started k k1" "area_frame img k k1" by (simp_all add: k1_def not_started_def area_frame_def)
  note h = load_alloc_holds [OF A ld]
  note R = r [unfolded launch_app_file_def if_not_P [OF run] ld option.case prod.case Let_def, folded k1_def]
  show ?thesis
  proof (cases buf)
    case None
    then have e: "rc = rc0" "k' = k1" "rc0 \<noteq> 0" using R h by auto
    have "kernel_ok img k1" using h None k K by (auto simp: kernel_ok_def k1_def)
    then show ?thesis using e K by simp
  next
    case (Some ab)
    obtain a bs where ab: "ab = (a, bs)" by fastforce
    then have z: "rc0 = 0" and st: "start_image img k1 i name argstr a bs = Some ((rc, msg), k')" using R h Some by auto
    have "loading img k1 a" using h Some ab k by (auto simp: loading_def kernel_ok_def k1_def)
    note t = start_image_result [OF this l nm ws st]
    have "area_zeroed img k1 = area_zeroed img k" by (simp add: area_zeroed_def K)
    then have "ready img k k' i (name # ws) bs" if "rc = 0" using t that by (simp add: ready_def)
    moreover have "area_frame img k k'" using t K(7) area_frame_trans by blast
    moreover have "not_started k k'" if "rc \<noteq> 0" using t that K(6) by (simp add: not_started_def)
    ultimately show ?thesis using t run ld z Some ab by auto
  qed
qed

section \<open>System calls\<close>

text \<open>The buffer that a read call names lies in the program's area. The kernel does not check this.\<close>

definition buffer_inside :: "app_layout \<Rightarrow> frame \<Rightarrow> bool" where
  "buffer_inside l regs \<longleftrightarrow> (regs 16 = 8 \<longrightarrow>
     unat (APP_START l) \<le> unat (regs 10) \<and> unat (regs 10) + unat (regs 11) \<le> unat (APP_END l))"

lemma read_length: "appfs_read s fd sz = ((rc, bs), s') \<Longrightarrow> length bs \<le> unat sz"
  by (auto simp: appfs_read_def Let_def split: if_splits dest: word_less_nat_alt [THEN iffD1])

lemma served: "appfs_ok A s \<Longrightarrow> serve s r = Some s' \<Longrightarrow> \<exists>A'. appfs_ok A' s'"
  by (rule serve_ok)

lemma kernel_ok_fs:
  "kernel_ok img k \<Longrightarrow> \<exists>A. appfs_ok A s \<Longrightarrow> kernel_ok img (k\<lparr>k_fs := s\<rparr>)"
  by (simp add: kernel_ok_def)

lemma kernel_ok_other [simp]:
  "kernel_ok img (k\<lparr>k_mem := m\<rparr>) = kernel_ok img k" "kernel_ok img (k\<lparr>k_uart := u\<rparr>) = kernel_ok img k"
  "kernel_ok img (k\<lparr>k_resched := b\<rparr>) = kernel_ok img k" "kernel_ok img (k\<lparr>k_ctl := c\<rparr>) = kernel_ok img k"
  "kernel_ok img (k\<lparr>k_exit := e\<rparr>) = kernel_ok img k" "kernel_ok img (k\<lparr>k_satp := e\<rparr>) = kernel_ok img k"
  "kernel_ok img (k\<lparr>k_mpp := n\<rparr>) = kernel_ok img k" "kernel_ok img (k\<lparr>k_owner := i\<rparr>) = kernel_ok img k"
  "kernel_ok img (k\<lparr>k_pt := t\<rparr>) = kernel_ok img k"
  by (simp_all add: kernel_ok_def)

lemma kernel_ok_win: "kernel_ok img k \<Longrightarrow> (\<And>w. window_ok w \<Longrightarrow> window_ok (f w)) \<Longrightarrow> kernel_ok img (upd_win k i f)"
  using upd_win_ok [of k f i] by (simp add: kernel_ok_def)

lemma ok_puts: "window_ok w \<Longrightarrow> window_ok (terminal_app_stdout_puts w s)"
proof -
  assume w: "window_ok w"
  have "window_ok (foldl terminal_app_stdout_putc w s)" using w by (induction s arbitrary: w) (simp_all add: ok_putc)
  then show ?thesis by (simp add: terminal_app_stdout_puts_def ok_flush)
qed

lemma sys_fs_ok:
  assumes k: "kernel_ok img k"
  shows "sys_open regs k = Some (r, k') \<Longrightarrow> kernel_ok img k' \<and> k_mem k' = k_mem k"
    "sys_write regs k = Some (r, k') \<Longrightarrow> kernel_ok img k' \<and> k_mem k' = k_mem k"
    "sys_close regs k = Some (r, k') \<Longrightarrow> kernel_ok img k' \<and> k_mem k' = k_mem k"
    "sys_read regs k = Some (r, k') \<Longrightarrow> kernel_ok img k' \<and>
       (\<forall>a. a < unat (regs 10) \<or> unat (regs 10) + unat (regs 11) \<le> a \<longrightarrow> k_mem k' a = k_mem k a)"
proof -
  obtain A where A: "appfs_ok A (k_fs k)" using k by (auto simp: kernel_ok_def)
  show "kernel_ok img k' \<and> k_mem k' = k_mem k" if r: "sys_open regs k = Some (r, k')"
  proof -
    obtain p rc s where p: "appfs_open (k_fs k) p (regs 10) = Some (rc, s)" "k' = k\<lparr>k_fs := s\<rparr>"
      using r by (auto simp: sys_open_def ret_def split: option.splits if_splits)
    then show ?thesis using kernel_ok_fs [OF k] serve_ok [OF A, of "Open p (regs 10)" s] by simp
  qed
  show "kernel_ok img k' \<and> k_mem k' = k_mem k" if r: "sys_write regs k = Some (r, k')"
  proof (cases "regs 10 = 0")
    case True
    then show ?thesis using r k by (auto simp: sys_write_def ret_def)
  next
    case False
    let ?b = "bytes_at (k_mem k) (unat (regs 10)) (unat (regs 11))"
    obtain rc s where p: "appfs_write (k_fs k) (sint (regs 9)) ?b = Some (rc, s)" "k' = k\<lparr>k_fs := s\<rparr>"
      using r False by (auto simp: sys_write_def ret_def split: option.splits)
    then show ?thesis using kernel_ok_fs [OF k] serve_ok [OF A, of "Write (sint (regs 9)) ?b" s] by simp
  qed
  show "kernel_ok img k' \<and> k_mem k' = k_mem k" if r: "sys_close regs k = Some (r, k')"
  proof -
    obtain rc s where p: "appfs_close (k_fs k) (sint (regs 9)) = Some (rc, s)" "k' = k\<lparr>k_fs := s\<rparr>"
      using r by (auto simp: sys_close_def ret_def split: option.splits)
    then show ?thesis using kernel_ok_fs [OF k] serve_ok [OF A, of "Close (sint (regs 9))" s] by simp
  qed
  show "kernel_ok img k' \<and> (\<forall>a. a < unat (regs 10) \<or> unat (regs 10) + unat (regs 11) \<le> a \<longrightarrow> k_mem k' a = k_mem k a)"
    if r: "sys_read regs k = Some (r, k')"
  proof (cases "regs 10 = 0")
    case True
    then show ?thesis using r k by (auto simp: sys_read_def ret_def)
  next
    case False
    obtain rc bs s where p: "appfs_read (k_fs k) (sint (regs 9)) (regs 11) = ((rc, bs), s)" by (metis surj_pair)
    then have k': "k' = k\<lparr>k_fs := s, k_mem := mem_copy (k_mem k) (unat (regs 10)) bs\<rparr>"
      using r False by (auto simp: sys_read_def ret_def)
    have "kernel_ok img k'" unfolding k' using kernel_ok_fs [OF k] serve_ok [OF A, of "Read (sint (regs 9)) (regs 11)" s] p by simp
    then show ?thesis using read_length [OF p] unfolding k' by auto
  qed
qed

lemma ecall_result:
  assumes k: "kernel_ok img k" and b: "buffer_inside (lay img) regs" and r: "ecall img mtime epc regs k = Some (pc, regs', k')"
  shows "kernel_ok img k' \<and> area_frame img k k'"
proof -
  have alloc: "kernel_ok img (k\<lparr>k_uheap := snd (app_heap_alloc (k_uheap k) sz)\<rparr>)" for sz
    using k alloc_uheap_in by (simp add: kernel_ok_def)
  have putc: "kernel_ok img (sys_putc regs k)" "k_mem (sys_putc regs k) = k_mem k"
    using k by (auto simp: sys_putc_def Let_def intro: kernel_ok_win ok_putc)
  have puts: "kernel_ok img v \<and> k_mem v = k_mem k" if "sys_puts regs k = Some v" for v
    using that k by (auto simp: sys_puts_def intro: kernel_ok_win ok_puts split: if_splits)
  have read: "area_frame img k v" if "sys_read regs k = Some (q, v)" "regs 16 = 8" for q v
    using sys_fs_ok(4) [OF k that(1)] b that(2) unfolding area_frame_def in_area_def buffer_inside_def by (metis linorder_not_less order_trans)
  have same: "area_frame img k v" if "k_mem v = k_mem k" for v using that by (simp add: area_frame_def)
  have alloced: "k' = k\<lparr>k_uheap := snd (app_heap_alloc (k_uheap k) (regs 9))\<rparr> \<Longrightarrow> kernel_ok img k' \<and> area_frame img k k'"
    using alloc by (simp add: area_frame_def)
  have fs: "sys_open regs k = Some (q, k') \<or> sys_write regs k = Some (q, k') \<or> sys_close regs k = Some (q, k') \<Longrightarrow>
      kernel_ok img k' \<and> area_frame img k k'" for q
    using sys_fs_ok(1,2,3) [OF k] same by blast
  note R = r [unfolded ecall_def Let_def]
  show ?thesis
  proof (cases "regs 16 = 1")
    case True
    then show ?thesis using R putc same by auto
  next
    case 1: False
    note R = R [unfolded if_not_P [OF 1]]
    show ?thesis
    proof (cases "regs 16 = 2")
      case True
      then show ?thesis using R puts same by auto
    next
      case 2: False
      note R = R [unfolded if_not_P [OF 2]]
      show ?thesis
      proof (cases "regs 16 = 3 \<or> regs 16 = 4 \<or> regs 16 = 5 \<or> regs 16 = 6")
        case True
        then show ?thesis using R alloced k by (elim disjE) (auto simp: sys_alloc_def ret_def split_beta area_frame_def kernel_ok_def)
      next
        case 3: False
        then have n: "regs 16 \<noteq> 3" "regs 16 \<noteq> 4" "regs 16 \<noteq> 5" "regs 16 \<noteq> 6" by simp_all
        note R = R [unfolded if_not_P [OF n(1)] if_not_P [OF n(2)] if_not_P [OF n(3)] if_not_P [OF n(4)]]
        show ?thesis
        proof (cases "regs 16 = 8")
          case True
          then obtain q where "sys_read regs k = Some (q, k')" using R by auto
          then show ?thesis using sys_fs_ok(4) [OF k] read True by blast
        next
          case 4: False
          note R = R [unfolded if_not_P [OF 4]]
          show ?thesis
          proof (cases "regs 16 = 10")
            case True
            then have "k' = k\<lparr>k_exit := regs 9, k_satp := 0, k_mpp := 3\<rparr>" using R by (simp add: sys_exit_def)
            then show ?thesis using k by (simp add: area_frame_def)
          next
            case 5: False
            note R = R [unfolded if_not_P [OF 5]]
            have "\<exists>q. sys_open regs k = Some (q, k') \<or> sys_write regs k = Some (q, k') \<or> sys_close regs k = Some (q, k')"
              using R by (cases "regs 16 = 7"; cases "regs 16 = 9"; cases "regs 16 = 11") auto
            then show ?thesis using fs by blast
          qed
        qed
      qed
    qed
  qed
qed

end
