(* ===== verification/AppRun.thy ===== *)
theory AppRun
  imports Launch
begin

text \<open>
  What \<open>Launch\<close> shows of user programs: when a program is started and what it then finds, that
  a refused program leaves no trace, that the kernel's invariants survive every step, and that
  an exit gives everything back.
\<close>

section \<open>When a program starts\<close>

lemma argv_stack_fits:
  assumes "length nm \<le> 99" "ws = (case arg of None \<Rightarrow> [] | Some a \<Rightarrow> words (take 99 a))" "length ws \<le> 7"
    and room: "unat (APP_START l) + 4096 + 512 < unat stk"
  shows "fst (app_prepare_argv_stack l nm arg mm stk) = 0"
proof -
  let ?argv = "nm # ws"
  have av: "app_argv nm arg = Some ?argv" using assms(2,3) by (simp add: app_argv_words Let_def)
  have "str_room ws \<le> 100" using sum_words [of "take 99 (the arg)"] by (cases arg) (auto simp: assms(2) str_room_def)
  then have r: "str_room ?argv \<le> 200" using assms(1) by (simp add: str_room_def)
  define frame where "frame = align_up_reg (4 + (of_nat (length ?argv) + 1) * 4 + sum_list (map (\<lambda>s. of_nat (strlen s) + 1) ?argv)) 16"
  have f: "unat frame = (4 + (length ?argv + 1) * 4 + str_room ?argv + 15) div 16 * 16"
    unfolding frame_def using r assms(3) by (intro frame_words) simp_all
  then have fb: "unat frame \<le> 512" using r assms(3) by simp
  have stk: "unat stk < 2 ^ 32" using unsigned_less [of stk] by simp
  have 1: "frame \<le> stk" using fb room by (simp add: word_le_nat_alt)
  then have "unat (stk - frame) = unat stk - unat frame" by (simp add: unat_sub_if_size word_le_nat_alt)
  moreover have "unat (APP_START l + 4096) = unat (APP_START l) + 4096" using room stk by (simp add: unat_word_ariths)
  ultimately have 2: "\<not> (frame > stk \<or> stk - frame \<le> APP_START l + 4096)"
    using 1 fb room by (simp add: word_le_nat_alt not_less)
  show ?thesis
    unfolding app_prepare_argv_stack_def av option.case Let_def frame_def [symmetric] if_not_P [OF 2] by (simp add: split_beta)
qed

text \<open>A file that starts: an ELF image that the loader takes, with an entry point.\<close>

definition loadable :: "kernel_image \<Rightarrow> kernel \<Rightarrow> u8 list \<Rightarrow> bool" where
  "loadable img k bs \<longleftrightarrow> 52 \<le> length bs \<and> elf_magic bs \<and>
     fst (fst (app_load_elf_image (lay img) (file_mem bs) (of_nat (length bs)) (area_zeroed img k))) = 0 \<and>
     e_entry (file_mem bs) \<noteq> 0"

lemma place_args_starts:
  assumes s: "sched_wf (k_sched k)" "k_task k < taskTop (k_sched k)" "0 \<le> k_task k \<or> taskTop (k_sched k) < 16"
    and l: "AppVm.layout_ok (lay img)" "20480 < APP_SIZE (lay img)" and nm: "length name \<le> 99"
    and ws: "ws = (case argstr of None \<Rightarrow> [] | Some s \<Rightarrow> words (take 99 s))" "length ws \<le> 7"
  shows "\<exists>k'. place_args img k i name argstr a = Some ((0, ''>> App Started.''), k')"
proof -
  let ?l = "lay img"
  define u where "u = (APP_END (lay img) AND NOT 0xF) - 16"
  note b = sp_bounds [OF l, folded u_def]
  have e32: "unat (APP_END ?l) < 2 ^ 32" using unsigned_less [of "APP_END ?l"] by simp
  have "unat (APP_START ?l + 4096) = unat (APP_START ?l) + 4096" using b(2) e32 by (simp add: unat_word_ariths)
  then have 1: "\<not> u \<le> APP_START ?l + 4096" using b by (simp add: word_le_nat_alt)
  have "fst (app_prepare_argv_stack ?l name argstr (k_mem k) u) = 0"
    using b by (intro argv_stack_fits [OF nm ws]) simp
  then obtain m2 u2 where p: "app_prepare_argv_stack ?l name argstr (k_mem k) u = (0, m2, u2)" by (metis prod.collapse)
  define k5 where "k5 = (k\<lparr>k_ctl := (k_ctl k)\<lparr>loaded_app_user_sp := u\<rparr>\<rparr>)\<lparr>k_mem := m2, k_ctl := (k_ctl (k\<lparr>k_ctl := (k_ctl k)\<lparr>loaded_app_user_sp := u\<rparr>\<rparr>))\<lparr>loaded_app_user_sp := u2\<rparr>\<rparr>"
  obtain k6 where "run_task img (give_area img k5 i) = Some k6"
    using run_task_wf(2) [of "give_area img k5 i" img] s by (auto simp: give_area_fields k5_def)
  then have "start_task img k5 i a = Some ((0, ''>> App Started.''), free_buf k6 a)" by (simp add: start_task_def)
  moreover have "place_args img k i name argstr a = start_task img k5 i a"
    unfolding place_args_def Let_def u_def [symmetric] if_not_P [OF 1] by (simp add: p k5_def)
  ultimately show ?thesis by simp
qed

lemma launch_starts:
  assumes k: "kernel_ok img k" "\<not> app_running (k_ctl k)" "0 \<le> k_task k \<or> taskTop (k_sched k) < 16"
    and l: "AppVm.layout_ok (lay img)" "20480 < APP_SIZE (lay img)" and nm: "length name \<le> 99"
    and ws: "ws = (case argstr of None \<Rightarrow> [] | Some s \<Rightarrow> words (take 99 s))" "length ws \<le> 7"
    and ld: "load_file_bytes_alloc (app_files (k_fs k)) (app_heap (k_fs k)) (k_dirs k i) name = Some ((0, Some (a, bs)), d, f, h)"
    and cwd: "length (win_cwd d) \<le> 31" and el: "loadable img k bs"
  shows "\<exists>k'. launch_app_file img k i name argstr = Some ((0, ''>> App Started.''), k')"
proof -
  let ?l = "lay img"
  define k1 where "k1 = k\<lparr>k_dirs := (k_dirs k)(i := d), k_fs := (k_fs k)\<lparr>app_files := f, app_heap := h\<rparr>\<rparr>"
  define k2 where "k2 = k1\<lparr>k_ctl := (k_ctl k1)\<lparr>loaded_app_entry := 0\<rparr>\<rparr>"
  have d: "k_dirs k2 i = d" by (simp add: k2_def k1_def)
  have "fits 32 (cwd_or_root (win_cwd d)) \<noteq> None" using cwd by (simp add: fits_def cwd_or_root_def)
  then obtain s where s: "appfs_set_cwd (k_fs k2) (win_cwd_bno d) (win_cwd d) = Some s"
    by (auto simp: appfs_set_cwd_def)
  define k3 where "k3 = k2\<lparr>k_fs := s, k_mem := area_zeroed img k\<rparr>"
  have k3: "k2\<lparr>k_fs := s, k_mem := mem_fill (k_mem k2) (unat (APP_START ?l)) (unat (APP_SIZE ?l)) 0\<rparr> = k3"
    by (simp add: k3_def area_zeroed_def k2_def k1_def)
  have mm: "k_mem k3 = area_zeroed img k" by (simp add: k3_def)
  obtain rc msg m en where e: "app_load_elf_image ?l (file_mem bs) (of_nat (length bs)) (area_zeroed img k) = ((rc, msg), m, en)"
    by (metis surj_pair)
  have z: "rc = 0" "en = Some (e_entry (file_mem bs))" using el elf_loader_correct [OF e] by (simp_all add: loadable_def e)
  define k4 where "k4 = (k3\<lparr>k_mem := m\<rparr>)\<lparr>k_ctl := (k_ctl (k3\<lparr>k_mem := m\<rparr>))\<lparr>loaded_app_entry := e_entry (file_mem bs)\<rparr>\<rparr>"
  have K: "k_sched k4 = k_sched k" "k_task k4 = k_task k" "loaded_app_entry (k_ctl k4) \<noteq> 0"
    using el by (simp_all add: k4_def k3_def k2_def k1_def loadable_def)
  have 1: "\<not> (length bs < 52 \<or> \<not> elf_magic bs)" using el by (simp add: loadable_def)
  have 2: "\<not> APP_SIZE ?l \<le> 20480" using l(2) by simp
  have "start_image img k1 i name argstr a bs = place_args img k4 i name argstr a"
    unfolding start_image_def Let_def k2_def [symmetric] d s option.case k3 if_not_P [OF 1] mm e prod.case z
    unfolding k4_def [symmetric] using K(3) 2 by simp
  moreover have "\<exists>k'. place_args img k4 i name argstr a = Some ((0, ''>> App Started.''), k')"
    using k l by (intro place_args_starts [OF _ _ _ l nm ws]) (auto simp: K kernel_ok_def)
  moreover have "launch_app_file img k i name argstr = start_image img k1 i name argstr a bs"
    unfolding launch_app_file_def if_not_P [OF k(2)] ld option.case prod.case Let_def k1_def by simp
  ultimately show ?thesis by simp
qed



section \<open>When it does not\<close>

text \<open>
  C13: A refused program leaves no trace: when \<open>launch_app_file\<close> returns an error code, no
  program is running that was not running before, and owner, windows, scheduler, page tables and
  the program heap are as before; memory outside the program area is unchanged, no heap block
  that a descriptor needs is lost, and while a program runs, the kernel as a whole is unchanged
  and the code is -9.
\<close>

theorem launch_fails_cleanly:
  assumes "kernel_ok img k" "AppVm.layout_ok (lay img)" "length name \<le> 99"
    and r: "launch_app_file img k i name argstr = Some ((rc, msg), k')"
  shows "(rc \<noteq> 0 \<longrightarrow> not_started k k') \<and> area_frame img k k' \<and> kernel_ok img k' \<and>
    (app_running (k_ctl k) \<longrightarrow> rc = -9 \<and> k' = k)"
  using launch_result [OF assms(1-3) refl r] r by (auto simp: launch_app_file_def)

section \<open>Every step keeps the invariants\<close>

lemma elf_command_short: "elf_command cmd = Some (name, args) \<Longrightarrow> length name \<le> 99"
proof -
  assume e: "elf_command cmd = Some (name, args)"
  define fn where "fn = dropWhile (\<lambda>c. c = CHR '' '') (take 99 (dropWhile (\<lambda>c. c = CHR '' '') cmd))"
  have "length fn \<le> 99" using length_dropWhile_le [of "\<lambda>c. c = CHR '' ''" "take 99 (dropWhile (\<lambda>c. c = CHR '' '') cmd)"]
    by (simp add: fn_def)
  moreover have "name = takeWhile (\<lambda>c. c \<noteq> CHR '' '') fn"
    using e unfolding elf_command_def Let_def fn_def [symmetric] by (simp split: if_splits)
  ultimately show ?thesis using length_takeWhile_le [of "\<lambda>c. c \<noteq> CHR '' ''" fn] by simp
qed

lemma close_all_ok:
  assumes "appfs_ok A s" "appfs_close_all s = Some (rc, s')"
  shows "\<exists>A'. appfs_ok A' s'"
  using close_loop_ok assms by (auto simp: appfs_close_all_def)

lemma ok_show_exit: "window_ok w \<Longrightarrow> window_ok (show_exit code w)"
proof -
  assume w: "window_ok w"
  have "window_ok (set_shell_status v s) = window_ok v" for v s
    by (simp add: set_shell_status_def window_ok_def edit_ok_def keys_wf_def)
  then show ?thesis using w by (simp add: show_exit_def Let_def ok_clear_prompt ok_redraw)
qed

lemma exit_trampoline_ok:
  assumes k: "kernel_ok img k" and r: "app_exit_trampoline k = Some k'"
  shows "kernel_ok img k' \<and> k_mem k' = k_mem k"
proof -
  obtain A where A: "appfs_ok A (k_fs k)" using k by (auto simp: kernel_ok_def)
  obtain rc s where c: "appfs_close_all (k_fs k) = Some (rc, s)"
    using r by (cases "appfs_close_all (k_fs k)") (auto simp: app_exit_trampoline_def Let_def)
  define k1 where "k1 = upd_win (k\<lparr>k_fs := s\<rparr>) (k_owner k) terminal_app_stdout_flush"
  have k1: "kernel_ok img k1" "k_mem k1 = k_mem k"
    unfolding k1_def using kernel_ok_fs [OF k close_all_ok [OF A c]] by (auto intro: kernel_ok_win ok_flush)
  have k2: "kernel_ok img (release_app_owner_command_state k1)" "k_mem (release_app_owner_command_state k1) = k_mem k1"
    unfolding release_app_owner_command_state_def using k1 by (auto intro!: kernel_ok_win ok_unlock)
  have k3: "kernel_ok img (reset_app (release_app_owner_command_state k1))" "k_mem (reset_app (release_app_owner_command_state k1)) = k_mem k1"
    using k2 by (simp_all add: reset_app_def kernel_ok_def uheap_in_def)
  have "k' = upd_win (reset_app (release_app_owner_command_state k1)) (k_owner k) (show_exit (k_exit k))"
    using r by (simp add: app_exit_trampoline_def Let_def c k1_def)
  then show ?thesis using kernel_ok_win [OF k3(1) ok_show_exit] k1 k3 by simp
qed

lemma release_finished_ok: "kernel_ok img k \<Longrightarrow> kernel_ok img (release_finished_app_commands k)"
  unfolding release_finished_app_commands_def
  by (auto simp: kernel_ok_def window_ok_def edit_ok_def keys_wf_def)

text \<open>One step of the machine: a command line that may name a program, the \<open>run\<close> command, a system call, a stretch
  of user code, which writes in the area only, \<open>app_bootstrap\<close>, the exit trampoline, a
  worker that releases terminals, and a window that handles keys or output.\<close>

inductive sys_step :: "kernel_image \<Rightarrow> ext \<Rightarrow> kernel \<Rightarrow> kernel \<Rightarrow> bool" for img x where
  commanded: "try_launch_elf_command img k i cmd = Some (r, k') \<Longrightarrow> sys_step img x k k'"
| launched: "length name \<le> 99 \<Longrightarrow> launch_app_file img k i name args = Some (r, k') \<Longrightarrow> sys_step img x k k'"
| called: "buffer_inside (lay img) regs \<Longrightarrow> ecall img mtime epc regs k = Some (pc, regs', k') \<Longrightarrow> sys_step img x k k'"
| computed: "\<forall>a. \<not> in_area (lay img) a \<longrightarrow> m a = k_mem k a \<Longrightarrow> sys_step img x k (k\<lparr>k_mem := m\<rparr>)"
| entered: "sys_step img x k (k\<lparr>k_ctl := snd (app_bootstrap (exit_addr img) (k_ctl k))\<rparr>)"
| exited: "app_exit_trampoline k = Some k' \<Longrightarrow> sys_step img x k k'"
| released: "sys_step img x k (release_finished_app_commands k)"
| windowed: "term_step x (k_wins k ! j) w \<Longrightarrow> j < length (k_wins k) \<Longrightarrow> sys_step img x k (k\<lparr>k_wins := (k_wins k)[j := w]\<rparr>)"

lemma launch_command_ok:
  assumes k: "kernel_ok img k" and l: "AppVm.layout_ok (lay img)" and r: "try_launch_elf_command img k i cmd = Some (res, k')"
  shows "kernel_ok img k' \<and> area_frame img k k'"
proof (cases "elf_command cmd")
  case None
  then show ?thesis using r k by (simp add: try_launch_elf_command_def area_frame_def)
next
  case (Some na)
  obtain name args where na: "na = (name, args)" by fastforce
  obtain rc msg where "launch_app_file img k i name args = Some ((rc, msg), k')"
    using r Some na by (auto simp: try_launch_elf_command_def)
  from launch_result [OF k l elf_command_short refl this] Some na show ?thesis by simp
qed

lemma sys_step_ok:
  assumes "sys_step img x k k'" "ext_ok x" "AppVm.layout_ok (lay img)" "kernel_ok img k"
  shows "kernel_ok img k' \<and> area_frame img k k'"
  using assms
proof (cases rule: sys_step.cases)
  case (commanded i cmd r)
  then show ?thesis using launch_command_ok assms by blast
next
  case (launched name i args r)
  obtain rc msg where "r = (rc, msg)" by fastforce
  then show ?thesis using launch_result [OF assms(4,3) launched(1) refl] launched(2) by simp
next
  case (called regs mtime epc pc regs')
  then show ?thesis using ecall_result assms by blast
next
  case exited
  then show ?thesis using exit_trampoline_ok [OF assms(4)] by (simp add: area_frame_def)
next
  case released
  then show ?thesis using release_finished_ok [OF assms(4)] by (simp add: area_frame_def release_finished_app_commands_def)
next
  case (windowed j w)
  have "window_ok (k_wins k ! j)" using windowed(3) assms(4) by (simp add: kernel_ok_def)
  then have "window_ok w" using ok_step windowed(2) assms(2) by blast
  then show ?thesis using windowed(1) assms(4) set_update_subset_insert [of "k_wins k" j w]
    by (auto simp: kernel_ok_def area_frame_def)
qed (use assms in \<open>simp_all add: area_frame_def\<close>)



section \<open>What an exit gives back\<close>

lemma close_fd_table:
  assumes c: "appfs_close_fd s (int i) = Some (r, s')"
  shows "j \<noteq> i \<Longrightarrow> fd_table s' j = fd_table s j" "i < 16 \<Longrightarrow> r = 0 \<Longrightarrow> fd_used (fd_table s i) \<Longrightarrow> \<not> fd_used (fd_table s' i)"
proof -
  have keep: "fd_table s1 = fd_table s" if "appfs_commit s i = Some (r1, s1)" for r1 s1
    using commit_ok [OF that] by auto
  have drop: "j \<noteq> i \<Longrightarrow> fd_table (drop_fd v i) j = fd_table v j" "\<not> fd_used (fd_table (drop_fd v i) i)" for v
    by (simp_all add: drop_fd_def Let_def zero_fd_def)
  show "j \<noteq> i \<Longrightarrow> fd_table s' j = fd_table s j"
    using c keep drop(1) by (auto simp: appfs_close_fd_def Let_def split: if_splits option.splits)
  show "i < 16 \<Longrightarrow> r = 0 \<Longrightarrow> fd_used (fd_table s i) \<Longrightarrow> \<not> fd_used (fd_table s' i)"
    using c drop(2) by (auto simp: appfs_close_fd_def Let_def valid_fd_def split: if_splits option.splits)
qed

lemma close_loop_table:
  assumes "close_loop is rc s = Some (r, s')" "\<forall>i \<in> set is. i < 16" "distinct is"
  shows "(\<forall>j. j \<notin> set is \<longrightarrow> fd_table s' j = fd_table s j) \<and>
    (r = 0 \<longrightarrow> rc = 0 \<and> (\<forall>i \<in> set is. \<not> fd_used (fd_table s' i)))"
  using assms
proof (induction "is" rc s rule: close_loop.induct)
  case (2 i "is" rc s)
  show ?case
  proof (cases "fd_used (fd_table s i)")
    case False
    then show ?thesis using 2(2)[OF False] "2.prems" by auto
  next
    case True
    then obtain r1 s1 where r: "appfs_close_fd s (int i) = Some (r1, s1)"
      using "2.prems"(1) by (cases "appfs_close_fd s (int i)") auto
    note t = close_fd_table [OF r]
    have "close_loop is (if r1 \<noteq> 0 then -1 else rc) s1 = Some (r, s')" using "2.prems"(1) True r by simp
    note ih = 2(1) [OF True r refl this] 
    then have ih: "(\<forall>j. j \<notin> set is \<longrightarrow> fd_table s' j = fd_table s1 j)"
      "r = 0 \<longrightarrow> (if r1 \<noteq> 0 then -1 else rc) = 0 \<and> (\<forall>i \<in> set is. \<not> fd_used (fd_table s' i))"
      using "2.prems"(2,3) by simp_all
    have "\<not> fd_used (fd_table s' i)" "rc = 0" if "r = 0"
      using ih that t(2) True "2.prems"(2,3) by (auto split: if_splits)
    then show ?thesis using ih t(1) by (auto split: if_splits)
  qed
qed simp

lemma no_heap: "fst (app_heap_alloc \<lparr>loaded_app_heap_lo = 0, loaded_app_heap_hi = 0, loaded_app_heap_cur = 0\<rparr> sz) = 0"
  by (simp add: app_heap_alloc_def Let_def)

lemma zero_tables:
  assumes "bit satp 31"
  shows "sv32_walk (pt_word l \<lparr>app_root_pt = (\<lambda>_. 0), app_l2_pt = (\<lambda>_ _. 0)\<rparr>) satp va = None"
  using assms by (simp add: sv32_walk_def Let_def pt_word_def)

lemma upd_win_nth: "j < length (k_wins k) \<Longrightarrow> k_wins (upd_win k i f) ! j = (if i = int j then f (k_wins k ! j) else k_wins k ! j)"
  by (auto simp: upd_win_def nth_list_update)

lemma unlock_free: "t_kind w = 0 \<Longrightarrow> \<not> executing_cmd (terminal_unlock_after_cancel w) \<and> \<not> submit_locked (terminal_unlock_after_cancel w) \<and>
    t_active (terminal_unlock_after_cancel w) = t_active w \<and> t_kind (terminal_unlock_after_cancel w) = 0"
  by (simp add: terminal_unlock_after_cancel_def terminal_append_prompt_def terminal_scroll_to_bottom_def put_row_def make_room_def
      shift_rows_def clear_prompt_input_def clear_window_input_queue_def Let_def)

lemma show_exit_flags: "executing_cmd (show_exit c w) = executing_cmd w" "submit_locked (show_exit c w) = submit_locked w"
  "t_active w \<Longrightarrow> t_kind w = 0 \<Longrightarrow> shell_status (show_exit c w) = ''exit='' @ lib_itoa c"
  by (simp_all add: show_exit_def set_shell_status_def clear_prompt_input_def redraw_prompt_line_def Let_def)

text \<open>
  C23: An exit gives everything back: after \<open>app_exit_trampoline\<close> no program runs and the next
  one may start, nothing is left to enter, a translated access finds no page, an allocation from
  the program's heap fails, and, unless storing a file failed, every descriptor is closed. The
  terminal that started the program takes commands again and shows the exit code.
\<close>

theorem exit_cleans_up:
  assumes k: "kernel_ok img k" and c: "appfs_close_all (k_fs k) = Some (rc, s)"
    and w: "k_owner k = int j" "j < length (k_wins k)" "t_active (terminal_app_stdout_flush (k_wins k ! j))"
      "t_kind (terminal_app_stdout_flush (k_wins k ! j)) = 0"
  shows "\<exists>k'. app_exit_trampoline k = Some k' \<and> kernel_ok img k' \<and>
    \<not> app_running (k_ctl k') \<and> k_owner k' = -1 \<and> app_bootstrap (exit_addr img) (k_ctl k') = (Sleep, k_ctl k') \<and>
    (\<forall>satp va. bit satp 31 \<longrightarrow> sv32_walk (pt_word (lay img) (k_pt k')) satp va = None) \<and>
    (\<forall>sz. fst (app_heap_alloc (k_uheap k') sz) = 0) \<and>
    (rc = 0 \<longrightarrow> (\<forall>i < 16. \<not> fd_used (fd_table (k_fs k') i))) \<and>
    (let v = k_wins k' ! j in \<not> executing_cmd v \<and> \<not> submit_locked v \<and> shell_status v = ''exit='' @ lib_itoa (k_exit k))"
proof -
  define k1 where "k1 = upd_win (k\<lparr>k_fs := s\<rparr>) (k_owner k) terminal_app_stdout_flush"
  define k2 where "k2 = reset_app (release_app_owner_command_state k1)"
  have t: "app_exit_trampoline k = Some (upd_win k2 (k_owner k) (show_exit (k_exit k)))"
    by (simp add: app_exit_trampoline_def Let_def c k1_def k2_def)
  have o1: "k_owner k1 = int j" "length (k_wins k1) = length (k_wins k)" using w(1) by (simp_all add: k1_def)
  have w1: "k_wins k1 ! j = terminal_app_stdout_flush (k_wins k ! j)"
    using w(1,2) upd_win_nth [of j "k\<lparr>k_fs := s\<rparr>"] by (simp add: k1_def)
  have w2: "k_wins k2 ! j = terminal_unlock_after_cancel (k_wins k1 ! j)" "length (k_wins k2) = length (k_wins k)"
    using w(2) o1 upd_win_nth [of j k1] w(3,4) by (simp_all add: k2_def reset_app_def release_app_owner_command_state_def w1)
  have w3: "k_wins (upd_win k2 (k_owner k) (show_exit (k_exit k))) ! j = show_exit (k_exit k) (terminal_unlock_after_cancel (k_wins k1 ! j))"
    using upd_win_nth [of j k2] w(1,2) w2 by simp
  have f: "k_ctl k2 = \<lparr>loaded_app_entry = 0, loaded_app_resume_pc = 0, loaded_app_user_sp = 0, loaded_app_satp = 0, app_running = False\<rparr>"
    "k_owner k2 = -1" "k_pt k2 = \<lparr>app_root_pt = (\<lambda>_. 0), app_l2_pt = (\<lambda>_ _. 0)\<rparr>"
    "k_uheap k2 = \<lparr>loaded_app_heap_lo = 0, loaded_app_heap_hi = 0, loaded_app_heap_cur = 0\<rparr>" "k_fs k2 = s"
    by (simp_all add: k2_def reset_app_def release_app_owner_command_state_def k1_def)
  have fds: "\<not> fd_used (fd_table s i)" if "rc = 0" "i < 16" for i
    using close_loop_table [of "[0 ..< 16]" 0 "k_fs k" rc s] c that by (simp add: appfs_close_all_def)
  note u = unlock_free [of "k_wins k1 ! j", unfolded w1, OF w(4)]
  show ?thesis
    unfolding t option.inject Let_def
    using exit_trampoline_ok [OF k t] u w3 w1 show_exit_flags w(3)
    by (intro exI conjI) (auto simp: f zero_tables no_heap app_bootstrap_def fds)
qed


section \<open>A program on a fresh disk\<close>

definition low_layout :: app_layout where
  "low_layout = \<lparr>APP_START = 0, APP_END = 0x6000, root_addr = 0x10000, l2_addr = 0x11000\<rparr>"

definition demo_image :: kernel_image where
  "demo_image = \<lparr>lay = low_layout, boot_addr = 0x80000100, exit_addr = 0x80000200, exit_stack_top = 0x80010000,
     stack_top = (\<lambda>_. 0x80020000)\<rparr>"

definition demo_kernel :: "fs \<Rightarrow> heap \<Rightarrow> kernel" where
  "demo_kernel f h = \<lparr>k_mem = (\<lambda>_. 0), k_fs = (demo_app h)\<lparr>fd_table := (\<lambda>_. zero_fd), app_files := f\<rparr>,
     k_wins = [fresh_terminal], k_dirs = (\<lambda>_. tmp_window 1 []),
     k_ctl = \<lparr>loaded_app_entry = 0, loaded_app_resume_pc = 0, loaded_app_user_sp = 0, loaded_app_satp = 0, app_running = False\<rparr>,
     k_uheap = \<lparr>loaded_app_heap_lo = 0, loaded_app_heap_hi = 0, loaded_app_heap_cur = 0\<rparr>,
     k_pt = \<lparr>app_root_pt = (\<lambda>_. 0), app_l2_pt = (\<lambda>_ _. 0)\<rparr>, k_owner = -1, k_exit = 0, k_task = -1, k_sched = demo_sched,
     k_resched = False, k_uart = [], k_satp = 0, k_mpp = 0\<rparr>"

lemma demo_load: "fst (fst (app_load_elf_image low_layout (file_mem tiny_elf) 87 (\<lambda>_. 0))) = 0" "e_entry (file_mem tiny_elf) = 0x100"
  by code_simp+


lemma demo_malloc: "\<exists>h. alloc_inv h Map.empty \<and> fst (malloc h 87) \<noteq> 0"
proof -
  obtain h where h: "heap_inv h (usb_dma_pages h) Map.empty" "first_page h = 1" "last_page h = 16" "usb_dma_pages h = {}"
    using demo_heap_inv by blast
  have "find_run h (first_page h) (unat (req_pages 87)) (last_page h) \<noteq> None"
    using find_run_first [of 1 1 1 16 h] heap_invD(10) [OF h(1)] h(2-4)
    by (auto simp: req_pages_def pages_for_size_def req_size_def drop_bit_eq_div)
  moreover have "alloc_pages h = 15" using h(2,3) by (simp add: last_page_def word_unat_eq_iff)
  ultimately obtain p where p: "malloc_place h 87 = Some p"
    by (auto simp: malloc_place_def req_size_def req_pages_def pages_for_size_def drop_bit_eq_div)
  have "alloc_inv h Map.empty" using h(1) unfolding alloc_inv_def live_blocks_def
    by (intro exI [of _ "usb_dma_pages h"] exI [of _ Map.empty]) simp
  then show ?thesis using malloc_SomeD(2) [OF h(1) p] by blast
qed

lemma load_alloc_of_load:
  assumes l: "load_file_bytes f w name (length bs) = Some ((0, bs), w1, f1)" and ne: "bs \<noteq> []"
    and m: "fst (malloc h (of_nat (length bs))) \<noteq> 0"
  shows "\<exists>a h1. load_file_bytes_alloc f h w name = Some ((0, Some (a, bs)), w1, f1, h1)"
proof -
  obtain db leaf w2 f2 where o: "open_dir f w name = Some (Some (db, leaf), w2, f2)"
    using l by (auto simp: load_file_bytes_def split: option.splits)
  obtain j where j: "find_entry_index db leaf 0 = Some j"
    using l o by (cases "find_entry_index db leaf 0") (auto simp: load_file_bytes_def)
  have le: "e_size db j \<le> length bs" and nz: "e_bno db j \<noteq> 0" 
    and bs: "load_blocks f2 (e_size db j) (e_bno db j) [] = Some bs" and w: "w1 = w2" "f1 = f2"
    using l ne by (auto simp: load_file_bytes_def o j split: if_splits)
  have "length bs \<le> e_size db j" using load_blocks_length [OF bs] by simp
  then have e: "e_size db j = length bs" using le by simp
  obtain a h1 where a: "malloc h (of_nat (length bs)) = (a, h1)" by fastforce
  show ?thesis using m ne by (simp add: load_file_bytes_alloc_def o j e a nz bs [unfolded e] w)
qed

lemma demo_file:
  "\<exists>f. map_option fst (load_file_bytes f (tmp_window 1 []) ''a'' 87) = Some (0, tiny_elf)"
proof -
  have n: "length tiny_elf = 87" by (simp add: tiny_elf_def)
  obtain f where st: "store_file_bytes formatted (tmp_window 1 []) ''a'' tiny_elf = Some (0, f)"
    using store_succeeds [OF formatted_ok(1) formatted_window(1,2) _ formatted_entry, of tiny_elf] formatted_ok(2) n by auto
  show ?thesis
    using store_load [OF formatted_ok(1) formatted_window(1) _ _ _ formatted_window(2) _ st] formatted_window(1) n
    by fastforce
qed

lemma demo_kernel_ok: "alloc_inv h Map.empty \<Longrightarrow> kernel_ok demo_image (demo_kernel f h)"
  using fresh_ok demo_sched_wf
  by (auto simp: kernel_ok_def demo_kernel_def demo_sched_def task_init_def uheap_in_def appfs_ok_def buf_ok_def demo_app_def range_ok_def cap_ok_def
      intro!: exI [of _ Map.empty])

lemma demo_layout: "AppVm.layout_ok (lay demo_image)" "20480 < Launch.APP_SIZE (lay demo_image)"
  by (simp_all add: demo_image_def low_layout_def AppVm.layout_ok_def Launch.APP_SIZE_def)

lemma demo_loadable: "loadable demo_image (demo_kernel f h) tiny_elf"
proof -
  have "area_zeroed demo_image (demo_kernel f h) = (\<lambda>_. 0)" by (auto simp: area_zeroed_def demo_kernel_def mem_fill_def)
  moreover have "length tiny_elf = 87" "elf_magic tiny_elf" by (simp_all add: tiny_elf_def elf_magic_def c2b_def)
  ultimately show ?thesis using demo_load by (simp add: loadable_def demo_image_def)
qed

lemma plain_load_cwd:
  assumes "load_file_bytes f w name mx = Some (r, w1, f1)" "\<not> needs_resolve name"
  shows "win_cwd w1 = win_cwd w"
proof -
  obtain m where "open_dir f w name = Some (m, w1, f1) \<or> (\<exists>f2. open_dir f w name = Some (m, w1, f2))"
    using assms(1) by (auto simp: load_file_bytes_def split: option.splits if_splits)
  then show ?thesis using assms(2) by (auto simp: open_dir_def load_current_dir_def Let_def split: option.splits if_splits)
qed

lemma demo_machine:
  "\<exists>f h a d f1 h1. alloc_inv h Map.empty \<and> length (win_cwd d) \<le> 31 \<and>
     load_file_bytes_alloc f h (tmp_window 1 []) ''a'' = Some ((0, Some (a, tiny_elf)), d, f1, h1)"
proof -
  obtain f d f1 where f: "load_file_bytes f (tmp_window 1 []) ''a'' 87 = Some ((0, tiny_elf), d, f1)" using demo_file by auto
  obtain h where h: "alloc_inv h Map.empty" "fst (malloc h 87) \<noteq> 0" using demo_malloc by blast
  have n: "length tiny_elf = 87" "tiny_elf \<noteq> []" by (simp_all add: tiny_elf_def)
  have "length (win_cwd d) \<le> 31" using plain_load_cwd [OF f formatted_window(2)] by (simp add: tmp_window_def)
  moreover obtain a h1 where "load_file_bytes_alloc f h (tmp_window 1 []) ''a'' = Some ((0, Some (a, tiny_elf)), d, f1, h1)"
    using load_alloc_of_load [of f "tmp_window 1 []" "''a''" tiny_elf d f1 h] f h n by auto
  ultimately show ?thesis using h(1) by blast
qed


theorem launch_fails_cleanly_witness:
  "\<exists>h. let k = (demo_kernel formatted h)\<lparr>k_ctl := (k_ctl (demo_kernel formatted h))\<lparr>app_running := True\<rparr>\<rparr> in
     launch_app_file demo_image k 0 ''a'' None = Some ((-9, ''ERR: App Busy (previous app still running).''), k) \<and> not_started k k"
proof -
  obtain h where h: "alloc_inv h Map.empty" using some_heap by blast
  let ?k = "(demo_kernel formatted h)\<lparr>k_ctl := (k_ctl (demo_kernel formatted h))\<lparr>app_running := True\<rparr>\<rparr>"
  have r: "launch_app_file demo_image ?k 0 ''a'' None = Some ((-9, ''ERR: App Busy (previous app still running).''), ?k)"
    by (simp add: launch_app_file_def)
  have "kernel_ok demo_image ?k" using demo_kernel_ok [OF h] by simp
  from launch_fails_cleanly [OF this demo_layout(1) _ r] r show ?thesis by (intro exI [of _ h]) (simp add: Let_def)
qed


text \<open>A program of terminal 0 that exits with code 3.\<close>

theorem exit_cleans_up_witness:
  "\<exists>h k'. app_exit_trampoline ((demo_kernel formatted h)\<lparr>k_owner := 0, k_exit := 3\<rparr>) = Some k' \<and>
     \<not> app_running (k_ctl k') \<and> shell_status (k_wins k' ! 0) = ''exit='' @ lib_itoa 3"
proof -
  obtain h where h: "alloc_inv h Map.empty" using some_heap by blast
  let ?k = "(demo_kernel formatted h)\<lparr>k_owner := 0, k_exit := 3\<rparr>"
  have l: "close_loop is rc s = Some (rc, s)" if "\<forall>i. \<not> fd_used (fd_table s i)" for "is" rc s using that by (induction "is") auto
  have c: "appfs_close_all (k_fs ?k) = Some (0, k_fs ?k)"
    unfolding appfs_close_all_def by (rule l) (simp add: demo_kernel_def demo_app_def zero_fd_def)
  have w: "k_wins ?k ! 0 = fresh_terminal" "k_owner ?k = int 0" "0 < length (k_wins ?k)" by (simp_all add: demo_kernel_def)
  have a: "t_active (terminal_app_stdout_flush fresh_terminal)" "t_kind (terminal_app_stdout_flush fresh_terminal) = 0"
    by (simp_all add: terminal_app_stdout_flush_def fresh_terminal_def)
  have k: "kernel_ok demo_image ?k" using demo_kernel_ok [OF h] by (simp add: kernel_ok_def)
  from exit_cleans_up [OF k c w(2,3), unfolded w(1), OF a] show ?thesis by (auto simp: Let_def)
qed

end
