(* ===== verification/Desktop.thy ===== *)
theory Desktop
  imports TermSafe
begin

text \<open>
  The windows of the desktop (\<open>vibeos/user_gui.c\<close>): their geometry, their order and the active
  one, and what the desktop's task does with keys, clicks, dragging and the wheel.

  A window is a terminal window (\<open>Terminal\<close>) with the fields that the desktop uses. What other
  modules do with a window (the browser, the debugger, the editor, games, the start of a shell)
  is the parameter record \<open>gext\<close>. Painting, the wake-up of tasks and the pacing of frames are
  not modelled.
\<close>

unbundle bit_operations_syntax

section \<open>State\<close>

abbreviation (input) MAX_WINDOWS :: nat where "MAX_WINDOWS \<equiv> 4"
abbreviation (input) HEIGHT :: int where "HEIGHT \<equiv> 384"
abbreviation (input) GUI_VISIBLE_H :: int where "GUI_VISIBLE_H \<equiv> 300"
abbreviation (input) MIN_WIN_W :: int where "MIN_WIN_W \<equiv> 220"
abbreviation (input) MIN_WIN_H :: int where "MIN_WIN_H \<equiv> 140"
abbreviation (input) RESIZE_NONE :: nat where "RESIZE_NONE \<equiv> 0"
abbreviation (input) RESIZE_LEFT :: nat where "RESIZE_LEFT \<equiv> 1"
abbreviation (input) RESIZE_RIGHT :: nat where "RESIZE_RIGHT \<equiv> 2"
abbreviation (input) RESIZE_TOP :: nat where "RESIZE_TOP \<equiv> 4"
abbreviation (input) RESIZE_BOTTOM :: nat where "RESIZE_BOTTOM \<equiv> 8"
abbreviation (input) RESIZE_MARGIN :: int where "RESIZE_MARGIN \<equiv> 10"
abbreviation (input) TASKBAR_ID :: nat where "TASKBAR_ID \<equiv> 255"
abbreviation (input) TASKBAR_START_X :: int where "TASKBAR_START_X \<equiv> 110"
abbreviation (input) TASKBAR_BTN_W :: int where "TASKBAR_BTN_W \<equiv> 64"
abbreviation (input) TASKBAR_BTN_GAP :: int where "TASKBAR_BTN_GAP \<equiv> 4"
abbreviation (input) KIND_DEMO3D :: int where "KIND_DEMO3D \<equiv> 2"
abbreviation (input) KIND_FPS_GAME :: int where "KIND_FPS_GAME \<equiv> 3"
abbreviation (input) KIND_NETSURF :: int where "KIND_NETSURF \<equiv> 5"
abbreviation (input) KIND_GBEMU :: int where "KIND_GBEMU \<equiv> 6"
abbreviation (input) KIND_JIT_DEBUGGER :: int where "KIND_JIT_DEBUGGER \<equiv> 7"

record box =
  bx :: int
  by' :: int
  bw :: int
  bh :: int

record demo_state =
  demo_dragging :: bool
  demo_auto_spin :: bool
  demo_drag_last_mx :: int
  demo_drag_last_my :: int
  demo_angle :: int
  demo_pitch :: int
  demo_dist :: int

record ns_state =
  ns_h_offset :: int
  ns_input_active :: bool
  ns_resize_pending :: bool
  ns_resize_last_ms :: u32

text \<open>\<open>tw\<close> has the kind, the flags active and maximized, and the position and size.\<close>

record dwin =
  tw :: twin
  d_id :: int
  d_title :: string
  minimized :: bool
  prev_box :: box
  dragging :: bool
  scroll_dragging :: bool
  drag_off_x :: int
  drag_off_y :: int
  resizing :: bool
  resize_dir :: nat
  resize_start_mx :: int
  resize_start_my :: int
  resize_start :: box
  taskbar_anim :: nat
  debug_drag_split :: bool
  image_w :: int
  image_h :: int
  image_scale :: int
  demo :: demo_state
  ns :: ns_state

record desk =
  dwins :: "dwin list"
  z_order :: "int list"
  active_win_idx :: int
  gui_redraw_needed :: bool
  terminal_clipboard :: string
  gui_cursor_mode :: nat
  last_click_ms :: u32
  last_click_idx :: int

record gext =
  shell :: ext
  start_shell :: "twin \<Rightarrow> twin"
  ns_input :: "dwin \<Rightarrow> int \<Rightarrow> int \<Rightarrow> bool \<Rightarrow> dwin"
  jit_mouse_down :: "dwin \<Rightarrow> int \<Rightarrow> int \<Rightarrow> dwin"
  jit_mouse_drag :: "dwin \<Rightarrow> int \<Rightarrow> int \<Rightarrow> dwin"
  jit_wheel :: "dwin \<Rightarrow> int \<Rightarrow> int \<Rightarrow> int \<Rightarrow> bool \<Rightarrow> dwin"
  jit_key :: "dwin \<Rightarrow> char \<Rightarrow> dwin"
  editor_key :: "dwin \<Rightarrow> char \<Rightarrow> dwin"
  game_key :: "dwin \<Rightarrow> char \<Rightarrow> dwin \<times> char"

definition kind :: "dwin \<Rightarrow> int" where "kind w = t_kind (tw w)"
definition active :: "dwin \<Rightarrow> bool" where "active w = t_active (tw w)"
definition maximized :: "dwin \<Rightarrow> bool" where "maximized w = t_maximized (tw w)"

definition win_box :: "dwin \<Rightarrow> box" where
  "win_box w = \<lparr>bx = t_x (tw w), by' = t_y (tw w), bw = t_w (tw w), bh = t_h (tw w)\<rparr>"

definition set_tw :: "(twin \<Rightarrow> twin) \<Rightarrow> dwin \<Rightarrow> dwin" where
  "set_tw f w = w\<lparr>tw := f (tw w)\<rparr>"

definition set_box :: "box \<Rightarrow> dwin \<Rightarrow> dwin" where
  "set_box b = set_tw (\<lambda>t. t\<lparr>t_x := bx b, t_y := by' b, t_w := bw b, t_h := bh b\<rparr>)"

definition set_maximized :: "bool \<Rightarrow> dwin \<Rightarrow> dwin" where
  "set_maximized m = set_tw (\<lambda>t. t\<lparr>t_maximized := m\<rparr>)"

definition win :: "desk \<Rightarrow> int \<Rightarrow> dwin" where
  "win d i = dwins d ! nat i"

definition upd :: "desk \<Rightarrow> int \<Rightarrow> (dwin \<Rightarrow> dwin) \<Rightarrow> desk" where
  "upd d i f = d\<lparr>dwins := (dwins d)[nat i := f (win d i)]\<rparr>"

definition valid_idx :: "int \<Rightarrow> bool" where
  "valid_idx i \<longleftrightarrow> 0 \<le> i \<and> i < int MAX_WINDOWS"

section \<open>Small functions\<close>

definition clamp_int :: "int \<Rightarrow> int \<Rightarrow> int \<Rightarrow> int" where
  "clamp_int v lo hi = (if v < lo then lo else if v > hi then hi else v)"

definition taskbar_button_x :: "nat \<Rightarrow> int" where
  "taskbar_button_x i = TASKBAR_START_X + int i * (TASKBAR_BTN_W + TASKBAR_BTN_GAP)"

definition cursor_mode_for_resize_dir :: "nat \<Rightarrow> nat" where
  "cursor_mode_for_resize_dir dir =
     (if dir AND RESIZE_LEFT \<noteq> 0 \<and> dir AND RESIZE_TOP \<noteq> 0 then 4
      else if dir AND RESIZE_RIGHT \<noteq> 0 \<and> dir AND RESIZE_BOTTOM \<noteq> 0 then 4
      else if dir AND RESIZE_RIGHT \<noteq> 0 \<and> dir AND RESIZE_TOP \<noteq> 0 then 3
      else if dir AND RESIZE_LEFT \<noteq> 0 \<and> dir AND RESIZE_BOTTOM \<noteq> 0 then 3
      else if dir AND (RESIZE_LEFT OR RESIZE_RIGHT) \<noteq> 0 then 1
      else if dir AND (RESIZE_TOP OR RESIZE_BOTTOM) \<noteq> 0 then 2
      else 0)"

definition active_window_valid :: "desk \<Rightarrow> bool" where
  "active_window_valid d \<longleftrightarrow> valid_idx (active_win_idx d) \<and> active (win d (active_win_idx d)) \<and>
     \<not> minimized (win d (active_win_idx d))"

definition any_window_active :: "desk \<Rightarrow> bool" where
  "any_window_active d \<longleftrightarrow> (\<exists>w \<in> set (dwins d). active w \<and> \<not> minimized w)"

section \<open>Geometry\<close>

definition resize_image_window :: "dwin \<Rightarrow> int \<Rightarrow> dwin" where
  "resize_image_window w new_scale =
     (let s = (if new_scale < 1 then 1 else new_scale); s = (if s > 12 then 12 else s) in
      if kind w \<noteq> KIND_IMAGE then w
      else if s = image_scale w then w
      else
        let b = win_box w; center_x = bx b + bw b sdiv 2; center_y = by' b + bh b sdiv 2;
            nw = image_w w * s + 20; nw = (if nw < 220 then 220 else nw); nw = (if nw > WIDTH then WIDTH else nw);
            nh = image_h w * s + 46; nh = (if nh < 140 then 140 else nh); nh = (if nh > DESKTOP_H then DESKTOP_H else nh)
        in set_box \<lparr>bx = clamp_int (center_x - nw sdiv 2) 0 (WIDTH - nw), by' = clamp_int (center_y - nh sdiv 2) 0 (DESKTOP_H - nh),
                    bw = nw, bh = nh\<rparr> (w\<lparr>image_scale := s\<rparr>))"

definition hit_resize_zone :: "dwin \<Rightarrow> int \<Rightarrow> int \<Rightarrow> nat" where
  "hit_resize_zone w mx my =
     (let b = win_box w in
      if maximized w \<or> minimized w then RESIZE_NONE
      else if mx < bx b \<or> mx \<ge> bx b + bw b \<or> my < by' b \<or> my \<ge> by' b + bh b then RESIZE_NONE
      else (if mx < bx b + RESIZE_MARGIN then RESIZE_LEFT
            else if mx \<ge> bx b + bw b - RESIZE_MARGIN then RESIZE_RIGHT else RESIZE_NONE) OR
           (if my < by' b + RESIZE_MARGIN then RESIZE_TOP
            else if my \<ge> by' b + bh b - RESIZE_MARGIN then RESIZE_BOTTOM else RESIZE_NONE))"

definition begin_resize :: "dwin \<Rightarrow> nat \<Rightarrow> int \<Rightarrow> int \<Rightarrow> dwin" where
  "begin_resize w dir mx my =
     w\<lparr>resizing := True, resize_dir := dir, resize_start_mx := mx, resize_start_my := my, resize_start := win_box w\<rparr>"

text \<open>The new extent in one direction: the far edge moves, or the near edge, with the far one
  kept while the window has its smallest size.\<close>

definition resize_far :: "bool \<Rightarrow> int \<Rightarrow> int \<Rightarrow> int" where
  "resize_far b ext d = (if b then ext + d else ext)"

definition resize_near :: "bool \<Rightarrow> int \<Rightarrow> int \<Rightarrow> int \<Rightarrow> int \<Rightarrow> int \<Rightarrow> int \<times> int" where
  "resize_near b lo pos ext d e =
     (if b then if ext - d < lo then (pos + d - (lo - (ext - d)), lo) else (pos + d, ext - d) else (pos, e))"

definition resized_box :: "nat \<Rightarrow> box \<Rightarrow> int \<Rightarrow> int \<Rightarrow> box" where
  "resized_box dir s dx dy =
     (let nw = resize_far (dir AND RESIZE_RIGHT \<noteq> 0) (bw s) dx;
          nh = resize_far (dir AND RESIZE_BOTTOM \<noteq> 0) (bh s) dy;
          (nx, nw) = resize_near (dir AND RESIZE_LEFT \<noteq> 0) MIN_WIN_W (bx s) (bw s) dx nw;
          (ny, nh) = resize_near (dir AND RESIZE_TOP \<noteq> 0) MIN_WIN_H (by' s) (bh s) dy nh;
          nw = clamp_int nw MIN_WIN_W WIDTH; nh = clamp_int nh MIN_WIN_H DESKTOP_H
      in \<lparr>bx = clamp_int nx 0 (WIDTH - nw), by' = clamp_int ny 0 (DESKTOP_H - nh), bw = nw, bh = nh\<rparr>)"

definition netsurf_relayout :: "u32 \<Rightarrow> dwin \<Rightarrow> dwin" where
  "netsurf_relayout now w =
     set_tw (\<lambda>t. t\<lparr>v_offset := 0\<rparr>) (w\<lparr>ns := \<lparr>ns_h_offset = 0, ns_input_active = False, ns_resize_pending = True, ns_resize_last_ms = now\<rparr>\<rparr>)"

definition refresh_window_after_geometry_change :: "u32 \<Rightarrow> dwin \<Rightarrow> dwin" where
  "refresh_window_after_geometry_change now w =
     (let w = (if kind w = KIND_TERMINAL then set_tw terminal_clamp_v_offset w else w)
      in if kind w = KIND_NETSURF then netsurf_relayout now w else w)"

definition apply_resize :: "u32 \<Rightarrow> dwin \<Rightarrow> int \<Rightarrow> int \<Rightarrow> dwin" where
  "apply_resize now w mx my =
     refresh_window_after_geometry_change now
       (set_box (resized_box (resize_dir w) (resize_start w) (mx - resize_start_mx w) (my - resize_start_my w)) w)"

definition stop_drags :: "dwin \<Rightarrow> dwin" where
  "stop_drags w = w\<lparr>dragging := False, scroll_dragging := False, resizing := False, resize_dir := RESIZE_NONE\<rparr>"

definition remember_box :: "dwin \<Rightarrow> dwin" where
  "remember_box w = w\<lparr>prev_box := win_box w\<rparr>"

definition maximize_window :: "u32 \<Rightarrow> int \<Rightarrow> desk \<Rightarrow> desk" where
  "maximize_window now i d =
     (if \<not> valid_idx i \<or> \<not> active (win d i) \<or> minimized (win d i) then d
      else upd d i (\<lambda>w. refresh_window_after_geometry_change now
             (stop_drags (if \<not> maximized w then set_maximized True (remember_box w) else w))))"

definition restore_window :: "u32 \<Rightarrow> int \<Rightarrow> desk \<Rightarrow> desk" where
  "restore_window now i d =
     (if \<not> valid_idx i \<or> \<not> active (win d i) then d
      else upd d i (\<lambda>w. let w = w\<lparr>minimized := False\<rparr>;
                            w = (if maximized w then set_maximized False (set_box (prev_box w) w) else w)
                        in refresh_window_after_geometry_change now (stop_drags w)))"

definition minimize_window :: "int \<Rightarrow> desk \<Rightarrow> desk" where
  "minimize_window i d =
     (if \<not> valid_idx i \<or> \<not> active (win d i) then d
      else let d = upd d i (\<lambda>w. stop_drags (w\<lparr>minimized := True\<rparr>))
           in if active_win_idx d = i then d\<lparr>active_win_idx := -1\<rparr> else d)"

definition snap_box :: "char \<Rightarrow> box option" where
  "snap_box key =
     (let half_w = WIDTH sdiv 2; half_h = DESKTOP_H sdiv 2 in
      if key = CHR 0x12 then Some \<lparr>bx = 0, by' = 0, bw = half_w, bh = DESKTOP_H\<rparr>
      else if key = CHR 0x13 then Some \<lparr>bx = half_w, by' = 0, bw = WIDTH - half_w, bh = DESKTOP_H\<rparr>
      else if key = CHR 0x10 then Some \<lparr>bx = 0, by' = 0, bw = WIDTH, bh = half_h\<rparr>
      else if key = CHR 0x11 then Some \<lparr>bx = 0, by' = half_h, bw = WIDTH, bh = DESKTOP_H - half_h\<rparr>
      else None)"

definition snap_window_by_key :: "u32 \<Rightarrow> int \<Rightarrow> char \<Rightarrow> desk \<Rightarrow> desk" where
  "snap_window_by_key now i key d =
     (if \<not> valid_idx i \<or> \<not> active (win d i) \<or> minimized (win d i) then d
      else
        let d = upd d i (\<lambda>w. if \<not> maximized w then remember_box w else w)
        in case snap_box key of
             None \<Rightarrow> d
           | Some b \<Rightarrow> upd d i (\<lambda>w. refresh_window_after_geometry_change now (stop_drags (set_maximized False
               (set_box (b\<lparr>bw := clamp_int (bw b) MIN_WIN_W WIDTH, bh := clamp_int (bh b) MIN_WIN_H DESKTOP_H\<rparr>) w)))))"

section \<open>Order\<close>

text \<open>The position of a window in the order, and the loops that close the gap it leaves.\<close>

definition z_pos :: "int list \<Rightarrow> int \<Rightarrow> nat option" where
  "z_pos z i = find (\<lambda>p. z ! p = i) [0 ..< MAX_WINDOWS]"

definition raise_at :: "int list \<Rightarrow> nat \<Rightarrow> int \<Rightarrow> int list" where
  "raise_at z p i = (foldl (\<lambda>z k. z[k := z ! (k + 1)]) z [p ..< MAX_WINDOWS - 1])[MAX_WINDOWS - 1 := i]"

definition sink_at :: "int list \<Rightarrow> nat \<Rightarrow> int \<Rightarrow> int list" where
  "sink_at z p i = (foldl (\<lambda>z k. z[k := z ! (k - 1)]) z (rev [1 ..< p + 1]))[0 := i]"

definition bring_to_front :: "int \<Rightarrow> desk \<Rightarrow> desk" where
  "bring_to_front i d =
     (if \<not> valid_idx i then d
      else case z_pos (z_order d) i of
             None \<Rightarrow> d
           | Some p \<Rightarrow> (upd d i (\<lambda>w. w\<lparr>minimized := False, taskbar_anim := 8\<rparr>))\<lparr>
               z_order := raise_at (z_order d) p i, active_win_idx := i, gui_redraw_needed := True\<rparr>)"

text \<open>The topmost window that is shown.\<close>

definition shown :: "desk \<Rightarrow> int \<Rightarrow> bool" where
  "shown d i \<longleftrightarrow> valid_idx i \<and> active (win d i) \<and> \<not> minimized (win d i)"

definition activate_top :: "desk \<Rightarrow> desk" where
  "activate_top d =
     d\<lparr>active_win_idx := (case find (shown d) (rev (z_order d)) of None \<Rightarrow> -1 | Some i \<Rightarrow> i)\<rparr>"

definition cycle_active_window :: "desk \<Rightarrow> desk" where
  "cycle_active_window d =
     (case z_pos (z_order d) (active_win_idx d) of
        None \<Rightarrow> activate_top d
      | Some p \<Rightarrow>
        let current = z_order d ! p in
        if \<not> valid_idx current then d\<lparr>active_win_idx := -1\<rparr>
        else activate_top (d\<lparr>z_order := sink_at (z_order d) p current\<rparr>))"

definition zero_box :: box where "zero_box = \<lparr>bx = 0, by' = 0, bw = 0, bh = 0\<rparr>"

text \<open>\<open>reset_window\<close>: everything is zero but the number, the font scale and the directory.\<close>

definition zero_twin :: twin where
  "zero_twin = fresh_terminal\<lparr>t_active := False, t_x := 0, t_y := 0, t_w := 0, t_h := 0, tlines := (\<lambda>_. []), total_rows := 0,
     cur_col := 0, hist_idx := 0\<rparr>"

definition reset_window :: "int \<Rightarrow> dwin" where
  "reset_window i = \<lparr>tw = zero_twin, d_id = i, d_title = [], minimized = False, prev_box = zero_box, dragging = False,
     scroll_dragging = False, drag_off_x = 0, drag_off_y = 0, resizing = False, resize_dir = RESIZE_NONE, resize_start_mx = 0,
     resize_start_my = 0, resize_start = zero_box, taskbar_anim = 0, debug_drag_split = False, image_w = 0, image_h = 0,
     image_scale = 0,
     demo = \<lparr>demo_dragging = False, demo_auto_spin = False, demo_drag_last_mx = 0, demo_drag_last_my = 0, demo_angle = 0,
       demo_pitch = 0, demo_dist = 0\<rparr>,
     ns = \<lparr>ns_h_offset = 0, ns_input_active = False, ns_resize_pending = False, ns_resize_last_ms = 0\<rparr>\<rparr>"

definition close_window :: "int \<Rightarrow> desk \<Rightarrow> desk" where
  "close_window i d =
     (if \<not> valid_idx i then d
      else
        let d = (if active_win_idx d = i then d\<lparr>active_win_idx := -1\<rparr> else d);
            d = (case z_pos (z_order d) i of None \<Rightarrow> d | Some p \<Rightarrow> d\<lparr>z_order := raise_at (z_order d) p i\<rparr>);
            d = upd d i (\<lambda>_. reset_window i);
            d = (if active_win_idx d = -1 then cycle_active_window d else d)
        in d\<lparr>gui_redraw_needed := True\<rparr>)"

section \<open>A new terminal\<close>

definition default_size :: "int \<times> int" where
  "default_size =
     (let margin = WIDTH sdiv 16; title_y = HEIGHT sdiv 10;
          dw = WIDTH - margin * 2; dh = DESKTOP_H - title_y - margin;
          dw = (if dw > 520 then 520 else dw); dh = (if dh > 320 then 320 else dh);
          dw = (if dw < MIN_WIN_W then WIDTH else dw); dh = (if dh < MIN_WIN_H then DESKTOP_H else dh)
      in (dw, dh))"

definition default_box :: "int \<Rightarrow> box" where
  "default_box i =
     (let margin = WIDTH sdiv 16; title_y = HEIGHT sdiv 10; (dw, dh) = default_size in
      \<lparr>bx = clamp_int (margin + i * (margin sdiv 2)) 0 (WIDTH - dw),
       by' = clamp_int (title_y + i * (margin sdiv 2)) 0 (DESKTOP_H - dh), bw = dw, bh = dh\<rparr>)"

definition new_terminal :: "gext \<Rightarrow> int \<Rightarrow> dwin" where
  "new_terminal x i =
     (let w = set_box (default_box i) (set_tw (\<lambda>t. t\<lparr>t_active := True, total_rows := 1, cur_col := 12,
                 tlines := (tlines t)(0 := PROMPT)\<rparr>) (reset_window i));
          w = set_tw (start_shell x) w;
          w = set_tw (\<lambda>t. t\<lparr>edit_len := 0, cursor_pos := 0, cmd_buf := (cmd_buf t)(0 := NUL)\<rparr>) w;
          w = w\<lparr>d_title := ''Term #'' @ lib_itoa (of_int i)\<rparr>
      in set_tw seed_terminal_history w)"

definition create_new_task :: "gext \<Rightarrow> desk \<Rightarrow> desk" where
  "create_new_task x d =
     (case find (\<lambda>i. \<not> active (dwins d ! i)) [0 ..< MAX_WINDOWS] of
        None \<Rightarrow> d
      | Some i \<Rightarrow> (bring_to_front (int i) (upd d (int i) (\<lambda>_. new_terminal x (int i))))\<lparr>active_win_idx := int i\<rparr>)"

definition start_desktop :: "gext \<Rightarrow> desk \<Rightarrow> desk" where
  "start_desktop x d =
     (create_new_task x (d\<lparr>dwins := map (\<lambda>i. reset_window (int i)) [0 ..< MAX_WINDOWS],
        z_order := map int [0 ..< MAX_WINDOWS]\<rparr>))\<lparr>gui_redraw_needed := True\<rparr>"


section \<open>The mouse\<close>

text \<open>The state of the mouse and the clock in one frame; \<open>sheet\<close> is the map from a pixel to the
  window that was painted there (1 to 4), the task bar (255) or the background (0).\<close>

record mouse =
  gui_mx :: int
  gui_my :: int
  gui_clicked :: bool
  gui_wheel :: int
  gui_ctrl_pressed :: bool
  ms_now :: u32
  sheet :: "int \<Rightarrow> int \<Rightarrow> nat"

text \<open>The button that maximizes, and a double click: they do not clamp the scroll offset.\<close>

definition toggle_maximized :: "u32 \<Rightarrow> dwin \<Rightarrow> dwin" where
  "toggle_maximized now w =
     (let w = (if \<not> maximized w then set_maximized True (remember_box w) else set_maximized False (set_box (prev_box w) w));
          w = stop_drags w
      in if kind w = KIND_NETSURF then netsurf_relayout now w else w)"

definition click_taskbar :: "gext \<Rightarrow> int \<Rightarrow> desk \<Rightarrow> desk" where
  "click_taskbar x mx d =
     (if mx < 100 then create_new_task x d
      else case find (\<lambda>i. active (dwins d ! i) \<and> mx \<ge> taskbar_button_x i \<and> mx < taskbar_button_x i + TASKBAR_BTN_W)
                  [0 ..< MAX_WINDOWS] of
             None \<Rightarrow> d
           | Some i \<Rightarrow> upd (bring_to_front (int i) d) (int i) (\<lambda>w. w\<lparr>minimized := False\<rparr>))"

text \<open>A click on the title of window \<open>i\<close> that spans \<open>ww\<close> pixels from \<open>wx\<close> on: close,
  maximize, minimize, double click, start of a drag.\<close>

definition click_title :: "u32 \<Rightarrow> int \<Rightarrow> int \<Rightarrow> int \<Rightarrow> int \<Rightarrow> int \<Rightarrow> desk \<Rightarrow> desk" where
  "click_title now i wx ww mx my d =
     (if mx > wx + ww - 40 then close_window i d
      else if mx > wx + ww - 75 then upd d i (toggle_maximized now)
      else if mx > wx + ww - 110 then (upd d i (\<lambda>w. w\<lparr>minimized := True\<rparr>))\<lparr>active_win_idx := -1\<rparr>
      else if last_click_idx d = i \<and> now - last_click_ms d < 400
           then (upd d i (\<lambda>w. (toggle_maximized now w)\<lparr>dragging := False\<rparr>))\<lparr>last_click_ms := 0\<rparr>
           else (upd d i (\<lambda>w. if \<not> maximized w
                     then w\<lparr>dragging := True, drag_off_x := mx - t_x (tw w), drag_off_y := my - t_y (tw w)\<rparr> else w))
                  \<lparr>last_click_ms := now, last_click_idx := i\<rparr>)"

definition start_selection :: "int \<Rightarrow> int \<Rightarrow> dwin \<Rightarrow> dwin" where
  "start_selection mx my =
     set_tw (\<lambda>t. case terminal_mouse_to_cell t mx my of
         None \<Rightarrow> terminal_clear_selection t
       | Some (r, c) \<Rightarrow> t\<lparr>selecting := True, has_selection := True, sel_start := \<lparr>sel_row = r, sel_col = c\<rparr>,
                            sel_end := \<lparr>sel_row = r, sel_col = c\<rparr>\<rparr>)"

definition click_body :: "gext \<Rightarrow> int \<Rightarrow> int \<Rightarrow> int \<Rightarrow> dwin \<Rightarrow> dwin" where
  "click_body x right mx my w =
     (if mx > right - 15 then w\<lparr>scroll_dragging := True\<rparr>
      else if kind w = KIND_DEMO3D
      then w\<lparr>demo := (demo w)\<lparr>demo_dragging := True, demo_drag_last_mx := mx, demo_drag_last_my := my, demo_auto_spin := False\<rparr>\<rparr>
      else if kind w = KIND_JIT_DEBUGGER then jit_mouse_down x w mx my
      else if kind w = KIND_TERMINAL then start_selection mx my w
      else w)"

definition click_window :: "gext \<Rightarrow> u32 \<Rightarrow> int \<Rightarrow> int \<Rightarrow> int \<Rightarrow> desk \<Rightarrow> desk" where
  "click_window x now i mx my d =
     (let d = bring_to_front i d; w = win d i; m = maximized w;
          ww = (if m then WIDTH else t_w (tw w)); wx = (if m then 0 else t_x (tw w)); wy = (if m then 0 else t_y (tw w));
          dir = hit_resize_zone w mx my
      in if dir \<noteq> RESIZE_NONE
         then (upd d i (\<lambda>w. begin_resize w dir mx my))\<lparr>gui_cursor_mode := cursor_mode_for_resize_dir dir\<rparr>
         else if my < wy + 30 then click_title now i wx ww mx my d
         else upd d i (click_body x (wx + ww) mx my))"

definition click :: "gext \<Rightarrow> mouse \<Rightarrow> desk \<Rightarrow> desk" where
  "click x m d =
     (let mx = gui_mx m; my = gui_my m in
      if mx \<ge> 0 \<and> mx < WIDTH \<and> my \<ge> 0 \<and> my < GUI_VISIBLE_H
      then let tid = sheet m mx my in
        if tid = TASKBAR_ID then click_taskbar x mx d
        else if tid > 0 \<and> tid \<le> MAX_WINDOWS then click_window x (ms_now m) (int tid - 1) mx my d
        else d\<lparr>active_win_idx := -1\<rparr>
      else d)"

definition right_click :: "desk \<Rightarrow> desk" where
  "right_click d =
     (if active_window_valid d
      then upd d (active_win_idx d) (\<lambda>w. if kind w = KIND_TERMINAL \<or> kind w = KIND_EDITOR
             then set_tw (\<lambda>t. terminal_paste_clipboard t (terminal_clipboard d)) w else w)
      else d)"

text \<open>The button is up: what was dragged is dropped, what was selected is copied.\<close>

definition release_win :: "u32 \<Rightarrow> dwin \<Rightarrow> dwin" where
  "release_win now w =
     (let w = (if kind w = KIND_NETSURF \<and> ns_resize_pending (ns w) \<and> now - ns_resize_last_ms (ns w) \<ge> 120
               then w\<lparr>ns := (ns w)\<lparr>ns_resize_pending := False\<rparr>\<rparr> else w)
      in set_tw (\<lambda>t. t\<lparr>selecting := False\<rparr>)
           (w\<lparr>dragging := False, scroll_dragging := False, demo := (demo w)\<lparr>demo_dragging := False\<rparr>, debug_drag_split := False,
              resizing := False, resize_dir := RESIZE_NONE\<rparr>))"

definition released_clipboard :: "dwin \<Rightarrow> string \<Rightarrow> string" where
  "released_clipboard w c =
     (if kind w = KIND_TERMINAL \<and> selecting (tw w) \<and> has_selection (tw w) then terminal_copy_selection (tw w) c else c)"

definition button_up :: "u32 \<Rightarrow> desk \<Rightarrow> desk" where
  "button_up now d = d\<lparr>dwins := map (release_win now) (dwins d), terminal_clipboard := fold released_clipboard (dwins d) (terminal_clipboard d)\<rparr>"

definition scroll_drag :: "int \<Rightarrow> dwin \<Rightarrow> dwin" where
  "scroll_drag my =
     set_tw (\<lambda>t. let wy = (if t_maximized t then 0 else t_y t); wh = (if t_maximized t then DESKTOP_H else t_h t);
                     sy = wy + 28; sh = wh - 30; ms = terminal_scroll_max t
                 in if ms > 0 \<and> sh > 0
                    then terminal_clamp_v_offset (t\<lparr>v_offset := nat (((my - sy) * int ms) sdiv sh)\<rparr>) else t)"

definition turn :: "int \<Rightarrow> int" where
  "turn a = (let a = a smod 360 in if a < 0 then a + 360 else a)"

definition demo_drag :: "int \<Rightarrow> int \<Rightarrow> dwin \<Rightarrow> dwin" where
  "demo_drag mx my w =
     (let q = demo w; dx = mx - demo_drag_last_mx q; dy = my - demo_drag_last_my q in
      if dx \<noteq> 0 \<or> dy \<noteq> 0
      then w\<lparr>demo := q\<lparr>demo_angle := turn (demo_angle q - dx), demo_pitch := turn (demo_pitch q + dy),
                         demo_drag_last_mx := mx, demo_drag_last_my := my\<rparr>\<rparr>
      else w)"

definition drag_window :: "int \<Rightarrow> int \<Rightarrow> dwin \<Rightarrow> dwin" where
  "drag_window mx my w =
     (let b = win_box w in
      set_box (b\<lparr>bx := clamp_int (mx - drag_off_x w) 0 (WIDTH - bw b), by' := clamp_int (my - drag_off_y w) 0 (DESKTOP_H - bh b)\<rparr>) w)"

definition drag_active :: "gext \<Rightarrow> mouse \<Rightarrow> dwin \<Rightarrow> dwin" where
  "drag_active x m w =
     (let mx = gui_mx m; my = gui_my m in
      if resizing w then apply_resize (ms_now m) w mx my
      else if dragging w then drag_window mx my w
      else if scroll_dragging w then scroll_drag my w
      else if kind w = KIND_DEMO3D \<and> demo_dragging (demo w) then demo_drag mx my w
      else if kind w = KIND_JIT_DEBUGGER \<and> debug_drag_split w then jit_mouse_drag x w mx my
      else if kind w = KIND_TERMINAL \<and> selecting (tw w)
      then set_tw (\<lambda>t. case terminal_mouse_to_cell t mx my of
                         None \<Rightarrow> t | Some (r, c) \<Rightarrow> t\<lparr>sel_end := \<lparr>sel_row = r, sel_col = c\<rparr>\<rparr>) w
      else w)"

definition button_state :: "gext \<Rightarrow> mouse \<Rightarrow> desk \<Rightarrow> desk" where
  "button_state x m d =
     (if \<not> gui_clicked m then button_up (ms_now m) d
      else if active_window_valid d
      then let w = win d (active_win_idx d);
               d = (if resizing w then d\<lparr>gui_cursor_mode := cursor_mode_for_resize_dir (resize_dir w)\<rparr> else d)
           in upd d (active_win_idx d) (drag_active x m)
      else d)"

definition hover_cursor :: "mouse \<Rightarrow> desk \<Rightarrow> desk" where
  "hover_cursor m d =
     (if gui_cursor_mode d = 0 \<and> \<not> gui_clicked m
      then case find (\<lambda>i. shown d i \<and> hit_resize_zone (win d i) (gui_mx m) (gui_my m) \<noteq> RESIZE_NONE) (rev (z_order d)) of
             None \<Rightarrow> d
           | Some i \<Rightarrow> d\<lparr>gui_cursor_mode := cursor_mode_for_resize_dir (hit_resize_zone (win d i) (gui_mx m) (gui_my m))\<rparr>
      else d)"

definition wheel_win :: "gext \<Rightarrow> mouse \<Rightarrow> dwin \<Rightarrow> dwin" where
  "wheel_win x m w =
     (let v = gui_wheel m in
      if kind w = KIND_IMAGE then resize_image_window w (image_scale w + v)
      else if kind w = KIND_DEMO3D \<and> \<not> gui_ctrl_pressed m
      then let dist = (if v > 0 then demo_dist (demo w) - 20 else demo_dist (demo w) + 20)
           in w\<lparr>demo := (demo w)\<lparr>demo_dist := clamp_int dist 120 2000\<rparr>\<rparr>
      else if kind w = KIND_TERMINAL \<and> gui_ctrl_pressed m
      then set_tw (\<lambda>t. resize_terminal_font t (term_font_scale t + (if v > 0 then 1 else -1))) w
      else if kind w = KIND_JIT_DEBUGGER then jit_wheel x w (gui_mx m) (gui_my m) v (gui_ctrl_pressed m)
      else set_tw (\<lambda>t. terminal_clamp_v_offset (t\<lparr>v_offset := nat (int (v_offset t) - v)\<rparr>)) w)"

definition wheel :: "gext \<Rightarrow> mouse \<Rightarrow> desk \<Rightarrow> desk" where
  "wheel x m d =
     (if gui_wheel m \<noteq> 0 \<and> active_window_valid d then upd d (active_win_idx d) (wheel_win x m) else d)"


section \<open>Keys\<close>

definition KEY_CTRL_C :: char where "KEY_CTRL_C = CHR 0x03"

text \<open>The keys that the desktop itself uses.\<close>

definition window_key :: "u32 \<Rightarrow> char \<Rightarrow> (int \<Rightarrow> desk \<Rightarrow> desk) option" where
  "window_key now c =
     (if c \<in> {CHR 0x10, CHR 0x11, CHR 0x12, CHR 0x13} then Some (\<lambda>i. snap_window_by_key now i c)
      else if c \<in> {CHR ''m'', CHR ''M''} then Some (maximize_window now)
      else if c \<in> {CHR ''n'', CHR ''N''} then Some (restore_window now)
      else if c \<in> {CHR ''b'', CHR ''B''} then Some minimize_window
      else None)"

text \<open>Control-C cancels, copies or clears in a terminal. The result is the key that stays in
  \<open>gui_key\<close>: NUL if it was consumed. Windows of other kinds do not consume it.\<close>

definition gui_ctrl_c :: "gext \<Rightarrow> int \<Rightarrow> desk \<Rightarrow> char \<times> desk" where
  "gui_ctrl_c x i d =
     (let t = tw (win d i) in
      if t_kind t = KIND_TERMINAL \<and> (submit_locked t \<or> executing_cmd t \<or> waiting_wget t \<or> jit_owner_active (shell x) t)
      then (NUL, d\<lparr>dwins := map2 (\<lambda>w t. w\<lparr>tw := t\<rparr>) (dwins d) (broadcast_ctrl_c (shell x) (active_win_idx d) (map tw (dwins d)))\<rparr>)
      else if t_kind t = KIND_TERMINAL \<and> has_selection t \<and> edit_len t = 0
      then (NUL, d\<lparr>terminal_clipboard := terminal_copy_selection t (terminal_clipboard d)\<rparr>)
      else if t_kind t = KIND_TERMINAL
      then (NUL, upd d i (set_tw (\<lambda>t. let t = clear_prompt_input (clear_window_input_queue (t\<lparr>submit_locked := False, cancel_requested := False\<rparr>))
                                in if total_rows t > 0 then redraw_prompt_line t (total_rows t - 1) else t)))
      else (KEY_CTRL_C, d))"

definition gui_terminal_fast_edit_key :: "twin \<Rightarrow> char \<Rightarrow> bool" where
  "gui_terminal_fast_edit_key t key \<longleftrightarrow>
     (let k = (of_char key :: nat) in
      if t_kind t \<noteq> KIND_TERMINAL then False
      else if executing_cmd t \<or> waiting_wget t \<or> submit_locked t then False
      else if ssh_auth_mode t \<noteq> 0 then k = 8 \<or> (32 \<le> k \<and> k < 127)
      else k = 8 \<or> (32 \<le> k \<and> k < 127) \<or> (0x10 \<le> k \<and> k \<le> 0x16))"

definition type_key :: "gext \<Rightarrow> char \<Rightarrow> twin \<Rightarrow> twin" where
  "type_key x c t =
     (let t = window_input_push t c
      in if gui_terminal_fast_edit_key t c then handle_window_mailbox (shell x) t else t\<lparr>mailbox := True\<rparr>)"

text \<open>The keys that reach the window: control-C, paste, the font size, and typing.\<close>

definition plain_key :: "gext \<Rightarrow> bool \<Rightarrow> int \<Rightarrow> char \<Rightarrow> desk \<Rightarrow> char \<times> desk" where
  "plain_key x ctrl i c d =
     (if c = KEY_CTRL_C then gui_ctrl_c x i d
      else if (ctrl \<and> (c = CHR ''v'' \<or> c = CHR ''V'')) \<or> c = CHR 0x16
      then (NUL, upd d i (set_tw (\<lambda>t. terminal_paste_clipboard t (terminal_clipboard d))))
      else if kind (win d i) = KIND_TERMINAL \<and> ctrl \<and> (c = CHR ''+'' \<or> c = CHR ''='' \<or> c = CHR ''-'' \<or> c = CHR ''0'')
      then (NUL, upd d i (set_tw (\<lambda>t. resize_terminal_font t
             (if c = CHR ''+'' \<or> c = CHR ''='' then term_font_scale t + 1 else if c = CHR ''-'' then term_font_scale t - 1 else 1))))
      else if kind (win d i) = KIND_TERMINAL then (NUL, upd d i (set_tw (type_key x c)))
      else (NUL, d))"

definition handle_key :: "gext \<Rightarrow> mouse \<Rightarrow> char \<Rightarrow> desk \<Rightarrow> char \<times> desk" where
  "handle_key x m c d =
     (let i = active_win_idx d; w = win d i; ctrl = gui_ctrl_pressed m;
          own = (if ctrl then window_key (ms_now m) c else None)
      in case own of
           Some f \<Rightarrow> (NUL, f i d)
         | None \<Rightarrow>
           if kind w \<in> {KIND_DEMO3D, KIND_FPS_GAME, KIND_GBEMU}
           then plain_key x ctrl i (snd (game_key x w c)) (upd d i (\<lambda>w. fst (game_key x w c)))
           else if kind w = KIND_JIT_DEBUGGER then (NUL, upd d i (\<lambda>w. jit_key x w c))
           else if kind w = KIND_EDITOR \<and> \<not> (ctrl \<and> (c = CHR ''v'' \<or> c = CHR ''V'' \<or> c = CHR 0x16)) \<and> c \<noteq> KEY_CTRL_C
           then (NUL, upd d i (\<lambda>w. editor_key x w c))
           else plain_key x ctrl i c d)"

text \<open>The pending key \<open>gui_key\<close> and the queue behind it. At most 16 keys are handled in a frame.\<close>

definition gui_key_pull_next :: "char \<Rightarrow> char list \<Rightarrow> (char \<times> char list) option" where
  "gui_key_pull_next key ks =
     (if key \<noteq> NUL then Some (key, ks)
      else case ks of [] \<Rightarrow> None | c # ks \<Rightarrow> if c \<noteq> NUL then Some (c, ks) else None)"

fun gui_keys :: "gext \<Rightarrow> mouse \<Rightarrow> nat \<Rightarrow> char \<Rightarrow> char list \<Rightarrow> desk \<Rightarrow> (char \<times> char list) \<times> desk" where
  "gui_keys x m 0 key ks d = ((key, ks), d)"
| "gui_keys x m (Suc n) key ks d =
     (if active_window_valid d then
        (case gui_key_pull_next key ks of
           None \<Rightarrow> ((key, ks), d)
         | Some (c, ks) \<Rightarrow> (case handle_key x m c d of (key, d) \<Rightarrow> gui_keys x m n key ks d))
      else ((key, ks), d))"

section \<open>A frame\<close>

text \<open>What the task finds at the start of a frame, besides the mouse: characters from the serial
  line, shortcuts, pending clicks, and keys.\<close>

record frame_input =
  f_mouse :: mouse
  f_serial :: string
  f_new :: bool
  f_close :: bool
  f_switch :: bool
  f_click :: bool
  f_right_click :: bool
  f_key :: char
  f_keys :: "char list"

definition inject_serial :: "string \<Rightarrow> desk \<Rightarrow> desk" where
  "inject_serial s d =
     (if active_window_valid d \<and> kind (win d (active_win_idx d)) = KIND_TERMINAL \<and> s \<noteq> []
      then upd d (active_win_idx d) (set_tw (\<lambda>t. (foldl window_input_push t (take 128 s))\<lparr>mailbox := True\<rparr>))
      else d)"

definition shortcuts :: "gext \<Rightarrow> frame_input \<Rightarrow> desk \<Rightarrow> desk" where
  "shortcuts x f d =
     (let d = (if f_new f then create_new_task x d else d);
          d = (if f_close f \<and> active_win_idx d \<noteq> -1 then close_window (active_win_idx d) d else d)
      in if f_switch f then cycle_active_window d else d)"

definition dispatch_netsurf :: "gext \<Rightarrow> mouse \<Rightarrow> desk \<Rightarrow> desk" where
  "dispatch_netsurf x m d =
     (if active_window_valid d \<and> kind (win d (active_win_idx d)) = KIND_NETSURF
      then upd d (active_win_idx d) (\<lambda>w. ns_input x w (gui_mx m) (gui_my m) (gui_clicked m)) else d)"

text \<open>The pending key is lost while the browser edits its address line.\<close>

definition taken_key :: "desk \<Rightarrow> char \<Rightarrow> char" where
  "taken_key d key =
     (if active_window_valid d \<and> kind (win d (active_win_idx d)) = KIND_NETSURF \<and> ns_input_active (ns (win d (active_win_idx d)))
      then NUL else key)"

definition mouse_frame :: "gext \<Rightarrow> frame_input \<Rightarrow> desk \<Rightarrow> desk" where
  "mouse_frame x f d =
     (let m = f_mouse f;
          d = (if f_click f then click x m d else d);
          d = (if f_right_click f then right_click d else d);
          d = button_state x m d;
          d = (if \<not> active_window_valid d then d\<lparr>active_win_idx := -1\<rparr> else d)
      in wheel x m (hover_cursor m d))"

text \<open>The result is the pending key, the rest of the queue, and the desktop.\<close>

definition gui_frame :: "gext \<Rightarrow> frame_input \<Rightarrow> desk \<Rightarrow> (char \<times> char list) \<times> desk" where
  "gui_frame x f d =
     (let m = f_mouse f;
          d = dispatch_netsurf x m (shortcuts x f (inject_serial (f_serial f) (d\<lparr>gui_cursor_mode := 0\<rparr>)));
          key = taken_key d (f_key f);
          ((key, ks), d) = gui_keys x m 16 key (f_keys f) (mouse_frame x f d)
      in ((if key \<noteq> NUL \<and> \<not> active_window_valid d then NUL else key, ks), d))"

end
