(* ===== verification/DesktopSafe.thy ===== *)
theory DesktopSafe
  imports Desktop
begin

text \<open>
  What holds of the desktop: windows stay on the screen and in order whatever the user does,
  cycling reaches every window, and maximizing can be undone.
\<close>

section \<open>The invariant\<close>

text \<open>A position on the screen. The height is exceeded by 5 pixels only by a window that was
  snapped to the lower half (\<open>snap_lower\<close> below).\<close>

definition box_ok :: "box \<Rightarrow> bool" where
  "box_ok b \<longleftrightarrow> 0 \<le> bx b \<and> 220 \<le> bw b \<and> bx b + bw b \<le> 512 \<and> 0 \<le> by' b \<and> 140 \<le> bh b \<and> bh b \<le> 270 \<and> by' b + bh b \<le> 275"

definition win_ok :: "dwin \<Rightarrow> bool" where
  "win_ok w \<longleftrightarrow> window_ok (tw w) \<and> (active w \<longrightarrow> box_ok (win_box w) \<and> (maximized w \<longrightarrow> box_ok (prev_box w)))"

definition desk_ok :: "desk \<Rightarrow> bool" where
  "desk_ok d \<longleftrightarrow> length (dwins d) = 4 \<and> length (z_order d) = 4 \<and> set (z_order d) = {0, 1, 2, 3} \<and>
     (active_win_idx d = -1 \<or> valid_idx (active_win_idx d)) \<and> (\<forall>i < 4. win_ok (dwins d ! i))"

text \<open>The place of a terminal, and what the modules that a terminal calls must keep of it.\<close>

definition place :: "twin \<Rightarrow> (int \<times> int) \<times> (int \<times> int) \<times> bool \<times> bool" where
  "place t = ((t_x t, t_y t), (t_w t, t_h t), t_maximized t, t_active t)"

definition ext_stays :: "ext \<Rightarrow> bool" where
  "ext_stays x \<longleftrightarrow> (\<forall>t c r k. place (exec_single_cmd x t c) = place t \<and> place (try_tab_complete x t r) = place t \<and>
     place (other_window_key x t k) = place t \<and> place (submit_ssh_auth x t) = place t \<and>
     place (snd (jit_cancel_by_owner x t)) = place t)"

text \<open>What the other modules must keep.\<close>

definition gext_ok :: "gext \<Rightarrow> bool" where
  "gext_ok x \<longleftrightarrow> ext_ok (shell x) \<and> ext_stays (shell x) \<and>
     (\<forall>t. window_ok t \<longrightarrow> window_ok (start_shell x t)) \<and>
     (\<forall>t. t_x (start_shell x t) = t_x t \<and> t_y (start_shell x t) = t_y t \<and> t_w (start_shell x t) = t_w t \<and>
          t_h (start_shell x t) = t_h t \<and> t_maximized (start_shell x t) = t_maximized t \<and> t_active (start_shell x t) = t_active t) \<and>
     (\<forall>w. win_ok w \<longrightarrow> (\<forall>mx my c v b. win_ok (ns_input x w mx my b) \<and> win_ok (jit_mouse_down x w mx my) \<and>
        win_ok (jit_mouse_drag x w mx my) \<and> win_ok (jit_wheel x w mx my v b) \<and> win_ok (jit_key x w c) \<and>
        win_ok (editor_key x w c) \<and> win_ok (fst (game_key x w c))))"

lemma window_ok_geometry [simp]:
  "window_ok (t\<lparr>t_x := a\<rparr>) = window_ok t" "window_ok (t\<lparr>t_y := a\<rparr>) = window_ok t"
  "window_ok (t\<lparr>t_w := a\<rparr>) = window_ok t" "window_ok (t\<lparr>t_h := a\<rparr>) = window_ok t"
  "window_ok (t\<lparr>t_maximized := b\<rparr>) = window_ok t" "window_ok (t\<lparr>t_active := b\<rparr>) = window_ok t"
  "window_ok (t\<lparr>v_offset := n\<rparr>) = window_ok t" "window_ok (t\<lparr>selecting := b\<rparr>) = window_ok t"
  "window_ok (t\<lparr>has_selection := b\<rparr>) = window_ok t" "window_ok (t\<lparr>sel_start := s\<rparr>) = window_ok t"
  "window_ok (t\<lparr>sel_end := s\<rparr>) = window_ok t" "window_ok (t\<lparr>mailbox := b\<rparr>) = window_ok t"
  "window_ok (t\<lparr>submit_locked := b\<rparr>) = window_ok t" "window_ok (t\<lparr>cancel_requested := b\<rparr>) = window_ok t"
  "window_ok (t\<lparr>term_font_scale := a\<rparr>) = window_ok t" "window_ok (t\<lparr>cur_col := n\<rparr>) = window_ok t"
  by (simp_all add: window_ok_def edit_ok_def keys_wf_def)

lemma clamp_bounds: "lo \<le> hi \<Longrightarrow> lo \<le> clamp_int v lo hi \<and> clamp_int v lo hi \<le> hi"
  by (simp add: clamp_int_def)

section \<open>One window\<close>

text \<open>Changes of a window that do not touch what the invariant speaks of.\<close>

definition same_place :: "dwin \<Rightarrow> dwin \<Rightarrow> bool" where
  "same_place w v \<longleftrightarrow> win_box v = win_box w \<and> prev_box v = prev_box w \<and> active v = active w \<and> maximized v = maximized w"

lemma same_place_ok: "win_ok w \<Longrightarrow> same_place w v \<Longrightarrow> window_ok (tw v) \<Longrightarrow> win_ok v"
  by (simp add: win_ok_def same_place_def)

lemma win_okD: "win_ok w \<Longrightarrow> window_ok (tw w)"
  by (simp add: win_ok_def)

lemmas place_defs = same_place_def win_box_def active_def maximized_def set_tw_def

text \<open>Changes of the terminal in a window that keep its place.\<close>

definition same_tw :: "twin \<Rightarrow> twin \<Rightarrow> bool" where
  "same_tw t u \<longleftrightarrow> t_x u = t_x t \<and> t_y u = t_y t \<and> t_w u = t_w t \<and> t_h u = t_h t \<and> t_maximized u = t_maximized t \<and> t_active u = t_active t"

lemma set_tw_ok: "win_ok w \<Longrightarrow> same_tw (tw w) (f (tw w)) \<Longrightarrow> window_ok (f (tw w)) \<Longrightarrow> win_ok (set_tw f w)"
  by (rule same_place_ok) (simp_all add: place_defs same_tw_def)

lemma stop_drags_ok: "win_ok w \<Longrightarrow> win_ok (stop_drags w)"
  by (rule same_place_ok) (simp_all add: place_defs stop_drags_def win_ok_def)

lemma clamp_scroll_tw: "same_tw t (terminal_clamp_v_offset t)" "window_ok t \<Longrightarrow> window_ok (terminal_clamp_v_offset t)"
  by (simp_all add: terminal_clamp_v_offset_def same_tw_def)

lemma netsurf_relayout_ok: "win_ok w \<Longrightarrow> win_ok (netsurf_relayout now w)"
  by (rule same_place_ok) (simp_all add: place_defs netsurf_relayout_def win_ok_def)

lemma refresh_ok: "win_ok w \<Longrightarrow> win_ok (refresh_window_after_geometry_change now w)"
  unfolding refresh_window_after_geometry_change_def Let_def
  by (auto intro!: netsurf_relayout_ok set_tw_ok simp: clamp_scroll_tw win_okD)

lemma set_box_ok: "window_ok (tw w) \<Longrightarrow> box_ok b \<Longrightarrow> (active w \<Longrightarrow> maximized w \<Longrightarrow> box_ok (prev_box w)) \<Longrightarrow> win_ok (set_box b w)"
  by (cases b) (simp add: win_ok_def set_box_def place_defs)

lemma unmaximize_ok: "win_ok w \<Longrightarrow> win_ok (set_maximized False w)"
  by (simp add: win_ok_def set_maximized_def place_defs)

lemma maximize_ok: "win_ok w \<Longrightarrow> win_ok (set_maximized True (remember_box w))"
  by (simp add: win_ok_def set_maximized_def remember_box_def place_defs)

lemma restore_ok: "win_ok w \<Longrightarrow> maximized w \<Longrightarrow> win_ok (set_maximized False (set_box (prev_box w) w))"
  by (auto simp: win_ok_def set_maximized_def set_box_def place_defs box_ok_def)

lemma toggle_ok: "win_ok w \<Longrightarrow> win_ok (toggle_maximized now w)"
  by (simp add: toggle_maximized_def Let_def netsurf_relayout_ok stop_drags_ok maximize_ok restore_ok)

lemma resized_box_ok: "box_ok (resized_box dir s dx dy)"
proof -
  obtain nx nw where x: "resize_near (dir AND 1 \<noteq> 0) 220 (bx s) (bw s) dx (resize_far (dir AND 2 \<noteq> 0) (bw s) dx) = (nx, nw)" by fastforce
  obtain ny nh where y: "resize_near (dir AND 4 \<noteq> 0) 140 (by' s) (bh s) dy (resize_far (dir AND 8 \<noteq> 0) (bh s) dy) = (ny, nh)" by fastforce
  show ?thesis
    unfolding resized_box_def Let_def x y prod.case
    using clamp_bounds [of 220 512 nw] clamp_bounds [of 140 270 nh]
      clamp_bounds [of 0 "512 - clamp_int nw 220 512" nx] clamp_bounds [of 0 "270 - clamp_int nh 140 270" ny]
    by (auto simp: box_ok_def)
qed

lemma apply_resize_ok: "win_ok w \<Longrightarrow> win_ok (apply_resize now w mx my)"
  unfolding apply_resize_def by (intro refresh_ok set_box_ok resized_box_ok) (simp_all add: win_ok_def)

lemma image_box_ok:
  "220 \<le> nw \<Longrightarrow> nw \<le> 512 \<Longrightarrow> 140 \<le> nh \<Longrightarrow> nh \<le> 270 \<Longrightarrow>
    box_ok \<lparr>bx = clamp_int a 0 (512 - nw), by' = clamp_int c 0 (270 - nh), bw = nw, bh = nh\<rparr>"
  by (simp add: box_ok_def clamp_int_def)

lemma image_ok: "win_ok w \<Longrightarrow> win_ok (resize_image_window w s)"
proof -
  assume w: "win_ok w"
  have g: "window_ok (tw (w\<lparr>image_scale := n\<rparr>))" "active (w\<lparr>image_scale := n\<rparr>) \<Longrightarrow> maximized (w\<lparr>image_scale := n\<rparr>) \<Longrightarrow> box_ok (prev_box (w\<lparr>image_scale := n\<rparr>))" for n
    using w by (simp_all add: win_ok_def place_defs)
  have sz: "lo \<le> hi \<Longrightarrow> lo \<le> (if (if v < lo then lo else v) > hi then hi else if v < lo then lo else v) \<and>
      (if (if v < lo then lo else v) > hi then hi else if v < lo then lo else v) \<le> hi" for v lo hi :: int by simp
  note x = sz [of 220 512] and y = sz [of 140 270]
  show ?thesis
    unfolding resize_image_window_def Let_def
    by (split if_split, intro conjI impI w, split if_split, intro conjI impI w set_box_ok g image_box_ok) (use x y in simp_all)
qed

lemma drag_window_ok: "win_ok w \<Longrightarrow> active w \<Longrightarrow> win_ok (drag_window mx my w)"
  unfolding drag_window_def Let_def
  by (intro set_box_ok) (use clamp_bounds [of 0 "512 - bw (win_box w)"] clamp_bounds [of 0 "270 - bh (win_box w)"] in
    \<open>auto simp: win_ok_def box_ok_def clamp_int_def\<close>)


section \<open>The order of the windows\<close>

lemma four: "i < (4 :: nat) \<longleftrightarrow> i = 0 \<or> i = 1 \<or> i = 2 \<or> i = 3" by auto

lemma list4: "length xs = 4 \<Longrightarrow> \<exists>a b c e. xs = [a, b, c, e]"
  by (auto simp: numeral_eq_Suc length_Suc_conv)

lemma upt4: "[0 ..< 4] = [0, 1, 2, 3 :: nat]" by (simp add: upt_conv_Cons)

lemma valid_idx_cases: "valid_idx i \<longleftrightarrow> i = 0 \<or> i = 1 \<or> i = 2 \<or> i = 3"
  by (auto simp: valid_idx_def)

text \<open>An order is a list of the four windows.\<close>

definition z_ok :: "int list \<Rightarrow> bool" where
  "z_ok z \<longleftrightarrow> length z = 4 \<and> set z = {0, 1, 2, 3}"

lemma z_ok_distinct: "z_ok z \<Longrightarrow> distinct z"
  unfolding z_ok_def by (intro card_distinct) simp

lemma z_pos_Some: "z_pos z i = Some p \<Longrightarrow> p < 4 \<and> z ! p = i"
  by (auto simp: z_pos_def find_Some_iff upt4 four nth_Cons' split: if_splits)

lemma z_pos_ok: "z_ok z \<Longrightarrow> valid_idx i \<Longrightarrow> \<exists>p. z_pos z i = Some p"
proof -
  assume z: "z_ok z" "valid_idx i"
  then have "i \<in> set z" by (simp add: z_ok_def valid_idx_cases)
  then obtain p where "p < 4" "z ! p = i" using z(1) by (auto simp: in_set_conv_nth z_ok_def)
  then have "z_pos z i \<noteq> None" by (auto simp: z_pos_def find_None_iff)
  then show ?thesis by auto
qed

text \<open>The loops take the window out of its place and put it to the front, or to the back.\<close>

lemma raise_at_eq:
  assumes "length z = 4" "p < 4"
  shows "raise_at z p i = take p z @ drop (p + 1) z @ [i]"
proof -
  obtain a b c e where z: "z = [a, b, c, e]" using list4 [OF assms(1)] by blast
  show ?thesis using assms(2) unfolding z four
    by (auto simp: raise_at_def upt_conv_Cons)
qed

lemma sink_at_eq:
  assumes "length z = 4" "p < 4"
  shows "sink_at z p i = i # take p z @ drop (p + 1) z"
proof -
  obtain a b c e where z: "z = [a, b, c, e]" using list4 [OF assms(1)] by blast
  show ?thesis using assms(2) unfolding z four
    by (auto simp: sink_at_def upt_conv_Cons)
qed

lemma remove_at: "distinct z \<Longrightarrow> p < length z \<Longrightarrow> take p z @ drop (p + 1) z = filter (\<lambda>j. j \<noteq> z ! p) z"
proof -
  assume z: "distinct z" "p < length z"
  have d: "z = take p z @ z ! p # drop (p + 1) z" using id_take_nth_drop [OF z(2)] by simp
  then have "distinct (take p z @ z ! p # drop (p + 1) z)" using z(1) by simp
  then have "z ! p \<notin> set (take p z)" "z ! p \<notin> set (drop (p + 1) z)" by auto
  then have "filter (\<lambda>j. j \<noteq> z ! p) (take p z) = take p z" "filter (\<lambda>j. j \<noteq> z ! p) (drop (p + 1) z) = drop (p + 1) z"
    by (intro filter_True; metis)+
  then have "filter (\<lambda>j. j \<noteq> z ! p) (take p z @ z ! p # drop (p + 1) z) = take p z @ drop (p + 1) z" by simp
  then show ?thesis using d by metis
qed

lemma moved_order:
  assumes "z_ok z" "z_pos z i = Some p"
  shows "raise_at z p i = filter (\<lambda>j. j \<noteq> i) z @ [i]" "sink_at z p i = i # filter (\<lambda>j. j \<noteq> i) z"
    "z_ok (raise_at z p i)" "z_ok (sink_at z p i)"
proof -
  have p: "p < 4" "z ! p = i" using z_pos_Some [OF assms(2)] by simp_all
  have l: "length z = 4" using assms(1) by (simp add: z_ok_def)
  have r: "take p z @ drop (p + 1) z = filter (\<lambda>j. j \<noteq> i) z"
    using remove_at [OF z_ok_distinct [OF assms(1)], of p] p l by simp
  show 1: "raise_at z p i = filter (\<lambda>j. j \<noteq> i) z @ [i]" using raise_at_eq [OF l p(1), of i] r by simp
  show 2: "sink_at z p i = i # filter (\<lambda>j. j \<noteq> i) z" using sink_at_eq [OF l p(1), of i] r by simp
  have "i \<in> set z" using p l nth_mem by metis
  moreover have "length (raise_at z p i) = 4" "length (sink_at z p i) = 4"
    using raise_at_eq [OF l p(1), of i] sink_at_eq [OF l p(1), of i] l p(1) by auto
  ultimately show "z_ok (raise_at z p i)" "z_ok (sink_at z p i)"
    using assms(1) unfolding z_ok_def by (auto simp: 1 2)
qed

section \<open>The desktop\<close>

lemma desk_ok_alt: "desk_ok d \<longleftrightarrow> length (dwins d) = 4 \<and> z_ok (z_order d) \<and>
    (active_win_idx d = -1 \<or> valid_idx (active_win_idx d)) \<and> (\<forall>i. valid_idx i \<longrightarrow> win_ok (win d i))"
proof -
  have "(\<forall>i < 4. win_ok (dwins d ! i)) \<longleftrightarrow> (\<forall>i. valid_idx i \<longrightarrow> win_ok (win d i))"
    by (auto simp: win_def valid_idx_cases four)
  then show ?thesis unfolding desk_ok_def z_ok_def by blast
qed

lemma desk_okD:
  assumes "desk_ok d"
  shows "length (dwins d) = 4" "z_ok (z_order d)" "active_win_idx d = -1 \<or> valid_idx (active_win_idx d)"
    "valid_idx i \<Longrightarrow> win_ok (win d i)"
  using assms by (simp_all add: desk_ok_alt)

lemma upd_fields [simp]:
  "z_order (upd d i f) = z_order d" "active_win_idx (upd d i f) = active_win_idx d"
  "length (dwins (upd d i f)) = length (dwins d)" "terminal_clipboard (upd d i f) = terminal_clipboard d"
  by (simp_all add: upd_def)

lemma win_upd: "length (dwins d) = 4 \<Longrightarrow> valid_idx i \<Longrightarrow> valid_idx j \<Longrightarrow> win (upd d i f) j = (if j = i then f (win d i) else win d j)"
  by (auto simp: win_def upd_def valid_idx_def nth_list_update)

lemma desk_ok_upd: "desk_ok d \<Longrightarrow> valid_idx i \<Longrightarrow> win_ok (f (win d i)) \<Longrightarrow> desk_ok (upd d i f)"
  unfolding desk_ok_alt by (simp add: win_upd)

lemma desk_ok_upd_same: "desk_ok d \<Longrightarrow> valid_idx i \<Longrightarrow> (\<And>w. win_ok w \<Longrightarrow> win_ok (f w)) \<Longrightarrow> desk_ok (upd d i f)"
  by (rule desk_ok_upd) (auto dest: desk_okD(4))

lemma win_fields [simp]:
  "win (d\<lparr>z_order := z\<rparr>) i = win d i" "win (d\<lparr>active_win_idx := a\<rparr>) i = win d i" "win (d\<lparr>gui_redraw_needed := r\<rparr>) i = win d i"
  "win (d\<lparr>terminal_clipboard := c\<rparr>) i = win d i" "win (d\<lparr>gui_cursor_mode := m\<rparr>) i = win d i"
  "win (d\<lparr>last_click_ms := t\<rparr>) i = win d i" "win (d\<lparr>last_click_idx := j\<rparr>) i = win d i"
  by (simp_all add: win_def)

lemma desk_ok_fields [simp]:
  "desk_ok (d\<lparr>gui_redraw_needed := r\<rparr>) = desk_ok d" "desk_ok (d\<lparr>terminal_clipboard := c\<rparr>) = desk_ok d"
  "desk_ok (d\<lparr>gui_cursor_mode := m\<rparr>) = desk_ok d" "desk_ok (d\<lparr>last_click_ms := t\<rparr>) = desk_ok d"
  "desk_ok (d\<lparr>last_click_idx := j\<rparr>) = desk_ok d"
  by (simp_all add: desk_ok_def)

lemma desk_ok_active: "desk_ok d \<Longrightarrow> a = -1 \<or> valid_idx a \<Longrightarrow> desk_ok (d\<lparr>active_win_idx := a\<rparr>)"
  by (simp add: desk_ok_def)

lemma desk_ok_order: "desk_ok d \<Longrightarrow> z_ok z \<Longrightarrow> desk_ok (d\<lparr>z_order := z\<rparr>)"
  by (simp add: desk_ok_def z_ok_def)

lemma place_same_ok:
  "win_ok (w\<lparr>minimized := b\<rparr>) = win_ok w" "win_ok (w\<lparr>taskbar_anim := n\<rparr>) = win_ok w" "win_ok (w\<lparr>dragging := b\<rparr>) = win_ok w"
  "win_ok (w\<lparr>drag_off_x := a\<rparr>) = win_ok w" "win_ok (w\<lparr>drag_off_y := a\<rparr>) = win_ok w" "win_ok (w\<lparr>scroll_dragging := b\<rparr>) = win_ok w"
  "win_ok (w\<lparr>demo := q\<rparr>) = win_ok w" "win_ok (w\<lparr>ns := s\<rparr>) = win_ok w" "win_ok (w\<lparr>debug_drag_split := b\<rparr>) = win_ok w"
  "win_ok (w\<lparr>resizing := b\<rparr>) = win_ok w" "win_ok (w\<lparr>resize_dir := n\<rparr>) = win_ok w" "win_ok (w\<lparr>resize_start := bo\<rparr>) = win_ok w"
  "win_ok (w\<lparr>resize_start_mx := a\<rparr>) = win_ok w" "win_ok (w\<lparr>resize_start_my := a\<rparr>) = win_ok w" "win_ok (w\<lparr>d_title := s'\<rparr>) = win_ok w"
  by (simp_all add: win_ok_def place_defs)

declare place_same_ok [simp]

lemma front_ok: "desk_ok d \<Longrightarrow> desk_ok (bring_to_front i d)"
proof -
  assume d: "desk_ok d"
  show ?thesis
  proof (cases "valid_idx i")
    case True
    obtain p where p: "z_pos (z_order d) i = Some p" using z_pos_ok [OF desk_okD(2) [OF d] True] by blast
    have "desk_ok (upd d i (\<lambda>w. w\<lparr>minimized := False, taskbar_anim := 8\<rparr>))"
      using d True by (intro desk_ok_upd_same) simp_all
    then show ?thesis using True p moved_order(3) [OF desk_okD(2) [OF d] p]
      by (simp add: bring_to_front_def desk_ok_active desk_ok_order)
  qed (simp add: bring_to_front_def d)
qed

lemma activate_top_ok: "desk_ok d \<Longrightarrow> desk_ok (activate_top d)"
  unfolding activate_top_def
  by (intro desk_ok_active) (auto split: option.splits simp: find_Some_iff shown_def)

lemma cycle_ok: "desk_ok d \<Longrightarrow> desk_ok (cycle_active_window d)"
proof -
  assume d: "desk_ok d"
  show ?thesis
  proof (cases "z_pos (z_order d) (active_win_idx d)")
    case (Some p)
    then show ?thesis
      using d activate_top_ok [OF desk_ok_order [OF d moved_order(4) [OF desk_okD(2) [OF d] Some]]] z_pos_Some [OF Some]
      by (auto simp: cycle_active_window_def Let_def intro: desk_ok_active)
  qed (simp add: cycle_active_window_def d activate_top_ok)
qed

lemma zero_window_ok: "window_ok zero_twin"
proof -
  have "window_ok fresh_terminal" by (rule fresh_ok)
  then show ?thesis by (simp add: zero_twin_def window_ok_def edit_ok_def keys_wf_def)
qed

lemma reset_ok: "win_ok (reset_window i)"
  using zero_window_ok by (simp add: reset_window_def win_ok_def active_def zero_twin_def)

lemma close_ok: "desk_ok d \<Longrightarrow> desk_ok (close_window i d)"
proof -
  assume d: "desk_ok d"
  show ?thesis
  proof (cases "valid_idx i")
    case True
    obtain p where p: "z_pos (z_order d) i = Some p" using z_pos_ok [OF desk_okD(2) [OF d] True] by blast
    let ?d1 = "if active_win_idx d = i then d\<lparr>active_win_idx := -1\<rparr> else d"
    have z: "z_order ?d1 = z_order d" by simp
    have "desk_ok ?d1" using d by (simp add: desk_ok_active)
    then have "desk_ok (upd (?d1\<lparr>z_order := raise_at (z_order d) p i\<rparr>) i (\<lambda>_. reset_window i))"
      using True moved_order(3) [OF desk_okD(2) [OF d] p] by (intro desk_ok_upd reset_ok desk_ok_order)
    then show ?thesis using True cycle_ok unfolding close_window_def Let_def z p option.case by simp
  qed (simp add: close_window_def d)
qed


lemma default_box_ok: "valid_idx i \<Longrightarrow> box_ok (default_box i)"
  by (auto simp: valid_idx_cases default_box_def default_size_def Let_def clamp_int_def box_ok_def)

lemma new_terminal_ok:
  assumes x: "gext_ok x" and i: "valid_idx i"
  shows "win_ok (new_terminal x i)"
proof -
  define t0 where "t0 = tw (set_box (default_box i) (set_tw (\<lambda>t. t\<lparr>t_active := True, total_rows := 1, cur_col := 12,
                 tlines := (tlines t)(0 := PROMPT)\<rparr>) (reset_window i)))"
  have "window_ok (zero_twin\<lparr>t_active := True, total_rows := 1, cur_col := 12, tlines := (tlines zero_twin)(0 := PROMPT)\<rparr>)"
    using zero_window_ok by (simp add: window_ok_def edit_ok_def keys_wf_def zero_twin_def PROMPT_def)
  then have t0: "window_ok t0" "\<not> t_maximized t0" "t_active t0"
    "\<lparr>bx = t_x t0, by' = t_y t0, bw = t_w t0, bh = t_h t0\<rparr> = default_box i"
    by (simp_all add: t0_def set_box_def set_tw_def reset_window_def) (simp_all add: zero_twin_def fresh_terminal_def)
  define t1 where "t1 = start_shell x t0"
  have t1: "window_ok t1" "same_tw t0 t1" using x t0(1) by (simp_all add: gext_ok_def t1_def same_tw_def)
  define t2 where "t2 = t1\<lparr>edit_len := 0, cursor_pos := 0, cmd_buf := (cmd_buf t1)(0 := NUL)\<rparr>"
  have t2: "window_ok t2" using t1(1) by (simp add: t2_def window_ok_def edit_ok_def keys_wf_def)
  have hs: "same_tw t (terminal_history_set t j s)" for t j s by (simp add: terminal_history_set_def same_tw_def)
  have "same_tw t (foldl (\<lambda>w (i, s). terminal_history_set w i s) t l)" for t l
  proof (induction l arbitrary: t)
    case (Cons p l)
    then show ?case using hs [of t "fst p" "snd p"] unfolding same_tw_def by (simp add: split_beta)
  qed (simp add: same_tw_def)
  then have "same_tw t2 (seed_terminal_history t2)" unfolding seed_terminal_history_def Let_def same_tw_def by simp
  then have s: "same_tw t0 (seed_terminal_history t2)" using t1(2) by (simp add: same_tw_def t2_def)
  have "tw (new_terminal x i) = seed_terminal_history t2"
    by (simp add: new_terminal_def Let_def t2_def t1_def t0_def set_tw_def)
  then show ?thesis using ok_seed [OF t2] s t0 default_box_ok [OF i]
    by (simp add: win_ok_def place_defs same_tw_def)
qed

lemma create_ok: "gext_ok x \<Longrightarrow> desk_ok d \<Longrightarrow> desk_ok (create_new_task x d)"
proof -
  assume x: "gext_ok x" and d: "desk_ok d"
  show ?thesis
  proof (cases "find (\<lambda>i. \<not> active (dwins d ! i)) [0 ..< MAX_WINDOWS]")
    case (Some i)
    then have "i < 4" by (auto simp: find_Some_iff)
    then have i: "valid_idx (int i)" by (simp add: valid_idx_def)
    have "desk_ok (bring_to_front (int i) (upd d (int i) (\<lambda>_. new_terminal x (int i))))"
      by (intro front_ok desk_ok_upd d i new_terminal_ok x)
    then show ?thesis using i by (simp add: create_new_task_def Some desk_ok_active)
  qed (simp add: create_new_task_def d)
qed

lemma start_ok: "gext_ok x \<Longrightarrow> active_win_idx d = -1 \<Longrightarrow> desk_ok (start_desktop x d)"
proof -
  assume x: "gext_ok x" and a: "active_win_idx d = -1"
  have "desk_ok (d\<lparr>dwins := map (\<lambda>i. reset_window (int i)) [0 ..< MAX_WINDOWS], z_order := map int [0 ..< MAX_WINDOWS]\<rparr>)"
    using reset_ok a by (auto simp: desk_ok_def upt4 four)
  from create_ok [OF x this] show ?thesis by (simp add: start_desktop_def)
qed

section \<open>Keys, clicks and frames\<close>

lemma maximize_window_ok: "desk_ok d \<Longrightarrow> desk_ok (maximize_window now i d)"
  unfolding maximize_window_def by (auto intro!: desk_ok_upd_same refresh_ok stop_drags_ok maximize_ok)

lemma restore_window_ok: "desk_ok d \<Longrightarrow> desk_ok (restore_window now i d)"
proof -
  assume d: "desk_ok d"
  have "win_ok (let w = w\<lparr>minimized := False\<rparr>; w = (if maximized w then set_maximized False (set_box (prev_box w) w) else w)
        in refresh_window_after_geometry_change now (stop_drags w))" if "win_ok w" for w
    using that restore_ok [of "w\<lparr>minimized := False\<rparr>"] by (auto simp: Let_def intro!: refresh_ok stop_drags_ok)
  then show ?thesis using d unfolding restore_window_def by (auto intro!: desk_ok_upd_same)
qed

lemma minimize_window_ok: "desk_ok d \<Longrightarrow> desk_ok (minimize_window i d)"
  unfolding minimize_window_def Let_def by (auto intro!: desk_ok_active desk_ok_upd_same stop_drags_ok)

lemma snap_box_ok:
  "snap_box key = Some b \<Longrightarrow> box_ok (b\<lparr>bw := clamp_int (bw b) 220 512, bh := clamp_int (bh b) 140 270\<rparr>)"
  by (auto simp: snap_box_def Let_def clamp_int_def box_ok_def split: if_splits)

lemma snap_window_ok: "desk_ok d \<Longrightarrow> desk_ok (snap_window_by_key now i key d)"
proof (cases "valid_idx i \<and> active (win d i) \<and> \<not> minimized (win d i)")
  case True
  assume d: "desk_ok d"
  let ?r = "\<lambda>w. if \<not> maximized w then remember_box w else w"
  have r: "win_ok w \<Longrightarrow> win_ok (?r w)" for w by (simp add: win_ok_def remember_box_def place_defs)
  have 1: "desk_ok (upd d i ?r)" using d True r by (intro desk_ok_upd_same) auto
  have 2: "win_ok (set_maximized False (set_box b w))" if "win_ok w" "box_ok b" for b w
    using that by (cases b) (simp add: win_ok_def set_maximized_def set_box_def place_defs)
  show ?thesis
  proof (cases "snap_box key")
    case None
    then show ?thesis using 1 True by (simp add: snap_window_by_key_def Let_def)
  next
    case (Some b)
    have "desk_ok (upd (upd d i ?r) i (\<lambda>w. refresh_window_after_geometry_change now (stop_drags (set_maximized False
               (set_box (b\<lparr>bw := clamp_int (bw b) MIN_WIN_W WIDTH, bh := clamp_int (bh b) MIN_WIN_H DESKTOP_H\<rparr>) w)))))"
      using True by (intro desk_ok_upd_same 1 refresh_ok stop_drags_ok 2 snap_box_ok [OF Some]) simp
    then show ?thesis using True Some by (simp add: snap_window_by_key_def Let_def)
  qed
qed (simp add: snap_window_by_key_def)


lemma pushes_same: "same_tw t (foldl window_input_push t s)"
proof (induction s arbitrary: t)
  case (Cons c s)
  have "same_tw t (window_input_push t c)" by (simp add: window_input_push_def Let_def same_tw_def)
  then show ?case using Cons [of "window_input_push t c"] by (simp add: same_tw_def)
qed (simp add: same_tw_def)

lemma mailbox_same: "same_tw t u \<Longrightarrow> same_tw t (u\<lparr>mailbox := b\<rparr>)"
  by (simp add: same_tw_def)

lemma same_tw_refl [simp]: "same_tw t t" by (simp add: same_tw_def)

lemma paste_tw: "same_tw t (terminal_paste_clipboard t s)" "window_ok t \<Longrightarrow> window_ok (terminal_paste_clipboard t s)"
  by (simp_all add: terminal_paste_clipboard_def mailbox_same pushes_same ok_pushes)

lemma font_tw: "same_tw t (resize_terminal_font t n)" "window_ok t \<Longrightarrow> window_ok (resize_terminal_font t n)"
  by (simp_all add: ok_font) (simp add: resize_terminal_font_def Let_def terminal_clamp_v_offset_def same_tw_def)

lemma select_tw:
  "same_tw t (case terminal_mouse_to_cell t mx my of None \<Rightarrow> terminal_clear_selection t
       | Some (r, c) \<Rightarrow> t\<lparr>selecting := True, has_selection := True, sel_start := a r c, sel_end := b r c\<rparr>)"
  "window_ok t \<Longrightarrow> window_ok (case terminal_mouse_to_cell t mx my of None \<Rightarrow> terminal_clear_selection t
       | Some (r, c) \<Rightarrow> t\<lparr>selecting := True, has_selection := True, sel_start := a r c, sel_end := b r c\<rparr>)"
  "same_tw t (case terminal_mouse_to_cell t mx my of None \<Rightarrow> t | Some (r, c) \<Rightarrow> t\<lparr>sel_end := b r c\<rparr>)"
  "window_ok t \<Longrightarrow> window_ok (case terminal_mouse_to_cell t mx my of None \<Rightarrow> t | Some (r, c) \<Rightarrow> t\<lparr>sel_end := b r c\<rparr>)"
  by (auto simp: same_tw_def terminal_clear_selection_def split: option.splits)

lemma scroll_tw: "same_tw t (terminal_clamp_v_offset (t\<lparr>v_offset := n\<rparr>))"
  by (simp add: terminal_clamp_v_offset_def same_tw_def)

lemma gext_okD:
  assumes "gext_ok x"
  shows "ext_ok (shell x)" "ext_stays (shell x)" "win_ok w \<Longrightarrow> win_ok (ns_input x w mx my b)" "win_ok w \<Longrightarrow> win_ok (jit_mouse_down x w mx my)"
    "win_ok w \<Longrightarrow> win_ok (jit_mouse_drag x w mx my)" "win_ok w \<Longrightarrow> win_ok (jit_wheel x w mx my v b)"
    "win_ok w \<Longrightarrow> win_ok (jit_key x w c)" "win_ok w \<Longrightarrow> win_ok (editor_key x w c)" "win_ok w \<Longrightarrow> win_ok (fst (game_key x w c))"
  using assms unfolding gext_ok_def by blast+

lemma scroll_drag_ok: "win_ok w \<Longrightarrow> win_ok (scroll_drag my w)"
  unfolding scroll_drag_def Let_def
  by (rule set_tw_ok) (auto simp: same_tw_def terminal_clamp_v_offset_def win_okD)

lemma demo_drag_ok: "win_ok w \<Longrightarrow> win_ok (demo_drag mx my w)"
  by (simp add: demo_drag_def Let_def)

lemma drag_active_ok: "gext_ok x \<Longrightarrow> win_ok w \<Longrightarrow> active w \<Longrightarrow> win_ok (drag_active x m w)"
  unfolding drag_active_def Let_def
  by (auto simp: apply_resize_ok drag_window_ok scroll_drag_ok demo_drag_ok gext_okD select_tw win_okD intro!: set_tw_ok)

lemma release_ok: "win_ok w \<Longrightarrow> win_ok (release_win now w)"
  unfolding release_win_def Let_def by (auto intro!: set_tw_ok simp: same_tw_def win_okD)

lemma button_state_ok:
  assumes x: "gext_ok x" and d: "desk_ok d"
  shows "desk_ok (button_state x m d)"
proof (cases "gui_clicked m")
  case False
  have "win_ok (map (release_win (ms_now m)) (dwins d) ! i)" if "i < 4" for i
    using d that release_ok by (simp add: desk_ok_def)
  then show ?thesis using False d by (simp add: button_state_def button_up_def desk_ok_def)
next
  case True
  show ?thesis
  proof (cases "active_window_valid d")
    case v: True
    have i: "valid_idx (active_win_idx d)" "active (win d (active_win_idx d))" using v by (simp_all add: active_window_valid_def)
    have "desk_ok (upd e (active_win_idx d) (drag_active x m))" if "desk_ok e" "win e (active_win_idx d) = win d (active_win_idx d)" for e
      using that i x by (intro desk_ok_upd) (auto intro!: drag_active_ok dest: desk_okD(4))
    then show ?thesis using True v d by (simp add: button_state_def Let_def)
  qed (use True in \<open>simp add: button_state_def d\<close>)
qed

lemma wheel_ok: "gext_ok x \<Longrightarrow> desk_ok d \<Longrightarrow> desk_ok (wheel x m d)"
proof -
  assume x: "gext_ok x" and d: "desk_ok d"
  have "win_ok (wheel_win x m w)" if w: "win_ok w" for w
    using x w unfolding wheel_win_def Let_def
    by (auto simp: image_ok gext_okD font_tw clamp_scroll_tw scroll_tw win_okD intro!: set_tw_ok)
  then show ?thesis using d unfolding wheel_def active_window_valid_def by (auto intro!: desk_ok_upd_same)
qed

lemma click_title_ok: "desk_ok d \<Longrightarrow> valid_idx i \<Longrightarrow> desk_ok (click_title now i wx ww mx my d)"
  unfolding click_title_def
  by (auto intro!: close_ok desk_ok_upd_same desk_ok_active toggle_ok)

lemma click_body_ok: "gext_ok x \<Longrightarrow> win_ok w \<Longrightarrow> win_ok (click_body x r mx my w)"
  unfolding click_body_def start_selection_def
  by (auto simp: gext_okD select_tw win_okD intro!: set_tw_ok)

lemma click_ok: "gext_ok x \<Longrightarrow> desk_ok d \<Longrightarrow> desk_ok (click x m d)"
proof -
  assume x: "gext_ok x" and d: "desk_ok d"
  have tb: "desk_ok (click_taskbar x mx d)" for mx
    using d x by (auto simp: click_taskbar_def create_ok valid_idx_def find_Some_iff split: option.splits intro!: desk_ok_upd_same front_ok)
  have w: "desk_ok (click_window x now i mx my d)" if i: "valid_idx i" for now i mx my
  proof -
    define e where "e = bring_to_front i d"
    have e: "desk_ok e" using front_ok [OF d] by (simp add: e_def)
    have "win_ok v \<Longrightarrow> win_ok (begin_resize v dir mx my)" for v dir by (simp add: begin_resize_def)
    then show ?thesis unfolding click_window_def Let_def e_def [symmetric]
      using e i x by (auto intro!: desk_ok_upd_same click_title_ok click_body_ok)
  qed
  show ?thesis unfolding click_def Let_def using tb w d by (auto simp: valid_idx_def intro!: desk_ok_active)
qed

lemma right_click_ok: "desk_ok d \<Longrightarrow> desk_ok (right_click d)"
  unfolding right_click_def active_window_valid_def
  by (auto intro!: desk_ok_upd_same set_tw_ok simp: paste_tw win_okD)

lemma hover_ok: "desk_ok d \<Longrightarrow> desk_ok (hover_cursor m d)"
  by (simp add: hover_cursor_def split: option.split)

lemma mouse_frame_ok: "gext_ok x \<Longrightarrow> desk_ok d \<Longrightarrow> desk_ok (mouse_frame x f d)"
proof -
  assume x: "gext_ok x" and d: "desk_ok d"
  have "desk_ok (if \<not> active_window_valid e then e\<lparr>active_win_idx := -1\<rparr> else e)" if "desk_ok e" for e
    using that by (simp add: desk_ok_active)
  then show ?thesis unfolding mouse_frame_def Let_def
    using x d by (simp add: wheel_ok hover_ok button_state_ok right_click_ok click_ok)
qed


section \<open>A key keeps the place of a terminal\<close>

named_theorems stays

lemma same_tw_place: "same_tw t u \<longleftrightarrow> place u = place t"
  by (auto simp: same_tw_def place_def)

lemma place_fields [simp]:
  "place (t\<lparr>cmd_buf := a1\<rparr>) = place t" "place (t\<lparr>edit_len := a2\<rparr>) = place t" "place (t\<lparr>cursor_pos := a2\<rparr>) = place t"
  "place (t\<lparr>saved_cmd := a3\<rparr>) = place t" "place (t\<lparr>has_saved_cmd := b\<rparr>) = place t" "place (t\<lparr>history := a4\<rparr>) = place t"
  "place (t\<lparr>hist_count := a2\<rparr>) = place t" "place (t\<lparr>hist_idx := a5\<rparr>) = place t" "place (t\<lparr>input_q := q\<rparr>) = place t"
  "place (t\<lparr>mailbox := b\<rparr>) = place t" "place (t\<lparr>executing_cmd := b\<rparr>) = place t" "place (t\<lparr>cancel_requested := b\<rparr>) = place t"
  "place (t\<lparr>waiting_wget := b\<rparr>) = place t" "place (t\<lparr>submit_locked := b\<rparr>) = place t" "place (t\<lparr>shell_status := a3\<rparr>) = place t"
  "place (t\<lparr>ssh_auth_mode := a2\<rparr>) = place t" "place (t\<lparr>ssh_auth_buf := a3\<rparr>) = place t" "place (t\<lparr>tlines := a4\<rparr>) = place t"
  "place (t\<lparr>total_rows := a2\<rparr>) = place t" "place (t\<lparr>cur_col := a2\<rparr>) = place t" "place (t\<lparr>v_offset := a2\<rparr>) = place t"
  by (simp_all add: place_def)

lemma place_lines [stays]:
  "place (redraw_prompt_line t r) = place t" "place (load_edit_buffer t s) = place t" "place (clear_prompt_input t) = place t"
  "place (shift_rows t) = place t" "place (make_room t) = place t" "place (put_row t s) = place t"
  "place (append_row t s) = place t" "place (terminal_append_prompt t) = place t" "place (terminal_scroll_to_bottom t) = place t"
  "place (clear_window_input_queue t) = place t" "place (window_input_push t c) = place t" "place (terminal_history_set t j s) = place t"
  by (simp_all add: redraw_prompt_line_def load_edit_buffer_def clear_prompt_input_def shift_rows_def make_room_def put_row_def
      append_row_def terminal_append_prompt_def terminal_scroll_to_bottom_def clear_window_input_queue_def window_input_push_def
      terminal_history_set_def Let_def)

lemma place_append [stays]: "place (append_terminal_line t s) = place t"
proof -
  have "place (append_loop t l s) = place t" for l by (induction t l s rule: append_loop.induct) (simp_all add: stays)
  then show ?thesis by (simp add: append_terminal_line_def)
qed

lemma place_unlock [stays]: "place (terminal_unlock_after_cancel t) = place t"
  by (simp add: terminal_unlock_after_cancel_def stays)

lemma place_finish [stays]: "place (terminal_finish_ctrl_c_cancel t n) = place t"
  by (simp add: terminal_finish_ctrl_c_cancel_def stays)

lemma place_secret [stays]:
  "place (terminal_refresh_ssh_auth_prompt t) = place t" "place (terminal_begin_ssh_secret t n) = place t"
  "place (terminal_begin_ssh_auth t) = place t" "place (terminal_begin_ssh_boot_seal t) = place t"
  "place (terminal_cancel_ssh_auth t) = place t"
proof -
  show r: "place (terminal_refresh_ssh_auth_prompt t) = place t" for t
    by (simp add: terminal_refresh_ssh_auth_prompt_def Let_def stays)
  show b: "place (terminal_begin_ssh_secret t n) = place t" for n by (simp add: terminal_begin_ssh_secret_def stays r)
  show "place (terminal_begin_ssh_auth t) = place t" "place (terminal_begin_ssh_boot_seal t) = place t"
    by (simp_all add: terminal_begin_ssh_auth_def terminal_begin_ssh_boot_seal_def b)
  show "place (terminal_cancel_ssh_auth t) = place t" by (simp add: terminal_cancel_ssh_auth_def Let_def stays)
qed

lemma place_edit [stays]:
  "place (key_left t r) = place t" "place (key_right t r) = place t" "place (key_home t r) = place t" "place (key_end t r) = place t"
  "place (key_delete t r) = place t" "place (key_backspace t r) = place t" "place (key_insert t r c) = place t"
  "place (key_up t r) = place t" "place (key_down t r) = place t" "place (unlocked t k) = place t"
  by (simp_all add: key_left_def key_right_def key_home_def key_end_def key_delete_def key_backspace_def key_insert_def
      key_up_def key_down_def unlocked_def Let_def stays)

lemma place_show [stays]: "place (show_output t n s) = place t"
proof (induction t n s rule: show_output.induct)
  case (1 w n res)
  show ?case
  proof (cases "res = [] \<or> n = 0")
    case False
    then show ?thesis using 1 by (subst show_output.simps) (simp add: Let_def stays)
  qed (simp add: show_output.simps)
qed

lemma place_history [stays]: "place (history_enter t s) = place t"
proof -
  have "place (foldl (\<lambda>w i. terminal_history_set w (int i) (history w (i - 1))) t l) = place t" for t l
    by (induction l arbitrary: t) (simp_all add: stays)
  then show ?thesis by (simp add: history_enter_def Let_def stays)
qed

lemma place_key:
  assumes x: "ext_stays x"
  shows "place (handle_window_mailbox x t) = place t"
proof -
  have e: "place (exec_single_cmd x t c) = place t" "place (try_tab_complete x t r) = place t" "place (other_window_key x t k) = place t"
    "place (submit_ssh_auth x t) = place t" "place (snd (jit_cancel_by_owner x t)) = place t" for t c r k
    using x by (simp_all add: ext_stays_def)
  have run: "place (run_command x t) = place t" for t
    by (simp add: run_command_def Let_def stays e)
  have enter: "place (key_enter x t) = place t" for t
    by (simp add: key_enter_def after_enter_def Let_def stays run)
  have ctrl: "place (key_ctrl_c x t) = place t" for t
    using e(5) [of "t\<lparr>cancel_requested := True\<rparr>"] by (simp add: key_ctrl_c_def Let_def stays split_beta)
  have secret: "place (secret_key x t c) = place t" for t c
    by (simp add: secret_key_def Let_def stays e)
  have line: "place (line_key x t k c) = place t" for t k c
    by (simp add: line_key_def edit_key_def Let_def stays e enter)
  have tk: "place (terminal_key x t c) = place t" for t c
    by (simp add: terminal_key_def Let_def stays ctrl line)
  show ?thesis
  proof (cases "window_input_pop t")
    case (Some p)
    have "place (snd p) = place t" using Some by (auto simp: window_input_pop_def Let_def split: if_splits)
    then show ?thesis using Some by (cases p) (simp add: handle_window_mailbox_def Let_def e secret tk)
  qed (simp add: handle_window_mailbox_def)
qed


section \<open>Keys and frames\<close>

lemma set_tw_stays: "win_ok w \<Longrightarrow> place (f (tw w)) = place (tw w) \<Longrightarrow> window_ok (f (tw w)) \<Longrightarrow> win_ok (set_tw f w)"
  by (rule set_tw_ok) (simp_all add: same_tw_place)

lemma type_key_tw: "ext_ok x \<Longrightarrow> ext_stays x \<Longrightarrow> window_ok t \<Longrightarrow> window_ok (handle_window_mailbox x (window_input_push t c))"
  by (simp add: ok_handle ok_push)

lemma broadcast_ok:
  assumes x: "ext_ok x" "ext_stays x" and t: "\<forall>j < length ts. window_ok (ts ! j)"
  shows "length (broadcast_ctrl_c x i ts) = length ts \<and>
    (\<forall>j < length ts. window_ok (broadcast_ctrl_c x i ts ! j) \<and> place (broadcast_ctrl_c x i ts ! j) = place (ts ! j))"
proof (cases "0 \<le> i \<and> i < int (length ts)")
  case True
  let ?w = "ts ! nat i"
  obtain n u where u: "jit_cancel_by_owner x (?w\<lparr>cancel_requested := True\<rparr>) = (n, u)" by fastforce
  have "nat i < length ts" using True by linarith
  then have "window_ok (?w\<lparr>cancel_requested := True\<rparr>)" using t by simp
  then have "window_ok u" "place u = place ?w"
    using x u unfolding ext_ok_def ext_stays_def by (metis snd_conv, metis snd_conv place_fields(12))
  moreover then have "window_ok (terminal_finish_ctrl_c_cancel u n)" by (simp add: terminal_finish_ctrl_c_cancel_def ok_unlock ok_append_line)
  ultimately show ?thesis using t True
    by (auto simp: broadcast_ctrl_c_def Let_def u nth_list_update stays)
qed (use t in \<open>auto simp: broadcast_ctrl_c_def\<close>)

lemma gui_ctrl_c_ok:
  assumes x: "ext_ok (shell x)" "ext_stays (shell x)" and d: "desk_ok d" and i: "valid_idx i"
  shows "desk_ok (snd (gui_ctrl_c x i d))"
proof -
  let ?ts = "map tw (dwins d)" and ?bs = "broadcast_ctrl_c (shell x) (active_win_idx d) (map tw (dwins d))"
  have len: "length (dwins d) = 4" and ok: "\<forall>j < 4. win_ok (dwins d ! j)" using d by (simp_all add: desk_ok_def)
  have b: "length ?bs = length ?ts \<and> (\<forall>j < length ?ts. window_ok (?bs ! j) \<and> place (?bs ! j) = place (?ts ! j))"
    using ok len by (intro broadcast_ok x) (simp add: win_ok_def)
  have "win_ok ((dwins d ! j)\<lparr>tw := ?bs ! j\<rparr>)" if "j < 4" for j
  proof (rule same_place_ok)
    show "win_ok (dwins d ! j)" using ok that by blast
    show "window_ok (tw ((dwins d ! j)\<lparr>tw := ?bs ! j\<rparr>))" using b len that by simp
    have "place (?bs ! j) = place (tw (dwins d ! j))" using b len that by simp
    then show "same_place (dwins d ! j) ((dwins d ! j)\<lparr>tw := ?bs ! j\<rparr>)" by (simp add: place_def place_defs)
  qed
  then have 1: "desk_ok (d\<lparr>dwins := map2 (\<lambda>w t. w\<lparr>tw := t\<rparr>) (dwins d) ?bs\<rparr>)"
    using d len b by (simp add: desk_ok_def)
  let ?f = "\<lambda>t. let t = clear_prompt_input (clear_window_input_queue (t\<lparr>submit_locked := False, cancel_requested := False\<rparr>))
                in if total_rows t > 0 then redraw_prompt_line t (total_rows t - 1) else t"
  have "window_ok t \<Longrightarrow> window_ok (?f t)" "place (?f t) = place t" for t by (simp_all add: Let_def ok_ops stays)
  then have 2: "desk_ok (upd d i (set_tw ?f))" using d i by (intro desk_ok_upd_same) (auto intro!: set_tw_stays simp: win_okD)
  show ?thesis unfolding gui_ctrl_c_def Let_def using 1 2 [unfolded Let_def] d by simp
qed

lemma plain_key_ok:
  assumes x: "ext_ok (shell x)" "ext_stays (shell x)" and d: "desk_ok d" and i: "valid_idx i"
  shows "desk_ok (snd (plain_key x ctrl i c d))"
proof -
  have "place (window_input_push t c) = place t" for t by (simp add: stays)
  then have "win_ok w \<Longrightarrow> win_ok (set_tw (type_key x c) w)" for w
    using x by (intro set_tw_stays) (auto simp: type_key_def Let_def place_key type_key_tw ok_push win_okD)
  moreover have "win_ok w \<Longrightarrow> win_ok (set_tw (\<lambda>t. terminal_paste_clipboard t s) w)" for w s
    by (intro set_tw_ok) (auto simp: paste_tw win_okD)
  moreover have "win_ok w \<Longrightarrow> win_ok (set_tw (\<lambda>t. resize_terminal_font t (g t)) w)" for w g
    by (intro set_tw_ok) (auto simp: font_tw win_okD)
  ultimately show ?thesis unfolding plain_key_def using d i gui_ctrl_c_ok [OF x d i] by (simp add: desk_ok_upd_same)
qed

lemma window_key_ok:
  assumes "window_key now c = Some f" "desk_ok d"
  shows "desk_ok (f i d)"
proof -
  have "f = (\<lambda>i. snap_window_by_key now i c) \<or> f = maximize_window now \<or> f = restore_window now \<or> f = minimize_window"
    using assms(1) unfolding window_key_def by (metis option.distinct(1) option.inject)
  then show ?thesis using assms(2) by (auto simp: snap_window_ok maximize_window_ok restore_window_ok minimize_window_ok)
qed

lemma handle_key_ok:
  assumes x: "gext_ok x" and d: "desk_ok d" and v: "active_window_valid d"
  shows "desk_ok (snd (handle_key x m c d))"
proof -
  have i: "valid_idx (active_win_idx d)" using v by (simp add: active_window_valid_def)
  have g: "desk_ok (upd d (active_win_idx d) f)" if "\<And>w. win_ok w \<Longrightarrow> win_ok (f w)" for f using d i that by (rule desk_ok_upd_same)
  note p = plain_key_ok [OF gext_okD(1,2) [OF x] _ i]
  show ?thesis
  proof (cases "if gui_ctrl_pressed m then window_key (ms_now m) c else None")
    case (Some f)
    then have "window_key (ms_now m) c = Some f" by (simp split: if_splits)
    then show ?thesis using Some window_key_ok d by (simp add: handle_key_def Let_def)
  next
    case None
    then show ?thesis unfolding handle_key_def Let_def None option.case
      using g p d gext_okD(7-9) [OF x] by simp
  qed
qed

lemma gui_keys_ok: "gext_ok x \<Longrightarrow> desk_ok d \<Longrightarrow> desk_ok (snd (gui_keys x m n key ks d))"
proof (induction x m n key ks d rule: gui_keys.induct)
  case (2 x m n key ks d)
  show ?case
  proof (cases "active_window_valid d")
    case v: True
    show ?thesis
    proof (cases "gui_key_pull_next key ks")
      case (Some p)
      obtain c ks' where p: "p = (c, ks')" by fastforce
      obtain key' d' where h: "handle_key x m c d = (key', d')" by fastforce
      have "desk_ok d'" using handle_key_ok [OF "2.prems" v, of m c] h by simp
      from "2.IH" [OF v Some p [symmetric] h [symmetric] "2.prems"(1) this] show ?thesis using v Some p h by simp
    qed (use v 2 in simp)
  qed (use 2 in simp)
qed simp

lemma shortcuts_ok: "gext_ok x \<Longrightarrow> desk_ok d \<Longrightarrow> desk_ok (shortcuts x f d)"
  by (simp add: shortcuts_def Let_def create_ok close_ok cycle_ok)

lemma inject_ok: "desk_ok d \<Longrightarrow> desk_ok (inject_serial s d)"
  unfolding inject_serial_def active_window_valid_def
  by (auto intro!: desk_ok_upd_same set_tw_ok simp: mailbox_same pushes_same ok_pushes win_okD)

lemma netsurf_ok: "gext_ok x \<Longrightarrow> desk_ok d \<Longrightarrow> desk_ok (dispatch_netsurf x m d)"
  unfolding dispatch_netsurf_def active_window_valid_def
  by (auto intro!: desk_ok_upd_same simp: gext_okD(3))

lemma frame_ok: "gext_ok x \<Longrightarrow> desk_ok d \<Longrightarrow> desk_ok (snd (gui_frame x f d))"
  unfolding gui_frame_def Let_def
  by (simp add: split_beta gui_keys_ok mouse_frame_ok netsurf_ok shortcuts_ok inject_ok)


section \<open>Properties\<close>

definition gui_frames :: "gext \<Rightarrow> frame_input list \<Rightarrow> desk \<Rightarrow> desk" where
  "gui_frames x fs d = fold (\<lambda>f d. snd (gui_frame x f d)) fs d"

lemma frames_ok: "gext_ok x \<Longrightarrow> desk_ok d \<Longrightarrow> desk_ok (gui_frames x fs d)"
  unfolding gui_frames_def by (induction fs arbitrary: d) (simp_all add: frame_ok)


text \<open>The shown windows from the bottom to the top; the one on top is active.\<close>

definition shown_order :: "desk \<Rightarrow> int list" where
  "shown_order d = filter (shown d) (z_order d)"

definition top_is_active :: "desk \<Rightarrow> bool" where
  "top_is_active d \<longleftrightarrow> shown_order d \<noteq> [] \<and> active_win_idx d = last (shown_order d)"

lemma find_rev_last: "find P (rev xs) = (if filter P xs = [] then None else Some (last (filter P xs)))"
  by (induction xs rule: rev_induct) auto

lemma activate_top_eq: "active_win_idx (activate_top d) = (if shown_order d = [] then -1 else last (shown_order d))"
  by (simp add: activate_top_def shown_order_def find_rev_last)

lemma shown_fields [simp]: "shown (d\<lparr>z_order := z\<rparr>) i = shown d i" "shown (d\<lparr>active_win_idx := a\<rparr>) i = shown d i"
  by (simp_all add: shown_def)

lemma cycle_rotates:
  assumes d: "desk_ok d" and t: "top_is_active d"
  shows "shown_order (cycle_active_window d) = last (shown_order d) # butlast (shown_order d) \<and>
    top_is_active (cycle_active_window d) \<and> desk_ok (cycle_active_window d) \<and> shown (cycle_active_window d) = shown d"
proof -
  let ?a = "active_win_idx d" and ?vs = "shown_order d"
  have a: "?vs \<noteq> []" "?a = last ?vs" using t by (simp_all add: top_is_active_def)
  then have sa: "shown d ?a" using last_in_set [OF a(1)] by (simp add: shown_order_def)
  then have v: "valid_idx ?a" by (simp add: shown_def)
  obtain p where p: "z_pos (z_order d) ?a = Some p" using z_pos_ok [OF desk_okD(2) [OF d] v] by blast
  have c: "z_order d ! p = ?a" using z_pos_Some [OF p] by simp
  let ?z = "?a # filter (\<lambda>j. j \<noteq> ?a) (z_order d)"
  have e: "cycle_active_window d = activate_top (d\<lparr>z_order := ?z\<rparr>)"
    using moved_order(2) [OF desk_okD(2) [OF d] p] v by (simp add: cycle_active_window_def p c Let_def)
  have dist: "distinct ?vs" using z_ok_distinct [OF desk_okD(2) [OF d]] by (simp add: shown_order_def)
  have "filter (\<lambda>j. j \<noteq> ?a) ?vs = butlast ?vs"
  proof -
    have vs: "?vs = butlast ?vs @ [?a]" using a by simp
    then have "?a \<notin> set (butlast ?vs)" using dist by (metis distinct_append disjoint_iff list.set_intros(1))
    then have "filter (\<lambda>j. j \<noteq> ?a) (butlast ?vs) = butlast ?vs" by (intro filter_True) auto
    then show ?thesis by (subst vs) simp
  qed
  then have f: "filter (shown d) ?z = ?a # butlast ?vs" using sa by (simp add: shown_order_def filter_filter conj_commute)
  have "shown (activate_top (d\<lparr>z_order := ?z\<rparr>)) = shown d" by (auto simp: activate_top_def shown_def fun_eq_iff win_def)
  moreover have "z_order (activate_top (d\<lparr>z_order := ?z\<rparr>)) = ?z" by (simp add: activate_top_def)
  ultimately have s: "shown_order (cycle_active_window d) = ?a # butlast ?vs" "shown (cycle_active_window d) = shown d"
    using f unfolding e shown_order_def by simp_all
  have "shown_order (d\<lparr>z_order := ?z\<rparr>) = ?a # butlast ?vs"
    unfolding shown_order_def [of "d\<lparr>z_order := ?z\<rparr>"] using f by (simp del: filter.simps add: fun_eq_iff cong: filter_cong)
  then have "active_win_idx (cycle_active_window d) = last (?a # butlast ?vs)"
    unfolding e activate_top_eq by simp
  then show ?thesis using s a(2) cycle_ok [OF d] by (simp add: top_is_active_def)
qed

lemma cycles_reach:
  "desk_ok d \<Longrightarrow> top_is_active d \<Longrightarrow> shown_order d = us @ i # vs \<Longrightarrow> active_win_idx ((cycle_active_window ^^ length vs) d) = i"
proof (induction vs arbitrary: d us rule: rev_induct)
  case Nil
  then show ?case by (simp add: top_is_active_def)
next
  case (snoc v vs)
  note c = cycle_rotates [OF snoc.prems(1,2)]
  have "shown_order (cycle_active_window d) = (v # us) @ i # vs" using c snoc.prems(3) by (simp add: butlast_append)
  from snoc.IH [OF _ _ this] c show ?case by (simp add: funpow_swap1)
qed

text \<open>
  C21: Cycling reaches every window: while the topmost shown window is the active one, switching
  tasks at most three times makes any given shown window the active one, and the topmost shown
  window stays the active one.
\<close>

theorem cycle_visits_all:
  assumes d: "desk_ok d" and t: "top_is_active d" and i: "shown d i"
  shows "\<exists>n \<le> 3. active_win_idx ((cycle_active_window ^^ n) d) = i \<and> top_is_active ((cycle_active_window ^^ n) d)"
proof -
  have z: "z_ok (z_order d)" using d by (rule desk_okD)
  have "i \<in> set (shown_order d)" using z i by (auto simp: shown_order_def z_ok_def shown_def valid_idx_cases)
  then obtain us vs where s: "shown_order d = us @ i # vs" using split_list by fastforce
  have "length (shown_order d) \<le> 4" using z length_filter_le [of "shown d" "z_order d"] by (simp add: shown_order_def z_ok_def)
  then have "length vs \<le> 3" using s by simp
  moreover have "desk_ok ((cycle_active_window ^^ n) d) \<and> top_is_active ((cycle_active_window ^^ n) d)" for n
    by (induction n) (use d t cycle_rotates in auto)
  ultimately show ?thesis using cycles_reach [OF d t s] by blast
qed

text \<open>
  Maximizing can be undone: maximizing a window and restoring it gives it back its position
  and size, and changes no other window. While it is maximized no edge of it can be dragged.
\<close>

theorem maximize_restore:
  assumes d: "desk_ok d" and i: "shown d i" and m: "\<not> maximized (win d i)"
  shows "let e = maximize_window now i d in
    maximized (win e i) \<and> hit_resize_zone (win e i) mx my = 0 \<and>
    win_box (win (restore_window now' i e) i) = win_box (win d i) \<and> \<not> maximized (win (restore_window now' i e) i) \<and>
    (\<forall>j. valid_idx j \<and> j \<noteq> i \<longrightarrow> win (restore_window now' i e) j = win d j)"
proof -
  have v: "valid_idx i" "active (win d i)" "\<not> minimized (win d i)" using i by (simp_all add: shown_def)
  have l: "length (dwins d) = 4" using d by (rule desk_okD)
  have rf: "win_box (refresh_window_after_geometry_change t w) = win_box w" "maximized (refresh_window_after_geometry_change t w) = maximized w"
    "active (refresh_window_after_geometry_change t w) = active w" "prev_box (refresh_window_after_geometry_change t w) = prev_box w"
    for t w by (simp_all add: refresh_window_after_geometry_change_def Let_def netsurf_relayout_def place_defs terminal_clamp_v_offset_def)
  have sd: "win_box (stop_drags w) = win_box w" "maximized (stop_drags w) = maximized w" "active (stop_drags w) = active w"
    "prev_box (stop_drags w) = prev_box w" for w by (simp_all add: stop_drags_def place_defs)
  define fm where "fm w = refresh_window_after_geometry_change now (stop_drags (if \<not> maximized w then set_maximized True (remember_box w) else w))" for w
  define fr where "fr w = (let w = w\<lparr>minimized := False\<rparr>; w = (if maximized w then set_maximized False (set_box (prev_box w) w) else w)
                        in refresh_window_after_geometry_change now' (stop_drags w))" for w
  define u where "u = fm (win d i)"
  have u: "maximized u" "active u" "prev_box u = win_box (win d i)"
    using m v(2) by (simp_all add: u_def fm_def rf sd) (simp_all add: set_maximized_def remember_box_def place_defs)
  have e: "maximize_window now i d = upd d i fm" using v by (simp add: maximize_window_def fm_def [abs_def])
  have we: "win (upd d i fm) j = (if j = i then u else win d j)" if "valid_idx j" for j
    using win_upd [OF l v(1) that, of fm] by (simp add: u_def)
  have r: "restore_window now' i (upd d i fm) = upd (upd d i fm) i fr"
    using v(1) u(2) we [OF v(1)] by (simp add: restore_window_def fr_def [abs_def])
  have wr: "win (upd (upd d i fm) i fr) j = (if j = i then fr u else win d j)" if "valid_idx j" for j
    using win_upd [of "upd d i fm" i j fr] l v(1) that we by simp
  have mu: "maximized (u\<lparr>minimized := False\<rparr>)" "prev_box (u\<lparr>minimized := False\<rparr>) = win_box (win d i)"
    using u(1,3) by (simp_all add: maximized_def)
  have bs: "win_box (set_maximized b (set_box c w)) = c" "maximized (set_maximized b (set_box c w)) = b" for b c w
    by (cases c; simp add: set_maximized_def set_box_def place_defs)+
  have ru: "win_box (fr u) = win_box (win d i)" "\<not> maximized (fr u)"
    unfolding fr_def Let_def using mu by (simp_all add: rf sd bs)
  show ?thesis unfolding Let_def e r
    using we [OF v(1)] wr u(1) ru v(1) by (simp add: hit_resize_zone_def)
qed


text \<open>Resizing follows the mouse: the dragged edge moves with it and the opposite one stays, as
  long as the result lies on the screen and is not too small.\<close>

theorem resize_follows_mouse:
  assumes b: "box_ok s" "by' s + bh s \<le> 270" and r: "resized_box dir s dx dy = b'"
    and nb: "dir AND RESIZE_LEFT = 0 \<or> dir AND RESIZE_RIGHT = 0" "dir AND RESIZE_TOP = 0 \<or> dir AND RESIZE_BOTTOM = 0"
    and x: "dir AND RESIZE_LEFT \<noteq> 0 \<Longrightarrow> 0 \<le> bx s + dx \<and> 220 \<le> bw s - dx"
      "dir AND RESIZE_RIGHT \<noteq> 0 \<Longrightarrow> bx s + bw s + dx \<le> 512 \<and> 220 \<le> bw s + dx"
    and y: "dir AND RESIZE_TOP \<noteq> 0 \<Longrightarrow> 0 \<le> by' s + dy \<and> 140 \<le> bh s - dy"
      "dir AND RESIZE_BOTTOM \<noteq> 0 \<Longrightarrow> by' s + bh s + dy \<le> 270 \<and> 140 \<le> bh s + dy"
  shows "bx b' = bx s + (if dir AND RESIZE_LEFT \<noteq> 0 then dx else 0) \<and>
    bx b' + bw b' = bx s + bw s + (if dir AND RESIZE_RIGHT \<noteq> 0 then dx else 0) \<and>
    by' b' = by' s + (if dir AND RESIZE_TOP \<noteq> 0 then dy else 0) \<and>
    by' b' + bh b' = by' s + bh s + (if dir AND RESIZE_BOTTOM \<noteq> 0 then dy else 0)"
proof -
  have h: "clamp_int (fst (resize_near L 220 (bx s) (bw s) dx (resize_far R (bw s) dx))) 0
        (512 - clamp_int (snd (resize_near L 220 (bx s) (bw s) dx (resize_far R (bw s) dx))) 220 512) = bx s + (if L then dx else 0) \<and>
      clamp_int (snd (resize_near L 220 (bx s) (bw s) dx (resize_far R (bw s) dx))) 220 512 =
        bw s + (if R then dx else 0) - (if L then dx else 0)"
    if "\<not> L \<or> \<not> R" "L \<Longrightarrow> 0 \<le> bx s + dx \<and> 220 \<le> bw s - dx" "R \<Longrightarrow> bx s + bw s + dx \<le> 512 \<and> 220 \<le> bw s + dx" for L R
    using that b by (cases L; cases R) (auto simp: resize_near_def resize_far_def clamp_int_def box_ok_def)
  have v: "clamp_int (fst (resize_near T 140 (by' s) (bh s) dy (resize_far B (bh s) dy))) 0
        (270 - clamp_int (snd (resize_near T 140 (by' s) (bh s) dy (resize_far B (bh s) dy))) 140 270) = by' s + (if T then dy else 0) \<and>
      clamp_int (snd (resize_near T 140 (by' s) (bh s) dy (resize_far B (bh s) dy))) 140 270 =
        bh s + (if B then dy else 0) - (if T then dy else 0)"
    if "\<not> T \<or> \<not> B" "T \<Longrightarrow> 0 \<le> by' s + dy \<and> 140 \<le> bh s - dy" "B \<Longrightarrow> by' s + bh s + dy \<le> 270 \<and> 140 \<le> bh s + dy" for T B
    using that b by (cases T; cases B) (auto simp: resize_near_def resize_far_def clamp_int_def box_ok_def)
  have nb': "\<not> dir AND 1 \<noteq> 0 \<or> \<not> dir AND 2 \<noteq> 0" "\<not> dir AND 4 \<noteq> 0 \<or> \<not> dir AND 8 \<noteq> 0" using nb by simp_all
  note H = h [OF nb'(1) x] and V = v [OF nb'(2) y]
  define L R T B where bits: "L = (dir AND 1 \<noteq> 0)" "R = (dir AND 2 \<noteq> 0)" "T = (dir AND 4 \<noteq> 0)" "B = (dir AND 8 \<noteq> 0)"
  obtain nx nw where X: "resize_near L 220 (bx s) (bw s) dx (resize_far R (bw s) dx) = (nx, nw)" by fastforce
  obtain ny nh where Y: "resize_near T 140 (by' s) (bh s) dy (resize_far B (bh s) dy) = (ny, nh)" by fastforce
  note H = H [folded bits, unfolded X fst_conv snd_conv] and V = V [folded bits, unfolded Y fst_conv snd_conv]
  have "clamp_int nx 0 (512 - clamp_int nw 220 512) + clamp_int nw 220 512 = bx s + bw s + (if R then dx else 0)"
    "clamp_int ny 0 (270 - clamp_int nh 140 270) + clamp_int nh 140 270 = by' s + bh s + (if B then dy else 0)"
    using H [THEN conjunct1] H [THEN conjunct2] V [THEN conjunct1] V [THEN conjunct2] by linarith+
  then show ?thesis unfolding r [symmetric] resized_box_def Let_def bits [symmetric] X Y prod.case box.simps
    using H [THEN conjunct1] V [THEN conjunct1] by blast
qed

text \<open>Control-C in a window that is neither a terminal nor a debugger nor a game is not consumed:
  the key stays pending, and no key behind it is ever handled while that window is active.\<close>

lemma ctrl_c_blocks:
  assumes "active_window_valid d" "kind (win d (active_win_idx d)) \<in> {KIND_IMAGE, KIND_EDITOR, KIND_NETSURF}"
  shows "gui_keys x m n KEY_CTRL_C ks d = ((KEY_CTRL_C, ks), d)"
proof (induction n)
  case (Suc n)
  let ?w = "win d (active_win_idx d)"
  have k: "kind ?w \<notin> {2, 3, 6}" "kind ?w \<noteq> 7" "kind ?w \<noteq> 0" using assms(2) by auto
  have c: "KEY_CTRL_C \<noteq> NUL" "window_key (ms_now m) KEY_CTRL_C = None" by (simp_all add: KEY_CTRL_C_def window_key_def)
  have own: "(if gui_ctrl_pressed m then window_key (ms_now m) KEY_CTRL_C else None) = None" using c(2) by simp
  have "plain_key x b (active_win_idx d) KEY_CTRL_C d = (KEY_CTRL_C, d)" for b
    using k(3) by (simp add: plain_key_def gui_ctrl_c_def Let_def kind_def)
  then have "handle_key x m KEY_CTRL_C d = (KEY_CTRL_C, d)"
    unfolding handle_key_def Let_def own option.case using k by simp
  then show ?case using Suc assms(1) c(1) by (simp add: gui_key_pull_next_def)
qed simp

text \<open>The lower half of the desktop (135 pixels) is lower than the smallest height of a window
  (140), so a window that is snapped to it covers 5 pixels of the task bar.\<close>

lemma snap_lower:
  assumes d: "desk_ok d" and i: "shown d i"
  shows "win_box (win (snap_window_by_key now i (CHR 0x11) d) i) = \<lparr>bx = 0, by' = 135, bw = 512, bh = 140\<rparr>"
proof -
  have v: "valid_idx i" and l: "length (dwins d) = 4" using d i by (simp_all add: shown_def desk_ok_def)
  define r where "r w = (if \<not> maximized w then remember_box w else w)" for w
  define f where "f w = refresh_window_after_geometry_change now (stop_drags (set_maximized False
               (set_box \<lparr>bx = 0, by' = 135, bw = 512, bh = 140\<rparr> w)))" for w
  have b: "snap_box (CHR 0x11) = Some \<lparr>bx = 0, by' = 135, bw = 512, bh = 135\<rparr>" by (simp add: snap_box_def Let_def)
  have "snap_window_by_key now i (CHR 0x11) d = upd (upd d i r) i f"
    using i by (simp add: snap_window_by_key_def Let_def b shown_def r_def [abs_def] f_def [abs_def] clamp_int_def)
  moreover have "win (upd (upd d i r) i f) i = f (win (upd d i r) i)" using win_upd [of "upd d i r" i i f] l v by simp
  moreover have "win_box (f w) = \<lparr>bx = 0, by' = 135, bw = 512, bh = 140\<rparr>" for w
    by (simp add: f_def refresh_window_after_geometry_change_def Let_def netsurf_relayout_def terminal_clamp_v_offset_def
        place_defs stop_drags_def set_maximized_def set_box_def)
  ultimately show ?thesis by simp
qed

section \<open>Witnesses\<close>

definition quiet_gext :: gext where
  "quiet_gext = \<lparr>shell = quiet_ext, start_shell = id, ns_input = (\<lambda>w _ _ _. w), jit_mouse_down = (\<lambda>w _ _. w),
     jit_mouse_drag = (\<lambda>w _ _. w), jit_wheel = (\<lambda>w _ _ _ _. w), jit_key = (\<lambda>w _. w), editor_key = (\<lambda>w _. w),
     game_key = (\<lambda>w c. (w, c))\<rparr>"

lemma quiet_gext_ok: "gext_ok quiet_gext"
  by (simp add: gext_ok_def quiet_gext_def ext_ok_def ext_stays_def quiet_ext_def)

definition no_desk :: desk where
  "no_desk = \<lparr>dwins = [], z_order = [], active_win_idx = -1, gui_redraw_needed = False, terminal_clipboard = [], gui_cursor_mode = 0,
     last_click_ms = 0, last_click_idx = -1\<rparr>"

definition still_mouse :: mouse where
  "still_mouse = \<lparr>gui_mx = 100, gui_my = 100, gui_clicked = False, gui_wheel = 0, gui_ctrl_pressed = False, ms_now = 0, sheet = (\<lambda>_ _. 0)\<rparr>"

text \<open>Two frames: a second terminal is opened, and the first key is typed.\<close>

definition two_frames :: "frame_input list" where
  "two_frames = [\<lparr>f_mouse = still_mouse, f_serial = [], f_new = True, f_close = False, f_switch = False, f_click = False,
       f_right_click = False, f_key = NUL, f_keys = []\<rparr>,
     \<lparr>f_mouse = still_mouse, f_serial = [], f_new = False, f_close = False, f_switch = True, f_click = True,
       f_right_click = False, f_key = CHR ''a'', f_keys = []\<rparr>]"


text \<open>Two terminals, the second one on top.\<close>

definition two_windows :: desk where
  "two_windows = no_desk\<lparr>dwins := map (\<lambda>i. (reset_window (int i))\<lparr>tw := (tw (reset_window (int i)))\<lparr>t_active := i < 2, t_x := 10, t_y := 10,
       t_w := 300, t_h := 200\<rparr>\<rparr>) [0 ..< 4], z_order := [2, 3, 0, 1], active_win_idx := 1\<rparr>"

lemma two_windows_win: "valid_idx i \<Longrightarrow> win two_windows i = (reset_window i)\<lparr>tw := (tw (reset_window i))\<lparr>t_active := i < 2, t_x := 10, t_y := 10,
       t_w := 300, t_h := 200\<rparr>\<rparr>"
  by (auto simp: two_windows_def win_def valid_idx_cases upt4)

lemma two_windows_ok: "desk_ok two_windows"
proof -
  have "win_ok (win two_windows i)" if "valid_idx i" for i
    using two_windows_win [OF that] zero_window_ok by (simp add: win_ok_def place_defs box_ok_def reset_window_def)
      (simp add: zero_twin_def fresh_terminal_def)
  then show ?thesis by (auto simp: desk_ok_alt two_windows_def z_ok_def no_desk_def valid_idx_def)
qed

lemma two_windows_shown: "shown two_windows i \<longleftrightarrow> i = 0 \<or> i = 1"
proof (cases "valid_idx i")
  case True
  then show ?thesis using two_windows_win [OF True] by (auto simp: shown_def active_def reset_window_def valid_idx_def)
qed (auto simp: shown_def valid_idx_def)

lemma two_windows_top: "top_is_active two_windows"
proof -
  have "z_order two_windows = [2, 3, 0, 1]" by (simp add: two_windows_def)
  then have "shown_order two_windows = [0, 1]" by (simp add: shown_order_def two_windows_shown)
  then show ?thesis by (simp add: top_is_active_def) (simp add: two_windows_def)
qed

theorem cycle_visits_all_witness:
  "\<exists>n \<le> 3. active_win_idx ((cycle_active_window ^^ n) two_windows) = 0"
  using cycle_visits_all [OF two_windows_ok two_windows_top, of 0] two_windows_shown by blast

theorem maximize_restore_witness:
  "win_box (win (restore_window 5 0 (maximize_window 0 0 two_windows)) 0) = \<lparr>bx = 10, by' = 10, bw = 300, bh = 200\<rparr>"
proof -
  have s: "shown two_windows 0" by (simp add: two_windows_shown)
  have m: "\<not> maximized (win two_windows 0)" "win_box (win two_windows 0) = \<lparr>bx = 10, by' = 10, bw = 300, bh = 200\<rparr>"
    using two_windows_win [of 0] by (simp_all add: valid_idx_def maximized_def win_box_def reset_window_def zero_twin_def fresh_terminal_def)
  show ?thesis using maximize_restore [OF two_windows_ok s m(1), of 0 0 0 5] m(2) unfolding Let_def by simp
qed

theorem resize_follows_mouse_witness:
  "resized_box 1 \<lparr>bx = 10, by' = 10, bw = 300, bh = 200\<rparr> 20 7 = \<lparr>bx = 30, by' = 10, bw = 280, bh = 200\<rparr>"
proof -
  let ?b = "resized_box 1 \<lparr>bx = 10, by' = 10, bw = 300, bh = 200\<rparr> 20 7"
  have "bx ?b = 30 \<and> bx ?b + bw ?b = 310 \<and> by' ?b = 10 \<and> by' ?b + bh ?b = 210"
    using resize_follows_mouse [of "\<lparr>bx = 10, by' = 10, bw = 300, bh = 200\<rparr>" 1 20 7 ?b] by (simp add: box_ok_def)
  then show ?thesis by (cases ?b) auto
qed

end
