(* ===== verification/ShellText.thy ===== *)
theory ShellText
  imports Lib Clock FsPath Alloc
begin

text \<open>
  Text output of the command interpreter \<open>vibeos/user_cmd.c\<close>: numbers, sizes and dumps, the rows
  of a directory listing, and the command \<open>mem\<close>, which shows the kernel's memory.

  \<open>out\<close> is the text in the window's output buffer of \<open>OUT_BUF_SIZE\<close> = 2048 bytes. Memory is a
  partial function: reading an address that is not mapped is a fault, \<open>None\<close>. The linker symbols
  and the state of the JIT heaps (\<open>vibeos/runtime/jit/tcc_glue.c\<close>) are arguments.
\<close>

section \<open>Numbers and sizes\<close>

abbreviation NL :: char where "NL \<equiv> CHR 0x0A"

abbreviation (input) OUT_BUF_SIZE :: nat where "OUT_BUF_SIZE \<equiv> 2048"

definition append_hex32 :: "string \<Rightarrow> u32 \<Rightarrow> string" where
  "append_hex32 dst v = dst @ ''0x'' @ map (\<lambda>i. hex_digit (ucast (drop_bit (28 - i * 4) v))) [0 ..< 8]"

definition append_hex8 :: "string \<Rightarrow> u8 \<Rightarrow> string" where
  "append_hex8 dst v = dst @ [hex_digit (drop_bit 4 v), hex_digit v]"

definition format_size_human :: "u32 \<Rightarrow> string" where
  "format_size_human bytes =
     (let (unit, whole, frac) =
        (if bytes \<ge> 1073741824 then (''GB'', bytes div 1073741824, (bytes mod 1073741824) * 10 div 1073741824)
         else if bytes \<ge> 1048576 then (''MB'', bytes div 1048576, (bytes mod 1048576) * 10 div 1048576)
         else if bytes \<ge> 1024 then (''KB'', bytes div 1024, (bytes mod 1024) * 10 div 1024)
         else (''B'', bytes, 0));
      out = lib_itoa whole;
      out = (if hd unit \<noteq> CHR ''B'' then out @ [CHR ''.'', b2c (48 + ucast frac)] else out)
      in lib_strcat out unit)"

definition is_mostly_text :: "u8 list \<Rightarrow> bool" where
  "is_mostly_text buf =
     (let sz = of_nat (length buf) :: u32;
          good = of_nat (length (filter (\<lambda>c. c \<ge> 32 \<and> c \<le> 126 \<or> c = 10 \<or> c = 13 \<or> c = 9) buf)) :: u32
      in sz = 0 \<or> good * 100 \<ge> sz * 85)"

text \<open>The rows of \<open>render_hex_dump\<close>: 16 bytes each, at most 128 bytes.\<close>

definition dump_row :: "u8 list \<Rightarrow> nat \<Rightarrow> nat \<Rightarrow> string \<Rightarrow> string" where
  "dump_row buf limit i out =
     (let out = lib_strcat (lib_strcat out (append_hex32 [] (of_nat i))) '': '';
          out = fold (\<lambda>j out. lib_strcat (append_hex8 out (buf ! (i + j))) '' '') [0 ..< min 16 (limit - i)] out
      in if i + 16 < limit then lib_strcat out [NL] else out)"

function dump_rows :: "u8 list \<Rightarrow> nat \<Rightarrow> nat \<Rightarrow> string \<Rightarrow> string" where
  "dump_rows buf limit i out =
     (if i < limit then dump_rows buf limit (i + 16) (dump_row buf limit i out) else out)"
  by pat_completeness auto
termination by (relation "measure (\<lambda>(buf, limit, i, out). limit - i)") auto

declare dump_rows.simps [simp del]

definition render_hex_dump :: "u8 list \<Rightarrow> string" where
  "render_hex_dump buf =
     (let limit = min (length buf) 128;
          out = dump_rows buf limit 0 []
      in if length buf > limit then lib_strcat out (NL # ''...'') else out)"

section \<open>File names\<close>

definition copy_range_str :: "nat \<Rightarrow> string \<Rightarrow> string" where
  "copy_range_str dst_size chars = take (dst_size - 1) chars"

text \<open>The scan of \<open>derive_filename_from_path\<close>: the rest at \<open>name\<close> and the rest at the end.\<close>

fun scan_name :: "string \<Rightarrow> string \<Rightarrow> string \<times> string" where
  "scan_name [] name = (name, [])"
| "scan_name (c # p) name =
     (if c = CHR ''/'' then scan_name p p
      else if c = CHR ''?'' \<or> c = CHR ''#'' then (name, c # p)
      else scan_name p name)"

definition derive_filename_from_path :: "string \<Rightarrow> nat \<Rightarrow> string" where
  "derive_filename_from_path path out_size =
     (let (name, p) = scan_name path path in
      if name = [] then ''index.html''
      else copy_range_str out_size (take (length name - length p) name))"

definition path_is_sd_root :: "string \<Rightarrow> bool" where
  "path_is_sd_root path \<longleftrightarrow> strcmp path ''sd'' = 0 \<or> strcmp path ''/sd'' = 0 \<or> strcmp path ''/sd/'' = 0 \<or>
     strcmp path ''./sd'' = 0 \<or> strcmp path ''./sd/'' = 0"

section \<open>Rows of a listing\<close>

definition str_starts_with :: "string \<Rightarrow> string \<Rightarrow> bool" where
  "str_starts_with s pre \<longleftrightarrow> take (length pre) s = pre"

definition entry_row :: "mem8 \<Rightarrow> nat \<Rightarrow> string" where
  "entry_row db i = take 63 (''  '' @ [if e_type db i = 1 then CHR ''d'' else CHR ''f''] @ '' '' @ e_name db i @ [NL])"

text \<open>The two passes over the entries; the flag tells that the listing stopped for want of room.\<close>

fun dir_rows :: "mem8 \<Rightarrow> string \<Rightarrow> int \<Rightarrow> u16 \<Rightarrow> nat list \<Rightarrow> string \<times> bool \<Rightarrow> (string \<times> bool) \<times> bool" where
  "dir_rows db name_prefix type_filter want_type [] (out, printed) = ((out, printed), False)"
| "dir_rows db name_prefix type_filter want_type (i # is) (out, printed) =
     (if e_free db i \<or> (type_filter \<noteq> -1 \<and> uint (e_type db i) \<noteq> type_filter) \<or> e_type db i \<noteq> want_type \<or>
         (name_prefix \<noteq> [] \<and> \<not> str_starts_with (e_name db i) name_prefix)
      then dir_rows db name_prefix type_filter want_type is (out, printed)
      else if length out + length (entry_row db i) < OUT_BUF_SIZE - 2
      then dir_rows db name_prefix type_filter want_type is (lib_strcat out (entry_row db i), True)
      else ((out, printed), True))"

definition append_dir_entries_sorted :: "mem8 \<Rightarrow> string \<Rightarrow> string \<Rightarrow> int \<Rightarrow> string" where
  "append_dir_entries_sorted db title name_prefix type_filter =
     (case dir_rows db name_prefix type_filter 1 [0 ..< MAX_DIR_ENTRIES] (title, False) of
        ((out, _), True) \<Rightarrow> out
      | ((out, printed), False) \<Rightarrow>
        (case dir_rows db name_prefix type_filter 0 [0 ..< MAX_DIR_ENTRIES] (out, printed) of
           ((out, _), True) \<Rightarrow> out
         | ((out, printed), False) \<Rightarrow> if \<not> printed then lib_strcat out '' (empty)'' else out))"

definition mount_row :: "bool \<Rightarrow> string \<Rightarrow> string" where
  "mount_row all name =
     (let row = (if all then
            let r = append_out_pad [] 128 ''drwx'' 5; r = append_out_str r 128 '' '';
                r = append_out_pad r 128 ''virt'' 8; r = append_out_str r 128 '' '';
                r = append_out_pad r 128 ''-'' 19; r = append_out_str r 128 '' ''
            in append_out_str r 128 name
          else lib_strcpy (''d '' @ name))
      in append_out_str row 128 [NL])"

definition add_mount_row :: "bool \<Rightarrow> string \<Rightarrow> string \<times> bool \<Rightarrow> string \<times> bool" where
  "add_mount_row all name st =
     (let (out, printed) = st; row = mount_row all name in
      if length out + length row < OUT_BUF_SIZE - 2 then (lib_strcat out row, True) else (out, printed))"

definition append_virtual_mount_entries :: "bool \<Rightarrow> bool \<Rightarrow> string \<Rightarrow> bool \<Rightarrow> string \<times> bool" where
  "append_virtual_mount_entries show_mounts all out printed =
     (if \<not> show_mounts then (out, printed)
      else add_mount_row all ''sftpd'' (add_mount_row all ''sd'' (out, printed)))"

text \<open>
  The line of one file. The width modifiers of the long format are not understood by the
  kernel's \<open>snprintf\<close>, which prints \<open>%5\<close> and goes on with the character \<open>s\<close>.
\<close>

definition append_single_entry_line :: "mem8 \<Rightarrow> nat \<Rightarrow> bool \<Rightarrow> string option" where
  "append_single_entry_line db i all =
     (let kind = (if e_type db i = 1 then ''d'' else ''f'') in
      if all then
        map_option fst (snprintf 128 (''%5s %8s %8s %s %s'' @ [NL])
          [VStr (Some (mode_to_str (ucast (e_mode db i)) (e_type db i))),
           VStr (Some (format_size_human (of_nat (e_size db i)))),
           VStr (Some (format_hms (e_mtime db i))), VStr (Some kind),
           VStr (Some (copy_name20 (e_name db i)))])
      else map_option fst (snprintf 64 (''  %c %s'' @ [NL])
          [VInt (ucast (c2b (hd kind))), VStr (Some (e_name db i))]))"

section \<open>The command mem\<close>

text \<open>
  Linker symbols, the state that \<open>mem\<close> reports and the memory itself: \<open>ki_uheaps\<close> are the
  block headers (magic, free, size) in the heap of each JIT job, in the order of the chain, and
  \<open>ki_app_heap\<close> is \<open>loaded_app_heap_lo\<close>, \<open>..._hi\<close> and \<open>..._cur\<close>.
\<close>

record kinfo =
  text_start :: u32
  text_end :: u32
  rodata_start :: u32
  rodata_end :: u32
  data_start :: u32
  data_end :: u32
  bss_start :: u32
  bss_end :: u32
  app_start :: u32
  app_end :: u32
  app_size :: u32
  ki_heap :: heap
  uheap_base :: u32
  ki_uheaps :: "(u32 \<times> bool \<times> u32) list list"
  ki_app_heap :: "u32 \<times> u32 \<times> u32"
  ki_mem :: "u32 \<rightharpoonup> u8"

abbreviation (input) JIT_UHEAP_MAGIC :: u32 where "JIT_UHEAP_MAGIC \<equiv> 0x55484d30"
abbreviation (input) JIT_UHEAP_SIZE :: u32 where "JIT_UHEAP_SIZE \<equiv> 1048576"
abbreviation (input) JIT_MAX_JOBS :: u32 where "JIT_MAX_JOBS \<equiv> 1"

text \<open>\<open>jit_uheap_info\<close>: base, size, used bytes, free bytes, blocks; a bad header ends its chain.\<close>

definition jit_uheap_info :: "kinfo \<Rightarrow> u32 \<times> u32 \<times> u32 \<times> u32 \<times> u32" where
  "jit_uheap_info k =
     (let bs = concat (map (takeWhile (\<lambda>(magic, _, _). magic = JIT_UHEAP_MAGIC)) (ki_uheaps k))
      in (uheap_base k, JIT_UHEAP_SIZE * JIT_MAX_JOBS,
          sum_list (map (\<lambda>(_, fr, n). if fr then 0 else n) bs),
          sum_list (map (\<lambda>(_, fr, n). if fr then n else 0) bs), of_nat (length bs)))"

definition out_append :: "string \<Rightarrow> string \<Rightarrow> string" where
  "out_append out s = out @ take (OUT_BUF_SIZE - 1 - length out) s"

definition hex_value :: "char \<Rightarrow> u32 option" where
  "hex_value c =
     (if CHR ''0'' \<le> c \<and> c \<le> CHR ''9'' then Some (ucast (c2b c) - 48)
      else if CHR ''a'' \<le> c \<and> c \<le> CHR ''f'' then Some (ucast (c2b c) - 97 + 10)
      else if CHR ''A'' \<le> c \<and> c \<le> CHR ''F'' then Some (ucast (c2b c) - 65 + 10)
      else None)"

fun hex_loop :: "string \<Rightarrow> u32 \<Rightarrow> bool \<Rightarrow> u32 \<times> bool \<times> string" where
  "hex_loop [] v seen = (v, seen, [])"
| "hex_loop (c # s) v seen =
     (case hex_value c of None \<Rightarrow> (v, seen, c # s) | Some d \<Rightarrow> hex_loop s (push_bit 4 v OR d) True)"

definition parse_hex_u32 :: "string \<Rightarrow> (u32 \<times> string) option" where
  "parse_hex_u32 s =
     (let s = dropWhile is_blank s;
          s = (if char_at s 0 = CHR ''0'' \<and> (char_at s 1 = CHR ''x'' \<or> char_at s 1 = CHR ''X'') then drop 2 s else s);
          (v, seen, s) = hex_loop s 0 False
      in if \<not> seen then None else Some (v, s))"

definition mem_range_safe :: "kinfo \<Rightarrow> u32 \<Rightarrow> u32 \<Rightarrow> bool" where
  "mem_range_safe k addr len \<longleftrightarrow>
     len \<noteq> 0 \<and> \<not> addr + len < addr \<and> addr \<ge> text_start k \<and> addr + len \<le> app_end k"

text \<open>\<open>snprintf\<close> into a row, then \<open>out_append\<close>.\<close>

definition add_row :: "nat \<Rightarrow> string \<Rightarrow> va list \<Rightarrow> string \<Rightarrow> string option" where
  "add_row n fmt args out = map_option (\<lambda>(row, _). out_append out row) (snprintf n fmt args)"

definition mem_append_map :: "kinfo \<Rightarrow> string option" where
  "mem_append_map k =
     (let (kstart, kend) = kernel_heap_range_info (ki_heap k);
          (ub, us, uu, uf, ublk) = jit_uheap_info k;
          (lo, hi, cur) = ki_app_heap k
      in Option.bind (add_row 160
            (''Memory map:'' @ [NL] @ ''text   %x-%x'' @ [NL] @ ''rodata %x-%x'' @ [NL] @ ''data   %x-%x'' @ [NL] @ ''bss    %x-%x'' @ [NL])
            [VInt (text_start k), VInt (text_end k), VInt (rodata_start k), VInt (rodata_end k),
             VInt (data_start k), VInt (data_end k), VInt (bss_start k), VInt (bss_end k)] []) (\<lambda>out.
         Option.bind (add_row 160 (''kheap  %x-%x size=%uKB'' @ [NL])
            [VInt kstart, VInt kend, VInt ((kend - kstart) div 1024)] out) (\<lambda>out.
         Option.bind (add_row 160 (''uheap  %x-%x used=%uKB free=%uKB blocks=%u'' @ [NL])
            [VInt ub, VInt (ub + us), VInt (uu div 1024), VInt (uf div 1024), VInt ublk] out) (\<lambda>out.
         Option.bind (add_row 160 (''app    %x-%x size=%uKB'' @ [NL])
            [VInt (app_start k), VInt (app_end k), VInt (app_size k div 1024)] out) (\<lambda>out.
         if hi > lo then add_row 160 (''appheap %x-%x cur=%x'' @ [NL]) [VInt lo, VInt hi, VInt cur] out
         else Some out)))))"

text \<open>The columns of one row of \<open>mem_dump_range\<close>: the bytes in hexadecimal and as text.\<close>

definition byte_cols :: "u8 list \<Rightarrow> string" where
  "byte_cols bs = concat (map (\<lambda>c. [hex_digit (drop_bit 4 c), hex_digit (c AND 15), CHR '' '']) bs) @
     concat (replicate (16 - length bs) ''   '')"

definition text_cols :: "u8 list \<Rightarrow> string" where
  "text_cols bs = map (\<lambda>c. if c \<ge> 32 \<and> c < 127 then b2c c else CHR ''.'') bs @ replicate (16 - length bs) (CHR '' '')"

definition read_mem :: "(u32 \<rightharpoonup> u8) \<Rightarrow> u32 \<Rightarrow> nat \<Rightarrow> u8 list option" where
  "read_mem m a n = those (map (\<lambda>i. m (a + of_nat i)) [0 ..< n])"

function mem_rows :: "(u32 \<rightharpoonup> u8) \<Rightarrow> u32 \<Rightarrow> nat \<Rightarrow> nat \<Rightarrow> string \<Rightarrow> string option" where
  "mem_rows m addr len off out =
     (if off < len then
        case read_mem m (addr + of_nat off) (min (len - off) 16) of
          None \<Rightarrow> None
        | Some bs \<Rightarrow>
          (case add_row 128 (''%x: %s |%s|'' @ [NL])
              [VInt (addr + of_nat off), VStr (Some (byte_cols bs)), VStr (Some (text_cols bs))] out of
             None \<Rightarrow> None
           | Some out \<Rightarrow> mem_rows m addr len (off + 16) out)
      else Some out)"
  by pat_completeness auto
termination by (relation "measure (\<lambda>(m, addr, len, off, out). len - off)") auto

declare mem_rows.simps [simp del]

definition mem_dump_range :: "kinfo \<Rightarrow> u32 \<Rightarrow> u32 \<Rightarrow> string option" where
  "mem_dump_range k addr len =
     (let len = (if len = 0 then 128 else len); len = (if len > 256 then 256 else len) in
      if \<not> mem_range_safe k addr len
      then map_option fst (snprintf OUT_BUF_SIZE
             (''ERR: unsafe range %x + %u. Use '' @ [CHR 0x27] @ ''mem map'' @ [CHR 0x27] @ '' first.'') [VInt addr, VInt len])
      else mem_rows (ki_mem k) addr (unat len) 0 [])"

text \<open>A word at the start of a command: the text after it, when a blank or the end follows.\<close>

definition after_word :: "string \<Rightarrow> string \<Rightarrow> string option" where
  "after_word kw s =
     (if strncmp s kw (length kw) = 0 \<and> (char_at s (length kw) = NUL \<or> char_at s (length kw) = CHR '' '')
      then Some (drop (length kw) s) else None)"

text \<open>The address of \<open>mem view\<close> and the text after it.\<close>

definition view_address :: "kinfo \<Rightarrow> string \<Rightarrow> (u32 \<times> string) option" where
  "view_address k arg =
     (case after_word ''kheap'' arg of Some rest \<Rightarrow> Some (fst (kernel_heap_range_info (ki_heap k)), rest) | None \<Rightarrow>
      case after_word ''uheap'' arg of Some rest \<Rightarrow> Some (fst (jit_uheap_info k), rest) | None \<Rightarrow>
      case after_word ''app'' arg of Some rest \<Rightarrow> Some (app_start k, rest) | None \<Rightarrow> parse_hex_u32 arg)"

definition mem_view :: "kinfo \<Rightarrow> string \<Rightarrow> string option" where
  "mem_view k arg =
     (let arg = dropWhile is_blank arg in
      if arg = [] then Some ''usage: mem view <hex_addr|kheap|uheap|app> [len<=256]''
      else case view_address k arg of
          None \<Rightarrow> Some ''ERR: bad address. Example: mem view 80000000 128''
        | Some (addr, arg) \<Rightarrow>
            let arg = dropWhile is_blank arg;
                len = (if arg \<noteq> [] \<and> 0 <s atoi arg then atoi arg else 128);
                len = (if len > 256 then 256 else len)
            in mem_dump_range k addr len)"

definition mem_summary :: "kinfo \<Rightarrow> string option" where
  "mem_summary k =
     (let (all_pg, used, free_pg, m_calls, f_calls) = mem_usage_info (ki_heap k);
          (ub, us, uu, uf, ublk) = jit_uheap_info k
      in map_option fst (snprintf OUT_BUF_SIZE
           (''RAM: total=%uKB, used=%uKB, free=%uKB'' @ [NL] @ ''Activity: malloc=%u, free=%u'' @ [NL] @
            ''JIT uheap: base=%x size=%uKB used=%uKB free=%uKB blocks=%u'')
           [VInt (all_pg * 4), VInt (used * 4), VInt (free_pg * 4), VInt m_calls, VInt f_calls,
            VInt ub, VInt (us div 1024), VInt (uu div 1024), VInt (uf div 1024), VInt ublk]))"

definition exec_mem_cmd :: "kinfo \<Rightarrow> string \<Rightarrow> string option" where
  "exec_mem_cmd k arg =
     (let arg = dropWhile is_blank arg in
      if arg = [] then mem_summary k
      else if strcmp arg ''h'' = 0 \<or> strcmp arg ''-h'' = 0
      then Some ''usage: mem | mem map | mem view <hex_addr|kheap|uheap|app> [len<=256]''
      else if after_word ''map'' arg \<noteq> None then mem_append_map k
      else case after_word ''view'' arg of
          Some rest \<Rightarrow> mem_view k rest
        | None \<Rightarrow> Some ''ERR: mem | mem map | mem view <addr> [len]'')"

text \<open>The first command handler: nothing when the command is another one.\<close>

definition cmd_handle_mem :: "kinfo \<Rightarrow> string \<Rightarrow> string option option" where
  "cmd_handle_mem k cmd = map_option (exec_mem_cmd k) (after_word ''mem'' cmd)"

section \<open>Reading back hexadecimal numbers\<close>

lemma fifteen_mask: "(15 :: u8) = mask 4" "(15 :: u32) = mask 4"
  by (simp_all add: mask_eq_exp_minus_1)

lemma hex_value_nat: "k < 16 \<Longrightarrow> hex_value (hex_digit (of_nat k)) = Some (of_nat k)"
  by (drule nat_lt_16_cases) (auto simp: hex_digit_def hex_value_def less_eq_char_def c2b_def)

lemma hex_value_digit: "hex_value (hex_digit b) = Some (ucast (b AND 15))"
proof -
  have b: "hex_digit b = hex_digit (b AND 15)" by (simp add: hex_digit_def)
  have "b AND 15 = of_nat (unat (b AND 15))" by simp
  moreover have "unat (b AND 15) < 16"
  proof -
    have "b AND 15 = take_bit 4 b" by (simp add: fifteen_mask take_bit_eq_mask)
    then have "b AND 15 = b mod 16" by (simp add: take_bit_eq_mod)
    then show ?thesis using unat_mod [of b 16] by (simp only:) simp
  qed
  ultimately show ?thesis using hex_value_nat [of "unat (b AND 15)"] b
    by (simp add: of_nat_unat)
qed

lemma nibble_step:
  assumes "i < 8"
  shows "push_bit 4 (drop_bit (32 - i * 4) v) OR ucast ((ucast (drop_bit (28 - i * 4) v) :: u8) AND 15) =
    (drop_bit (32 - Suc i * 4) (v :: u32))"
proof (rule bit_word_eqI)
  fix n assume n: "n < LENGTH(32)"
  have m: "bit (15 :: u8) n \<longleftrightarrow> n < 4" "bit (15 :: u32) n \<longleftrightarrow> n < 4"
    by (auto simp add: fifteen_mask bit_mask_iff)
  show "bit (push_bit 4 (drop_bit (32 - i * 4) v) OR ucast ((ucast (drop_bit (28 - i * 4) v) :: u8) AND 15)) n =
    bit (drop_bit (32 - Suc i * 4) v) n"
  proof (cases "n < 4")
    case True
    then show ?thesis using assms m by (simp add: bit_simps)
  next
    case False
    moreover have "32 - i * 4 + (n - 4) = 32 - Suc i * 4 + n" using False assms by simp
    ultimately show ?thesis using n m by (simp add: bit_simps)
  qed
qed

lemma hex_loop_digits:
  "i < 8 \<Longrightarrow> hex_loop (map (\<lambda>i. hex_digit (ucast (drop_bit (28 - i * 4) v))) [i ..< 8] @ rest)
     (drop_bit (32 - i * 4) v) seen = hex_loop rest (v :: u32) True"
proof (induction "8 - i" arbitrary: i seen)
  case (Suc n)
  have "[i ..< 8] = i # [Suc i ..< 8]" using Suc.prems by (simp add: upt_conv_Cons)
  moreover have "hex_loop (map (\<lambda>i. hex_digit (ucast (drop_bit (28 - i * 4) v))) [Suc i ..< 8] @ rest)
     (drop_bit (32 - Suc i * 4) v) True = hex_loop rest v True"
    using Suc.hyps(1) [of "Suc i" True] Suc.hyps(2) by (cases "Suc i < 8") auto
  ultimately show ?case using nibble_step [OF Suc.prems, of v] by (simp add: hex_value_digit)
qed simp

lemma hex32_read:
  assumes "rest = [] \<or> hex_value (hd rest) = None"
  shows "parse_hex_u32 (append_hex32 [] v @ rest) = Some (v, rest)"
proof -
  define ds where "ds = map (\<lambda>i. hex_digit (ucast (drop_bit (28 - i * 4) v))) [0 ..< 8]"
  have "hex_loop (ds @ rest) (drop_bit 32 v) False = hex_loop rest v True"
    using hex_loop_digits [of 0 v rest False] by (simp add: ds_def)
  moreover have "drop_bit 32 v = 0" by (rule bit_word_eqI) (simp add: bit_simps)
  moreover have "hex_loop rest v True = (v, True, rest)" using assms by (cases rest) auto
  ultimately have "hex_loop (ds @ rest) 0 False = (v, True, rest)" by simp
  then show ?thesis by (simp add: parse_hex_u32_def append_hex32_def is_blank_def flip: ds_def)
qed

text \<open>
  A 32-bit address the shell prints in hexadecimal, followed by a text that does not start
  with a hexadecimal digit, is read back as the same address and the same following text, so the
  addresses of a dump or of the memory map can be given to \<open>mem view\<close>.
\<close>

theorem hex_address_roundtrip:
  "rest = [] \<or> hex_value (hd rest) = None \<Longrightarrow> parse_hex_u32 (append_hex32 [] v @ rest) = Some (v, rest)"
  by (rule hex32_read)

theorem hex_address_roundtrip_witness:
  "parse_hex_u32 (append_hex32 [] 0x80001000 @ '' 16'') = Some (0x80001000, '' 16'')"
  using hex_address_roundtrip [of "'' 16''" "0x80001000"] by (simp add: hex_value_def less_eq_char_def)

section \<open>Output stays in the buffer\<close>

lemma snprintf_fits: "snprintf n fmt args = Some (t, k) \<Longrightarrow> length t \<le> n - 1"
proof -
  assume s: "snprintf n fmt args = Some (t, k)"
  obtain r where "\<forall>n full. vsn n fmt args (cut n full) = map_option (\<lambda>e. cut n (full @ e)) r"
    using vsn_cut [of fmt args] by blast
  then have "vsn n fmt args (cut n []) = map_option (cut n) r" by simp
  then show ?thesis using s by (auto simp: snprintf_def lib_vsnprintf_def cut_def)
qed

lemma out_append_fits: "length out \<le> 2047 \<Longrightarrow> length (out_append out s) \<le> 2047"
  by (simp add: out_append_def)

lemma add_row_fits: "length out \<le> 2047 \<Longrightarrow> add_row n fmt args out = Some out' \<Longrightarrow> length out' \<le> 2047"
  by (auto simp: add_row_def intro: out_append_fits)

lemma those_Some: "\<forall>x \<in> set xs. x \<noteq> None \<Longrightarrow> those xs = Some (map the xs)"
  by (induction xs) (auto split: option.splits)

lemma snprintf_dump_row:
  "\<exists>t. snprintf n (''%x: %s |%s|'' @ [NL]) [VInt a, VStr (Some s), VStr (Some t')] = Some t"
  by (simp add: snprintf_def lib_vsnprintf_def conversion_def arg_int_def)

lemma mem_rows_safe:
  assumes mapped: "\<forall>i < len. m (addr + of_nat i) \<noteq> None" and out: "length out \<le> 2047"
  shows "\<exists>out'. mem_rows m addr len off out = Some out' \<and> length out' \<le> 2047"
  using out
proof (induction "len - off" arbitrary: off out rule: less_induct)
  case less
  show ?case
  proof (cases "off < len")
    case False
    then show ?thesis using less.prems by (subst mem_rows.simps) simp
  next
    case True
    define a where "a = addr + of_nat off"
    define n where "n = min (len - off) 16"
    have "m (a + of_nat i) \<noteq> None" if "i < n" for i
      using mapped that True unfolding a_def n_def
      by (metis add.assoc add.commute less_diff_conv min_less_iff_conj of_nat_add)
    then obtain bs where bs: "read_mem m a n = Some bs"
      using those_Some [of "map (\<lambda>i. m (a + of_nat i)) [0 ..< n]"] by (auto simp: read_mem_def)
    obtain out1 where row: "add_row 128 (''%x: %s |%s|'' @ [NL])
        [VInt a, VStr (Some (byte_cols bs)), VStr (Some (text_cols bs))] out = Some out1"
      using snprintf_dump_row [of 128 a "byte_cols bs" "text_cols bs"] by (auto simp: add_row_def)
    have "mem_rows m addr len off out = mem_rows m addr len (off + 16) out1"
      using True bs row by (subst mem_rows.simps) (simp add: a_def n_def)
    moreover have "length out1 \<le> 2047" using add_row_fits [OF less.prems row] .
    ultimately show ?thesis using less.hyps [of "off + 16" out1] True by simp
  qed
qed

lemma safe_range_mapped:
  assumes safe: "mem_range_safe k addr len" and mapped: "\<forall>a. text_start k \<le> a \<and> a < app_end k \<longrightarrow> ki_mem k a \<noteq> None"
    and i: "i < unat len"
  shows "ki_mem k (addr + of_nat i) \<noteq> None"
proof -
  have u: "unat (addr + len) = unat addr + unat len"
    using safe unat_plus_simple [of addr len] word_le_nat_alt [of addr "addr + len"]
    by (simp add: mem_range_safe_def not_less)
  have "unat (addr + len) < 2 ^ 32" using unsigned_less [of "addr + len"] by simp
  then have "unat addr + i < 2 ^ 32" using u i by simp
  then have "unat (addr + of_nat i) = unat addr + i" using i unsigned_less [of len]
    by (simp add: unat_word_ariths unat_of_nat_u32)
  then have "text_start k \<le> addr + of_nat i" "addr + of_nat i < app_end k"
    using safe u i by (auto simp: mem_range_safe_def word_le_nat_alt word_less_nat_alt)
  then show ?thesis using mapped by blast
qed

lemma mem_dump_safe:
  assumes "\<forall>a. text_start k \<le> a \<and> a < app_end k \<longrightarrow> ki_mem k a \<noteq> None"
  shows "\<exists>out. mem_dump_range k addr len = Some out \<and> length out \<le> 2047"
proof -
  define n where "n = (let l = (if len = 0 then 128 else len) in if l > 256 then 256 else l)"
  show ?thesis
  proof (cases "mem_range_safe k addr n")
    case True
    have "\<exists>out. mem_rows (ki_mem k) addr (unat n) 0 [] = Some out \<and> length out \<le> 2047"
      by (rule mem_rows_safe) (use safe_range_mapped [OF True assms] in auto)
    then show ?thesis using True by (simp add: mem_dump_range_def n_def Let_def)
  next
    case False
    obtain r where r: "snprintf 2048 (''ERR: unsafe range %x + %u. Use '' @ [CHR 0x27] @ ''mem map'' @ [CHR 0x27] @ '' first.'')
        [VInt addr, VInt n] = Some r"
      by (simp add: snprintf_def lib_vsnprintf_def conversion_def arg_int_def)
    then show ?thesis using False snprintf_fits [of 2048 _ "[VInt addr, VInt n]" "fst r" "snd r"]
      by (simp add: mem_dump_range_def n_def Let_def)
  qed
qed

lemma add_row_total:
  "snprintf n fmt args \<noteq> None \<Longrightarrow> length out \<le> 2047 \<Longrightarrow>
   \<exists>out'. add_row n fmt args out = Some out' \<and> length out' \<le> 2047"
  by (auto simp: add_row_def intro: out_append_fits)

lemmas format_simps = snprintf_def lib_vsnprintf_def conversion_def arg_int_def

lemma bind_row:
  assumes "snprintf n fmt args \<noteq> None" "length out \<le> 2047"
    "\<And>out. length out \<le> 2047 \<Longrightarrow> \<exists>r. f out = Some r \<and> length r \<le> 2047"
  shows "\<exists>r. Option.bind (add_row n fmt args out) f = Some r \<and> length r \<le> 2047"
  using add_row_total [OF assms(1,2)] assms(3) by auto

lemma mem_map_safe: "\<exists>out. mem_append_map k = Some out \<and> length out \<le> 2047"
proof -
  obtain ks ke where kh: "kernel_heap_range_info (ki_heap k) = (ks, ke)" by force
  obtain ub us uu uf ublk where uh: "jit_uheap_info k = (ub, us, uu, uf, ublk)" by (metis prod_cases5)
  obtain lo hi cur where ah: "ki_app_heap k = (lo, hi, cur)" by (metis prod_cases3)
  have row5: "\<exists>r. (if hi > lo then add_row 160 (''appheap %x-%x cur=%x'' @ [NL]) [VInt lo, VInt hi, VInt cur] out
      else Some out) = Some r \<and> length r \<le> 2047" if "length out \<le> 2047" for out
    using add_row_total [of 160 "''appheap %x-%x cur=%x'' @ [NL]" "[VInt lo, VInt hi, VInt cur]" out] that
    by (simp add: format_simps)
  show ?thesis
    unfolding mem_append_map_def kh uh ah Let_def prod.case
    by (intro bind_row row5) (simp_all add: format_simps)
qed

lemma mem_summary_safe: "\<exists>out. mem_summary k = Some out \<and> length out \<le> 2047"
proof -
  obtain a b c d e where mu: "mem_usage_info (ki_heap k) = (a, b, c, d, e)" by (metis prod_cases5)
  obtain ub us uu uf ublk where uh: "jit_uheap_info k = (ub, us, uu, uf, ublk)" by (metis prod_cases5)
  obtain r where "snprintf 2048
       (''RAM: total=%uKB, used=%uKB, free=%uKB'' @ [NL] @ ''Activity: malloc=%u, free=%u'' @ [NL] @
        ''JIT uheap: base=%x size=%uKB used=%uKB free=%uKB blocks=%u'')
       [VInt (a * 4), VInt (b * 4), VInt (c * 4), VInt d, VInt e,
        VInt ub, VInt (us div 1024), VInt (uu div 1024), VInt (uf div 1024), VInt ublk] = Some r"
    by (simp add: format_simps)
  then show ?thesis using snprintf_fits [of 2048 _ _ "fst r" "snd r"]
    by (simp add: mem_summary_def mu uh)
qed

lemma mem_view_safe:
  assumes "\<forall>a. text_start k \<le> a \<and> a < app_end k \<longrightarrow> ki_mem k a \<noteq> None"
  shows "\<exists>out. mem_view k arg = Some out \<and> length out \<le> 2047"
  using mem_dump_safe [OF assms] by (auto simp: mem_view_def Let_def split: option.splits)

lemma exec_mem_safe:
  assumes "\<forall>a. text_start k \<le> a \<and> a < app_end k \<longrightarrow> ki_mem k a \<noteq> None"
  shows "\<exists>out. exec_mem_cmd k arg = Some out \<and> length out \<le> 2047"
  using mem_view_safe [OF assms] mem_map_safe [of k] mem_summary_safe [of k]
  by (auto simp: exec_mem_cmd_def Let_def split: option.splits)

text \<open>
  C22: The command \<open>mem\<close> is safe for every argument the user types: when the memory from the
  start of the kernel's text to the end of the program area is mapped, no address given in
  hexadecimal, and no length, makes the kernel read an address outside that range (where any
  read would fault), and what is shown stays within the output buffer of 2048 bytes with its NUL.
\<close>

theorem mem_command_safe:
  assumes "\<forall>a. text_start k \<le> a \<and> a < app_end k \<longrightarrow> ki_mem k a \<noteq> None"
    and "cmd_handle_mem k cmd = Some r"
  shows "\<exists>out. r = Some out \<and> length out + 1 \<le> 2048"
  using exec_mem_safe [OF assms(1)] assms(2) by (auto simp: cmd_handle_mem_def)

definition demo_kinfo :: "heap \<Rightarrow> kinfo" where
  "demo_kinfo h = \<lparr>text_start = 0x80000000, text_end = 0x80010000, rodata_start = 0x80010000, rodata_end = 0x80012000,
     data_start = 0x80012000, data_end = 0x80014000, bss_start = 0x80014000, bss_end = 0x80020000,
     app_start = 0x80100000, app_end = 0x80200000, app_size = 0x100000, ki_heap = h,
     uheap_base = 0x80040000, ki_uheaps = [], ki_app_heap = (0, 0, 0),
     ki_mem = (\<lambda>a. if 0x80000000 \<le> a \<and> a < 0x80200000 then Some 7 else None)\<rparr>"

theorem mem_command_safe_witness:
  "\<exists>r. cmd_handle_mem (demo_kinfo undefined) ''mem view 801ffff8 16'' = Some r \<and> (\<exists>out. r = Some out \<and> length out + 1 \<le> 2048)"
proof -
  have "\<forall>a. text_start (demo_kinfo h) \<le> a \<and> a < app_end (demo_kinfo h) \<longrightarrow> ki_mem (demo_kinfo h) a \<noteq> None" for h
    by (simp add: demo_kinfo_def)
  moreover have "\<exists>r. cmd_handle_mem (demo_kinfo undefined) ''mem view 801ffff8 16'' = Some r"
    by (simp add: cmd_handle_mem_def after_word_def)
  ultimately show ?thesis using mem_command_safe by metis
qed

section \<open>Listings\<close>

text \<open>The entries a listing shows of one type, in the order of the directory.\<close>

definition listed :: "mem8 \<Rightarrow> string \<Rightarrow> int \<Rightarrow> u16 \<Rightarrow> nat \<Rightarrow> bool" where
  "listed db name_prefix type_filter t i \<longleftrightarrow>
     \<not> e_free db i \<and> e_type db i = t \<and> (type_filter = -1 \<or> uint t = type_filter) \<and>
     str_starts_with (e_name db i) name_prefix"

definition rows_of :: "mem8 \<Rightarrow> string \<Rightarrow> int \<Rightarrow> u16 \<Rightarrow> nat list \<Rightarrow> string" where
  "rows_of db name_prefix type_filter t is = concat (map (entry_row db) (filter (listed db name_prefix type_filter t) is))"

lemma not_listed:
  "(e_free db i \<or> (type_filter \<noteq> -1 \<and> uint (e_type db i) \<noteq> type_filter) \<or> e_type db i \<noteq> t \<or>
    (name_prefix \<noteq> [] \<and> \<not> str_starts_with (e_name db i) name_prefix)) \<longleftrightarrow> \<not> listed db name_prefix type_filter t i"
  by (auto simp: listed_def str_starts_with_def)

lemma dir_rows_cons:
  "dir_rows db q tf t (i # is) (out, printed) =
     (if \<not> listed db q tf t i then dir_rows db q tf t is (out, printed)
      else if length out + length (entry_row db i) < 2046
      then dir_rows db q tf t is (out @ entry_row db i, True) else ((out, printed), True))"
  by (simp only: dir_rows.simps not_listed lib_strcat_def) simp

declare dir_rows.simps(2) [simp del]

lemma entry_row_nonempty: "entry_row db i \<noteq> []"
  by (simp add: entry_row_def)

lemma dir_rows_all:
  "length out + length (rows_of db q tf t is) < 2046 \<Longrightarrow>
   dir_rows db q tf t is (out, printed) = ((out @ rows_of db q tf t is, printed \<or> rows_of db q tf t is \<noteq> []), False)"
proof (induction "is" arbitrary: out printed)
  case (Cons i "is")
  then show ?case
    by (cases "listed db q tf t i") (auto simp: dir_rows_cons rows_of_def entry_row_nonempty)
qed (simp add: rows_of_def)

lemma dir_rows_fits:
  "length out \<le> 2045 \<Longrightarrow> length (fst (fst (dir_rows db q tf t is (out, printed)))) \<le> 2045"
  by (induction "is" arbitrary: out printed) (auto simp: dir_rows_cons)

lemma listing_fits:
  assumes "length title \<le> 2045"
  shows "length (append_dir_entries_sorted db title q tf) \<le> 2047 \<or>
    append_dir_entries_sorted db title q tf = title @ '' (empty)''"
proof -
  obtain o1 p1 s1 where 1: "dir_rows db q tf 1 [0 ..< MAX_DIR_ENTRIES] (title, False) = ((o1, p1), s1)"
    by (metis prod.exhaust)
  obtain o2 p2 s2 where 2: "dir_rows db q tf 0 [0 ..< MAX_DIR_ENTRIES] (o1, p1) = ((o2, p2), s2)"
    by (metis prod.exhaust)
  have l1: "length o1 \<le> 2045" using dir_rows_fits [OF assms, of db q tf 1 "[0 ..< MAX_DIR_ENTRIES]" False] 1 by simp
  have l2: "length o2 \<le> 2045" using dir_rows_fits [OF l1, of db q tf 0 "[0 ..< MAX_DIR_ENTRIES]" p1] 2 by simp
  have unprinted: "\<not> p \<Longrightarrow> \<not> p0 \<and> o' = o0"
    if "dir_rows db q tf t is (o0, p0) = ((o', p), False)" for t "is" o0 p0 o' p
    using that
  proof (induction "is" arbitrary: o0 p0)
    case (Cons i "is")
    then show ?case by (auto simp: dir_rows_cons split: if_splits)
  qed auto
  show ?thesis
  proof (cases s1)
    case True
    then show ?thesis using l1 1 by (simp add: append_dir_entries_sorted_def)
  next
    case s1: False
    show ?thesis
    proof (cases "s2 \<or> p2")
      case True
      then show ?thesis using l2 1 2 s1 by (cases s2) (auto simp: append_dir_entries_sorted_def)
    next
      case False
      then have "\<not> p1 \<and> o2 = o1" using unprinted [of 0 "[0 ..< MAX_DIR_ENTRIES]" o1 p1 o2 p2] 2 by simp
      then have "o2 = title" using unprinted [of 1 "[0 ..< MAX_DIR_ENTRIES]" title False o1 p1] 1 s1 by simp
      then show ?thesis using False 1 2 s1 by (simp add: append_dir_entries_sorted_def lib_strcat_def)
    qed
  qed
qed

lemma listing_rows:
  assumes "length title + length (rows_of db q tf 1 [0 ..< MAX_DIR_ENTRIES]) +
    length (rows_of db q tf 0 [0 ..< MAX_DIR_ENTRIES]) < 2046"
  shows "append_dir_entries_sorted db title q tf =
    title @ (if rows_of db q tf 1 [0 ..< MAX_DIR_ENTRIES] @ rows_of db q tf 0 [0 ..< MAX_DIR_ENTRIES] = [] then '' (empty)''
      else rows_of db q tf 1 [0 ..< MAX_DIR_ENTRIES] @ rows_of db q tf 0 [0 ..< MAX_DIR_ENTRIES])"
proof -
  have 1: "dir_rows db q tf 1 [0 ..< MAX_DIR_ENTRIES] (title, False) =
    ((title @ rows_of db q tf 1 [0 ..< MAX_DIR_ENTRIES], rows_of db q tf 1 [0 ..< MAX_DIR_ENTRIES] \<noteq> []), False)"
    using dir_rows_all [of title db q tf 1 "[0 ..< MAX_DIR_ENTRIES]" False] assms by simp
  have 2: "dir_rows db q tf 0 [0 ..< MAX_DIR_ENTRIES]
      (title @ rows_of db q tf 1 [0 ..< MAX_DIR_ENTRIES], rows_of db q tf 1 [0 ..< MAX_DIR_ENTRIES] \<noteq> []) =
    (((title @ rows_of db q tf 1 [0 ..< MAX_DIR_ENTRIES]) @ rows_of db q tf 0 [0 ..< MAX_DIR_ENTRIES],
      rows_of db q tf 1 [0 ..< MAX_DIR_ENTRIES] \<noteq> [] \<or> rows_of db q tf 0 [0 ..< MAX_DIR_ENTRIES] \<noteq> []), False)"
    by (rule dir_rows_all) (use assms in simp)
  show ?thesis unfolding append_dir_entries_sorted_def 1 prod.case bool.case 2 lib_strcat_def by auto
qed

section \<open>Sizes and the long format\<close>

lemma digits_rev_length: "n < 10 ^ k \<Longrightarrow> length (digits_rev n) \<le> k"
proof (induction k arbitrary: n)
  case 0
  then show ?case by (simp add: digits_rev.simps)
next
  case (Suc k)
  then have "n div 10 < 10 ^ k" by (simp add: less_mult_imp_div_less mult.commute)
  then show ?case using Suc.IH [of "n div 10"] by (subst digits_rev.simps) simp
qed

lemma itoa_length: "unat w < 10 ^ k \<Longrightarrow> 0 < k \<Longrightarrow> length (lib_itoa w) \<le> k"
  by (cases k) (auto simp: lib_itoa_def intro: digits_rev_length)


lemma size_length: "length (format_size_human bytes) \<le> 8"
proof -
  have b: "unat bytes < 4294967296" using unsigned_less [of bytes] by simp
  show ?thesis
  proof (cases "bytes \<ge> 1024")
    case False
    then have "unat bytes < 1024" by (simp add: not_le word_less_nat_alt)
    then have "length (lib_itoa bytes) \<le> 4" by (intro itoa_length) simp_all
    moreover have "\<not> 1073741824 \<le> bytes" "\<not> 1048576 \<le> bytes"
      using False by (auto dest: order_trans [of "1024 :: u32", rotated])
    ultimately show ?thesis using False by (simp add: format_size_human_def lib_strcat_def)
  next
    case True
    have d: "unat (bytes div 1073741824) < 1024" using b by (simp add: unat_div)
    have e: "unat (bytes div 1048576) < 1024" if "\<not> 1073741824 \<le> bytes"
      using that by (simp add: unat_div not_le word_less_nat_alt)
    have f: "unat (bytes div 1024) < 1024" if "\<not> 1048576 \<le> bytes"
      using that by (simp add: unat_div not_le word_less_nat_alt)
    have "length (lib_itoa w) \<le> 4" if "unat w < 1024" for w by (rule itoa_length) (use that in simp_all)
    then show ?thesis using True d e f by (auto simp: format_size_human_def lib_strcat_def)
  qed
qed

lemma long_line:
  assumes "length (mode_to_str (ucast (e_mode db i)) (e_type db i)) + length (format_size_human (of_nat (e_size db i))) < 100"
  shows "append_single_entry_line db i True =
    Some (''%5s %8s %8s '' @ mode_to_str (ucast (e_mode db i)) (e_type db i) @ '' '' @
      format_size_human (of_nat (e_size db i)) @ [NL])"
proof -
  have e: "([], 0) = cut 128 []" by (simp add: cut_def)
  show ?thesis using assms
    unfolding append_single_entry_line_def Let_def if_True snprintf_def lib_vsnprintf_def e
    by (simp add: conversion_def) (simp add: cut_def)
qed

text \<open>
  The line that \<open>ls -all\<close> shows for a single file is not the intended one: the kernel's
  formatting does not know a field width, prints the three conversions with a width literally and
  without taking an argument, so the mode is shown where the kind belongs, the size where the
  name belongs, and time and name are never shown.
\<close>

theorem long_listing_of_file:
  "append_single_entry_line db i True =
    Some (''%5s %8s %8s '' @ mode_to_str (ucast (e_mode db i)) (e_type db i) @ '' '' @
      format_size_human (of_nat (e_size db i)) @ [NL])"
  by (rule long_line) (use size_length [of "of_nat (e_size db i)"] in \<open>simp add: mode_to_str_def\<close>)

end
