(* ===== verification/ShellFs.thy ===== *)
theory ShellFs
  imports ShellText FsStore
begin

text \<open>
  The file commands of the terminal: \<open>exec_single_cmd_legacy\<close> in \<open>vibeos/user_cmd.c\<close> with its
  helpers (\<open>recursive_find\<close>, \<open>calculate_dir_size\<close>, \<open>list_dir_contents\<close>, \<open>check_dir_and_list\<close>),
  and the copies of \<open>vibeos/user_fs_shell.c\<close>.

  A command maps the state of the shell to a new one; \<open>None\<close> is a panic of the disk driver, an
  access outside a buffer or through a null pointer, or a formatted text that reads an argument
  of the wrong kind. \<open>sh_out\<close> is the output buffer, \<open>sh_rows\<close> are the lines given to
  \<open>append_terminal_line\<close>. The ssh client and the SD card are operations on a state of their own,
  given as an argument; the buffer a remote read allocates is freed by the command that asked for
  it, so the heap does not see it.
\<close>

section \<open>State\<close>

record 'r remote =
  rem_ls :: "string \<Rightarrow> bool \<Rightarrow> 'r \<Rightarrow> (int \<times> string) \<times> 'r"
  rem_read :: "string \<Rightarrow> 'r \<Rightarrow> (int \<times> u8 list option \<times> string) \<times> 'r"
  rem_write :: "string \<Rightarrow> u8 list \<Rightarrow> 'r \<Rightarrow> (int \<times> string) \<times> 'r"
  rem_put :: "fs \<Rightarrow> fs_win \<Rightarrow> string \<Rightarrow> string \<Rightarrow> 'r \<Rightarrow> (int \<times> string) \<times> fs \<times> fs_win \<times> 'r"
  rem_unlink :: "string \<Rightarrow> 'r \<Rightarrow> (int \<times> string) \<times> 'r"
  rem_rename :: "string \<Rightarrow> string \<Rightarrow> 'r \<Rightarrow> (int \<times> string) \<times> 'r"
  sd_list :: "bool \<Rightarrow> 'r \<Rightarrow> string \<times> 'r"

record 'r shell =
  sh_fs :: fs
  sh_win :: fs_win
  sh_heap :: heap
  sh_out :: string
  sh_rows :: "string list"
  sh_wins :: "(bool \<times> fs_win) list"
  sh_remote :: 'r

definition say :: "'r shell \<Rightarrow> string \<Rightarrow> 'r shell" where
  "say s msg = s\<lparr>sh_out := lib_strcpy msg\<rparr>"

text \<open>An operation on the shell's tables, for the window of the file system.\<close>

definition table_op :: "(shell_win \<Rightarrow> int \<times> shell_win) \<Rightarrow> fs_win \<Rightarrow> int \<times> fs_win" where
  "table_op g w = (let (rc, v) = g (shell_win.truncate w) in (rc, w\<lparr>win_env := win_env v, win_alias := win_alias v\<rparr>))"

definition expand_128 :: "fs_win \<Rightarrow> string \<Rightarrow> string" where
  "expand_128 w path = terminal_expand_home_path (shell_win.truncate w) path 128"

text \<open>A command word that is followed by a blank or by nothing; help is the argument \<open>h\<close>.\<close>

definition is_cmd :: "string \<Rightarrow> string \<Rightarrow> bool" where
  "is_cmd kw cmd \<longleftrightarrow> strncmp cmd kw (length kw) = 0 \<and> (char_at cmd (length kw) = NUL \<or> char_at cmd (length kw) = CHR '' '')"

definition asks_help :: "string \<Rightarrow> bool" where
  "asks_help arg \<longleftrightarrow> char_at arg 0 = CHR ''h'' \<and> (char_at arg 1 = NUL \<or> char_at arg 1 = CHR '' '')"

section \<open>Directories\<close>

definition list_dir_contents :: "fs \<Rightarrow> nat \<Rightarrow> (string \<times> fs) option" where
  "list_dir_contents f bno =
     (case load_current_dir f (tmp_window bno []) of
        None \<Rightarrow> None
      | Some (None, _, f) \<Rightarrow> Some (''ERR: Directory unreadable.'', f)
      | Some (Some db, _, f) \<Rightarrow>
          let out = append_dir_entries_sorted db (''Directory contents:'' @ [NL]) [] (-1) in
          if bno = 1 then
            let out = (if strcmp out (''Directory contents:'' @ [NL] @ '' (empty)'') = 0
                       then ''Directory contents:'' @ [NL] else out)
            in Some (fst (append_virtual_mount_entries (bno = 1) False out False), f)
          else Some (out, f))"

text \<open>The listing when the path names a directory, nothing otherwise.\<close>

definition check_dir_and_list :: "fs \<Rightarrow> fs_win \<Rightarrow> string \<Rightarrow> (string option \<times> fs) option" where
  "check_dir_and_list f w path =
     (if path = [] then Some (None, f)
      else case resolve_editor_target 128 f w (expand_128 w path) of
        None \<Rightarrow> None
      | Some (None, f) \<Rightarrow> Some (None, f)
      | Some (Some (p_bno, _, leaf), f) \<Rightarrow>
        Option.bind
          (if leaf = [] \<or> strcmp leaf ''.'' = 0 then Some (p_bno, f)
           else case load_current_dir f (tmp_window p_bno []) of
               None \<Rightarrow> None
             | Some (None, _, _) \<Rightarrow> None
             | Some (Some db, _, f) \<Rightarrow>
                 (case find_entry_index db leaf (-1) of
                    Some idx \<Rightarrow> Some (if e_type db idx = 1 then e_bno db idx else 0, f)
                  | None \<Rightarrow> Some (0, f)))
          (\<lambda>(target_bno, f). if target_bno \<noteq> 0
             then map_option (\<lambda>(out, f). (Some out, f)) (list_dir_contents f target_bno)
             else Some (None, f)))"

text \<open>
  \<open>calculate_dir_size\<close>: a directory block is read into a block from the heap, which is freed
  before the children are visited; a directory that cannot be read counts as empty.
\<close>

abbreviation (input) BLK_SIZE :: u32 where "BLK_SIZE \<equiv> 4112"

definition child_dirs :: "mem8 \<Rightarrow> nat list" where
  "child_dirs m = map (e_bno m) (filter (\<lambda>i. \<not> e_free m i \<and> e_type m i = 1) [0 ..< MAX_DIR_ENTRIES])"

definition file_sizes :: "mem8 \<Rightarrow> u32" where
  "file_sizes m = sum_list (map (\<lambda>i. of_nat (e_size m i)) (filter (\<lambda>i. \<not> e_free m i \<and> e_type m i = 0) [0 ..< MAX_DIR_ENTRIES]))"

function calculate_dir_size :: "fs \<Rightarrow> heap \<Rightarrow> nat \<Rightarrow> int \<Rightarrow> int \<Rightarrow> u32 \<times> heap"
  and children_size :: "fs \<Rightarrow> heap \<Rightarrow> nat list \<Rightarrow> int \<Rightarrow> int \<Rightarrow> u32 \<Rightarrow> u32 \<times> heap" where
  "calculate_dir_size f h bno depth max_depth =
     (if bno = 0 \<or> bno \<ge> FS_MAX_BLOCKS \<or> depth > max_depth then (0, h)
      else let (b, h) = malloc h BLK_SIZE in
        if b = 0 then (0, h)
        else let m = stack_view f bno; h = free h b in
          if db_magic m \<noteq> FS_MAGIC then (0, h)
          else if depth < max_depth then children_size f h (child_dirs m) (depth + 1) max_depth (file_sizes m)
          else (file_sizes m, h))"
| "children_size f h [] depth max_depth acc = (acc, h)"
| "children_size f h (b # bs) depth max_depth acc =
     (let (n, h) = calculate_dir_size f h b depth max_depth
      in children_size f h bs depth max_depth (acc + n))"
  by pat_completeness auto
termination
  by (relation "measures
      [\<lambda>x. case x of Inl (f, h, b, c, d) \<Rightarrow> nat (d + 1 - c) | Inr (f, h, bs, c, d, s) \<Rightarrow> nat (d + 1 - c),
       \<lambda>x. case x of Inl _ \<Rightarrow> 0 | Inr (f, h, bs, c, d, s) \<Rightarrow> Suc (length bs)]") auto

declare calculate_dir_size.simps [simp del]

text \<open>
  \<open>recursive_find\<close>: the first argument is the number of nested calls the stack has room for.
  One entry, with the visit into its directory as an argument:
\<close>

definition find_row :: "mem8 \<Rightarrow> nat \<Rightarrow> string \<Rightarrow> string" where
  "find_row m i full_path = take 299 ((if e_type m i = 1 then ''[DIR]'' else ''[FILE]'') @ '' '' @ full_path @ [NL])"

definition find_entry :: "(heap \<Rightarrow> nat \<Rightarrow> string \<Rightarrow> string \<Rightarrow> (heap \<times> string) option) \<Rightarrow> mem8 \<Rightarrow> string \<Rightarrow> string \<Rightarrow>
    heap \<times> string \<Rightarrow> nat \<Rightarrow> (heap \<times> string) option" where
  "find_entry visit m path search st i =
     (let (h, out) = st in
      if e_free m i then Some (h, out)
      else if path = [] then None
      else case fits 256 ((if last path \<noteq> CHR ''/'' then lib_strcat path ''/'' else path) @ e_name m i) of
          None \<Rightarrow> None
        | Some full_path \<Rightarrow>
            let row = find_row m i full_path;
                out = (if strstr (e_name m i) search \<noteq> None \<and> length out + length row < OUT_BUF_SIZE - 2
                       then lib_strcat out row else out)
            in if e_type m i = 1 then visit h (e_bno m i) full_path out else Some (h, out))"

definition over_entries :: "('s \<Rightarrow> nat \<Rightarrow> 's option) \<Rightarrow> nat list \<Rightarrow> 's \<Rightarrow> 's option" where
  "over_entries step is st = foldl (\<lambda>r i. Option.bind r (\<lambda>st. step st i)) (Some st) is"

primrec recursive_find :: "nat \<Rightarrow> fs \<Rightarrow> heap \<Rightarrow> nat \<Rightarrow> string \<Rightarrow> string \<Rightarrow> string \<Rightarrow> (heap \<times> string) option" where
  "recursive_find 0 f h bno path search out = None"
| "recursive_find (Suc room) f h bno path search out =
     (if bno = 0 \<or> bno \<ge> FS_MAX_BLOCKS then Some (h, out)
      else let (b, h) = malloc h BLK_SIZE in
        if b = 0 then Some (h, out)
        else let m = stack_view f bno; h = free h b in
          if db_magic m \<noteq> FS_MAGIC then Some (h, out)
          else over_entries (find_entry (\<lambda>h bno path out. recursive_find room f h bno path search out) m path search)
                 [0 ..< MAX_DIR_ENTRIES] (h, out))"

section \<open>Commands that only look\<close>

definition cmd_pwd :: "'r shell \<Rightarrow> string \<Rightarrow> 'r shell" where
  "cmd_pwd s cmd =
     (if char_at cmd 3 = CHR '' '' \<and> (char_at cmd 4 = CHR ''h'' \<or> char_at cmd 4 = CHR ''-'') then say s ''usage: pwd''
      else say s (win_cwd (sh_win s)))"

definition cmd_df :: "'r shell \<Rightarrow> string \<Rightarrow> 'r shell option" where
  "cmd_df s cmd =
     (if char_at cmd 2 = CHR '' '' \<and> (char_at cmd 3 = CHR ''h'' \<or> char_at cmd 3 = CHR ''-'') then Some (say s ''usage: df'')
      else let ((blks, used, free_blks), f) = fs_usage_info (sh_fs s);
               sz = (\<lambda>n. VStr (Some (format_size_human (of_nat n * of_nat BSIZE))))
           in map_option (\<lambda>(row, _). say (s\<lparr>sh_fs := f\<rparr>) row)
                (snprintf 128 (''Disk Usage (BlockSize=%d):'' @ [NL] @ ''  Total: %8s (%u blocks)'' @ [NL] @
                    ''  Used:  %8s (%u blocks)'' @ [NL] @ ''  Free:  %8s (%u blocks)'' @ [NL])
                  [VInt (of_nat BSIZE), sz blks, VInt (of_nat blks), sz used, VInt (of_nat used),
                   sz free_blks, VInt (of_nat free_blks)]))"

text \<open>The option \<open>-maxd\<close> of \<open>du\<close>: the depth and what is left as the path.\<close>

definition du_args :: "string \<Rightarrow> string \<Rightarrow> int \<times> string" where
  "du_args cmd path_arg =
     (case strstr cmd ''-maxd'' of
        None \<Rightarrow> (20, path_arg)
      | Some mpos \<Rightarrow>
          let dstr = skip_spaces (drop (mpos + 5) cmd) in
          if dstr \<noteq> [] \<and> is_digit (hd dstr)
          then (sint (atoi_digits dstr 0), skip_spaces (dropWhile is_digit dstr))
          else (20, skip_spaces dstr))"

definition du_target :: "fs \<Rightarrow> fs_win \<Rightarrow> string \<Rightarrow> ((string + nat \<times> string) \<times> fs) option" where
  "du_target f w path_arg =
     (if path_arg = [] then Some (Inr (win_cwd_bno w, win_cwd w), f)
      else let expanded = expand_128 w path_arg in
        case resolve_editor_target 128 f w expanded of
          None \<Rightarrow> None
        | Some (None, f) \<Rightarrow> Some (Inl ''ERR: Invalid Path.'', f)
        | Some (Some (p_bno, _, leaf), f) \<Rightarrow>
          if leaf = [] \<or> strcmp leaf ''.'' = 0
          then Some (Inr (p_bno, if expanded \<noteq> [] then expanded else win_cwd w), f)
          else case load_current_dir f (tmp_window p_bno []) of
              None \<Rightarrow> None
            | Some (None, _, f) \<Rightarrow> Some (Inr (win_cwd_bno w, win_cwd w), f)
            | Some (Some db, _, f) \<Rightarrow>
                (case find_entry_index db leaf 1 of
                   Some idx \<Rightarrow> Some (Inr (e_bno db idx, expanded), f)
                 | None \<Rightarrow> Some (Inl ''ERR: Dir Not Found.'', f)))"

definition cmd_du :: "'r shell \<Rightarrow> string \<Rightarrow> 'r shell option" where
  "cmd_du s cmd =
     (let path_arg = skip_spaces (drop 2 cmd) in
      if asks_help path_arg then Some (say s ''usage: du [-maxd N] [path]'')
      else let (max_depth, path_arg) = du_args cmd path_arg in
        case du_target (sh_fs s) (sh_win s) path_arg of
          None \<Rightarrow> None
        | Some (Inl msg, f) \<Rightarrow> Some (say (s\<lparr>sh_fs := f\<rparr>) msg)
        | Some (Inr (target_bno, dpath), f) \<Rightarrow>
            let (sz, h) = calculate_dir_size f (sh_heap s) target_bno 1 max_depth
            in map_option (\<lambda>(out, _). say (s\<lparr>sh_fs := f, sh_heap := h\<rparr>) out)
                 (snprintf OUT_BUF_SIZE ''Size of %s (maxdepth %d): %s (%u bytes)''
                   [VStr (Some dpath), VInt (word_of_int max_depth), VStr (Some (format_size_human sz)), VInt sz]))"

definition cmd_find :: "nat \<Rightarrow> 'r shell \<Rightarrow> string \<Rightarrow> 'r shell option" where
  "cmd_find room s cmd =
     (let target = skip_spaces (drop 5 cmd) in
      if target = [] then Some (say s ''usage: find <filename>'')
      else map_option (\<lambda>(h, out). say (s\<lparr>sh_heap := h\<rparr>) (if out = [] then ''No files found.'' else out))
             (recursive_find room (sh_fs s) (sh_heap s) 1 ''/root'' target []))"

text \<open>The path argument of \<open>ls\<close>, and whether \<open>-all\<close> was given.\<close>

definition ls_args :: "string \<Rightarrow> bool \<times> string" where
  "ls_args cmd =
     (case strstr cmd ''-all'' of
        None \<Rightarrow> (False, skip_spaces (drop 2 cmd))
      | Some pos \<Rightarrow>
          let path_arg = skip_spaces (drop (pos + 4) cmd) in
          if path_arg \<noteq> [] then (True, path_arg)
          else let p = dropWhile (\<lambda>c. c = CHR '' '' \<or> c = CHR ''-'') (drop 2 cmd)
               in (True, if strncmp p ''all'' 3 = 0 then skip_spaces (drop 3 p) else p))"

text \<open>
  One row of \<open>ls\<close>; a long row formats the time into \<open>char ts[10]\<close>, and a text that is longer
  is written behind it.
\<close>

definition ls_row :: "mem8 \<Rightarrow> bool \<Rightarrow> nat \<Rightarrow> string option" where
  "ls_row db all i =
     (if all then
        case fits 10 (format_hms (e_mtime db i)) of
          None \<Rightarrow> None
        | Some ts \<Rightarrow>
          let r = append_out_str (append_out_pad [] OUT_BUF_SIZE (mode_to_str (ucast (e_mode db i)) (e_type db i)) 5) OUT_BUF_SIZE '' '';
              r = append_out_str (append_out_pad r OUT_BUF_SIZE (format_size_human (of_nat (e_size db i))) 8) OUT_BUF_SIZE '' '';
              r = append_out_str (append_out_pad r OUT_BUF_SIZE ts 19) OUT_BUF_SIZE '' '';
              r = append_out_str r OUT_BUF_SIZE (copy_name20 (e_name db i))
          in Some (append_out_str r OUT_BUF_SIZE [NL])
      else let r = append_out_str [] OUT_BUF_SIZE (if e_type db i = 1 then ''d '' else ''f '');
               r = append_out_str r OUT_BUF_SIZE (e_name db i)
           in Some (append_out_str r OUT_BUF_SIZE [NL]))"

text \<open>Names that start with a dot are hidden, except \<open>.bashrc\<close>.\<close>

definition ls_hides :: "mem8 \<Rightarrow> bool \<Rightarrow> nat \<Rightarrow> bool" where
  "ls_hides db all i \<longleftrightarrow> e_free db i \<or> (\<not> all \<and> char_at (e_name db i) 0 = CHR ''.'' \<and> strcmp (e_name db i) ''.bashrc'' \<noteq> 0)"

definition ls_rows :: "mem8 \<Rightarrow> bool \<Rightarrow> string list option" where
  "ls_rows db all = those (map (ls_row db all) (filter (\<lambda>i. \<not> ls_hides db all i) [0 ..< MAX_DIR_ENTRIES]))"

definition ls_dir :: "'r remote \<Rightarrow> 'r shell \<Rightarrow> bool \<Rightarrow> string \<Rightarrow> nat \<Rightarrow> bool \<Rightarrow> 'r shell option" where
  "ls_dir rem s all path_arg target_bno show_mounts =
     (case load_current_dir (sh_fs s) (tmp_window target_bno []) of
        None \<Rightarrow> None
      | Some (None, _, f) \<Rightarrow>
          let s = s\<lparr>sh_fs := f\<rparr> in
          if path_arg = [] \<or> strcmp path_arg ''/'' = 0 \<or> strcmp path_arg ''/root'' = 0 \<or> strcmp path_arg ''~'' = 0
          then let (out, r) = sd_list rem all (sh_remote s) in Some (say (s\<lparr>sh_remote := r\<rparr>) out)
          else Some (say s (''ERR: Run '' @ [CHR 0x27] @ ''format'' @ [CHR 0x27] @ ''.''))
      | Some (Some db, _, f) \<Rightarrow>
          (case ls_rows db all of
             None \<Rightarrow> None
           | Some rows \<Rightarrow>
             let (mounts, mount_printed) = append_virtual_mount_entries True all [] False;
                 with_mounts = (show_mounts \<or> target_bno = 1) \<and> mount_printed;
                 rows = (if with_mounts then rows @ [mounts] else rows);
                 rows = (if rows = [] then [''(empty)''] else rows)
             in Some (s\<lparr>sh_fs := f, sh_out := [], sh_rows := sh_rows s @ rows\<rparr>)))"

definition cmd_ls :: "'r remote \<Rightarrow> 'r shell \<Rightarrow> string \<Rightarrow> 'r shell option" where
  "cmd_ls rem s cmd =
     (let h_ptr = skip_spaces (drop 2 cmd); w = sh_win s in
      if strcmp h_ptr ''h'' = 0 \<or> strcmp h_ptr ''-h'' = 0 then Some (say s ''usage: ls [-all] [path]'')
      else let (all, path_arg) = ls_args cmd in
      if path_arg \<noteq> [] \<and> strcmp path_arg ''-all'' \<noteq> 0 then
        if path_is_sd_root path_arg
        then let (out, r) = sd_list rem all (sh_remote s) in Some (say (s\<lparr>sh_remote := r\<rparr>) out)
        else if path_is_sftp path_arg
        then let ((_, out), r) = rem_ls rem (sftp_subpath path_arg) all (sh_remote s) in Some (say (s\<lparr>sh_remote := r\<rparr>) out)
        else let mounts = strcmp path_arg ''/'' = 0 \<or> strcmp path_arg ''/root'' = 0 \<or> strcmp path_arg ''~'' = 0 in
        case resolve_fs_target 128 (sh_fs s) w path_arg of
          None \<Rightarrow> None
        | Some (None, f) \<Rightarrow> Some (say (s\<lparr>sh_fs := f\<rparr>) ''ERR: Invalid Path.'')
        | Some (Some (p_bno, _, leaf), f) \<Rightarrow>
          let s = s\<lparr>sh_fs := f\<rparr> in
          if leaf = [] \<or> strcmp leaf ''.'' = 0 then ls_dir rem s all path_arg p_bno mounts
          else case load_current_dir f (tmp_window p_bno []) of
              None \<Rightarrow> None
            | Some (None, _, f) \<Rightarrow> ls_dir rem (s\<lparr>sh_fs := f\<rparr>) all path_arg (win_cwd_bno w) mounts
            | Some (Some db, _, f) \<Rightarrow>
              let s = s\<lparr>sh_fs := f\<rparr> in
              (case find_entry_index db leaf 0 of
                 Some idx \<Rightarrow> map_option (say s) (append_single_entry_line db idx all)
               | None \<Rightarrow>
                 (case find_entry_index db leaf 1 of
                    Some idx \<Rightarrow> ls_dir rem s all path_arg (e_bno db idx) mounts
                  | None \<Rightarrow> Some (say s ''ERR: Dir Not Found.'')))
      else ls_dir rem s all path_arg (win_cwd_bno w)
             (win_cwd_bno w = 1 \<or> strcmp (win_cwd w) ''/root'' = 0 \<or> strcmp (win_cwd w) ''/'' = 0))"

section \<open>The current directory and the tables\<close>

definition cmd_format :: "'r shell \<Rightarrow> string \<Rightarrow> 'r shell" where
  "cmd_format s cmd =
     (if strcmp (skip_spaces (drop 6 cmd)) ''YES_I_AM_SURE'' = 0 then
        let (f, w, wins) = fs_format_root (sh_fs s) (sh_win s) (sh_wins s);
            w = sync_pwd (fs_reset_window_cwd w)
        in say (s\<lparr>sh_fs := f, sh_win := w, sh_wins := wins\<rparr>) ''>> Matrix Rebuilt. All data wiped.''
      else say s (''DANGER: This will wipe EVERYTHING.'' @ [NL] @ ''Type: format YES_I_AM_SURE''))"

text \<open>Entering a directory: block and path of the window, then the variable \<open>PWD\<close>.\<close>

definition enter_dir :: "'r shell \<Rightarrow> nat \<Rightarrow> string \<Rightarrow> 'r shell" where
  "enter_dir s bno cwd = s\<lparr>sh_win := sync_pwd ((sh_win s)\<lparr>win_cwd_bno := bno, win_cwd := cwd\<rparr>)\<rparr>"

definition not_formatted :: "'r shell \<Rightarrow> 'r shell" where
  "not_formatted s = say s (''ERR: Run '' @ [CHR 0x27] @ ''format'' @ [CHR 0x27] @ ''.'')"

definition cd_parent :: "'r shell \<Rightarrow> 'r shell option" where
  "cd_parent s =
     (case load_current_dir (sh_fs s) (sh_win s) of
        None \<Rightarrow> None
      | Some (None, w, f) \<Rightarrow> Some (not_formatted (s\<lparr>sh_fs := f, sh_win := w\<rparr>))
      | Some (Some db, w, f) \<Rightarrow>
          let bno = bno_or_root (db_parent db)
          in Some (enter_dir (s\<lparr>sh_fs := f, sh_win := w\<rparr>) bno
                     (if bno = 1 then ''/root'' else path_set_parent (win_cwd w))))"

definition cd_path :: "'r shell \<Rightarrow> string \<Rightarrow> 'r shell option" where
  "cd_path s target =
     (let w = sh_win s; expanded = expand_128 w target in
      if expanded = [] then Some (say s ''ERR: Dir Not Found.'')
      else case resolve_editor_target 128 (sh_fs s) w expanded of
        None \<Rightarrow> None
      | Some (None, f) \<Rightarrow> Some (say (s\<lparr>sh_fs := f\<rparr>) ''ERR: Dir Not Found.'')
      | Some (Some (parent_bno, parent_cwd, leaf), f) \<Rightarrow>
        let s = s\<lparr>sh_fs := f\<rparr>; cwd = cwd_or_root parent_cwd in
        if leaf = [] \<or> strcmp leaf ''.'' = 0 then Some (enter_dir s (bno_or_root parent_bno) cwd)
        else case load_current_dir f (tmp_window (bno_or_root parent_bno) cwd) of
            None \<Rightarrow> None
          | Some (None, _, f) \<Rightarrow> Some (not_formatted (s\<lparr>sh_fs := f\<rparr>))
          | Some (Some db, _, f) \<Rightarrow>
            (case find_entry_index db leaf 1 of
               None \<Rightarrow> Some (say (s\<lparr>sh_fs := f\<rparr>) ''ERR: Dir Not Found.'')
             | Some idx \<Rightarrow> map_option (enter_dir (s\<lparr>sh_fs := f\<rparr>) (e_bno db idx))
                             (fits 128 (path_set_child (cwd_or_root cwd) (e_name db idx)))))"

definition cmd_cd :: "'r shell \<Rightarrow> string \<Rightarrow> 'r shell option" where
  "cmd_cd s cmd =
     (let target = skip_spaces (drop 2 cmd) in
      if asks_help target then Some (say s ''usage: cd ~ | cd .. | cd /root/subdir | cd subdir'')
      else if target = [] \<or> strcmp target ''/root'' = 0 \<or> strcmp target ''/'' = 0 then Some (enter_dir s 1 ''/root'')
      else if strcmp target ''..'' = 0 then cd_parent s
      else cd_path s target)"

text \<open>Listing a table: one line per entry, cut off at the end of the buffer.\<close>

definition table_lines :: "string \<Rightarrow> string \<Rightarrow> string \<Rightarrow> strtab \<Rightarrow> string" where
  "table_lines before between after t =
     (if tab_count t = 0 then ''(empty)''
      else fold (\<lambda>i out.
             let out = append_out_str out OUT_BUF_SIZE before;
                 out = append_out_str out OUT_BUF_SIZE (tab_name t i);
                 out = append_out_str out OUT_BUF_SIZE between;
                 out = append_out_str out OUT_BUF_SIZE (tab_value t i);
                 out = append_out_str out OUT_BUF_SIZE after
             in if i + 1 < tab_count t then append_out_str out OUT_BUF_SIZE [NL] else out)
           [0 ..< tab_count t] [])"

definition fail_msg :: "string \<Rightarrow> 'r shell \<Rightarrow> int \<times> fs_win \<Rightarrow> 'r shell" where
  "fail_msg msg s r = (let (rc, w) = r; s = s\<lparr>sh_win := w\<rparr> in if rc \<noteq> 0 then say s msg else s)"

definition cmd_alias :: "'r shell \<Rightarrow> string \<Rightarrow> 'r shell" where
  "cmd_alias s cmd =
     (let spec = skip_spaces (drop 5 cmd); w = sh_win s; q = [CHR 0x27] in
      if asks_help spec then say s ''usage: alias name=value | alias (to list all)''
      else if spec = [] then say s (table_lines ''alias '' (CHR ''='' # q) q (win_alias w))
      else case strchr spec (CHR ''='') of
          None \<Rightarrow>
            let v = terminal_alias_get (shell_win.truncate w) spec
            in if v \<noteq> [] then say s (''alias '' @ spec @ ''='' @ q @ v @ q) else say s ''ERR: alias not found.''
        | Some p \<Rightarrow>
            let name = take p spec; v = skip_spaces (drop (p + 1) spec)
            in if name = [] \<or> v = [] then say s ''ERR: alias name=value.''
               else fail_msg ''ERR: alias failed.'' s (table_op (\<lambda>w. terminal_alias_set w name v) w))"

definition cmd_unalias :: "'r shell \<Rightarrow> string \<Rightarrow> 'r shell" where
  "cmd_unalias s cmd =
     (let name = skip_spaces (drop 7 cmd) in
      if name = [] then say s ''ERR: unalias NAME.''
      else fail_msg ''ERR: unalias failed.'' s (table_op (\<lambda>w. terminal_alias_unset w name) (sh_win s)))"

definition cmd_export :: "'r shell \<Rightarrow> string \<Rightarrow> 'r shell" where
  "cmd_export s cmd =
     (let spec = skip_spaces (drop 6 cmd) in
      if asks_help spec then say s ''usage: export NAME=value''
      else if spec = [] then say s ''ERR: export NAME=value.''
      else let (name, v) = (case strchr spec (CHR ''='') of
                 None \<Rightarrow> (take 19 (takeWhile (\<lambda>c. c \<noteq> CHR '' '') spec), [])
               | Some p \<Rightarrow> (take 19 (take p spec), take 95 (skip_spaces (drop (p + 1) spec))))
           in fail_msg ''ERR: export failed.'' s (table_op (\<lambda>w. terminal_env_set w name v) (sh_win s)))"

definition cmd_unset :: "'r shell \<Rightarrow> string \<Rightarrow> 'r shell" where
  "cmd_unset s cmd =
     (let name = skip_spaces (drop 5 cmd) in
      if name = [] then say s ''ERR: unset NAME.''
      else fail_msg ''ERR: unset failed.'' s (table_op (\<lambda>w. terminal_env_unset w name) (sh_win s)))"

definition cmd_env :: "'r shell \<Rightarrow> 'r shell" where
  "cmd_env s = say s (table_lines [] ''='' [] (win_env (sh_win s)))"

section \<open>Commands that change files\<close>

text \<open>The new directory of \<open>mkdir\<close>: the block is not checked, so a full disk gives block 0.\<close>

definition make_dir :: "fs \<Rightarrow> mem8 \<Rightarrow> nat \<Rightarrow> string \<Rightarrow> nat \<Rightarrow> fs option" where
  "make_dir f db idx leaf p_bno =
     (case balloc f of (nb, f) \<Rightarrow>
        map_option (\<lambda>f. disk_put f nb (new_dir_block p_bno))
          (disk_write f p_bno (write_dir_entry db idx leaf nb (fs_now f))))"

definition mkdir_at :: "'r shell \<Rightarrow> string \<Rightarrow> 'r shell option" where
  "mkdir_at s path =
     (case resolve_editor_target 128 (sh_fs s) (sh_win s) (expand_128 (sh_win s) path) of
        None \<Rightarrow> None
      | Some (None, f) \<Rightarrow> Some (say (s\<lparr>sh_fs := f\<rparr>) ''ERR: Invalid Path.'')
      | Some (Some (p_bno, _, leaf), f) \<Rightarrow>
        if leaf = [] then Some (say (s\<lparr>sh_fs := f\<rparr>) ''ERR: Invalid Path.'')
        else case load_current_dir f (tmp_window p_bno []) of
            None \<Rightarrow> None
          | Some (None, _, f) \<Rightarrow> Some (not_formatted (s\<lparr>sh_fs := f\<rparr>))
          | Some (Some db, _, f) \<Rightarrow>
            if find_entry_index db leaf (-1) \<noteq> None then Some (say (s\<lparr>sh_fs := f\<rparr>) ''ERR: Already Exists.'')
            else case find_free_entry_index db of
                None \<Rightarrow> Some (say (s\<lparr>sh_fs := f\<rparr>) ''ERR: Dir Full.'')
              | Some idx \<Rightarrow> map_option (\<lambda>f. say (s\<lparr>sh_fs := f\<rparr>) ''>> Directory Created.'') (make_dir f db idx leaf p_bno))"

text \<open>What several commands do first: a path that names a directory is listed instead.\<close>

definition unless_dir :: "'r shell \<Rightarrow> string \<Rightarrow> ('r shell \<Rightarrow> 'r shell option) \<Rightarrow> 'r shell option" where
  "unless_dir s path act =
     (case check_dir_and_list (sh_fs s) (sh_win s) path of
        None \<Rightarrow> None
      | Some (Some out, f) \<Rightarrow> Some (say (s\<lparr>sh_fs := f\<rparr>) out)
      | Some (None, f) \<Rightarrow> act (s\<lparr>sh_fs := f\<rparr>))"

definition cmd_mkdir :: "'r shell \<Rightarrow> string \<Rightarrow> 'r shell option" where
  "cmd_mkdir s cmd =
     (let path = skip_spaces (drop 6 cmd) in
      if strcmp path ''h'' = 0 then Some (say s ''usage: mkdir <path>'')
      else unless_dir s path (\<lambda>s. mkdir_at s path))"

definition cmd_rm :: "'r shell \<Rightarrow> string \<Rightarrow> 'r shell option" where
  "cmd_rm s cmd =
     (let target = skip_spaces (drop 3 cmd) in
      if strcmp target ''h'' = 0 then Some (say s ''usage: rm <path>'')
      else unless_dir s target (\<lambda>s.
        map_option (\<lambda>(rc, w, f). say (s\<lparr>sh_fs := f, sh_win := w\<rparr>) (if rc = 0 then ''>> Removed.'' else ''ERR: Remove Failed.''))
          (remove_entry_named (sh_fs s) (sh_win s) target)))"

text \<open>Storing a text under a name, with the two answers of the command.\<close>

definition store_as :: "'r shell \<Rightarrow> string \<Rightarrow> string \<Rightarrow> string \<Rightarrow> string \<Rightarrow> 'r shell option" where
  "store_as s fn data good bad =
     map_option (\<lambda>(rc, f). say (s\<lparr>sh_fs := f\<rparr>) (if rc = 0 then good else bad))
       (store_file_bytes (sh_fs s) (sh_win s) fn (map c2b data))"

definition cmd_touch :: "'r shell \<Rightarrow> string \<Rightarrow> 'r shell option" where
  "cmd_touch s cmd =
     (let fn = skip_spaces (drop 6 cmd) in
      if strcmp fn ''h'' = 0 then Some (say s ''usage: touch <path>'')
      else unless_dir s fn (\<lambda>s. store_as s fn [] ''>> Touched.'' ''ERR: Touch Failed.''))"

definition cmd_write :: "'r shell \<Rightarrow> string \<Rightarrow> 'r shell option" where
  "cmd_write s cmd =
     (let fn = drop 6 cmd in
      case strchr fn (CHR '' '') of
        None \<Rightarrow> Some (say s ''usage: write <path> <text>'')
      | Some p \<Rightarrow>
        let data = skip_spaces (drop (p + 1) fn); fn = take p fn in
        if strcmp fn ''h'' = 0 then Some (say s ''usage: write <path> <text>'')
        else unless_dir s fn (\<lambda>s. store_as s fn data ''>> Written.'' ''ERR: Write Failed.''))"

text \<open>Bytes that were loaded into \<open>out\<close>, with a NUL behind them, as a text.\<close>

definition text_of :: "u8 list \<Rightarrow> string" where
  "text_of bs = takeWhile (\<lambda>c. c \<noteq> NUL) (map b2c bs)"

definition cat_file :: "'r shell \<Rightarrow> string \<Rightarrow> 'r shell option" where
  "cat_file s fn =
     map_option (\<lambda>((rc, bs), w, f). say (s\<lparr>sh_fs := f, sh_win := w\<rparr>) (if rc = 0 then text_of bs else ''ERR: Cat Failed.''))
       (load_file_bytes (sh_fs s) (sh_win s) fn (OUT_BUF_SIZE - 1))"

definition cat_local :: "'r shell \<Rightarrow> string \<Rightarrow> 'r shell option" where
  "cat_local s fn =
     (let listing = (\<lambda>f bno. map_option (\<lambda>(out, f). say (s\<lparr>sh_fs := f\<rparr>) out) (list_dir_contents f bno)) in
      case resolve_editor_target 128 (sh_fs s) (sh_win s) (expand_128 (sh_win s) fn) of
        None \<Rightarrow> None
      | Some (None, f) \<Rightarrow> cat_file (s\<lparr>sh_fs := f\<rparr>) fn
      | Some (Some (p_bno, _, leaf), f) \<Rightarrow>
        if leaf = [] \<or> strcmp leaf ''.'' = 0 then listing f p_bno
        else case load_current_dir f (tmp_window p_bno []) of
            None \<Rightarrow> None
          | Some (None, _, _) \<Rightarrow> None
          | Some (Some db, _, f) \<Rightarrow>
            (case find_entry_index db leaf (-1) of
               Some idx \<Rightarrow> if e_type db idx = 1 then listing f (e_bno db idx) else cat_file (s\<lparr>sh_fs := f\<rparr>) fn
             | None \<Rightarrow> cat_file (s\<lparr>sh_fs := f\<rparr>) fn))"

definition cmd_cat :: "'r remote \<Rightarrow> 'r shell \<Rightarrow> string \<Rightarrow> 'r shell option" where
  "cmd_cat rem s cmd =
     (let fn = skip_spaces (drop 4 cmd) in
      if strcmp fn ''h'' = 0 then Some (say s ''usage: cat <path>'')
      else if path_is_sftp fn then
        let ((rc, buf, msg), r) = rem_read rem (sftp_subpath fn) (sh_remote s); s = s\<lparr>sh_remote := r\<rparr>
        in Some (say s (if rc = 0 \<and> buf \<noteq> None then text_of (take (OUT_BUF_SIZE - 1) (the buf))
                        else if msg \<noteq> [] then msg else ''ERR: SFTP Cat Failed.''))
      else cat_local s fn)"

section \<open>Copying and moving\<close>

definition copy_local :: "'r shell \<Rightarrow> string \<Rightarrow> string \<Rightarrow> (int \<times> 'r shell) option" where
  "copy_local s src dst =
     (case load_file_bytes_alloc (sh_fs s) (sh_heap s) (sh_win s) src of
        None \<Rightarrow> None
      | Some ((rc, buf), w, f, h) \<Rightarrow>
        let s = s\<lparr>sh_fs := f, sh_win := w, sh_heap := h\<rparr> in
        (case buf of
           None \<Rightarrow> Some (-1, say s ''ERR: Source Read Failed.'')
         | Some (p, bs) \<Rightarrow>
           if rc \<noteq> 0 then Some (-1, say s ''ERR: Source Read Failed.'')
           else case store_file_bytes f w dst bs of
               None \<Rightarrow> None
             | Some (rc, f) \<Rightarrow>
                 let s = s\<lparr>sh_fs := f, sh_heap := free h p\<rparr>
                 in Some (if rc \<noteq> 0 then (-1, say s ''ERR: Destination Write Failed.'') else (0, say s ''>> Copied.''))))"

definition copy_between_paths :: "'r remote \<Rightarrow> 'r shell \<Rightarrow> string \<Rightarrow> string \<Rightarrow> (int \<times> 'r shell) option" where
  "copy_between_paths rem s src dst =
     (let s = say s []; src_sftp = path_is_sftp src; dst_sftp = path_is_sftp dst in
      if \<not> src_sftp \<and> \<not> dst_sftp then copy_local s src dst
      else if \<not> src_sftp then
        let ((rc, out), f, w, r) = rem_put rem (sh_fs s) (sh_win s) src (sftp_subpath dst) (sh_remote s);
            s = say (s\<lparr>sh_fs := f, sh_win := w, sh_remote := r\<rparr>) out
        in Some (if rc \<noteq> 0 then -1 else 0, s)
      else let ((rc, buf, msg), r) = rem_read rem (sftp_subpath src) (sh_remote s); s = s\<lparr>sh_remote := r\<rparr> in
        case (if rc \<noteq> 0 then None else buf) of
          None \<Rightarrow> Some (-1, say s (if msg \<noteq> [] then msg else ''ERR: SFTP Read Failed.''))
        | Some bs \<Rightarrow>
          if \<not> dst_sftp then
            map_option (\<lambda>(rc, f). let s = s\<lparr>sh_fs := f\<rparr> in
                if rc \<noteq> 0 then (-1, say s ''ERR: Destination Write Failed.'') else (0, say s ''>> Copied.''))
              (store_file_bytes (sh_fs s) (sh_win s) dst bs)
          else let ((rc, out), r) = rem_write rem (sftp_subpath dst) bs (sh_remote s)
               in Some (if rc \<noteq> 0 then -1 else 0, say (s\<lparr>sh_remote := r\<rparr>) out))"

text \<open>The path of a child: a slash is added when there is none; the buffer holds \<open>cap\<close> bytes.\<close>

definition child_path :: "nat \<Rightarrow> string \<Rightarrow> string \<Rightarrow> string option" where
  "child_path cap path name = fits cap ((if path \<noteq> [] \<and> last path \<noteq> CHR ''/'' then lib_strcat path ''/'' else path) @ name)"

text \<open>A loop over the children that returns at the first failure.\<close>

definition until_failure :: "('a \<Rightarrow> 'r shell \<Rightarrow> (int \<times> 'r shell) option) \<Rightarrow> 'a list \<Rightarrow> 'r shell \<Rightarrow> (int \<times> 'r shell) option" where
  "until_failure act xs s =
     foldl (\<lambda>r x. Option.bind r (\<lambda>(rc, s). if rc \<noteq> 0 then Some (rc, s) else act x s)) (Some (0, s)) xs"

text \<open>Storing what was read from a source into the child of the destination.\<close>

definition store_child :: "'r shell \<Rightarrow> string \<Rightarrow> u8 list \<Rightarrow> string \<Rightarrow> (int \<times> 'r shell) option" where
  "store_child s child_dst bs msg =
     map_option (\<lambda>(rc, f). let s = s\<lparr>sh_fs := f\<rparr> in if rc \<noteq> 0 then (-1, say s msg) else (0, s))
       (store_file_bytes (sh_fs s) (sh_win s) child_dst bs)"

definition copy_entry :: "(nat \<Rightarrow> string \<Rightarrow> 'r shell \<Rightarrow> (int \<times> 'r shell) option) \<Rightarrow> mem8 \<Rightarrow> nat \<Rightarrow> string \<Rightarrow> nat \<Rightarrow>
    'r shell \<Rightarrow> (int \<times> 'r shell) option" where
  "copy_entry visit m src_bno dst_path i s =
     (if e_free m i then Some (0, s)
      else case child_path 128 dst_path (e_name m i) of
        None \<Rightarrow> None
      | Some child_dst \<Rightarrow>
        if e_type m i = 1 then visit (e_bno m i) child_dst s
        else case load_file_bytes_alloc (sh_fs s) (sh_heap s) (tmp_window src_bno ''/root'') (e_name m i) of
            None \<Rightarrow> None
          | Some ((rc, buf), _, f, h) \<Rightarrow>
            let s = s\<lparr>sh_fs := f, sh_heap := h\<rparr> in
            (case (if rc \<noteq> 0 then None else buf) of
               None \<Rightarrow> Some (-1, say s ''ERR: file read failed.'')
             | Some (p, bs) \<Rightarrow>
                 map_option (\<lambda>(rc, s). (rc, s\<lparr>sh_heap := free (sh_heap s) p\<rparr>))
                   (store_child s child_dst bs ''ERR: file write failed.'')))"

text \<open>Nested calls as in \<open>recursive_find\<close>: the first argument is the room on the stack.\<close>

primrec copy_local_dir_recursive :: "nat \<Rightarrow> nat \<Rightarrow> string \<Rightarrow> 'r shell \<Rightarrow> (int \<times> 'r shell) option" where
  "copy_local_dir_recursive 0 src_bno dst_path s = None"
| "copy_local_dir_recursive (Suc room) src_bno dst_path s =
     (case local_mkdir_path (sh_fs s) (sh_win s) dst_path of
        None \<Rightarrow> None
      | Some (rc, f) \<Rightarrow>
        let s = s\<lparr>sh_fs := f\<rparr> in
        if rc \<noteq> 0 then Some (-1, say s ''ERR: mkdir failed.'')
        else case read_stack_blk f src_bno of
            None \<Rightarrow> None
          | Some m \<Rightarrow>
            if db_magic m \<noteq> FS_MAGIC then Some (-1, say s ''ERR: bad source dir.'')
            else until_failure (copy_entry (\<lambda>b d s. copy_local_dir_recursive room b d s) m src_bno dst_path)
                   [0 ..< MAX_DIR_ENTRIES] s)"

text \<open>The lines of a remote listing, at most 159 characters at a time.\<close>

definition next_line :: "string \<Rightarrow> (string \<times> string) option" where
  "next_line p =
     (let p = dropWhile (\<lambda>c. c = NL \<or> c = CHR 0x0D) p in
      if p = [] then None
      else let line = take 159 (takeWhile (\<lambda>c. c \<noteq> NL) p); rest = drop (length line) p
           in Some (line, if rest \<noteq> [] \<and> hd rest = NL then drop 1 rest else rest))"

lemma next_line_shorter:
  assumes "next_line p = Some (line, rest)"
  shows "length rest < length p"
proof -
  define q where "q = dropWhile (\<lambda>c. c = NL \<or> c = CHR 0x0D) p"
  have q: "q \<noteq> []" using assms by (auto simp: next_line_def q_def Let_def split: if_splits)
  have "hd q \<noteq> NL" using hd_dropWhile [of "\<lambda>c. c = NL \<or> c = CHR 0x0D" p] q by (auto simp: q_def)
  then have line: "0 < length (take 159 (takeWhile (\<lambda>c. c \<noteq> NL) q))" using q by (cases q) auto
  have "length q \<le> length p" by (simp add: q_def length_dropWhile_le)
  moreover have "length rest \<le> length (drop (length (take 159 (takeWhile (\<lambda>c. c \<noteq> NL) q))) q)"
    using assms q by (auto simp: next_line_def Let_def q_def split: if_splits)
  moreover have "0 < length q" using q by simp
  ultimately show ?thesis using line unfolding length_drop by linarith
qed

function sftp_lines :: "string \<Rightarrow> string list" where
  "sftp_lines p = (case next_line p of None \<Rightarrow> [] | Some (line, rest) \<Rightarrow> line # sftp_lines rest)"
  by pat_completeness auto
termination by (relation "measure length") (auto dest: next_line_shorter)

declare sftp_lines.simps [simp del]

definition copy_remote_line :: "'r remote \<Rightarrow> (string \<Rightarrow> string \<Rightarrow> 'r shell \<Rightarrow> (int \<times> 'r shell) option) \<Rightarrow> string \<Rightarrow> string \<Rightarrow>
    string \<Rightarrow> 'r shell \<Rightarrow> (int \<times> 'r shell) option" where
  "copy_remote_line rem visit src_remote dst_path line s =
     (if length line < 3 \<or> line ! 1 \<noteq> CHR '' '' then Some (0, s)
      else let kind = hd line; name = take 95 (drop 2 line) in
        if name = [] \<or> strcmp name ''.'' = 0 \<or> strcmp name ''..'' = 0 then Some (0, s)
        else case (child_path 192 src_remote name, child_path 128 dst_path name) of
            (Some src_child, Some dst_child) \<Rightarrow>
              if kind = CHR ''d'' then visit src_child dst_child s
              else if kind = CHR ''f'' then
                let ((rc, buf, msg), r) = rem_read rem src_child (sh_remote s); s = s\<lparr>sh_remote := r\<rparr> in
                (case (if rc \<noteq> 0 then None else buf) of
                   None \<Rightarrow> Some (-1, say s (if msg \<noteq> [] then msg else ''ERR: SFTP read failed.''))
                 | Some bs \<Rightarrow> store_child s dst_child bs ''ERR: local write failed.'')
              else Some (0, s)
          | _ \<Rightarrow> None)"

primrec copy_sftp_dir_to_local_recursive ::
    "nat \<Rightarrow> 'r remote \<Rightarrow> string \<Rightarrow> string \<Rightarrow> 'r shell \<Rightarrow> (int \<times> 'r shell) option" where
  "copy_sftp_dir_to_local_recursive 0 rem src_remote dst_path s = None"
| "copy_sftp_dir_to_local_recursive (Suc room) rem src_remote dst_path s =
     (case local_mkdir_path (sh_fs s) (sh_win s) dst_path of
        None \<Rightarrow> None
      | Some (rc, f) \<Rightarrow>
        let s = s\<lparr>sh_fs := f\<rparr> in
        if rc \<noteq> 0 then Some (-1, say s ''ERR: mkdir failed.'')
        else let ((rc, list_out), r) = rem_ls rem src_remote False (sh_remote s); s = s\<lparr>sh_remote := r\<rparr> in
          if rc \<noteq> 0 then Some (-1, say s ''ERR: SFTP list failed.'')
          else until_failure
                 (copy_remote_line rem (\<lambda>a d s. copy_sftp_dir_to_local_recursive room rem a d s) src_remote dst_path)
                 (sftp_lines list_out) s)"

text \<open>Two path arguments and nothing behind them.\<close>

definition two_paths :: "string \<Rightarrow> (string \<times> string) option" where
  "two_paths args =
     (if args = [] \<or> strcmp args ''h'' = 0 then None
      else let src = takeWhile (\<lambda>c. c \<noteq> CHR '' '') args; dst = skip_spaces (drop (length src) args) in
        if dst = [] then None
        else case strchr dst (CHR '' '') of
            None \<Rightarrow> Some (src, dst)
          | Some p \<Rightarrow> if skip_spaces (drop (p + 1) dst) \<noteq> [] then None else Some (src, take p dst))"

text \<open>The destination of \<open>cp -r\<close>: below an existing directory, otherwise the given path.\<close>

definition recursive_dst :: "fs \<Rightarrow> fs_win \<Rightarrow> string \<Rightarrow> string \<Rightarrow> (string \<times> fs) option" where
  "recursive_dst f w dst name =
     (if strcmp dst ''.'' = 0 \<or> strcmp dst ''./'' = 0 then map_option (\<lambda>d. (d, f)) (child_path 128 ''.'' name)
      else case local_path_info f w dst of
          None \<Rightarrow> None
        | Some (info, f) \<Rightarrow>
            map_option (\<lambda>d. (d, f))
              (if info \<noteq> None \<and> fst (the info) = 1 then child_path 128 dst name else fits 128 dst))"

definition copied :: "(int \<times> 'r shell) option \<Rightarrow> 'r shell option" where
  "copied r = map_option (\<lambda>(rc, s). if rc = 0 then say s ''>> Copied.'' else s) r"

definition cp_recursive :: "nat \<Rightarrow> 'r remote \<Rightarrow> 'r shell \<Rightarrow> string \<Rightarrow> string \<Rightarrow> 'r shell option" where
  "cp_recursive room rem s src dst =
     (if path_is_sftp src \<and> \<not> path_is_sftp dst then
        let src_remote = sftp_subpath src in
        if src_remote = [] then Some (say s ''ERR: Source dir not found.'')
        else let name = copy_last_path_segment src_remote ''copy'' in
          case recursive_dst (sh_fs s) (sh_win s) dst (if name \<noteq> [] then name else ''copy'') of
            None \<Rightarrow> None
          | Some (final_dst, f) \<Rightarrow>
              copied (copy_sftp_dir_to_local_recursive room rem src_remote final_dst (s\<lparr>sh_fs := f\<rparr>))
      else if path_is_sftp dst then Some (say s ''ERR: cp -r local->SFTP not supported yet.'')
      else case local_path_info (sh_fs s) (sh_win s) src of
          None \<Rightarrow> None
        | Some (info, f) \<Rightarrow>
          (case info of
             Some (ty, src_bno, name) \<Rightarrow>
               if ty \<noteq> 1 then Some (say (s\<lparr>sh_fs := f\<rparr>) ''ERR: Source dir not found.'')
               else (case recursive_dst f (sh_win s) dst (if name \<noteq> [] then name else path_basename src) of
                       None \<Rightarrow> None
                     | Some (final_dst, f) \<Rightarrow> copied (copy_local_dir_recursive room src_bno final_dst (s\<lparr>sh_fs := f\<rparr>)))
           | None \<Rightarrow> Some (say (s\<lparr>sh_fs := f\<rparr>) ''ERR: Source dir not found.'')))"

definition cmd_cp :: "nat \<Rightarrow> 'r remote \<Rightarrow> 'r shell \<Rightarrow> string \<Rightarrow> 'r shell option" where
  "cmd_cp room rem s cmd =
     (let args = skip_spaces (drop 2 cmd);
          recursive = is_cmd ''-r'' args;
          args = (if recursive then skip_spaces (drop 2 args) else args)
      in case two_paths args of
           None \<Rightarrow> Some (say s ''usage: cp [-r] <src> <dst>'')
         | Some (src, dst) \<Rightarrow>
             if recursive then cp_recursive room rem s src dst
             else map_option snd (copy_between_paths rem s src dst))"

definition move_answer :: "int \<Rightarrow> string" where
  "move_answer rc =
     (if rc = 0 then ''>> Moved.'' else if rc = -3 then ''ERR: Source Not Found.''
      else if rc = -4 then ''ERR: Destination Exists.'' else if rc = -5 then ''ERR: Dir Full.''
      else if rc = -6 then ''ERR: Invalid Destination.'' else ''ERR: Move Failed.'')"

definition remote_unlink :: "'r remote \<Rightarrow> 'r shell \<Rightarrow> string \<Rightarrow> 'r shell" where
  "remote_unlink rem s path =
     (let ((_, out), r) = rem_unlink rem (sftp_subpath path) (sh_remote s) in say (s\<lparr>sh_remote := r\<rparr>) out)"

definition cmd_mv :: "'r remote \<Rightarrow> 'r shell \<Rightarrow> string \<Rightarrow> 'r shell option" where
  "cmd_mv rem s cmd =
     (let args = skip_spaces (drop (if char_at cmd 0 = CHR ''m'' \<and> char_at cmd 1 = CHR ''v'' then 2 else 6) cmd) in
      case two_paths args of
        None \<Rightarrow> Some (say s ''usage: mv <src> <dst>'')
      | Some (src, dst) \<Rightarrow>
        if \<not> path_is_sftp src \<and> \<not> path_is_sftp dst then
          map_option (\<lambda>(rc, f). say (s\<lparr>sh_fs := f\<rparr>) (move_answer rc)) (move_entry_named (sh_fs s) (sh_win s) src dst)
        else if path_is_sftp src \<and> path_is_sftp dst then
          let ((rc, out), r) = rem_rename rem (sftp_subpath src) (sftp_subpath dst) (sh_remote s);
              s = say (s\<lparr>sh_remote := r\<rparr>) out
          in if rc = 0 then Some s
             else map_option (\<lambda>(_, s). if sh_out s \<noteq> [] \<and> strncmp (sh_out s) ''ERR:'' 4 \<noteq> 0 then remote_unlink rem s src else s)
                    (copy_between_paths rem s src dst)
        else case copy_between_paths rem s src dst of
            None \<Rightarrow> None
          | Some (rc, s) \<Rightarrow>
              if rc \<noteq> 0 then Some s
              else if path_is_sftp src then Some (remote_unlink rem s src)
              else map_option (\<lambda>(rc, w, f). say (s\<lparr>sh_fs := f, sh_win := w\<rparr>)
                       (if rc = 0 then ''>> Moved.'' else ''ERR: Remove Source Failed.''))
                     (remove_entry_named (sh_fs s) (sh_win s) src))"

section \<open>The interpreter\<close>

text \<open>\<open>dbg\<close> are the eight words that \<open>ps_gem_get_debug\<close> fills in after the network chip was polled or started.\<close>

definition probe_name :: "u32 \<Rightarrow> string" where
  "probe_name d =
     (if d AND 0xfffffff0 = 0x45544880 then ''OK'' else if d AND 0xfffffff0 = 0x45544890 then ''DRIVER''
      else if d = 0x455448e0 then ''GEM_OFF'' else if d = 0x455448f0 then ''FAIL'' else ''unknown'')"

definition cmd_handle_ethstat :: "u32 list \<Rightarrow> string \<Rightarrow> string option option" where
  "cmd_handle_ethstat dbg cmd =
     (if \<not> is_cmd ''ethstat'' cmd then None
      else if char_at cmd 7 = CHR '' '' \<and> (char_at cmd 8 = CHR ''h'' \<or> char_at cmd 8 = CHR ''-'') then Some (Some ''usage: ethstat'')
      else let probe = VStr (Some (probe_name (dbg ! 7)));
               link = VStr (Some (if dbg ! 7 AND 1 \<noteq> 0 then ''up'' else ''down''))
           in Some (map_option fst
             (if dbg ! 7 AND 0xfffffff0 = 0x45544890
              then snprintf OUT_BUF_SIZE (''eth0: %s ip=192.168.0.154 link=%s'' @ [NL] @ ''nwcfg=%x nwctrl=%x nwsr=%x'' @ [NL] @
                       ''tx=%x rx=%x status=%x'')
                     [probe, link, VInt (dbg ! 0), VInt (dbg ! 1), VInt (dbg ! 2), VInt (dbg ! 5), VInt (dbg ! 6), VInt (dbg ! 7)]
              else snprintf OUT_BUF_SIZE (''eth0: phy %s link=%s'' @ [NL] @ ''nwcfg=%x nwctrl=%x nwsr=%x'' @ [NL] @
                       ''phyid=%x:%x bmsr=%x rc=%x status=%x'')
                     [probe, link, VInt (dbg ! 0), VInt (dbg ! 1), VInt (dbg ! 2), VInt (dbg ! 3 AND 0xffff),
                      VInt (dbg ! 4 AND 0xffff), VInt (dbg ! 6 AND 0xffff), VInt (dbg ! 5), VInt (dbg ! 7)])))"

definition cmd_handle_help :: "string \<Rightarrow> string option" where
  "cmd_handle_help cmd =
     (if \<not> is_cmd ''help'' cmd then None
      else Some (''Commands: ls, sd, sdls, find, mem, ethstat, df, du, mkdir, rm, mv, touch, cd, pwd, write, cat, wget, open, run, jit, gbemu, vim, asm, demo3d, frankenstein, netsurf, ssh, sftp, wrp, format, clear, env, export, unset, alias, unalias, source, ., echo'' @ [NL] @
        ''Type '' @ [CHR 0x27] @ ''<cmd> h'' @ [CHR 0x27] @ '' for usage.''))"

definition starts :: "string \<Rightarrow> string \<Rightarrow> bool" where
  "starts kw cmd \<longleftrightarrow> strncmp cmd kw (length kw) = 0"

text \<open>
  The chain of commands in the order of the code. \<open>ext\<close> stands for those that are not modelled:
  the JIT, the SD card, scripts, the clients of the network, games, the editor, the assembler,
  programs, the browser, and the answer to an unknown command.
\<close>

definition exec_file_cmd :: "nat \<Rightarrow> 'r remote \<Rightarrow> (string \<Rightarrow> 'r shell \<Rightarrow> 'r shell option) \<Rightarrow> string \<Rightarrow> 'r shell \<Rightarrow> 'r shell option" where
  "exec_file_cmd room rem ext cmd s =
     (if starts ''mkdir '' cmd then cmd_mkdir s cmd
      else if starts ''rm '' cmd then cmd_rm s cmd
      else if is_cmd ''cp'' cmd then cmd_cp room rem s cmd
      else if is_cmd ''mv'' cmd \<or> is_cmd ''rename'' cmd then cmd_mv rem s cmd
      else if starts ''touch '' cmd then cmd_touch s cmd
      else if starts ''write '' cmd then cmd_write s cmd
      else if starts ''cat '' cmd then cmd_cat rem s cmd
      else ext cmd s)"

definition exec_single_cmd_legacy ::
    "nat \<Rightarrow> 'r remote \<Rightarrow> (string \<Rightarrow> 'r shell \<Rightarrow> 'r shell option) \<Rightarrow> string \<Rightarrow> 'r shell \<Rightarrow> 'r shell option" where
  "exec_single_cmd_legacy room rem ext cmd s =
     (let s = say s [] in
      if is_cmd ''jit'' cmd then ext cmd s
      else if starts ''pwd'' cmd then Some (cmd_pwd s cmd)
      else if is_cmd ''df'' cmd then cmd_df s cmd
      else if strcmp cmd ''sdls'' = 0 \<or> starts ''sdls '' cmd \<or> strcmp cmd ''sd'' = 0 \<or> starts ''sd '' cmd then ext cmd s
      else if is_cmd ''du'' cmd then cmd_du s cmd
      else if starts ''format'' cmd then Some (cmd_format s cmd)
      else if starts ''cd '' cmd \<or> strcmp cmd ''cd'' = 0 then cmd_cd s cmd
      else if is_cmd ''alias'' cmd then Some (cmd_alias s cmd)
      else if is_cmd ''unalias'' cmd then Some (cmd_unalias s cmd)
      else if is_cmd ''source'' cmd \<or> is_cmd ''.'' cmd then ext cmd s
      else if is_cmd ''export'' cmd then Some (cmd_export s cmd)
      else if is_cmd ''unset'' cmd then Some (cmd_unset s cmd)
      else if strcmp cmd ''env'' = 0 \<or> starts ''printenv'' cmd then Some (cmd_env s)
      else if starts ''find '' cmd then cmd_find room s cmd
      else if is_cmd ''ls'' cmd then cmd_ls rem s cmd
      else if is_cmd ''sftp'' cmd \<or> is_cmd ''ssh'' cmd \<or> is_cmd ''wrp'' cmd then ext cmd s
      else exec_file_cmd room rem ext cmd s)"

definition exec_single_cmd ::
    "nat \<Rightarrow> kinfo \<Rightarrow> u32 list \<Rightarrow> 'r remote \<Rightarrow> (string \<Rightarrow> 'r shell \<Rightarrow> 'r shell option) \<Rightarrow> string \<Rightarrow> 'r shell \<Rightarrow> 'r shell option" where
  "exec_single_cmd room k dbg rem ext cmd s =
     (let s = say s [] in
      case cmd_handle_mem (k\<lparr>ki_heap := sh_heap s\<rparr>) cmd of
        Some r \<Rightarrow> map_option (say s) r
      | None \<Rightarrow>
        (case cmd_handle_ethstat dbg cmd of
           Some r \<Rightarrow> map_option (say s) r
         | None \<Rightarrow>
           (case cmd_handle_help cmd of
              Some out \<Rightarrow> Some (say s out)
            | None \<Rightarrow> exec_single_cmd_legacy room rem ext cmd s)))"

end
