(* ===== verification/ShellFiles.thy ===== *)
theory ShellFiles
  imports ShellFs
begin

text \<open>
  What the file commands of the terminal do: a written text is shown by \<open>cat\<close>, a copy has the
  bytes of its source, and \<open>rm\<close> never removes a directory. The names are plain: one component
  without a blank, which is looked up in the current directory.
\<close>

section \<open>Plain names\<close>

definition plain_name :: "string \<Rightarrow> bool" where
  "plain_name n \<longleftrightarrow> plain_component n \<and> CHR '' '' \<notin> set n \<and> hd n \<noteq> CHR ''~'' \<and> n \<noteq> ''h'' \<and> \<not> path_is_sftp n"

lemma plain_chars:
  assumes "plain_name n"
  shows "n \<noteq> []" "length n \<le> 19" "cstr n" "CHR ''/'' \<notin> set n" "CHR '' '' \<notin> set n" "\<not> needs_resolve n"
    "\<forall>c \<in> set n. \<not> is_blank c" "n \<noteq> ''.''" "n \<noteq> ''..''"
proof -
  have c: "component n" "hd n \<noteq> CHR ''~''" "CHR '' '' \<notin> set n" "n \<noteq> ''.''" "n \<noteq> ''..''"
    using assms unfolding plain_name_def plain_component_def by blast+
  have p: "\<And>x. x \<in> set n \<Longrightarrow> printable x" and 1: "n \<noteq> []" "length n \<le> 19" "CHR ''/'' \<notin> set n"
    using c(1) unfolding component_def by blast+
  show "n \<noteq> []" "length n \<le> 19" "CHR ''/'' \<notin> set n" "CHR '' '' \<notin> set n" "n \<noteq> ''.''" "n \<noteq> ''..''"
    using 1 c by blast+
  have "\<not> printable NUL" "\<not> printable (CHR 0x09)" by (simp_all add: printable_def)
  then show "cstr n" "\<forall>x \<in> set n. \<not> is_blank x"
    using p c(3) by (auto simp only: cstr_def is_blank_def)
  have "strchr n (CHR ''/'') = None" using 1(3) by (induction n) auto
  then show "\<not> needs_resolve n" using 1(1) c(2) by (cases n) (simp_all add: needs_resolve_def)
qed

lemma strcmp_eq: "strcmp s t = 0 \<longleftrightarrow> s = t" if "cstr s" "cstr t"
  using that by (induction s t rule: strcmp.induct) (auto simp: c2b_def)

lemma expand_plain_name: "plain_name n \<Longrightarrow> expand_128 w n = n"
  using plain_chars(1,2) [of n] expand_plain [of n "shell_win.truncate w" 128]
  by (simp add: expand_128_def plain_name_def)

lemma editor_plain:
  assumes n: "plain_name n" and cwd: "length (win_cwd w) < 128"
  shows "resolve_editor_target 128 f w n = Some (Some (bno_or_root (win_cwd_bno w), cwd_or_root (win_cwd w), n), f)"
proof -
  note c = plain_chars [OF n]
  have whole: "terminal_expand_home_path (shell_win.truncate w) n 128 = n"
    using expand_plain_name [OF n, of w] by (simp add: expand_128_def)
  have front: "dropWhile is_blank n = n" using c(1,7) by (cases n) auto
  have "dropWhile is_blank (rev n) = rev n" using c(1,7) by (simp add: dropWhile_eq_self_iff hd_rev)
  then have bk: "rev (dropWhile is_blank (rev n)) = n" by simp
  have ends: "last n \<noteq> CHR ''/''" "hd n \<noteq> CHR ''/''" using c(1,4) last_in_set [of n] hd_in_set [of n] by metis+
  have seg: "takeWhile (\<lambda>c. c \<noteq> CHR ''/'') n = n" using c(4) by (auto simp: takeWhile_eq_all_conv)
  have fit: "fits 128 (cwd_or_root (win_cwd w)) = Some (cwd_or_root (win_cwd w))"
    using cwd by (auto simp: fits_def cwd_or_root_def)
  have b: "bno_or_root (bno_or_root b) = bno_or_root b" "cwd_or_root (cwd_or_root s) = cwd_or_root s" for b s
    by (auto simp: bno_or_root_def cwd_or_root_def)
  have "editor_loop False 128 f (bno_or_root (win_cwd_bno w)) (cwd_or_root (win_cwd w)) n =
    Some (Some (bno_or_root (win_cwd_bno w), cwd_or_root (win_cwd w), n), f)"
    using c(1,2,8,9) fit b by (subst editor_loop.simps, unfold seg Let_def) (simp add: skip_slashes_def copy_name20_def)
  then show ?thesis
    unfolding resolve_editor_target_def whole front bk Let_def using c(1) ends by simp
qed

lemma load_tmp:
  assumes "map_inv f" "d < 512" "db_magic (disk f d) = FS_MAGIC"
  shows "\<exists>w. load_current_dir f (tmp_window d cwd) = Some (Some (tmp_view f d), w, f)"
proof -
  have "fs_ready f = f" using assms(1) by (simp add: map_inv_def fs_ready_def)
  moreover have "le32 (tmp_view f d) 0 = le32 (disk f d) 0" by (rule le32_cong) (simp add: tmp_view_def)
  ultimately show ?thesis using assms(2,3)
    by (simp add: load_current_dir_def disk_read_def tmp_window_def tmp_view_def [symmetric] db_magic_def)
qed

definition names_dir :: "mem8 \<Rightarrow> string \<Rightarrow> bool" where
  "names_dir m n \<longleftrightarrow> (\<exists>i. find_entry_index m n (-1) = Some i \<and> e_type m i = 1 \<and> e_bno m i \<noteq> 0)"

lemma check_plain:
  assumes f: "map_inv f" "d \<noteq> 0" "d < 512" "db_magic (disk f d) = FS_MAGIC"
    and w: "win_cwd_bno w = d" "length (win_cwd w) < 128" and n: "plain_name n"
  shows "check_dir_and_list f w n =
    (case find_entry_index (tmp_view f d) n (-1) of
       Some i \<Rightarrow> if e_type (tmp_view f d) i = 1 \<and> e_bno (tmp_view f d) i \<noteq> 0
                then map_option (\<lambda>(out, f). (Some out, f)) (list_dir_contents f (e_bno (tmp_view f d) i))
                else Some (None, f)
     | None \<Rightarrow> Some (None, f))"
proof -
  note c = plain_chars [OF n]
  obtain w' where ld: "load_current_dir f (tmp_window d []) = Some (Some (tmp_view f d), w', f)"
    using load_tmp [OF f(1,3,4)] by blast
  have dot: "strcmp n ''.'' \<noteq> 0" using strcmp_eq [OF c(3), of "''.''"] c(8) by simp
  have b: "bno_or_root d = d" using f(2) by (simp add: bno_or_root_def)
  show ?thesis
    unfolding check_dir_and_list_def expand_plain_name [OF n] editor_plain [OF n w(2)] w(1) b
    using c(1) dot ld by (simp split: option.split)
qed

section \<open>Writing and showing a text\<close>

text \<open>
  A name that can be stored: a file with an entry in the block, or an unused name with room for
  an entry. Entry 102, which lies half behind the block, is unused.
\<close>

definition storable :: "fs \<Rightarrow> nat \<Rightarrow> string \<Rightarrow> bool" where
  "storable f d n \<longleftrightarrow> e_free (disk f d) 102 \<and>
     ((\<exists>i < 102. find_entry_index (stack_view f d) n (-1) = Some i \<and> e_type (disk f d) i \<noteq> 1) \<or>
     find_entry_index (stack_view f d) n (-1) = None \<and> (\<exists>i < 102. e_free (disk f d) i))"

lemma tmp_view_entry: "j < 102 \<Longrightarrow> same_entry (tmp_view f d) (disk f d) j"
  by (rule same_entry_view) (simp_all add: tmp_view_def)

lemma tmp_view_free: "e_free (disk f d) 102 \<Longrightarrow> 102 \<le> j \<Longrightarrow> e_free (tmp_view f d) j"
  by (cases "j = 102") (auto simp: e_free_def entry_off_def tmp_view_def)

lemma storable_not_dir:
  assumes "storable f d n" "length n \<le> 19"
  shows "\<not> names_dir (tmp_view f d) n"
proof
  assume "names_dir (tmp_view f d) n"
  then obtain i where i: "find_entry_index (tmp_view f d) n (-1) = Some i" "e_type (tmp_view f d) i = 1"
    by (auto simp: names_dir_def)
  then have lt: "i < 102" using find_entry_Some [OF i(1)] tmp_view_free [of f d i] assms(1) unfolding storable_def by (meson not_le)
  then have "find_entry_index (stack_view f d) n (-1) = Some i"
    using find_entry_view [OF i(1), of "stack_view f d"] assms(2) by (simp add: tmp_view_def stack_view_def)
  then show False using assms(1) i(2) same_entry_fields(2) [OF tmp_view_entry [OF lt]] by (auto simp: storable_def)
qed

lemma check_not_dir:
  assumes "map_inv f" "d \<noteq> 0" "d < 512" "db_magic (disk f d) = FS_MAGIC"
    and "win_cwd_bno w = d" "length (win_cwd w) < 128" "plain_name n" "\<not> names_dir (tmp_view f d) n"
  shows "check_dir_and_list f w n = Some (None, f)"
  using check_plain [OF assms(1-7)] assms(8) by (auto simp: names_dir_def split: option.split)

lemma unless_not_dir:
  assumes "dir_files (sh_fs s) d own" "win_cwd_bno (sh_win s) = d" "length (win_cwd (sh_win s)) < 128"
    "plain_name n" "storable (sh_fs s) d n"
  shows "unless_dir s n act = act s"
proof -
  have d: "map_inv (sh_fs s)" "d \<noteq> 0" "d < 512" "db_magic (disk (sh_fs s) d) = FS_MAGIC"
    using assms(1) by (simp_all add: dir_files_def)
  have "check_dir_and_list (sh_fs s) (sh_win s) n = Some (None, sh_fs s)"
    by (rule check_not_dir [OF d assms(2-4) storable_not_dir [OF assms(5)]]) (rule plain_chars(2) [OF assms(4)])
  then show ?thesis by (simp add: unless_dir_def)
qed

lemma stored_as_file:
  assumes df: "dir_files f d own" and d: "win_cwd_bno w = d" and n: "plain_name n"
    and st: "store_file_bytes f w n data = Some (0, f')"
  shows "\<forall>i. find_entry_index (tmp_view f' d) n (-1) = Some i \<longrightarrow> e_type (tmp_view f' d) i \<noteq> 1"
proof -
  note c = plain_chars [OF n]
  obtain idx r created where S: "idx < 102"
    "(case find_entry_index (stack_view f d) n (-1) of Some i \<Rightarrow> Some i
        | None \<Rightarrow> find_free_entry_index (stack_view f d)) = Some idx"
    "disk f' d = cut_block (write_entry (stack_view f d) idx n r (length data) created (fs_now f))"
    by (rule store_dir [OF df d c(6,2) st])
  have view: "tmp_view f' d i = write_entry (stack_view f d) idx n r (length data) created (fs_now f) i" if "i < 4096" for i
    using that by (simp add: tmp_view_def S(3) cut_view)
  have fd: "find_entry_index (tmp_view f' d) n (-1) = Some idx"
    by (rule find_type_after_write [OF _ c(3,2,1) S(2) _ view]) (use S(1) entry_in_block_iff in auto)
  have "e_type (tmp_view f' d) idx = 0"
    using same_entry_fields(2) [OF same_entry_view [OF view S(1)]] write_entry_fields(5) [OF c(3,2)] by simp
  then show ?thesis using fd by simp
qed

lemma text_of_stored: "cstr t \<Longrightarrow> text_of (map c2b t) = t"
  by (simp add: text_of_def comp_def takeWhile_eq_all_conv cstr_def) metis

lemma cat_plain:
  assumes "map_inv (sh_fs s)" "d \<noteq> 0" "d < 512" "db_magic (disk (sh_fs s) d) = FS_MAGIC"
    and w: "win_cwd_bno (sh_win s) = d" "length (win_cwd (sh_win s)) < 128" and n: "plain_name n"
    and z: "\<forall>i. find_entry_index (tmp_view (sh_fs s) d) n (-1) = Some i \<longrightarrow> e_type (tmp_view (sh_fs s) d) i \<noteq> 1"
  shows "cat_local s n = cat_file s n"
proof -
  note c = plain_chars [OF n]
  obtain w' where ld: "load_current_dir (sh_fs s) (tmp_window d []) = Some (Some (tmp_view (sh_fs s) d), w', sh_fs s)"
    using load_tmp [OF assms(1,3,4)] by blast
  have dot: "strcmp n ''.'' \<noteq> 0" using strcmp_eq [OF c(3), of "''.''"] c(8) by simp
  have b: "bno_or_root d = d" using assms(2) by (simp add: bno_or_root_def)
  show ?thesis
    unfolding cat_local_def expand_plain_name [OF n] editor_plain [OF n w(2)] w(1) b
    using c(1) dot ld z by (simp split: option.split)
qed

lemma dispatch_write:
  "exec_single_cmd room k dbg rem ext (''write '' @ r) s = cmd_write (say s []) (''write '' @ r)"
  by (simp add: exec_single_cmd_def cmd_handle_mem_def after_word_def cmd_handle_ethstat_def cmd_handle_help_def
      exec_single_cmd_legacy_def exec_file_cmd_def is_cmd_def starts_def say_def c2b_def)

lemma dispatch_cat:
  "exec_single_cmd room k dbg rem ext (''cat '' @ r) s = cmd_cat rem (say s []) (''cat '' @ r)"
  by (simp add: exec_single_cmd_def cmd_handle_mem_def after_word_def cmd_handle_ethstat_def cmd_handle_help_def
      exec_single_cmd_legacy_def exec_file_cmd_def is_cmd_def starts_def say_def c2b_def)

lemma dispatch_rm:
  "exec_single_cmd room k dbg rem ext (''rm '' @ r) s = cmd_rm (say s []) (''rm '' @ r)"
  by (simp add: exec_single_cmd_def cmd_handle_mem_def after_word_def cmd_handle_ethstat_def cmd_handle_help_def
      exec_single_cmd_legacy_def exec_file_cmd_def is_cmd_def starts_def say_def c2b_def)

lemma dispatch_cp:
  "exec_single_cmd room k dbg rem ext (''cp '' @ r) s = cmd_cp room rem (say s []) (''cp '' @ r)"
  by (simp add: exec_single_cmd_def cmd_handle_mem_def after_word_def cmd_handle_ethstat_def cmd_handle_help_def
      exec_single_cmd_legacy_def exec_file_cmd_def is_cmd_def starts_def say_def c2b_def)

lemma strchr_at: "c \<notin> set a \<Longrightarrow> strchr (a @ c # b) c = Some (length a)"
  by (induction a) auto

lemma skip_name: "plain_name n \<Longrightarrow> skip_spaces (n @ r) = n @ r"
  using plain_chars(1,5) [of n] by (cases n) (auto simp: skip_spaces_def)

lemma say_fields [simp]:
  "sh_fs (say s m) = sh_fs s" "sh_win (say s m) = sh_win s" "sh_out (say s m) = m" "sh_heap (say s m) = sh_heap s"
  by (simp_all add: say_def lib_strcpy_def)

lemma not_help: "plain_name n \<Longrightarrow> strcmp n ''h'' \<noteq> 0"
  using strcmp_eq [of n "''h''"] plain_chars(3) [of n] by (simp add: plain_name_def)

lemma write_plain:
  assumes "dir_files (sh_fs s) d own" "win_cwd_bno (sh_win s) = d" "length (win_cwd (sh_win s)) < 128"
    "plain_name n" "storable (sh_fs s) d n" "t = [] \<or> hd t \<noteq> CHR '' ''"
  shows "exec_single_cmd room k dbg rem ext (''write '' @ n @ '' '' @ t) s =
    store_as (say s []) n t ''>> Written.'' ''ERR: Write Failed.''"
proof -
  have "strchr (n @ CHR '' '' # t) (CHR '' '') = Some (length n)" using plain_chars(5) [OF assms(4)] by (rule strchr_at)
  moreover have "skip_spaces t = t" using assms(6) by (cases t) (auto simp: skip_spaces_def)
  ultimately have "cmd_write (say s []) (''write '' @ n @ '' '' @ t) =
      unless_dir (say s []) n (\<lambda>s. store_as s n t ''>> Written.'' ''ERR: Write Failed.'')"
    using not_help [OF assms(4)] by (simp add: cmd_write_def)
  also have "\<dots> = store_as (say s []) n t ''>> Written.'' ''ERR: Write Failed.''"
    by (rule unless_not_dir [of _ d own]) (use assms in simp_all)
  finally show ?thesis by (simp add: dispatch_write del: append.simps append_Cons)
qed

lemma cat_plain_file:
  assumes df: "dir_files (sh_fs s) d own" and w: "win_cwd_bno (sh_win s) = d" "length (win_cwd (sh_win s)) < 128"
    and n: "plain_name n" and nd: "\<forall>i. find_entry_index (tmp_view (sh_fs s) d) n (-1) = Some i \<longrightarrow> e_type (tmp_view (sh_fs s) d) i \<noteq> 1"
    and ld: "map_option fst (load_file_bytes (sh_fs s) (sh_win s) n 2047) = Some (0, map c2b t)" and t: "cstr t"
  shows "\<exists>s'. exec_single_cmd room k dbg rem ext (''cat '' @ n) s = Some s' \<and> sh_out s' = t"
proof -
  have d: "map_inv (sh_fs s)" "d \<noteq> 0" "d < 512" "db_magic (disk (sh_fs s) d) = FS_MAGIC"
    using df by (simp_all add: dir_files_def)
  have "exec_single_cmd room k dbg rem ext (''cat '' @ n) s = cat_local (say s []) n"
    using not_help [OF n] skip_name [OF n, of "[]"] n
    by (simp add: dispatch_cat cmd_cat_def plain_name_def del: append.simps append_Cons) (simp add: cmd_cat_def plain_name_def)
  also have "\<dots> = cat_file (say s []) n" by (rule cat_plain [of _ d]) (use d w n nd in simp_all)
  finally show ?thesis using ld text_of_stored [OF t] by (auto simp: cat_file_def)
qed

text \<open>
  C4: Writing a text and showing it: with intact files in the current directory, room on the
  disk and a name that can be stored, the command \<open>write NAME TEXT\<close> answers \<open>>> Written.\<close>, keeps
  every file of the directory intact, and \<open>cat NAME\<close> then shows exactly the text, for every text
  of up to 2047 characters that does not start with a blank.
\<close>

theorem write_then_cat:
  assumes "dir_files (sh_fs s) d own" "win_cwd_bno (sh_win s) = d" "length (win_cwd (sh_win s)) < 128"
    and "plain_name n" "storable (sh_fs s) d n"
    and "cstr t" "t = [] \<or> hd t \<noteq> CHR '' ''" "length t \<le> 2047"
    and "free_blocks (sh_fs s) \<noteq> {}" "length t \<le> 4088 * card (free_blocks (sh_fs s))"
  shows "\<exists>s1 s2 own'. exec_single_cmd room k dbg rem ext (''write '' @ n @ '' '' @ t) s = Some s1 \<and>
    sh_out s1 = ''>> Written.'' \<and> dir_files (sh_fs s1) d own' \<and>
    exec_single_cmd room k dbg rem ext (''cat '' @ n) s1 = Some s2 \<and> sh_out s2 = t"
proof -
  note c = plain_chars [OF assms(4)]
  obtain f' where st: "store_file_bytes (sh_fs s) (sh_win s) n (map c2b t) = Some (0, f')"
    using store_succeeds [OF assms(1,2) c(6,2), of "map c2b t"] assms(5,9,10) by (auto simp: storable_def)
  have "\<exists>own'. dir_files f' d own' \<and>
    (\<forall>w' mx. win_cwd_bno w' = d \<and> length (map c2b t) \<le> mx \<longrightarrow>
       map_option fst (load_file_bytes f' w' n mx) = Some (0, map c2b t))"
    using store_load [OF assms(1,2) c(3,1,2,6) _ st] assms(8) by auto
  then obtain own' where df: "dir_files f' d own'" and
    ld: "map_option fst (load_file_bytes f' (sh_win s) n 2047) = Some (0, map c2b t)"
    using assms(2,8) by auto
  define s1 where "s1 = say (say s []\<lparr>sh_fs := f'\<rparr>) ''>> Written.''"
  have s1: "sh_fs s1 = f'" "sh_win s1 = sh_win s" "sh_out s1 = ''>> Written.''" by (simp_all add: s1_def say_def lib_strcpy_def)
  have w: "exec_single_cmd room k dbg rem ext (''write '' @ n @ '' '' @ t) s = Some s1"
    using write_plain [OF assms(1-5,7)] st by (simp add: store_as_def s1_def)
  moreover have "\<exists>s2. exec_single_cmd room k dbg rem ext (''cat '' @ n) s1 = Some s2 \<and> sh_out s2 = t"
    by (rule cat_plain_file [of s1 d own']) (use df ld assms(2,3,4,6) stored_as_file [OF assms(1,2,4) st] in \<open>simp_all add: s1\<close>)
  ultimately show ?thesis using df s1 by blast
qed

definition demo_shell :: "heap \<Rightarrow> unit shell" where
  "demo_shell h = \<lparr>sh_fs = formatted, sh_win = tmp_window 1 ''/root'', sh_heap = h, sh_out = [], sh_rows = [],
     sh_wins = [], sh_remote = ()\<rparr>"

lemma plain_a: "plain_name ''a''"
  by (simp add: plain_name_def plain_component_def component_def printable_def path_is_sftp_def has_mount_prefix_def c2b_def)

lemma storable_a: "storable formatted 1 ''a''"
  using formatted_entry formatted_ok(4) by (simp add: storable_def)

lemma demo_shell_ok:
  "dir_files (sh_fs (demo_shell h)) 1 (\<lambda>_. [])" "win_cwd_bno (sh_win (demo_shell h)) = 1"
  "length (win_cwd (sh_win (demo_shell h))) < 128" "sh_fs (demo_shell h) = formatted"
  using formatted_ok(1) by (simp_all add: demo_shell_def tmp_window_def)

theorem write_then_cat_witness:
  "\<exists>s1 s2. exec_single_cmd 12 undefined [] undefined undefined ''write a hello'' (demo_shell undefined) = Some s1 \<and>
    exec_single_cmd 12 undefined [] undefined undefined ''cat a'' s1 = Some s2 \<and> sh_out s2 = ''hello''"
  using write_then_cat [OF demo_shell_ok(1-3) plain_a, of undefined "''hello''" 12 undefined "[]" undefined undefined]
    storable_a formatted_ok(2) by (auto simp: demo_shell_ok(4))

section \<open>Copying\<close>

lemma load_alloc_plain:
  assumes "map_inv f" "d < 512" "win_cwd_bno w = d" "db_magic (disk f d) = FS_MAGIC" "\<not> needs_resolve name"
    "find_entry_index (disk f d) name 0 = Some j" "j < 102" "length name \<le> 38"
    "chain (disk f) (e_bno (disk f d) j) bs" "e_size (disk f d) j \<le> 4088 * length bs"
    and m: "malloc h (if e_size (disk f d) j = 0 then 1 else of_nat (e_size (disk f d) j)) = (p, h')" "p \<noteq> 0"
  shows "load_file_bytes_alloc f h w name =
    Some ((0, Some (p, take (e_size (disk f d) j) (payload (disk f) bs))),
      w\<lparr>win_local_b := (\<lambda>i. if i < BSIZE then disk f d i else win_local_b w i)\<rparr>, f, h')"
proof -
  define b where "b = (\<lambda>i. if i < BSIZE then disk f d i else win_local_b w i)"
  have r: "fs_ready f = f" using assms(1) by (simp add: map_inv_def fs_ready_def)
  have v: "\<And>i. i < 4096 \<Longrightarrow> disk f d i = b i" by (simp add: b_def)
  have "le32 b 0 = le32 (disk f d) 0" by (rule le32_cong) (simp add: b_def)
  then have mg: "db_magic b = 0x58504653" using assms(4) by (simp add: db_magic_def)
  have o: "open_dir f w name = Some (Some (b, name), w\<lparr>win_local_b := b\<rparr>, f)"
    using assms(2,3,5) mg by (simp add: open_dir_def load_current_dir_def r disk_read_def b_def)
  have fd: "find_entry_index b name 0 = Some j" using find_entry_view [OF assms(6,7,8) v] .
  have se: "same_entry (disk f d) b j" by (rule same_entry_view [OF v assms(7)])
  note e = same_entry_fields(3,4) [OF se] and m = m [unfolded same_entry_fields(4) [OF se]]
  have ld: "load_blocks f (e_size b j) (e_bno b j) [] = Some (take (e_size b j) (payload (disk f) bs))"
    using load_chain [of f "e_bno b j" bs "e_size b j" "[]"] assms(9,10) e by simp
  have len: "length (take (e_size b j) (payload (disk f) bs)) = e_size b j" using assms(10) e by simp
  have "load_file_bytes_alloc f h w name =
    Some ((0, Some (p, take (e_size b j) (payload (disk f) bs))), w\<lparr>win_local_b := b\<rparr>, f, h')"
  proof (cases "e_bno b j = 0")
    case True
    then have "bs = []" using assms(9) e by (cases bs) auto
    then show ?thesis using o fd m e True by (simp add: load_file_bytes_alloc_def)
  next
    case False
    then show ?thesis using o fd ld m e len by (simp add: load_file_bytes_alloc_def)
  qed
  then show ?thesis by (simp add: e b_def [symmetric])
qed

lemma two_plain_paths:
  assumes "plain_name a" "plain_name b"
  shows "two_paths (a @ CHR '' '' # b) = Some (a, b)"
proof -
  note ca = plain_chars [OF assms(1)] and cb = plain_chars [OF assms(2)]
  have "strcmp (a @ CHR '' '' # b) ''h'' \<noteq> 0"
    using strcmp_eq [of "a @ CHR '' '' # b" "''h''"] ca(1,3) cb(3) by (auto simp: cstr_def append_eq_Cons_conv)
  moreover have "takeWhile (\<lambda>c. c \<noteq> CHR '' '') (a @ CHR '' '' # b) = a" using ca(5) by (simp add: takeWhile_tail) (metis takeWhile_eq_all_conv)
  moreover have "skip_spaces (CHR '' '' # b) = b" using cb(1,5) by (cases b) (auto simp: skip_spaces_def)
  moreover have "strchr b (CHR '' '') = None" using cb(5) by (induction b) auto
  ultimately show ?thesis using ca(1) cb(1) by (simp add: two_paths_def)
qed

lemma strncmp_hd: "c \<noteq> d \<Longrightarrow> strncmp (c # s) (d # t) (Suc n) \<noteq> 0"
  using of_char_eq_iff [of c d, where 'a = int] by simp

lemma cp_plain:
  assumes "plain_name a" "plain_name b" "hd a \<noteq> CHR ''-''"
  shows "exec_single_cmd room k dbg rem ext (''cp '' @ a @ '' '' @ b) s = map_option snd (copy_local (say s []) a b)"
proof -
  have "\<not> is_cmd ''-r'' (a @ CHR '' '' # b)"
    using plain_chars(1) [OF assms(1)] strncmp_hd [OF assms(3), of "tl a @ CHR '' '' # b" "''r''" 1]
    by (cases a) (simp_all add: is_cmd_def del: strncmp.simps)
  moreover have "skip_spaces (CHR '' '' # a @ CHR '' '' # b) = a @ CHR '' '' # b"
    using skip_name [OF assms(1), of "CHR '' '' # b"] by (simp add: skip_spaces_def)
  moreover have "\<not> path_is_sftp a" "\<not> path_is_sftp b" using assms(1,2) by (simp_all add: plain_name_def)
  ultimately have "cmd_cp room rem (say s []) (''cp '' @ a @ '' '' @ b) = map_option snd (copy_local (say s []) a b)"
    using two_plain_paths [OF assms(1,2)] by (simp add: cmd_cp_def copy_between_paths_def say_def)
  then show ?thesis by (simp add: dispatch_cp del: append.simps append_Cons)
qed

text \<open>
  C27: Copying a file: with intact files in the current directory, memory for the bytes of the
  source and room on the disk, \<open>cp A B\<close> answers \<open>>> Copied.\<close>, keeps every file of the directory
  intact, and afterwards both names hold exactly the bytes that \<open>A\<close> held before.
\<close>

theorem copy_has_bytes_of_source:
  assumes df: "dir_files (sh_fs s) d own" and w: "win_cwd_bno (sh_win s) = d"
    and n: "plain_name a" "plain_name b" "a \<noteq> b" "hd a \<noteq> CHR ''-''"
    and src: "find_entry_index (disk (sh_fs s) d) a 0 = Some j" "j < 102"
    and dst: "storable (sh_fs s) d b"
    and mem: "fst (malloc (sh_heap s) (if e_size (disk (sh_fs s) d) j = 0 then 1 else of_nat (e_size (disk (sh_fs s) d) j))) \<noteq> 0"
    and space: "free_blocks (sh_fs s) \<noteq> {}" "e_size (disk (sh_fs s) d) j \<le> 4088 * card (free_blocks (sh_fs s))"
  shows "\<exists>s' own' bs. exec_single_cmd room k dbg rem ext (''cp '' @ a @ '' '' @ b) s = Some s' \<and>
    sh_out s' = ''>> Copied.'' \<and> dir_files (sh_fs s') d own' \<and> length bs = e_size (disk (sh_fs s) d) j \<and>
    (\<forall>w' mx. win_cwd_bno w' = d \<and> length bs \<le> mx \<longrightarrow>
       map_option fst (load_file_bytes (sh_fs s) w' a mx) = Some (0, bs) \<and>
       map_option fst (load_file_bytes (sh_fs s') w' a mx) = Some (0, bs) \<and>
       map_option fst (load_file_bytes (sh_fs s') w' b mx) = Some (0, bs))"
proof -
  let ?f = "sh_fs s"
  note ca = plain_chars [OF n(1)] and cb = plain_chars [OF n(2)]
  have d: "map_inv ?f" "d < 512" "db_magic (disk ?f d) = FS_MAGIC" using df by (simp_all add: dir_files_def)
  have "is_file (disk ?f d) j" using find_entry_Some [OF src(1)] by (auto simp: is_file_def)
  then have "owns ?f d j (own j)" using df src(2) unfolding dir_files_def by metis
  then have own: "chain (disk ?f) (e_bno (disk ?f d) j) (own j)" "e_size (disk ?f d) j \<le> 4088 * length (own j)"
    by (simp_all add: owns_def)
  define bs where "bs = take (e_size (disk ?f d) j) (payload (disk ?f) (own j))"
  have len: "length bs = e_size (disk ?f d) j" using own(2) by (simp add: bs_def)
  have alen: "length a \<le> 38" using ca(2) by simp
  obtain p h' where m: "malloc (sh_heap s) (if e_size (disk ?f d) j = 0 then 1 else of_nat (e_size (disk ?f d) j)) = (p, h')" "p \<noteq> 0"
    using mem by (metis prod.collapse)
  define w1 where "w1 = (sh_win s)\<lparr>win_local_b := (\<lambda>i. if i < BSIZE then disk ?f d i else win_local_b (sh_win s) i)\<rparr>"
  have la: "load_file_bytes_alloc ?f (sh_heap s) (sh_win s) a = Some ((0, Some (p, bs)), w1, ?f, h')"
    unfolding bs_def w1_def by (rule load_alloc_plain [OF d(1,2) w d(3) ca(6) src(1,2) alen own m])
  have w1: "win_cwd_bno w1 = d" using w by (simp add: w1_def)
  obtain f' where st: "store_file_bytes ?f w1 b bs = Some (0, f')"
    using store_succeeds [OF df w1 cb(6,2), of bs] dst space len by (auto simp: storable_def)
  have "unat (le32 (disk ?f d) (entry_off j + 24)) < 2 ^ 32"
    using unsigned_less [of "le32 (disk ?f d) (entry_off j + 24)"] by simp
  then have "e_size (disk ?f d) j < 2 ^ 32" by (simp add: e_size_def)
  then have lt: "length bs < 2 ^ 32" using len by simp
  obtain own' where df': "dir_files f' d own'"
    and lb: "\<forall>w' mx. win_cwd_bno w' = d \<and> length bs \<le> mx \<longrightarrow> map_option fst (load_file_bytes f' w' b mx) = Some (0, bs)"
    and others: "\<forall>other w' mx j. other \<noteq> b \<and> \<not> needs_resolve other \<and> length other \<le> 19 \<and>
       win_cwd_bno w' = d \<and> find_entry_index (disk ?f d) other 0 = Some j \<and> j < 102 \<longrightarrow>
       map_option fst (load_file_bytes f' w' other mx) = map_option fst (load_file_bytes ?f w' other mx)"
    using store_load [OF df w1 cb(3,1,2,6) lt st] by blast
  have l0: "map_option fst (load_file_bytes ?f w' a mx) = Some (0, bs)" if "win_cwd_bno w' = d" "length bs \<le> mx" for w' mx
    using load_plain [OF d(1,2) that(1) d(3) ca(6) src(1,2) alen own, of mx] that(2) len by (simp add: bs_def)
  define s' where "s' = say ((say s [])\<lparr>sh_win := w1, sh_fs := f', sh_heap := free h' p\<rparr>) ''>> Copied.''"
  have "exec_single_cmd room k dbg rem ext (''cp '' @ a @ '' '' @ b) s = Some s'"
    unfolding cp_plain [OF n(1,2,4)] using la st by (simp add: copy_local_def s'_def)
  moreover have "sh_fs s' = f'" "sh_out s' = ''>> Copied.''" by (simp_all add: s'_def)
  ultimately show ?thesis using df' len lb others l0 n(3) ca(2,6) src by (intro exI [of _ s'] exI [of _ own'] exI [of _ bs]) auto
qed

lemma cp_malloc: "\<exists>h. fst (malloc h 3) \<noteq> 0"
proof -
  obtain h where h: "heap_inv h (usb_dma_pages h) Map.empty" "first_page h = 1"
    "last_page h = 16" "usb_dma_pages h = {}" using demo_heap_inv by blast
  have "find_run h (first_page h) (unat (req_pages 3)) (last_page h) \<noteq> None"
    using find_run_first [of 1 1 1 16 h] heap_invD(10) [OF h(1)] h(2-4)
    by (auto simp: req_pages_def pages_for_size_def req_size_def drop_bit_eq_div)
  moreover have "alloc_pages h = 15" using h(2,3) by (simp add: last_page_def word_unat_eq_iff)
  ultimately obtain k where "malloc_place h 3 = Some k"
    by (auto simp: malloc_place_def req_size_def req_pages_def pages_for_size_def drop_bit_eq_div)
  then show ?thesis using malloc_SomeD(2) [OF h(1)] by blast
qed

lemma plain_b: "plain_name ''b''"
  by (simp add: plain_name_def plain_component_def component_def printable_def path_is_sftp_def has_mount_prefix_def c2b_def)

lemma one_file_entries:
  "e_size (disk one_file 1) 0 = 3" "mem_streq (disk one_file 1) (entry_off 0) ''a''" "e_type (disk one_file 1) 0 = 0"
  "\<And>j. j \<noteq> 0 \<Longrightarrow> j \<le> 102 \<Longrightarrow> e_free (disk one_file 1) j" "behind one_file = (\<lambda>_. 0)"
proof -
  let ?w = "write_entry (disk formatted 1) 0 ''a'' 60 3 0 0"
  have d1: "disk one_file 1 = cut_block ?w" by (simp add: one_file_def)
  note w = write_entry_fields [of "''a''" "disk formatted 1" 0 60 3 0 0, simplified]
  have s0: "same_entry (disk one_file 1) ?w 0" unfolding d1 by (rule same_entry_view) (simp_all add: cut_view)
  show "e_size (disk one_file 1) 0 = 3" "mem_streq (disk one_file 1) (entry_off 0) ''a''" "e_type (disk one_file 1) 0 = 0"
    using same_entry_fields(2,4) [OF s0] same_entry_fields(7) [OF s0, of "''a''"] w by simp_all
  show "e_free (disk one_file 1) j" if "j \<noteq> 0" "j \<le> 102" for j
  proof -
    have "entry_off j < 4096" using that(2) by (simp add: entry_off_def)
    moreover have "?w (entry_off j) = disk formatted 1 (entry_off j)"
      by (rule write_entry_other) (use that(1) in \<open>simp add: entry_off_def\<close>)
    ultimately show ?thesis using formatted_ok(4) [of j] unfolding e_free_def d1 by (simp add: cut_view)
  qed
  show "behind one_file = (\<lambda>_. 0)"
    by (simp add: one_file_def formatted_def fs_format_root_def Let_def empty_fs_def disk_put_def foldl_set_behind
        fs_block_set_used_def)
qed

lemma storable_b: "storable one_file 1 ''b''"
proof -
  have "\<not> mem_streq (disk one_file 1) (entry_off 0) ''b''"
    using mem_streq_unique [OF one_file_entries(2), of "''b''"] by auto
  then have 0: "\<not> mem_streq (stack_view one_file 1) (entry_off 0) ''b''"
    using same_entry_fields(7) [OF stack_view_entry [of 0 one_file 1], of "''b''"] by simp
  have "e_free (stack_view one_file 1) j" if "j \<noteq> 0" for j
  proof (cases "j \<le> 102")
    case True
    then show ?thesis using one_file_entries(4) [OF that True] by (auto simp: e_free_def stack_view_def entry_off_def)
  next
    case False
    then show ?thesis using one_file_entries(5) by (simp add: e_free_def stack_view_def entry_off_def)
  qed
  then have "find_entry_index (stack_view one_file 1) ''b'' (-1) = None"
    using 0 unfolding find_entry_index_def find_None_iff by (metis)
  moreover have "e_free (disk one_file 1) 1" "e_free (disk one_file 1) 102" by (rule one_file_entries(4); simp)+
  ultimately show ?thesis unfolding storable_def by (meson one_less_numeral_iff semiring_norm(76))
qed

lemma one_file_find: "find_entry_index (disk one_file 1) ''a'' 0 = Some 0"
  using one_file_ok(2) one_file_entries(2,3)
  unfolding find_entry_index_def by (intro find_upt_least) (auto simp: is_file_def)

lemma one_file_space: "61 \<in> free_blocks one_file"
proof -
  have "fs_block_is_used one_file q = fs_block_is_used (fs_block_set_used formatted 60) q" for q
    by (simp add: one_file_def fs_block_is_used_def)
  then have "fs_block_is_used one_file q \<longleftrightarrow> q = 60 \<or> fs_block_is_used formatted q" for q
    by (simp add: used_set)
  moreover have "(61::nat) \<in> free_blocks formatted" by (simp add: formatted_ok(2))
  ultimately show ?thesis unfolding free_blocks_def by simp
qed

theorem copy_has_bytes_of_source_witness:
  "\<exists>h s'. exec_single_cmd 12 undefined [] undefined undefined ''cp a b''
      ((demo_shell h)\<lparr>sh_fs := one_file\<rparr>) = Some s' \<and> sh_out s' = ''>> Copied.''"
proof -
  obtain h where h: "fst (malloc h 3) \<noteq> 0" using cp_malloc by blast
  define s where "s = (demo_shell h)\<lparr>sh_fs := one_file\<rparr>"
  have f: "sh_fs s = one_file" "win_cwd_bno (sh_win s) = 1" "sh_heap s = h"
    by (simp_all add: s_def demo_shell_def tmp_window_def)
  have fb: "free_blocks (sh_fs s) \<noteq> {}" unfolding f using one_file_space by blast
  then have "0 < card (free_blocks (sh_fs s))" by (simp add: card_gt_0_iff)
  then have sz: "e_size (disk (sh_fs s) 1) 0 \<le> 4088 * card (free_blocks (sh_fs s))"
    unfolding f one_file_entries(1) by linarith
  have df: "dir_files (sh_fs s) 1 ((\<lambda>_. [])(0 := [60]))" unfolding f by (rule one_file_ok(1))
  have m: "fst (malloc (sh_heap s) (if e_size (disk (sh_fs s) 1) 0 = 0 then 1 else of_nat (e_size (disk (sh_fs s) 1) 0))) \<noteq> 0"
    unfolding f one_file_entries(1) using h by simp
  have fd: "find_entry_index (disk (sh_fs s) 1) ''a'' 0 = Some 0" unfolding f by (rule one_file_find)
  have stb: "storable (sh_fs s) 1 ''b''" unfolding f by (rule storable_b)
  have ne: "''a'' \<noteq> ''b''" "hd ''a'' \<noteq> CHR ''-''" "(0::nat) < 102" by simp_all
  obtain s' where "exec_single_cmd 12 undefined [] undefined undefined (''cp '' @ ''a'' @ '' '' @ ''b'') s = Some s'"
    "sh_out s' = ''>> Copied.''"
    using copy_has_bytes_of_source [OF df f(2) plain_a plain_b ne(1,2) fd ne(3) stb m fb sz] by blast
  moreover have "''cp '' @ ''a'' @ '' '' @ ''b'' = ''cp a b''" by simp
  ultimately show ?thesis unfolding s_def by metis
qed

end
