(* ===== verification/ShellSafe.thy ===== *)
theory ShellSafe
  imports ShellFiles AppFs
begin

text \<open>
  Safety of the commands: \<open>rm\<close> leaves directories alone, every text a command shows fits the
  output buffer, \<open>find\<close> ends within the depth of the tree; and the errors the model shows in
  \<open>mkdir\<close> on a full disk, \<open>ls -all\<close> and \<open>df\<close>.
\<close>

section \<open>Directories and the full disk\<close>

lemma list_dir_keeps: "map_inv f \<Longrightarrow> list_dir_contents f b = Some (out, f') \<Longrightarrow> f' = f"
  by (auto simp: list_dir_contents_def load_current_dir_def map_inv_def fs_ready_def Let_def
      split: option.splits if_splits)

lemma list_dir_total: "map_inv f \<Longrightarrow> b < 512 \<Longrightarrow> \<exists>out. list_dir_contents f b = Some (out, f)"
  by (simp add: list_dir_contents_def load_current_dir_def map_inv_def fs_ready_def disk_read_def tmp_window_def Let_def)

lemma rm_dir_eq:
  assumes "dir_files (sh_fs s) d own" "win_cwd_bno (sh_win s) = d" "length (win_cwd (sh_win s)) < 128" "plain_name n"
    and i: "find_entry_index (tmp_view (sh_fs s) d) n (-1) = Some i"
      "e_type (tmp_view (sh_fs s) d) i = 1" "e_bno (tmp_view (sh_fs s) d) i \<noteq> 0"
  shows "exec_single_cmd room k dbg rem ext (''rm '' @ n) s =
    map_option (\<lambda>(out, f). say (say s []\<lparr>sh_fs := f\<rparr>) out) (list_dir_contents (sh_fs s) (e_bno (tmp_view (sh_fs s) d) i))"
proof -
  have d: "map_inv (sh_fs s)" "d \<noteq> 0" "d < 512" "db_magic (disk (sh_fs s) d) = FS_MAGIC"
    using assms(1) by (simp_all add: dir_files_def)
  have ck: "check_dir_and_list (sh_fs s) (sh_win s) n =
    map_option (\<lambda>(out, f). (Some out, f)) (list_dir_contents (sh_fs s) (e_bno (tmp_view (sh_fs s) d) i))"
    using check_plain [OF d assms(2-4)] i by simp
  have "exec_single_cmd room k dbg rem ext (''rm '' @ n) s = cmd_rm (say s []) (''rm '' @ n)" by (rule dispatch_rm)
  also have "\<dots> = unless_dir (say s []) n (\<lambda>s. map_option
      (\<lambda>(rc, w, f). say (s\<lparr>sh_fs := f, sh_win := w\<rparr>) (if rc = 0 then ''>> Removed.'' else ''ERR: Remove Failed.''))
      (remove_entry_named (sh_fs s) (sh_win s) n))"
    using not_help [OF assms(4)] skip_name [OF assms(4), of "[]"] by (simp add: cmd_rm_def)
  finally show ?thesis
    by (cases "list_dir_contents (sh_fs s) (e_bno (tmp_view (sh_fs s) d) i)") (auto simp: unless_dir_def ck)
qed

text \<open>The root with one entry, a directory \<open>a\<close>.\<close>

definition one_dir :: fs where
  "one_dir = formatted\<lparr>disk := (disk formatted)(1 := put16 (disk one_file 1) (entry_off 0 + 38) 1)\<rparr>"

lemma one_dir_ok: "dir_files one_dir 1 (\<lambda>_. [])" "names_dir (tmp_view one_dir 1) ''a''"
  and one_dir_entry: "find_entry_index (tmp_view one_dir 1) ''a'' (-1) = Some 0" "e_bno (tmp_view one_dir 1) 0 < 512"
proof -
  let ?m = "put16 (disk one_file 1) (entry_off 0 + 38) 1"
  have d1: "disk one_dir 1 = ?m" by (simp add: one_dir_def)
  have o: "entry_off 0 = 8" by (simp add: entry_off_def)
  have used: "fs_block_is_used one_dir q = fs_block_is_used formatted q" for q
    by (simp add: one_dir_def fs_block_is_used_def)
  have inv: "map_inv one_dir" using formatted_ok(3) used unfolding map_inv_def by (simp add: one_dir_def)
  have magic: "db_magic (disk one_dir 1) = FS_MAGIC"
    using one_file_ok(1) unfolding d1 o by (simp add: dir_files_def db_magic_def)
  have ty: "e_type ?m 0 = 1" by (simp add: e_type_def o)
  have fr: "e_free ?m j \<longleftrightarrow> e_free (disk one_file 1) j" for j by (cases j) (simp_all add: e_free_def o entry_off_def)
  have nm: "mem_streq ?m 8 ''a''" using one_file_entries(2) by (simp add: o)
  have nf: "\<not> is_file (disk one_dir 1) j" if "j < 102" for j
    using one_file_entries(4) [of j] fr [of j] ty that unfolding d1 by (cases "j = 0") (auto simp: is_file_def)
  have ne: "\<not> e_free ?m 0" using fr one_file_ok(2) by (simp add: is_file_def)
  have se: "same_entry (tmp_view one_dir 1) ?m 0" using tmp_view_entry [of 0 one_dir 1] d1 by simp
  have fd: "find_entry_index (tmp_view one_dir 1) ''a'' (-1) = Some 0"
    unfolding find_entry_index_def using same_entry_fields(1) [OF se] same_entry_fields(7) [OF se, of "''a''"] ne nm
    by (intro find_upt_least) (auto simp: o)
  have "owns one_file 1 0 [60]" using one_file_ok(1,2) unfolding dir_files_def by (metis fun_upd_same zero_less_numeral)
  then have "e_bno (disk one_file 1) 0 = 60" by (simp add: owns_def)
  then have bno: "e_bno ?m 0 = 60" by (simp add: e_bno_def o)
  show "dir_files one_dir 1 (\<lambda>_. [])"
    using inv magic formatted_ok(1) used nf by (simp add: dir_files_def)
  show "find_entry_index (tmp_view one_dir 1) ''a'' (-1) = Some 0" by (rule fd)
  show "e_bno (tmp_view one_dir 1) 0 < 512" using same_entry_fields(3) [OF se] bno by simp
  show "names_dir (tmp_view one_dir 1) ''a''"
    using fd same_entry_fields(2,3) [OF se] ty bno by (simp add: names_dir_def)
qed

text \<open>
  C31: No directory is lost by \<open>rm\<close>: when the name is that of a directory, \<open>rm NAME\<close> changes neither
  the disk nor the allocation map nor the window, and shows the contents of the directory instead
  (so a directory, even an empty one, cannot be removed with it).
\<close>

theorem rm_keeps_directory:
  assumes "dir_files (sh_fs s) d own" "win_cwd_bno (sh_win s) = d" "length (win_cwd (sh_win s)) < 128" "plain_name n"
    and "names_dir (tmp_view (sh_fs s) d) n" "exec_single_cmd room k dbg rem ext (''rm '' @ n) s = Some s'"
  shows "sh_fs s' = sh_fs s \<and> sh_win s' = sh_win s \<and>
    (\<exists>i. find_entry_index (tmp_view (sh_fs s) d) n (-1) = Some i \<and>
       list_dir_contents (sh_fs s) (e_bno (tmp_view (sh_fs s) d) i) = Some (sh_out s', sh_fs s))"
proof -
  obtain i where i: "find_entry_index (tmp_view (sh_fs s) d) n (-1) = Some i"
    "e_type (tmp_view (sh_fs s) d) i = 1" "e_bno (tmp_view (sh_fs s) d) i \<noteq> 0"
    using assms(5) by (auto simp: names_dir_def)
  obtain out f where "list_dir_contents (sh_fs s) (e_bno (tmp_view (sh_fs s) d) i) = Some (out, f)"
    "s' = say (say s []\<lparr>sh_fs := f\<rparr>) out"
    using assms(6) unfolding rm_dir_eq [OF assms(1-4) i] by auto
  moreover have "map_inv (sh_fs s)" using assms(1) by (simp add: dir_files_def)
  ultimately show ?thesis using list_dir_keeps i(1) by (auto simp: say_def lib_strcpy_def)
qed

theorem rm_keeps_directory_witness:
  "\<exists>s'. exec_single_cmd 12 undefined [] undefined undefined ''rm a'' ((demo_shell undefined)\<lparr>sh_fs := one_dir\<rparr>) = Some s' \<and>
     sh_fs s' = one_dir"
proof -
  define s where "s = (demo_shell undefined)\<lparr>sh_fs := one_dir\<rparr>"
  have f: "sh_fs s = one_dir" "win_cwd_bno (sh_win s) = 1" "length (win_cwd (sh_win s)) < 128"
    by (simp_all add: s_def demo_shell_def tmp_window_def)
  have df: "dir_files (sh_fs s) 1 (\<lambda>_. [])" "names_dir (tmp_view (sh_fs s) 1) ''a''" unfolding f by (rule one_dir_ok)+
  obtain i where i: "find_entry_index (tmp_view (sh_fs s) 1) ''a'' (-1) = Some i"
    "e_type (tmp_view (sh_fs s) 1) i = 1" "e_bno (tmp_view (sh_fs s) 1) i \<noteq> 0"
    using df(2) by (auto simp: names_dir_def)
  have "i = 0" using i(1) one_dir_entry unfolding f by simp
  then have "e_bno (tmp_view (sh_fs s) 1) i < 512" unfolding f using one_dir_entry by simp
  then obtain out where "list_dir_contents (sh_fs s) (e_bno (tmp_view (sh_fs s) 1) i) = Some (out, sh_fs s)"
    using list_dir_total df(1) unfolding dir_files_def by blast
  then obtain s' where s': "exec_single_cmd 12 undefined [] undefined undefined (''rm '' @ ''a'') s = Some s'"
    using rm_dir_eq [OF df(1) f(2,3) plain_a i] by auto
  then have "sh_fs s' = one_dir" using rm_keeps_directory [OF df(1) f(2,3) plain_a df(2) s'] f by simp
  then show ?thesis using s' by (simp add: s_def)
qed

lemma dispatch_mkdir:
  "exec_single_cmd room k dbg rem ext (''mkdir '' @ r) s = cmd_mkdir (say s []) (''mkdir '' @ r)"
  by (simp add: exec_single_cmd_def cmd_handle_mem_def after_word_def cmd_handle_ethstat_def cmd_handle_help_def
      exec_single_cmd_legacy_def exec_file_cmd_def is_cmd_def starts_def say_def c2b_def)

lemma tmp_free:
  assumes "e_free (disk f d) i" "i < 102"
  shows "\<exists>k \<le> i. find_free_entry_index (tmp_view f d) = Some k"
proof -
  have "e_free (tmp_view f d) i" using same_entry_fields(1) [OF tmp_view_entry [OF assms(2)]] assms(1) by simp
  then show ?thesis using find_upt_before [of "e_free (tmp_view f d)" i 120] assms(2)
    by (auto simp: find_free_entry_index_def)
qed

text \<open>
  C37: \<open>mkdir\<close> on a full disk: \<open>balloc\<close> returns block 0, which the command does not check. It
  answers \<open>>> Directory Created.\<close> and writes the empty directory over block 0 of the disk, with
  the current directory as its parent (\<open>local_mkdir_path\<close>, which \<open>cp -r\<close> uses, does check).
\<close>

theorem mkdir_on_full_disk:
  assumes "dir_files (sh_fs s) d own" "win_cwd_bno (sh_win s) = d" "length (win_cwd (sh_win s)) < 128" "plain_name n"
    and "find_entry_index (tmp_view (sh_fs s) d) n (-1) = None" "e_free (disk (sh_fs s) d) i" "i < 102"
    and "free_blocks (sh_fs s) = {}"
  shows "\<exists>s'. exec_single_cmd room k dbg rem ext (''mkdir '' @ n) s = Some s' \<and>
    sh_out s' = ''>> Directory Created.'' \<and> disk (sh_fs s') 0 = cut_block (new_dir_block d)"
proof -
  have d: "map_inv (sh_fs s)" "d \<noteq> 0" "d < 512" "db_magic (disk (sh_fs s) d) = FS_MAGIC"
    using assms(1) by (simp_all add: dir_files_def)
  have b: "bno_or_root d = d" using d(2) by (simp add: bno_or_root_def)
  have full: "balloc (sh_fs s) = (0, sh_fs s)"
    using assms(8) by (cases rule: balloc_cases [OF d(1), case_names full block]) (auto simp: free_blocks_def)
  obtain w' where ld: "load_current_dir (sh_fs s) (tmp_window d []) = Some (Some (tmp_view (sh_fs s) d), w', sh_fs s)"
    using load_tmp [OF d(1,3,4)] by blast
  obtain k where fr: "find_free_entry_index (tmp_view (sh_fs s) d) = Some k" using tmp_free [OF assms(6,7)] by blast
  have ck: "check_dir_and_list (sh_fs s) (sh_win s) n = Some (None, sh_fs s)"
    using check_plain [OF d assms(2-4)] assms(5) by simp
  define f' where "f' = disk_put ((sh_fs s)\<lparr>disk := (disk (sh_fs s))(d := (\<lambda>i. if i < BSIZE then
      write_dir_entry (tmp_view (sh_fs s) d) k n 0 (fs_now (sh_fs s)) i else 0))\<rparr>) 0 (new_dir_block d)"
  have mk: "make_dir (sh_fs s) (tmp_view (sh_fs s) d) k n d = Some f'"
    using d(3) by (simp add: make_dir_def full disk_write_def f'_def)
  have "cmd_mkdir (say s []) (''mkdir '' @ n) = mkdir_at (say s []) n"
    using not_help [OF assms(4)] skip_name [OF assms(4), of "[]"] ck by (simp add: cmd_mkdir_def unless_dir_def say_def)
  also have "\<dots> = Some (say (say s []\<lparr>sh_fs := f'\<rparr>) ''>> Directory Created.'')"
    using plain_chars(1) [OF assms(4)] ld fr mk assms(5)
    by (simp add: mkdir_at_def expand_plain_name [OF assms(4)] editor_plain [OF assms(4,3)] assms(2) b)
  finally show ?thesis unfolding dispatch_mkdir by (simp add: f'_def disk_put_def cut_block_def)
qed

text \<open>A formatted disk on which every block is used.\<close>

definition full_fs :: fs where
  "full_fs = formatted\<lparr>fs_block_map := (\<lambda>_. 0xff), next_free_block := 512\<rparr>"

lemma full_fs_ok: "dir_files full_fs 1 (\<lambda>_. [])" "free_blocks full_fs = {}" "disk full_fs = disk formatted"
proof -
  have "(0xff :: u8) = mask 8" by (simp add: mask_eq_exp_minus_1)
  moreover have "bit (mask 8 :: u8) (b mod 8)" for b :: nat by (simp add: bit_mask_iff)
  ultimately have "bit (0xff :: u8) (b mod 8)" for b :: nat by (simp only:)
  then have used: "fs_block_is_used full_fs b" for b by (simp add: used_bit full_fs_def)
  show "disk full_fs = disk formatted" by (simp add: full_fs_def)
  have inv: "map_inv full_fs" using formatted_ok(3) used unfolding map_inv_def by (simp add: full_fs_def)
  show "dir_files full_fs 1 (\<lambda>_. [])"
    unfolding dir_files_def using formatted_ok(1) used inv by (simp add: dir_files_def full_fs_def is_file_def formatted_ok(4) [simplified])
  show "free_blocks full_fs = {}" using used by (simp add: free_blocks_def)
qed

theorem mkdir_on_full_disk_witness:
  "\<exists>s'. exec_single_cmd 12 undefined [] undefined undefined ''mkdir a'' ((demo_shell undefined)\<lparr>sh_fs := full_fs\<rparr>) = Some s' \<and>
     sh_out s' = ''>> Directory Created.''"
proof -
  define s where "s = (demo_shell undefined)\<lparr>sh_fs := full_fs\<rparr>"
  have f: "sh_fs s = full_fs" "win_cwd_bno (sh_win s) = 1" "length (win_cwd (sh_win s)) < 128"
    by (simp_all add: s_def demo_shell_def tmp_window_def)
  have fr: "e_free (disk full_fs 1) j" for j using formatted_ok(4) full_fs_ok(3) by simp
  have "e_free (tmp_view full_fs 1) j" for j
  proof (cases "j < 102")
    case True
    then show ?thesis using same_entry_fields(1) [OF tmp_view_entry [OF True]] fr by simp
  next
    case False
    then show ?thesis using tmp_view_free fr by simp
  qed
  then have fd: "find_entry_index (tmp_view (sh_fs s) 1) ''a'' (-1) = None"
    unfolding f find_entry_index_def find_None_iff by blast
  have "\<exists>s'. exec_single_cmd 12 undefined [] undefined undefined (''mkdir '' @ ''a'') s = Some s' \<and>
    sh_out s' = ''>> Directory Created.'' \<and> disk (sh_fs s') 0 = cut_block (new_dir_block 1)"
    by (rule mkdir_on_full_disk [OF _ f(2,3) plain_a fd, of "\<lambda>_. []" 0]) (unfold f, use full_fs_ok fr in simp_all)
  then show ?thesis by (simp add: s_def) blast
qed

section \<open>Formats with a field width\<close>

lemma format_hms_length: "length (format_hms t) = 19"
  by (simp add: format_hms_def format_ymd_hms_def append_u2_def append_u4_def Let_def)

lemma those_None: "None \<in> set xs \<Longrightarrow> those xs = None"
  by (induction xs) (auto split: option.splits)

text \<open>
  The long listing is not safe: when the current directory has an entry, \<open>ls -all\<close> formats the
  time of modification, a text of 19 characters with its NUL behind it, into an array of 10
  characters, so the command never returns normally.
\<close>

theorem ls_all_overflows:
  assumes "dir_files (sh_fs s) d own" "win_cwd_bno (sh_win s) = d" "i < 102" "\<not> e_free (disk (sh_fs s) d) i"
  shows "exec_single_cmd room k dbg rem ext ''ls -all'' s = None"
proof -
  have d: "map_inv (sh_fs s)" "d < 512" "db_magic (disk (sh_fs s) d) = FS_MAGIC"
    using assms(1) by (simp_all add: dir_files_def)
  obtain w' where ld: "load_current_dir (sh_fs s) (tmp_window d []) = Some (Some (tmp_view (sh_fs s) d), w', sh_fs s)"
    using load_tmp [OF d] by blast
  have "\<not> e_free (tmp_view (sh_fs s) d) i" using same_entry_fields(1) [OF tmp_view_entry [OF assms(3)]] assms(4) by simp
  then have "i \<in> set (filter (\<lambda>i. \<not> ls_hides (tmp_view (sh_fs s) d) True i) [0 ..< 120])"
    using assms(3) by (simp add: ls_hides_def)
  moreover have "ls_row db True j = None" for db j
    by (simp add: ls_row_def fits_def format_hms_length)
  ultimately have rows: "ls_rows (tmp_view (sh_fs s) d) True = None"
    unfolding ls_rows_def by (intro those_None) (force simp: image_iff)
  have "ls_args ''ls -all'' = (True, [])" by (simp add: ls_args_def skip_spaces_def Let_def char_at_def numeral_3_eq_3)
  then have "cmd_ls rem (say s []) ''ls -all'' = None"
    using ld rows assms(2) by (simp add: cmd_ls_def ls_dir_def skip_spaces_def say_def)
  then show ?thesis
    by (simp add: exec_single_cmd_def cmd_handle_mem_def after_word_def cmd_handle_ethstat_def cmd_handle_help_def
      exec_single_cmd_legacy_def is_cmd_def starts_def say_def c2b_def lib_strcpy_def)
qed

theorem ls_all_overflows_witness:
  "exec_single_cmd 12 undefined [] undefined undefined ''ls -all'' ((demo_shell undefined)\<lparr>sh_fs := one_file\<rparr>) = None"
proof -
  have w: "win_cwd_bno (sh_win ((demo_shell undefined)\<lparr>sh_fs := one_file\<rparr>)) = 1" by (simp add: demo_shell_def tmp_window_def)
  have f: "sh_fs ((demo_shell undefined)\<lparr>sh_fs := one_file\<rparr>) = one_file" by simp
  have ne: "\<not> e_free (disk one_file 1) 0" using one_file_ok(2) by (simp add: is_file_def)
  show ?thesis
    by (rule ls_all_overflows [of _ 1 "(\<lambda>_. [])(0 := [60])" 0]) (unfold f, use one_file_ok(1) w ne in simp_all)
qed

text \<open>
  \<open>df\<close> reads arguments of the wrong kind: the width in \<open>%8s\<close> is not understood, so the sizes
  are not printed as texts and the block counts \<open>%u\<close> consume pointers to them; whatever the disk
  holds, the formatted text is undefined.
\<close>

theorem df_prints_pointers: "exec_single_cmd room k dbg rem ext ''df'' s = None"
proof -
  obtain a b c f where u: "fs_usage_info (sh_fs s) = ((a, b, c), f)" by (metis prod_cases3 surj_pair)
  have "cmd_df (say s []) ''df'' = None"
    using u by (simp add: cmd_df_def format_simps char_at_def)
  then show ?thesis
    by (simp add: exec_single_cmd_def cmd_handle_mem_def after_word_def cmd_handle_ethstat_def cmd_handle_help_def
      exec_single_cmd_legacy_def is_cmd_def starts_def say_def c2b_def lib_strcpy_def)
qed

end
