(* ===== verification/ShellTree.thy ===== *)
theory ShellTree
  imports ShellSafe
begin

text \<open>
  The commands that walk the directory tree. \<open>du\<close> adds up the sizes of the files down to its
  depth, for any number of entries and as long as one block can be allocated; \<open>find\<close> returns when
  the tree is not deeper than its stack and its path buffer allow.
\<close>

section \<open>The size of a tree\<close>

text \<open>The sum of the sizes of the files at most \<open>n\<close> levels deep, with 32 bits.\<close>

primrec tree_size :: "fs \<Rightarrow> nat \<Rightarrow> nat \<Rightarrow> u32" where
  "tree_size f 0 b = 0"
| "tree_size f (Suc n) b =
     (if b = 0 \<or> b \<ge> FS_MAX_BLOCKS \<or> db_magic (stack_view f b) \<noteq> FS_MAGIC then 0
      else file_sizes (stack_view f b) + sum_list (map (tree_size f n) (child_dirs (stack_view f b))))"

text \<open>A heap with room for one block of two pages; the walk restores it.\<close>

definition heap_room :: "nat set \<Rightarrow> (nat \<Rightarrow> bool) \<Rightarrow> nat \<Rightarrow> nat \<Rightarrow> (nat \<rightharpoonup> nat) \<Rightarrow> heap \<Rightarrow> bool" where
  "heap_room R U fp lp L h \<longleftrightarrow> heap_inv h R L \<and> page_is_used h = U \<and> first_page h = fp \<and> last_page h = lp \<and>
     (\<exists>k. free_run h 2 k)"

lemma malloc_blk:
  assumes "heap_room R U fp lp L h"
  shows "\<exists>p h'. malloc h BLK_SIZE = (p, h') \<and> p \<noteq> 0 \<and> heap_room R U fp lp L (free h' p)"
proof -
  have inv: "heap_inv h R L" and u: "page_is_used h = U" "first_page h = fp" "last_page h = lp"
    and k: "\<exists>k. free_run h 2 k" using assms by (simp_all add: heap_room_def)
  obtain p h' where m: "malloc h BLK_SIZE = (p, h')" by force
  have "pages_needed BLK_SIZE = 2" by (simp add: pages_needed_def)
  then have p: "p \<noteq> 0" using malloc_fits [OF inv, of BLK_SIZE] k m by auto
  note fm = free_after_malloc [OF inv m p]
  have "free_run (free h' p) 2 = free_run h 2" using fm by (simp add: free_run_def fun_eq_iff)
  then have "heap_room R U fp lp L (free h' p)" using fm k u by (simp add: heap_room_def)
  then show ?thesis using m p by blast
qed

lemma zero_sum: "sum_list (map (tree_size f 0) bs) = 0"
  by (induction bs) simp_all

lemma size_sums:
  "heap_room R U fp lp L h \<Longrightarrow> \<exists>h'. calculate_dir_size f h b c m = (tree_size f (nat (m + 1 - c)) b, h') \<and> heap_room R U fp lp L h'"
  "heap_room R U fp lp L h \<Longrightarrow> \<exists>h'. children_size f h bs c m acc =
     (acc + sum_list (map (tree_size f (nat (m + 1 - c))) bs), h') \<and> heap_room R U fp lp L h'"
proof (induction f h b c m and f h bs c m acc rule: calculate_dir_size_children_size.induct)
  case (1 f h b c m)
  obtain p h1 where mal: "malloc h BLK_SIZE = (p, h1)" "p \<noteq> 0" "heap_room R U fp lp L (free h1 p)"
    using malloc_blk [OF "1.prems"] by blast
  show ?case
  proof (cases "b = 0 \<or> b \<ge> 512 \<or> c > m")
    case True
    then show ?thesis using "1.prems" by (subst calculate_dir_size.simps) (cases "nat (m + 1 - c)", auto)
  next
    case ok: False
    define n where "n = nat (m - c)"
    have n: "nat (m + 1 - c) = Suc n" "nat (m + 1 - (c + 1)) = n" using ok by (auto simp: n_def)
    show ?thesis
    proof (cases "db_magic (stack_view f b) = FS_MAGIC")
      case False
      then show ?thesis using ok mal n(1) by (subst calculate_dir_size.simps) simp
    next
      case magic: True
      show ?thesis
      proof (cases "c < m")
        case True
        then have "\<exists>h'. children_size f (free h1 p) (child_dirs (stack_view f b)) (c + 1) m (file_sizes (stack_view f b)) =
            (file_sizes (stack_view f b) + sum_list (map (tree_size f n) (child_dirs (stack_view f b))), h') \<and>
            heap_room R U fp lp L h'"
          using "1.IH" [of "(p, h1)" p h1 "stack_view f b" "free h1 p"] ok mal magic n(2) by simp
        then show ?thesis using ok mal magic True n(1) by (subst calculate_dir_size.simps) (simp add: Let_def)
      next
        case False
        then have "n = 0" using ok n by simp
        then have "sum_list (map (tree_size f n) (child_dirs (stack_view f b))) = 0"
          using zero_sum by simp
        then show ?thesis using ok mal magic False n(1) by (subst calculate_dir_size.simps) simp
      qed
    qed
  qed
next
  case (2 f h c m acc)
  then show ?case by simp
next
  case (3 f h b bs c m acc)
  obtain h1 where 1: "calculate_dir_size f h b c m = (tree_size f (nat (m + 1 - c)) b, h1)" "heap_room R U fp lp L h1"
    using "3.IH"(1) [OF "3.prems"] by blast
  have "\<exists>h'. children_size f h1 bs c m (acc + tree_size f (nat (m + 1 - c)) b) =
      (acc + tree_size f (nat (m + 1 - c)) b + sum_list (map (tree_size f (nat (m + 1 - c))) bs), h') \<and> heap_room R U fp lp L h'"
    using "3.IH"(2) [OF 1(1) [symmetric] refl 1(2)] 1(1) by simp
  then show ?case using 1(1) by (simp add: add.assoc)
qed

lemma du_text:
  "snprintf n ''Size of %s (maxdepth %d): %s (%u bytes)'' [VStr (Some a), VInt 20, VStr (Some b), VInt k] =
    Some (cut n (''Size of '' @ a @ '' (maxdepth 20): '' @ b @ '' ('' @ udigits (ucast k) 10 False @ '' bytes)''))"
proof -
  have e: "([], 0) = cut n []" by (simp add: cut_def)
  have d: "sdigits 20 = ''20''"
    by code_simp
  show ?thesis unfolding snprintf_def lib_vsnprintf_def e
    by (simp add: conversion_def arg_int_def d)
qed



section \<open>Searching\<close>

text \<open>The directories below block \<open>b\<close> are nested at most \<open>n\<close> deep, \<open>b\<close> included.\<close>

primrec within :: "nat \<Rightarrow> fs \<Rightarrow> nat \<Rightarrow> bool" where
  "within 0 f b \<longleftrightarrow> False"
| "within (Suc n) f b \<longleftrightarrow> b = 0 \<or> b \<ge> FS_MAX_BLOCKS \<or> db_magic (stack_view f b) \<noteq> FS_MAGIC \<or>
     (\<forall>c \<in> set (child_dirs (stack_view f b)). within n f c)"

lemma over_entries_inv:
  assumes "P st" "\<And>i st. i \<in> set is \<Longrightarrow> P st \<Longrightarrow> \<exists>st'. step st i = Some st' \<and> P st'"
  shows "\<exists>st'. over_entries step is st = Some st' \<and> P st'"
  using assms unfolding over_entries_def
proof (induction "is" arbitrary: st)
  case (Cons i "is")
  obtain st1 where 1: "step st i = Some st1" "P st1" using Cons.prems by auto
  then show ?case using Cons.IH [OF 1(2)] Cons.prems(2) by simp
qed simp

lemma e_name_length: "length (e_name m i) \<le> 19"
proof -
  have "length (takeWhile (\<lambda>b. b \<noteq> 0) (bytes_at m (entry_off i) 19)) \<le> length (bytes_at m (entry_off i) 19)"
    by (rule length_takeWhile_le)
  then show ?thesis by (simp add: e_name_def mem_str_def)
qed

lemma find_ends:
  "within n f b \<Longrightarrow> path \<noteq> [] \<Longrightarrow> length path + 20 * n \<le> 255 \<Longrightarrow> length out \<le> 2045 \<Longrightarrow>
   \<exists>h' out'. recursive_find n f h b path search out = Some (h', out') \<and> length out' \<le> 2045"
proof (induction n arbitrary: h b path out)
  case (Suc n)
  let ?m = "stack_view f b"
  let ?step = "find_entry (\<lambda>h bno path out. recursive_find n f h bno path search out) ?m path search"
  obtain p h1 where mal: "malloc h BLK_SIZE = (p, h1)" by force
  have step: "\<exists>st'. ?step st i = Some st' \<and> length (snd st') \<le> 2045"
    if kids: "\<forall>c \<in> set (child_dirs ?m). within n f c" and i: "i < 120" and st: "length (snd st) \<le> 2045" for st i
  proof -
    obtain h out where s: "st = (h, out)" by force
    show ?thesis
    proof (cases "e_free ?m i")
      case True
      then show ?thesis using st by (simp add: find_entry_def s)
    next
      case False
      define fp where "fp = (if last path \<noteq> CHR ''/'' then lib_strcat path ''/'' else path) @ e_name ?m i"
      have len: "length fp \<le> length path + 20" "fp \<noteq> []"
        using e_name_length [of ?m i] Suc.prems(2) by (auto simp: fp_def lib_strcat_def)
      then have fit: "fits 256 fp = Some fp" using Suc.prems(3) by (simp add: fits_def)
      define out1 where "out1 = (if strstr (e_name ?m i) search \<noteq> None \<and> length out + length (find_row ?m i fp) < 2046
          then lib_strcat out (find_row ?m i fp) else out)"
      have o: "length out1 \<le> 2045" using st by (auto simp: out1_def lib_strcat_def s)
      have eq: "?step st i = (if e_type ?m i = 1 then recursive_find n f h (e_bno ?m i) fp search out1 else Some (h, out1))"
        using False Suc.prems(2) fit by (simp add: find_entry_def s fp_def [symmetric] out1_def)
      show ?thesis
      proof (cases "e_type ?m i = 1")
        case True
        then have "within n f (e_bno ?m i)" using kids i False by (auto simp: child_dirs_def)
        then show ?thesis using Suc.IH [OF _ len(2) _ o] len(1) Suc.prems(3) True eq by fastforce
      qed (use eq o in simp)
    qed
  qed
  show ?case
  proof (cases "b = 0 \<or> b \<ge> 512 \<or> p = 0 \<or> db_magic ?m \<noteq> FS_MAGIC")
    case True
    then show ?thesis using mal Suc.prems(4) by auto
  next
    case False
    then have kids: "\<forall>c \<in> set (child_dirs ?m). within n f c" using Suc.prems(1) by auto
    have "\<exists>st'. over_entries ?step [0 ..< 120] (free h1 p, out) = Some st' \<and> length (snd st') \<le> 2045"
      by (rule over_entries_inv) (use step [OF kids] Suc.prems(4) in simp_all)
    then show ?thesis using False mal by force
  qed
qed simp

text \<open>
  C18: \<open>find\<close> returns: when the directories are nested at most as deep as the stack has room for
  calls, and at most 12 deep (so that no path outgrows its buffer of 256 characters), the command
  ends for every name, leaves the disk alone and shows at most 2045 characters.
\<close>

theorem find_returns:
  assumes "within room (sh_fs s) 1" "room \<le> 12"
  shows "\<exists>s'. exec_single_cmd room k dbg rem ext (''find '' @ t) s = Some s' \<and> sh_fs s' = sh_fs s \<and>
    sh_win s' = sh_win s \<and> length (sh_out s') \<le> 2045"
proof -
  obtain h out where r: "recursive_find room (sh_fs s) (sh_heap s) 1 ''/root'' (skip_spaces t) [] = Some (h, out)"
    "length out \<le> 2045"
    using find_ends [OF assms(1), of "''/root''" "[]" "sh_heap s" "skip_spaces t"] assms(2) by auto
  have "exec_single_cmd room k dbg rem ext (''find '' @ t) s = cmd_find room (say s []) (''find '' @ t)"
    by (simp add: exec_single_cmd_def cmd_handle_mem_def after_word_def cmd_handle_ethstat_def cmd_handle_help_def
      exec_single_cmd_legacy_def is_cmd_def starts_def say_def c2b_def lib_strcpy_def char_at_def)
  then show ?thesis using r by (auto simp add: cmd_find_def say_def lib_strcpy_def Let_def)
qed

theorem find_returns_witness:
  "\<exists>s'. exec_single_cmd 1 undefined [] undefined undefined ''find a'' (demo_shell undefined) = Some s' \<and> length (sh_out s') \<le> 2045"
proof -
  have "e_free (stack_view formatted 1) i" for i
  proof (cases "i \<le> 102")
    case True
    then show ?thesis using formatted_ok(4) [of i] by (auto simp: e_free_def stack_view_def entry_off_def)
  next
    case False
    have "behind formatted = (\<lambda>_. 0)"
      by (simp add: formatted_def fs_format_root_def Let_def empty_fs_def disk_put_def foldl_set_behind)
    then show ?thesis using False by (simp add: e_free_def stack_view_def entry_off_def)
  qed
  then have w: "within 1 (sh_fs (demo_shell undefined)) 1"
    unfolding demo_shell_ok(4) by (simp add: child_dirs_def)
  show ?thesis using find_returns [OF w, of undefined "[]" undefined undefined "''a''"] by auto
qed

end
