(* ===== verification/ShellOut.thy ===== *)
theory ShellOut
  imports ShellTree
begin

text \<open>
  The output buffer: whatever command is entered, the text left in \<open>out_buf\<close> fits its 2048 bytes
  with the NUL, provided the clients of the network keep within the size they are given.
\<close>

section \<open>Results that fit\<close>

definition fits_out :: "'r shell \<Rightarrow> bool" where
  "fits_out s \<longleftrightarrow> length (sh_out s) \<le> 2047"

definition all_fit :: "'r shell option \<Rightarrow> bool" where
  "all_fit r \<longleftrightarrow> (\<forall>s. r = Some s \<longrightarrow> fits_out s)"

definition runs_fit :: "(int \<times> 'r shell) option \<Rightarrow> bool" where
  "runs_fit r \<longleftrightarrow> (\<forall>rc s. r = Some (rc, s) \<longrightarrow> fits_out s)"

definition remote_fits :: "'r remote \<Rightarrow> bool" where
  "remote_fits rem \<longleftrightarrow>
     (\<forall>p a r. length (snd (fst (rem_ls rem p a r))) \<le> 2047) \<and>
     (\<forall>p r. length (snd (snd (fst (rem_read rem p r)))) \<le> 2047) \<and>
     (\<forall>p bs r. length (snd (fst (rem_write rem p bs r))) \<le> 2047) \<and>
     (\<forall>f w a b r. length (snd (fst (rem_put rem f w a b r))) \<le> 2047) \<and>
     (\<forall>p r. length (snd (fst (rem_unlink rem p r))) \<le> 2047) \<and>
     (\<forall>a b r. length (snd (fst (rem_rename rem a b r))) \<le> 2047) \<and>
     (\<forall>a r. length (fst (sd_list rem a r)) \<le> 2047)"

lemma fits_say [simp]: "fits_out (say s m) \<longleftrightarrow> length m \<le> 2047"
  by (simp add: fits_out_def)

lemma fits_update [simp]:
  "fits_out (s\<lparr>sh_fs := f\<rparr>) = fits_out s" "fits_out (s\<lparr>sh_win := w\<rparr>) = fits_out s"
  "fits_out (s\<lparr>sh_heap := h\<rparr>) = fits_out s" "fits_out (s\<lparr>sh_remote := r\<rparr>) = fits_out s"
  "fits_out (s\<lparr>sh_rows := l\<rparr>) = fits_out s" "fits_out (s\<lparr>sh_wins := ws\<rparr>) = fits_out s"
  "fits_out (s\<lparr>sh_out := m\<rparr>) \<longleftrightarrow> length m \<le> 2047"
  by (simp_all add: fits_out_def)

lemma fit_simps [simp]: "all_fit None" "all_fit (Some s) = fits_out s" "runs_fit None" "runs_fit (Some (rc, s)) = fits_out s"
  by (simp_all add: all_fit_def runs_fit_def)

lemma all_fit_map: "(\<And>x. r = Some x \<Longrightarrow> fits_out (g x)) \<Longrightarrow> all_fit (map_option g r)"
  by (auto simp: all_fit_def)

lemma runs_fit_map: "(\<And>x. r = Some x \<Longrightarrow> fits_out (snd (g x))) \<Longrightarrow> runs_fit (map_option g r)"
  by (auto simp: runs_fit_def)

lemma not_formatted_fits [simp]: "fits_out (not_formatted s)"
  by (simp add: not_formatted_def)

section \<open>Texts that fit\<close>

lemma add_mount_fits: "length (fst st) \<le> 2047 \<Longrightarrow> length (fst (add_mount_row all n st)) \<le> 2047"
  by (cases st) (simp add: add_mount_row_def lib_strcat_def Let_def)

lemma mounts_fit: "length out \<le> 2047 \<Longrightarrow> length (fst (append_virtual_mount_entries b all out p)) \<le> 2047"
  unfolding append_virtual_mount_entries_def
  using add_mount_fits [OF add_mount_fits [of "(out, p)" all "''sd''"], of all "''sftpd''"] by simp

lemma list_dir_fits:
  assumes "list_dir_contents f b = Some (out, f')"
  shows "length out \<le> 2047"
proof -
  have l: "length (append_dir_entries_sorted db (''Directory contents:'' @ [NL]) [] (-1)) \<le> 2047" for db
    using listing_fits [of "''Directory contents:'' @ [NL]" db "[]" "-1"] by auto
  have m: "length (fst (append_virtual_mount_entries b False out' p)) \<le> 2047" if "length out' \<le> 2047" for out' b p
    by (rule mounts_fit [OF that])
  show ?thesis using assms l
    by (auto simp: list_dir_contents_def Let_def intro!: m split: option.splits if_splits)
qed

lemma append_str_fits: "length out \<le> 2047 \<Longrightarrow> length (append_out_str out 2048 s) \<le> 2047"
  by (auto simp: append_out_str_def)

lemma fold_inv: "P x \<Longrightarrow> (\<And>i y. i \<in> set is \<Longrightarrow> P y \<Longrightarrow> P (g i y)) \<Longrightarrow> P (fold g is x)"
  by (induction "is" arbitrary: x) auto

lemma table_lines_fit: "length (table_lines a b c t) \<le> 2047"
  unfolding table_lines_def
  by (auto simp: Let_def intro!: fold_inv [where P = "\<lambda>out. length out \<le> 2047"] append_str_fits)

lemma text_of_fits: "length bs \<le> 2047 \<Longrightarrow> length (text_of bs) \<le> 2047"
  using length_takeWhile_le [of "\<lambda>c. c \<noteq> NUL" "map b2c bs"] by (simp add: text_of_def)

section \<open>The commands\<close>

lemma unless_dir_fits: "(\<And>f. all_fit (act (s\<lparr>sh_fs := f\<rparr>))) \<Longrightarrow> all_fit (unless_dir s p act)"
proof -
  assume act: "\<And>f. all_fit (act (s\<lparr>sh_fs := f\<rparr>))"
  have "length out \<le> 2047" if "check_dir_and_list (sh_fs s) (sh_win s) p = Some (Some out, f)" for out f
    using that by (auto simp: check_dir_and_list_def dest!: list_dir_fits split: option.splits if_splits bind_splits)
  then show ?thesis using act by (auto simp: unless_dir_def split: option.splits)
qed

lemma look_cmds_fit:
  assumes "length (win_cwd (sh_win s)) \<le> 127"
  shows "fits_out (cmd_pwd s cmd)" "all_fit (cmd_df s cmd)" "all_fit (cmd_du s cmd)"
proof -
  show "fits_out (cmd_pwd s cmd)" using assms by (simp add: cmd_pwd_def)
  show "all_fit (cmd_df s cmd)"
    by (auto simp: cmd_df_def Let_def intro!: all_fit_map dest!: snprintf_fits split: prod.splits)
  show "all_fit (cmd_du s cmd)"
  proof -
    have "length msg \<le> 2047" if "du_target f w p = Some (Inl msg, f')" for f w p msg f'
      using that by (auto simp: du_target_def Let_def split: option.splits if_splits)
    then show ?thesis
      by (auto simp: cmd_du_def Let_def intro!: all_fit_map dest!: snprintf_fits split: prod.splits option.splits sum.splits)
  qed
qed

lemma find_fits: "recursive_find room f h b path search out = Some st \<Longrightarrow> length out \<le> 2047 \<Longrightarrow> length (snd st) \<le> 2047"
proof (induction room arbitrary: h b path out st)
  case (Suc n)
  let ?m = "stack_view f b"
  let ?step = "find_entry (\<lambda>h bno path out. recursive_find n f h bno path search out) ?m path search"
  have step: "length (snd st') \<le> 2047" if "?step st i = Some st'" "length (snd st) \<le> 2047" for st i st'
    using that
    by (auto simp: find_entry_def Let_def lib_strcat_def elim!: Suc.IH split: prod.splits option.splits if_splits)
  have "length (snd st') \<le> 2047" if "over_entries ?step is st = Some st'" "length (snd st) \<le> 2047" for "is" st st'
    using that unfolding over_entries_def
  proof (induction "is" arbitrary: st)
    case (Cons i "is")
    show ?case
    proof (cases "?step st i")
      case None
      have "foldl (\<lambda>r i. Option.bind r (\<lambda>st. ?step st i)) None is = None" by (induction "is") auto
      then show ?thesis using Cons.prems None by simp
    next
      case (Some st1)
      then show ?thesis using Cons.IH [of st1] Cons.prems step [OF Some] by simp
    qed
  qed simp
  from this [of "[0 ..< MAX_DIR_ENTRIES]" "(free (snd (malloc h BLK_SIZE)) (fst (malloc h BLK_SIZE)), out)" st]
  show ?case using Suc.prems by (auto simp: split_beta Let_def split: if_splits)
qed simp

lemma cd_cmds_fit:
  "fits_out s \<Longrightarrow> all_fit (cmd_cd s cmd)" "fits_out (cmd_format s cmd)" "all_fit (cmd_find room s cmd)"
proof -
  have e: "fits_out (enter_dir s b c) = fits_out s" for s b c by (simp add: enter_dir_def)
  show "fits_out s \<Longrightarrow> all_fit (cmd_cd s cmd)"
    by (auto simp: cmd_cd_def cd_parent_def cd_path_def Let_def e intro!: all_fit_map split: option.splits)
  show "fits_out (cmd_format s cmd)" by (simp add: cmd_format_def split: prod.splits)
  show "all_fit (cmd_find room s cmd)"
    by (auto simp: cmd_find_def Let_def intro!: all_fit_map dest!: find_fits)
qed

lemma table_cmds_fit:
  assumes "fits_out s"
  shows "length cmd \<le> 127 \<Longrightarrow> \<forall>i. length (tab_value (win_alias (sh_win s)) i) \<le> 95 \<Longrightarrow> fits_out (cmd_alias s cmd)"
    "fits_out (cmd_unalias s cmd)" "fits_out (cmd_export s cmd)" "fits_out (cmd_unset s cmd)" "fits_out (cmd_env s)"
proof -
  have f: "fits_out (fail_msg m s r)" if "length m \<le> 2047" for m r
    using that assms by (cases r) (simp add: fail_msg_def Let_def)
  show "fits_out (cmd_unalias s cmd)" "fits_out (cmd_export s cmd)" "fits_out (cmd_unset s cmd)" "fits_out (cmd_env s)"
    by (auto simp: cmd_unalias_def cmd_export_def cmd_unset_def cmd_env_def Let_def f table_lines_fit split: prod.splits)
  assume l: "length cmd \<le> 127" "\<forall>i. length (tab_value (win_alias (sh_win s)) i) \<le> 95"
  have v: "length (terminal_alias_get (shell_win.truncate (sh_win s)) n) \<le> 95" for n
    using l(2) by (simp add: terminal_alias_get_def tab_get_def shell_win.truncate_def split: option.split)
  have "length (skip_spaces (drop 5 cmd)) \<le> 127"
    using length_dropWhile_le [of "\<lambda>c. c = CHR '' ''" "drop 5 cmd"] l(1) by (simp add: skip_spaces_def)
  then show "fits_out (cmd_alias s cmd)"
    using v [of "skip_spaces (drop 5 cmd)"] by (auto simp: cmd_alias_def Let_def f table_lines_fit split: option.split)
qed

lemma ls_fits:
  assumes "remote_fits rem" "fits_out s"
  shows "all_fit (cmd_ls rem s cmd)"
proof -
  have sd: "length (fst (sd_list rem a r)) \<le> 2047" for a r using assms(1) by (simp add: remote_fits_def)
  have rl: "length (snd (fst (rem_ls rem p a r))) \<le> 2047" for p a r using assms(1) by (simp add: remote_fits_def)
  have d: "all_fit (ls_dir rem s a p b m)" for s a p b m
    using sd by (auto simp: ls_dir_def Let_def split: option.splits prod.splits) (metis fst_conv)+
  have l: "length t \<le> 2047" if "append_single_entry_line db i a = Some t" for db i a t
    using that by (auto simp: append_single_entry_line_def Let_def dest!: snprintf_fits split: if_splits)
  show ?thesis
    using sd rl
    by (auto simp: cmd_ls_def Let_def d intro!: all_fit_map dest!: l split: option.splits prod.splits) (metis fst_conv snd_conv)+
qed

lemma file_cmds_fit:
  "all_fit (cmd_mkdir s cmd)" "all_fit (cmd_rm s cmd)" "all_fit (cmd_touch s cmd)" "all_fit (cmd_write s cmd)"
proof -
  show "all_fit (cmd_mkdir s cmd)"
    by (auto simp: cmd_mkdir_def mkdir_at_def Let_def intro!: unless_dir_fits all_fit_map split: option.splits)
  show "all_fit (cmd_rm s cmd)"
    by (auto simp: cmd_rm_def Let_def intro!: unless_dir_fits all_fit_map split: prod.splits)
  show "all_fit (cmd_touch s cmd)" "all_fit (cmd_write s cmd)"
    by (auto simp: cmd_touch_def cmd_write_def store_as_def Let_def intro!: unless_dir_fits all_fit_map split: option.splits prod.splits)
qed

lemma cat_fits: "remote_fits rem \<Longrightarrow> all_fit (cmd_cat rem s cmd)"
proof -
  assume r: "remote_fits rem"
  have f: "all_fit (cat_file s fn)" for s fn
    by (auto simp: cat_file_def intro!: all_fit_map text_of_fits dest!: load_file_length)
  have m: "length (snd (snd (fst (rem_read rem p r)))) \<le> 2047" for p r using r by (simp add: remote_fits_def)
  have l: "all_fit (cat_local s fn)" for fn
    by (auto simp: cat_local_def Let_def f intro!: all_fit_map dest!: list_dir_fits split: option.splits)
  obtain rc buf msg r' where e: "rem_read rem (sftp_subpath (skip_spaces (drop 4 cmd))) (sh_remote s) = ((rc, buf, msg), r')"
    by (metis prod.exhaust)
  then have "length msg \<le> 2047" using m [of "sftp_subpath (skip_spaces (drop 4 cmd))" "sh_remote s"] by simp
  then show ?thesis using l by (simp add: cmd_cat_def Let_def e text_of_fits)
qed

lemma copy_local_fits: "runs_fit (copy_local s a b)"
  by (auto simp: copy_local_def Let_def split: option.splits prod.splits)

lemma copy_between_fits:
  assumes "remote_fits rem"
  shows "runs_fit (copy_between_paths rem s a b)"
proof -
  obtain rc out f w r where p: "rem_put rem (sh_fs s) (sh_win s) a (sftp_subpath b) (sh_remote s) = ((rc, out), f, w, r)"
    by (metis prod.exhaust)
  obtain rc' buf msg r' where g: "rem_read rem (sftp_subpath a) (sh_remote s) = ((rc', buf, msg), r')"
    by (metis prod.exhaust)
  have l: "length out \<le> 2047" "length msg \<le> 2047"
    using assms p g unfolding remote_fits_def by (metis fst_conv snd_conv)+
  have wr: "length (snd (fst (rem_write rem q bs r))) \<le> 2047" for q bs r using assms by (simp add: remote_fits_def)
  have z: "sh_remote (say s m) = sh_remote s" for m by (simp add: say_def)
  show ?thesis
  proof (cases "path_is_sftp a")
    case False
    then show ?thesis using l(1) by (simp add: copy_between_paths_def copy_local_fits Let_def p z)
  next
    case True
    have w: "runs_fit (let ((rc, out), r) = rem_write rem q bs r0 in Some (if rc \<noteq> 0 then -1 else 0, say (s'\<lparr>sh_remote := r\<rparr>) out))"
      for q bs r0 and s' :: "'a shell" using wr [of q bs r0] by (cases "rem_write rem q bs r0"; cases "fst (rem_write rem q bs r0)") simp
    have st: "runs_fit (map_option (\<lambda>(rc, f). let s = s'\<lparr>sh_fs := f\<rparr> in
          if rc \<noteq> 0 then (-1, say s ''ERR: Destination Write Failed.'') else (0, say s ''>> Copied.'')) x)"
      for x and s' :: "'a shell" by (cases x) (auto split: prod.splits simp: Let_def)
    show ?thesis using True l(2) st w
      unfolding copy_between_paths_def Let_def
      by (auto simp: g z split: option.split simp del: split_paired_All)
  qed
qed

lemma until_failure_fits:
  assumes "fits_out s" "\<And>x s. x \<in> set xs \<Longrightarrow> fits_out s \<Longrightarrow> runs_fit (act x s)"
  shows "runs_fit (until_failure act xs s)"
proof -
  have none: "foldl (\<lambda>r x. Option.bind r (\<lambda>(rc, s). if rc \<noteq> 0 then Some (rc, s) else act x s)) None xs = None" for xs
    by (induction xs) auto
  have "runs_fit r \<Longrightarrow> (\<And>x s. x \<in> set xs \<Longrightarrow> fits_out s \<Longrightarrow> runs_fit (act x s)) \<Longrightarrow>
      runs_fit (foldl (\<lambda>r x. Option.bind r (\<lambda>(rc, s). if rc \<noteq> 0 then Some (rc, s) else act x s)) r xs)" for r
  proof (induction xs arbitrary: r)
    case (Cons x xs)
    show ?case
    proof (cases r)
      case None
      then show ?thesis by (simp add: none)
    next
      case (Some p)
      obtain rc s where p: "p = (rc, s)" by force
      then have "fits_out s" using Cons.prems(1) Some by simp
      then have "runs_fit (if rc \<noteq> 0 then Some (rc, s) else act x s)" using Cons.prems(2) by simp
      then show ?thesis using Cons.IH [of "if rc \<noteq> 0 then Some (rc, s) else act x s"] Cons.prems(2) Some p by simp
    qed
  qed simp
  from this [of "Some (0, s)"] show ?thesis using assms by (simp add: until_failure_def)
qed

lemma store_child_fits: "fits_out s \<Longrightarrow> length m \<le> 2047 \<Longrightarrow> runs_fit (store_child s p bs m)"
  by (auto simp: store_child_def Let_def intro!: runs_fit_map split: prod.splits)

lemma copy_entry_fits:
  assumes "\<And>b d s. fits_out s \<Longrightarrow> runs_fit (visit b d s)" "fits_out s"
  shows "runs_fit (copy_entry visit m sb dp i s)"
proof -
  have h: "runs_fit (map_option (\<lambda>(rc, s). (rc, s\<lparr>sh_heap := free (sh_heap s) p\<rparr>)) x)" if "runs_fit x" for x :: "(int \<times> 'a shell) option" and p
    using that by (cases x) (auto split: prod.splits)
  show ?thesis
    using assms by (auto simp: copy_entry_def Let_def intro!: h store_child_fits split: option.splits prod.splits)
qed

lemma copy_dir_fits: "fits_out s \<Longrightarrow> runs_fit (copy_local_dir_recursive n b d s)"
proof (induction n arbitrary: b d s)
  case (Suc n)
  then show ?case
    by (auto simp: Let_def intro!: until_failure_fits copy_entry_fits split: option.splits)
qed simp

lemma copy_line_fits:
  assumes "remote_fits rem" "\<And>a d s. fits_out s \<Longrightarrow> runs_fit (visit a d s)" "fits_out s"
  shows "runs_fit (copy_remote_line rem visit sr dp line s)"
proof (cases "child_path 192 sr (take 95 (drop 2 line))")
  case None
  then show ?thesis using assms(3) by (simp add: copy_remote_line_def Let_def)
next
  case (Some sc)
  obtain rc buf msg r where g: "rem_read rem sc (sh_remote s) = ((rc, buf, msg), r)" by (metis prod.exhaust)
  have l: "length msg \<le> 2047" using assms(1) g unfolding remote_fits_def by (metis fst_conv snd_conv)
  show ?thesis
    using assms(2,3) l Some
    by (auto simp: copy_remote_line_def Let_def g intro!: store_child_fits split: option.split)
qed

lemma copy_sftp_dir_fits: "remote_fits rem \<Longrightarrow> fits_out s \<Longrightarrow> runs_fit (copy_sftp_dir_to_local_recursive n rem a d s)"
proof (induction n arbitrary: a d s)
  case (Suc n)
  then show ?case
    by (auto simp: Let_def intro!: until_failure_fits copy_line_fits split: option.splits prod.splits)
qed simp

lemma cp_fits:
  assumes "remote_fits rem" "fits_out s"
  shows "all_fit (cmd_cp room rem s cmd)"
proof -
  have c: "all_fit (copied r)" if "runs_fit r" for r :: "(int \<times> 'a shell) option"
    using that by (auto simp: copied_def intro!: all_fit_map split: prod.splits)
  have b: "all_fit (map_option snd r)" if "runs_fit r" for r :: "(int \<times> 'a shell) option"
    using that by (auto intro!: all_fit_map)
  show ?thesis
    using assms
    by (auto simp: cmd_cp_def cp_recursive_def Let_def intro!: c b copy_between_fits copy_dir_fits copy_sftp_dir_fits
        split: option.splits prod.splits)
qed

lemma mv_fits:
  assumes "remote_fits rem"
  shows "all_fit (cmd_mv rem s cmd)"
proof -
  have u: "fits_out (remote_unlink rem s p)" for s p
  proof -
    have "length (snd (fst (rem_unlink rem (sftp_subpath p) (sh_remote s)))) \<le> 2047" using assms by (simp add: remote_fits_def)
    then show ?thesis by (auto simp add: remote_unlink_def split: prod.split)
  qed
  have c: "fits_out s'" if "copy_between_paths rem s a b = Some (rc, s')" for s a b rc s'
    using copy_between_fits [OF assms, of s a b] that by simp
  have r: "length (snd (fst (rem_rename rem a b t))) \<le> 2047" for a b t using assms by (simp add: remote_fits_def)
  show ?thesis
  proof (cases "two_paths (skip_spaces (drop (if char_at cmd 0 = CHR ''m'' \<and> char_at cmd 1 = CHR ''v'' then 2 else 6) cmd))")
    case None
    then show ?thesis by (simp add: cmd_mv_def)
  next
    case (Some p)
    obtain a b where p: "p = (a, b)" by force
    obtain rc out t where g: "rem_rename rem (sftp_subpath a) (sftp_subpath b) (sh_remote s) = ((rc, out), t)"
      by (metis prod.exhaust)
    have l: "length out \<le> 2047" using r [of "sftp_subpath a" "sftp_subpath b" "sh_remote s"] g by simp
    show ?thesis
      unfolding cmd_mv_def Some option.case p prod.case Let_def g
      using l by (auto simp: move_answer_def u intro!: all_fit_map dest: c split: option.splits prod.splits)
  qed
qed

lemma ethstat_fits: "cmd_handle_ethstat dbg cmd = Some (Some out) \<Longrightarrow> length out \<le> 2047"
  by (auto simp: cmd_handle_ethstat_def Let_def dest!: snprintf_fits split: if_splits)

lemma help_fits: "cmd_handle_help cmd = Some out \<Longrightarrow> length out \<le> 2047"
  by (auto simp: cmd_handle_help_def split: if_splits)

section \<open>The interpreter\<close>

lemma if_all_fit: "all_fit a \<Longrightarrow> all_fit b \<Longrightarrow> all_fit (if c then a else b)"
  by simp


lemma case_fit:
  "(r = None \<Longrightarrow> all_fit a) \<Longrightarrow> (\<And>x. r = Some x \<Longrightarrow> all_fit (g x)) \<Longrightarrow> all_fit (case r of None \<Rightarrow> a | Some x \<Rightarrow> g x)"
  by (cases r) simp_all

lemma legacy_fits:
  assumes "remote_fits rem" "length cmd \<le> 127" "length (win_cwd (sh_win s)) \<le> 127"
    "\<forall>i. length (tab_value (win_alias (sh_win s)) i) \<le> 95" "\<And>s. fits_out s \<Longrightarrow> all_fit (ext cmd s)"
  shows "all_fit (exec_single_cmd_legacy room rem ext cmd s)"
proof -
  have s: "fits_out (say s [])" by simp
  have e: "all_fit (ext cmd (say s []))" by (rule assms(5)) simp
  have w: "sh_win (say s []) = sh_win s" by simp
  have f: "all_fit (exec_file_cmd room rem ext cmd (say s []))"
    unfolding exec_file_cmd_def
    by (intro if_all_fit file_cmds_fit cp_fits mv_fits cat_fits assms(1) s e)
  show ?thesis
    unfolding exec_single_cmd_legacy_def Let_def
    by (intro if_all_fit e f ls_fits cd_cmds_fit(1,3) look_cmds_fit(2,3) assms(1) s)
      (simp_all add: look_cmds_fit cd_cmds_fit table_cmds_fit assms w)
qed


definition quiet_remote :: "unit remote" where
  "quiet_remote = \<lparr>rem_ls = (\<lambda>_ _ r. ((-1, []), r)), rem_read = (\<lambda>_ r. ((-1, None, []), r)),
     rem_write = (\<lambda>_ _ r. ((-1, []), r)), rem_put = (\<lambda>f w _ _ r. ((-1, []), f, w, r)),
     rem_unlink = (\<lambda>_ r. ((-1, []), r)), rem_rename = (\<lambda>_ _ r. ((-1, []), r)), sd_list = (\<lambda>_ r. ([], r))\<rparr>"


end
