(* ===== verification/Editor.thy ===== *)
theory Editor
  imports FsStore ShellText
begin

text \<open>
  The text editor of the shell, the command \<open>vim\<close> (\<open>vibeos/apps/editor/tool_editor.c\<close> and
  \<open>vibeos/user_editor.c\<close>): the lines of a window, its modes and keys, loading and saving.

  The record holds the editor's fields of \<open>struct Window\<close>. A line is the text of its array of 64
  characters before the NUL; rows and columns are never negative in the code, so they are \<open>nat\<close> and the
  tests for negative ones have no counterpart. \<open>ed_cmd\<close> is the first \<open>editor_cmd_len\<close> characters of
  \<open>editor_cmd\<close>; \<open>editor_cmd_cursor\<close> is only written. \<open>None\<close> stands for a write outside an array or a
  read of a block that the disk does not have.
\<close>

abbreviation (input) EDITOR_MAX_LINES :: nat where "EDITOR_MAX_LINES \<equiv> 128"
abbreviation (input) EDITOR_LINE_LEN :: nat where "EDITOR_LINE_LEN \<equiv> 64"
abbreviation (input) EDITOR_STATUS_LEN :: nat where "EDITOR_STATUS_LEN \<equiv> 64"
abbreviation (input) ED_COLS :: nat where "ED_COLS \<equiv> 100"
abbreviation (input) ED_DESKTOP_H :: int where "ED_DESKTOP_H \<equiv> 354"

record editor =
  ed_win :: fs_win
  ed_name :: string
  ed_path :: string
  ed_cwd :: string
  ed_status :: string
  ed_lines :: "string list"
  ed_cmd :: string
  ed_mode :: nat
  ed_count :: nat
  ed_row :: nat
  ed_col :: nat
  ed_scroll :: nat
  ed_dirty :: bool
  ed_pending_d :: bool
  ed_readonly :: bool
  ed_lazy :: bool
  ed_complete :: bool
  ed_file_bno :: nat
  ed_file_size :: nat
  ed_start_line :: u32
  ed_maximized :: bool
  ed_h :: int
  ed_font :: int

section \<open>Lines\<close>

definition editor_line_len :: "string \<Rightarrow> nat" where
  "editor_line_len line = min (EDITOR_LINE_LEN - 1) (length line)"

definition line_at :: "editor \<Rightarrow> nat \<Rightarrow> string" where
  "line_at e r = ed_lines e ! r"

text \<open>A text written to the array of row \<open>r\<close>.\<close>

definition put_line :: "nat \<Rightarrow> string \<Rightarrow> editor \<Rightarrow> editor option" where
  "put_line r s e =
     (if r < EDITOR_MAX_LINES \<and> length s < EDITOR_LINE_LEN then Some (e\<lparr>ed_lines := (ed_lines e)[r := s]\<rparr>) else None)"

text \<open>The loops that move the rows behind \<open>r\<close> up and the rows from \<open>r\<close> on down by one.\<close>

definition close_rows :: "nat \<Rightarrow> nat \<Rightarrow> string list \<Rightarrow> string list" where
  "close_rows r count ls = fold (\<lambda>i ls. ls[i := ls ! (i + 1)]) [r ..< count - 1] ls"

definition open_rows :: "nat \<Rightarrow> nat \<Rightarrow> string list \<Rightarrow> string list" where
  "open_rows r count ls = fold (\<lambda>i ls. ls[i := ls ! (i - 1)]) (rev [r + 1 ..< count + 1]) ls"

definition editor_set_status :: "editor \<Rightarrow> string \<Rightarrow> editor" where
  "editor_set_status e msg = e\<lparr>ed_status := lib_strcpy msg\<rparr>"

definition editor_clear :: "editor \<Rightarrow> editor" where
  "editor_clear e = e\<lparr>ed_mode := 0, ed_count := 1, ed_row := 0, ed_col := 0, ed_scroll := 0, ed_cmd := [],
     ed_dirty := False, ed_pending_d := False, ed_readonly := False, ed_lazy := False, ed_complete := False,
     ed_file_bno := 0, ed_file_size := 0, ed_start_line := 0, ed_lines := (ed_lines e)[0 := []], ed_status := []\<rparr>"

definition editor_clamp_cursor :: "editor \<Rightarrow> editor" where
  "editor_clamp_cursor e =
     (let count = min EDITOR_MAX_LINES (max 1 (ed_count e));
          row = (if ed_row e \<ge> count then count - 1 else ed_row e);
          len = editor_line_len (line_at e row)
      in e\<lparr>ed_count := count, ed_row := row, ed_col := min len (ed_col e)\<rparr>)"

definition editor_visible_rows :: "editor \<Rightarrow> nat" where
  "editor_visible_rows e =
     (let wh = (if ed_maximized e then ED_DESKTOP_H else ed_h e);
          scale = (if ed_font e < 1 then 1 else if ed_font e > 3 then 3 else ed_font e);
          rows = (wh - 56) sdiv (16 * scale + 2)
      in if rows < 1 then 1 else nat rows)"

definition editor_scroll_to_cursor :: "editor \<Rightarrow> editor" where
  "editor_scroll_to_cursor e =
     (let rows = editor_visible_rows e;
          s = (if ed_row e < ed_scroll e then ed_row e
               else if ed_row e \<ge> ed_scroll e + rows then ed_row e + 1 - rows else ed_scroll e);
          s = (if int s > int (ed_count e) - int rows then ed_count e - rows else s)
      in e\<lparr>ed_scroll := s\<rparr>)"

definition editor_join_with_previous :: "editor \<Rightarrow> editor option" where
  "editor_join_with_previous e =
     (if ed_row e = 0 then Some e
      else let prev = ed_row e - 1; p = line_at e prev; c = line_at e (ed_row e) in
        if editor_line_len p + editor_line_len c \<ge> EDITOR_LINE_LEN - 1 then Some e
        else map_option (\<lambda>e. e\<lparr>ed_lines := close_rows (ed_row e) (ed_count e) (ed_lines e),
                 ed_count := max 1 (ed_count e - 1), ed_row := prev, ed_col := editor_line_len p, ed_dirty := True\<rparr>)
               (if editor_line_len c > 0 then put_line prev (p @ c) e else Some e))"

definition editor_delete_current_line :: "editor \<Rightarrow> editor option" where
  "editor_delete_current_line e =
     (if ed_count e \<le> 1 then put_line 0 [] (e\<lparr>ed_count := 1, ed_row := 0, ed_col := 0, ed_dirty := True\<rparr>)
      else let row = (if ed_row e \<ge> ed_count e then ed_count e - 1 else ed_row e);
               count = ed_count e - 1;
               row' = (if ed_row e \<ge> count then count - 1 else ed_row e)
        in put_line row' [] (e\<lparr>ed_lines := close_rows row (ed_count e) (ed_lines e), ed_count := count,
             ed_row := row', ed_col := 0, ed_dirty := True\<rparr>))"

definition editor_move_home :: "editor \<Rightarrow> editor" where
  "editor_move_home e = e\<lparr>ed_col := 0\<rparr>"

definition editor_move_end :: "editor \<Rightarrow> editor" where
  "editor_move_end e = e\<lparr>ed_col := editor_line_len (line_at e (ed_row e))\<rparr>"

definition editor_insert_char :: "editor \<Rightarrow> char \<Rightarrow> editor option" where
  "editor_insert_char e ch =
     (if ed_row e \<ge> EDITOR_MAX_LINES then Some e
      else let line = line_at e (ed_row e); len = editor_line_len line in
        if len \<ge> EDITOR_LINE_LEN - 2 then Some e
        else let col = min len (ed_col e)
          in put_line (ed_row e) (take col line @ ch # drop col line) (e\<lparr>ed_col := col + 1, ed_dirty := True\<rparr>))"

definition editor_newline :: "editor \<Rightarrow> editor option" where
  "editor_newline e =
     (if ed_count e \<ge> EDITOR_MAX_LINES then Some e
      else let row = ed_row e; line = line_at e row; col = min (editor_line_len line) (ed_col e);
               rest = drop col (take (editor_line_len line) line)
        in Option.bind (put_line row (take col line) e) (\<lambda>e.
             put_line (row + 1) rest (e\<lparr>ed_lines := open_rows (row + 1) (ed_count e) (ed_lines e),
               ed_count := ed_count e + 1, ed_row := row + 1, ed_col := 0, ed_dirty := True\<rparr>)))"

text \<open>The character under the cursor removed: the loop of \<open>x\<close>, Delete and Backspace.\<close>

definition delete_char :: "editor \<Rightarrow> editor option" where
  "delete_char e =
     (let line = line_at e (ed_row e) in
      put_line (ed_row e) (take (ed_col e) line @ drop (ed_col e + 1) line) (e\<lparr>ed_dirty := True\<rparr>))"

definition delete_at_cursor :: "editor \<Rightarrow> editor option" where
  "delete_at_cursor e = (if ed_col e < editor_line_len (line_at e (ed_row e)) then delete_char e else Some e)"

section \<open>Loading and saving\<close>

definition cut_row :: "string \<Rightarrow> string" where
  "cut_row s = takeWhile (\<lambda>c. c \<noteq> NUL) s"

definition no_lines :: "string list" where
  "no_lines = replicate EDITOR_MAX_LINES []"

text \<open>
  A byte of the file in \<open>editor_load_bytes\<close>: the rows as they are filled (with any NUL) and the row
  that is being filled, whose length is the column.
\<close>

definition load_char :: "u8 \<Rightarrow> string list \<times> nat \<Rightarrow> string list \<times> nat" where
  "load_char ch st =
     (case st of (ls, row) \<Rightarrow>
        if row \<ge> EDITOR_MAX_LINES \<or> ch = 13 then (ls, row)
        else if ch = 10 then (ls, row + 1)
        else if length (ls ! row) < EDITOR_LINE_LEN - 1 then (ls[row := ls ! row @ [b2c ch]], row)
        else (ls, row))"

definition editor_load_bytes :: "editor \<Rightarrow> u8 list \<Rightarrow> editor" where
  "editor_load_bytes e src =
     (case fold load_char src (no_lines, 0) of (ls, row) \<Rightarrow>
        e\<lparr>ed_lines := map cut_row ls, ed_count := (if row < EDITOR_MAX_LINES then row + 1 else EDITOR_MAX_LINES),
          ed_row := 0, ed_col := 0, ed_scroll := 0, ed_mode := 0, ed_cmd := [], ed_dirty := False,
          ed_pending_d := False, ed_readonly := False, ed_lazy := False, ed_complete := True,
          ed_start_line := 0, ed_status := []\<rparr>)"

fun collect_rows :: "string list \<Rightarrow> nat \<Rightarrow> u8 list \<Rightarrow> u8 list option" where
  "collect_rows [] max_size acc = Some acc"
| "collect_rows (l # ls) max_size acc =
     (if length acc + editor_line_len l + 1 > max_size then None
      else collect_rows ls max_size
        (acc @ map c2b (take (editor_line_len l) l) @ (if ls \<noteq> [] then [10] else [])))"

definition editor_collect_bytes :: "editor \<Rightarrow> nat \<Rightarrow> u8 list option" where
  "editor_collect_bytes e max_size = collect_rows (take (ed_count e) (ed_lines e)) max_size []"

definition editor_save_file :: "editor \<Rightarrow> fs \<Rightarrow> (int \<times> editor \<times> fs) option" where
  "editor_save_file e f =
     (if ed_readonly e then Some (-3, editor_set_status e ''Read-only truncated view'', f)
      else case editor_collect_bytes e (EDITOR_MAX_LINES * EDITOR_LINE_LEN + EDITOR_MAX_LINES) of
        None \<Rightarrow> Some (-1, editor_set_status e ''File too big'', f)
      | Some buf \<Rightarrow>
          map_option (\<lambda>(rc, f).
              if rc \<noteq> 0 then (-2, editor_set_status e ''Save failed'', f)
              else (0, editor_set_status (e\<lparr>ed_dirty := False\<rparr>) ''Saved'', f))
            (store_file_bytes f (ed_win e) (ed_name e) buf))"

text \<open>
  \<open>editor_load_file_window\<close>: a byte of the file, with the number of its line; the loop over the
  blocks of the file.
\<close>

definition window_char :: "u32 \<Rightarrow> u8 \<Rightarrow> string list \<times> u32 \<times> nat \<Rightarrow> string list \<times> u32 \<times> nat" where
  "window_char start ch st =
     (case st of (ls, n, row) \<Rightarrow>
        if row \<ge> EDITOR_MAX_LINES \<or> ch = 13 then (ls, n, row)
        else if ch = 10 then (ls, n + 1, if n \<ge> start then row + 1 else row)
        else if n \<ge> start \<and> length (ls ! row) < EDITOR_LINE_LEN - 1
          then (ls[row := ls ! row @ [b2c ch]], n, row) else (ls, n, row))"

function window_blocks ::
    "fs \<Rightarrow> u32 \<Rightarrow> nat \<Rightarrow> nat \<Rightarrow> string list \<times> u32 \<times> nat \<Rightarrow> (nat \<times> nat \<times> string list \<times> u32 \<times> nat) option" where
  "window_blocks f start remaining bno st =
     (if remaining > 0 \<and> bno \<noteq> 0 \<and> snd (snd st) < EDITOR_MAX_LINES then
        if bno \<ge> FS_MAX_BLOCKS then None
        else let m = disk f bno in
          if le32 m 0 = FS_DATA_MAGIC then
            let chunk = min remaining FS_DATA_PAYLOAD
            in window_blocks f start (remaining - chunk) (unat (le32 m 4)) (fold (window_char start) (bytes_at m 8 chunk) st)
          else let chunk = min remaining BSIZE
            in window_blocks f start (remaining - chunk) 0 (fold (window_char start) (bytes_at m 0 chunk) st)
      else Some (remaining, bno, st))"
  by pat_completeness auto
termination by (relation "measure (\<lambda>(f, start, remaining, bno, st). remaining)") auto

declare window_blocks.simps [simp del]

definition editor_load_file_window :: "fs \<Rightarrow> editor \<Rightarrow> u32 \<Rightarrow> (int \<times> editor) option" where
  "editor_load_file_window f e start =
     (if ed_file_bno e = 0 then Some (-1, e)
      else map_option (\<lambda>(remaining, bno, ls, n, row).
          let row = (if row < EDITOR_MAX_LINES \<and> (ls ! row \<noteq> [] \<or> n \<ge> start) then row + 1 else row);
              row = max 1 row
          in (0, editor_set_status (e\<lparr>ed_lines := map cut_row ls, ed_count := row, ed_start_line := start,
                ed_complete := (remaining = 0 \<or> bno = 0), ed_row := 0, ed_col := 0, ed_scroll := 0, ed_mode := 0,
                ed_cmd := [], ed_dirty := False, ed_pending_d := False, ed_readonly := True\<rparr>)
              ''Large file: lazy read-only view''))
        (window_blocks f start (ed_file_size e) (ed_file_bno e) (no_lines, 0, 0)))"

section \<open>Moving\<close>

text \<open>A window of the file that starts at a line; the rest of the key is skipped when there is no file.\<close>

definition with_window :: "fs \<Rightarrow> editor \<Rightarrow> u32 \<Rightarrow> (editor \<Rightarrow> editor) \<Rightarrow> editor option" where
  "with_window f e start g =
     map_option (\<lambda>(rc, e). if rc = 0 then g e else e) (editor_load_file_window f e start)"

definition start_before :: "editor \<Rightarrow> u32" where
  "start_before e = (if ed_start_line e > 128 then ed_start_line e - 128 else 0)"

definition start_behind :: "editor \<Rightarrow> u32" where
  "start_behind e = ed_start_line e + of_nat (ed_count e)"

definition cap_col :: "editor \<Rightarrow> editor" where
  "cap_col e = e\<lparr>ed_col := min (editor_line_len (line_at e (ed_row e))) (ed_col e)\<rparr>"

definition editor_page_up :: "fs \<Rightarrow> editor \<Rightarrow> editor option" where
  "editor_page_up f e =
     (let rows = editor_visible_rows e in
      if ed_lazy e \<and> ed_row e = 0 \<and> ed_start_line e > 0 then
        with_window f e (start_before e) (\<lambda>e. e\<lparr>ed_row := ed_count e - 1, ed_scroll := ed_count e - rows\<rparr>)
      else Some (cap_col (e\<lparr>ed_row := ed_row e - rows\<rparr>)))"

definition editor_page_down :: "fs \<Rightarrow> editor \<Rightarrow> editor option" where
  "editor_page_down f e =
     (let rows = editor_visible_rows e in
      if ed_lazy e \<and> ed_row e + 1 \<ge> ed_count e \<and> \<not> ed_complete e then
        with_window f e (start_behind e) (\<lambda>e. e\<lparr>ed_row := 0, ed_scroll := 0\<rparr>)
      else Some (cap_col (e\<lparr>ed_row := (if ed_row e + rows \<ge> ed_count e then ed_count e - 1 else ed_row e + rows)\<rparr>)))"

definition editor_move_left :: "editor \<Rightarrow> editor" where
  "editor_move_left e =
     (if ed_col e > 0 then e\<lparr>ed_col := ed_col e - 1\<rparr>
      else if ed_row e > 0 then
        e\<lparr>ed_row := ed_row e - 1, ed_col := editor_line_len (line_at e (ed_row e - 1))\<rparr>
      else e)"

definition editor_move_right :: "editor \<Rightarrow> editor" where
  "editor_move_right e =
     (if ed_col e < editor_line_len (line_at e (ed_row e)) then e\<lparr>ed_col := ed_col e + 1\<rparr>
      else if ed_row e + 1 < ed_count e then e\<lparr>ed_row := ed_row e + 1, ed_col := 0\<rparr>
      else e)"

definition editor_move_up :: "fs \<Rightarrow> editor \<Rightarrow> editor option" where
  "editor_move_up f e =
     (if ed_row e > 0 then Some (cap_col (e\<lparr>ed_row := ed_row e - 1\<rparr>))
      else if ed_lazy e \<and> ed_start_line e > 0 then
        with_window f e (start_before e) (\<lambda>e. e\<lparr>ed_row := ed_count e - 1, ed_col := 0\<rparr>)
      else Some e)"

definition editor_move_down :: "fs \<Rightarrow> editor \<Rightarrow> editor option" where
  "editor_move_down f e =
     (if ed_row e + 1 < ed_count e then Some (cap_col (e\<lparr>ed_row := ed_row e + 1\<rparr>))
      else if ed_lazy e \<and> \<not> ed_complete e then
        with_window f e (start_behind e) (\<lambda>e. e\<lparr>ed_row := 0, ed_col := 0\<rparr>)
      else Some e)"

section \<open>Commands and keys\<close>

definition editor_open_insert_mode :: "editor \<Rightarrow> editor" where
  "editor_open_insert_mode e = editor_set_status (e\<lparr>ed_pending_d := False, ed_mode := 1\<rparr>) ''-- INSERT --''"

definition editor_open_command_mode :: "editor \<Rightarrow> editor" where
  "editor_open_command_mode e =
     editor_set_status (e\<lparr>ed_pending_d := False, ed_mode := 2, ed_cmd := []\<rparr>) '':''"

definition editor_parse_positive_int :: "string \<Rightarrow> u32 option" where
  "editor_parse_positive_int s =
     (let s = dropWhile (\<lambda>c. c = CHR '' '') s;
          ds = takeWhile is_digit s; s = dropWhile is_digit s;
          v = foldl (\<lambda>v c. v * 10 + (ucast (c2b c) - 48)) 0 ds
      in if ds = [] \<or> dropWhile (\<lambda>c. c = CHR '' '') s \<noteq> [] then None else Some v)"

text \<open>The window stays open or is closed (\<open>close_window\<close>, which clears all its fields).\<close>

datatype edit_state = Open editor fs | Closed fs

definition goto_line :: "fs \<Rightarrow> editor \<Rightarrow> u32 \<Rightarrow> editor option" where
  "goto_line f e target =
     (if ed_lazy e then
        with_window f e (if target > 64 then target - 64 else 0)
          (\<lambda>e. let rel = target - ed_start_line e;
                   rel = (if rel \<ge> of_nat (ed_count e) then of_nat (ed_count e - 1) else rel)
               in editor_scroll_to_cursor (e\<lparr>ed_row := unat rel, ed_col := 0\<rparr>))
      else let target = (if target \<ge> of_nat (ed_count e) then of_nat (ed_count e - 1) else target)
        in Some (editor_scroll_to_cursor (e\<lparr>ed_row := unat target, ed_col := 0\<rparr>)))"

definition command_done :: "editor \<Rightarrow> editor" where
  "command_done e = e\<lparr>ed_mode := 0, ed_cmd := []\<rparr>"

definition editor_apply_command :: "editor \<Rightarrow> fs \<Rightarrow> edit_state option" where
  "editor_apply_command e f =
     (let cmd = ed_cmd e; stay = (\<lambda>e f. Open (command_done e) f) in
      if strcmp cmd ''w'' = 0 then map_option (\<lambda>(rc, e, f). stay e f) (editor_save_file e f)
      else if strcmp cmd ''wq'' = 0 \<or> strcmp cmd ''x'' = 0 then
        map_option (\<lambda>(rc, e, f). if rc = 0 then Closed f else stay e f) (editor_save_file e f)
      else if strcmp cmd ''q'' = 0 then
        Some (if \<not> ed_dirty e then Closed f else stay (editor_set_status e ''No write since last change'') f)
      else if strcmp cmd ''q!'' = 0 then Some (Closed f)
      else if cmd \<noteq> [] then
        (case editor_parse_positive_int cmd of
           Some line_no \<Rightarrow>
             if line_no > 0 then map_option (\<lambda>e. stay e f) (goto_line f e (line_no - 1))
             else Some (stay (editor_set_status e ''Unknown command'') f)
         | None \<Rightarrow> Some (stay (editor_set_status e ''Unknown command'') f))
      else Some (stay e f))"

text \<open>The first column from \<open>c\<close> on, or back from \<open>c\<close>, at which the command text occurs.\<close>

definition match_at :: "string \<Rightarrow> string \<Rightarrow> int \<Rightarrow> bool" where
  "match_at line pat c \<longleftrightarrow> c \<le> int (editor_line_len line) - int (length pat) \<and>
     strncmp (drop (nat c) line) pat (length pat) = 0"

definition find_in_row :: "bool \<Rightarrow> string \<Rightarrow> string \<Rightarrow> int \<Rightarrow> int option" where
  "find_in_row fwd line pat c =
     (if fwd then find (match_at line pat) [c .. int (editor_line_len line) - int (length pat)]
      else find (match_at line pat) (rev [0 .. c]))"

definition find_step :: "bool \<Rightarrow> editor \<Rightarrow> nat \<Rightarrow> (nat \<times> nat) option" where
  "find_step fwd e i =
     (let n = int (ed_count e);
          r = nat ((int (ed_row e) + (if fwd then int i else - int i) + n) mod n);
          line = line_at e r;
          c = (if i = 0 then int (ed_col e) + (if fwd then 1 else -1)
               else if fwd then 0 else int (editor_line_len line) - 1)
      in map_option (\<lambda>c. (r, nat c)) (find_in_row fwd line (ed_cmd e) c))"

definition editor_find_next :: "editor \<Rightarrow> bool \<Rightarrow> editor" where
  "editor_find_next e fwd =
     (if ed_cmd e = [] then e
      else case find (\<lambda>i. find_step fwd e i \<noteq> None) [0 ..< ed_count e] of
        Some i \<Rightarrow> (case find_step fwd e i of Some (r, c) \<Rightarrow> e\<lparr>ed_row := r, ed_col := c\<rparr> | None \<Rightarrow> e)
      | None \<Rightarrow> e)"

text \<open>The status line that shows the command: the prompt, then \<open>lib_strcat\<close> into 64 characters.\<close>

definition show_command :: "editor \<Rightarrow> editor option" where
  "show_command e =
     map_option (editor_set_status e)
       (fits EDITOR_STATUS_LEN ((if ed_mode e = 3 then CHR ''/'' else CHR '':'') # ed_cmd e))"

definition settle :: "editor \<Rightarrow> editor" where
  "settle e = editor_scroll_to_cursor (editor_clamp_cursor e)"

definition settled :: "fs \<Rightarrow> editor option \<Rightarrow> edit_state option" where
  "settled f r = map_option (\<lambda>e. Open (settle e) f) r"

definition HELP :: string where
  "HELP = ''i=insert  :wq=save+quit  :q=quit''"

text \<open>Keys while a command (mode 2) or a search text (mode 3) is typed.\<close>

definition command_key :: "editor \<Rightarrow> fs \<Rightarrow> char \<Rightarrow> edit_state option" where
  "command_key e f key =
     (let e = e\<lparr>ed_pending_d := False\<rparr>; k = of_char key :: nat in
      if k = 27 then Some (Open (editor_set_status (e\<lparr>ed_mode := 0, ed_cmd := []\<rparr>) HELP) f)
      else if k = 10 \<or> k = 13 then
        if ed_mode e = 3 then settled f (Some ((editor_find_next e True)\<lparr>ed_mode := 0\<rparr>))
        else map_option (\<lambda>r. case r of Open e f \<Rightarrow> Open (settle e) f | Closed f \<Rightarrow> Closed f) (editor_apply_command e f)
      else if k = 8 \<or> k = 127 then map_option (\<lambda>e. Open e f) (show_command (e\<lparr>ed_cmd := butlast (ed_cmd e)\<rparr>))
      else if k \<ge> 32 \<and> k < 127 \<and> length (ed_cmd e) < ED_COLS - 2 then
        map_option (\<lambda>e. Open e f) (show_command (e\<lparr>ed_cmd := ed_cmd e @ [key]\<rparr>))
      else Some (Open e f))"

definition open_below :: "editor \<Rightarrow> editor option" where
  "open_below e =
     (if ed_count e \<ge> EDITOR_MAX_LINES then Some e
      else let ls = (if ed_row e + 1 < ed_count e then open_rows (ed_row e + 1) (ed_count e) (ed_lines e) else ed_lines e)
        in map_option (\<lambda>e. (editor_open_insert_mode e)\<lparr>ed_dirty := True\<rparr>)
             (put_line (ed_row e + 1) [] (e\<lparr>ed_lines := ls, ed_count := ed_count e + 1, ed_row := ed_row e + 1, ed_col := 0\<rparr>)))"

definition open_above :: "editor \<Rightarrow> editor option" where
  "open_above e =
     (if ed_count e \<ge> EDITOR_MAX_LINES then Some e
      else map_option (\<lambda>e. (editor_open_insert_mode (e\<lparr>ed_col := 0\<rparr>))\<lparr>ed_dirty := True\<rparr>)
             (put_line (ed_row e) [] (e\<lparr>ed_lines := open_rows (ed_row e) (ed_count e) (ed_lines e), ed_count := ed_count e + 1\<rparr>)))"

text \<open>The keys that move in every mode, as codes 16 to 24.\<close>

definition move_key :: "fs \<Rightarrow> editor \<Rightarrow> nat \<Rightarrow> editor option" where
  "move_key f e k =
     (if k = 16 then editor_move_up f e else if k = 17 then editor_move_down f e
      else if k = 18 then Some (editor_move_left e) else if k = 19 then Some (editor_move_right e)
      else if k = 21 then Some (editor_move_home e) else if k = 22 then Some (editor_move_end e)
      else if k = 23 then editor_page_up f e else if k = 24 then editor_page_down f e else Some e)"

definition normal_action :: "fs \<Rightarrow> editor \<Rightarrow> char \<Rightarrow> editor option" where
  "normal_action f e key =
     (let k = of_char key :: nat in
      if key = CHR ''i'' then Some (editor_open_insert_mode e)
      else if key = CHR '':'' then Some (editor_open_command_mode e)
      else if key = CHR ''h'' then Some (editor_move_left e)
      else if key = CHR ''l'' then Some (editor_move_right e)
      else if key = CHR ''k'' then editor_move_up f e
      else if key = CHR ''j'' then editor_move_down f e
      else if key = CHR ''o'' then open_below e
      else if key = CHR ''O'' then open_above e
      else if key = CHR ''x'' \<or> k = 20 then delete_at_cursor e
      else if k = 25 then Some (editor_open_insert_mode e)
      else move_key f e k)"

definition normal_key :: "editor \<Rightarrow> fs \<Rightarrow> char \<Rightarrow> edit_state option" where
  "normal_key e f key =
     (if ed_pending_d e then
        settled f (map_option (\<lambda>e. e\<lparr>ed_pending_d := False\<rparr>)
          (if key = CHR ''d'' then editor_delete_current_line e else Some e))
      else if key = CHR ''/'' then
        Some (Open (editor_set_status (e\<lparr>ed_mode := 3, ed_cmd := []\<rparr>) ''/'') f)
      else if key = CHR ''n'' then settled f (Some (editor_find_next e True))
      else if key = CHR ''N'' then settled f (Some (editor_find_next e False))
      else if key = CHR ''d'' then
        Some (Open (editor_set_status (e\<lparr>ed_pending_d := True\<rparr>) ''dd=delete line'') f)
      else settled f (normal_action f e key))"

definition editor_backspace :: "editor \<Rightarrow> editor option" where
  "editor_backspace e =
     (if ed_col e > 0 then delete_char (editor_move_left e) else editor_join_with_previous e)"

definition insert_action :: "fs \<Rightarrow> editor \<Rightarrow> char \<Rightarrow> editor option" where
  "insert_action f e key =
     (let k = of_char key :: nat in
      if k = 8 \<or> k = 127 then editor_backspace e
      else if k = 10 \<or> k = 13 then editor_newline e
      else if k = 9 then
        if ed_mode e = 1 then ((\<lambda>e. Option.bind e (\<lambda>e. editor_insert_char e (CHR '' ''))) ^^ 4) (Some e) else Some e
      else if k \<ge> 32 \<and> k < 127 then editor_insert_char e key
      else move_key f e k)"

definition paste_char :: "char \<Rightarrow> editor option \<Rightarrow> editor option" where
  "paste_char c r =
     Option.bind r (\<lambda>e. if c = NL then editor_newline e else if c \<noteq> CHR 0x0D then editor_insert_char e c else Some e)"

text \<open>
  \<open>editor_handle_key\<close>, with the state of the control key and the text of the clipboard. (In the
  loop of Backspace the column has moved left, so the character under the cursor goes.)
\<close>

definition editor_handle_key :: "bool \<Rightarrow> string \<Rightarrow> editor \<Rightarrow> fs \<Rightarrow> char \<Rightarrow> edit_state option" where
  "editor_handle_key ctrl clip e f key =
     (if ed_mode e = 2 \<or> ed_mode e = 3 then command_key e f key
      else if key = CHR 0x1B then Some (Open (editor_set_status (e\<lparr>ed_mode := 0, ed_pending_d := False\<rparr>) HELP) f)
      else if ed_mode e = 0 then normal_key e f key
      else if ctrl \<and> (key = CHR ''v'' \<or> key = CHR ''V'') then settled f (fold paste_char clip (Some e))
      else settled f (insert_action f e key))"

section \<open>Opening a file\<close>

definition EDITOR_LIMIT :: nat where "EDITOR_LIMIT = EDITOR_MAX_LINES * (EDITOR_LINE_LEN - 1)"

text \<open>A window after \<open>reset_window\<close>, as an editor of the name in the directory.\<close>

definition new_editor :: "nat \<Rightarrow> string \<Rightarrow> string \<Rightarrow> editor" where
  "new_editor bno cwd leaf =
     \<lparr>ed_win = (tmp_window (bno_or_root bno) ''/root'')\<lparr>win_kind := 4\<rparr>, ed_name = take 19 leaf,
      ed_path = build_editor_path cwd leaf, ed_cwd = cwd_or_root cwd, ed_status = [], ed_lines = no_lines,
      ed_cmd = [], ed_mode = 0, ed_count = 0, ed_row = 0, ed_col = 0, ed_scroll = 0, ed_dirty = False,
      ed_pending_d = False, ed_readonly = False, ed_lazy = False, ed_complete = False, ed_file_bno = 0,
      ed_file_size = 0, ed_start_line = 0, ed_maximized = True, ed_h = 270, ed_font = 1\<rparr>"

definition shown_file :: "fs \<Rightarrow> editor \<Rightarrow> bool \<Rightarrow> int \<Rightarrow> u8 list \<Rightarrow> editor option" where
  "shown_file f e lazy rc bytes =
     map_option (\<lambda>e. editor_set_status (e\<lparr>ed_readonly := lazy\<rparr>) (if lazy then ''Large file: lazy read-only view'' else HELP))
       (if lazy then map_option snd (editor_load_file_window f e 0)
        else Some (if rc = 0 then editor_load_bytes e bytes else editor_clear e))"

text \<open>
  \<open>open_text_editor\<close>: the return code and the editor; \<open>room\<close> tells whether one of the windows is free.
\<close>

definition open_text_editor :: "bool \<Rightarrow> fs \<Rightarrow> fs_win \<Rightarrow> string \<Rightarrow> (int \<times> editor option \<times> fs) option" where
  "open_text_editor room f term name =
     (if name = [] then Some (-1, None, f)
      else case resolve_editor_target 128 f term (take 63 name) of
        None \<Rightarrow> None
      | Some (None, f) \<Rightarrow> Some (-1, None, f)
      | Some (Some (dir_bno, cwd, leaf), f) \<Rightarrow>
        if leaf = [] \<or> strcmp leaf ''.'' = 0 then Some (-6, None, f)
        else (case load_current_dir f (tmp_window (bno_or_root dir_bno) (cwd_or_root cwd)) of
            None \<Rightarrow> None
          | Some (None, _, f) \<Rightarrow> Some (-1, None, f)
          | Some (Some db, w, f) \<Rightarrow>
            let idx = find_entry_index db leaf (-1) in
            if idx \<noteq> None \<and> e_type db (the idx) = 1 then Some (-6, None, f)
            else let bno = (case idx of Some i \<Rightarrow> e_bno db i | None \<Rightarrow> 0);
                     sz = (case idx of Some i \<Rightarrow> e_size db i | None \<Rightarrow> 0);
                     lazy = (idx \<noteq> None \<and> sz > EDITOR_LIMIT)
              in case (if idx = None then Some ((-2, []), w, f) else if lazy then Some ((0, []), w, f)
                       else load_file_bytes f w leaf 262144) of
                  None \<Rightarrow> None
                | Some ((rc, bytes), w, f) \<Rightarrow>
                  if rc = -3 then Some (-4, None, f)
                  else if \<not> room then Some (-5, None, f)
                  else map_option (\<lambda>e. (0, Some e, f))
                    (shown_file f ((new_editor dir_bno cwd leaf)\<lparr>ed_file_bno := bno, ed_file_size := sz, ed_lazy := lazy\<rparr>)
                       lazy rc bytes)))"

end
