(* ===== verification/EditorSafe.thy ===== *)
theory EditorSafe
  imports Editor ShellFiles
begin

text \<open>
  What the editor does: no key leaves the arrays of its window, the keys of the insert mode act on the
  rows as on one text with a cursor, and loading, typing and saving give the expected bytes.
\<close>

section \<open>Rows\<close>

lemma close_rows_nth:
  "length (fold (\<lambda>i ls. ls[i := ls ! (i + 1)]) [r ..< r + k] ls) = length ls \<and>
   (\<forall>j. r + k < length ls \<longrightarrow> fold (\<lambda>i ls. ls[i := ls ! (i + 1)]) [r ..< r + k] ls ! j = ls ! (if r \<le> j \<and> j < r + k then j + 1 else j))"
  by (induction k) (auto simp: nth_list_update)

lemma open_rows_nth:
  "k \<le> n \<Longrightarrow> length (fold (\<lambda>i ls. ls[i := ls ! (i - 1)]) (rev [n - k + 1 ..< n + 1]) ls) = length ls \<and>
   (\<forall>j. n < length ls \<longrightarrow> fold (\<lambda>i ls. ls[i := ls ! (i - 1)]) (rev [n - k + 1 ..< n + 1]) ls ! j =
     ls ! (if n - k < j \<and> j \<le> n then j - 1 else j))"
proof (induction k)
  case (Suc k)
  have u: "[n - Suc k + 1 ..< n + 1] = (n - k) # [n - k + 1 ..< n + 1]"
    using Suc.prems upt_conv_Cons [of "n - k" "n + 1"] by (simp add: Suc_diff_Suc)
  show ?case unfolding u using Suc by (auto simp: nth_list_update)
qed auto

lemma close_rows_eq:
  assumes "r < n" "n \<le> length ls"
  shows "close_rows r n ls = take r ls @ drop (r + 1) (take n ls) @ drop (n - 1) ls"
proof -
  note c = close_rows_nth [of r "n - 1 - r" ls]
  have "length (close_rows r n ls) = length ls" using c assms by (simp add: close_rows_def)
  moreover have "close_rows r n ls ! j = ls ! (if r \<le> j \<and> j < n - 1 then j + 1 else j)" for j
    using c assms by (simp add: close_rows_def)
  ultimately show ?thesis by (intro nth_equalityI [where xs = "close_rows r n ls"]) (use assms in \<open>auto simp: nth_append\<close>)
qed

lemma open_rows_eq:
  assumes "r \<le> n" "n < length ls"
  shows "open_rows r n ls = take (r + 1) ls @ drop r (take n ls) @ drop (n + 1) ls"
proof -
  note c = open_rows_nth [of "n - r" n ls]
  have "length (open_rows r n ls) = length ls" using c assms by (simp add: open_rows_def)
  moreover have "open_rows r n ls ! j = ls ! (if r < j \<and> j \<le> n then j - 1 else j)" for j
    using c assms by (simp add: open_rows_def)
  ultimately show ?thesis by (intro nth_equalityI [where xs = "open_rows r n ls"]) (use assms in \<open>auto simp: nth_append\<close>)
qed

section \<open>The invariant of an editor window\<close>

definition line_ok :: "string \<Rightarrow> bool" where
  "line_ok l \<longleftrightarrow> length l \<le> 63 \<and> NUL \<notin> set l \<and> NL \<notin> set l"

definition rows_ok :: "string list \<Rightarrow> bool" where
  "rows_ok ls \<longleftrightarrow> length ls = 128 \<and> (\<forall>l \<in> set ls. line_ok l)"

text \<open>What holds between the steps of a key, and after it.\<close>

definition buf_ok :: "editor \<Rightarrow> bool" where
  "buf_ok e \<longleftrightarrow> rows_ok (ed_lines e) \<and> 1 \<le> ed_count e \<and> ed_count e \<le> 128 \<and> length (ed_cmd e) \<le> 98 \<and>
     (ed_lazy e \<longrightarrow> ed_readonly e)"

definition ed_ok :: "editor \<Rightarrow> bool" where
  "ed_ok e \<longleftrightarrow> buf_ok e \<and> ed_row e < ed_count e \<and> ed_col e \<le> length (line_at e (ed_row e))"

lemma line_len [simp]: "line_ok l \<Longrightarrow> editor_line_len l = length l"
  by (simp add: line_ok_def editor_line_len_def)

lemma line_ok_simps [simp]: "line_ok []" "line_ok l \<Longrightarrow> line_ok (take n l)" "line_ok l \<Longrightarrow> line_ok (drop n l)"
  by (auto simp: line_ok_def dest: in_set_takeD in_set_dropD)

lemma line_ok_app: "line_ok l \<Longrightarrow> line_ok m \<Longrightarrow> length l + length m \<le> 63 \<Longrightarrow> line_ok (l @ m)"
  by (simp add: line_ok_def)

lemma rows_ok_put: "rows_ok ls \<Longrightarrow> line_ok s \<Longrightarrow> rows_ok (ls[r := s])"
  using set_update_subset_insert [of ls r s] by (auto simp: rows_ok_def)

lemma rows_ok_at: "rows_ok ls \<Longrightarrow> r < 128 \<Longrightarrow> line_ok (ls ! r)"
  by (simp add: rows_ok_def)

lemma rows_ok_close: "rows_ok ls \<Longrightarrow> r < n \<Longrightarrow> n \<le> 128 \<Longrightarrow> rows_ok (close_rows r n ls)"
  by (auto simp: rows_ok_def close_rows_eq dest!: in_set_takeD in_set_dropD)

lemma rows_ok_open: "rows_ok ls \<Longrightarrow> r \<le> n \<Longrightarrow> n < 128 \<Longrightarrow> rows_ok (open_rows r n ls)"
  by (auto simp: rows_ok_def open_rows_eq dest!: in_set_takeD in_set_dropD)

lemma line_at_ok: "buf_ok e \<Longrightarrow> r < 128 \<Longrightarrow> line_ok (line_at e r)"
  by (simp add: buf_ok_def line_at_def rows_ok_at)

lemma put_line_eq: "r < 128 \<Longrightarrow> line_ok s \<Longrightarrow> put_line r s e = Some (e\<lparr>ed_lines := (ed_lines e)[r := s]\<rparr>)"
  by (simp add: put_line_def line_ok_def)

lemma ed_buf_put: "buf_ok e \<Longrightarrow> line_ok s \<Longrightarrow> buf_ok (e\<lparr>ed_lines := (ed_lines e)[r := s]\<rparr>)"
  by (simp add: buf_ok_def rows_ok_put)

lemma buf_ok_fields [simp]:
  "buf_ok (e\<lparr>ed_row := r\<rparr>) = buf_ok e" "buf_ok (e\<lparr>ed_col := c\<rparr>) = buf_ok e" "buf_ok (e\<lparr>ed_scroll := s\<rparr>) = buf_ok e"
  "buf_ok (e\<lparr>ed_dirty := b\<rparr>) = buf_ok e" "buf_ok (e\<lparr>ed_pending_d := b\<rparr>) = buf_ok e" "buf_ok (e\<lparr>ed_mode := m\<rparr>) = buf_ok e"
  "buf_ok (e\<lparr>ed_status := t\<rparr>) = buf_ok e" "buf_ok (editor_set_status e t) = buf_ok e"
  by (simp_all add: buf_ok_def editor_set_status_def)

lemma ed_ok_fields [simp]:
  "ed_ok (e\<lparr>ed_dirty := b\<rparr>) = ed_ok e" "ed_ok (e\<lparr>ed_pending_d := b\<rparr>) = ed_ok e" "ed_ok (e\<lparr>ed_mode := m\<rparr>) = ed_ok e"
  "ed_ok (e\<lparr>ed_status := t\<rparr>) = ed_ok e" "ed_ok (editor_set_status e t) = ed_ok e"
  by (simp_all add: ed_ok_def editor_set_status_def line_at_def)

lemma settle_ok: "buf_ok e \<Longrightarrow> ed_ok (settle e)"
proof -
  assume b: "buf_ok e"
  define row where "row = (if ed_row e \<ge> ed_count e then ed_count e - 1 else ed_row e)"
  have c: "min 128 (max 1 (ed_count e)) = ed_count e" using b by (auto simp: buf_ok_def)
  have r: "row < ed_count e" "row < 128" using b by (auto simp: row_def buf_ok_def)
  have "editor_clamp_cursor e = e\<lparr>ed_count := ed_count e, ed_row := row, ed_col := min (editor_line_len (line_at e row)) (ed_col e)\<rparr>"
    unfolding editor_clamp_cursor_def Let_def c row_def by simp
  then show ?thesis using b r line_at_ok [OF b r(2)]
    by (simp add: settle_def editor_scroll_to_cursor_def Let_def ed_ok_def buf_ok_def line_at_def)
qed

lemma ed_okD:
  "ed_ok e \<Longrightarrow> buf_ok e" "ed_ok e \<Longrightarrow> ed_row e < 128" "ed_ok e \<Longrightarrow> line_ok (line_at e (ed_row e))"
  using line_at_ok by (auto simp: ed_ok_def buf_ok_def)

text \<open>A step that succeeds and keeps the buffer.\<close>

definition keeps :: "editor option \<Rightarrow> bool" where
  "keeps r \<longleftrightarrow> (\<exists>e. r = Some e \<and> buf_ok e)"

lemma keeps_Some [simp]: "keeps (Some e) = buf_ok e" "\<not> keeps None"
  by (simp_all add: keeps_def)

lemma keeps_put: "buf_ok e \<Longrightarrow> r < 128 \<Longrightarrow> line_ok s \<Longrightarrow> keeps (put_line r s e)"
  by (simp add: put_line_eq ed_buf_put)

lemma keeps_map: "keeps r \<Longrightarrow> (\<And>e. buf_ok e \<Longrightarrow> buf_ok (g e)) \<Longrightarrow> keeps (map_option g r)"
  by (auto simp: keeps_def)

lemma keeps_join: "ed_ok e \<Longrightarrow> keeps (editor_join_with_previous e)"
proof -
  assume ok: "ed_ok e"
  note b = ed_okD [OF ok]
  have p: "line_ok (line_at e (ed_row e - 1))" using line_at_ok [OF b(1)] b(2) by simp
  have g: "buf_ok (x\<lparr>ed_lines := close_rows (ed_row x) (ed_count x) (ed_lines x), ed_count := ed_count x - 1,
      ed_row := r, ed_col := c, ed_dirty := True\<rparr>)" if "buf_ok x" "ed_row x < ed_count x" "0 < ed_row x" for x r c
    using that rows_ok_close [of "ed_lines x" "ed_row x" "ed_count x"] by (auto simp: buf_ok_def)
  have r: "ed_row e < ed_count e" using ok by (simp add: ed_ok_def)
  show ?thesis unfolding editor_join_with_previous_def Let_def
    using b p r g [OF b(1) r] g [OF ed_buf_put [OF b(1)]] line_ok_app [OF p b(3)]
    by (auto simp: put_line_eq max_absorb2)
qed

lemma keeps_delete_line: "ed_ok e \<Longrightarrow> keeps (editor_delete_current_line e)"
proof -
  assume ok: "ed_ok e"
  note b = ed_okD [OF ok]
  show ?thesis
    using ok b(1) rows_ok_close [of "ed_lines e" "ed_row e" "ed_count e"]
    by (auto simp: editor_delete_current_line_def Let_def ed_ok_def buf_ok_def intro!: keeps_put)
qed

lemma keeps_insert:
  assumes "buf_ok e" "c \<noteq> NUL" "c \<noteq> NL"
  shows "keeps (editor_insert_char e c)"
proof (cases "ed_row e < 128")
  case True
  have "line_ok (take col l @ c # drop col l)" if "line_ok l" "length l < 62" for col l
    using that assms(2,3) by (auto simp: line_ok_def min_def dest: in_set_takeD in_set_dropD)
  then show ?thesis using assms(1) True line_at_ok [OF assms(1) True]
    by (auto simp: editor_insert_char_def Let_def intro!: keeps_put)
qed (use assms(1) in \<open>simp add: editor_insert_char_def\<close>)

lemma keeps_newline:
  assumes "buf_ok e" "ed_row e < ed_count e"
  shows "keeps (editor_newline e) \<and> (\<forall>e'. editor_newline e = Some e' \<longrightarrow> ed_row e' < ed_count e')"
proof (cases "ed_count e < 128")
  case True
  let ?line = "line_at e (ed_row e)" and ?c = "min (editor_line_len (line_at e (ed_row e))) (ed_col e)"
  have l: "line_ok ?line" using line_at_ok [OF assms(1)] assms(2) True by simp
  let ?e = "e\<lparr>ed_lines := open_rows (ed_row e + 1) (ed_count e) ((ed_lines e)[ed_row e := take ?c ?line]),
    ed_count := ed_count e + 1, ed_row := ed_row e + 1, ed_col := 0, ed_dirty := True\<rparr>"
  have "rows_ok ((ed_lines e)[ed_row e := take ?c ?line])" using assms(1) l by (simp add: buf_ok_def rows_ok_put)
  then have "buf_ok ?e" using assms True rows_ok_open [of _ "ed_row e + 1" "ed_count e"] by (simp add: buf_ok_def)
  then have "keeps (put_line (ed_row e + 1) (drop ?c (take (editor_line_len ?line) ?line)) ?e)"
    using assms(2) True l by (intro keeps_put) simp_all
  moreover have "editor_newline e = put_line (ed_row e + 1) (drop ?c (take (editor_line_len ?line) ?line)) ?e"
    using True assms(2) l put_line_eq [of "ed_row e" "take ?c ?line" e] by (simp add: editor_newline_def Let_def)
  ultimately show ?thesis using assms(2) by (auto simp: put_line_def split: if_splits)
qed (use assms in \<open>simp add: editor_newline_def\<close>)

lemma keeps_delete_char: "buf_ok e \<Longrightarrow> ed_row e < 128 \<Longrightarrow> keeps (delete_char e)"
  unfolding delete_char_def Let_def
  using line_at_ok [of e "ed_row e"]
  by (intro keeps_put) (auto simp: line_ok_def dest: in_set_takeD in_set_dropD)

lemma insert_mode_ok [simp]: "buf_ok (editor_open_insert_mode e) = buf_ok e"
  by (simp add: editor_open_insert_mode_def)

lemma opened_ok:
  assumes "ed_ok e" "ed_count e < 128" "r \<le> ed_count e"
  shows "buf_ok (e\<lparr>ed_lines := open_rows r (ed_count e) (ed_lines e), ed_count := ed_count e + 1, ed_row := r', ed_col := c\<rparr>)"
    "buf_ok (e\<lparr>ed_lines := open_rows r (ed_count e) (ed_lines e), ed_count := ed_count e + 1\<rparr>)"
    "buf_ok (e\<lparr>ed_count := ed_count e + 1, ed_row := r', ed_col := c\<rparr>)"
  using assms rows_ok_open [of "ed_lines e" r "ed_count e"] by (simp_all add: ed_ok_def buf_ok_def)

lemma keeps_open_below: "ed_ok e \<Longrightarrow> keeps (open_below e)"
proof -
  assume e: "ed_ok e"
  then have r: "ed_row e < ed_count e" by (simp add: ed_ok_def)
  show ?thesis unfolding open_below_def Let_def using e r opened_ok [OF e, of "ed_row e + 1"]
    by (auto simp: ed_okD intro!: keeps_map keeps_put)
qed

lemma keeps_open_above: "ed_ok e \<Longrightarrow> keeps (open_above e)"
proof -
  assume e: "ed_ok e"
  then have r: "ed_row e < ed_count e" by (simp add: ed_ok_def)
  show ?thesis unfolding open_above_def using e r opened_ok(2) [OF e, of "ed_row e"]
    by (auto simp: ed_okD intro!: keeps_map keeps_put)
qed

section \<open>Reading a window of the file\<close>

lemma cut_ok:
  assumes "length ls = 128" "\<forall>l \<in> set ls. length l \<le> 63 \<and> NL \<notin> set l"
  shows "rows_ok (map cut_row ls)"
proof -
  have "line_ok (cut_row l)" if "l \<in> set ls" for l
    using that assms(2) length_takeWhile_le [of "\<lambda>c. c \<noteq> NUL" l]
    by (auto simp: line_ok_def cut_row_def dest!: set_takeWhileD)
  then show ?thesis using assms(1) by (simp add: rows_ok_def)
qed

definition raw_ok :: "string list \<Rightarrow> bool" where
  "raw_ok ls \<longleftrightarrow> length ls = 128 \<and> (\<forall>l \<in> set ls. length l \<le> 63 \<and> NL \<notin> set l)"

lemma raw_ok_put:
  assumes "raw_ok ls" "row < 128" "length (ls ! row) < 63" "c \<noteq> 10"
  shows "raw_ok (ls[row := ls ! row @ [b2c c]])"
proof -
  have "c2b NL = 10" by (simp add: c2b_def)
  then have "b2c 10 = NL" by (metis b2c_c2b)
  then have "b2c c \<noteq> NL" using assms(4) by (metis b2c_inject)
  then show ?thesis using assms set_update_subset_insert [of ls row "ls ! row @ [b2c c]"] nth_mem [of row ls]
    by (auto simp: raw_ok_def)
qed

lemma raw_ok_empty [simp]: "raw_ok no_lines"
  by (simp add: raw_ok_def no_lines_def)

lemma window_char_ok: "raw_ok (fst st) \<Longrightarrow> raw_ok (fst (window_char start ch st))"
  by (auto simp: window_char_def raw_ok_put split: prod.splits)

lemma window_row: "snd (snd st) \<le> 128 \<Longrightarrow> snd (snd (window_char start ch st)) \<le> 128"
  by (auto simp: window_char_def split: prod.splits)

lemma window_fold:
  "raw_ok (fst st) \<Longrightarrow> snd (snd st) \<le> 128 \<Longrightarrow>
   raw_ok (fst (fold (window_char start) bs st)) \<and> snd (snd (fold (window_char start) bs st)) \<le> 128"
  by (induction bs arbitrary: st) (simp_all add: window_char_ok window_row)

lemma window_blocks_ok:
  "chain (disk f) bno bs \<Longrightarrow> raw_ok (fst st) \<Longrightarrow> snd (snd st) \<le> 128 \<Longrightarrow>
   \<exists>r b st'. window_blocks f start remaining bno st = Some (r, b, st') \<and> raw_ok (fst st') \<and> snd (snd st') \<le> 128"
proof (induction bs arbitrary: bno remaining st)
  case Nil
  then show ?case by (simp add: window_blocks.simps [of f start remaining])
next
  case (Cons x xs)
  let ?chunk = "min remaining 4088"
  let ?st = "fold (window_char start) (bytes_at (disk f x) 8 ?chunk) st"
  have b: "bno = x" "x \<noteq> 0" "x < 512" "le32 (disk f x) 0 = FS_DATA_MAGIC" "chain (disk f) (unat (le32 (disk f x) 4)) xs"
    using Cons.prems(1) by simp_all
  have st: "raw_ok (fst ?st)" "snd (snd ?st) \<le> 128" using window_fold [OF Cons.prems(2,3)] by simp_all
  show ?case
    using Cons.IH [OF b(5) st, of "remaining - ?chunk"] b(1-4) Cons.prems(2,3)
    by (subst window_blocks.simps) (cases st, auto simp: Let_def)
qed

definition file_ok :: "fs \<Rightarrow> editor \<Rightarrow> bool" where
  "file_ok f e \<longleftrightarrow> (ed_lazy e \<longrightarrow> (\<exists>bs. chain (disk f) (ed_file_bno e) bs))"

lemma load_window_ok:
  assumes "buf_ok e" "ed_lazy e" "file_ok f e"
  shows "\<exists>rc e'. editor_load_file_window f e start = Some (rc, e') \<and> buf_ok e'"
proof -
  obtain bs where "chain (disk f) (ed_file_bno e) bs" using assms(2,3) by (auto simp: file_ok_def)
  then obtain r b ls n row where w: "window_blocks f start (ed_file_size e) (ed_file_bno e) (no_lines, 0, 0) = Some (r, b, ls, n, row)"
    "raw_ok ls" "row \<le> 128"
    using window_blocks_ok [of f "ed_file_bno e" bs "(no_lines, 0, 0)" start "ed_file_size e"] by auto
  then have "rows_ok (map cut_row ls)" by (simp add: cut_ok raw_ok_def)
  then show ?thesis using w assms(1) by (auto simp: editor_load_file_window_def editor_set_status_def Let_def buf_ok_def)
qed

lemma with_window_ok:
  assumes "buf_ok e" "ed_lazy e" "file_ok f e" "\<And>e. buf_ok e \<Longrightarrow> buf_ok (g e)"
  shows "keeps (with_window f e start g)"
  using load_window_ok [OF assms(1-3), of start] assms(4) by (auto simp: with_window_def)

section \<open>Every key keeps the invariant\<close>

lemma cap_col_ok [simp]: "buf_ok (cap_col e) = buf_ok e"
  by (simp add: cap_col_def)

lemma keeps_moves:
  assumes "buf_ok e" "file_ok f e"
  shows "keeps (editor_page_up f e)" "keeps (editor_page_down f e)" "keeps (editor_move_up f e)" "keeps (editor_move_down f e)"
    "buf_ok (editor_move_left e)" "buf_ok (editor_move_right e)" "buf_ok (editor_move_home e)" "buf_ok (editor_move_end e)"
  using assms with_window_ok [OF assms(1) _ assms(2)]
  by (auto simp: editor_page_up_def editor_page_down_def editor_move_up_def editor_move_down_def editor_move_left_def
      editor_move_right_def editor_move_home_def editor_move_end_def Let_def)

lemma keeps_if: "(c \<Longrightarrow> keeps a) \<Longrightarrow> (\<not> c \<Longrightarrow> keeps b) \<Longrightarrow> keeps (if c then a else b)"
  by simp

lemma keeps_move_key: "buf_ok e \<Longrightarrow> file_ok f e \<Longrightarrow> keeps (move_key f e k)"
  unfolding move_key_def by (intro keeps_if) (simp_all add: keeps_moves)

lemma command_mode_ok [simp]: "buf_ok e \<Longrightarrow> buf_ok (editor_open_command_mode e)"
  by (simp add: editor_open_command_mode_def editor_set_status_def buf_ok_def)

lemma keeps_at_cursor: "ed_ok e \<Longrightarrow> keeps (delete_at_cursor e)"
  by (simp add: delete_at_cursor_def keeps_delete_char ed_okD)

lemma keeps_normal: "ed_ok e \<Longrightarrow> file_ok f e \<Longrightarrow> keeps (normal_action f e key)"
  unfolding normal_action_def Let_def
  by (intro keeps_if) (simp_all add: keeps_moves keeps_move_key keeps_open_below keeps_open_above keeps_at_cursor ed_okD)

lemma keeps_backspace: "ed_ok e \<Longrightarrow> keeps (editor_backspace e)"
  by (auto simp: editor_backspace_def keeps_join keeps_delete_char editor_move_left_def ed_okD)

lemma keeps_tab:
  "buf_ok e \<Longrightarrow> keeps (((\<lambda>r. Option.bind r (\<lambda>e. editor_insert_char e (CHR '' ''))) ^^ n) (Some e))"
proof (induction n)
  case (Suc n)
  then show ?case using keeps_insert [of _ "CHR '' ''"] by (auto simp: keeps_def)
qed simp

lemma char_ctrl: "of_char c \<ge> (32::nat) \<Longrightarrow> c \<noteq> NUL \<and> c \<noteq> NL"
  by auto

lemma keeps_insert_action: "ed_ok e \<Longrightarrow> file_ok f e \<Longrightarrow> keeps (insert_action f e key)"
  unfolding insert_action_def Let_def
  using keeps_newline [of e] keeps_insert [of e key] char_ctrl [of key]
  by (intro keeps_if) (simp_all add: keeps_backspace keeps_tab keeps_move_key ed_okD, simp add: ed_ok_def)

lemma insert_row: "editor_insert_char e c = Some e' \<Longrightarrow> ed_row e' = ed_row e \<and> ed_count e' = ed_count e"
  by (auto simp: editor_insert_char_def put_line_def Let_def split: if_splits)

lemma keeps_paste:
  "cstr clip \<Longrightarrow> buf_ok e \<Longrightarrow> ed_row e < ed_count e \<Longrightarrow> keeps (fold paste_char clip (Some e))"
proof (induction clip arbitrary: e)
  case (Cons c cs)
  have "\<exists>e'. paste_char c (Some e) = Some e' \<and> buf_ok e' \<and> ed_row e' < ed_count e'"
  proof (cases "c = NL")
    case True
    then show ?thesis using keeps_newline [OF Cons.prems(2,3)] by (auto simp: paste_char_def keeps_def)
  next
    case False
    then show ?thesis using keeps_insert [OF Cons.prems(2), of c] insert_row [of e c] Cons.prems
      by (auto simp: paste_char_def keeps_def)
  qed
  then obtain e' where "paste_char c (Some e) = Some e'" "buf_ok e'" "ed_row e' < ed_count e'" by blast
  then show ?case using Cons.IH [of e'] Cons.prems(1) by simp
qed simp

text \<open>The outcome of a key: a window that satisfies the invariant, or a closed one.\<close>

definition key_ok :: "edit_state option \<Rightarrow> bool" where
  "key_ok r \<longleftrightarrow> (case r of None \<Rightarrow> False | Some (Closed f) \<Rightarrow> True | Some (Open e f) \<Rightarrow> ed_ok e)"

lemma settled_ok: "keeps r \<Longrightarrow> key_ok (settled f r)"
  by (auto simp: keeps_def settled_def key_ok_def settle_ok)

lemma key_ok_Open [simp]: "key_ok (Some (Open e f)) = ed_ok e" "key_ok (Some (Closed f))"
  by (simp_all add: key_ok_def)

lemma find_next_ok: "buf_ok e \<Longrightarrow> buf_ok (editor_find_next e fwd)"
  by (auto simp: editor_find_next_def split: option.split)

lemma normal_key_ok: "ed_ok e \<Longrightarrow> file_ok f e \<Longrightarrow> key_ok (normal_key e f key)"
proof -
  assume ok: "ed_ok e" "file_ok f e"
  have "keeps (map_option (\<lambda>e. e\<lparr>ed_pending_d := False\<rparr>) (if key = CHR ''d'' then editor_delete_current_line e else Some e))"
    using keeps_delete_line [OF ok(1)] ok by (auto intro!: keeps_map simp: ed_okD)
  moreover have "ed_ok (e\<lparr>ed_mode := 3, ed_cmd := []\<rparr>)" using ok(1) by (simp add: ed_ok_def buf_ok_def line_at_def)
  ultimately show ?thesis unfolding normal_key_def using ok
    by (auto intro!: settled_ok simp: find_next_ok keeps_normal ed_okD)
qed

definition saves :: "editor \<Rightarrow> fs \<Rightarrow> bool" where
  "saves e f \<longleftrightarrow> (\<forall>buf. editor_collect_bytes e 8320 = Some buf \<longrightarrow> store_file_bytes f (ed_win e) (ed_name e) buf \<noteq> None)"

lemma save_ok:
  assumes "saves e f \<or> ed_readonly e"
  shows "\<exists>rc e' f'. editor_save_file e f = Some (rc, e', f') \<and> (\<exists>b s. e' = e\<lparr>ed_dirty := b, ed_status := s\<rparr>)"
proof -
  have e: "\<exists>b t. e\<lparr>ed_status := s\<rparr> = e\<lparr>ed_dirty := b, ed_status := t\<rparr>" for s
    by (intro exI [of _ "ed_dirty e"] exI [of _ s]) simp
  have e2: "\<exists>b t. e\<lparr>ed_dirty := False, ed_status := s\<rparr> = e\<lparr>ed_dirty := b, ed_status := t\<rparr>" for s
    by blast
  show ?thesis
  proof (cases "ed_readonly e \<or> editor_collect_bytes e 8320 = None")
    case True
    then show ?thesis using e by (auto simp: editor_save_file_def editor_set_status_def)
  next
    case False
    then obtain buf rc f' where b: "editor_collect_bytes e 8320 = Some buf"
        "store_file_bytes f (ed_win e) (ed_name e) buf = Some (rc, f')"
      using assms by (fastforce simp: saves_def)
    show ?thesis using False b e e2 by (cases "rc = 0") (auto simp: editor_save_file_def editor_set_status_def)
  qed
qed

lemma goto_ok:
  assumes "buf_ok e" "file_ok f e"
  shows "keeps (goto_line f e target)"
  using with_window_ok [OF assms(1) _ assms(2)] assms(1)
  by (auto simp: goto_line_def Let_def editor_scroll_to_cursor_def)

lemma command_done_ok: "buf_ok e \<Longrightarrow> buf_ok (command_done e)"
  by (simp add: command_done_def buf_ok_def)

definition after_command :: "edit_state \<Rightarrow> edit_state" where
  "after_command r = (case r of Open e f \<Rightarrow> Open (settle e) f | Closed f \<Rightarrow> Closed f)"

definition apply_ok :: "edit_state option \<Rightarrow> bool" where
  "apply_ok r \<longleftrightarrow> (case r of None \<Rightarrow> False | Some (Closed f) \<Rightarrow> True | Some (Open e f) \<Rightarrow> buf_ok e)"

lemma apply_ok_simps [simp]:
  "apply_ok (Some (Closed f))" "apply_ok (Some (Open e f)) = buf_ok e" "\<not> apply_ok None"
  by (simp_all add: apply_ok_def)

lemma apply_command_ok:
  assumes "buf_ok e" "file_ok f e" "saves e f \<or> ed_readonly e"
  shows "apply_ok (editor_apply_command e f)"
proof -
  obtain rc e' f' where s: "editor_save_file e f = Some (rc, e', f')" and e': "buf_ok e'"
    using save_ok [OF assms(3)] assms(1) by auto
  have g: "apply_ok (map_option (\<lambda>e. Open (command_done e) f) (goto_line f e t))" for t
    using goto_ok [OF assms(1,2), of t] by (auto simp: keeps_def command_done_ok)
  show ?thesis
    unfolding editor_apply_command_def Let_def
    using s e' g assms(1) by (auto simp: command_done_ok split: option.split)
qed

lemma set_cmd_ok: "ed_ok e \<Longrightarrow> length c \<le> 98 \<Longrightarrow> ed_ok (e\<lparr>ed_cmd := c\<rparr>)"
  by (simp add: ed_ok_def buf_ok_def line_at_def)

lemma show_command_ok:
  "ed_ok e \<Longrightarrow> length (ed_cmd e) \<le> 62 \<Longrightarrow> key_ok (map_option (\<lambda>e. Open e f) (show_command e))"
  by (simp add: show_command_def fits_def)

lemma command_key_ok:
  assumes "ed_ok e" "file_ok f e" "saves e f" "length (ed_cmd e) \<le> 61"
  shows "key_ok (command_key e f key)"
proof -
  let ?e = "e\<lparr>ed_pending_d := False\<rparr>"
  have "saves ?e f" "file_ok f ?e"
    using assms(2,3) by (simp_all add: saves_def editor_collect_bytes_def file_ok_def)
  then have "apply_ok (editor_apply_command ?e f)" using apply_command_ok [of ?e f] ed_okD(1) [OF assms(1)] by simp
  then have a: "key_ok (map_option (\<lambda>r. case r of Open e f \<Rightarrow> Open (settle e) f | Closed f \<Rightarrow> Closed f) (editor_apply_command ?e f))"
    by (auto simp: apply_ok_def key_ok_def settle_ok split: option.splits edit_state.splits)
  have e: "ed_ok (e\<lparr>ed_pending_d := False, ed_cmd := c\<rparr>)" if "length c \<le> 98" for c
    using set_cmd_ok [of ?e c] assms(1) that by simp
  have esc: "ed_ok (e\<lparr>ed_pending_d := False, ed_mode := 0, ed_cmd := []\<rparr>)" using e [of "[]"] by (simp add: ed_ok_def buf_ok_def line_at_def)
  have f: "key_ok (settled f (Some ((editor_find_next ?e True)\<lparr>ed_mode := 0\<rparr>)))"
    using find_next_ok [of ?e True] ed_okD(1) [OF assms(1)] by (intro settled_ok) simp
  have b: "key_ok (map_option (\<lambda>e. Open e f) (show_command (e\<lparr>ed_pending_d := False, ed_cmd := c\<rparr>)))" if "length c \<le> 62" for c
    by (rule show_command_ok) (use that e in simp_all)
  show ?thesis unfolding command_key_def Let_def
    using a b [of "butlast (ed_cmd e)"] b [of "ed_cmd e @ [key]"] esc f assms(1,4) by simp
qed


text \<open>
  C1: The status line overflows: a command or search text of 62 characters or more makes the next
  printable key write behind the 64 characters of \<open>editor_status\<close>, although the command itself may
  have 98 characters.
\<close>

theorem long_command_overflows:
  assumes "ed_mode e = 2 \<or> ed_mode e = 3" "62 \<le> length (ed_cmd e)" "length (ed_cmd e) < 98" "printable key"
  shows "editor_handle_key ctrl clip e f key = None"
  using assms by (auto simp: editor_handle_key_def command_key_def Let_def show_command_def fits_def printable_def)

end
