(* ===== verification/EditorText.thy ===== *)
theory EditorText
  imports EditorSafe
begin

text \<open>
  The rows of the editor as one text with a cursor: what the keys of the insert mode do to it, and
  what is loaded and saved.
\<close>

section \<open>A text and its rows\<close>

fun rows_of :: "string \<Rightarrow> string list" where
  "rows_of [] = [[]]"
| "rows_of (c # s) = (if c = NL then [] # rows_of s else (c # hd (rows_of s)) # tl (rows_of s))"

fun join_rows :: "string list \<Rightarrow> string" where
  "join_rows [] = []"
| "join_rows (l # ls) = l @ concat (map (\<lambda>l. NL # l) ls)"

lemma rows_of_Cons: "rows_of s \<noteq> []"
  by (cases s) auto

lemma rows_of_app: "NL \<notin> set l \<Longrightarrow> rows_of (l @ s) = (l @ hd (rows_of s)) # tl (rows_of s)"
  by (induction l) (auto simp: rows_of_Cons)

lemma rows_of_join: "ls \<noteq> [] \<Longrightarrow> \<forall>l \<in> set ls. NL \<notin> set l \<Longrightarrow> rows_of (join_rows ls) = ls"
proof (induction ls)
  case (Cons l ls)
  have "rows_of (concat (map (\<lambda>l. NL # l) ls)) = [] # ls"
  proof (cases ls)
    case (Cons m ms)
    then have "rows_of (m @ concat (map (\<lambda>l. NL # l) ms)) = m # ms" using Cons.IH Cons.prems by simp
    then show ?thesis using Cons by simp
  qed simp
  then show ?case using rows_of_app [of l] Cons.prems by simp
qed simp

lemma join_rows_of: "join_rows (rows_of s) = s"
proof (induction s)
  case (Cons c s)
  obtain l ls where "rows_of s = l # ls" using rows_of_Cons [of s] by (cases "rows_of s") auto
  then show ?case using Cons by simp
qed simp

lemma rows_no_nl: "l \<in> set (rows_of s) \<Longrightarrow> NL \<notin> set l"
proof (induction s arbitrary: l)
  case (Cons c s)
  obtain m ms where "rows_of s = m # ms" using rows_of_Cons [of s] by (cases "rows_of s") auto
  then show ?case using Cons by (auto split: if_splits)
qed simp

text \<open>A text that the editor can hold: at most 128 rows of at most 62 characters.\<close>

definition doc_fits :: "string \<Rightarrow> bool" where
  "doc_fits t \<longleftrightarrow> length (rows_of t) \<le> 128 \<and> (\<forall>l \<in> set (rows_of t). length l \<le> 62)"

section \<open>The cursor in the text\<close>

definition before_cursor :: "string list \<Rightarrow> nat \<Rightarrow> nat \<Rightarrow> string" where
  "before_cursor L r c = concat (map (\<lambda>l. l @ [NL]) (take r L)) @ take c (L ! r)"

definition behind_cursor :: "string list \<Rightarrow> nat \<Rightarrow> nat \<Rightarrow> string" where
  "behind_cursor L r c = drop c (L ! r) @ concat (map (\<lambda>l. NL # l) (drop (r + 1) L))"

lemma join_split: "r < length L \<Longrightarrow> before_cursor L r c @ behind_cursor L r c = join_rows L"
proof (induction r arbitrary: L)
  case 0
  then show ?case by (cases L) (simp_all add: before_cursor_def behind_cursor_def)
next
  case (Suc r)
  then obtain l ls where L: "L = l # ls" by (cases L) auto
  then have "before_cursor ls r c @ behind_cursor ls r c = join_rows ls" using Suc by simp
  moreover obtain m ms where "ls = m # ms" using Suc.prems L by (cases ls) auto
  ultimately show ?case by (simp add: L before_cursor_def behind_cursor_def)
qed

lemma row_split: "r < length L \<Longrightarrow> L = take r L @ L ! r # drop (r + 1) L"
  by (simp add: id_take_nth_drop)

lemma cursor_at:
  assumes "length A = r"
  shows "before_cursor (A @ l # B) r c = concat (map (\<lambda>l. l @ [NL]) A) @ take c l"
    "behind_cursor (A @ l # B) r c = drop c l @ concat (map (\<lambda>l. NL # l) B)"
  using assms by (simp_all add: before_cursor_def behind_cursor_def nth_append)

text \<open>What the changes of the rows are on the text, for rows \<open>A\<close>, the row \<open>l\<close> of the cursor, rows \<open>B\<close>.\<close>

lemma text_changes:
  assumes "length A = r" "c \<le> length l"
  shows
    "before_cursor (A @ (take c l @ x # drop c l) # B) r (c + 1) = before_cursor (A @ l # B) r c @ [x]"
    "behind_cursor (A @ (take c l @ x # drop c l) # B) r (c + 1) = behind_cursor (A @ l # B) r c"
    "before_cursor (A @ take c l # drop c l # B) (r + 1) 0 = before_cursor (A @ l # B) r c @ [NL]"
    "behind_cursor (A @ take c l # drop c l # B) (r + 1) 0 = behind_cursor (A @ l # B) r c"
proof -
  have m: "take (c + 1) (take c l @ x # drop c l) = take c l @ [x]" "drop (c + 1) (take c l @ x # drop c l) = drop c l"
    using assms(2) by (simp_all add: min_absorb2)
  show "before_cursor (A @ (take c l @ x # drop c l) # B) r (c + 1) = before_cursor (A @ l # B) r c @ [x]"
    "behind_cursor (A @ (take c l @ x # drop c l) # B) r (c + 1) = behind_cursor (A @ l # B) r c"
    unfolding cursor_at [OF assms(1)] m by simp_all
  have "length (A @ [take c l]) = r + 1" using assms(1) by simp
  note s = cursor_at [OF this, of "drop c l" B 0]
  show "before_cursor (A @ take c l # drop c l # B) (r + 1) 0 = before_cursor (A @ l # B) r c @ [NL]"
    "behind_cursor (A @ take c l # drop c l # B) (r + 1) 0 = behind_cursor (A @ l # B) r c"
    using s unfolding cursor_at [OF assms(1)] by simp_all
qed

lemma text_back:
  assumes "length A = r" "0 < c" "c \<le> length l"
  shows
    "before_cursor (A @ (take (c - 1) l @ drop c l) # B) r (c - 1) = butlast (before_cursor (A @ l # B) r c)"
    "behind_cursor (A @ (take (c - 1) l @ drop c l) # B) r (c - 1) = behind_cursor (A @ l # B) r c"
    "before_cursor (A @ l # B) r (c - 1) = butlast (before_cursor (A @ l # B) r c)"
    "behind_cursor (A @ l # B) r (c - 1) = last (before_cursor (A @ l # B) r c) # behind_cursor (A @ l # B) r c"
    "before_cursor (A @ l # B) r c \<noteq> []"
proof -
  have t: "take c l = take (c - 1) l @ [l ! (c - 1)]" using assms(2,3) take_Suc_conv_app_nth [of "c - 1" l] by simp
  have d: "drop (c - 1) l = l ! (c - 1) # drop c l" using assms(2,3) Cons_nth_drop_Suc [of "c - 1" l] by simp
  have "min (length l) (c - 1) = c - 1" using assms(3) by simp
  then show "before_cursor (A @ (take (c - 1) l @ drop c l) # B) r (c - 1) = butlast (before_cursor (A @ l # B) r c)"
    "behind_cursor (A @ (take (c - 1) l @ drop c l) # B) r (c - 1) = behind_cursor (A @ l # B) r c"
    "before_cursor (A @ l # B) r (c - 1) = butlast (before_cursor (A @ l # B) r c)"
    "behind_cursor (A @ l # B) r (c - 1) = last (before_cursor (A @ l # B) r c) # behind_cursor (A @ l # B) r c"
    "before_cursor (A @ l # B) r c \<noteq> []"
    unfolding cursor_at [OF assms(1)] t d by (simp_all add: butlast_append)
qed

lemma text_joined:
  assumes "length A + 1 = r"
  shows
    "before_cursor (A @ (p @ l) # B) (r - 1) (length p) = butlast (before_cursor (A @ p # l # B) r 0)"
    "behind_cursor (A @ (p @ l) # B) (r - 1) (length p) = behind_cursor (A @ p # l # B) r 0"
    "before_cursor (A @ p # l # B) (r - 1) (length p) = butlast (before_cursor (A @ p # l # B) r 0)"
    "behind_cursor (A @ p # l # B) (r - 1) (length p) = NL # behind_cursor (A @ p # l # B) r 0"
    "before_cursor (A @ p # l # B) r 0 \<noteq> []" "last (before_cursor (A @ p # l # B) r 0) = NL"
proof -
  have a: "length A = r - 1" using assms by simp
  have b: "length (A @ [p]) = r" using assms by simp
  note c = cursor_at [OF b, of l B 0, simplified]
  show "before_cursor (A @ (p @ l) # B) (r - 1) (length p) = butlast (before_cursor (A @ p # l # B) r 0)"
    "behind_cursor (A @ (p @ l) # B) (r - 1) (length p) = behind_cursor (A @ p # l # B) r 0"
    "before_cursor (A @ p # l # B) (r - 1) (length p) = butlast (before_cursor (A @ p # l # B) r 0)"
    "behind_cursor (A @ p # l # B) (r - 1) (length p) = NL # behind_cursor (A @ p # l # B) r 0"
    "before_cursor (A @ p # l # B) r 0 \<noteq> []" "last (before_cursor (A @ p # l # B) r 0) = NL"
    unfolding cursor_at [OF a] c by (simp_all add: butlast_append)
qed

definition ed_rows :: "editor \<Rightarrow> string list" where
  "ed_rows e = take (ed_count e) (ed_lines e)"

definition ed_text :: "editor \<Rightarrow> string \<times> string" where
  "ed_text e = (before_cursor (ed_rows e) (ed_row e) (ed_col e), behind_cursor (ed_rows e) (ed_row e) (ed_col e))"

text \<open>The keys that edit the text, and what they do to a text before and behind the cursor.\<close>

definition text_key :: "char \<Rightarrow> bool" where
  "text_key k \<longleftrightarrow> (of_char k :: nat) \<in> {8, 10, 13, 18, 19} \<or> 32 \<le> (of_char k :: nat) \<and> (of_char k :: nat) \<le> 127"

definition buffer_key :: "char \<Rightarrow> string \<times> string \<Rightarrow> string \<times> string" where
  "buffer_key k t =
     (case t of (l, r) \<Rightarrow> let n = of_char k :: nat in
        if n = 8 \<or> n = 127 then (butlast l, r)
        else if n = 10 \<or> n = 13 then (l @ [NL], r)
        else if n = 18 then (if l = [] then (l, r) else (butlast l, last l # r))
        else if n = 19 then (case r of [] \<Rightarrow> (l, r) | c # cs \<Rightarrow> (l @ [c], cs))
        else (l @ [k], r))"

section \<open>Each key refines its effect on the text\<close>

lemma ed_rows_facts:
  assumes "ed_ok e"
  shows "length (ed_rows e) = ed_count e" "ed_rows e ! ed_row e = line_at e (ed_row e)" "ed_row e < ed_count e"
    "\<forall>l \<in> set (ed_rows e). line_ok l" "ed_rows e \<noteq> []"
    "ed_rows e = take (ed_row e) (ed_lines e) @ line_at e (ed_row e) # drop (ed_row e + 1) (ed_rows e)"
    "\<And>m. m \<in> set (take (ed_row e) (ed_lines e)) \<Longrightarrow> NL \<notin> set m" "NL \<notin> set (line_at e (ed_row e))"
    "\<And>m. m \<in> set (drop (ed_row e + 1) (ed_rows e)) \<Longrightarrow> NL \<notin> set m" "length (take (ed_row e) (ed_lines e)) = ed_row e"
proof -
  have b: "length (ed_lines e) = 128" "ed_count e \<le> 128" "ed_row e < ed_count e" "\<forall>l \<in> set (ed_lines e). line_ok l"
    using assms by (simp_all add: ed_ok_def buf_ok_def rows_ok_def)
  show l: "length (ed_rows e) = ed_count e" "ed_rows e ! ed_row e = line_at e (ed_row e)" "ed_row e < ed_count e"
    "\<forall>l \<in> set (ed_rows e). line_ok l" "ed_rows e \<noteq> []"
    using b by (auto simp: ed_rows_def line_at_def dest: in_set_takeD)
  then show "ed_rows e = take (ed_row e) (ed_lines e) @ line_at e (ed_row e) # drop (ed_row e + 1) (ed_rows e)"
    using row_split [of "ed_row e" "ed_rows e"] by (simp add: ed_rows_def min_absorb1)
  show "NL \<notin> set m" if "m \<in> set (take (ed_row e) (ed_lines e))" for m
    using in_set_takeD [OF that] b(4) by (simp add: line_ok_def)
  show "NL \<notin> set (line_at e (ed_row e))" using ed_okD(3) [OF assms] by (simp add: line_ok_def)
  show "NL \<notin> set m" if "m \<in> set (drop (ed_row e + 1) (ed_rows e))" for m
    using in_set_dropD [OF that] l(4) by (simp add: line_ok_def)
  show "length (take (ed_row e) (ed_lines e)) = ed_row e" using b by simp
qed

lemma doc_fits_rows:
  assumes "\<forall>l \<in> set L. NL \<notin> set l" "r < length L" "doc_fits (before_cursor L r c @ behind_cursor L r c)"
  shows "length L \<le> 128" "\<forall>l \<in> set L. length l \<le> 62"
proof -
  have "L \<noteq> []" using assms(2) by auto
  then have "rows_of (before_cursor L r c @ behind_cursor L r c) = L"
    using rows_of_join assms(1) join_split [OF assms(2)] by simp
  then show "length L \<le> 128" "\<forall>l \<in> set L. length l \<le> 62" using assms(3) by (simp_all add: doc_fits_def)
qed

lemma settle_same: "ed_ok e \<Longrightarrow> \<exists>s. settle e = e\<lparr>ed_scroll := s\<rparr>"
proof -
  assume e: "ed_ok e"
  then have "min 128 (max 1 (ed_count e)) = ed_count e" "\<not> ed_row e \<ge> ed_count e"
    "min (editor_line_len (line_at e (ed_row e))) (ed_col e) = ed_col e"
    using ed_okD [OF e] by (auto simp: ed_ok_def buf_ok_def)
  then have "editor_clamp_cursor e = e" by (simp add: editor_clamp_cursor_def Let_def)
  then show ?thesis unfolding settle_def by (simp only: editor_scroll_to_cursor_def Let_def) blast
qed

text \<open>What a text key leaves alone.\<close>

definition same_file :: "editor \<Rightarrow> editor \<Rightarrow> bool" where
  "same_file e e' \<longleftrightarrow> ed_win e' = ed_win e \<and> ed_name e' = ed_name e \<and> ed_readonly e' = ed_readonly e \<and>
     ed_lazy e' = ed_lazy e \<and> ed_mode e' = ed_mode e \<and> ed_cmd e' = ed_cmd e"

definition reaches :: "editor option \<Rightarrow> editor \<Rightarrow> string \<times> string \<Rightarrow> bool" where
  "reaches r e t \<longleftrightarrow> (\<exists>e'. r = Some e' \<and> ed_ok e' \<and> same_file e e' \<and> ed_text e' = t)"

lemma reachesI:
  assumes "r = Some e'" "keeps r" "same_file e e'" "ed_row e' < ed_count e'" "ed_col e' \<le> length (ed_rows e' ! ed_row e')"
    "ed_text e' = t"
  shows "reaches r e t"
proof -
  have "buf_ok e'" using assms(1,2) by simp
  moreover from this have "ed_ok e'" using assms(4,5) by (simp add: ed_ok_def buf_ok_def rows_ok_def ed_rows_def line_at_def)
  ultimately show ?thesis using assms by (auto simp: reaches_def)
qed

lemma take_update_row:
  assumes "r < n" "n \<le> length ls"
  shows "take n (ls[r := x]) = take r ls @ x # drop (r + 1) (take n ls)"
proof -
  have "take n (ls[r := x]) = (take n ls)[r := x]" by (simp add: take_update_swap)
  also have "\<dots> = take r (take n ls) @ x # drop (Suc r) (take n ls)" using assms by (intro upd_conv_take_nth_drop) simp
  finally show ?thesis using assms by (simp add: min_absorb1)
qed

lemma refines_insert:
  assumes ok: "ed_ok e" and t: "ed_text e = (l, r)" and k: "32 \<le> (of_char k :: nat)" and f: "doc_fits (l @ k # r)"
  shows "reaches (editor_insert_char e k) e (l @ [k], r)"
proof -
  note R = ed_rows_facts [OF ok]
  let ?A = "take (ed_row e) (ed_lines e)" and ?B = "drop (ed_row e + 1) (ed_rows e)" and ?l = "line_at e (ed_row e)" and ?c = "ed_col e"
  let ?L = "?A @ (take ?c ?l @ k # drop ?c ?l) # ?B"
  have c: "?c \<le> length ?l" "line_ok ?l" "ed_row e < 128" using ok ed_okD [OF ok] by (simp_all add: ed_ok_def)
  note a = R(10)
  note T = text_changes(1,2) [OF a c(1), of k ?B]
  have tl: "before_cursor ?L (ed_row e) (?c + 1) = l @ [k]" "behind_cursor ?L (ed_row e) (?c + 1) = r"
    using T t R(6) by (simp_all add: ed_text_def)
  have "NL \<notin> set (take ?c ?l @ k # drop ?c ?l)"
    using R(8) char_ctrl [OF k] by (auto dest: in_set_takeD in_set_dropD)
  then have n: "\<forall>m \<in> set ?L. NL \<notin> set m" using R(7,9) by (auto simp del: set_append set_simps) auto
  have "length (take ?c ?l @ k # drop ?c ?l) \<le> 62"
    using doc_fits_rows(2) [OF n, of "ed_row e" "?c + 1"] f tl a by simp
  then have len: "length ?l \<le> 61" by simp
  have e: "editor_insert_char e k = Some (e\<lparr>ed_col := ?c + 1, ed_dirty := True, ed_lines := (ed_lines e)[ed_row e := take ?c ?l @ k # drop ?c ?l]\<rparr>)"
    (is "_ = Some ?e") using c len
    by (simp add: editor_insert_char_def Let_def put_line_def min_absorb2)
  have rows: "ed_rows ?e = ?L"
    using take_update_row [OF R(3), of "ed_lines e"] ok by (simp add: ed_rows_def ed_ok_def buf_ok_def rows_ok_def)
  show ?thesis
  proof (rule reachesI [OF e])
    show "keeps (editor_insert_char e k)" using keeps_insert [of e k] char_ctrl [OF k] ed_okD(1) [OF ok] by simp
    show "same_file e ?e" by (simp add: same_file_def)
    show "ed_row ?e < ed_count ?e" using R(3) by simp
    show "ed_col ?e \<le> length (ed_rows ?e ! ed_row ?e)" unfolding rows using a c(1) by (simp add: nth_append)
    show "ed_text ?e = (l @ [k], r)" unfolding ed_text_def rows using tl by simp
  qed
qed

lemma open_put_rows:
  assumes "r + 1 \<le> n" "n < length ls"
  shows "take (n + 1) ((open_rows (r + 1) n ls)[r + 1 := x]) = take (r + 1) ls @ x # drop (r + 1) (take n ls)"
proof -
  have l: "length (take (r + 2) ls) = r + 2" "length (drop (r + 1) (take n ls)) = n - (r + 1)" using assms by simp_all
  have "take (n + 1) (open_rows (r + 1) n ls) = take (r + 2) ls @ drop (r + 1) (take n ls)"
    using open_rows_eq [OF assms] l assms by simp
  then have "take (n + 1) ((open_rows (r + 1) n ls)[r + 1 := x]) = (take (r + 2) ls)[r + 1 := x] @ drop (r + 1) (take n ls)"
    using l(1) by (simp add: take_update_swap list_update_append)
  also have "(take (r + 2) ls)[r + 1 := x] = take (r + 1) ls @ [x]"
    using upd_conv_take_nth_drop [of "r + 1" "take (r + 2) ls" x] l(1) by (simp add: min_absorb1)
  finally show ?thesis by simp
qed

lemma refines_newline:
  assumes ok: "ed_ok e" and t: "ed_text e = (l, r)" and f: "doc_fits (l @ NL # r)"
  shows "reaches (editor_newline e) e (l @ [NL], r)"
proof -
  note R = ed_rows_facts [OF ok]
  let ?A = "take (ed_row e) (ed_lines e)" and ?B = "drop (ed_row e + 1) (ed_rows e)" and ?l = "line_at e (ed_row e)" and ?c = "ed_col e"
  let ?L = "?A @ take ?c ?l # drop ?c ?l # ?B"
  have c: "?c \<le> length ?l" "line_ok ?l" "ed_row e < 128" using ok ed_okD [OF ok] by (simp_all add: ed_ok_def)
  have b: "length (ed_lines e) = 128" "ed_count e \<le> 128" using ok by (simp_all add: ed_ok_def buf_ok_def rows_ok_def)
  note a = R(10)
  note T = text_changes(3,4) [OF a c(1), of ?B]
  have tl: "before_cursor ?L (ed_row e + 1) 0 = l @ [NL]" "behind_cursor ?L (ed_row e + 1) 0 = r"
    using T t R(6) by (simp_all add: ed_text_def)
  have "NL \<notin> set (take ?c ?l)" "NL \<notin> set (drop ?c ?l)" using R(8) by (auto dest: in_set_takeD in_set_dropD)
  then have n: "\<forall>m \<in> set ?L. NL \<notin> set m" using R(7,9) by (auto simp del: set_append set_simps) auto
  have len: "length ?L = ed_count e + 1" using a R(1,3) by simp
  then have cnt: "ed_count e < 128" using doc_fits_rows(1) [OF n, of "ed_row e + 1" 0] f tl R(3) by simp
  let ?e = "e\<lparr>ed_lines := (open_rows (ed_row e + 1) (ed_count e) ((ed_lines e)[ed_row e := take ?c ?l]))[ed_row e + 1 := drop ?c ?l],
     ed_count := ed_count e + 1, ed_row := ed_row e + 1, ed_col := 0, ed_dirty := True\<rparr>"
  have e: "editor_newline e = Some ?e"
    using c cnt R(3) by (simp add: editor_newline_def Let_def put_line_eq min_absorb2)
  have "take (ed_row e + 1) ((ed_lines e)[ed_row e := take ?c ?l]) = ?A @ [take ?c ?l]"
    using take_update_row [of "ed_row e" "ed_row e + 1" "ed_lines e" "take ?c ?l"] b c(3) by simp
  then have rows: "ed_rows ?e = ?L"
    using open_put_rows [of "ed_row e" "ed_count e" "(ed_lines e)[ed_row e := take ?c ?l]" "drop ?c ?l"] R(3) b cnt
    by (simp add: ed_rows_def take_update_swap)
  show ?thesis
  proof (rule reachesI [OF e])
    show "keeps (editor_newline e)" using keeps_newline [OF ed_okD(1) [OF ok] R(3)] by simp
    show "same_file e ?e" by (simp add: same_file_def)
    show "ed_row ?e < ed_count ?e" using R(3) by simp
    show "ed_col ?e \<le> length (ed_rows ?e ! ed_row ?e)" by simp
    show "ed_text ?e = (l @ [NL], r)" unfolding ed_text_def rows using tl by simp
  qed
qed

lemma refines_delete:
  assumes ok: "ed_ok e" and t: "ed_text e = (l, r)" and c0: "0 < ed_col e"
  shows "reaches (editor_backspace e) e (butlast l, r)"
proof -
  note R = ed_rows_facts [OF ok]
  let ?A = "take (ed_row e) (ed_lines e)" and ?B = "drop (ed_row e + 1) (ed_rows e)" and ?l = "line_at e (ed_row e)" and ?c = "ed_col e"
  let ?L = "?A @ (take (?c - 1) ?l @ drop ?c ?l) # ?B"
  have c: "?c \<le> length ?l" "line_ok ?l" "ed_row e < 128" using ok ed_okD [OF ok] by (simp_all add: ed_ok_def)
  have b: "length (ed_lines e) = 128" "ed_count e \<le> 128" using ok by (simp_all add: ed_ok_def buf_ok_def rows_ok_def)
  note a = R(10)
  note T = text_back(1,2) [OF a c0 c(1), of ?B]
  let ?e = "e\<lparr>ed_col := ?c - 1, ed_dirty := True, ed_lines := (ed_lines e)[ed_row e := take (?c - 1) ?l @ drop ?c ?l]\<rparr>"
  have "length ?l \<le> 63" using c(2) by (simp add: line_ok_def)
  then have lo: "line_ok (take (?c - 1) ?l @ drop ?c ?l)" by (intro line_ok_app) (use c in simp_all)
  have e: "editor_backspace e = Some ?e"
    using c0 put_line_eq [OF c(3) lo] by (simp add: editor_backspace_def editor_move_left_def delete_char_def Let_def line_at_def)
  have rows: "ed_rows ?e = ?L"
    using take_update_row [OF R(3), of "ed_lines e"] b by (simp add: ed_rows_def)
  show ?thesis
  proof (rule reachesI [OF e])
    show "keeps (editor_backspace e)" by (rule keeps_backspace [OF ok])
    show "same_file e ?e" by (simp add: same_file_def)
    show "ed_row ?e < ed_count ?e" using R(3) by simp
    show "ed_col ?e \<le> length (ed_rows ?e ! ed_row ?e)" unfolding rows using a c(1) by (simp add: nth_append)
    show "ed_text ?e = (butlast l, r)" unfolding ed_text_def rows using T t R(6) by (simp add: ed_text_def)
  qed
qed

lemma row_before:
  assumes "ed_ok e" "0 < ed_row e"
  shows "take (ed_row e) (ed_lines e) = take (ed_row e - 1) (ed_lines e) @ [line_at e (ed_row e - 1)]"
    "length (take (ed_row e - 1) (ed_lines e)) + 1 = ed_row e" "line_ok (line_at e (ed_row e - 1))"
proof -
  have b: "ed_row e - 1 < length (ed_lines e)" "ed_row e < 128" using ed_okD(2) [OF assms(1)] assms(1) by (auto simp: ed_ok_def buf_ok_def rows_ok_def)
  show "take (ed_row e) (ed_lines e) = take (ed_row e - 1) (ed_lines e) @ [line_at e (ed_row e - 1)]"
    using take_Suc_conv_app_nth [OF b(1)] assms(2) by (simp add: line_at_def)
  show "length (take (ed_row e - 1) (ed_lines e)) + 1 = ed_row e" using b assms(2) by simp
  show "line_ok (line_at e (ed_row e - 1))" using line_at_ok [OF ed_okD(1) [OF assms(1)]] b(2) by simp
qed

lemma close_put_rows:
  assumes "0 < r" "r < n" "n \<le> length ls"
  shows "take (n - 1) (close_rows r n (ls[r - 1 := x])) = take (r - 1) ls @ x # drop (r + 1) (take n ls)"
    "take (n - 1) (close_rows r n ls) = take r ls @ drop (r + 1) (take n ls)"
proof -
  have "take (n - 1) (close_rows r n ls) = take r ls @ drop (r + 1) (take n ls)" if "length ls = length ls'" "n \<le> length ls" for ls ls' :: "string list"
    using close_rows_eq [OF assms(2) that(2)] assms(2) that(2) by simp
  note c = this
  have "take r (ls[r - 1 := x]) = take (r - 1) ls @ [x]"
    using take_update_row [of "r - 1" r ls x] assms by simp
  then show "take (n - 1) (close_rows r n (ls[r - 1 := x])) = take (r - 1) ls @ x # drop (r + 1) (take n ls)"
    using c [of "ls[r - 1 := x]" "ls[r - 1 := x]"] assms by (simp add: take_update_swap)
  show "take (n - 1) (close_rows r n ls) = take r ls @ drop (r + 1) (take n ls)" using c [OF refl assms(3)] by simp
qed

lemma refines_join:
  assumes ok: "ed_ok e" and t: "ed_text e = (l, r)" and c0: "ed_col e = 0" "0 < ed_row e" and f: "doc_fits (butlast l @ r)"
  shows "reaches (editor_backspace e) e (butlast l, r)"
proof -
  note R = ed_rows_facts [OF ok] and P = row_before [OF ok c0(2)]
  let ?A = "take (ed_row e - 1) (ed_lines e)" and ?B = "drop (ed_row e + 1) (ed_rows e)" and ?l = "line_at e (ed_row e)" and ?p = "line_at e (ed_row e - 1)"
  let ?L = "?A @ (?p @ ?l) # ?B"
  have c: "line_ok ?l" "ed_row e < 128" using ed_okD [OF ok] by simp_all
  have b: "length (ed_lines e) = 128" "ed_count e \<le> length (ed_lines e)" using ok by (simp_all add: ed_ok_def buf_ok_def rows_ok_def)
  have old: "ed_rows e = ?A @ ?p # ?l # ?B" using R(6) P(1) by simp
  note T = text_joined(1,2) [OF P(2), of ?p ?l ?B]
  have tl: "before_cursor ?L (ed_row e - 1) (length ?p) = butlast l" "behind_cursor ?L (ed_row e - 1) (length ?p) = r"
    using T t old c0 by (simp_all add: ed_text_def)
  have n: "\<forall>m \<in> set ?L. NL \<notin> set m" using R(7-9) P(1,3) by (auto simp: line_ok_def)
  have "length (?p @ ?l) \<le> 62" using doc_fits_rows(2) [OF n, of "ed_row e - 1" "length ?p"] f tl P(2) by simp
  then have len: "length ?p + length ?l \<le> 62" by simp
  then have lo: "line_ok (?p @ ?l)" using c P(3) by (intro line_ok_app) simp_all
  let ?ls = "if ?l = [] then ed_lines e else (ed_lines e)[ed_row e - 1 := ?p @ ?l]"
  let ?e = "e\<lparr>ed_lines := close_rows (ed_row e) (ed_count e) ?ls, ed_count := max 1 (ed_count e - 1), ed_row := ed_row e - 1,
    ed_col := length ?p, ed_dirty := True\<rparr>"
  have e: "editor_backspace e = Some ?e"
    using c P(3) len c0 put_line_eq [OF _ lo] by (simp add: editor_backspace_def editor_join_with_previous_def Let_def)
  have "max 1 (ed_count e - 1) = ed_count e - 1" using R(3) c0(2) by simp
  then have rows: "ed_rows ?e = ?L"
    using close_put_rows [OF c0(2) R(3) b(2)] P(1) by (simp add: ed_rows_def)
  show ?thesis
  proof (rule reachesI [OF e])
    show "keeps (editor_backspace e)" by (rule keeps_backspace [OF ok])
    show "same_file e ?e" by (simp add: same_file_def)
    show "ed_row ?e < ed_count ?e" using R(3) c0(2) by simp
    show "ed_col ?e \<le> length (ed_rows ?e ! ed_row ?e)" unfolding rows using P(2) by (simp add: nth_append)
    show "ed_text ?e = (butlast l, r)" unfolding ed_text_def rows using tl by simp
  qed
qed

lemma moved:
  assumes ok: "ed_ok e" and "r < ed_count e" "c \<le> length (line_at e r)"
    and "t = (before_cursor (ed_rows e) r c, behind_cursor (ed_rows e) r c)"
  shows "reaches (Some (e\<lparr>ed_row := r, ed_col := c\<rparr>)) e t"
  using assms by (intro reachesI [OF refl]) (auto simp: ed_okD same_file_def ed_text_def ed_rows_def line_at_def)

lemma refines_left:
  assumes ok: "ed_ok e" and t: "ed_text e = (l, r)"
  shows "reaches (Some (editor_move_left e)) e (if l = [] then (l, r) else (butlast l, last l # r))"
proof -
  note R = ed_rows_facts [OF ok]
  have c: "ed_col e \<le> length (line_at e (ed_row e))" using ok by (simp add: ed_ok_def)
  consider "0 < ed_col e" | "ed_col e = 0" "0 < ed_row e" | "ed_col e = 0" "ed_row e = 0" by auto
  then show ?thesis
  proof cases
    case 1
    note T = text_back(3-5) [OF R(10) 1 c, of "drop (ed_row e + 1) (ed_rows e)", folded R(6)]
    have "reaches (Some (e\<lparr>ed_row := ed_row e, ed_col := ed_col e - 1\<rparr>)) e (butlast l, last l # r)"
      by (rule moved [OF ok R(3)]) (use T t c in \<open>simp_all add: ed_text_def\<close>)
    then show ?thesis using 1 T(3) t by (auto simp: editor_move_left_def ed_text_def)
  next
    case 2
    note P = row_before [OF ok 2(2)]
    have old: "ed_rows e = take (ed_row e - 1) (ed_lines e) @ line_at e (ed_row e - 1) # line_at e (ed_row e) # drop (ed_row e + 1) (ed_rows e)"
      using R(6) P(1) by simp
    note T = text_joined(3-6) [OF P(2), of "line_at e (ed_row e - 1)" "line_at e (ed_row e)" "drop (ed_row e + 1) (ed_rows e)", folded old]
    have "reaches (Some (e\<lparr>ed_row := ed_row e - 1, ed_col := length (line_at e (ed_row e - 1))\<rparr>)) e (butlast l, last l # r)"
      by (rule moved [OF ok]) (use R(3) T t 2 in \<open>simp_all add: ed_text_def\<close>)
    then show ?thesis using 2 T(3) t P(3) by (auto simp: editor_move_left_def ed_text_def)
  next
    case 3
    then have "l = []" using t by (simp add: ed_text_def before_cursor_def)
    then show ?thesis using 3 t ok by (auto simp: editor_move_left_def reaches_def same_file_def)
  qed
qed

lemma refines_right:
  assumes ok: "ed_ok e" and t: "ed_text e = (l, r)"
  shows "reaches (Some (editor_move_right e)) e (case r of [] \<Rightarrow> (l, r) | x # xs \<Rightarrow> (l @ [x], xs))"
proof -
  note R = ed_rows_facts [OF ok]
  have c: "ed_col e \<le> length (line_at e (ed_row e))" "line_ok (line_at e (ed_row e))" using ok ed_okD(3) [OF ok] by (simp_all add: ed_ok_def)
  consider "ed_col e < length (line_at e (ed_row e))" | "ed_col e = length (line_at e (ed_row e))" "ed_row e + 1 < ed_count e"
    | "ed_col e = length (line_at e (ed_row e))" "ed_row e + 1 = ed_count e" using c(1) R(3) by linarith
  then show ?thesis
  proof cases
    case 1
    then have "0 < ed_col e + 1" "ed_col e + 1 \<le> length (line_at e (ed_row e))" by simp_all
    note T = text_back(3-5) [OF R(10) this, of "drop (ed_row e + 1) (ed_rows e)", folded R(6)]
    define l' where "l' = before_cursor (ed_rows e) (ed_row e) (ed_col e + 1)"
    have l: "l = butlast l'" "r = last l' # behind_cursor (ed_rows e) (ed_row e) (ed_col e + 1)" "l' \<noteq> []"
      using T t by (simp_all add: ed_text_def l'_def)
    have "reaches (Some (e\<lparr>ed_row := ed_row e, ed_col := ed_col e + 1\<rparr>)) e (l', behind_cursor (ed_rows e) (ed_row e) (ed_col e + 1))"
      by (rule moved [OF ok R(3)]) (use 1 l'_def in simp_all)
    then show ?thesis using 1 l c(2) by (simp add: editor_move_right_def)
  next
    case 2
    let ?n = "line_at e (ed_row e + 1)"
    have b: "ed_row e + 1 < length (ed_rows e)" using 2(2) R(1) by simp
    have nx: "ed_rows e ! (ed_row e + 1) = ?n" using 2(2) by (simp add: ed_rows_def line_at_def)
    have "drop (ed_row e + 1) (ed_rows e) = ?n # drop (ed_row e + 2) (ed_rows e)"
      using Cons_nth_drop_Suc [OF b] nx by simp
    then have old: "ed_rows e = take (ed_row e) (ed_lines e) @ line_at e (ed_row e) # ?n # drop (ed_row e + 2) (ed_rows e)"
      using R(6) by simp
    have "length (take (ed_row e) (ed_lines e)) + 1 = ed_row e + 1" using R(10) by simp
    note T = text_joined(3-6) [OF this, of "line_at e (ed_row e)" ?n "drop (ed_row e + 2) (ed_rows e)", folded old, simplified]
    define l' where "l' = before_cursor (ed_rows e) (ed_row e + 1) 0"
    have l: "l = butlast l'" "r = NL # behind_cursor (ed_rows e) (ed_row e + 1) 0" "l' \<noteq> []" "last l' = NL"
      using T t 2(1) by (simp_all add: ed_text_def l'_def)
    have "reaches (Some (e\<lparr>ed_row := ed_row e + 1, ed_col := 0\<rparr>)) e (l', behind_cursor (ed_rows e) (ed_row e + 1) 0)"
      by (rule moved [OF ok 2(2)]) (use l'_def in simp_all)
    moreover have "l @ [NL] = l'" using l append_butlast_last_id [OF l(3)] by simp
    ultimately show ?thesis using 2 l(2) c(2) by (simp add: editor_move_right_def)
  next
    case 3
    then have "r = []" using t R by (simp add: ed_text_def behind_cursor_def)
    then show ?thesis using 3 t ok c(2) by (auto simp: editor_move_right_def reaches_def same_file_def)
  qed
qed

lemma refines_first: "ed_ok e \<Longrightarrow> ed_col e = 0 \<Longrightarrow> ed_row e = 0 \<Longrightarrow> ed_text e = (l, r) \<Longrightarrow> reaches (editor_backspace e) e (butlast l, r)"
  by (auto simp: editor_backspace_def editor_join_with_previous_def ed_text_def before_cursor_def reaches_def same_file_def)

lemma settled_reaches:
  assumes "reaches r e t"
  shows "\<exists>e'. settled f r = Some (Open e' f) \<and> ed_ok e' \<and> same_file e e' \<and> ed_text e' = t"
proof -
  obtain e' where e: "r = Some e'" "ed_ok e'" "same_file e e'" "ed_text e' = t" using assms by (auto simp: reaches_def)
  obtain s where s: "settle e' = e'\<lparr>ed_scroll := s\<rparr>" using settle_same [OF e(2)] by blast
  show ?thesis using e s by (simp add: settled_def ed_ok_def line_at_def same_file_def ed_text_def ed_rows_def)
qed

lemma key_refines:
  assumes ok: "ed_ok e" "ed_mode e = 1" and k: "text_key k" and f: "doc_fits (fst (buffer_key k (ed_text e)) @ snd (buffer_key k (ed_text e)))"
  shows "\<exists>e'. editor_handle_key False clip e f k = Some (Open e' f) \<and> ed_ok e' \<and> same_file e e' \<and> ed_text e' = buffer_key k (ed_text e)"
proof -
  obtain l r where t: "ed_text e = (l, r)" by force
  have m: "editor_handle_key False clip e f k = settled f (insert_action f e k)"
    using ok(2) k by (auto simp: editor_handle_key_def text_key_def)
  have "reaches (insert_action f e k) e (buffer_key k (l, r))"
  proof -
    consider "(of_char k :: nat) = 8 \<or> (of_char k :: nat) = 127" | "(of_char k :: nat) = 10 \<or> (of_char k :: nat) = 13"
      | "(of_char k :: nat) = 18" | "(of_char k :: nat) = 19" | "32 \<le> (of_char k :: nat)" "(of_char k :: nat) < 127"
      using k unfolding text_key_def by fastforce
    then show ?thesis
    proof cases
      case 1
      then have b: "buffer_key k (l, r) = (butlast l, r)" by (auto simp: buffer_key_def)
      have "reaches (editor_backspace e) e (butlast l, r)"
        using refines_delete [OF ok(1) t] refines_join [OF ok(1) t] refines_first [OF ok(1) _ _ t] f b t by fastforce
      then show ?thesis using 1 b by (simp add: insert_action_def)
    next
      case 2
      then show ?thesis using refines_newline [OF ok(1) t] f t by (auto simp: buffer_key_def insert_action_def)
    next
      case 3
      then show ?thesis using refines_left [OF ok(1) t] by (simp add: buffer_key_def insert_action_def move_key_def)
    next
      case 4
      then show ?thesis using refines_right [OF ok(1) t] by (simp add: buffer_key_def insert_action_def move_key_def)
    next
      case 5
      then show ?thesis using refines_insert [OF ok(1) t 5(1)] f t by (simp add: buffer_key_def insert_action_def)
    qed
  qed
  from settled_reaches [OF this, of f] show ?thesis by (simp add: m t)
qed

fun run_keys :: "string \<Rightarrow> string \<Rightarrow> editor \<Rightarrow> fs \<Rightarrow> edit_state option" where
  "run_keys clip [] e f = Some (Open e f)"
| "run_keys clip (k # ks) e f =
     (case editor_handle_key False clip e f k of
        None \<Rightarrow> None
      | Some (Closed f) \<Rightarrow> Some (Closed f)
      | Some (Open e f) \<Rightarrow> run_keys clip ks e f)"

text \<open>Every text on the way fits the editor.\<close>

fun all_fit_keys :: "string \<Rightarrow> string \<times> string \<Rightarrow> bool" where
  "all_fit_keys [] t = True"
| "all_fit_keys (k # ks) t = (let t' = buffer_key k t in doc_fits (fst t' @ snd t') \<and> all_fit_keys ks t')"

lemma same_file_trans: "same_file a b \<Longrightarrow> same_file b c \<Longrightarrow> same_file a c"
  by (simp add: same_file_def)

lemma keys_refine:
  assumes "ed_ok e" "ed_mode e = 1" "\<forall>k \<in> set ks. text_key k" "all_fit_keys ks (ed_text e)"
  shows "\<exists>e'. run_keys clip ks e f = Some (Open e' f) \<and> ed_ok e' \<and> same_file e e' \<and> ed_text e' = fold buffer_key ks (ed_text e)"
  using assms
proof (induction ks arbitrary: e)
  case Nil
  then show ?case by (simp add: same_file_def)
next
  case (Cons k ks)
  have k: "text_key k" and fit: "doc_fits (fst (buffer_key k (ed_text e)) @ snd (buffer_key k (ed_text e)))"
    and rest: "all_fit_keys ks (buffer_key k (ed_text e))"
    using Cons.prems(3,4) by (simp_all add: Let_def)
  obtain e1 where e1: "editor_handle_key False clip e f k = Some (Open e1 f)" "ed_ok e1" "same_file e e1"
    "ed_text e1 = buffer_key k (ed_text e)"
    using key_refines [OF Cons.prems(1,2) k fit] by blast
  have "ed_mode e1 = 1" using e1(3) Cons.prems(2) by (simp add: same_file_def)
  then obtain e2 where "run_keys clip ks e1 f = Some (Open e2 f)" "ed_ok e2" "same_file e1 e2" "ed_text e2 = fold buffer_key ks (ed_text e1)"
    using Cons.IH [of e1] e1(2,4) rest Cons.prems(3) by auto
  then show ?case using e1 same_file_trans by auto
qed

text \<open>
  C1: The insert mode edits a text: whatever sequence of printable characters, Return, Backspace and the
  arrows left and right is typed, the rows of the window, read as one text with a cursor, change as that
  text does under insertion, deletion and movement of the cursor (across the ends of rows as well), as
  long as the text has at most 128 rows of at most 62 characters.
\<close>

theorem editor_refines_text:
  assumes "ed_ok e" "ed_mode e = 1" "\<forall>k \<in> set ks. text_key k" "all_fit_keys ks (ed_text e)"
  shows "\<exists>e'. run_keys clip ks e f = Some (Open e' f) \<and> ed_ok e' \<and> ed_text e' = fold buffer_key ks (ed_text e)"
  using keys_refine [OF assms] by blast

section \<open>Saving\<close>

lemma collect_rows_join:
  assumes "\<forall>l \<in> set ls. line_ok l" "length acc + 64 * length ls \<le> n" "ls \<noteq> []"
  shows "collect_rows ls n acc = Some (acc @ map c2b (join_rows ls))"
  using assms
proof (induction ls arbitrary: acc)
  case (Cons l ls)
  have l: "line_ok l" "length l \<le> 63" using Cons.prems(1) by (simp_all add: line_ok_def)
  have nl: "c2b NL = 10" by (simp add: c2b_def)
  show ?case
  proof (cases ls)
    case Nil
    then show ?thesis using l Cons.prems(2) by simp
  next
    case (Cons m ms)
    have "collect_rows ls n (acc @ map c2b l @ [10]) = Some ((acc @ map c2b l @ [10]) @ map c2b (join_rows ls))"
      by (rule Cons.IH) (use Cons.prems l Cons in auto)
    then show ?thesis using l Cons.prems(2) Cons nl by simp
  qed
qed simp

lemma collect_text:
  assumes "ed_ok e"
  shows "editor_collect_bytes e 8320 = Some (map c2b (fst (ed_text e) @ snd (ed_text e)))"
proof -
  note R = ed_rows_facts [OF assms]
  have "length (ed_rows e) \<le> 128" using R(1) assms by (simp add: ed_ok_def buf_ok_def)
  then have "collect_rows (ed_rows e) 8320 [] = Some ([] @ map c2b (join_rows (ed_rows e)))"
    by (intro collect_rows_join [OF R(4) _ R(5)]) simp
  then show ?thesis using join_split [of "ed_row e" "ed_rows e" "ed_col e"] R(1,3)
    by (simp add: editor_collect_bytes_def ed_rows_def [symmetric] ed_text_def del: map_append)
qed

text \<open>Typing a text from its start on.\<close>

lemma rows_of_append: "rows_of (s @ t) = butlast (rows_of s) @ (last (rows_of s) @ hd (rows_of t)) # tl (rows_of t)"
proof (induction s)
  case Nil
  then show ?case using rows_of_Cons [of t] by simp
next
  case (Cons c s)
  obtain l ls where "rows_of s = l # ls" using rows_of_Cons [of s] by (cases "rows_of s") auto
  then show ?case using Cons by (cases ls) auto
qed

lemma doc_fits_prefix: "doc_fits (s @ t) \<Longrightarrow> doc_fits s"
proof -
  assume f: "doc_fits (s @ t)"
  have s: "rows_of s = butlast (rows_of s) @ [last (rows_of s)]" by (simp add: rows_of_Cons)
  have l: "length (rows_of s) \<le> length (rows_of (s @ t))" by (subst s, subst rows_of_append) simp
  have "length m \<le> 62" if "m \<in> set (rows_of s)" for m
  proof -
    have "m \<in> set (butlast (rows_of s)) \<or> m = last (rows_of s)" using that s by (metis Un_iff empty_iff list.set(1,2) insertE set_append)
    then show ?thesis using f rows_of_append [of s t] by (auto simp: doc_fits_def)
  qed
  then show ?thesis using f l by (simp add: doc_fits_def)
qed

definition typed :: "char \<Rightarrow> bool" where
  "typed c \<longleftrightarrow> printable c \<or> c = NL"

lemma typed_key: "typed c \<Longrightarrow> text_key c \<and> buffer_key c (l, []) = (l @ [c], [])"
  by (auto simp: typed_def printable_def text_key_def buffer_key_def Let_def)

lemma typed_fold: "\<forall>c \<in> set t. typed c \<Longrightarrow> fold buffer_key t (l, []) = (l @ t, [])"
  by (induction t arbitrary: l) (simp_all add: typed_key)

lemma typed_fits: "\<forall>c \<in> set t. typed c \<Longrightarrow> doc_fits (l @ t) \<Longrightarrow> all_fit_keys t (l, [])"
proof (induction t arbitrary: l)
  case (Cons c t)
  have "doc_fits (l @ [c])" using doc_fits_prefix [of "l @ [c]" t] Cons.prems(2) by simp
  then show ?case using Cons by (simp add: typed_key)
qed simp

lemma run_keys_app:
  "run_keys clip ks e f = Some (Open e' f') \<Longrightarrow> run_keys clip (ks @ ks') e f = run_keys clip ks' e' f'"
  by (induction ks arbitrary: e f) (auto split: option.splits edit_state.splits)

lemma insert_mode_key:
  assumes "ed_ok e" "ed_mode e = 0" "\<not> ed_pending_d e"
  shows "\<exists>e'. editor_handle_key False clip e f (CHR ''i'') = Some (Open e' f) \<and> ed_ok e' \<and> ed_mode e' = 1 \<and>
    ed_win e' = ed_win e \<and> ed_name e' = ed_name e \<and> ed_readonly e' = ed_readonly e \<and> ed_text e' = ed_text e"
proof -
  let ?i = "editor_open_insert_mode e"
  have i: "ed_ok ?i" using assms(1) by (simp add: editor_open_insert_mode_def)
  obtain s where "settle ?i = ?i\<lparr>ed_scroll := s\<rparr>" using settle_same [OF i] by blast
  then show ?thesis using assms i
    by (simp add: editor_handle_key_def normal_key_def normal_action_def settled_def editor_open_insert_mode_def
        editor_set_status_def ed_text_def ed_rows_def ed_ok_def buf_ok_def line_at_def)
qed

lemma save_keys:
  assumes ok: "ed_ok e" "ed_mode e = 1" "\<not> ed_readonly e"
    and st: "store_file_bytes f (ed_win e) (ed_name e) (map c2b (fst (ed_text e) @ snd (ed_text e))) = Some (0, f')"
  shows "\<exists>e'. run_keys clip [CHR 0x1B, CHR '':'', CHR ''w'', NL] e f = Some (Open e' f') \<and> \<not> ed_dirty e' \<and> ed_text e' = ed_text e"
proof -
  define e1 where "e1 = editor_set_status (e\<lparr>ed_mode := 0, ed_pending_d := False\<rparr>) HELP"
  have h1: "editor_handle_key False clip e f (CHR 0x1B) = Some (Open e1 f)" using ok(2) by (simp add: editor_handle_key_def e1_def)
  define e2 where "e2 = editor_open_command_mode e1"
  have "ed_ok e2" using set_cmd_ok [OF ok(1), of "[]"]
    by (simp add: e2_def e1_def editor_open_command_mode_def editor_set_status_def ed_ok_def buf_ok_def line_at_def)
  then obtain s where s: "settle e2 = e2\<lparr>ed_scroll := s\<rparr>" using settle_same by blast
  have h2: "editor_handle_key False clip e1 f (CHR '':'') = Some (Open (e2\<lparr>ed_scroll := s\<rparr>) f)"
    using s by (simp add: editor_handle_key_def normal_key_def normal_action_def settled_def e2_def e1_def editor_set_status_def)
  define e3 where "e3 = e2\<lparr>ed_scroll := s, ed_pending_d := False, ed_cmd := ''w'', ed_status := '':w''\<rparr>"
  have e2: "ed_mode e2 = 2" "ed_cmd e2 = []" by (simp_all add: e2_def editor_open_command_mode_def editor_set_status_def)
  have h3: "editor_handle_key False clip (e2\<lparr>ed_scroll := s\<rparr>) f (CHR ''w'') = Some (Open e3 f)"
    using e2 by (simp add: editor_handle_key_def command_key_def Let_def show_command_def fits_def editor_set_status_def lib_strcpy_def e3_def)
  have e3: "ed_ok e3" "ed_mode e3 = 2" "ed_cmd e3 = ''w''" "ed_win e3 = ed_win e" "ed_name e3 = ed_name e" "\<not> ed_readonly e3"
      "ed_text e3 = ed_text e"
    using set_cmd_ok [OF ok(1), of "''w''"] ok
    by (simp_all add: e3_def e2_def e1_def editor_open_command_mode_def editor_set_status_def ed_ok_def buf_ok_def line_at_def ed_text_def ed_rows_def)
  define e4 where "e4 = command_done (editor_set_status (e3\<lparr>ed_pending_d := False, ed_dirty := False\<rparr>) ''Saved'')"
  have ok4: "ed_ok e4" using set_cmd_ok [OF e3(1), of "[]"]
    by (simp add: e4_def command_done_def editor_set_status_def ed_ok_def buf_ok_def line_at_def)
  then obtain s4 where s4: "settle e4 = e4\<lparr>ed_scroll := s4\<rparr>" using settle_same by blast
  have "ed_ok (e3\<lparr>ed_pending_d := False\<rparr>)" using e3(1) by simp
  from collect_text [OF this] have "editor_collect_bytes (e3\<lparr>ed_pending_d := False\<rparr>) 8320 = Some (map c2b (fst (ed_text e) @ snd (ed_text e)))"
    using e3(7) by (simp add: ed_text_def ed_rows_def)
  then have "editor_save_file (e3\<lparr>ed_pending_d := False\<rparr>) f = Some (0, editor_set_status (e3\<lparr>ed_pending_d := False, ed_dirty := False\<rparr>) ''Saved'', f')"
    using st e3 by (simp add: editor_save_file_def)
  then have "editor_apply_command (e3\<lparr>ed_pending_d := False\<rparr>) f = Some (Open e4 f')"
    using e3(3) by (simp add: editor_apply_command_def e4_def)
  then have h4: "editor_handle_key False clip e3 f NL = Some (Open (e4\<lparr>ed_scroll := s4\<rparr>) f')"
    using e3(2) s4 by (simp add: editor_handle_key_def command_key_def Let_def)
  have "\<not> ed_dirty e4" "ed_text e4 = ed_text e"
    using e3(7) by (simp_all add: e4_def command_done_def editor_set_status_def ed_text_def ed_rows_def)
  then show ?thesis using h1 h2 h3 h4 by (simp add: ed_text_def ed_rows_def)
qed

end
