(* ===== verification/EditorFile.thy ===== *)
theory EditorFile
  imports EditorText
begin

text \<open>
  From the keys to the file and back: a text that is typed and saved is in the file, a file that is
  loaded and saved is unchanged as far as the editor can hold it.
\<close>

section \<open>Typing and saving\<close>

text \<open>
  C1: What is typed is what is stored: in an empty editor window for a plain name, on a disk with
  intact files and room, the keys \<open>i\<close>, the text (printable characters and Return, at most 128 rows of
  at most 62 characters), Escape, \<open>:w\<close> and Return end with the window open and unmodified, every
  file of the directory intact, and a file that holds exactly the bytes of the text.
\<close>

theorem typed_text_is_saved:
  assumes "ed_ok e" "ed_mode e = 0" "\<not> ed_pending_d e" "\<not> ed_readonly e" "ed_text e = ([], [])"
    and "dir_files f d own" "win_cwd_bno (ed_win e) = d" "plain_name (ed_name e)" "storable f d (ed_name e)"
    and "\<forall>c \<in> set t. typed c" "doc_fits t"
    and "free_blocks f \<noteq> {}" "length t \<le> 4088 * card (free_blocks f)"
  shows "\<exists>e' f' own'. run_keys clip (CHR ''i'' # t @ [CHR 0x1B, CHR '':'', CHR ''w'', NL]) e f = Some (Open e' f') \<and>
    \<not> ed_dirty e' \<and> dir_files f' d own' \<and>
    (\<forall>w mx. win_cwd_bno w = d \<and> length t \<le> mx \<longrightarrow>
       map_option fst (load_file_bytes f' w (ed_name e) mx) = Some (0, map c2b t))"
proof -
  note c = plain_chars [OF assms(8)]
  obtain e1 where e1: "editor_handle_key False clip e f (CHR ''i'') = Some (Open e1 f)" "ed_ok e1" "ed_mode e1 = 1"
    "ed_win e1 = ed_win e" "ed_name e1 = ed_name e" "\<not> ed_readonly e1" "ed_text e1 = ([], [])"
    using insert_mode_key [OF assms(1-3)] assms(4,5) by metis
  have k: "\<forall>k \<in> set t. text_key k" using assms(10) typed_key by blast
  have "all_fit_keys t (ed_text e1)" using typed_fits [of t "[]"] assms(10,11) e1(7) by simp
  then obtain e2 where e2: "run_keys clip t e1 f = Some (Open e2 f)" "ed_ok e2" "same_file e1 e2" "ed_text e2 = (t, [])"
    using keys_refine [OF e1(2,3) k] typed_fold [OF assms(10)] e1(7) by fastforce
  have w: "ed_win e2 = ed_win e" "ed_name e2 = ed_name e" "\<not> ed_readonly e2" "ed_mode e2 = 1"
    using e2(3) e1 by (simp_all add: same_file_def)
  have dir: "win_cwd_bno (ed_win e2) = d" using assms(7) w by simp
  have sto: "find_entry_index (stack_view f d) (ed_name e) (-1) = None \<and> (\<exists>i<102. e_free (disk f d) i) \<or>
      (\<exists>i<102. find_entry_index (stack_view f d) (ed_name e) (-1) = Some i \<and> e_type (disk f d) i \<noteq> 1)"
    using assms(9) by (auto simp: storable_def)
  obtain f' where st: "store_file_bytes f (ed_win e2) (ed_name e2) (map c2b t) = Some (0, f')"
    using store_succeeds [OF assms(6) dir, of "ed_name e2" "map c2b t"] c(6,2) sto assms(9,12,13) w(2) by (auto simp: storable_def)
  have len: "length (map c2b t) < 2 ^ 32"
  proof -
    have "card (free_blocks f) \<le> card {..< 512 :: nat}" by (rule card_mono) (auto simp: free_blocks_def)
    then show ?thesis using assms(13) by simp
  qed
  have "\<exists>own'. dir_files f' d own' \<and> (\<forall>w' mx. win_cwd_bno w' = d \<and> length (map c2b t) \<le> mx \<longrightarrow>
      map_option fst (load_file_bytes f' w' (ed_name e2) mx) = Some (0, map c2b t))"
    using store_load [OF assms(6) dir _ _ _ _ len st] c(1-3,6) w(2) by auto
  then obtain own' where o: "dir_files f' d own'" "\<forall>w' mx. win_cwd_bno w' = d \<and> length t \<le> mx \<longrightarrow>
      map_option fst (load_file_bytes f' w' (ed_name e) mx) = Some (0, map c2b t)" using w(2) by auto
  have "\<exists>e'. run_keys clip [CHR 0x1B, CHR '':'', CHR ''w'', NL] e2 f = Some (Open e' f') \<and> \<not> ed_dirty e' \<and> ed_text e' = ed_text e2"
    by (rule save_keys [OF e2(2) w(4,3)]) (use st e2(4) in simp)
  then obtain e' where s: "run_keys clip [CHR 0x1B, CHR '':'', CHR ''w'', NL] e2 f = Some (Open e' f')" "\<not> ed_dirty e'" by blast
  have "run_keys clip (t @ [CHR 0x1B, CHR '':'', CHR ''w'', NL]) e1 f = Some (Open e' f')"
    using run_keys_app [OF e2(1)] s(1) by simp
  then have "run_keys clip (CHR ''i'' # t @ [CHR 0x1B, CHR '':'', CHR ''w'', NL]) e f = Some (Open e' f')"
    using e1(1) by simp
  then show ?thesis using s(2) o by blast
qed

definition demo_editor :: editor where
  "demo_editor = editor_clear ((new_editor 1 ''/root'' ''a'')\<lparr>ed_lazy := False\<rparr>)"

lemma demo_editor_ok:
  "ed_ok demo_editor" "ed_mode demo_editor = 0" "\<not> ed_pending_d demo_editor" "\<not> ed_readonly demo_editor"
  "ed_text demo_editor = ([], [])" "win_cwd_bno (ed_win demo_editor) = 1" "ed_name demo_editor = ''a''"
proof -
  have "(replicate 128 [])[0 := []] = (replicate 128 [] :: string list)"
    using list_update_id [of "replicate 128 []" 0] by simp
  then have ls: "ed_lines demo_editor = replicate 128 []"
    by (simp add: demo_editor_def editor_clear_def new_editor_def no_lines_def)
  then have "rows_ok (ed_lines demo_editor)" by (simp add: rows_ok_def)
  then show "ed_ok demo_editor" "ed_mode demo_editor = 0" "\<not> ed_pending_d demo_editor" "\<not> ed_readonly demo_editor"
    "win_cwd_bno (ed_win demo_editor) = 1" "ed_name demo_editor = ''a''"
    by (simp_all add: ed_ok_def buf_ok_def demo_editor_def editor_clear_def new_editor_def tmp_window_def bno_or_root_def)
  have "ed_rows demo_editor = [[]]" using ls
    by (simp add: ed_rows_def demo_editor_def editor_clear_def new_editor_def)
  moreover have "ed_row demo_editor = 0" "ed_col demo_editor = 0" by (simp_all add: demo_editor_def editor_clear_def new_editor_def)
  ultimately show "ed_text demo_editor = ([], [])" by (simp add: ed_text_def before_cursor_def behind_cursor_def)
qed

theorem typed_text_is_saved_witness:
  "\<exists>e' f'. run_keys [] (CHR ''i'' # (''int x;'' @ [NL]) @ [CHR 0x1B, CHR '':'', CHR ''w'', NL]) demo_editor formatted = Some (Open e' f') \<and>
     map_option fst (load_file_bytes f' (tmp_window 1 []) ''a'' 100) = Some (0, map c2b (''int x;'' @ [NL]))"
proof -
  have t: "\<forall>c \<in> set (''int x;'' @ [NL]). typed c" by (simp add: typed_def printable_def)
  have fit: "doc_fits (''int x;'' @ [NL])" by (simp add: doc_fits_def)
  have fb: "free_blocks formatted \<noteq> {}" "length (''int x;'' @ [NL]) \<le> 4088 * card (free_blocks formatted)"
  proof -
    show n: "free_blocks formatted \<noteq> {}" using formatted_ok(2) by auto
    then have "1 \<le> card (free_blocks formatted)" by (simp add: Suc_le_eq card_gt_0_iff)
    then show "length (''int x;'' @ [NL]) \<le> 4088 * card (free_blocks formatted)" by simp
  qed
  have p: "plain_name (ed_name demo_editor)" "storable formatted 1 (ed_name demo_editor)"
    using plain_a storable_a by (simp_all add: demo_editor_ok(7))
  have w: "win_cwd_bno (tmp_window 1 []) = 1" by (simp add: tmp_window_def)
  show ?thesis
    using typed_text_is_saved [OF demo_editor_ok(1-5) formatted_ok(1) demo_editor_ok(6) p t fit fb, of "[]"] w demo_editor_ok(7)
    by fastforce
qed

section \<open>Loading and saving\<close>

lemma load_full: "128 \<le> row \<Longrightarrow> fold load_char bs (ls, row) = (ls, row)"
  by (induction bs) (simp_all add: load_char_def)

text \<open>The rows of a file: carriage returns are dropped, rows are cut after 63 characters.\<close>

definition file_rows :: "u8 list \<Rightarrow> string list" where
  "file_rows bs = rows_of (filter (\<lambda>c. c \<noteq> CHR 0x0D) (map b2c bs))"

lemma file_rows_simps:
  "file_rows [] = [[]]" "file_rows (13 # bs) = file_rows bs" "file_rows (10 # bs) = [] # file_rows bs"
  "b \<noteq> 13 \<Longrightarrow> b \<noteq> 10 \<Longrightarrow> file_rows (b # bs) = (b2c b # hd (file_rows bs)) # tl (file_rows bs)"
proof -
  have c: "c2b (CHR 0x0D) = 13" "c2b NL = 10" by (simp_all add: c2b_def)
  then have b: "b2c 13 = CHR 0x0D" "b2c 10 = NL" by (metis b2c_c2b)+
  then show "file_rows [] = [[]]" "file_rows (13 # bs) = file_rows bs" "file_rows (10 # bs) = [] # file_rows bs"
    by (simp_all add: file_rows_def)
  assume "b \<noteq> 13" "b \<noteq> 10"
  then have "b2c b \<noteq> CHR 0x0D" "b2c b \<noteq> NL" using c by (metis c2b_b2c)+
  then show "file_rows (b # bs) = (b2c b # hd (file_rows bs)) # tl (file_rows bs)" by (simp add: file_rows_def)
qed

lemma file_rows_Cons: "file_rows bs \<noteq> []"
  by (simp add: file_rows_def rows_of_Cons)

lemma take_snoc_cut: "length l \<le> 63 \<Longrightarrow> take 63 ((if length l < 63 then l @ [x] else l) @ m) = take 63 (l @ x # m)"
  by (cases "length l < 63") simp_all

lemma load_char_simps:
  "load_char 13 (ls, row) = (ls, row)" "row < 128 \<Longrightarrow> load_char 10 (ls, row) = (ls, row + 1)"
  by (simp_all add: load_char_def)

lemma load_rows:
  "length A < 128 \<Longrightarrow> length l \<le> 63 \<Longrightarrow>
   fold load_char bs (A @ l # replicate (127 - length A) [], length A) =
     (A @ take (128 - length A) (take 63 (l @ hd (file_rows bs)) # map (take 63) (tl (file_rows bs)) @ replicate 127 []),
      min 128 (length A + length (file_rows bs) - 1))"
proof (induction bs arbitrary: A l)
  case Nil
  have "128 - length A = Suc (127 - length A)" "127 - length A \<le> 127" using Nil by simp_all
  then show ?case using Nil by (simp add: file_rows_simps)
next
  case (Cons b bs)
  have at: "(A @ l # replicate (127 - length A) []) ! length A = l" by simp
  obtain m ms where r: "file_rows bs = m # ms" using file_rows_Cons [of bs] by (cases "file_rows bs") auto
  have suc: "128 - length A = Suc (127 - length A)" using Cons.prems(1) by simp
  consider "b = 13" | "b = 10" | "b \<noteq> 13" "b \<noteq> 10" by blast
  then show ?case
  proof cases
    case 1
    then show ?thesis using Cons by (simp add: load_char_simps file_rows_simps)
  next
    case 2
    show ?thesis
    proof (cases "length A + 1 < 128")
      case True
      have e: "127 - length A = Suc (127 - (length A + 1))" "128 - (length A + 1) = 127 - length A" using True by simp_all
      have "A @ l # replicate (127 - length A) [] = (A @ [l]) @ [] # replicate (127 - length (A @ [l])) []"
        using e(1) by simp
      then have "fold load_char bs (A @ l # replicate (127 - length A) [], length (A @ [l])) =
          ((A @ [l]) @ take (127 - length A) (take 63 (hd (file_rows bs)) # map (take 63) (tl (file_rows bs)) @ replicate 127 []),
           min 128 (length A + 1 + length (file_rows bs) - 1))"
        using Cons.IH [of "A @ [l]" "[]"] True e(2) by simp
      then show ?thesis using 2 Cons.prems r suc by (simp add: load_char_simps file_rows_simps)
    next
      case False
      then have A: "length A = 127" using Cons.prems(1) by simp
      then show ?thesis using 2 Cons.prems load_full [of 128 bs] r by (simp add: load_char_simps file_rows_simps)
    qed
  next
    case 3
    let ?l = "if length l < 63 then l @ [b2c b] else l"
    have u: "(A @ l # replicate (127 - length A) [])[length A := l @ [b2c b]] = A @ (l @ [b2c b]) # replicate (127 - length A) []"
      by simp
    have "load_char b (A @ l # replicate (127 - length A) [], length A) = (A @ ?l # replicate (127 - length A) [], length A)"
      using 3 Cons.prems(1) u by (simp add: load_char_def)
    moreover have "length ?l \<le> 63" using Cons.prems(2) by simp
    ultimately show ?thesis using Cons.IH [OF Cons.prems(1), of ?l] 3 r take_snoc_cut [OF Cons.prems(2), of "b2c b" m]
      by (simp add: file_rows_simps)
  qed
qed

lemma load_result:
  "fold load_char bs (no_lines, 0) =
    (take 128 (map (take 63) (file_rows bs) @ replicate 127 []), min 128 (length (file_rows bs) - 1))"
proof -
  obtain m ms where r: "file_rows bs = m # ms" using file_rows_Cons [of bs] by (cases "file_rows bs") auto
  have "no_lines = [] @ [] # replicate (127 - length ([] :: string list)) []" by (simp add: no_lines_def replicate_Suc [symmetric] del: replicate_Suc)
  then show ?thesis using load_rows [of "[]" "[]" bs] r by simp
qed

lemma loaded_rows: "ed_rows (editor_load_bytes e bs) = take 128 (map (cut_row \<circ> take 63) (file_rows bs))"
proof -
  let ?n = "length (file_rows bs)"
  have n: "0 < ?n" using file_rows_Cons by simp
  have "take k (take 128 (map (take 63) (file_rows bs) @ replicate 127 [])) = take 128 (map (take 63) (file_rows bs))"
    if "k = min 128 ?n" for k using that by (simp add: min_def)
  moreover have "(if min 128 (?n - 1) < 128 then min 128 (?n - 1) + 1 else 128) = min 128 ?n" using n by (auto simp: min_def)
  ultimately show ?thesis using n by (simp add: ed_rows_def editor_load_bytes_def load_result take_map [symmetric] map_map [symmetric] del: map_map)
qed

lemma cut_row_ok: "l \<in> set (file_rows bs) \<Longrightarrow> line_ok ((cut_row \<circ> take 63) l)"
proof -
  assume "l \<in> set (file_rows bs)"
  then have "NL \<notin> set l" by (simp add: file_rows_def rows_no_nl)
  moreover have "length (cut_row (take 63 l)) \<le> 63"
    unfolding cut_row_def using length_takeWhile_le [of _ "take 63 l"] by (rule le_trans) simp
  ultimately show ?thesis by (auto simp: line_ok_def cut_row_def dest!: set_takeWhileD in_set_takeD)
qed

lemma load_save_rows:
  "editor_collect_bytes (editor_load_bytes e bs) 8320 =
    Some (map c2b (join_rows (take 128 (map (cut_row \<circ> take 63) (file_rows bs)))))"
proof -
  let ?r = "take 128 (map (cut_row \<circ> take 63) (file_rows bs))"
  have "\<forall>l \<in> set ?r. line_ok l" using cut_row_ok [of _ bs] by (auto dest!: in_set_takeD)
  moreover have "?r \<noteq> []" using file_rows_Cons [of bs] by simp
  ultimately have "collect_rows ?r 8320 [] = Some ([] @ map c2b (join_rows ?r))" by (intro collect_rows_join) simp_all
  then show ?thesis using loaded_rows [of e bs] by (simp add: editor_collect_bytes_def ed_rows_def del: map_map)
qed

text \<open>
  A file that the editor cannot hold is changed by saving it: rows behind the 128th are dropped, although
  a file of less than 8064 bytes is opened for writing.
\<close>

lemma long_files_are_cut:
  assumes "128 < length (file_rows bs)"
  shows "\<exists>bs'. editor_collect_bytes (editor_load_bytes e bs) 8320 = Some bs' \<and> length (file_rows bs') = 128 \<and>
    \<not> ed_readonly (editor_load_bytes e bs)"
proof -
  let ?r = "take 128 (map (cut_row \<circ> take 63) (file_rows bs))"
  have ok: "\<forall>l \<in> set ?r. line_ok l" using cut_row_ok [of _ bs] by (auto dest!: in_set_takeD)
  have "CHR 0x0D \<notin> set l" if "l \<in> set ?r" for l
  proof -
    have "CHR 0x0D \<notin> set m" if "m \<in> set (rows_of s)" "CHR 0x0D \<notin> set s" for m s
      using that
    proof (induction s arbitrary: m)
      case (Cons c s)
      obtain l ls where "rows_of s = l # ls" using rows_of_Cons [of s] by (cases "rows_of s") auto
      then show ?case using Cons by (auto split: if_splits)
    qed simp
    then have "CHR 0x0D \<notin> set m" if "m \<in> set (file_rows bs)" for m using that by (simp add: file_rows_def)
    then show ?thesis using \<open>l \<in> set ?r\<close> by (auto simp: cut_row_def dest!: in_set_takeD set_takeWhileD)
  qed
  then have cr: "CHR 0x0D \<notin> set (join_rows ?r)" by (cases ?r) auto
  then have "filter (\<lambda>c. c \<noteq> CHR 0x0D) (join_rows ?r) = join_rows ?r" by (auto simp: filter_id_conv)
  then have "file_rows (map c2b (join_rows ?r)) = rows_of (join_rows ?r)"
    by (simp only: file_rows_def map_map o_def b2c_c2b map_ident)
  also have "\<dots> = ?r" using ok file_rows_Cons [of bs] by (intro rows_of_join) (auto simp: line_ok_def)
  finally show ?thesis using load_save_rows [of e bs] assms
    by (auto simp: editor_load_bytes_def split: prod.split)
qed

text \<open>
  C1: Loading and saving change nothing: a file without carriage returns and NUL bytes, of at most 128
  rows of at most 63 characters, is shown by the editor as it is and would be saved with exactly the bytes
  it was loaded from.
\<close>

theorem load_then_save:
  assumes "0 \<notin> set bs" "13 \<notin> set bs" "length (file_rows bs) \<le> 128" "\<forall>l \<in> set (file_rows bs). length l \<le> 63"
  shows "ed_ok (editor_load_bytes (editor_clear e) bs) \<and> ed_rows (editor_load_bytes e bs) = file_rows bs \<and>
    editor_collect_bytes (editor_load_bytes e bs) 8320 = Some bs"
proof -
  have c: "c2b (CHR 0x0D) = 13" by (simp add: c2b_def)
  have "CHR 0x0D \<notin> b2c ` set bs" "NUL \<notin> b2c ` set bs" using assms(1,2) c by (metis c2b_b2c image_iff, metis b2c_eq_NUL_iff image_iff)
  then have f: "filter (\<lambda>c. c \<noteq> CHR 0x0D) (map b2c bs) = map b2c bs" by (force simp: filter_id_conv)
  have nul: "NUL \<notin> set l" if "l \<in> set (rows_of s)" "NUL \<notin> set s" for l s
    using that
  proof (induction s arbitrary: l)
    case (Cons c s)
    obtain m ms where "rows_of s = m # ms" using rows_of_Cons [of s] by (cases "rows_of s") auto
    then show ?case using Cons by (auto split: if_splits)
  qed simp
  have "(cut_row \<circ> take 63) l = l" if "l \<in> set (file_rows bs)" for l
  proof -
    have "NUL \<notin> set l" using nul [of l "map b2c bs"] that f \<open>NUL \<notin> b2c ` set bs\<close> by (simp add: file_rows_def)
    then show ?thesis using assms(4) that by (auto simp: cut_row_def takeWhile_eq_all_conv)
  qed
  then have r: "take 128 (map (cut_row \<circ> take 63) (file_rows bs)) = file_rows bs"
    using assms(3) by (simp add: map_idI)
  moreover have "map c2b (join_rows (file_rows bs)) = bs"
    by (simp add: file_rows_def f join_rows_of map_idI)
  moreover have "ed_ok (editor_load_bytes (editor_clear e) bs)"
  proof -
    have "rows_ok (map cut_row (take 128 (map (take 63) (file_rows bs) @ replicate 127 [])))"
    proof (rule cut_ok)
      show "length (take 128 (map (take 63) (file_rows bs) @ replicate 127 [])) = 128"
        using file_rows_Cons [of bs] by (cases "file_rows bs") simp_all
      show "\<forall>l \<in> set (take 128 (map (take 63) (file_rows bs) @ replicate 127 [])). length l \<le> 63 \<and> NL \<notin> set l"
        by (auto simp: file_rows_def dest!: in_set_takeD rows_no_nl)
    qed
    then show ?thesis by (auto simp: ed_ok_def buf_ok_def editor_load_bytes_def load_result line_at_def editor_clear_def)
  qed
  ultimately show ?thesis using load_save_rows [of e bs] loaded_rows [of e bs] by simp
qed

theorem load_then_save_witness:
  "editor_collect_bytes (editor_load_bytes demo_editor [104, 105, 10, 111]) 8320 = Some [104, 105, 10, 111]"
proof -
  have r: "file_rows [104, 105, 10, 111] = [[b2c 104, b2c 105], [b2c 111]]" by (simp add: file_rows_simps)
  show ?thesis using load_then_save [of "[104, 105, 10, 111]" demo_editor] unfolding r by simp
qed

section \<open>Witnesses of the other properties\<close>

theorem editor_refines_text_witness:
  "\<exists>e'. run_keys [] [CHR ''a'', CHR 0x0D, CHR 0x12] (demo_editor\<lparr>ed_mode := 1\<rparr>) formatted = Some (Open e' formatted) \<and>
     ed_text e' = (''a'', [NL])"
proof -
  let ?e = "demo_editor\<lparr>ed_mode := 1\<rparr>" and ?k = "[CHR ''a'', CHR 0x0D, CHR 0x12]"
  have "ed_ok ?e" "ed_mode ?e = 1" using demo_editor_ok(1) by simp_all
  moreover have t: "ed_text ?e = ([], [])" using demo_editor_ok(5) by (simp add: ed_text_def ed_rows_def)
  moreover have "\<forall>k \<in> set ?k. text_key k" by (simp add: text_key_def)
  moreover have "all_fit_keys ?k ([], [])" "fold buffer_key ?k ([], []) = (''a'', [NL])"
    by (simp_all add: buffer_key_def Let_def doc_fits_def)
  ultimately show ?thesis using editor_refines_text [of ?e ?k "[]" formatted] by metis
qed

lemma demo_saves: "saves demo_editor formatted"
proof -
  have "editor_collect_bytes demo_editor 8320 = Some []"
    using collect_text [OF demo_editor_ok(1)] demo_editor_ok(5) by simp
  moreover have "store_file_bytes formatted (ed_win demo_editor) (ed_name demo_editor) [] \<noteq> None"
    using store_succeeds [OF formatted_ok(1) demo_editor_ok(6) formatted_window(2) _ formatted_entry, of "[]"] formatted_ok(2)
      demo_editor_ok(7) by auto
  ultimately show ?thesis by (simp add: saves_def)
qed


theorem long_command_overflows_witness:
  "editor_handle_key False [] (demo_editor\<lparr>ed_mode := 2, ed_cmd := replicate 62 (CHR ''a'')\<rparr>) formatted (CHR ''a'') = None"
  by (rule long_command_overflows) (simp_all add: printable_def)

text \<open>
  Deleting a line with \<open>dd\<close> also empties the line behind it: the rows have moved up when the row of the
  cursor is cleared.
\<close>

lemma dd_empties_next_line:
  assumes "ed_ok e" "ed_row e + 1 < ed_count e" "editor_delete_current_line e = Some e'"
  shows "ed_rows e' = take (ed_row e) (ed_lines e) @ [] # drop (ed_row e + 2) (ed_rows e)"
proof -
  have b: "length (ed_lines e) = 128" "ed_count e \<le> 128" "ed_row e < ed_count e"
    using assms(1) by (simp_all add: ed_ok_def buf_ok_def rows_ok_def)
  have c: "take (ed_count e - 1) (close_rows (ed_row e) (ed_count e) (ed_lines e)) =
      take (ed_row e) (ed_lines e) @ drop (ed_row e + 1) (take (ed_count e) (ed_lines e))"
    using close_rows_eq [OF b(3), of "ed_lines e"] b by simp
  have l: "length (take (ed_row e) (ed_lines e)) = ed_row e" using b by simp
  have d: "drop (ed_row e + 1) (take (ed_count e) (ed_lines e)) = ed_lines e ! (ed_row e + 1) # drop (ed_row e + 2) (take (ed_count e) (ed_lines e))"
    using Cons_nth_drop_Suc [of "ed_row e + 1" "take (ed_count e) (ed_lines e)"] assms(2) b by simp
  have "e' = e\<lparr>ed_count := ed_count e - 1, ed_row := ed_row e, ed_col := 0, ed_dirty := True,
      ed_lines := (close_rows (ed_row e) (ed_count e) (ed_lines e))[ed_row e := []]\<rparr>"
  proof -
    have "\<not> ed_count e \<le> 1" "\<not> ed_row e \<ge> ed_count e" "\<not> ed_row e \<ge> ed_count e - 1" "ed_row e < 128"
      using assms(2) b by simp_all
    then show ?thesis using assms(3) unfolding editor_delete_current_line_def put_line_def Let_def by (simp add: eq_commute [of _ e'])
  qed
  then have "ed_rows e' = (take (ed_row e) (ed_lines e) @ drop (ed_row e + 1) (take (ed_count e) (ed_lines e)))[ed_row e := []]"
    using c by (simp add: ed_rows_def take_update_swap)
  then show ?thesis unfolding d using l by (simp add: list_update_append ed_rows_def)
qed

end
