(* ===== verification/Spec2Isabelle.thy ===== *)
theory Spec2Isabelle
  imports Alloc Tasks Lib Clock TermEnv AppFs Asm AppVm TermLine TermOutput AppRun DesktopSafe ShellOut EditorFile
begin

text \<open>
  VibeOS for the FPGA (\<open>src/vibeos\<close>): a verification development.

  \<^bold>\<open>The program.\<close> VibeOS is an operating system in C for one RISC-V hart of 32 bits: a page
  allocator, a cooperative scheduler, a block file system on a RAM disk, user programs in their own
  page tables, and a desktop with terminal windows whose shell offers files, an assembler, an editor
  and network clients. What is modelled is the build \<open>FPGA_MINIMAL\<close> of the Makefile: 512 disk
  blocks of 4096 bytes, a screen of 512 x 384, four windows, terminals of 64 rows of 100 characters.
  In this build \<open>lib_printf\<close> prints nothing.

  \<^bold>\<open>How the parts interact.\<close> A key travels from \<open>gui_task\<close> (\<open>Desktop\<close>) into the queue of the active
  terminal, is edited into a line (\<open>Terminal\<close>, \<open>TermLine\<close>), expanded by aliases and variables
  (\<open>TermEnv\<close>) and run as a command (\<open>ShellFs\<close>); commands use the file system (\<open>FsFile\<close> over
  \<open>FsPath\<close> and \<open>FsDisk\<close>) or start a program (\<open>Launch\<close>): its file is loaded into pages of \<open>Alloc\<close>,
  mapped by \<open>AppVm\<close>, run by a task of \<open>Tasks\<close>, and served through system calls that use the
  descriptors of \<open>AppFs\<close>; what it prints becomes rows of the terminal (\<open>TermOutput\<close>).

  \<^bold>\<open>Conventions.\<close> A C structure is a record, a global structure of a component its state; an
  operation takes the state and returns it changed. Words have the width of the source; text is a
  \<open>string\<close> without its NUL, raw memory a function from offsets to bytes; an index that the code keeps
  in an \<open>int\<close> is an \<open>int\<close> or, where the invariant shows it is never negative, a \<open>nat\<close>. The value
  \<open>None\<close> of an operation stands for a run without a defined result (a write outside an array, a NULL
  dereference, \<open>panic\<close>, an endless loop), so that a theorem with \<open>Some\<close> in its conclusion shows the
  absence of these. Buffers keep their size: \<open>fits n s\<close> is the test that a text fits an array of
  \<open>n\<close> characters, and copies without a bound in the source that could exceed it become \<open>None\<close>.

  \<^bold>\<open>Theories.\<close>
  \<^item> \<open>Prelude\<close>: words, byte memories, texts, and the interfaces below.
  \<^item> \<open>Alloc\<close> (\<open>alloc.c\<close>): bitmap of pages, first-fit search with the hint, \<open>malloc\<close>, \<open>free\<close>,
    \<open>realloc\<close>; \<open>malloc\<close> gives fresh pages, \<open>free\<close> takes them back, \<open>page_init\<close> establishes the invariant.
  \<^item> \<open>Tasks\<close> (\<open>task.c\<close>, \<open>os.c\<close>): levels, run queues, creation, sleeping, waking, yielding; no task is
    lost or twice in a queue, and a runnable task is reached.
  \<^item> \<open>CString\<close>, \<open>Lib\<close> (\<open>string.c\<close>, \<open>user_utils.c\<close>, \<open>lib.c\<close>): block and text functions, the queue of the
    serial line, 64-bit division, formatted output.
  \<^item> \<open>Clock\<close> (\<open>timer.c\<close>, \<open>compat_time.c\<close>, \<open>user.c\<close>): the timer, calendar and time texts.
  \<^item> \<open>TermEnv\<close>: variables, aliases, path and variable expansion, the scripts of \<open>user_terminal.c\<close>.
  \<^item> \<open>FsDisk\<close>, \<open>FsPath\<close>, \<open>FsFile\<close>, \<open>FsStore\<close> (\<open>fs.c\<close>, \<open>user_fs_shell.c\<close>, \<open>user_editor.c\<close>): blocks and
    their map, directories and chains; paths; storing, loading, moving, removing; what a stored file
    is (\<open>is_file\<close>), that it is read back, that space is neither lost nor shared.
  \<^item> \<open>AppFs\<close> (\<open>fs.c\<close>, \<open>appfs_*\<close>): descriptors with their buffers; a descriptor refines an abstract
    file with a position.
  \<^item> \<open>Asm\<close> (\<open>apps/editor/tool_asm.c\<close>): tokens, labels, two passes, execution; every run agrees with an
    abstract machine over the parsed program and stays within its memory.
  \<^item> \<open>AppVm\<close> (\<open>app_runtime.c\<close>): page tables, the program heap, the ELF loader, the argument stack.
  \<^item> \<open>Terminal\<close>, \<open>TermLine\<close>, \<open>TermOutput\<close>, \<open>TermSafe\<close> (\<open>user_terminal.c\<close>): rows, line editor, history,
    secrets, program output; the edited line refines a text with a cursor, rows are a bounded log, and
    no key leaves the arrays of the window.
  \<^item> \<open>Launch\<close>, \<open>AppRun\<close> (\<open>user_cmd.c\<close>, \<open>trap.c\<close>, \<open>user.c\<close>): starting a program, the system calls,
    its exit, and the invariant of the kernel across all of them.
  \<^item> \<open>Desktop\<close>, \<open>DesktopSafe\<close> (\<open>user_gui.c\<close>): windows, their order, mouse and keys.
  \<^item> \<open>ShellText\<close>, \<open>ShellFs\<close> (\<open>user_cmd.c\<close>, \<open>user_fs_shell.c\<close>): the commands; \<open>ShellFiles\<close>, \<open>ShellSafe\<close>,
    \<open>ShellTree\<close>, \<open>ShellOut\<close>: what they do to files, what they protect, that the recursive ones end, and
    that no output exceeds its buffer.

  \<^bold>\<open>Interfaces.\<close> The locales of \<open>Prelude\<close> and \<open>TermEnv\<close> state what one part relies on, and each is
  interpreted on the code's definitions: \<open>used_map\<close> (the page bitmap, the block map),
  \<open>block_allocator\<close> (\<open>malloc\<close> and \<open>free\<close>), \<open>drop_oldest_queue\<close> (the queue of the serial line and of
  a window's keys), \<open>string_table\<close> (variables, aliases).

  \<^bold>\<open>Bounds and fuel.\<close> The loops of the source with a bound have it here (4096 pages, 512 blocks, 200000
  steps of the assembler, 16 keys of a frame); the others are functions with a termination proof.
  \<open>recursive_find\<close> and the copying of directories recurse along the disk, which may be cyclic; their
  argument \<open>room\<close> is the number of nested calls the stack has room for (about 12 of 5 KB in 64 KB) and
  \<open>None\<close> its overflow.

  \<^bold>\<open>Parameters.\<close> \<open>remote\<close> holds the clients of ssh and the SD card, \<open>ext\<close> the commands that run other
  programs, \<open>gext\<close> the input of windows that are not terminals, \<open>kinfo\<close> the addresses the linker gives.

  \<^bold>\<open>Not modelled.\<close> Painting, the network stack and its clients, the drivers of devices, the C compiler
  and the debugger, the emulator, the browser and the demos: they are device access, glue around
  libraries whose code is vendored, or output that nothing reads back. The manifest lists them.
\<close>

end
